(* ===== verification/Prelude.thy ===== *)
theory Prelude
  imports Main "HOL-Library.Word" "HOL-Library.List_Lexorder" "HOL-Library.Char_ord" "HOL-Library.Multiset"
begin

text \<open>
  Shared vocabulary of the development.

  Rust strings are sequences of UTF-8 bytes and are modelled by HOL's \<open>string\<close> (a list of
  bytes), so that \<open>length\<close> is Rust's \<open>len\<close> and list equality and list order are Rust's
  \<open>==\<close> and \<open>cmp\<close>.  \<open>Result<T, E>\<close> is the sum \<open>'e + 'a\<close> with the error on the
  left; unsigned machine integers are words of their width; \<open>i64\<close> is \<open>int\<close> with the range
  written out wherever an operation may leave it.  The theory also models the functions of the
  Rust standard library that several components call: splitting and trimming of strings, the
  ASCII classes, decimal formatting and parsing, decoding of UTF-8.
\<close>

named_theorems rust_defs \<open>definitions of small library functions, unfolded by component proofs\<close>
named_theorems res_simps \<open>inversion of successful Result computations\<close>

subsection \<open>Types\<close>

type_synonym u8 = "8 word"
type_synonym u16 = "16 word"
type_synonym u32 = "32 word"
type_synonym u64 = "64 word"
type_synonym i64 = int
type_synonym ('a, 'e) result = "'e + 'a"

subsection \<open>Result and Option combinators\<close>

definition and_then :: "'e + 'a \<Rightarrow> ('a \<Rightarrow> 'e + 'b) \<Rightarrow> 'e + 'b" where
  "and_then m f = (case m of Inl e \<Rightarrow> Inl e | Inr x \<Rightarrow> f x)"

definition map_err :: "('e \<Rightarrow> 'f) \<Rightarrow> 'e + 'a \<Rightarrow> 'f + 'a" where
  "map_err g m = (case m of Inl e \<Rightarrow> Inl (g e) | Inr x \<Rightarrow> Inr x)"

definition ok_or :: "'a option \<Rightarrow> 'e \<Rightarrow> 'e + 'a" where
  "ok_or m e = (case m of None \<Rightarrow> Inl e | Some x \<Rightarrow> Inr x)"

definition is_ok :: "'e + 'a \<Rightarrow> bool" where
  "is_ok m = (case m of Inl _ \<Rightarrow> False | Inr _ \<Rightarrow> True)"

definition reject_if :: "bool \<Rightarrow> 'e \<Rightarrow> 'e + unit" where
  "reject_if c e = (if c then Inl e else Inr ())"

definition is_some_and :: "'a option \<Rightarrow> ('a \<Rightarrow> bool) \<Rightarrow> bool" where
  "is_some_and m p = (case m of None \<Rightarrow> False | Some x \<Rightarrow> p x)"

definition is_none_or :: "'a option \<Rightarrow> ('a \<Rightarrow> bool) \<Rightarrow> bool" where
  "is_none_or m p = (case m of None \<Rightarrow> True | Some x \<Rightarrow> p x)"

text \<open>A \<open>for\<close> loop whose body ends in \<open>?\<close>: the first error is returned.\<close>

fun try_each :: "('a \<Rightarrow> 'e + unit) \<Rightarrow> 'a list \<Rightarrow> 'e + unit" where
  "try_each f [] = Inr ()"
| "try_each f (x # xs) = and_then (f x) (\<lambda>_. try_each f xs)"

text \<open>\<open>iter().map(f).collect::<Result<Vec<_>, _>>()\<close>.\<close>

fun try_map :: "('a \<Rightarrow> 'e + 'b) \<Rightarrow> 'a list \<Rightarrow> 'e + 'b list" where
  "try_map f [] = Inr []"
| "try_map f (x # xs) = and_then (f x) (\<lambda>y. and_then (try_map f xs) (\<lambda>ys. Inr (y # ys)))"

lemma and_then_simps [simp]:
  "and_then (Inl e) f = Inl e"
  "and_then (Inr x) f = f x"
  by (simp_all add: and_then_def)

lemma and_then_Inr [simp, res_simps]:
  "and_then m f = Inr y \<longleftrightarrow> (\<exists>x. m = Inr x \<and> f x = Inr y)"
  by (cases m) simp_all

lemma and_then_Inl [simp, res_simps]:
  "and_then m f = Inl e \<longleftrightarrow> m = Inl e \<or> (\<exists>x. m = Inr x \<and> f x = Inl e)"
  by (cases m) auto

lemma map_err_simps [simp]:
  "map_err g (Inl e) = Inl (g e)"
  "map_err g (Inr x) = Inr x"
  by (simp_all add: map_err_def)

lemma map_err_Inr [simp, res_simps]: "map_err g m = Inr y \<longleftrightarrow> m = Inr y"
  by (cases m) simp_all

lemma map_err_Inl [res_simps]: "map_err g m = Inl e \<longleftrightarrow> (\<exists>e'. m = Inl e' \<and> e = g e')"
  by (cases m) auto

lemma ok_or_Inr [simp, res_simps]: "ok_or m e = Inr y \<longleftrightarrow> m = Some y"
  by (cases m) (simp_all add: ok_or_def)

lemma ok_or_Inl [simp, res_simps]: "ok_or m e = Inl e' \<longleftrightarrow> m = None \<and> e' = e"
  by (cases m) (auto simp: ok_or_def)

lemma ok_or_simps [simp]:
  "ok_or None e = Inl e"
  "ok_or (Some x) e = Inr x"
  by (simp_all add: ok_or_def)

lemma is_ok_simps [simp]:
  "is_ok (Inl e) = False"
  "is_ok (Inr x) = True"
  by (simp_all add: is_ok_def)

lemma is_ok_iff: "is_ok m \<longleftrightarrow> (\<exists>x. m = Inr x)"
  by (cases m) simp_all

lemma is_ok_unit: "is_ok (m :: 'e + unit) \<longleftrightarrow> m = Inr ()"
  by (cases m) simp_all

lemma reject_if_Inr [simp, res_simps]: "reject_if c e = Inr y \<longleftrightarrow> \<not> c"
  by (simp add: reject_if_def)

lemma reject_if_Inl [simp, res_simps]: "reject_if c e = Inl e' \<longleftrightarrow> c \<and> e' = e"
  by (auto simp: reject_if_def)

lemma reject_if_simps [simp]:
  "reject_if True e = Inl e"
  "reject_if False e = Inr ()"
  by (simp_all add: reject_if_def)

lemma is_some_and_simps [simp]:
  "is_some_and None p = False"
  "is_some_and (Some x) p = p x"
  by (simp_all add: is_some_and_def)

lemma is_none_or_simps [simp]:
  "is_none_or None p = True"
  "is_none_or (Some x) p = p x"
  by (simp_all add: is_none_or_def)

lemma is_some_and_iff: "is_some_and m p \<longleftrightarrow> (\<exists>x. m = Some x \<and> p x)"
  by (cases m) simp_all

lemma is_none_or_iff: "is_none_or m p \<longleftrightarrow> (\<forall>x. m = Some x \<longrightarrow> p x)"
  by (cases m) simp_all

lemma try_each_Inr [simp, res_simps]: "try_each f xs = Inr y \<longleftrightarrow> (\<forall>x\<in>set xs. f x = Inr ())"
  by (induction xs) auto

lemma try_map_Inr: "try_map f xs = Inr ys \<longleftrightarrow> list_all2 (\<lambda>x y. f x = Inr y) xs ys"
  by (induction xs arbitrary: ys) (auto simp: list_all2_Cons1)

lemma sum_unit_cases: "(m :: 'e + unit) = Inr () \<or> (\<exists>e. m = Inl e)"
  by (cases m) simp_all

subsection \<open>Sorting by distinct keys\<close>

text \<open>Sorting forgets the order of the input when no two elements share a key.\<close>

lemma mset_map_distinct: "mset xs = mset ys \<Longrightarrow> distinct (map f xs) \<longleftrightarrow> distinct (map f ys)"
  by (metis mset_eq_imp_distinct_iff mset_map)

lemma sort_key_perm:
  assumes "distinct (map f xs)" "mset xs = mset ys"
  shows "sort_key f xs = sort_key f ys"
proof (rule map_sorted_distinct_set_unique)
  have set: "set xs = set ys" using assms(2) mset_eq_setD by blast
  have "inj_on f (set xs)" using assms(1) by (simp add: distinct_map)
  with set show "inj_on f (set (sort_key f xs) \<union> set (sort_key f ys))" by simp
  show "sorted (map f (sort_key f xs))" "sorted (map f (sort_key f ys))" by simp_all
  show "distinct (map f (sort_key f xs))"
    using assms(1) mset_map_distinct[of "sort_key f xs" xs f] by simp
  show "distinct (map f (sort_key f ys))"
    using assms mset_map_distinct[of "sort_key f ys" xs f] by simp
  show "set (sort_key f xs) = set (sort_key f ys)" using set by simp
qed

subsection \<open>Machine integers\<close>

definition i64_min :: int where "i64_min = - (2 ^ 63)"
definition i64_max :: int where "i64_max = 2 ^ 63 - 1"

definition in_i64 :: "int \<Rightarrow> bool" where
  "in_i64 x = (i64_min \<le> x \<and> x \<le> i64_max)"

definition checked_add_i64 :: "int \<Rightarrow> int \<Rightarrow> int option" where
  "checked_add_i64 a b = (if in_i64 (a + b) then Some (a + b) else None)"

text \<open>Plain \<open>+\<close> and \<open>-\<close> on \<open>i64\<close> wrap in the release profile.\<close>

definition wrap_i64 :: "int \<Rightarrow> int" where
  "wrap_i64 x = (x + 2 ^ 63) mod 2 ^ 64 - 2 ^ 63"

lemma wrap_i64_id [simp]: "in_i64 x \<Longrightarrow> wrap_i64 x = x"
  by (simp add: wrap_i64_def in_i64_def i64_min_def i64_max_def)

lemma checked_add_i64_Some: "checked_add_i64 a b = Some c \<longleftrightarrow> c = a + b \<and> in_i64 (a + b)"
  by (auto simp: checked_add_i64_def)

subsection \<open>ASCII classes of bytes\<close>

abbreviation byte :: "char \<Rightarrow> nat" where "byte c \<equiv> of_char c"

definition is_ascii_digit :: "char \<Rightarrow> bool" where
  "is_ascii_digit c = (48 \<le> byte c \<and> byte c \<le> 57)"

definition is_ascii_lowercase :: "char \<Rightarrow> bool" where
  "is_ascii_lowercase c = (97 \<le> byte c \<and> byte c \<le> 122)"

definition is_ascii_uppercase :: "char \<Rightarrow> bool" where
  "is_ascii_uppercase c = (65 \<le> byte c \<and> byte c \<le> 90)"

definition is_ascii_alphanumeric :: "char \<Rightarrow> bool" where
  "is_ascii_alphanumeric c = (is_ascii_digit c \<or> is_ascii_lowercase c \<or> is_ascii_uppercase c)"

definition is_ascii_alphabetic :: "char \<Rightarrow> bool" where
  "is_ascii_alphabetic c = (is_ascii_lowercase c \<or> is_ascii_uppercase c)"

definition is_lower_hex :: "char \<Rightarrow> bool" where
  "is_lower_hex c = (is_ascii_digit c \<or> (97 \<le> byte c \<and> byte c \<le> 102))"

definition ascii_lower :: "char \<Rightarrow> char" where
  "ascii_lower c = (if is_ascii_uppercase c then char_of (byte c + 32) else c)"

definition to_ascii_lowercase :: "string \<Rightarrow> string" where
  "to_ascii_lowercase s = map ascii_lower s"

definition eq_ignore_ascii_case :: "string \<Rightarrow> string \<Rightarrow> bool" where
  "eq_ignore_ascii_case a b = (to_ascii_lowercase a = to_ascii_lowercase b)"

lemmas ascii_defs = is_ascii_digit_def is_ascii_lowercase_def is_ascii_uppercase_def
  is_ascii_alphanumeric_def is_ascii_alphabetic_def is_lower_hex_def

lemma eq_ignore_ascii_case_refl [simp]: "eq_ignore_ascii_case a a"
  by (simp add: eq_ignore_ascii_case_def)

subsection \<open>Prefixes, suffixes and splitting\<close>

fun strip_prefix :: "string \<Rightarrow> string \<Rightarrow> string option" where
  "strip_prefix [] s = Some s"
| "strip_prefix (p # ps) [] = None"
| "strip_prefix (p # ps) (c # cs) = (if p = c then strip_prefix ps cs else None)"

definition starts_with :: "string \<Rightarrow> string \<Rightarrow> bool" where
  "starts_with p s = (strip_prefix p s \<noteq> None)"

definition ends_with :: "string \<Rightarrow> string \<Rightarrow> bool" where
  "ends_with p s = starts_with (rev p) (rev s)"

fun split_once :: "char \<Rightarrow> string \<Rightarrow> (string \<times> string) option" where
  "split_once d [] = None"
| "split_once d (c # cs) =
     (if c = d then Some ([], cs) else map_option (\<lambda>(a, b). (c # a, b)) (split_once d cs))"

fun split_once_str :: "string \<Rightarrow> string \<Rightarrow> (string \<times> string) option" where
  "split_once_str p [] = (if p = [] then Some ([], []) else None)"
| "split_once_str p (c # cs) =
     (case strip_prefix p (c # cs) of
        Some r \<Rightarrow> Some ([], r)
      | None \<Rightarrow> map_option (\<lambda>(a, b). (c # a, b)) (split_once_str p cs))"

definition contains_str :: "string \<Rightarrow> string \<Rightarrow> bool" where
  "contains_str p s = (split_once_str p s \<noteq> None)"

fun split_on :: "char \<Rightarrow> string \<Rightarrow> string list" where
  "split_on d [] = [[]]"
| "split_on d (c # cs) =
     (if c = d then [] # split_on d cs
      else (case split_on d cs of [] \<Rightarrow> [[c]] | p # ps \<Rightarrow> (c # p) # ps))"

definition trim_end_matches :: "char \<Rightarrow> string \<Rightarrow> string" where
  "trim_end_matches d s = rev (dropWhile (\<lambda>c. c = d) (rev s))"

lemma strip_prefix_Some: "strip_prefix p s = Some r \<longleftrightarrow> s = p @ r"
  by (induction p s rule: strip_prefix.induct) auto

lemma strip_prefix_append [simp]: "strip_prefix p (p @ r) = Some r"
  by (simp add: strip_prefix_Some)

lemma starts_with_iff: "starts_with p s \<longleftrightarrow> (\<exists>r. s = p @ r)"
  using strip_prefix_Some by (auto simp: starts_with_def)

lemma ends_with_iff: "ends_with p s \<longleftrightarrow> (\<exists>r. s = r @ p)"
proof
  assume "ends_with p s"
  then obtain r where "rev s = rev p @ r" by (auto simp: ends_with_def starts_with_iff)
  then have "s = rev r @ p" by (metis rev_append rev_rev_ident)
  then show "\<exists>r. s = r @ p" ..
next
  assume "\<exists>r. s = r @ p"
  then show "ends_with p s" by (auto simp: ends_with_def starts_with_iff)
qed

lemma split_once_Some: "split_once d s = Some (a, b) \<longleftrightarrow> s = a @ d # b \<and> d \<notin> set a"
proof (induction s arbitrary: a)
  case Nil
  then show ?case by simp
next
  case (Cons c cs)
  show ?case
  proof (cases "c = d")
    case True
    then show ?thesis by (cases a) auto
  next
    case False
    then show ?thesis using Cons.IH by (cases a) auto
  qed
qed

lemma split_once_append [simp]: "d \<notin> set a \<Longrightarrow> split_once d (a @ d # b) = Some (a, b)"
  by (simp add: split_once_Some)

lemma split_once_str_SomeD: "split_once_str p s = Some (a, b) \<Longrightarrow> s = a @ p @ b"
  by (induction p s arbitrary: a rule: split_once_str.induct)
    (auto split: if_splits option.splits simp: strip_prefix_Some)

lemma split_once_str_first:
  assumes "p = d # q" and "d \<notin> set a"
  shows "split_once_str p (a @ p @ b) = Some (a, b)"
  using assms(2)
proof (induction a)
  case Nil
  then show ?case by (simp add: assms(1))
next
  case (Cons c cs)
  then have "strip_prefix p (c # cs @ p @ b) = None" by (simp add: assms(1))
  with Cons show ?case by simp
qed

lemma split_on_nonempty [simp]: "split_on d s \<noteq> []"
  by (cases s) (auto split: list.splits)

lemma split_on_no_sep: "p \<in> set (split_on d s) \<Longrightarrow> d \<notin> set p"
  by (induction s arbitrary: p) (auto split: if_splits list.splits)

lemma split_on_chars: "p \<in> set (split_on d s) \<Longrightarrow> set p \<subseteq> set s"
proof (induction s arbitrary: p)
  case (Cons c cs)
  then show ?case by (fastforce split: if_splits list.splits)
qed simp

lemma split_on_none: "d \<notin> set a \<Longrightarrow> split_on d a = [a]"
  by (induction a) auto

lemma split_on_append: "d \<notin> set a \<Longrightarrow> split_on d (a @ d # b) = a # split_on d b"
  by (induction a) auto

subsection \<open>Decimal numbers\<close>

definition digit_char :: "nat \<Rightarrow> char" where
  "digit_char n = char_of (48 + n)"

definition digit_val :: "char \<Rightarrow> nat" where
  "digit_val c = byte c - 48"

fun decimal :: "nat \<Rightarrow> string" where
  "decimal n = (if n < 10 then [digit_char n] else decimal (n div 10) @ [digit_char (n mod 10)])"

declare decimal.simps [simp del]

definition decimal_val :: "string \<Rightarrow> nat" where
  "decimal_val s = foldl (\<lambda>a c. 10 * a + digit_val c) 0 s"

text \<open>\<open>str::parse\<close> for the unsigned type of \<open>w\<close> bits: an optional plus sign, at least one
  digit, no overflow.\<close>

definition parse_unsigned :: "nat \<Rightarrow> string \<Rightarrow> nat option" where
  "parse_unsigned w s =
     (let d = (case s of [] \<Rightarrow> s | c # cs \<Rightarrow> if c = CHR ''+'' then cs else s)
      in if d \<noteq> [] \<and> list_all is_ascii_digit d \<and> decimal_val d < 2 ^ w
         then Some (decimal_val d) else None)"

text \<open>The format \<open>{:02}\<close>.\<close>

definition decimal_02 :: "nat \<Rightarrow> string" where
  "decimal_02 n = (if n < 10 then CHR ''0'' # decimal n else decimal n)"

lemma byte_digit_char [simp]: "n < 10 \<Longrightarrow> byte (digit_char n) = 48 + n"
  by (simp add: digit_char_def of_char_of)

lemma digit_val_char [simp]: "n < 10 \<Longrightarrow> digit_val (digit_char n) = n"
  by (simp add: digit_val_def)

lemma digit_char_is_digit [simp]: "n < 10 \<Longrightarrow> is_ascii_digit (digit_char n)"
  by (simp add: is_ascii_digit_def)

lemma decimal_nonempty [simp]: "decimal n \<noteq> []"
  by (subst decimal.simps) simp

lemma decimal_digits: "list_all is_ascii_digit (decimal n)"
proof (induction n rule: decimal.induct)
  case (1 n)
  then show ?case by (subst decimal.simps) auto
qed

lemma decimal_val_snoc [simp]: "decimal_val (s @ [c]) = 10 * decimal_val s + digit_val c"
  by (simp add: decimal_val_def)

lemma decimal_val_decimal [simp]: "decimal_val (decimal n) = n"
proof (induction n rule: decimal.induct)
  case (1 n)
  show ?case
  proof (cases "n < 10")
    case True
    then show ?thesis by (subst decimal.simps) (simp add: decimal_val_def)
  next
    case False
    with 1 have "decimal_val (decimal (n div 10)) = n div 10" by simp
    with False show ?thesis by (subst decimal.simps) simp
  qed
qed

lemma decimal_inject [simp]: "decimal m = decimal n \<longleftrightarrow> m = n"
  by (metis decimal_val_decimal)

lemma hd_decimal_zero: "hd (decimal n) = CHR ''0'' \<longleftrightarrow> n = 0"
proof (induction n rule: decimal.induct)
  case (1 n)
  show ?case
  proof (cases "n < 10")
    case True
    have "digit_char n = CHR ''0'' \<longleftrightarrow> byte (digit_char n) = byte CHR ''0''"
      by (simp only: of_char_eq_iff)
    also have "\<dots> \<longleftrightarrow> n = 0" using True by simp
    finally have "digit_char n = CHR ''0'' \<longleftrightarrow> n = 0" .
    with True show ?thesis by (subst decimal.simps) simp
  next
    case False
    with 1 show ?thesis by (subst decimal.simps) simp
  qed
qed

lemma parse_unsigned_decimal:
  assumes "n < 2 ^ w"
  shows "parse_unsigned w (decimal n) = Some n"
proof -
  obtain c cs where d: "decimal n = c # cs" by (cases "decimal n") simp_all
  have "is_ascii_digit c" using decimal_digits[of n] d by simp
  then have "c \<noteq> CHR ''+''" by (auto simp: is_ascii_digit_def)
  with d have "(case decimal n of [] \<Rightarrow> decimal n
      | c # cs \<Rightarrow> if c = CHR ''+'' then cs else decimal n) = decimal n" by simp
  then show ?thesis using assms decimal_digits[of n]
    unfolding parse_unsigned_def Let_def by simp
qed

lemma decimal_decimal_val:
  assumes "s \<noteq> []" "list_all is_ascii_digit s" "hd s \<noteq> CHR ''0''"
  shows "decimal (decimal_val s) = s"
  using assms
proof (induction s rule: rev_induct)
  case Nil
  then show ?case by simp
next
  case (snoc c s)
  have c: "digit_val c < 10" "digit_char (digit_val c) = c"
    using snoc.prems(2)
    by (auto simp: is_ascii_digit_def digit_val_def digit_char_def)
  show ?case
  proof (cases "s = []")
    case True
    then show ?thesis using c by (subst decimal.simps) (simp add: decimal_val_def)
  next
    case False
    with snoc have IH: "decimal (decimal_val s) = s" by simp
    have "decimal_val s \<noteq> 0"
      using hd_decimal_zero[of "decimal_val s"] IH snoc.prems(3) False by auto
    then have "\<not> 10 * decimal_val s + digit_val c < 10" by simp
    moreover have "(10 * decimal_val s + digit_val c) div 10 = decimal_val s"
      and "(10 * decimal_val s + digit_val c) mod 10 = digit_val c"
      using c(1) by simp_all
    ultimately show ?thesis using IH c(2) by (subst decimal.simps) simp
  qed
qed

subsection \<open>Characters of a UTF-8 string\<close>

text \<open>\<open>str::chars\<close>, as code points.  Rust strings are valid UTF-8, so a lead byte determines
  the length of its sequence; the tail patterns only make the function total.\<close>

fun utf8_chars :: "string \<Rightarrow> nat list" where
  "utf8_chars [] = []"
| "utf8_chars (a # r) =
     (if byte a < 128 then byte a # utf8_chars r
      else if byte a < 224 then
        (case r of b # r1 \<Rightarrow> ((byte a mod 32) * 64 + byte b mod 64) # utf8_chars r1 | _ \<Rightarrow> [])
      else if byte a < 240 then
        (case r of b # c # r2 \<Rightarrow>
           ((byte a mod 16) * 4096 + (byte b mod 64) * 64 + byte c mod 64) # utf8_chars r2 | _ \<Rightarrow> [])
      else
        (case r of b # c # d # r3 \<Rightarrow>
           ((byte a mod 8) * 262144 + (byte b mod 64) * 4096 + (byte c mod 64) * 64 + byte d mod 64)
             # utf8_chars r3 | _ \<Rightarrow> []))"

declare utf8_chars.simps(2) [simp del]

definition is_control :: "nat \<Rightarrow> bool" where
  "is_control cp = (cp \<le> 31 \<or> (127 \<le> cp \<and> cp \<le> 159))"

text \<open>The characters that change the direction of displayed text.\<close>

definition bidi_control :: "nat \<Rightarrow> bool" where
  "bidi_control c =
     (c = 0x061C \<or> c = 0x200E \<or> c = 0x200F \<or> (0x202A \<le> c \<and> c \<le> 0x202E) \<or> (0x2066 \<le> c \<and> c \<le> 0x2069))"

definition is_whitespace :: "nat \<Rightarrow> bool" where
  "is_whitespace cp =
     ((9 \<le> cp \<and> cp \<le> 13) \<or> cp = 32 \<or> cp = 0x85 \<or> cp = 0xA0 \<or> cp = 0x1680
      \<or> (0x2000 \<le> cp \<and> cp \<le> 0x200A) \<or> cp = 0x2028 \<or> cp = 0x2029 \<or> cp = 0x202F
      \<or> cp = 0x205F \<or> cp = 0x3000)"

text \<open>\<open>str::trim\<close>: the string cut at character boundaries, without the white space at both ends.\<close>

fun utf8_groups :: "string \<Rightarrow> string list" where
  "utf8_groups [] = []"
| "utf8_groups (a # r) =
     (let n = (if byte a < 128 then 0 else if byte a < 224 then 1 else if byte a < 240 then 2 else 3)
      in (a # take n r) # utf8_groups (drop n r))"

declare utf8_groups.simps(2) [simp del]

definition white_group :: "string \<Rightarrow> bool" where
  "white_group g = list_ex is_whitespace (utf8_chars g)"

definition trim :: "string \<Rightarrow> string" where
  "trim s = concat (rev (dropWhile white_group (rev (dropWhile white_group (utf8_groups s)))))"

lemma utf8_chars_ascii:
  "list_all (\<lambda>c. byte c < 128) s \<Longrightarrow> utf8_chars s = map byte s"
  by (induction s) (simp_all add: utf8_chars.simps(2))

end
