(* ===== verification/External.thy ===== *)
theory External
  imports Prelude
begin

text \<open>
  The third-party code the broker calls, gathered in one record that the definitions take as their
  first argument.  Nothing is assumed of these functions except where a theorem says so:
  \<^item> crate \<open>uuid\<close>: \<open>Uuid::parse_str\<close> and the hyphenated \<open>Display\<close> form (a UUID is its
    128-bit value, the nil UUID is 0);
  \<^item> crate \<open>sha2\<close>: \<open>Sha256\<close>, from the hashed bytes to the bytes of the digest;
  \<^item> crate \<open>regex\<close>: \<open>Regex::is_match\<close>, taking the source of the expression;
  \<^item> crate \<open>glob_match\<close>: \<open>glob_match(pattern, value)\<close>;
  \<^item> crate \<open>ed25519_dalek\<close>: whether 32 bytes decode to a verifying key, \<open>verify\<close> and
    \<open>verify_strict\<close> (key, message, signature), and \<open>sign\<close> (signing key, message);
  \<^item> crate \<open>base64\<close>: the engine \<open>URL_SAFE_NO_PAD\<close>.

  The theory also holds \<open>SecretPatterns\<close> of \<open>src/crates/opaque-core/src/sanitize.rs\<close>,
  which every validator of reviewed text consults.
\<close>

type_synonym uuid = "128 word"

record ext =
  uuid_parse_str :: "string \<Rightarrow> uuid option"
  uuid_to_string :: "uuid \<Rightarrow> string"
  sha256_bytes :: "string \<Rightarrow> string"
  regex_is_match :: "string \<Rightarrow> string \<Rightarrow> bool"
  glob_match :: "string \<Rightarrow> string \<Rightarrow> bool"
  verifying_key_ok :: "string \<Rightarrow> bool"
  ed25519_verify :: "string \<Rightarrow> string \<Rightarrow> string \<Rightarrow> bool"
  ed25519_verify_strict :: "string \<Rightarrow> string \<Rightarrow> string \<Rightarrow> bool"
  ed25519_sign :: "string \<Rightarrow> string \<Rightarrow> string"
  b64url_encode :: "string \<Rightarrow> string"
  b64url_decode :: "string \<Rightarrow> string option"

text \<open>\<open>serde_json::Value\<close>: an object is its entries in key order, a number its literal.\<close>

datatype json =
    JNull | JBool bool | JNumber string | JString string | JArray "json list" | JObject "(string \<times> json) list"

subsection \<open>Hexadecimal rendering of digests\<close>

definition hex_digit :: "nat \<Rightarrow> char" where
  "hex_digit n = (if n < 10 then char_of (48 + n) else char_of (87 + n))"

definition hex_byte :: "char \<Rightarrow> string" where
  "hex_byte c = [hex_digit (byte c div 16), hex_digit (byte c mod 16)]"

definition hex_encode :: "string \<Rightarrow> string" where
  "hex_encode s = concat (map hex_byte s)"

text \<open>\<open>sha256\<close> of \<open>src/crates/opaque-core/src/inference.rs\<close>: the lowercase hexadecimal form
  that manifests, receipts and scopes store.\<close>

definition sha256 :: "'z ext_scheme \<Rightarrow> string \<Rightarrow> string" where
  "sha256 X value = hex_encode (sha256_bytes X value)"

text \<open>Decoding accepts both cases, as \<open>u8::from_str_radix\<close> does.\<close>

definition hex_val :: "char \<Rightarrow> nat option" where
  "hex_val c =
     (if is_ascii_digit c then Some (byte c - 48)
      else if 97 \<le> byte c \<and> byte c \<le> 102 then Some (byte c - 87)
      else if 65 \<le> byte c \<and> byte c \<le> 70 then Some (byte c - 55)
      else None)"

fun hex_decode :: "string \<Rightarrow> string option" where
  "hex_decode [] = Some []"
| "hex_decode [a] = None"
| "hex_decode (a # b # cs) =
     (case (hex_val a, hex_val b, hex_decode cs) of
        (Some x, Some y, Some r) \<Rightarrow> Some (char_of (16 * x + y) # r)
      | _ \<Rightarrow> None)"

lemma hex_val_digit: "n < 16 \<Longrightarrow> hex_val (hex_digit n) = Some n"
  by (auto simp: hex_val_def hex_digit_def is_ascii_digit_def of_char_of)

lemma hex_decode_encode [simp]: "hex_decode (hex_encode s) = Some s"
proof (induction s)
  case Nil
  then show ?case by (simp add: hex_encode_def)
next
  case (Cons c cs)
  have b: "byte c div 16 < 16" "byte c mod 16 < 16" using nat_of_char_less_256[of c] by linarith+
  have "16 * (byte c div 16) + byte c mod 16 = byte c" by simp
  then have "char_of (16 * (byte c div 16) + byte c mod 16) = c" by (simp only: char_of_char)
  with Cons b show ?case by (simp add: hex_encode_def hex_byte_def hex_val_digit)
qed

lemma length_hex_encode [simp]: "length (hex_encode s) = 2 * length s"
  by (induction s) (simp_all add: hex_encode_def hex_byte_def)

lemma hex_digit_lower: "n < 16 \<Longrightarrow> is_lower_hex (hex_digit n)"
  by (auto simp: hex_digit_def is_lower_hex_def is_ascii_digit_def of_char_of)

lemma hex_encode_lower: "list_all is_lower_hex (hex_encode s)"
proof (induction s)
  case Nil
  then show ?case by (simp add: hex_encode_def)
next
  case (Cons c cs)
  have "byte c div 16 < 16" using nat_of_char_less_256[of c] by linarith
  with Cons show ?case by (simp add: hex_encode_def hex_byte_def hex_digit_lower)
qed

subsection \<open>Secret patterns\<close>

abbreviation bs :: char where "bs \<equiv> CHR 0x5C"

definition secret_patterns :: "(string \<times> string) list" where
  "secret_patterns =
    [(''jwt'', ''eyJ[A-Za-z0-9_-]{10,}'' @ bs # ''.[A-Za-z0-9_-]{10,}'' @ bs # ''.[A-Za-z0-9_-]{10,}''),
     (''aws_key_id'', ''AKIA[0-9A-Z]{16}''),
     (''aws_secret'', ''(?i)(?:aws_secret_access_key|secret_?key)'' @ bs # ''s*[=:]'' @ bs #
        ''s*[A-Za-z0-9/+=]{40}''),
     (''base64_token'', ''[A-Za-z0-9+/]{40,}={0,2}''),
     (''connection_string'', ''(?i)(?:postgres|mysql|mongodb|redis|amqp)://[^'' @ bs # ''s]+:[^'' @ bs #
        ''s]+@[^'' @ bs # ''s]+''),
     (''bearer'', ''(?i)bearer'' @ bs # ''s+[A-Za-z0-9._~+/=-]{20,}''),
     (''github_token'', ''gh[pousr]_[A-Za-z0-9_]{36,}''),
     (''env_secret'', ''(?i)(?:password|token|secret|api_?key|private_?key)'' @ bs # ''s*[=:]'' @ bs #
        ''s*'' @ bs # ''S{8,}''),
     (''pem_key'', ''-----BEGIN'' @ bs # ''s+(?:RSA'' @ bs # ''s+)?PRIVATE'' @ bs # ''s+KEY-----''),
     (''hex_secret'', ''(?i)(?:secret|key|token)'' @ bs # ''s*[=:]'' @ bs # ''s*[0-9a-f]{64,}''),
     (''export_secret'', ''(?i)export'' @ bs # ''s+(?:SECRET|TOKEN|PASSWORD|API_KEY|PRIVATE_KEY)'' @
        bs # ''s*='' @ bs # ''s*'' @ bs # ''S+'')]"

definition contains_secret :: "'z ext_scheme \<Rightarrow> string \<Rightarrow> bool" where
  "contains_secret X text = list_ex (\<lambda>(label, re). regex_is_match X re text) secret_patterns"

end
