(* ===== verification/Net_Addr.thy ===== *)
theory Net_Addr
  imports Prelude
begin

text \<open>
  \<open>std::net::IpAddr\<close> as far as the validators use it: \<open>FromStr\<close> and \<open>Display\<close> of
  IPv4 and IPv6 addresses.  The parser follows the structure of the standard library's recursive
  descent parser (\<open>read_number\<close>, \<open>read_separator\<close>, \<open>read_groups\<close>); an IPv4 address is
  its list of four octets, an IPv6 address its list of eight 16-bit groups.
\<close>

type_synonym 'a reader = "string \<Rightarrow> ('a \<times> string) option"

datatype ip_addr = V4 "nat list" | V6 "nat list"

definition to_digit :: "nat \<Rightarrow> char \<Rightarrow> nat option" where
  "to_digit radix c =
     (let v = (if is_ascii_digit c then byte c - 48
               else if is_ascii_lowercase c then byte c - 87
               else if is_ascii_uppercase c then byte c - 55
               else 36)
      in if v < radix then Some v else None)"

fun take_digits :: "nat \<Rightarrow> string \<Rightarrow> nat list \<times> string" where
  "take_digits radix [] = ([], [])"
| "take_digits radix (c # cs) =
     (case to_digit radix c of
        None \<Rightarrow> ([], c # cs)
      | Some d \<Rightarrow> (case take_digits radix cs of (ds, r) \<Rightarrow> (d # ds, r)))"

definition read_number :: "nat \<Rightarrow> nat \<Rightarrow> bool \<Rightarrow> nat \<Rightarrow> nat reader" where
  "read_number radix max_digits allow_zero_prefix bound s =
     (case take_digits radix s of (ds, r) \<Rightarrow>
        let v = foldl (\<lambda>a d. radix * a + d) 0 ds
        in if ds = [] \<or> length ds > max_digits \<or> v \<ge> bound
              \<or> (\<not> allow_zero_prefix \<and> hd ds = 0 \<and> length ds > 1)
           then None else Some (v, r))"

definition read_separator :: "char \<Rightarrow> nat \<Rightarrow> 'a reader \<Rightarrow> 'a reader" where
  "read_separator sep index inner s =
     (if index > 0
      then (case s of [] \<Rightarrow> None | c # cs \<Rightarrow> if c = sep then inner cs else None)
      else inner s)"

fun read_octets :: "nat \<Rightarrow> nat \<Rightarrow> nat list reader" where
  "read_octets 0 i s = Some ([], s)"
| "read_octets (Suc n) i s =
     (case read_separator CHR ''.'' i (read_number 10 3 False 256) s of
        None \<Rightarrow> None
      | Some (o1, r) \<Rightarrow>
          (case read_octets n (Suc i) r of None \<Rightarrow> None | Some (os, r') \<Rightarrow> Some (o1 # os, r')))"

definition read_ipv4_addr :: "nat list reader" where
  "read_ipv4_addr s = read_octets 4 0 s"

text \<open>\<open>read_groups\<close>: up to \<open>n\<close> further groups from index \<open>i\<close>, the flag telling
  whether an embedded IPv4 address ended the sequence.\<close>

fun read_groups :: "nat \<Rightarrow> nat \<Rightarrow> string \<Rightarrow> nat list \<times> bool \<times> string" where
  "read_groups 0 i s = ([], False, s)"
| "read_groups (Suc n) i s =
     (case (if n \<ge> 1 then read_separator CHR '':'' i read_ipv4_addr s else None) of
        Some (os, r) \<Rightarrow>
          ([os ! 0 * 256 + os ! 1, os ! 2 * 256 + os ! 3], True, r)
      | None \<Rightarrow>
          (case read_separator CHR '':'' i (read_number 16 4 True 65536) s of
             None \<Rightarrow> ([], False, s)
           | Some (g, r) \<Rightarrow>
               (case read_groups n (Suc i) r of (gs, v4, r') \<Rightarrow> (g # gs, v4, r'))))"

definition read_ipv6_addr :: "nat list reader" where
  "read_ipv6_addr s =
     (case read_groups 8 0 s of (head, v4, r) \<Rightarrow>
        if length head = 8 then Some (head, r)
        else if v4 then None
        else (case strip_prefix ''::'' r of
                None \<Rightarrow> None
              | Some r1 \<Rightarrow>
                  (case read_groups (7 - length head) 0 r1 of (tail, _, r2) \<Rightarrow>
                     Some (head @ replicate (8 - length head - length tail) 0 @ tail, r2))))"

definition parse_ipv6 :: "string \<Rightarrow> nat list option" where
  "parse_ipv6 s = (case read_ipv6_addr s of Some (g, []) \<Rightarrow> Some g | _ \<Rightarrow> None)"

definition parse_ip :: "string \<Rightarrow> ip_addr option" where
  "parse_ip s =
     (case read_ipv4_addr s of
        Some (os, r) \<Rightarrow> if r = [] then Some (V4 os) else None
      | None \<Rightarrow> (case read_ipv6_addr s of Some (g, []) \<Rightarrow> Some (V6 g) | _ \<Rightarrow> None))"

fun join_with :: "string \<Rightarrow> string list \<Rightarrow> string" where
  "join_with sep [] = []"
| "join_with sep [x] = x"
| "join_with sep (x # y # ys) = x @ sep @ join_with sep (y # ys)"

definition hex_group_digit :: "nat \<Rightarrow> char" where
  "hex_group_digit n = (if n < 10 then char_of (48 + n) else char_of (87 + n))"

fun hex_group :: "nat \<Rightarrow> string" where
  "hex_group n = (if n < 16 then [hex_group_digit n] else hex_group (n div 16) @ [hex_group_digit (n mod 16)])"

declare hex_group.simps [simp del]

definition display_v4 :: "nat list \<Rightarrow> string" where
  "display_v4 os = join_with ''.'' (map decimal os)"

text \<open>The first longest run of zero groups, as (start, length).\<close>

fun zero_run :: "nat \<Rightarrow> nat \<times> nat \<Rightarrow> nat \<times> nat \<Rightarrow> nat list \<Rightarrow> nat \<times> nat" where
  "zero_run i longest current [] = longest"
| "zero_run i longest current (g # gs) =
     (if g = 0 then
        let start = (if snd current = 0 then i else fst current);
            cur = (start, Suc (snd current));
            lng = (if snd cur > snd longest then cur else longest)
        in zero_run (Suc i) lng cur gs
      else zero_run (Suc i) longest (0, 0) gs)"

definition display_v6 :: "nat list \<Rightarrow> string" where
  "display_v6 gs =
     (if take 6 gs = [0, 0, 0, 0, 0, 65535]
      then ''::ffff:'' @ display_v4 [gs ! 6 div 256, gs ! 6 mod 256, gs ! 7 div 256, gs ! 7 mod 256]
      else (case zero_run 0 (0, 0) (0, 0) gs of (start, len) \<Rightarrow>
              if len > 1
              then join_with '':'' (map hex_group (take start gs)) @ ''::''
                     @ join_with '':'' (map hex_group (drop (start + len) gs))
              else join_with '':'' (map hex_group gs)))"

fun display_ip :: "ip_addr \<Rightarrow> string" where
  "display_ip (V4 os) = display_v4 os"
| "display_ip (V6 gs) = display_v6 gs"

fun is_unspecified :: "ip_addr \<Rightarrow> bool" where
  "is_unspecified (V4 os) = (os = [0, 0, 0, 0])"
| "is_unspecified (V6 gs) = (gs = [0, 0, 0, 0, 0, 0, 0, 0])"

fun is_multicast :: "ip_addr \<Rightarrow> bool" where
  "is_multicast (V4 os) = (224 \<le> os ! 0 \<and> os ! 0 \<le> 239)"
| "is_multicast (V6 gs) = (gs ! 0 div 256 = 255)"

end
