(* ===== verification/Secret_Refs.thy ===== *)
theory Secret_Refs
  imports External Net_Addr
begin

text \<open>
  Secret references and provider endpoints of a task manifest: the second half of
  \<open>src/crates/opaque-core/src/task.rs\<close> and the scheme list of
  \<open>src/crates/opaque-core/src/profile.rs\<close>.  The reference grammar is deliberately narrow; the
  main lemma is that a string parses to a pinned reference exactly when it is the canonical
  rendering of a well-formed one, so that an approved manifest names one path, one version and one
  field and nothing else.
\<close>

datatype task_validation_error =
    TE_SchemaVersion | TE_Ssh | TE_Inference | TE_Tenant | TE_Release | TE_Title | TE_Duration
  | TE_ActionCount | TE_Repository | TE_RepositoryId | TE_ProviderUrl | TE_SecretName
  | TE_DuplicateAction | TE_PinnedSource | TE_TokenRef | TE_InvalidOutcome

definition ALLOWED_REF_SCHEMES :: "string list" where
  "ALLOWED_REF_SCHEMES =
     [''env:'', ''keychain:'', ''profile:'', ''onepassword:'', ''bitwarden:'', ''vault:'']"

record pinned_vault_ref =
  pv_path :: string
  pv_version :: nat
  pv_field :: string

definition vault_path_char :: "char \<Rightarrow> bool" where
  "vault_path_char b = (is_ascii_alphanumeric b \<or> b \<in> set ''_.-'')"

definition parse_pinned_vault_ref :: "string \<Rightarrow> task_validation_error + pinned_vault_ref" where
  "parse_pinned_vault_ref reference =
     (if length reference > 768 then Inl TE_PinnedSource else
      and_then (ok_or (strip_prefix ''vault:'' reference) TE_PinnedSource) (\<lambda>body.
      and_then (ok_or (split_once CHR ''#'' body) TE_PinnedSource) (\<lambda>(path_query, field).
      and_then (ok_or (split_once_str ''?version='' path_query) TE_PinnedSource) (\<lambda>(path, version).
        if length path > 512 \<or> field = [] \<or> length field > 128
           \<or> is_ascii_digit (hd field)
           \<or> \<not> list_all vault_path_char field
           \<or> version = [] \<or> starts_with ''0'' version
           \<or> \<not> list_all is_ascii_digit version
        then Inl TE_PinnedSource
        else
          let parts = split_on CHR ''/'' path
          in if length parts < 3 \<or> parts ! 1 \<noteq> ''data''
                \<or> list_ex (\<lambda>part. part = [] \<or> part = ''.'' \<or> part = ''..''
                              \<or> \<not> list_all vault_path_char part) parts
             then Inl TE_PinnedSource
             else and_then (ok_or (parse_unsigned 64 version) TE_PinnedSource) (\<lambda>v.
                    if v > 2 ^ 63 - 1 then Inl TE_PinnedSource
                    else Inr \<lparr>pv_path = path, pv_version = v, pv_field = field\<rparr>)))))"

definition find_map :: "('a \<Rightarrow> 'b option) \<Rightarrow> 'a list \<Rightarrow> 'b option" where
  "find_map f xs = (case filter (\<lambda>y. y \<noteq> None) (map f xs) of [] \<Rightarrow> None | y # _ \<Rightarrow> y)"

definition validate_github_token_ref :: "'z ext_scheme \<Rightarrow> string \<Rightarrow> task_validation_error + unit" where
  "validate_github_token_ref X reference =
     (if length reference > 128 then Inl TE_TokenRef
      else if starts_with ''vault:'' reference
      then and_then (map_err (\<lambda>_. TE_TokenRef) (parse_pinned_vault_ref reference)) (\<lambda>_. Inr ())
      else and_then (ok_or (find_map (\<lambda>scheme. strip_prefix scheme reference) ALLOWED_REF_SCHEMES)
                      TE_TokenRef) (\<lambda>body.
             reject_if (length reference > 128 \<or> body = []
                \<or> \<not> list_all (\<lambda>b. is_ascii_alphanumeric b \<or> b \<in> set ''_.:/-'') body
                \<or> contains_secret X body) TE_TokenRef))"

definition invalid_host_label :: "string \<Rightarrow> bool" where
  "invalid_host_label label =
     (label = [] \<or> length label > 63 \<or> starts_with ''-'' label \<or> ends_with ''-'' label
      \<or> \<not> list_all (\<lambda>b. is_ascii_alphanumeric b \<or> b = CHR ''-'') label)"

text \<open>The authority part: a bracketed IPv6 literal or a DNS name, with an optional port.\<close>

definition url_host_port :: "string \<Rightarrow> task_validation_error + (string \<times> string option)" where
  "url_host_port authority =
     (case strip_prefix ''['' authority of
        Some bracketed \<Rightarrow>
          and_then (ok_or (split_once CHR '']'' bracketed) TE_ProviderUrl) (\<lambda>(address, remainder).
            if parse_ipv6 address = None then Inl TE_ProviderUrl
            else if remainder = [] then Inr (address, None)
            else and_then (ok_or (strip_prefix '':'' remainder) TE_ProviderUrl) (\<lambda>port.
                   Inr (address, Some port)))
      | None \<Rightarrow>
          (let (host, port) = (case split_once CHR '':'' authority of
                                 None \<Rightarrow> (authority, None)
                               | Some (h, p) \<Rightarrow> (h, Some p))
           in if length host > 253 \<or> list_ex invalid_host_label (split_on CHR ''.'' host)
              then Inl TE_ProviderUrl else Inr (host, port)))"

definition validate_provider_url :: "string \<Rightarrow> task_validation_error + unit" where
  "validate_provider_url url =
     (if length url > 2048 then Inl TE_ProviderUrl else
      and_then (ok_or (split_once_str ''://'' url) TE_ProviderUrl) (\<lambda>(scheme, rest).
        if (scheme \<noteq> ''https'' \<and> scheme \<noteq> ''http'') \<or> rest = [] then Inl TE_ProviderUrl else
        let (authority, path) = (case split_once CHR ''/'' rest of None \<Rightarrow> (rest, []) | Some ap \<Rightarrow> ap)
        in and_then (url_host_port authority) (\<lambda>(host, port).
             if is_some_and port (\<lambda>p. p = [] \<or> \<not> list_all is_ascii_digit p
                                    \<or> \<not> is_some_and (parse_unsigned 16 p) (\<lambda>n. n > 0))
             then Inl TE_ProviderUrl
             else if scheme = ''http'' \<and> host \<notin> {''localhost'', ''127.0.0.1'', ''::1''}
             then Inl TE_ProviderUrl
             else reject_if (list_ex (\<lambda>part. part = ''.'' \<or> part = ''..''
                      \<or> \<not> list_all (\<lambda>b. is_ascii_alphanumeric b \<or> b \<in> set ''._~-'') part)
                      (split_on CHR ''/'' path)) TE_ProviderUrl)))"

subsection \<open>The pinned reference grammar\<close>

definition render_vault_ref :: "pinned_vault_ref \<Rightarrow> string" where
  "render_vault_ref r =
     ''vault:'' @ pv_path r @ ''?version='' @ decimal (pv_version r) @ ''#'' @ pv_field r"

definition vault_ref_wf :: "pinned_vault_ref \<Rightarrow> bool" where
  "vault_ref_wf r \<longleftrightarrow>
     length (render_vault_ref r) \<le> 768 \<and> length (pv_path r) \<le> 512
     \<and> pv_field r \<noteq> [] \<and> length (pv_field r) \<le> 128 \<and> \<not> is_ascii_digit (hd (pv_field r))
     \<and> list_all vault_path_char (pv_field r)
     \<and> 1 \<le> pv_version r \<and> pv_version r \<le> 2 ^ 63 - 1
     \<and> 3 \<le> length (split_on CHR ''/'' (pv_path r)) \<and> split_on CHR ''/'' (pv_path r) ! 1 = ''data''
     \<and> list_all (\<lambda>part. part \<noteq> [] \<and> part \<noteq> ''.'' \<and> part \<noteq> ''..'' \<and> list_all vault_path_char part)
          (split_on CHR ''/'' (pv_path r))"

lemma vault_path_char_special [simp]:
  "\<not> vault_path_char CHR ''#''" "\<not> vault_path_char CHR ''?''" "\<not> vault_path_char CHR ''/''"
  by (simp_all add: vault_path_char_def ascii_defs)

lemma split_on_concat_chars:
  "c \<in> set s \<Longrightarrow> c \<noteq> d \<Longrightarrow> \<exists>p\<in>set (split_on d s). c \<in> set p"
proof (induction s)
  case (Cons x xs)
  obtain p ps where sp: "split_on d xs = p # ps" by (cases "split_on d xs") simp_all
  show ?case
  proof (cases "x = c")
    case True
    then show ?thesis using Cons.prems sp by auto
  next
    case False
    with Cons obtain q where q: "q \<in> set (split_on d xs)" "c \<in> set q" by auto
    show ?thesis
    proof (cases "x = d")
      case True
      then show ?thesis using q by auto
    next
      case ne: False
      from q sp have "q = p \<or> q \<in> set ps" by auto
      then show ?thesis using q ne sp by auto
    qed
  qed
qed simp

lemma wf_path_chars:
  assumes "list_all (\<lambda>part. part \<noteq> [] \<and> part \<noteq> ''.'' \<and> part \<noteq> ''..'' \<and> list_all vault_path_char part)
             (split_on CHR ''/'' p)"
  shows "CHR ''#'' \<notin> set p" and "CHR ''?'' \<notin> set p"
proof -
  have "c \<in> set p \<Longrightarrow> c \<noteq> CHR ''/'' \<Longrightarrow> vault_path_char c" for c
    using split_on_concat_chars[of c p "CHR ''/''"] assms by (auto simp: list_all_iff)
  from this[of "CHR ''#''"] this[of "CHR ''?''"]
  show "CHR ''#'' \<notin> set p" and "CHR ''?'' \<notin> set p" by auto
qed

lemma decimal_no_hash: "CHR ''#'' \<notin> set (decimal n)"
  using decimal_digits[of n] by (auto simp: list_all_iff is_ascii_digit_def)

lemma starts_with_zero: "starts_with ''0'' s \<longleftrightarrow> s \<noteq> [] \<and> hd s = CHR ''0''"
  by (cases s) (auto simp: starts_with_iff)

lemma parse_unsigned_digits:
  assumes "v \<noteq> []" "list_all is_ascii_digit v"
  shows "parse_unsigned w v = (if decimal_val v < 2 ^ w then Some (decimal_val v) else None)"
proof -
  obtain c cs where v: "v = c # cs" using assms(1) by (cases v) simp_all
  then have "c \<noteq> CHR ''+''" using assms(2) by (auto simp: is_ascii_digit_def)
  with v have "(case v of [] \<Rightarrow> v | c # cs \<Rightarrow> if c = CHR ''+'' then cs else v) = v" by simp
  then show ?thesis using assms unfolding parse_unsigned_def Let_def by simp
qed

lemma parse_pinned_vault_refD:
  assumes "parse_pinned_vault_ref s = Inr r"
  shows "s = render_vault_ref r \<and> vault_ref_wf r"
proof -
  from assms obtain body pq f path ver v where
    len: "\<not> length s > 768" and b: "s = ''vault:'' @ body" and pq: "split_once CHR ''#'' body = Some (pq, f)"
    and pv: "split_once_str ''?version='' pq = Some (path, ver)"
    and c1: "\<not> (length path > 512 \<or> f = [] \<or> length f > 128 \<or> is_ascii_digit (hd f)
           \<or> \<not> list_all vault_path_char f \<or> ver = [] \<or> starts_with ''0'' ver
           \<or> \<not> list_all is_ascii_digit ver)"
    and c2: "\<not> (length (split_on CHR ''/'' path) < 3 \<or> split_on CHR ''/'' path ! 1 \<noteq> ''data''
                \<or> list_ex (\<lambda>part. part = [] \<or> part = ''.'' \<or> part = ''..''
                              \<or> \<not> list_all vault_path_char part) (split_on CHR ''/'' path))"
    and v: "parse_unsigned 64 ver = Some v" "\<not> v > 2 ^ 63 - 1"
    and r: "r = \<lparr>pv_path = path, pv_version = v, pv_field = f\<rparr>"
    unfolding parse_pinned_vault_ref_def Let_def
    by (auto simp: strip_prefix_Some split: if_splits prod.splits)
  have vv: "v = decimal_val ver" using v(1) c1 by (auto simp: parse_unsigned_digits split: if_splits)
  have dv: "decimal v = ver" using c1 vv decimal_decimal_val[of ver] by (auto simp: starts_with_zero)
  have "v \<noteq> 0" using hd_decimal_zero[of v] dv c1 by (auto simp: starts_with_zero)
  moreover have "s = render_vault_ref r"
    using b pq split_once_str_SomeD[OF pv] dv r by (auto simp: render_vault_ref_def split_once_Some)
  ultimately show ?thesis using len c1 c2 v(2) r
    by (auto simp: vault_ref_wf_def list_all_iff list_ex_iff)
qed

lemma parse_render_vault_ref:
  assumes wf: "vault_ref_wf r"
  shows "parse_pinned_vault_ref (render_vault_ref r) = Inr r"
proof -
  let ?pq = "pv_path r @ ''?version='' @ decimal (pv_version r)"
  have nh: "CHR ''#'' \<notin> set (pv_path r)" and nq: "CHR ''?'' \<notin> set (pv_path r)"
    using wf wf_path_chars by (auto simp: vault_ref_wf_def)
  have "CHR ''#'' \<notin> set ?pq" using nh decimal_no_hash by simp
  from split_once_append[OF this, of "pv_field r"]
  have s1: "split_once CHR ''#'' (pv_path r @ ''?version='' @ decimal (pv_version r) @ ''#'' @ pv_field r)
              = Some (?pq, pv_field r)" by simp
  have s2: "split_once_str ''?version='' ?pq = Some (pv_path r, decimal (pv_version r))"
    by (rule split_once_str_first[OF refl nq])
  have dec: "parse_unsigned 64 (decimal (pv_version r)) = Some (pv_version r)"
    by (rule parse_unsigned_decimal) (use wf in \<open>simp add: vault_ref_wf_def\<close>)
  have z: "\<not> starts_with ''0'' (decimal (pv_version r))"
    using wf hd_decimal_zero[of "pv_version r"] by (auto simp: starts_with_zero vault_ref_wf_def)
  have sp: "strip_prefix ''vault:'' (render_vault_ref r)
      = Some (pv_path r @ ''?version='' @ decimal (pv_version r) @ ''#'' @ pv_field r)"
    by (simp add: render_vault_ref_def strip_prefix_Some)
  show ?thesis using wf s1 s2 dec z decimal_digits[of "pv_version r"]
    unfolding parse_pinned_vault_ref_def sp Let_def vault_ref_wf_def
    by (auto simp: list_ex_iff list_all_iff)
qed

lemma parse_pinned_vault_ref_iff:
  "parse_pinned_vault_ref s = Inr r \<longleftrightarrow> s = render_vault_ref r \<and> vault_ref_wf r"
  using parse_pinned_vault_refD parse_render_vault_ref by blast

end
