(* ===== verification/Release.thy ===== *)
theory Release
  imports Secret_Refs
begin

text \<open>
  The staging release family, \<open>src/crates/opaque-core/src/release.rs\<close>: the typed action of one
  workflow dispatch, its field grammars, and the read-only observation of the run it started.
\<close>

definition STAGING_RELEASE_OPERATION :: string where
  "STAGING_RELEASE_OPERATION = ''github.dispatch_staging_workflow''"

record staging_release_action =
  sr_operation :: string
  sr_repo :: string
  sr_repository_id :: u64
  sr_workflow_path :: string
  sr_workflow_id :: u64
  sr_workflow_ref :: string
  sr_approved_commit_sha :: string
  sr_workflow_sha256 :: string
  sr_image_repository :: string
  sr_image_digest :: string
  sr_environment :: string
  sr_github_token_ref :: "string option"

definition hex_lower :: "string \<Rightarrow> nat \<Rightarrow> bool" where
  "hex_lower value len = (length value = len \<and> list_all is_lower_hex value)"

definition repo_char :: "char \<Rightarrow> bool" where
  "repo_char c = (is_ascii_alphanumeric c \<or> c \<in> set ''-_.'')"

definition validate_repository :: "string \<Rightarrow> string + unit" where
  "validate_repository repo =
     (let components = split_on CHR ''/'' repo
      in reject_if (length components \<noteq> 2
           \<or> list_ex (\<lambda>part. part = [] \<or> length part > 100 \<or> part = ''.'' \<or> part = ''..''
                         \<or> \<not> list_all repo_char part) components)
           ''invalid staging repository or workflow identity'')"

definition validate_workflow_path :: "string \<Rightarrow> string + unit" where
  "validate_workflow_path path =
     and_then (ok_or (strip_prefix ''.github/workflows/'' path) ''invalid staging workflow path'') (\<lambda>filename.
       reject_if (filename = [] \<or> length filename > 100
           \<or> \<not> (ends_with ''.yml'' filename \<or> ends_with ''.yaml'' filename)
           \<or> \<not> list_all repo_char filename)
         ''invalid staging workflow path'')"

definition validate_branch :: "string \<Rightarrow> string + unit" where
  "validate_branch branch =
     reject_if (branch = [] \<or> length branch > 200 \<or> starts_with ''refs/'' branch
         \<or> ends_with ''.'' branch \<or> ends_with ''/'' branch
         \<or> contains_str ''..'' branch \<or> contains_str ''//'' branch
         \<or> list_ex (\<lambda>p. p = [] \<or> starts_with ''.'' p \<or> ends_with ''.lock'' p) (split_on CHR ''/'' branch)
         \<or> \<not> list_all (\<lambda>c. is_ascii_alphanumeric c \<or> c \<in> set ''-_/.'') branch
         \<or> hex_lower branch 40)
       ''invalid staging branch''"

definition valid_image :: "string \<Rightarrow> bool" where
  "valid_image img =
     (img \<noteq> [] \<and> length img \<le> 255 \<and> CHR ''/'' \<in> set img
      \<and> \<not> starts_with ''/'' img \<and> \<not> ends_with ''/'' img \<and> \<not> contains_str ''//'' img
      \<and> \<not> list_ex (\<lambda>p. p = ''.'' \<or> p = ''..'') (split_on CHR ''/'' img)
      \<and> list_all (\<lambda>c. is_ascii_lowercase c \<or> is_ascii_digit c \<or> c \<in> set ''/._-'') img)"

definition staging_release_validate ::
  "'z ext_scheme \<Rightarrow> staging_release_action \<Rightarrow> string + unit" where
  "staging_release_validate X a =
     (if sr_operation a \<noteq> STAGING_RELEASE_OPERATION then Inl ''invalid staging release operation'' else
      and_then (validate_repository (sr_repo a)) (\<lambda>_.
      if sr_repository_id a = 0 \<or> sr_workflow_id a = 0
      then Inl ''invalid staging repository or workflow identity'' else
      and_then (validate_workflow_path (sr_workflow_path a)) (\<lambda>_.
      and_then (validate_branch (sr_workflow_ref a)) (\<lambda>_.
      if \<not> hex_lower (sr_approved_commit_sha a) 40 \<or> \<not> hex_lower (sr_workflow_sha256 a) 64
      then Inl ''invalid staging commit or workflow digest'' else
      if \<not> valid_image (sr_image_repository a)
         \<or> \<not> is_some_and (strip_prefix ''sha256:'' (sr_image_digest a)) (\<lambda>s. hex_lower s 64)
         \<or> sr_environment a \<noteq> ''staging''
      then Inl ''invalid staging image or destination'' else
      and_then (ok_or (sr_github_token_ref a) ''invalid staging credential reference'') (\<lambda>reference.
        map_err (\<lambda>_. ''invalid staging credential reference'')
          (validate_github_token_ref X reference))))))"

datatype release_observation_state = RO_Pending | RO_Running | RO_Succeeded | RO_Failed | RO_Ambiguous

datatype release_correlation = DispatchResponse | TaskTitle

record release_observation =
  ro_state :: release_observation_state
  ro_correlation :: release_correlation
  ro_code :: string
  ro_run_id :: "u64 option"
  ro_run_url :: "string option"
  ro_observed_commit_sha :: "string option"
  ro_checked_at :: i64
  ro_run_attempt :: "u64 option"

definition observation_code_ok :: "release_observation_state \<Rightarrow> string \<Rightarrow> bool" where
  "observation_code_ok st code =
     (case st of
        RO_Pending \<Rightarrow> code = ''run_not_observed''
      | RO_Running \<Rightarrow> code = ''run_in_progress''
      | RO_Succeeded \<Rightarrow> code = ''workflow_succeeded''
      | RO_Failed \<Rightarrow> code = ''workflow_failed''
      | RO_Ambiguous \<Rightarrow> code \<in> {''run_correlation_ambiguous'', ''external_rerun_observed'',
                               ''run_evidence_mismatch''})"

definition run_url_of :: "string \<Rightarrow> string \<Rightarrow> u64 \<Rightarrow> string" where
  "run_url_of github_api_url repo rid =
     trim_end_matches CHR ''/'' github_api_url @ ''/repos/'' @ repo @ ''/actions/runs/''
       @ decimal (unat rid)"

definition release_observation_validate ::
  "'z ext_scheme \<Rightarrow> release_observation \<Rightarrow> staging_release_action \<Rightarrow> string \<Rightarrow> string + unit" where
  "release_observation_validate X ob a github_api_url =
     (let invalid = ''invalid release observation'' in
      and_then (map_err (\<lambda>_. invalid) (staging_release_validate X a)) (\<lambda>_.
      if ro_checked_at ob \<le> 0 then Inl invalid else
      if \<not> observation_code_ok (ro_state ob) (ro_code ob) then Inl invalid else
      (case (ro_run_id ob, ro_run_url ob, ro_observed_commit_sha ob, ro_run_attempt ob) of
         (Some rid, Some url, Some sha, Some attempt) \<Rightarrow>
           reject_if (rid = 0 \<or> attempt = 0 \<or> sha \<noteq> sr_approved_commit_sha a
             \<or> url \<noteq> run_url_of github_api_url (sr_repo a) rid
             \<or> (attempt > 1 \<and> (ro_state ob \<noteq> RO_Ambiguous \<or> ro_code ob \<noteq> ''external_rerun_observed''))
             \<or> (attempt = 1 \<and> ro_code ob = ''external_rerun_observed'')
             \<or> ro_state ob = RO_Pending) invalid
       | (None, None, None, None) \<Rightarrow>
           reject_if (ro_state ob \<notin> {RO_Pending, RO_Ambiguous}
             \<or> ro_code ob = ''external_rerun_observed'') invalid
       | _ \<Rightarrow> Inl invalid)))"

end
