(* ===== verification/Tenant.thy ===== *)
theory Tenant
  imports External
begin

text \<open>
  Tenant identity, \<open>src/crates/opaque-core/src/tenant.rs\<close>: the tenant identifier grammar, the
  binding of a tenant to one broker lineage, and the durable owner key derived from it.  The owner
  key is the partition key of every ledger; the lemmas at the end show that keys of different
  bindings never coincide and that a tenant-bound ledger's prefix test admits exactly its own keys.
\<close>

datatype tenant_error = InvalidTenantId | InvalidBinding | WrongBoundary

record tenant_binding =
  tb_schema_version :: u32
  tb_tenant_id :: string
  tb_broker_id :: uuid

definition tenant_id_parse :: "string \<Rightarrow> tenant_error + string" where
  "tenant_id_parse value =
     (if value = [] \<or> length value > 64
         \<or> \<not> list_all (\<lambda>b. is_ascii_lowercase b \<or> is_ascii_digit b \<or> b \<in> set ''-_'') value
         \<or> \<not> is_ascii_alphanumeric (hd value)
         \<or> \<not> is_ascii_alphanumeric (last value)
      then Inl InvalidTenantId else Inr value)"

definition tenant_binding_validate :: "tenant_binding \<Rightarrow> tenant_error + unit" where
  "tenant_binding_validate b =
     (if tb_schema_version b \<noteq> 1 \<or> tb_broker_id b = 0 then Inl InvalidBinding
      else and_then (tenant_id_parse (tb_tenant_id b)) (\<lambda>_. Inr ()))"

definition tenant_binding_new :: "string \<Rightarrow> uuid \<Rightarrow> tenant_error + tenant_binding" where
  "tenant_binding_new tid broker =
     (let b = \<lparr>tb_schema_version = 1, tb_tenant_id = tid, tb_broker_id = broker\<rparr>
      in and_then (tenant_binding_validate b) (\<lambda>_. Inr b))"

definition require_same :: "tenant_binding \<Rightarrow> tenant_binding \<Rightarrow> tenant_error + unit" where
  "require_same b offered =
     and_then (tenant_binding_validate b) (\<lambda>_.
     and_then (tenant_binding_validate offered) (\<lambda>_.
       if b \<noteq> offered then Inl WrongBoundary else Inr ()))"

text \<open>The prefix that both \<open>TaskStore::validate_owner_boundary\<close> and
  \<open>TaskRecord::validate_tenant_and_inference_receipts\<close> format.\<close>

definition owner_prefix :: "'z ext_scheme \<Rightarrow> tenant_binding \<Rightarrow> string" where
  "owner_prefix X b =
     ''tenant:'' @ tb_tenant_id b @ '':broker:'' @ uuid_to_string X (tb_broker_id b) @ '':uid:''"

definition owner_key :: "'z ext_scheme \<Rightarrow> tenant_binding \<Rightarrow> u32 \<Rightarrow> string option \<Rightarrow> string" where
  "owner_key X b uid pr =
     (let prefix = ''tenant:'' @ tb_tenant_id b @ '':broker:'' @ uuid_to_string X (tb_broker_id b)
                     @ '':uid:'' @ decimal (unat uid)
      in case pr of Some p \<Rightarrow> prefix @ '':sub:'' @ p | None \<Rightarrow> prefix)"

definition approval_context :: "'z ext_scheme \<Rightarrow> tenant_binding \<Rightarrow> string" where
  "approval_context X b =
     ''Tenant: '' @ tb_tenant_id b @ [CHR 0x0A] @ ''Tenant broker: ''
       @ uuid_to_string X (tb_broker_id b) @ [CHR 0x0A]"

subsection \<open>Properties\<close>

lemma tenant_id_parse_Inr:
  "tenant_id_parse v = Inr w \<longleftrightarrow> w = v \<and> v \<noteq> [] \<and> length v \<le> 64
     \<and> list_all (\<lambda>b. is_ascii_lowercase b \<or> is_ascii_digit b \<or> b \<in> set ''-_'') v
     \<and> is_ascii_alphanumeric (hd v) \<and> is_ascii_alphanumeric (last v)"
  by (auto simp: tenant_id_parse_def)

lemma tenant_id_no_colon:
  assumes "tenant_id_parse v = Inr w"
  shows "CHR '':'' \<notin> set v"
proof
  assume "CHR '':'' \<in> set v"
  with assms have "is_ascii_lowercase CHR '':'' \<or> is_ascii_digit CHR '':''
      \<or> CHR '':'' \<in> set ''-_''"
    by (auto simp: tenant_id_parse_Inr list_all_iff)
  then show False by (simp add: ascii_defs)
qed

lemma binding_valid_iff:
  "tenant_binding_validate b = Inr u \<longleftrightarrow>
     tb_schema_version b = 1 \<and> tb_broker_id b \<noteq> 0 \<and> tenant_id_parse (tb_tenant_id b) = Inr (tb_tenant_id b)"
  by (auto simp: tenant_binding_validate_def tenant_id_parse_def)

lemma owner_key_prefix: "starts_with (owner_prefix X b) (owner_key X b uid p)"
  by (cases p) (auto simp: owner_key_def owner_prefix_def starts_with_iff)

lemma split_at_char:
  fixes c :: char
  assumes "c \<notin> set a" "c \<notin> set a'" "a @ c # r = a' @ c # r'"
  shows "a = a' \<and> r = r'"
proof -
  have "split_once c (a @ c # r) = Some (a, r)" and "split_once c (a' @ c # r') = Some (a', r')"
    using assms(1,2) by simp_all
  with assms(3) have "Some (a, r) = Some (a', r')" by metis
  then show ?thesis by simp
qed

text \<open>
  Two valid bindings with a common owner key are equal, provided the \<open>Display\<close> form of a UUID
  is injective and free of colons, as the \<open>uuid\<close> crate documents.
\<close>

lemma owner_prefix_disjoint:
  assumes inj: "\<And>u v. uuid_to_string X u = uuid_to_string X v \<Longrightarrow> u = v"
    and hyph: "\<And>u. CHR '':'' \<notin> set (uuid_to_string X u)"
    and b: "tenant_binding_validate b = Inr ()" and b': "tenant_binding_validate b' = Inr ()"
    and k: "starts_with (owner_prefix X b) k" and k': "starts_with (owner_prefix X b') k"
  shows "b = b'"
proof -
  obtain r r' where r: "k = owner_prefix X b @ r" and r': "k = owner_prefix X b' @ r'"
    using k k' unfolding starts_with_iff by blast
  have nc: "CHR '':'' \<notin> set (tb_tenant_id b)" "CHR '':'' \<notin> set (tb_tenant_id b')"
    using b b' by (auto simp: binding_valid_iff dest: tenant_id_no_colon)
  have eq: "tb_tenant_id b @ CHR '':'' # (''broker:'' @ uuid_to_string X (tb_broker_id b) @ '':uid:'' @ r)
      = tb_tenant_id b' @ CHR '':'' # (''broker:'' @ uuid_to_string X (tb_broker_id b') @ '':uid:'' @ r')"
    using r r' by (simp add: owner_prefix_def)
  from split_at_char[OF nc eq] have t: "tb_tenant_id b = tb_tenant_id b'"
    and rest: "uuid_to_string X (tb_broker_id b) @ CHR '':'' # (''uid:'' @ r)
             = uuid_to_string X (tb_broker_id b') @ CHR '':'' # (''uid:'' @ r')"
    by simp_all
  from split_at_char[OF hyph hyph rest] have "tb_broker_id b = tb_broker_id b'"
    using inj by blast
  moreover have "tb_schema_version b = tb_schema_version b'"
    using b b' by (simp add: binding_valid_iff)
  ultimately show ?thesis using t by simp
qed

lemma require_same_iff:
  "require_same b o' = Inr u \<longleftrightarrow> b = o' \<and> tenant_binding_validate b = Inr ()"
  by (auto simp: require_same_def)

end
