(* ===== verification/Ssh.thy ===== *)
theory Ssh
  imports Inference
begin

text \<open>
  The fixed SSH health family, \<open>src/crates/opaque-core/src/ssh.rs\<close>: the authority of one bounded
  health check, its canonical-form checks, and the host receipt.
\<close>

text \<open>\<open>serde_json::from_str::<Value>\<close>.\<close>

record sext = iext +
  json_from_str :: "string \<Rightarrow> json option"

definition SSH_OPERATION :: string where "SSH_OPERATION = ''ssh.service_health''"
definition SSH_TASK_OPERATION :: string where "SSH_TASK_OPERATION = ''ssh.health_manifest''"
definition SSH_FIXED_COMMAND :: string where "SSH_FIXED_COMMAND = ''opaque-service-health''"
definition MAX_SSH_TASK_DURATION_SECS :: u64 where "MAX_SSH_TASK_DURATION_SECS = 300"
definition MAX_SSH_SESSION_SECS :: u32 where "MAX_SSH_SESSION_SECS = 30"

record ssh_health_contract =
  sc_service :: string
  sc_version :: string
  sc_host :: string
  sc_port :: u16
  sc_path :: string

definition valid_ssh_label :: "string \<Rightarrow> bool" where
  "valid_ssh_label value =
     (value \<noteq> [] \<and> length value \<le> 64 \<and> is_ascii_alphanumeric (hd value)
      \<and> list_all (\<lambda>b. is_ascii_alphanumeric b \<or> b \<in> set ''_.-'') value)"

definition ssh_contract_validate :: "ssh_health_contract \<Rightarrow> string + unit" where
  "ssh_contract_validate c =
     reject_if (\<not> valid_ssh_label (sc_service c) \<or> \<not> valid_ssh_label (sc_version c)
        \<or> sc_host c \<notin> {''127.0.0.1'', ''::1''}
        \<or> sc_port c = 0
        \<or> length (sc_path c) > 256
        \<or> \<not> starts_with ''/'' (sc_path c)
        \<or> \<not> list_all (\<lambda>b. is_ascii_alphanumeric b \<or> b \<in> set ''/_.-'') (sc_path c)
        \<or> list_ex (\<lambda>segment. segment = ''.'' \<or> segment = ''..'' \<or> segment = [])
             (drop 1 (split_on CHR ''/'' (sc_path c))))
       ''invalid SSH health contract''"

definition expected_response :: "ssh_health_contract \<Rightarrow> json" where
  "expected_response c =
     JObject [(''service'', JString (sc_service c)), (''status'', JString ''ok''),
              (''version'', JString (sc_version c))]"

record ssh_health_action =
  sh_operation :: string
  sh_tenant :: tenant_binding
  sh_subject :: string
  sh_delegation_id :: string
  sh_workload_uid :: u32
  sh_workload_exe_sha256 :: "string option"
  sh_profile_id :: string
  sh_profile_sha256 :: string
  sh_destination_host :: string
  sh_destination_port :: u16
  sh_host_key_sha256 :: string
  sh_vault_role :: string
  sh_vault_ca_sha256 :: string
  sh_vault_token_ref :: string
  sh_principal :: string
  sh_login_user :: string
  sh_source_address :: string
  sh_command :: string
  sh_health_contract :: "ssh_health_contract option"
  sh_max_session_secs :: u32
  sh_grant_id :: string

definition canonical_ip :: "string \<Rightarrow> bool" where
  "canonical_ip value =
     is_some_and (parse_ip value)
       (\<lambda>ip. display_ip ip = value \<and> \<not> is_unspecified ip \<and> \<not> is_multicast ip)"

definition canonical_grant_id :: "'z ext_scheme \<Rightarrow> string \<Rightarrow> bool" where
  "canonical_grant_id X value =
     is_some_and (uuid_parse_str X value) (\<lambda>i. i \<noteq> 0 \<and> uuid_to_string X i = value)"

definition ssh_action_validate :: "'z ext_scheme \<Rightarrow> ssh_health_action \<Rightarrow> string + unit" where
  "ssh_action_validate X a =
     and_then (map_err (\<lambda>_. ''invalid SSH tenant'') (tenant_binding_validate (sh_tenant a))) (\<lambda>_.
     and_then (map_err (\<lambda>_. ''invalid Vault signer credential reference'')
                (validate_github_token_ref X (sh_vault_token_ref a))) (\<lambda>_.
     if sh_operation a \<noteq> SSH_OPERATION
        \<or> \<not> valid_ssh_label (sh_profile_id a)
        \<or> \<not> valid_sha256 (sh_profile_sha256 a)
        \<or> \<not> valid_sha256 (sh_host_key_sha256 a)
        \<or> \<not> valid_sha256 (sh_vault_ca_sha256 a)
        \<or> \<not> valid_ssh_label (sh_vault_role a)
        \<or> \<not> canonical_ip (sh_destination_host a)
        \<or> sh_destination_port a = 0
        \<or> \<not> canonical_ip (sh_source_address a)
        \<or> \<not> valid_ssh_label (sh_principal a)
        \<or> \<not> valid_ssh_label (sh_login_user a)
        \<or> sh_login_user a = ''root''
        \<or> sh_command a \<noteq> SSH_FIXED_COMMAND
        \<or> \<not> (1 \<le> sh_max_session_secs a \<and> sh_max_session_secs a \<le> MAX_SSH_SESSION_SECS)
        \<or> \<not> canonical_grant_id X (sh_grant_id a)
        \<or> sh_workload_uid a = - 1
        \<or> is_some_and (sh_workload_exe_sha256 a) (\<lambda>hash. \<not> valid_sha256 hash)
        \<or> sh_delegation_id a = []
        \<or> length (sh_delegation_id a) > 128
        \<or> \<not> list_all (\<lambda>b. is_ascii_alphanumeric b \<or> b \<in> set ''_.:-'') (sh_delegation_id a)
     then Inl ''invalid fixed SSH authority''
     else (case sh_health_contract a of None \<Rightarrow> Inr () | Some contract \<Rightarrow> ssh_contract_validate contract)))"

datatype ssh_receipt_code = SC_HealthObserved | SC_Denied | SC_TimedOut | SC_Expired | SC_Revoked

record ssh_receipt =
  sp_tenant :: tenant_binding
  sp_profile_sha256 :: string
  sp_grant_id :: string
  sp_host_key_sha256 :: string
  sp_code :: ssh_receipt_code
  sp_host :: string
  sp_principal :: string
  sp_operation :: string
  sp_started_at :: i64
  sp_completed_at :: i64
  sp_output_sha256 :: "string option"
  sp_output_text :: "string option"
  sp_signed_receipt_sha256 :: string

definition health_evidence_validate ::
  "'z sext_scheme \<Rightarrow> ssh_receipt \<Rightarrow> ssh_health_action \<Rightarrow> string + unit" where
  "health_evidence_validate X r a =
     (if \<not> is_some_and (sp_output_text r) (valid_output_text X)
         \<or> map_option (sha256 X) (sp_output_text r) \<noteq> sp_output_sha256 r
      then Inl ''invalid SSH health evidence'' else
      (case sh_health_contract a of
         None \<Rightarrow> Inr ()
       | Some contract \<Rightarrow>
           and_then (ok_or (sp_output_text r) ''missing health output'') (\<lambda>text.
           and_then (ok_or (json_from_str X text) ''invalid SSH health response'') (\<lambda>response.
             reject_if (response \<noteq> expected_response contract)
               ''SSH health response differs from approved contract''))))"

definition ssh_receipt_validate ::
  "'z sext_scheme \<Rightarrow> ssh_receipt \<Rightarrow> ssh_health_action \<Rightarrow> string + unit" where
  "ssh_receipt_validate X r a =
     and_then (ssh_action_validate X a) (\<lambda>_.
     if sp_tenant r \<noteq> sh_tenant a
        \<or> sp_profile_sha256 r \<noteq> sh_profile_sha256 a
        \<or> sp_grant_id r \<noteq> sh_grant_id a
        \<or> sp_host_key_sha256 r \<noteq> sh_host_key_sha256 a
        \<or> sp_host r \<noteq> sh_destination_host a
        \<or> sp_principal r \<noteq> sh_principal a
        \<or> sp_operation r \<noteq> SSH_OPERATION
        \<or> \<not> valid_sha256 (sp_signed_receipt_sha256 r)
        \<or> sp_started_at r \<le> 0
        \<or> sp_completed_at r < sp_started_at r
        \<or> sp_completed_at r - sp_started_at r > int (unat (sh_max_session_secs a)) + 1
     then Inl ''invalid SSH receipt binding''
     else if sp_code r = SC_HealthObserved then health_evidence_validate X r a
     else reject_if (sp_output_text r \<noteq> None \<or> sp_output_sha256 r \<noteq> None)
            ''incomplete SSH operation cannot claim health evidence'')"

end
