(* ===== verification/Manifest.thy ===== *)
theory Manifest
  imports Release Ssh "HOL-Library.Product_Lexorder"
begin

text \<open>
  Immutable manifests and receipts, \<open>src/crates/opaque-core/src/task.rs\<close>: the four action
  families, manifest validation, the canonical order and its digest, slot outcomes, and the record
  that the task ledger stores.
\<close>

definition TASK_SCHEMA_VERSION :: u32 where "TASK_SCHEMA_VERSION = 1"
definition MAX_TASK_ACTIONS :: nat where "MAX_TASK_ACTIONS = 32"
definition MAX_TASK_DURATION_SECS :: u64 where "MAX_TASK_DURATION_SECS = 3600"

record publish_action =
  pa_repo :: string
  pa_repository_id :: u64
  pa_secret_name :: string
  pa_value_ref :: string
  pa_github_token_ref :: "string option"

datatype task_action =
    PublishSecret publish_action
  | StagingRelease staging_release_action
  | InferenceAct inference_action
  | SshHealth ssh_health_action

record task_manifest =
  tm_schema_version :: u32
  tm_title :: string
  tm_expires_in_secs :: u64
  tm_github_api_url :: string
  tm_vault_api_url :: string
  tm_actions :: "task_action list"

text \<open>\<open>serde_json::to_vec\<close> of a manifest.\<close>

record mext = sext +
  json_of_manifest :: "task_manifest \<Rightarrow> string"

subsection \<open>Actions\<close>

fun as_ssh :: "task_action \<Rightarrow> ssh_health_action option" where
  "as_ssh (SshHealth a) = Some a"
| "as_ssh _ = None"

fun as_inference :: "task_action \<Rightarrow> inference_action option" where
  "as_inference (InferenceAct a) = Some a"
| "as_inference _ = None"

fun as_publish :: "task_action \<Rightarrow> publish_action option" where
  "as_publish (PublishSecret a) = Some a"
| "as_publish _ = None"

fun as_release :: "task_action \<Rightarrow> staging_release_action option" where
  "as_release (StagingRelease a) = Some a"
| "as_release _ = None"

fun action_repo :: "task_action \<Rightarrow> string" where
  "action_repo (PublishSecret a) = pa_repo a"
| "action_repo (StagingRelease a) = sr_repo a"
| "action_repo _ = []"

fun action_repository_id :: "task_action \<Rightarrow> u64" where
  "action_repository_id (PublishSecret a) = pa_repository_id a"
| "action_repository_id (StagingRelease a) = sr_repository_id a"
| "action_repository_id _ = 0"

fun action_github_token_ref :: "task_action \<Rightarrow> string option" where
  "action_github_token_ref (PublishSecret a) = pa_github_token_ref a"
| "action_github_token_ref (StagingRelease a) = sr_github_token_ref a"
| "action_github_token_ref _ = None"

definition option_list :: "'a option \<Rightarrow> 'a list" where
  "option_list m = (case m of None \<Rightarrow> [] | Some x \<Rightarrow> [x])"

definition secret_refs :: "task_action \<Rightarrow> string list" where
  "secret_refs a =
     option_list (action_github_token_ref a)
     @ (case a of SshHealth s \<Rightarrow> [sh_vault_token_ref s] | _ \<Rightarrow> [])
     @ (case a of PublishSecret p \<Rightarrow> [pa_value_ref p] | _ \<Rightarrow> [])
     @ (case a of InferenceAct i \<Rightarrow> option_list (ia_credential_ref i) | _ \<Rightarrow> [])"

definition action_sort_key :: "task_action \<Rightarrow> string \<times> string" where
  "action_sort_key a =
     (to_ascii_lowercase (action_repo a),
      (case a of
         PublishSecret p \<Rightarrow> pa_secret_name p
       | StagingRelease r \<Rightarrow> sr_workflow_path r
       | InferenceAct i \<Rightarrow> decimal_02 (unat (ia_ordinal i))
       | SshHealth s \<Rightarrow> sh_grant_id s))"

definition publish_action_validate ::
  "'z ext_scheme \<Rightarrow> publish_action \<Rightarrow> task_validation_error + unit" where
  "publish_action_validate X a =
     and_then (ok_or (split_once CHR ''/'' (pa_repo a)) TE_Repository) (\<lambda>(own, repo).
       if own = [] \<or> length own > 39 \<or> starts_with ''-'' own \<or> ends_with ''-'' own
          \<or> \<not> list_all (\<lambda>b. is_ascii_alphanumeric b \<or> b = CHR ''-'') own
          \<or> repo = [] \<or> length repo > 100 \<or> repo = ''.'' \<or> repo = ''..''
          \<or> \<not> list_all (\<lambda>b. is_ascii_alphanumeric b \<or> b \<in> set ''._-'') repo
       then Inl TE_Repository
       else if pa_repository_id a = 0 then Inl TE_RepositoryId
       else if pa_secret_name a = [] \<or> length (pa_secret_name a) > 100
          \<or> is_ascii_digit (hd (pa_secret_name a))
          \<or> starts_with ''GITHUB_'' (pa_secret_name a)
          \<or> \<not> list_all (\<lambda>b. is_ascii_uppercase b \<or> is_ascii_digit b \<or> b = CHR ''_'') (pa_secret_name a)
       then Inl TE_SecretName
       else and_then (parse_pinned_vault_ref (pa_value_ref a)) (\<lambda>_.
              case pa_github_token_ref a of
                None \<Rightarrow> Inr ()
              | Some reference \<Rightarrow> validate_github_token_ref X reference))"

subsection \<open>Manifests\<close>

definition is_ssh :: "task_manifest \<Rightarrow> bool" where "is_ssh m = (tm_schema_version m = 4)"
definition is_release :: "task_manifest \<Rightarrow> bool" where "is_release m = (tm_schema_version m = 2)"
definition is_inference :: "task_manifest \<Rightarrow> bool" where "is_inference m = (tm_schema_version m = 3)"

definition operation_name :: "task_manifest \<Rightarrow> string" where
  "operation_name m =
     (if is_ssh m then SSH_TASK_OPERATION
      else if is_inference m then INFERENCE_TASK_OPERATION
      else if is_release m then ''github.release_manifest''
      else ''github.publish_manifest'')"

text \<open>The loop over publish actions with its two sets of pairs already seen.\<close>

fun check_publish_actions ::
  "'z ext_scheme \<Rightarrow> (string \<times> string) list \<Rightarrow> (u64 \<times> string) list \<Rightarrow> task_action list
    \<Rightarrow> task_validation_error + unit" where
  "check_publish_actions X pairs identity_pairs [] = Inr ()"
| "check_publish_actions X pairs identity_pairs (a # as) =
     and_then (ok_or (as_publish a) TE_SchemaVersion) (\<lambda>p.
     and_then (publish_action_validate X p) (\<lambda>_.
       let pair = (to_ascii_lowercase (pa_repo p), pa_secret_name p);
           ident = (pa_repository_id p, pa_secret_name p)
       in if pair \<in> set pairs \<or> ident \<in> set identity_pairs then Inl TE_DuplicateAction
          else check_publish_actions X (pair # pairs) (ident # identity_pairs) as))"

definition title_ok :: "'z ext_scheme \<Rightarrow> string \<Rightarrow> bool" where
  "title_ok X t =
     (t \<noteq> [] \<and> length t \<le> 160 \<and> trim t = t
      \<and> list_all (\<lambda>b. 32 \<le> byte b \<and> byte b \<le> 126) t \<and> \<not> contains_secret X t)"

text \<open>\<open>iter().map(f).collect::<Option<Vec<_>>>()\<close>.\<close>

fun collect_option :: "('a \<Rightarrow> 'b option) \<Rightarrow> 'a list \<Rightarrow> 'b list option" where
  "collect_option f [] = Some []"
| "collect_option f (x # xs) =
     (case f x of None \<Rightarrow> None | Some y \<Rightarrow> map_option ((#) y) (collect_option f xs))"

definition manifest_validate :: "'z iext_scheme \<Rightarrow> task_manifest \<Rightarrow> task_validation_error + unit" where
  "manifest_validate X m =
     (if tm_schema_version m \<notin> {TASK_SCHEMA_VERSION, 2, 3, 4} then Inl TE_SchemaVersion
      else if \<not> title_ok X (tm_title m) then Inl TE_Title
      else if \<not> (1 \<le> tm_expires_in_secs m \<and> tm_expires_in_secs m \<le> MAX_TASK_DURATION_SECS)
      then Inl TE_Duration
      else if tm_actions m = [] \<or> length (tm_actions m) > MAX_TASK_ACTIONS then Inl TE_ActionCount
      else if is_ssh m then
        (if tm_github_api_url m \<noteq> [] \<or> tm_vault_api_url m \<noteq> [] \<or> length (tm_actions m) \<noteq> 1
            \<or> tm_expires_in_secs m > MAX_SSH_TASK_DURATION_SECS
         then Inl TE_Ssh
         else and_then (ok_or (as_ssh (tm_actions m ! 0)) TE_Ssh) (\<lambda>a.
                map_err (\<lambda>_. TE_Ssh) (ssh_action_validate X a)))
      else if is_inference m then
        (if tm_github_api_url m \<noteq> [] \<or> tm_vault_api_url m \<noteq> [] \<or> tm_expires_in_secs m > 600
         then Inl TE_Inference
         else and_then (ok_or (collect_option as_inference (tm_actions m)) TE_Inference) (\<lambda>as.
                map_err (\<lambda>_. TE_Inference) (validate_inference_actions X as)))
      else
        and_then (validate_provider_url (tm_github_api_url m)) (\<lambda>_.
          if is_release m then
            (if tm_vault_api_url m \<noteq> [] \<or> length (tm_actions m) \<noteq> 1 then Inl TE_Release
             else and_then (ok_or (as_release (tm_actions m ! 0)) TE_Release) (\<lambda>a.
                    map_err (\<lambda>_. TE_Release) (staging_release_validate X a)))
          else
            and_then (validate_provider_url (tm_vault_api_url m)) (\<lambda>_.
              check_publish_actions X [] [] (tm_actions m))))"

definition canonicalized :: "'z iext_scheme \<Rightarrow> task_manifest \<Rightarrow> task_validation_error + task_manifest" where
  "canonicalized X m =
     and_then (manifest_validate X m) (\<lambda>_.
       Inr (m\<lparr>tm_actions := sort_key action_sort_key (tm_actions m)\<rparr>))"

definition digest_domain :: "task_manifest \<Rightarrow> string" where
  "digest_domain m =
     (if is_ssh m then ''opaque.ssh-health-manifest.v4'' @ [CHR 0x00]
      else if is_inference m then ''opaque.fixed-inference-manifest.v3'' @ [CHR 0x00]
      else if is_release m then ''opaque.github-staging-release.v2'' @ [CHR 0x00]
      else ''opaque.github-publish-manifest.v1'' @ [CHR 0x00])"

definition manifest_digest :: "'z mext_scheme \<Rightarrow> task_manifest \<Rightarrow> task_validation_error + string" where
  "manifest_digest X m =
     and_then (canonicalized X m) (\<lambda>canonical.
       Inr (sha256 X (digest_domain m @ json_of_manifest X canonical)))"

subsection \<open>Outcomes, slots and records\<close>

datatype task_state = TS_Planned | TS_Running | TS_Completed | TS_Partial | TS_Revoked | TS_Expired

datatype task_approval_mode = Native | PairedWorkstation | InsecureTest

datatype slot_state = Pending | Reserved | ApiAccepted | Rejected | Unknown

definition is_terminal :: "slot_state \<Rightarrow> bool" where
  "is_terminal s = (s \<in> {ApiAccepted, Rejected, Unknown})"

record slot_outcome =
  so_state :: slot_state
  so_code :: string
  so_provider_run_id :: "u64 option"
  so_inference_receipt :: "inference_receipt option"
  so_ssh_receipt :: "ssh_receipt option"

definition allowed_outcome_code :: "slot_state \<Rightarrow> string \<Rightarrow> bool" where
  "allowed_outcome_code st code =
     (case st of
        ApiAccepted \<Rightarrow> code = ''api_accepted''
      | Rejected \<Rightarrow> code \<in> {''provider_rejected'', ''source_unavailable'', ''policy_denied'',
          ''approval_denied'', ''reviewer_or_task_authority_changed'',
          ''requester_or_task_authority_changed'', ''internal_error'', ''revoked'', ''expired''}
      | Unknown \<Rightarrow> code \<in> {''transport_unknown'', ''interrupted'', ''internal_error'',
          ''provider_contract_violation''}
      | _ \<Rightarrow> False)"

fun ssh_expected :: "ssh_receipt_code \<Rightarrow> slot_state \<times> string" where
  "ssh_expected SC_HealthObserved = (ApiAccepted, ''api_accepted'')"
| "ssh_expected SC_Denied = (Rejected, ''provider_rejected'')"
| "ssh_expected SC_TimedOut = (Unknown, ''transport_unknown'')"
| "ssh_expected SC_Expired = (Rejected, ''expired'')"
| "ssh_expected SC_Revoked = (Rejected, ''revoked'')"

fun inference_expected :: "inference_receipt_code \<Rightarrow> slot_state \<times> string" where
  "inference_expected IC_CompletionObserved = (ApiAccepted, ''api_accepted'')"
| "inference_expected IC_ProviderRejected = (Rejected, ''provider_rejected'')"
| "inference_expected IC_TransportUnknown = (Unknown, ''transport_unknown'')"
| "inference_expected IC_ProviderContractViolation = (Unknown, ''provider_contract_violation'')"

definition outcome_validate :: "slot_outcome \<Rightarrow> task_validation_error + unit" where
  "outcome_validate oc =
     (if is_some_and (so_provider_run_id oc) (\<lambda>i. i = 0 \<or> so_state oc \<noteq> ApiAccepted)
      then Inl TE_InvalidOutcome
      else if \<not> allowed_outcome_code (so_state oc) (so_code oc) then Inl TE_InvalidOutcome
      else if is_some_and (so_ssh_receipt oc) (\<lambda>receipt.
              so_provider_run_id oc \<noteq> None \<or> so_inference_receipt oc \<noteq> None
              \<or> (so_state oc, so_code oc) \<noteq> ssh_expected (sp_code receipt))
      then Inl TE_InvalidOutcome
      else if is_some_and (so_inference_receipt oc) (\<lambda>receipt.
              so_provider_run_id oc \<noteq> None
              \<or> (so_state oc, so_code oc) \<noteq> inference_expected (ir_code receipt))
      then Inl TE_InvalidOutcome
      else Inr ())"

definition outcome_validate_for_action ::
  "'z sext_scheme \<Rightarrow> slot_outcome \<Rightarrow> task_action \<Rightarrow> task_validation_error + unit" where
  "outcome_validate_for_action X oc a =
     and_then (outcome_validate oc) (\<lambda>_.
     and_then (case (as_ssh a, so_ssh_receipt oc) of
                 (Some s, Some receipt) \<Rightarrow> map_err (\<lambda>_. TE_Ssh) (ssh_receipt_validate X receipt s)
               | (None, Some _) \<Rightarrow> Inl TE_Ssh
               | (Some _, None) \<Rightarrow> reject_if (so_state oc = ApiAccepted) TE_Ssh
               | (None, None) \<Rightarrow> Inr ()) (\<lambda>_.
       case (as_inference a, so_inference_receipt oc) of
         (Some i, Some receipt) \<Rightarrow> map_err (\<lambda>_. TE_Inference) (inference_receipt_validate X receipt i)
       | (None, Some _) \<Rightarrow> Inl TE_Inference
       | (Some _, None) \<Rightarrow> reject_if (so_state oc = ApiAccepted) TE_Inference
       | (None, None) \<Rightarrow> Inr ()))"

record task_slot =
  sl_id :: string
  sl_action :: task_action
  sl_state :: slot_state
  sl_request_id :: "string option"
  sl_reserved_at :: "i64 option"
  sl_finished_at :: "i64 option"
  sl_outcome :: "slot_outcome option"

record workstation_receipt_ref =
  wr_approval_id :: string
  wr_sha256 :: string

record task_record =
  tr_id :: string
  tr_manifest_digest :: string
  tr_manifest :: task_manifest
  tr_owner_key :: string
  tr_tenant :: "tenant_binding option"
  tr_created_at :: i64
  tr_expires_at :: i64
  tr_approved_at :: "i64 option"
  tr_approval_mode :: "task_approval_mode option"
  tr_workstation_receipt :: "workstation_receipt_ref option"
  tr_state :: task_state
  tr_slots :: "task_slot list"
  tr_release_observation :: "release_observation option"

definition tenant_owner_check :: "'z ext_scheme \<Rightarrow> task_record \<Rightarrow> task_validation_error + unit" where
  "tenant_owner_check X r =
     (case tr_tenant r of
        None \<Rightarrow> Inr ()
      | Some tenant \<Rightarrow>
          and_then (map_err (\<lambda>_. TE_Tenant) (tenant_binding_validate tenant)) (\<lambda>_.
            reject_if (\<not> starts_with (owner_prefix X tenant) (tr_owner_key r)) TE_Tenant))"

definition action_tenant_check ::
  "'z ext_scheme \<Rightarrow> task_record \<Rightarrow> task_action \<Rightarrow> task_validation_error + unit" where
  "action_tenant_check X r a =
     (if is_some_and (as_ssh a) (\<lambda>s. tr_tenant r \<noteq> Some (sh_tenant s)
           \<or> tr_owner_key r \<noteq> owner_key X (sh_tenant s) (sh_workload_uid s) (Some (sh_subject s)))
      then Inl TE_Tenant
      else reject_if (is_some_and (as_inference a) (\<lambda>i. tr_tenant r \<noteq> Some (ia_tenant i))) TE_Tenant)"

definition slot_receipt_check ::
  "'z sext_scheme \<Rightarrow> task_record \<Rightarrow> task_slot \<Rightarrow> task_validation_error + unit" where
  "slot_receipt_check X r s =
     (case sl_outcome s of
        None \<Rightarrow> Inr ()
      | Some oc \<Rightarrow>
          and_then (outcome_validate_for_action X oc (sl_action s)) (\<lambda>_.
            if is_some_and (so_ssh_receipt oc) (\<lambda>receipt.
                 is_none_or (tr_approved_at r) (\<lambda>at. sp_started_at receipt < at)
                 \<or> is_none_or (sl_finished_at s) (\<lambda>at. sp_completed_at receipt > at)
                 \<or> is_none_or (sl_reserved_at s) (\<lambda>at. sp_started_at receipt < at)
                 \<or> sp_completed_at receipt > wrap_i64 (tr_expires_at r + 1))
            then Inl TE_Ssh
            else reject_if (is_some_and (so_inference_receipt oc) (\<lambda>receipt.
                 is_none_or (sl_finished_at s) (\<lambda>at. ir_completed_at receipt > at)
                 \<or> is_none_or (sl_reserved_at s) (\<lambda>at. ir_completed_at receipt < at))) TE_Inference))"

definition validate_tenant_and_inference_receipts ::
  "'z sext_scheme \<Rightarrow> task_record \<Rightarrow> task_validation_error + unit" where
  "validate_tenant_and_inference_receipts X r =
     and_then (tenant_owner_check X r) (\<lambda>_.
     and_then (try_each (action_tenant_check X r) (tm_actions (tr_manifest r))) (\<lambda>_.
       try_each (slot_receipt_check X r) (tr_slots r)))"

definition run_id_misplaced :: "task_record \<Rightarrow> task_slot \<Rightarrow> bool" where
  "run_id_misplaced r s =
     (is_some_and (sl_outcome s) (\<lambda>oc. so_provider_run_id oc \<noteq> None)
      \<and> (\<not> is_release (tr_manifest r) \<or> as_release (sl_action s) = None))"

definition first_action :: "task_manifest \<Rightarrow> task_action option" where
  "first_action m = (case tm_actions m of [] \<Rightarrow> None | a # _ \<Rightarrow> Some a)"

definition validate_release_observation ::
  "'z sext_scheme \<Rightarrow> task_record \<Rightarrow> task_validation_error + unit" where
  "validate_release_observation X r =
     (if list_ex (run_id_misplaced r) (tr_slots r) then Inl TE_Release else
      (case tr_release_observation r of
         None \<Rightarrow> Inr ()
       | Some observation \<Rightarrow>
           and_then (ok_or (Option.bind (first_action (tr_manifest r)) as_release) TE_Release) (\<lambda>action.
           if \<not> is_release (tr_manifest r)
              \<or> length (tr_slots r) \<noteq> 1
              \<or> sl_state (tr_slots r ! 0) \<notin> {ApiAccepted, Unknown}
              \<or> sl_reserved_at (tr_slots r ! 0) = None
              \<or> tr_approved_at r = None
              \<or> ro_checked_at observation < tr_created_at r
           then Inl TE_Release else
           and_then (map_err (\<lambda>_. TE_Release)
               (release_observation_validate X observation action (tm_github_api_url (tr_manifest r)))) (\<lambda>_.
           let direct = Option.bind (sl_outcome (tr_slots r ! 0)) so_provider_run_id
           in if is_some_and direct (\<lambda>expected.
                   is_some_and (ro_run_id observation) (\<lambda>observed. observed \<noteq> expected))
              then Inl TE_Release
              else reject_if ((direct \<noteq> None) \<noteq> (ro_correlation observation = DispatchResponse)) TE_Release))))"

subsection \<open>Which manifests validate\<close>

lemma as_publish_Some: "as_publish a = Some p \<longleftrightarrow> a = PublishSecret p"
  by (cases a) auto

lemma as_inference_Some: "as_inference a = Some i \<longleftrightarrow> a = InferenceAct i"
  by (cases a) auto

lemma as_release_Some: "as_release a = Some p \<longleftrightarrow> a = StagingRelease p"
  by (cases a) auto

lemma as_ssh_Some: "as_ssh a = Some p \<longleftrightarrow> a = SshHealth p"
  by (cases a) auto

definition publish_ident :: "task_action \<Rightarrow> u64 \<times> string" where
  "publish_ident a = (action_repository_id a, snd (action_sort_key a))"

lemma check_publish_iff:
  "check_publish_actions X ps ids as = Inr u \<longleftrightarrow>
     (\<forall>a\<in>set as. \<exists>p. a = PublishSecret p \<and> publish_action_validate X p = Inr ())
     \<and> distinct (map action_sort_key as) \<and> action_sort_key ` set as \<inter> set ps = {}
     \<and> distinct (map publish_ident as) \<and> publish_ident ` set as \<inter> set ids = {}"
proof (induction as arbitrary: ps ids)
  case Nil
  then show ?case by simp
next
  case (Cons a as)
  show ?case
  proof (cases a)
    case (PublishSecret p)
    have k: "action_sort_key a = (to_ascii_lowercase (pa_repo p), pa_secret_name p)"
      and i: "publish_ident a = (pa_repository_id p, pa_secret_name p)"
      by (simp_all add: PublishSecret action_sort_key_def publish_ident_def)
    have "check_publish_actions X ps ids (a # as) = Inr u \<longleftrightarrow>
        publish_action_validate X p = Inr () \<and> action_sort_key a \<notin> set ps \<and> publish_ident a \<notin> set ids
        \<and> check_publish_actions X (action_sort_key a # ps) (publish_ident a # ids) as = Inr u"
      unfolding k i by (auto simp: PublishSecret Let_def split: if_splits)
    then show ?thesis unfolding Cons.IH by (auto simp: PublishSecret)
  qed (auto simp: as_publish_Some)
qed

lemma collect_option_Some:
  "collect_option f xs = Some ys \<longleftrightarrow> map f xs = map Some ys"
proof (induction xs arbitrary: ys)
  case Nil
  then show ?case by auto
next
  case (Cons x xs)
  then show ?case by (cases ys) (auto split: option.splits)
qed

lemma collect_inference_Some:
  "collect_option as_inference as = Some is \<longleftrightarrow> as = map InferenceAct is"
proof
  assume "collect_option as_inference as = Some is"
  then have m: "map as_inference as = map Some is" by (simp add: collect_option_Some)
  show "as = map InferenceAct is"
  proof (rule nth_equalityI)
    show len: "length as = length (map InferenceAct is)" using m map_eq_imp_length_eq by auto
    fix j assume j: "j < length as"
    then have "as_inference (as ! j) = Some (is ! j)"
      using m len by (metis length_map nth_map)
    then show "as ! j = map InferenceAct is ! j" using j len by (simp add: as_inference_Some)
  qed
qed (simp add: collect_option_Some)

subsection \<open>The canonical form\<close>

lemma inference_actions_perm:
  assumes "mset as = mset (map InferenceAct is)"
  obtains is' where "as = map InferenceAct is'" "mset is' = mset is"
proof -
  let ?is = "map (the \<circ> as_inference) as"
  have "set as = InferenceAct ` set is" using mset_eq_setD[OF assms] by simp
  then have "map InferenceAct ?is = as" by (auto intro!: map_idI)
  moreover have "mset ?is = mset is"
  proof -
    have "mset ?is = image_mset (the \<circ> as_inference) (mset as)" by simp
    also have "\<dots> = mset is" unfolding assms by (simp add: multiset.map_comp comp_def)
    finally show ?thesis .
  qed
  ultimately show ?thesis using that by metis
qed

lemma validate_inference_actions_perm:
  assumes "mset is' = mset is" "validate_inference_actions X is = Inr u"
  shows "validate_inference_actions X is' = Inr u"
  using assms(2) unfolding validate_inference_actions_iff
    mset_map_distinct[OF assms(1)] mset_eq_setD[OF assms(1)] mset_eq_length[OF assms(1)] .

lemma check_publish_perm:
  assumes "mset as' = mset as" "check_publish_actions X [] [] as = Inr u"
  shows "check_publish_actions X [] [] as' = Inr u"
  using assms(2) unfolding check_publish_iff
    mset_map_distinct[OF assms(1)] mset_eq_setD[OF assms(1)] .

lemma mset_single: "mset as' = mset as \<Longrightarrow> length as = 1 \<Longrightarrow> as' = as"
  by (cases as; cases "tl as") auto

lemma single_action_families:
  assumes "manifest_validate X m = Inr ()" "length (tm_actions m) \<noteq> 1"
  shows "\<not> is_ssh m \<and> \<not> is_release m"
proof (cases "is_inference m")
  case True
  then show ?thesis by (simp add: is_ssh_def is_inference_def is_release_def)
next
  case False
  with assms show ?thesis by (auto simp: manifest_validate_def split: if_splits)
qed

lemma manifest_validate_perm:
  assumes m: "mset as = mset (tm_actions m)" and v: "manifest_validate X m = Inr ()"
  shows "manifest_validate X (m\<lparr>tm_actions := as\<rparr>) = Inr ()"
proof (cases "length (tm_actions m) = 1")
  case True
  with m have "as = tm_actions m" by (rule mset_single)
  with v show ?thesis by simp
next
  case False
  have len: "length as = length (tm_actions m)" using m mset_eq_length by blast
  have ne: "as = [] \<longleftrightarrow> tm_actions m = []" using m by auto
  from single_action_families[OF v False] have nssh: "\<not> is_ssh m" "\<not> is_release m" by simp_all
  show ?thesis
  proof (cases "is_inference m")
    case True
    with v nssh obtain "is" where i: "tm_actions m = map InferenceAct is"
      "validate_inference_actions X is = Inr ()"
      by (auto simp: manifest_validate_def collect_inference_Some split: if_splits)
    obtain is' where i': "as = map InferenceAct is'" "mset is' = mset is"
      using inference_actions_perm[of as "is"] m i(1) by metis
    have "validate_inference_actions X is' = Inr ()"
      by (rule validate_inference_actions_perm[OF i'(2) i(2)])
    moreover have "collect_option as_inference as = Some is'"
      by (simp add: collect_inference_Some i'(1))
    ultimately show ?thesis using v True nssh len ne
      by (auto simp: manifest_validate_def is_ssh_def is_inference_def is_release_def split: if_splits)
  next
    case False
    with v nssh have "check_publish_actions X [] [] (tm_actions m) = Inr ()"
      by (auto simp: manifest_validate_def split: if_splits)
    from check_publish_perm[OF m this] show ?thesis using v False nssh len ne
      by (auto simp: manifest_validate_def is_ssh_def is_inference_def is_release_def split: if_splits)
  qed
qed

lemma decimal_02_inj: "decimal_02 m = decimal_02 n \<Longrightarrow> m < 10 \<Longrightarrow> n < 10 \<Longrightarrow> m = n"
  by (simp add: decimal_02_def)

lemma inference_sort_keys_distinct:
  assumes "validate_inference_actions X is = Inr ()"
  shows "distinct (map action_sort_key (map InferenceAct is))"
proof -
  have d: "distinct (map ia_ordinal is)" and r: "\<And>a. a \<in> set is \<Longrightarrow> unat (ia_ordinal a) < 10"
    using assms inference_ordinal_range unfolding validate_inference_actions_iff by fastforce+
  have "inj_on (action_sort_key \<circ> InferenceAct) (set is)"
  proof (rule inj_onI)
    fix a b assume ab: "a \<in> set is" "b \<in> set is"
      and "(action_sort_key \<circ> InferenceAct) a = (action_sort_key \<circ> InferenceAct) b"
    then have "unat (ia_ordinal a) = unat (ia_ordinal b)"
      using decimal_02_inj[of "unat (ia_ordinal a)" "unat (ia_ordinal b)"] r
      by (auto simp: action_sort_key_def)
    then have "ia_ordinal a = ia_ordinal b" by (simp add: word_unat_eq_iff)
    then show "a = b" using d ab by (auto simp: distinct_map dest: inj_onD)
  qed
  moreover have "distinct is" using d by (simp add: distinct_map)
  ultimately show ?thesis by (simp add: distinct_map)
qed

lemma valid_sort_keys_distinct:
  assumes v: "manifest_validate X m = Inr ()"
  shows "distinct (map action_sort_key (tm_actions m))"
proof (cases "length (tm_actions m) = 1")
  case True
  then show ?thesis by (cases "tm_actions m"; cases "tl (tm_actions m)") auto
next
  case False
  from single_action_families[OF v False] have nssh: "\<not> is_ssh m" "\<not> is_release m" by simp_all
  show ?thesis
  proof (cases "is_inference m")
    case True
    with v nssh obtain "is" where "tm_actions m = map InferenceAct is"
      "validate_inference_actions X is = Inr ()"
      by (auto simp: manifest_validate_def collect_inference_Some split: if_splits)
    then show ?thesis using inference_sort_keys_distinct by metis
  next
    case False
    with v nssh have "check_publish_actions X [] [] (tm_actions m) = Inr ()"
      by (auto simp: manifest_validate_def split: if_splits)
    then show ?thesis by (simp only: check_publish_iff)
  qed
qed

lemma canonicalized_Inr:
  "canonicalized X m = Inr c \<longleftrightarrow>
     manifest_validate X m = Inr () \<and> c = m\<lparr>tm_actions := sort_key action_sort_key (tm_actions m)\<rparr>"
  by (auto simp: canonicalized_def)

lemma canonical_valid:
  assumes "canonicalized X m = Inr c"
  shows "manifest_validate X c = Inr ()"
  using assms manifest_validate_perm[of "sort_key action_sort_key (tm_actions m)" m X]
  by (simp add: canonicalized_Inr)

lemma canonicalized_idem:
  assumes "canonicalized X m = Inr c"
  shows "canonicalized X c = Inr c"
proof -
  have "c = c\<lparr>tm_actions := sort_key action_sort_key (tm_actions c)\<rparr>"
    using assms by (simp add: canonicalized_Inr sort_key_id_if_sorted)
  then show ?thesis using canonical_valid[OF assms] by (simp only: canonicalized_Inr)
qed

lemma digest_domain_actions [simp]: "digest_domain (m\<lparr>tm_actions := as\<rparr>) = digest_domain m"
  by (simp add: digest_domain_def is_ssh_def is_inference_def is_release_def)

lemma canonicalized_perm:
  assumes "mset as = mset (tm_actions m)" "canonicalized X m = Inr c"
  shows "canonicalized X (m\<lparr>tm_actions := as\<rparr>) = Inr c"
proof -
  have v: "manifest_validate X m = Inr ()" using assms(2) by (simp add: canonicalized_Inr)
  have "sort_key action_sort_key (tm_actions m) = sort_key action_sort_key as"
    by (rule sort_key_perm) (simp_all add: valid_sort_keys_distinct[OF v] assms(1))
  then show ?thesis using assms(2) manifest_validate_perm[OF assms(1) v]
    by (simp add: canonicalized_Inr)
qed

lemma manifest_digest_lower_hex:
  "manifest_digest X m = Inr d \<Longrightarrow> list_all is_lower_hex d"
  by (auto simp: manifest_digest_def sha256_def hex_encode_lower)

end
