(* ===== verification/Identity.thy ===== *)
theory Identity
  imports External
begin

text \<open>
  Principals, roles and delegation tokens, \<open>src/crates/opaque-core/src/identity.rs\<close>.
\<close>

datatype identity_error =
    Empty string | TooLong string nat nat | InvalidCharset string | InvalidIssuer
  | InvalidPrincipalId string | UnknownRole string | UnknownAccessMode string

datatype token_error =
    Malformed | UnsupportedVersion | BadSignature | TokenExpired | NotYetValid | InvalidClaims string

subsection \<open>Roles and access modes\<close>

datatype role = Admin | Approver | Operator | Auditor

fun role_as_str :: "role \<Rightarrow> string" where
  "role_as_str Admin = ''admin''"
| "role_as_str Approver = ''approver''"
| "role_as_str Operator = ''operator''"
| "role_as_str Auditor = ''auditor''"

definition role_from_str :: "string \<Rightarrow> identity_error + role" where
  "role_from_str s =
     (if s = ''admin'' then Inr Admin
      else if s = ''approver'' then Inr Approver
      else if s = ''operator'' then Inr Operator
      else if s = ''auditor'' then Inr Auditor
      else Inl (UnknownRole s))"

text \<open>The derived order, that of the constructors; \<open>BTreeSet<Role>\<close> iterates in it.\<close>

definition ALL_ROLES :: "role list" where "ALL_ROLES = [Admin, Approver, Operator, Auditor]"

fun join_str :: "string \<Rightarrow> string list \<Rightarrow> string" where
  "join_str sep [] = []"
| "join_str sep [x] = x"
| "join_str sep (x # y # ys) = x @ sep @ join_str sep (y # ys)"

definition roles_to_string :: "role set \<Rightarrow> string" where
  "roles_to_string roles = join_str '','' (map role_as_str (filter (\<lambda>r. r \<in> roles) ALL_ROLES))"

text \<open>The loop over the comma-separated parts, with the set built so far.\<close>

fun roles_from_parts :: "role set \<Rightarrow> string list \<Rightarrow> identity_error + role set" where
  "roles_from_parts roles [] = Inr roles"
| "roles_from_parts roles (p # ps) =
     (let part = trim p
      in if part = [] then roles_from_parts roles ps
         else and_then (role_from_str part) (\<lambda>r. roles_from_parts (insert r roles) ps))"

definition roles_from_string :: "string \<Rightarrow> identity_error + role set" where
  "roles_from_string s = roles_from_parts {} (split_on CHR '','' s)"

datatype access_mode = Delegated | Autonomous | BreakGlass

fun access_mode_as_str :: "access_mode \<Rightarrow> string" where
  "access_mode_as_str Delegated = ''delegated''"
| "access_mode_as_str Autonomous = ''autonomous''"
| "access_mode_as_str BreakGlass = ''break_glass''"

definition access_mode_from_str :: "string \<Rightarrow> identity_error + access_mode" where
  "access_mode_from_str s =
     (if s = ''delegated'' then Inr Delegated
      else if s = ''autonomous'' then Inr Autonomous
      else if s = ''break_glass'' then Inr BreakGlass
      else Inl (UnknownAccessMode s))"

subsection \<open>Principals\<close>

definition MAX_ISS_LEN :: nat where "MAX_ISS_LEN = 255"
definition MAX_SUB_LEN :: nat where "MAX_SUB_LEN = 255"
definition MAX_EMAIL_LEN :: nat where "MAX_EMAIL_LEN = 254"
definition MAX_NAME_LEN :: nat where "MAX_NAME_LEN = 128"
definition MAX_TOOL_LEN :: nat where "MAX_TOOL_LEN = 64"

datatype principal_kind =
    Human string string "string option" "string option"
  | Agent string
  | Service string

record principal_record =
  pr_id :: string
  pr_kind :: principal_kind
  pr_roles :: "role set"
  pr_created_at :: i64
  pr_last_seen :: i64
  pr_disabled :: bool

definition is_ascii_hexdigit :: "char \<Rightarrow> bool" where
  "is_ascii_hexdigit c =
     (is_ascii_digit c \<or> (97 \<le> byte c \<and> byte c \<le> 102) \<or> (65 \<le> byte c \<and> byte c \<le> 70))"

text \<open>\<open>PrincipalId::generate\<close>, the fresh UUID in its \<open>simple\<close> form being an argument.\<close>

definition principal_id_generate :: "principal_kind \<Rightarrow> string \<Rightarrow> string" where
  "principal_id_generate k simple =
     (case k of Human _ _ _ _ \<Rightarrow> ''hum'' | Agent _ \<Rightarrow> ''agt'' | Service _ \<Rightarrow> ''svc'') @ ''_'' @ simple"

definition principal_id_parse :: "string \<Rightarrow> identity_error + string" where
  "principal_id_parse s =
     (if is_some_and (split_once CHR ''_'' s) (\<lambda>(prefix, rest).
           prefix \<in> {''hum'', ''agt'', ''svc''} \<and> length rest = 32
           \<and> list_all (\<lambda>b. is_ascii_hexdigit b \<and> \<not> is_ascii_uppercase b) rest)
      then Inr s else Inl (InvalidPrincipalId s))"

definition is_human :: "string \<Rightarrow> bool" where "is_human i = starts_with ''hum_'' i"
definition is_service :: "string \<Rightarrow> bool" where "is_service i = starts_with ''svc_'' i"

definition validate_str :: "string \<Rightarrow> string \<Rightarrow> nat \<Rightarrow> identity_error + unit" where
  "validate_str field value maximum =
     (if value = [] then Inl (Empty field)
      else if length (utf8_chars value) > maximum
      then Inl (TooLong field maximum (length (utf8_chars value)))
      else reject_if (list_ex is_control (utf8_chars value)) (InvalidCharset field))"

definition validate_token_ident :: "string \<Rightarrow> string \<Rightarrow> nat \<Rightarrow> identity_error + unit" where
  "validate_token_ident field value maximum =
     (if value = [] then Inl (Empty field)
      else if length value > maximum then Inl (TooLong field maximum (length value))
      else reject_if (\<not> list_all (\<lambda>b. is_ascii_alphanumeric b \<or> b \<in> set ''._-'') value)
             (InvalidCharset field))"

definition validate_issuer :: "string \<Rightarrow> identity_error + unit" where
  "validate_issuer iss =
     and_then (validate_str ''iss'' iss MAX_ISS_LEN) (\<lambda>_.
       if starts_with ''https://'' iss \<or> starts_with ''http://127.0.0.1'' iss
          \<or> starts_with ''http://localhost'' iss
       then Inr () else Inl InvalidIssuer)"

fun principal_kind_validate :: "principal_kind \<Rightarrow> identity_error + unit" where
  "principal_kind_validate (Human iss sub email name) =
     and_then (validate_issuer iss) (\<lambda>_.
     and_then (validate_str ''sub'' sub MAX_SUB_LEN) (\<lambda>_.
     and_then (case email of
                 None \<Rightarrow> Inr ()
               | Some e \<Rightarrow> and_then (validate_str ''email'' e MAX_EMAIL_LEN) (\<lambda>_.
                             reject_if (CHR ''@'' \<notin> set e) (InvalidCharset ''email''))) (\<lambda>_.
       case name of None \<Rightarrow> Inr () | Some n \<Rightarrow> validate_str ''name'' n MAX_NAME_LEN)))"
| "principal_kind_validate (Agent tool) = validate_token_ident ''tool'' tool MAX_TOOL_LEN"
| "principal_kind_validate (Service name) = validate_token_ident ''name'' name MAX_TOOL_LEN"

fun display_label :: "principal_kind \<Rightarrow> string" where
  "display_label (Human iss sub email name) =
     (case email of Some e \<Rightarrow> e | None \<Rightarrow> (case name of Some n \<Rightarrow> n | None \<Rightarrow> sub))"
| "display_label (Agent tool) = ''agent:'' @ tool"
| "display_label (Service name) = ''service:'' @ name"

subsection \<open>Delegation tokens\<close>

definition TOKEN_PREFIX :: string where "TOKEN_PREFIX = ''opqd1''"
definition SIG_DOMAIN :: string where "SIG_DOMAIN = ''opaque-delegation-v1:''"
definition MAX_CLAIMS_LEN :: nat where "MAX_CLAIMS_LEN = 4096"

record delegation_claims =
  dc_jti :: string
  dc_sub :: string
  dc_act :: string
  dc_mode :: access_mode
  dc_iat :: i64
  dc_exp :: i64

text \<open>\<open>serde_json\<close> on claims.\<close>

record idext = ext +
  json_of_claims :: "delegation_claims \<Rightarrow> string"
  claims_from_json :: "string \<Rightarrow> delegation_claims option"

definition claims_validate :: "delegation_claims \<Rightarrow> token_error + unit" where
  "claims_validate c =
     (if dc_jti c = [] \<or> length (dc_jti c) > 128 then Inl (InvalidClaims ''bad jti'')
      else if dc_exp c \<le> dc_iat c then Inl (InvalidClaims ''exp <= iat'')
      else (case dc_mode c of
              Autonomous \<Rightarrow>
                reject_if (\<not> is_service (dc_sub c))
                  (InvalidClaims ''autonomous delegation requires a service principal subject'')
            | _ \<Rightarrow>
                reject_if (\<not> is_human (dc_sub c))
                  (InvalidClaims ''delegated access requires a human principal subject'')))"

definition sign_delegation_token ::
  "'z idext_scheme \<Rightarrow> delegation_claims \<Rightarrow> string \<Rightarrow> token_error + string" where
  "sign_delegation_token X c key =
     and_then (claims_validate c) (\<lambda>_.
       let claims_json = json_of_claims X c
       in if length claims_json > MAX_CLAIMS_LEN then Inl (InvalidClaims ''claims too large'')
          else Inr (TOKEN_PREFIX @ ''.'' @ b64url_encode X claims_json @ ''.''
                    @ b64url_encode X (ed25519_sign X key (SIG_DOMAIN @ claims_json))))"

definition verify_delegation_token ::
  "'z idext_scheme \<Rightarrow> string \<Rightarrow> string \<Rightarrow> i64 \<Rightarrow> token_error + delegation_claims" where
  "verify_delegation_token X token key now_unix =
     (case split_on CHR ''.'' token of
        [prefix, claims_b64, sig_b64] \<Rightarrow>
          if prefix \<noteq> TOKEN_PREFIX then Inl UnsupportedVersion
          else if length claims_b64 > MAX_CLAIMS_LEN * 2 then Inl Malformed
          else
            and_then (ok_or (b64url_decode X claims_b64) Malformed) (\<lambda>claims_json.
            and_then (ok_or (b64url_decode X sig_b64) Malformed) (\<lambda>sig_bytes.
              if length sig_bytes \<noteq> 64 then Inl Malformed
              else if \<not> ed25519_verify X key (SIG_DOMAIN @ claims_json) sig_bytes then Inl BadSignature
              else
                and_then (ok_or (claims_from_json X claims_json) Malformed) (\<lambda>claims.
                and_then (claims_validate claims) (\<lambda>_.
                  if now_unix \<ge> dc_exp claims then Inl TokenExpired
                  else if wrap_i64 (now_unix + 60) < dc_iat claims then Inl NotYetValid
                  else Inr claims))))
      | _ \<Rightarrow> Inl Malformed)"

record principal_context =
  pc_sub :: string
  pc_sub_label :: string
  pc_sub_roles :: "role set"
  pc_sub_teams :: "string list"
  pc_act :: string
  pc_act_label :: string
  pc_mode :: access_mode
  pc_jti :: string
  pc_human_session_id :: "string option"

subsection \<open>Properties\<close>

lemma role_from_str_iff: "role_from_str s = Inr r \<longleftrightarrow> s = role_as_str r"
  by (cases r) (auto simp: role_from_str_def)

lemma access_mode_from_str_iff: "access_mode_from_str s = Inr m \<longleftrightarrow> s = access_mode_as_str m"
  by (cases m) (auto simp: access_mode_from_str_def)

lemma claims_validate_Inr:
  "claims_validate c = Inr u \<longleftrightarrow>
     dc_jti c \<noteq> [] \<and> length (dc_jti c) \<le> 128 \<and> dc_iat c < dc_exp c
     \<and> (if dc_mode c = Autonomous then is_service (dc_sub c) else is_human (dc_sub c))"
  by (cases "dc_mode c") (auto simp: claims_validate_def)

lemma TOKEN_PREFIX_no_dot: "CHR ''.'' \<notin> set TOKEN_PREFIX"
  by (simp add: TOKEN_PREFIX_def)

lemma split_join: 
  assumes "xs \<noteq> []" "\<forall>x\<in>set xs. d \<notin> set x"
  shows "split_on d (join_str [d] xs) = xs"
  using assms by (induction "[d]" xs rule: join_str.induct) (simp_all add: split_on_none split_on_append)

lemma trim_role [simp]: "trim (role_as_str r) = role_as_str r"
  by (cases r; simp add: trim_def utf8_groups.simps(2) utf8_chars.simps(2) white_group_def
      is_whitespace_def)

lemma role_as_str_plain [simp]: "role_as_str r \<noteq> []" "CHR '','' \<notin> set (role_as_str r)"
  by (cases r; simp)+

lemma roles_from_role_parts: "roles_from_parts R (map role_as_str rs) = Inr (R \<union> set rs)"
  by (induction rs arbitrary: R) (simp_all add: role_from_str_iff[THEN iffD2, OF refl])

lemma trim_Nil [simp]: "trim [] = []"
  by (simp add: trim_def)

lemma roles_roundtrip_aux: "roles_from_string (roles_to_string R) = Inr R"
proof -
  have "r \<in> set ALL_ROLES" for r by (cases r) (simp_all add: ALL_ROLES_def)
  then have R: "R = set (filter (\<lambda>r. r \<in> R) ALL_ROLES)" (is "_ = set ?L") by auto
  show ?thesis
  proof (cases "?L = []")
    case True
    then show ?thesis using R by (simp add: roles_to_string_def roles_from_string_def)
  next
    case False
    then have "split_on CHR '','' (join_str '','' (map role_as_str ?L)) = map role_as_str ?L"
      by (intro split_join) auto
    then show ?thesis using R
      by (simp add: roles_to_string_def roles_from_string_def roles_from_role_parts)
  qed
qed

text \<open>A token that \<open>sign_delegation_token\<close> issues verifies under the matching key for as long as its
  time window is open, and yields exactly the claims that were signed.  The hypotheses state what the
  crates promise: base64url decodes what it encodes, its alphabet has no dot and it at most doubles the
  length, signatures have 64 bytes and verify under the paired key, and serde reads back the claims.\<close>

theorem delegation_token_roundtrip:
  assumes b64: "\<And>s. b64url_decode X (b64url_encode X s) = Some s"
    and dots: "\<And>s. CHR ''.'' \<notin> set (b64url_encode X s)"
    and len: "\<And>s. length (b64url_encode X s) \<le> 2 * length s"
    and sig_len: "\<And>m. length (ed25519_sign X sk m) = 64"
    and pair: "\<And>m. ed25519_verify X pk m (ed25519_sign X sk m)"
    and serde: "claims_from_json X (json_of_claims X c) = Some c"
    and signed: "sign_delegation_token X c sk = Inr token"
    and window: "now < dc_exp c" "dc_iat c \<le> now + 60" "in_i64 (now + 60)"
  shows "verify_delegation_token X token pk now = Inr c"
proof -
  let ?j = "json_of_claims X c"
  from signed have valid: "claims_validate c = Inr ()" and small: "length ?j \<le> MAX_CLAIMS_LEN"
    and tok: "token = TOKEN_PREFIX @ CHR ''.'' # b64url_encode X ?j @ CHR ''.'' #
                        b64url_encode X (ed25519_sign X sk (SIG_DOMAIN @ ?j))"
    by (auto simp: sign_delegation_token_def Let_def split: if_splits)
  have parts: "split_on CHR ''.'' token
      = [TOKEN_PREFIX, b64url_encode X ?j, b64url_encode X (ed25519_sign X sk (SIG_DOMAIN @ ?j))]"
    unfolding tok by (simp add: split_on_append split_on_none dots TOKEN_PREFIX_no_dot)
  have "length (b64url_encode X ?j) \<le> MAX_CLAIMS_LEN * 2" using len[of ?j] small by linarith
  then show ?thesis using window valid
    by (simp add: verify_delegation_token_def parts b64 sig_len pair serde)
qed

definition demo_claims :: delegation_claims where
  "demo_claims = \<lparr>dc_jti = ''s1'', dc_sub = ''hum_a'', dc_act = ''agt_b'', dc_mode = Delegated,
     dc_iat = 100, dc_exp = 200\<rparr>"

definition demo_idext :: idext where
  "demo_idext = \<lparr>uuid_parse_str = (\<lambda>_. None), uuid_to_string = (\<lambda>_. ''''), sha256_bytes = id,
     regex_is_match = (\<lambda>_ _. False), glob_match = (=), verifying_key_ok = (\<lambda>_. True),
     ed25519_verify = (\<lambda>_ m s. s = replicate 64 CHR ''s''), ed25519_verify_strict = (\<lambda>_ _ _. False),
     ed25519_sign = (\<lambda>_ _. replicate 64 CHR ''s''), b64url_encode = hex_encode, b64url_decode = hex_decode,
     json_of_claims = (\<lambda>c. dc_jti c), claims_from_json = (\<lambda>_. Some demo_claims)\<rparr>"

lemma hex_encode_no_dot: "CHR ''.'' \<notin> set (hex_encode s)"
  using hex_encode_lower[of s] by (auto simp: list_all_iff ascii_defs)

theorem delegation_token_roundtrip_witness:
  "\<exists>token. sign_delegation_token demo_idext demo_claims ''k'' = Inr token
     \<and> verify_delegation_token demo_idext token ''p'' 150 = Inr demo_claims"
proof -
  obtain token where t: "sign_delegation_token demo_idext demo_claims ''k'' = Inr token"
    by (simp add: sign_delegation_token_def claims_validate_def demo_claims_def demo_idext_def
        is_human_def starts_with_def MAX_CLAIMS_LEN_def)
  have "verify_delegation_token demo_idext token ''p'' 150 = Inr demo_claims"
    by (rule delegation_token_roundtrip[OF _ _ _ _ _ _ t])
      (simp_all add: demo_idext_def hex_encode_no_dot demo_claims_def in_i64_def i64_min_def i64_max_def)
  with t show ?thesis by blast
qed

text \<open>Whatever \<open>verify_delegation_token\<close> accepts was signed: the token has three parts under the
  version prefix, the signature verifies over the domain-separated claim bytes, the returned claims are
  those bytes read back, the window is open at \<open>now\<close>, and an autonomous delegation names a service
  principal while every other mode names a human.\<close>

theorem verified_token_is_authentic:
  assumes "verify_delegation_token X token key now = Inr c"
  shows "\<exists>claims_b64 sig_b64 claims_json sig.
      split_on CHR ''.'' token = [TOKEN_PREFIX, claims_b64, sig_b64]
      \<and> b64url_decode X claims_b64 = Some claims_json \<and> b64url_decode X sig_b64 = Some sig
      \<and> ed25519_verify X key (SIG_DOMAIN @ claims_json) sig
      \<and> claims_from_json X claims_json = Some c
      \<and> now < dc_exp c \<and> dc_iat c \<le> wrap_i64 (now + 60)
      \<and> (dc_mode c = Autonomous \<longrightarrow> is_service (dc_sub c))
      \<and> (dc_mode c \<noteq> Autonomous \<longrightarrow> is_human (dc_sub c))"
  using assms unfolding verify_delegation_token_def
  by (auto simp: claims_validate_Inr split: list.splits if_splits)

theorem verified_token_is_authentic_witness:
  "\<exists>claims_json sig. ed25519_verify demo_idext ''p'' (SIG_DOMAIN @ claims_json) sig
     \<and> claims_from_json demo_idext claims_json = Some demo_claims"
proof -
  have "verify_delegation_token demo_idext
      (TOKEN_PREFIX @ ''.'' @ hex_encode ''s1'' @ ''.'' @ hex_encode (replicate 64 CHR ''s'')) ''p'' 150
      = Inr demo_claims"
    by (simp add: verify_delegation_token_def split_on_append split_on_none hex_encode_no_dot
        TOKEN_PREFIX_no_dot demo_idext_def claims_validate_def demo_claims_def is_human_def
        starts_with_def MAX_CLAIMS_LEN_def wrap_i64_def)
  from verified_token_is_authentic[OF this] show ?thesis by blast
qed

text \<open>Role sets survive storage: parsing the stable comma-separated rendering of a role set gives the
  set back.\<close>

theorem roles_roundtrip: "roles_from_string (roles_to_string R) = Inr R"
  by (rule roles_roundtrip_aux)

text \<open>The loopback exception of \<open>validate_issuer\<close> is a prefix test, so it also admits plain-http issuers
  on hosts that are not loopback, such as \<open>http://localhost.example.org\<close>.\<close>

theorem issuer_loopback_prefix:
  "validate_issuer ''http://localhost.example.org'' = Inr ()
   \<and> validate_issuer ''http://127.0.0.1.example.org'' = Inr ()
   \<and> validate_issuer ''http://example.org'' = Inl InvalidIssuer"
  by (simp add: validate_issuer_def validate_str_def MAX_ISS_LEN_def utf8_chars.simps(2)
      is_control_def starts_with_def)

end
