(* ===== verification/Workstation.thy ===== *)
theory Workstation
  imports Manifest Identity
begin

text \<open>
  The approval workstation protocol, \<open>src/crates/opaque-core/src/workstation.rs\<close>: challenges,
  reviews, the bytes a workstation signs, and the verification of a signed decision.  The main lemma is
  that the signed byte string determines every field of the challenge and the decision.
\<close>

definition MAX_REVIEW_BYTES :: nat where "MAX_REVIEW_BYTES = 120 * 1024"
definition MAX_CHALLENGE_TTL_SECS :: i64 where "MAX_CHALLENGE_TTL_SECS = 300"

datatype workstation_error =
    InvalidChallenge | WE_Expired | WrongBroker | ContentMismatch | InvalidSignature | InvalidHex

record approval_binding =
  ab_tenant :: tenant_binding
  ab_task_id :: string
  ab_manifest_digest :: string
  ab_request_hash :: string
  ab_policy_digest :: string
  ab_requester :: string

record workstation_authority =
  wa_binding :: approval_binding
  wa_principal_id :: string
  wa_public_key_hex :: string
  wa_required_role :: string
  wa_authority_epoch :: u64

record workstation_challenge =
  wc_schema_version :: u32
  wc_authority :: "workstation_authority option"
  wc_broker_id :: string
  wc_approval_id :: string
  wc_request_id :: string
  wc_operation :: string
  wc_content_hash :: string
  wc_nonce :: string
  wc_created_at :: i64
  wc_expires_at :: i64

record workstation_review =
  rv_challenge :: workstation_challenge
  rv_review_text :: string

datatype workstation_decision = Approve | Reject

record workstation_response =
  rp_device_id :: string
  rp_decision :: workstation_decision
  rp_signature :: string

record signed_workstation_receipt =
  wsr_schema_version :: u32
  wsr_review :: workstation_review
  wsr_response :: workstation_response
  wsr_accepted_at :: i64

record enrollment_challenge =
  ec_schema_version :: u32
  ec_broker_id :: string
  ec_public_key_hex :: string
  ec_nonce :: string
  ec_created_at :: i64
  ec_expires_at :: i64

text \<open>\<open>serde_json\<close> on the authority and on a signed receipt.\<close>

record wext = mext +
  json_of_authority :: "workstation_authority \<Rightarrow> string"
  json_of_signed_receipt :: "signed_workstation_receipt \<Rightarrow> string"

subsection \<open>Validation\<close>

definition decode_hex :: "nat \<Rightarrow> string \<Rightarrow> workstation_error + string" where
  "decode_hex n value =
     (if length value \<noteq> n * 2 \<or> \<not> list_all is_ascii_hexdigit value then Inl InvalidHex
      else ok_or (hex_decode value) InvalidHex)"

definition review_hash :: "'z ext_scheme \<Rightarrow> string \<Rightarrow> string" where
  "review_hash X text = hex_encode (sha256_bytes X text)"

definition valid_identifier :: "string \<Rightarrow> bool" where
  "valid_identifier value =
     (value \<noteq> [] \<and> length value \<le> 128
      \<and> list_all (\<lambda>b. is_ascii_alphanumeric b \<or> b \<in> set ''_.:-'') value)"

definition notice_link :: "'z ext_scheme \<Rightarrow> string \<Rightarrow> string \<Rightarrow> workstation_error + string" where
  "notice_link X broker_id approval_id =
     (if \<not> valid_identifier broker_id \<or> uuid_parse_str X approval_id = None then Inl InvalidChallenge
      else Inr (''opaque-approval://review/'' @ broker_id @ ''/'' @ approval_id))"

definition resolve_notice :: "'z ext_scheme \<Rightarrow> string \<Rightarrow> string \<Rightarrow> workstation_error + string" where
  "resolve_notice X link enrolled_broker =
     and_then (ok_or (strip_prefix ''opaque-approval://review/'' link) InvalidChallenge) (\<lambda>rest.
       let parts = split_on CHR ''/'' rest
       in if length parts \<noteq> 2 then Inl InvalidChallenge
          else and_then (notice_link X (parts ! 0) (parts ! 1)) (\<lambda>l.
                 if l \<noteq> link then Inl InvalidChallenge
                 else if parts ! 0 \<noteq> enrolled_broker then Inl WrongBroker
                 else Inr (parts ! 1)))"

definition validate_times :: "i64 \<Rightarrow> i64 \<Rightarrow> i64 \<Rightarrow> workstation_error + unit" where
  "validate_times created_at expires_at now =
     (if created_at < 0 \<or> expires_at \<le> created_at \<or> expires_at - created_at > MAX_CHALLENGE_TTL_SECS
      then Inl InvalidChallenge
      else reject_if (now < created_at \<or> now \<ge> expires_at) WE_Expired)"

definition binding_validate :: "'z ext_scheme \<Rightarrow> approval_binding \<Rightarrow> workstation_error + unit" where
  "binding_validate X b =
     reject_if (\<not> is_ok (tenant_binding_validate (ab_tenant b))
        \<or> uuid_parse_str X (ab_task_id b) = None
        \<or> \<not> is_ok (decode_hex 32 (ab_manifest_digest b))
        \<or> \<not> is_ok (decode_hex 32 (ab_request_hash b))
        \<or> \<not> is_ok (decode_hex 32 (ab_policy_digest b))
        \<or> \<not> valid_identifier (ab_requester b)) InvalidChallenge"

definition authority_validate :: "'z ext_scheme \<Rightarrow> workstation_authority \<Rightarrow> workstation_error + unit" where
  "authority_validate X a =
     and_then (binding_validate X (wa_binding a)) (\<lambda>_.
       reject_if (\<not> valid_identifier (wa_principal_id a)
          \<or> wa_principal_id a = ab_requester (wa_binding a)
          \<or> \<not> is_ok (decode_hex 32 (wa_public_key_hex a))
          \<or> \<not> is_ok (role_from_str (wa_required_role a))) InvalidChallenge)"

definition challenge_operations :: "string list" where
  "challenge_operations =
     [''github.publish_manifest'', ''github.release_manifest'', ''inference.fixed_manifest'',
      ''ssh.health_manifest'', ''agent_session_start'', ''identity.provisioning.bind_start'',
      ''identity.provisioning.mandate_start'']"

definition challenge_validate ::
  "'z ext_scheme \<Rightarrow> workstation_challenge \<Rightarrow> string \<Rightarrow> i64 \<Rightarrow> workstation_error + unit" where
  "challenge_validate X c broker_id now =
     (if \<not> ((wc_schema_version c = 1 \<and> wc_authority c = None) \<or> (wc_schema_version c = 2 \<and> wc_authority c \<noteq> None))
         \<or> \<not> valid_identifier (wc_broker_id c)
         \<or> uuid_parse_str X (wc_approval_id c) = None
         \<or> uuid_parse_str X (wc_request_id c) = None
         \<or> wc_operation c \<notin> set challenge_operations
         \<or> \<not> is_ok (decode_hex 32 (wc_nonce c))
         \<or> \<not> is_ok (decode_hex 32 (wc_content_hash c))
      then Inl InvalidChallenge
      else if wc_broker_id c \<noteq> broker_id then Inl WrongBroker
      else and_then (case wc_authority c of None \<Rightarrow> Inr () | Some a \<Rightarrow> authority_validate X a) (\<lambda>_.
             validate_times (wc_created_at c) (wc_expires_at c) now))"

definition bad_review_char :: "nat \<Rightarrow> bool" where
  "bad_review_char c =
     ((is_control c \<and> c \<noteq> 10 \<and> c \<noteq> 9) \<or> (0x202A \<le> c \<and> c \<le> 0x202E) \<or> (0x2066 \<le> c \<and> c \<le> 0x2069))"

definition review_validate ::
  "'z ext_scheme \<Rightarrow> workstation_review \<Rightarrow> string \<Rightarrow> i64 \<Rightarrow> workstation_error + unit" where
  "review_validate X r broker_id now =
     and_then (challenge_validate X (rv_challenge r) broker_id now) (\<lambda>_.
       reject_if (trim (rv_review_text r) = []
          \<or> length (rv_review_text r) > MAX_REVIEW_BYTES
          \<or> list_ex bad_review_char (utf8_chars (rv_review_text r))
          \<or> review_hash X (rv_review_text r) \<noteq> wc_content_hash (rv_challenge r)) ContentMismatch)"

definition enrollment_validate ::
  "enrollment_challenge \<Rightarrow> string \<Rightarrow> string \<Rightarrow> i64 \<Rightarrow> workstation_error + unit" where
  "enrollment_validate c broker_id public_key now =
     (if ec_schema_version c \<noteq> 1 \<or> \<not> valid_identifier (ec_broker_id c)
         \<or> \<not> is_ok (decode_hex 32 (ec_public_key_hex c)) \<or> \<not> is_ok (decode_hex 32 (ec_nonce c))
         \<or> ec_public_key_hex c \<noteq> public_key
      then Inl InvalidChallenge
      else if ec_broker_id c \<noteq> broker_id then Inl WrongBroker
      else validate_times (ec_created_at c) (ec_expires_at c) now)"

subsection \<open>Signed bytes\<close>

text \<open>\<open>to_le_bytes\<close> of an integer of \<open>k\<close> bytes, two's complement.\<close>

definition le_bytes :: "nat \<Rightarrow> int \<Rightarrow> string" where
  "le_bytes k x = map (\<lambda>i. char_of (nat (x div 256 ^ i mod 256))) [0..<k]"

definition field_bytes :: "string list \<Rightarrow> string" where
  "field_bytes fs = concat (map (\<lambda>f. le_bytes 4 (int (length f)) @ f) fs)"

definition signed_fields :: "'z ext_scheme \<Rightarrow> string list \<Rightarrow> string" where
  "signed_fields X fs = sha256_bytes X (field_bytes fs)"

definition decision_fields :: "'z wext_scheme \<Rightarrow> workstation_challenge \<Rightarrow> bool \<Rightarrow> string list" where
  "decision_fields X c approve =
     (case wc_authority c of
        Some authority \<Rightarrow>
          [''opaque.workstation-decision.v2'', le_bytes 4 (uint (wc_schema_version c)), wc_broker_id c,
           wc_approval_id c, wc_request_id c, wc_operation c, wc_content_hash c, wc_nonce c,
           le_bytes 8 (wc_created_at c), le_bytes 8 (wc_expires_at c), json_of_authority X authority,
           if approve then ''approve'' else ''reject'']
      | None \<Rightarrow>
          [''opaque.workstation-decision.v1'', wc_broker_id c, wc_approval_id c, wc_request_id c,
           wc_operation c, wc_content_hash c, wc_nonce c, le_bytes 8 (wc_created_at c),
           le_bytes 8 (wc_expires_at c), if approve then ''approve'' else ''reject''])"

definition workstation_decision_bytes :: "'z wext_scheme \<Rightarrow> workstation_challenge \<Rightarrow> bool \<Rightarrow> string" where
  "workstation_decision_bytes X c approve = signed_fields X (decision_fields X c approve)"

definition enrollment_bytes :: "'z ext_scheme \<Rightarrow> enrollment_challenge \<Rightarrow> string" where
  "enrollment_bytes X c =
     signed_fields X
       [''opaque.workstation-enrollment.v1'', ec_broker_id c, ec_public_key_hex c, ec_nonce c,
        le_bytes 8 (ec_created_at c), le_bytes 8 (ec_expires_at c)]"

definition verify_signature ::
  "'z ext_scheme \<Rightarrow> string \<Rightarrow> string \<Rightarrow> string \<Rightarrow> workstation_error + unit" where
  "verify_signature X public_key signature message =
     and_then (decode_hex 32 public_key) (\<lambda>key.
     if \<not> verifying_key_ok X key then Inl InvalidSignature else
     and_then (decode_hex 64 signature) (\<lambda>sig.
       reject_if (\<not> ed25519_verify_strict X key message sig) InvalidSignature))"

definition signed_receipt_verify :: "'z wext_scheme \<Rightarrow> signed_workstation_receipt \<Rightarrow> workstation_error + unit" where
  "signed_receipt_verify X r =
     (if wsr_schema_version r \<noteq> 1 then Inl InvalidChallenge else
      let challenge = rv_challenge (wsr_review r)
      in and_then (review_validate X (wsr_review r) (wc_broker_id challenge) (wsr_accepted_at r)) (\<lambda>_.
         and_then (ok_or (wc_authority challenge) InvalidChallenge) (\<lambda>authority.
           if uuid_parse_str X (rp_device_id (wsr_response r)) = None then Inl InvalidChallenge
           else verify_signature X (wa_public_key_hex authority) (rp_signature (wsr_response r))
                  (workstation_decision_bytes X challenge (rp_decision (wsr_response r) = Approve)))))"

subsection \<open>The signed bytes determine the challenge\<close>

lemma length_le_bytes [simp]: "length (le_bytes k x) = k"
  by (simp add: le_bytes_def)

lemma le_bytes_Suc: "le_bytes (Suc k) x = char_of (nat (x mod 256)) # le_bytes k (x div 256)"
proof -
  have "[0..<Suc k] = 0 # map Suc [0..<k]" by (simp add: map_Suc_upt upt_conv_Cons)
  then show ?thesis by (simp add: le_bytes_def zdiv_zmult2_eq comp_def)
qed

lemma char_of_byte_inject:
  assumes "char_of (nat (x mod 256)) = (char_of (nat (y mod 256)) :: char)"
  shows "(x :: int) mod 256 = y mod 256"
proof -
  have b: "nat (x mod 256) < 256" "nat (y mod 256) < 256" by (simp_all add: nat_less_iff)
  from assms have "byte (char_of (nat (x mod 256)) :: char) = byte (char_of (nat (y mod 256)) :: char)"
    by simp
  then have "nat (x mod 256) = nat (y mod 256)" using b by (simp only: of_char_of mod_less)
  then show ?thesis by (simp add: eq_nat_nat_iff)
qed

lemma le_bytes_mod: "le_bytes k x = le_bytes k y \<Longrightarrow> x mod 256 ^ k = y mod 256 ^ k"
proof (induction k arbitrary: x y)
  case 0
  then show ?case by simp
next
  case (Suc k)
  from Suc.prems have "char_of (nat (x mod 256)) = (char_of (nat (y mod 256)) :: char)"
    and "le_bytes k (x div 256) = le_bytes k (y div 256)"
    unfolding le_bytes_Suc list.inject by blast+
  then have h: "x mod 256 = y mod 256" and t: "(x div 256) mod 256 ^ k = (y div 256) mod 256 ^ k"
    using char_of_byte_inject Suc.IH by blast+
  have "z mod 256 ^ Suc k = 256 * (z div 256 mod 256 ^ k) + z mod 256" for z :: int
    by (simp add: zmod_zmult2_eq)
  then show ?case using h t by simp
qed

lemma le_bytes_length_inject:
  "le_bytes 4 (int m) = le_bytes 4 (int n) \<Longrightarrow> m < 2 ^ 32 \<Longrightarrow> n < 2 ^ 32 \<Longrightarrow> m = n"
  using le_bytes_mod[of 4 "int m" "int n"] by simp

lemma le_bytes_u32_inject:
  fixes x y :: u32
  assumes "le_bytes 4 (uint x) = le_bytes 4 (uint y)"
  shows "x = y"
proof -
  have "uint x < 4294967296" "uint y < 4294967296" using uint_bounded[of x] uint_bounded[of y] by simp_all
  with le_bytes_mod[OF assms] show ?thesis by (simp add: word_uint_eq_iff)
qed

lemma le_bytes_i64_inject:
  assumes "le_bytes 8 x = le_bytes 8 y" "in_i64 x" "in_i64 y"
  shows "x = y"
proof -
  have "x mod 2 ^ 64 = y mod 2 ^ 64" using le_bytes_mod[OF assms(1)] by simp
  then have "(x + 2 ^ 63) mod 2 ^ 64 = (y + 2 ^ 63) mod 2 ^ 64" by (metis mod_add_cong)
  then have "wrap_i64 x = wrap_i64 y" by (simp add: wrap_i64_def)
  then show ?thesis using assms(2,3) by simp
qed

text \<open>The length prefix makes the concatenation of fields uniquely decodable.\<close>

lemma field_bytes_inject:
  assumes "list_all (\<lambda>f. length f < 2 ^ 32) fs" "list_all (\<lambda>f. length f < 2 ^ 32) gs"
    and "field_bytes fs = field_bytes gs"
  shows "fs = gs"
  using assms
proof (induction fs arbitrary: gs)
  case Nil
  then show ?case by (cases gs) (auto simp: field_bytes_def le_bytes_def upt_rec)
next
  case (Cons f fs)
  show ?case
  proof (cases gs)
    case Nil
    then show ?thesis using Cons.prems by (auto simp: field_bytes_def le_bytes_def upt_rec)
  next
    case (Cons g gs')
    have eq: "le_bytes 4 (int (length f)) @ f @ field_bytes fs
            = le_bytes 4 (int (length g)) @ g @ field_bytes gs'"
      using Cons.prems(3) Cons by (simp add: field_bytes_def)
    then have l: "le_bytes 4 (int (length f)) = le_bytes 4 (int (length g))"
      and r: "f @ field_bytes fs = g @ field_bytes gs'"
      by (simp_all add: append_eq_append_conv)
    have "length f = length g"
      using le_bytes_length_inject[OF l] Cons.prems(1,2) Cons by simp
    with r have "f = g" "field_bytes fs = field_bytes gs'" by simp_all
    then show ?thesis using Cons.IH[of gs'] Cons.prems(1,2) Cons by simp
  qed
qed

lemma decision_word_inject:
  "(if a then ''approve'' else ''reject'') = (if b then ''approve'' else ''reject'') \<Longrightarrow> a = b"
  by (cases a; cases b) simp_all

definition challenge_shape :: "workstation_challenge \<Rightarrow> bool" where
  "challenge_shape c \<longleftrightarrow>
     in_i64 (wc_created_at c) \<and> in_i64 (wc_expires_at c)
     \<and> (wc_authority c = None \<longrightarrow> wc_schema_version c = 1)"

lemma decision_fields_inject:
  assumes auth: "\<And>x y. wc_authority c = Some x \<Longrightarrow> wc_authority d = Some y
                   \<Longrightarrow> json_of_authority X x = json_of_authority X y \<Longrightarrow> x = y"
    and shape: "challenge_shape c" "challenge_shape d"
    and eq: "decision_fields X c a = decision_fields X d b"
  shows "c = d \<and> a = b"
proof (cases "wc_authority c")
  case None
  with eq have None': "wc_authority d = None"
    by (cases "wc_authority d") (auto simp: decision_fields_def)
  show ?thesis using eq None None' shape decision_word_inject[of a b]
    by (auto simp: decision_fields_def challenge_shape_def le_bytes_i64_inject
        intro!: workstation_challenge.equality)
next
  case (Some x)
  with eq obtain y where Some': "wc_authority d = Some y"
    by (cases "wc_authority d") (auto simp: decision_fields_def)
  show ?thesis using eq Some Some' shape decision_word_inject[of a b] auth[OF Some Some']
    by (auto simp: decision_fields_def challenge_shape_def le_bytes_i64_inject le_bytes_u32_inject
        intro!: workstation_challenge.equality)
qed

lemma challenge_validate_shape:
  "challenge_validate X c broker now = Inr () \<Longrightarrow> in_i64 (wc_expires_at c) \<Longrightarrow> challenge_shape c"
  by (auto simp: challenge_validate_def challenge_shape_def validate_times_def in_i64_def i64_min_def
      split: if_splits)

lemma signed_receipt_verify_Inr:
  "signed_receipt_verify X r = Inr () \<longleftrightarrow>
     wsr_schema_version r = 1
     \<and> review_validate X (wsr_review r) (wc_broker_id (rv_challenge (wsr_review r))) (wsr_accepted_at r) = Inr ()
     \<and> uuid_parse_str X (rp_device_id (wsr_response r)) \<noteq> None
     \<and> (\<exists>authority. wc_authority (rv_challenge (wsr_review r)) = Some authority
          \<and> verify_signature X (wa_public_key_hex authority) (rp_signature (wsr_response r))
              (workstation_decision_bytes X (rv_challenge (wsr_review r))
                 (rp_decision (wsr_response r) = Approve)) = Inr ())"
  by (auto simp: signed_receipt_verify_def Let_def split: if_splits)

subsection \<open>A concrete environment\<close>

text \<open>An instance of the external functions on which witnesses evaluate: UUIDs print as decimals, every
  digest is 32 fixed bytes, no pattern matches, every signature of 64 bytes \<open>0x73\<close> verifies.\<close>

definition demo_wext :: wext where
  "demo_wext = \<lparr>uuid_parse_str = (\<lambda>s. map_option of_nat (parse_unsigned 128 s)),
     uuid_to_string = (\<lambda>u. decimal (unat u)), sha256_bytes = (\<lambda>_. replicate 32 CHR ''a''),
     regex_is_match = (\<lambda>_ _. False), glob_match = (=), verifying_key_ok = (\<lambda>_. True),
     ed25519_verify = (\<lambda>_ _ s. s = replicate 64 CHR ''s''),
     ed25519_verify_strict = (\<lambda>_ _ s. s = replicate 64 CHR ''s''),
     ed25519_sign = (\<lambda>_ _. replicate 64 CHR ''s''), b64url_encode = hex_encode, b64url_decode = hex_decode,
     json_of_source = (\<lambda>_. ''source''), json_of_snapshot = (\<lambda>_. ''snapshot''),
     json_from_str = (\<lambda>_. Some JNull), json_of_manifest = (\<lambda>_. ''manifest''),
     json_of_authority = (\<lambda>_. ''authority''), json_of_signed_receipt = (\<lambda>_. ''receipt'')\<rparr>"

lemma demo_wext_sel [simp]:
  "uuid_to_string demo_wext u = decimal (unat u)"
  "uuid_parse_str demo_wext s = map_option of_nat (parse_unsigned 128 s)"
  "sha256_bytes demo_wext v = replicate 32 CHR ''a''"
  "regex_is_match demo_wext re v = False"
  "verifying_key_ok demo_wext v = True"
  "ed25519_verify_strict demo_wext k m s = (s = replicate 64 CHR ''s'')"
  "json_of_manifest demo_wext tm = ''manifest''"
  "json_of_authority demo_wext a = ''authority''"
  "json_of_signed_receipt demo_wext w = ''receipt''"
  by (simp_all add: demo_wext_def)

definition demo_tenant :: tenant_binding where
  "demo_tenant = \<lparr>tb_schema_version = 1, tb_tenant_id = ''acme'', tb_broker_id = 7\<rparr>"

definition demo_hex :: string where "demo_hex = hex_encode (replicate 32 CHR ''a'')"

definition demo_authority :: workstation_authority where
  "demo_authority = \<lparr>wa_binding = \<lparr>ab_tenant = demo_tenant, ab_task_id = ''5'', ab_manifest_digest = demo_hex,
      ab_request_hash = demo_hex, ab_policy_digest = demo_hex, ab_requester = ''alice''\<rparr>,
     wa_principal_id = ''bob'', wa_public_key_hex = demo_hex, wa_required_role = ''approver'',
     wa_authority_epoch = 1\<rparr>"

definition demo_challenge :: workstation_challenge where
  "demo_challenge = \<lparr>wc_schema_version = 2, wc_authority = Some demo_authority, wc_broker_id = ''broker'',
     wc_approval_id = ''9'', wc_request_id = ''8'', wc_operation = ''github.publish_manifest'',
     wc_content_hash = demo_hex, wc_nonce = demo_hex, wc_created_at = 100, wc_expires_at = 200\<rparr>"

definition demo_receipt :: signed_workstation_receipt where
  "demo_receipt = \<lparr>wsr_schema_version = 1,
     wsr_review = \<lparr>rv_challenge = demo_challenge, rv_review_text = ''Publish''\<rparr>,
     wsr_response = \<lparr>rp_device_id = ''3'', rp_decision = Approve,
       rp_signature = hex_encode (replicate 64 CHR ''s'')\<rparr>,
     wsr_accepted_at = 150\<rparr>"

lemma decode_hex_encode: "length s = n \<Longrightarrow> decode_hex n (hex_encode s) = Inr s"
proof -
  have "list_all is_ascii_hexdigit (hex_encode s)"
    using hex_encode_lower[of s] by (auto simp: list_all_iff is_lower_hex_def is_ascii_hexdigit_def)
  then show "length s = n \<Longrightarrow> decode_hex n (hex_encode s) = Inr s" by (simp add: decode_hex_def)
qed

lemma demo_hex_ok [simp]: "decode_hex 32 demo_hex = Inr (replicate 32 CHR ''a'')"
  unfolding demo_hex_def by (rule decode_hex_encode) simp

lemma demo_uuid [simp]: "parse_unsigned 128 [CHR ''9''] = Some 9" "parse_unsigned 128 [CHR ''8''] = Some 8"
  "parse_unsigned 128 [CHR ''5''] = Some 5" "parse_unsigned 128 [CHR ''3''] = Some 3"
  by (simp_all add: parse_unsigned_def decimal_val_def digit_val_def ascii_defs)

lemma demo_challenge_valid: "challenge_validate demo_wext demo_challenge ''broker'' 150 = Inr ()"
  by (simp add: challenge_validate_def demo_challenge_def authority_validate_def demo_authority_def
      binding_validate_def demo_tenant_def tenant_binding_validate_def tenant_id_parse_def
      valid_identifier_def ascii_defs challenge_operations_def role_from_str_def validate_times_def
      MAX_CHALLENGE_TTL_SECS_def)

lemma demo_receipt_verifies: "signed_receipt_verify demo_wext demo_receipt = Inr ()"
proof -
  have "review_validate demo_wext (wsr_review demo_receipt) ''broker'' 150 = Inr ()"
    using demo_challenge_valid
    by (simp add: review_validate_def demo_receipt_def trim_def utf8_groups.simps(2) utf8_chars.simps(2)
        white_group_def is_whitespace_def is_control_def bad_review_char_def MAX_REVIEW_BYTES_def
        review_hash_def demo_challenge_def demo_hex_def)
  then show ?thesis
    by (simp add: signed_receipt_verify_Inr demo_receipt_def demo_challenge_def demo_authority_def
        verify_signature_def decode_hex_encode)
qed

subsection \<open>What a signature commits to\<close>



text \<open>C35: A receipt that verifies is a decision about exactly one reviewed text: the key of the authority
  signed the decision bytes of this challenge, the digest in the challenge is the digest of the review,
  the approval happened inside a window of at most five minutes, and the reviewer is not the requester.\<close>

theorem verified_receipt_binds:
  assumes "signed_receipt_verify X r = Inr ()"
  shows "\<exists>authority key sig. wc_authority (rv_challenge (wsr_review r)) = Some authority
      \<and> decode_hex 32 (wa_public_key_hex authority) = Inr key
      \<and> decode_hex 64 (rp_signature (wsr_response r)) = Inr sig
      \<and> ed25519_verify_strict X key
          (workstation_decision_bytes X (rv_challenge (wsr_review r)) (rp_decision (wsr_response r) = Approve)) sig
      \<and> wc_content_hash (rv_challenge (wsr_review r)) = hex_encode (sha256_bytes X (rv_review_text (wsr_review r)))
      \<and> wc_created_at (rv_challenge (wsr_review r)) \<le> wsr_accepted_at r
      \<and> wsr_accepted_at r < wc_expires_at (rv_challenge (wsr_review r))
      \<and> wc_expires_at (rv_challenge (wsr_review r)) \<le> wc_created_at (rv_challenge (wsr_review r)) + 300
      \<and> wa_principal_id authority \<noteq> ab_requester (wa_binding authority)"
  using assms unfolding signed_receipt_verify_Inr
  by (auto simp: verify_signature_def review_validate_def challenge_validate_def authority_validate_def
      validate_times_def review_hash_def MAX_CHALLENGE_TTL_SECS_def split: if_splits)

theorem verified_receipt_binds_witness:
  "\<exists>sig. decode_hex 64 (rp_signature (wsr_response demo_receipt)) = Inr sig
     \<and> wsr_accepted_at demo_receipt < wc_expires_at (rv_challenge (wsr_review demo_receipt))"
  using verified_receipt_binds[OF demo_receipt_verifies] by blast

text \<open>A notice link resolves to the approval it was made for when the workstation is enrolled with the
  issuing broker, and is refused by a workstation enrolled elsewhere (no text form of a UUID has a slash).\<close>

theorem notice_link_roundtrip:
  assumes uuid: "\<And>s u. uuid_parse_str X s = Some u \<Longrightarrow> CHR ''/'' \<notin> set s"
    and link: "notice_link X broker approval = Inr l"
  shows "resolve_notice X l enrolled = (if enrolled = broker then Inr approval else Inl WrongBroker)"
proof -
  from link have l: "l = ''opaque-approval://review/'' @ broker @ ''/'' @ approval"
    and v: "valid_identifier broker" and a: "uuid_parse_str X approval \<noteq> None"
    by (auto simp: notice_link_def split: if_splits)
  have "CHR ''/'' \<notin> set broker" using v by (auto simp: valid_identifier_def list_all_iff ascii_defs)
  moreover have "CHR ''/'' \<notin> set approval" using a uuid by auto
  ultimately have "split_on CHR ''/'' (broker @ ''/'' @ approval) = [broker, approval]"
    by (simp add: split_on_append split_on_none)
  moreover have "strip_prefix ''opaque-approval://review/'' l = Some (broker @ ''/'' @ approval)"
    unfolding l by (rule strip_prefix_append)
  ultimately show ?thesis using link by (auto simp: resolve_notice_def)
qed

theorem notice_link_roundtrip_witness:
  "resolve_notice demo_wext (''opaque-approval://review/broker/9'') ''broker'' = Inr ''9''
   \<and> resolve_notice demo_wext (''opaque-approval://review/broker/9'') ''other'' = Inl WrongBroker"
proof -
  have u: "uuid_parse_str demo_wext s = Some u \<Longrightarrow> CHR ''/'' \<notin> set s" for s u
    by (auto simp: parse_unsigned_def Let_def list_all_iff ascii_defs split: if_splits list.splits)
  have l: "notice_link demo_wext ''broker'' ''9'' = Inr (''opaque-approval://review/broker/9'')"
    by (simp add: notice_link_def valid_identifier_def ascii_defs)
  from notice_link_roundtrip[OF u l, where enrolled = "''broker''"]
    notice_link_roundtrip[OF u l, where enrolled = "''other''"]
  show ?thesis by simp
qed

end
