(* ===== verification/Ledger.thy ===== *)
theory Ledger
  imports Prelude
begin

text \<open>
  The contract of a ledger whose grants are charged once and never refunded.  Both durable ledgers of the
  broker meet it: slots of the task ledger and actions of the scope ledger.  The client lemma is that over
  any sequence of operations, whatever their order and whoever issues them, no key is granted twice.
\<close>

fun run :: "('op \<Rightarrow> 's \<Rightarrow> 's) \<Rightarrow> 'op list \<Rightarrow> 's \<Rightarrow> 's" where
  "run exec [] s = s"
| "run exec (op # ops) s = run exec ops (exec op s)"

text \<open>The keys granted along a run, in order.\<close>

fun granted :: "('op \<Rightarrow> 's \<Rightarrow> 's) \<Rightarrow> ('op \<Rightarrow> 's \<Rightarrow> 'k option) \<Rightarrow> 'op list \<Rightarrow> 's \<Rightarrow> 'k list" where
  "granted exec grants [] s = []"
| "granted exec grants (op # ops) s =
     (case grants op s of None \<Rightarrow> [] | Some k \<Rightarrow> [k]) @ granted exec grants ops (exec op s)"

locale charge_ledger =
  fixes exec :: "'op \<Rightarrow> 's \<Rightarrow> 's"
    and grants :: "'op \<Rightarrow> 's \<Rightarrow> 'k option"
    and charged :: "'s \<Rightarrow> 'k \<Rightarrow> bool"
    and ok :: "'s \<Rightarrow> bool"
  assumes ok_exec: "ok s \<Longrightarrow> ok (exec op s)"
    and grant_fresh: "ok s \<Longrightarrow> grants op s = Some k \<Longrightarrow> \<not> charged s k"
    and grant_charges: "ok s \<Longrightarrow> grants op s = Some k \<Longrightarrow> charged (exec op s) k"
    and charge_kept: "ok s \<Longrightarrow> charged s k \<Longrightarrow> charged (exec op s) k"
begin

lemma ok_run: "ok s \<Longrightarrow> ok (run exec ops s)"
  by (induction ops arbitrary: s) (simp_all add: ok_exec)

lemma charged_run: "ok s \<Longrightarrow> charged s k \<Longrightarrow> charged (run exec ops s) k"
  by (induction ops arbitrary: s) (simp_all add: ok_exec charge_kept)

lemma charged_not_granted: "ok s \<Longrightarrow> charged s k \<Longrightarrow> k \<notin> set (granted exec grants ops s)"
proof (induction ops arbitrary: s)
  case (Cons op ops)
  have "k \<notin> set (granted exec grants ops (exec op s))" using Cons ok_exec charge_kept by blast
  moreover have "grants op s \<noteq> Some k" using Cons.prems grant_fresh by blast
  ultimately show ?case by (cases "grants op s") auto
qed simp

lemma granted_distinct: "ok s \<Longrightarrow> distinct (granted exec grants ops s)"
proof (induction ops arbitrary: s)
  case (Cons op ops)
  have d: "distinct (granted exec grants ops (exec op s))" using Cons ok_exec by blast
  show ?case
  proof (cases "grants op s")
    case None
    then show ?thesis using d by simp
  next
    case (Some k)
    then have "k \<notin> set (granted exec grants ops (exec op s))"
      using Cons.prems ok_exec grant_charges charged_not_granted by blast
    then show ?thesis using d Some by simp
  qed
qed simp

lemma granted_charged: "ok s \<Longrightarrow> k \<in> set (granted exec grants ops s) \<Longrightarrow> charged (run exec ops s) k"
proof (induction ops arbitrary: s)
  case (Cons op ops)
  show ?case
  proof (cases "grants op s = Some k")
    case True
    then show ?thesis using Cons.prems(1) ok_exec grant_charges charged_run by simp
  next
    case False
    then have "k \<in> set (granted exec grants ops (exec op s))" using Cons.prems(2) by (auto split: option.splits)
    then show ?thesis using Cons ok_exec by simp
  qed
qed simp

end

end
