(* ===== verification/Task_Store.thy ===== *)
theory Task_Store
  imports Workstation Ledger
begin

text \<open>
  The durable authority ledger, \<open>src/crates/opaque-bounded-work/src/task_store.rs\<close>.

  A store is the tenant it is bound to and the rows of the table \<open>bounded_tasks\<close> in rowid order; the
  column \<open>record\<close> has the type \<open>'j\<close> of serialized text, with serde's encoder and decoder as
  parameters.  Every operation runs in one immediate transaction under the process-wide mutex and is a
  function from the store to the result and the new store.  The argument \<open>io\<close> is the error that the mutex
  or SQLite returns, if any: SQLite rolls the transaction back, so the rows stay as they were.
  File creation, permissions and the \<open>flock\<close> writer lock of \<open>open_for_tenant\<close> are not modelled.
\<close>

datatype task_store_error =
    TSE_Io | TSE_Sqlite | TSE_Serde | TSE_Validation task_validation_error | TSE_Locked | TSE_Poisoned
  | TSE_Corrupt | TSE_NotFound | TSE_OwnerMismatch | TSE_Expired | TSE_Revoked | TSE_AlreadyClaimed
  | TSE_NotApproved | TSE_DigestMismatch | TSE_SlotNotFound | TSE_SlotConsumed | TSE_RequestMismatch
  | TSE_InvalidTransition | TSE_InvalidInput | TSE_InvalidCursor | TSE_ReceiptTooLarge

text \<open>\<open>serde_json\<close> on records, and the length of an encoded record.\<close>

record 'j tsext = wext +
  to_json :: "task_record \<Rightarrow> 'j"
  from_json :: "'j \<Rightarrow> task_record option"
  json_len :: "'j \<Rightarrow> nat"

type_synonym 'j row = "string \<times> string \<times> 'j"

record 'j task_store =
  ts_tenant :: "tenant_binding option"
  ts_rows :: "'j row list"

subsection \<open>Input checks\<close>

definition validate_now :: "i64 \<Rightarrow> task_store_error + unit" where
  "validate_now now = reject_if (now < 0) TSE_InvalidInput"

definition validate_owner :: "string \<Rightarrow> task_store_error + unit" where
  "validate_owner own =
     reject_if (own = [] \<or> length own > 1024 \<or> \<not> list_all (\<lambda>b. 33 \<le> byte b \<and> byte b \<le> 126) own)
       TSE_InvalidInput"

definition validate_request :: "string \<Rightarrow> task_store_error + unit" where
  "validate_request request =
     reject_if (request = [] \<or> length request > 128
         \<or> \<not> list_all (\<lambda>b. is_ascii_alphanumeric b \<or> b \<in> set ''_.:-'') request) TSE_InvalidInput"

definition validate_owner_boundary ::
  "'z ext_scheme \<Rightarrow> tenant_binding option \<Rightarrow> string \<Rightarrow> task_store_error + unit" where
  "validate_owner_boundary X tenant own =
     (case tenant of
        None \<Rightarrow> Inr ()
      | Some t \<Rightarrow> reject_if (\<not> starts_with (owner_prefix X t) own) TSE_OwnerMismatch)"

definition slot_id :: "string \<Rightarrow> nat \<Rightarrow> string" where
  "slot_id task index = task @ '':'' @ decimal_02 (index + 1)"

definition refresh_expiry :: "task_record \<Rightarrow> i64 \<Rightarrow> task_record \<times> bool" where
  "refresh_expiry r now =
     (if now \<ge> tr_expires_at r \<and> tr_state r \<in> {TS_Planned, TS_Running}
      then (r\<lparr>tr_state := TS_Expired\<rparr>, True) else (r, False))"

definition check_active :: "task_record \<Rightarrow> task_store_error + unit" where
  "check_active r =
     (case tr_state r of TS_Expired \<Rightarrow> Inl TSE_Expired | TS_Revoked \<Rightarrow> Inl TSE_Revoked | _ \<Rightarrow> Inr ())"

subsection \<open>Structural verification\<close>

definition workstation_ref_ok :: "'z ext_scheme \<Rightarrow> task_record \<Rightarrow> bool" where
  "workstation_ref_ok X r =
     is_none_or (tr_workstation_receipt r) (\<lambda>receipt.
       tr_approved_at r \<noteq> None
       \<and> tr_approval_mode r \<in> {Some PairedWorkstation, Some InsecureTest}
       \<and> uuid_parse_str X (wr_approval_id receipt) \<noteq> None
       \<and> is_ok (decode_hex 32 (wr_sha256 receipt)))"

definition record_header_ok :: "'z mext_scheme \<Rightarrow> task_record \<Rightarrow> bool" where
  "record_header_ok X r =
     (canonicalized X (tr_manifest r) = Inr (tr_manifest r)
      \<and> manifest_digest X (tr_manifest r) = Inr (tr_manifest_digest r)
      \<and> uuid_parse_str X (tr_id r) \<noteq> None
      \<and> is_ok (validate_owner (tr_owner_key r))
      \<and> 0 \<le> tr_created_at r
      \<and> checked_add_i64 (tr_created_at r) (wrap_i64 (int (unat (tm_expires_in_secs (tr_manifest r)))))
          = Some (tr_expires_at r)
      \<and> length (tr_slots r) = length (tm_actions (tr_manifest r))
      \<and> \<not> (tr_approved_at r = None \<and> tr_approval_mode r \<noteq> None)
      \<and> \<not> is_some_and (tr_approved_at r) (\<lambda>at. at < tr_created_at r \<or> at \<ge> tr_expires_at r))"

definition charged_slot_ok :: "task_record \<Rightarrow> task_slot \<Rightarrow> bool" where
  "charged_slot_ok r s =
     (case (tr_approved_at r, sl_reserved_at s) of
        (Some approved_at, Some reserved_at) \<Rightarrow>
          \<not> reserved_at < approved_at \<and> \<not> reserved_at \<ge> tr_expires_at r
          \<and> \<not> is_none_or (sl_request_id s) (\<lambda>i. \<not> is_ok (validate_request i))
          \<and> \<not> is_some_and (sl_finished_at s) (\<lambda>at. at < reserved_at)
          \<and> (if sl_state s = Reserved then sl_outcome s = None \<and> sl_finished_at s = None
             else is_some_and (sl_outcome s) (\<lambda>oc.
                    so_state oc = sl_state s \<and> is_ok (outcome_validate oc)
                    \<and> (sl_finished_at s = None \<longrightarrow> sl_state s = Unknown \<and> so_code oc = ''interrupted'')))
      | _ \<Rightarrow> False)"

definition slot_ok :: "task_record \<Rightarrow> nat \<Rightarrow> task_slot \<Rightarrow> task_action \<Rightarrow> bool" where
  "slot_ok r index s a =
     (sl_id s = slot_id (tr_id r) index \<and> sl_action s = a
      \<and> (if sl_state s = Pending
         then sl_request_id s = None \<and> sl_reserved_at s = None \<and> sl_finished_at s = None
              \<and> sl_outcome s = None
         else charged_slot_ok r s))"

fun slots_ok :: "task_record \<Rightarrow> nat \<Rightarrow> task_slot list \<Rightarrow> task_action list \<Rightarrow> bool" where
  "slots_ok r index (s # ss) (a # as) = (slot_ok r index s a \<and> slots_ok r (Suc index) ss as)"
| "slots_ok r index _ _ = True"

definition state_ok :: "task_record \<Rightarrow> bool" where
  "state_ok r =
     (case tr_state r of
        TS_Planned \<Rightarrow> tr_approved_at r = None \<and> list_all (\<lambda>s. sl_state s = Pending) (tr_slots r)
      | TS_Completed \<Rightarrow> list_all (\<lambda>s. sl_state s = ApiAccepted) (tr_slots r)
      | TS_Partial \<Rightarrow> list_all (\<lambda>s. sl_state s \<noteq> Reserved) (tr_slots r)
      | _ \<Rightarrow> True)"

definition verified :: "'z mext_scheme \<Rightarrow> task_record \<Rightarrow> bool" where
  "verified X r =
     (workstation_ref_ok X r
      \<and> is_ok (validate_tenant_and_inference_receipts X r)
      \<and> is_ok (validate_release_observation X r)
      \<and> record_header_ok X r
      \<and> slots_ok r 0 (tr_slots r) (tm_actions (tr_manifest r))
      \<and> state_ok r)"

definition verify_record :: "'z mext_scheme \<Rightarrow> task_record \<Rightarrow> task_store_error + unit" where
  "verify_record X r = reject_if (\<not> verified X r) TSE_Corrupt"

definition verify_tenant :: "task_record \<Rightarrow> tenant_binding option \<Rightarrow> task_store_error + unit" where
  "verify_tenant r tenant = reject_if (tr_tenant r \<noteq> tenant) TSE_OwnerMismatch"

subsection \<open>Rows\<close>

definition decode_row :: "('j, 'z) tsext_scheme \<Rightarrow> 'j row \<Rightarrow> task_store_error + task_record" where
  "decode_row X row =
     (case row of (i, own, encoded) \<Rightarrow>
        and_then (ok_or (from_json X encoded) TSE_Corrupt) (\<lambda>r.
          if tr_id r \<noteq> i \<or> tr_owner_key r \<noteq> own then Inl TSE_Corrupt
          else and_then (verify_record X r) (\<lambda>_. Inr r)))"

definition load_record ::
  "('j, 'z) tsext_scheme \<Rightarrow> 'j row list \<Rightarrow> string \<Rightarrow> task_store_error + task_record" where
  "load_record X rows i =
     and_then (ok_or (find (\<lambda>row. fst row = i) rows) TSE_NotFound) (decode_row X)"

definition load_all :: "('j, 'z) tsext_scheme \<Rightarrow> 'j row list \<Rightarrow> task_store_error + task_record list" where
  "load_all X rows = try_map (decode_row X) rows"

definition row_matches :: "task_record \<Rightarrow> 'j row \<Rightarrow> bool" where
  "row_matches r row = (fst row = tr_id r \<and> fst (snd row) = tr_owner_key r)"

definition update_row :: "task_record \<Rightarrow> 'j \<Rightarrow> 'j row \<Rightarrow> 'j row" where
  "update_row r j row = (if row_matches r row then (fst row, fst (snd row), j) else row)"

definition save_record ::
  "('j, 'z) tsext_scheme \<Rightarrow> 'j row list \<Rightarrow> task_record \<Rightarrow> task_store_error + 'j row list" where
  "save_record X rows r =
     and_then (verify_record X r) (\<lambda>_.
       if length (filter (row_matches r) rows) \<noteq> 1 then Inl TSE_Corrupt
       else Inr (map (update_row r (to_json X r)) rows))"

subsection \<open>The transaction wrapper\<close>

definition admit ::
  "('j, 'z) tsext_scheme \<Rightarrow> task_store_error option \<Rightarrow> 'j task_store \<Rightarrow> string \<Rightarrow> string \<Rightarrow> i64
    \<Rightarrow> task_store_error + task_record" where
  "admit X io S i own now =
     and_then (validate_owner own) (\<lambda>_.
     and_then (validate_owner_boundary X (ts_tenant S) own) (\<lambda>_.
     and_then (validate_now now) (\<lambda>_.
     and_then (case io of None \<Rightarrow> Inr () | Some e \<Rightarrow> Inl e) (\<lambda>_.
     and_then (load_record X (ts_rows S) i) (\<lambda>r.
     and_then (verify_tenant r (ts_tenant S)) (\<lambda>_.
       if tr_owner_key r \<noteq> own then Inl TSE_OwnerMismatch else Inr r))))))"

definition mutate ::
  "('j, 'z) tsext_scheme \<Rightarrow> task_store_error option \<Rightarrow> 'j task_store \<Rightarrow> string \<Rightarrow> string \<Rightarrow> i64
    \<Rightarrow> (task_record \<Rightarrow> task_store_error + ('a \<times> task_record)) \<Rightarrow> (task_store_error + 'a) \<times> 'j task_store" where
  "mutate X io S i own now operation =
     (case admit X io S i own now of
        Inl e \<Rightarrow> (Inl e, S)
      | Inr r \<Rightarrow>
          (let before_operation = fst (refresh_expiry r now);
               outcome = operation before_operation;
               persisted = (case outcome of Inr (_, r') \<Rightarrow> r' | Inl _ \<Rightarrow> before_operation)
           in case save_record X (ts_rows S) persisted of
                Inl e \<Rightarrow> (Inl e, S)
              | Inr rows \<Rightarrow> (map_sum id fst outcome, S\<lparr>ts_rows := rows\<rparr>)))"

subsection \<open>Operations\<close>

definition new_slot :: "string \<Rightarrow> nat \<times> task_action \<Rightarrow> task_slot" where
  "new_slot i ia =
     \<lparr>sl_id = slot_id i (fst ia), sl_action = snd ia, sl_state = Pending, sl_request_id = None,
      sl_reserved_at = None, sl_finished_at = None, sl_outcome = None\<rparr>"

definition new_record ::
  "string \<Rightarrow> string \<Rightarrow> task_manifest \<Rightarrow> string \<Rightarrow> tenant_binding option \<Rightarrow> i64 \<Rightarrow> i64 \<Rightarrow> task_record" where
  "new_record i own m digest tenant now expires_at =
     \<lparr>tr_id = i, tr_manifest_digest = digest, tr_manifest = m, tr_owner_key = own, tr_tenant = tenant,
      tr_created_at = now, tr_expires_at = expires_at, tr_approved_at = None, tr_approval_mode = None,
      tr_workstation_receipt = None, tr_state = TS_Planned,
      tr_slots = map (new_slot i) (enumerate 0 (tm_actions m)), tr_release_observation = None\<rparr>"

definition create ::
  "('j, 'z) tsext_scheme \<Rightarrow> task_store_error option \<Rightarrow> 'j task_store \<Rightarrow> string \<Rightarrow> task_manifest \<Rightarrow> i64
    \<Rightarrow> uuid \<Rightarrow> (task_store_error + task_record) \<times> 'j task_store" where
  "create X io S own m0 now new_v4 =
     (case and_then (validate_owner own) (\<lambda>_.
           and_then (validate_owner_boundary X (ts_tenant S) own) (\<lambda>_.
           and_then (validate_now now) (\<lambda>_.
           and_then (map_err TSE_Validation (canonicalized X m0)) (\<lambda>m.
           and_then (ok_or (checked_add_i64 now (wrap_i64 (int (unat (tm_expires_in_secs m))))) TSE_InvalidInput)
             (\<lambda>expires_at.
           and_then (map_err TSE_Validation (manifest_digest X m)) (\<lambda>digest.
             let r = new_record (uuid_to_string X new_v4) own m digest (ts_tenant S) now expires_at
             in and_then (verify_record X r) (\<lambda>_.
                and_then (verify_tenant r (ts_tenant S)) (\<lambda>_.
                and_then (case io of None \<Rightarrow> Inr () | Some e \<Rightarrow> Inl e) (\<lambda>_.
                  if tr_id r \<in> fst ` set (ts_rows S) then Inl TSE_Sqlite else Inr r))))))))) of
        Inl e \<Rightarrow> (Inl e, S)
      | Inr r \<Rightarrow> (Inr r, S\<lparr>ts_rows := ts_rows S @ [(tr_id r, tr_owner_key r, to_json X r)]\<rparr>))"

definition read_op :: "task_record \<Rightarrow> task_store_error + (task_record \<times> task_record)" where
  "read_op r = Inr (r, r)"

definition get ::
  "('j, 'z) tsext_scheme \<Rightarrow> task_store_error option \<Rightarrow> 'j task_store \<Rightarrow> string \<Rightarrow> string \<Rightarrow> i64
    \<Rightarrow> (task_store_error + task_record) \<times> 'j task_store" where
  "get X io S i own now = mutate X io S i own now read_op"

definition merge_observation ::
  "release_observation \<Rightarrow> release_observation option \<Rightarrow> release_observation option" where
  "merge_observation ob prev =
     (case prev of
        None \<Rightarrow> Some ob
      | Some previous \<Rightarrow>
          if ro_checked_at ob < ro_checked_at previous then None
          else if ro_state previous = RO_Ambiguous then None
          else if ro_run_id previous \<noteq> None \<and> ro_run_id ob \<noteq> ro_run_id previous
          then Some (ob\<lparr>ro_state := RO_Ambiguous, ro_code := ''run_correlation_ambiguous'', ro_run_id := None,
                       ro_run_url := None, ro_observed_commit_sha := None, ro_run_attempt := None\<rparr>)
          else if ro_state previous \<in> {RO_Succeeded, RO_Failed} \<and> ro_state ob = RO_Running then None
          else Some ob)"

definition observe_op ::
  "'z sext_scheme \<Rightarrow> release_observation \<Rightarrow> i64 \<Rightarrow> task_record \<Rightarrow> task_store_error + (task_record \<times> task_record)" where
  "observe_op X ob now r =
     (if ro_checked_at ob > now then Inl TSE_InvalidInput
      else (case merge_observation ob (tr_release_observation r) of
              None \<Rightarrow> Inr (r, r)
            | Some ob' \<Rightarrow>
                let r' = r\<lparr>tr_release_observation := Some ob'\<rparr>
                in and_then (map_err TSE_Validation (validate_release_observation X r')) (\<lambda>_. Inr (r', r'))))"

definition record_release_observation ::
  "('j, 'z) tsext_scheme \<Rightarrow> task_store_error option \<Rightarrow> 'j task_store \<Rightarrow> string \<Rightarrow> string
    \<Rightarrow> release_observation \<Rightarrow> i64 \<Rightarrow> (task_store_error + task_record) \<times> 'j task_store" where
  "record_release_observation X io S i own ob now = mutate X io S i own now (observe_op X ob now)"

definition claim_op :: "task_record \<Rightarrow> task_store_error + (task_record \<times> task_record)" where
  "claim_op r =
     and_then (check_active r) (\<lambda>_.
       if tr_state r \<noteq> TS_Planned then Inl TSE_AlreadyClaimed
       else let r' = r\<lparr>tr_state := TS_Running\<rparr> in Inr (r', r'))"

definition claim ::
  "('j, 'z) tsext_scheme \<Rightarrow> task_store_error option \<Rightarrow> 'j task_store \<Rightarrow> string \<Rightarrow> string \<Rightarrow> i64
    \<Rightarrow> (task_store_error + task_record) \<times> 'j task_store" where
  "claim X io S i own now = mutate X io S i own now claim_op"

definition receipt_ref ::
  "'z wext_scheme \<Rightarrow> task_approval_mode \<Rightarrow> i64 \<Rightarrow> signed_workstation_receipt option \<Rightarrow> task_record
    \<Rightarrow> task_store_error + workstation_receipt_ref option" where
  "receipt_ref X mode now receipt r =
     (case receipt of
        None \<Rightarrow> Inr (tr_workstation_receipt r)
      | Some w \<Rightarrow>
          and_then (map_err (\<lambda>_. TSE_InvalidInput) (signed_receipt_verify X w)) (\<lambda>_.
          let challenge = rv_challenge (wsr_review w)
          in and_then (ok_or (wc_authority challenge) TSE_InvalidInput) (\<lambda>authority.
               let binding = wa_binding authority
               in if ab_task_id binding \<noteq> tr_id r
                     \<or> ab_manifest_digest binding \<noteq> tr_manifest_digest r
                     \<or> Some (ab_tenant binding) \<noteq> tr_tenant r
                     \<or> rp_decision (wsr_response w) \<noteq> Approve
                     \<or> mode \<notin> {PairedWorkstation, InsecureTest}
                     \<or> wsr_accepted_at w > now
                     \<or> now \<ge> wc_expires_at challenge
                  then Inl TSE_InvalidInput
                  else Inr (Some \<lparr>wr_approval_id = wc_approval_id challenge,
                                  wr_sha256 = review_hash X (json_of_signed_receipt X w)\<rparr>))))"

definition approve_op ::
  "'z wext_scheme \<Rightarrow> string \<Rightarrow> task_approval_mode \<Rightarrow> i64 \<Rightarrow> signed_workstation_receipt option \<Rightarrow> task_record
    \<Rightarrow> task_store_error + (task_record \<times> task_record)" where
  "approve_op X digest mode now receipt r =
     and_then (check_active r) (\<lambda>_.
       if tr_manifest_digest r \<noteq> digest then Inl TSE_DigestMismatch
       else if tr_state r \<noteq> TS_Running \<or> tr_approved_at r \<noteq> None then Inl TSE_InvalidTransition
       else if now < tr_created_at r then Inl TSE_InvalidInput
       else and_then (receipt_ref X mode now receipt r) (\<lambda>w.
              let r' = r\<lparr>tr_workstation_receipt := w, tr_approved_at := Some now,
                         tr_approval_mode := Some mode\<rparr>
              in Inr (r', r')))"

definition approve_with_receipt ::
  "('j, 'z) tsext_scheme \<Rightarrow> task_store_error option \<Rightarrow> 'j task_store \<Rightarrow> string \<Rightarrow> string \<Rightarrow> string
    \<Rightarrow> task_approval_mode \<Rightarrow> i64 \<Rightarrow> signed_workstation_receipt option
    \<Rightarrow> (task_store_error + task_record) \<times> 'j task_store" where
  "approve_with_receipt X io S i own digest mode now receipt =
     mutate X io S i own now (approve_op X digest mode now receipt)"

definition approve ::
  "('j, 'z) tsext_scheme \<Rightarrow> task_store_error option \<Rightarrow> 'j task_store \<Rightarrow> string \<Rightarrow> string \<Rightarrow> string
    \<Rightarrow> task_approval_mode \<Rightarrow> i64 \<Rightarrow> (task_store_error + task_record) \<times> 'j task_store" where
  "approve X io S i own digest mode now = approve_with_receipt X io S i own digest mode now None"

text \<open>\<open>iter_mut().find(..)\<close>: the first slot with the identifier is changed in place.\<close>

fun update_slot :: "string \<Rightarrow> (task_slot \<Rightarrow> task_slot) \<Rightarrow> task_slot list \<Rightarrow> task_slot list" where
  "update_slot i f [] = []"
| "update_slot i f (s # ss) = (if sl_id s = i then f s # ss else s # update_slot i f ss)"

definition find_slot :: "string \<Rightarrow> task_slot list \<Rightarrow> task_store_error + task_slot" where
  "find_slot i slots = ok_or (find (\<lambda>s. sl_id s = i) slots) TSE_SlotNotFound"

definition reserve_op ::
  "string \<Rightarrow> string \<Rightarrow> i64 \<Rightarrow> task_record \<Rightarrow> task_store_error + (task_slot \<times> task_record)" where
  "reserve_op slot request now r =
     and_then (check_active r) (\<lambda>_.
       if tr_state r \<noteq> TS_Running \<or> tr_approved_at r = None then Inl TSE_NotApproved
       else if now < (case tr_approved_at r of Some at \<Rightarrow> at | None \<Rightarrow> tr_created_at r)
       then Inl TSE_InvalidInput
       else and_then (find_slot slot (tr_slots r)) (\<lambda>s.
              if sl_state s \<noteq> Pending then Inl TSE_SlotConsumed
              else let charge = (\<lambda>s. s\<lparr>sl_state := Reserved, sl_request_id := Some request,
                                       sl_reserved_at := Some now\<rparr>)
                   in Inr (charge s, r\<lparr>tr_slots := update_slot slot charge (tr_slots r)\<rparr>)))"

definition reserve_slot ::
  "('j, 'z) tsext_scheme \<Rightarrow> task_store_error option \<Rightarrow> 'j task_store \<Rightarrow> string \<Rightarrow> string \<Rightarrow> string
    \<Rightarrow> string \<Rightarrow> i64 \<Rightarrow> (task_store_error + task_slot) \<times> 'j task_store" where
  "reserve_slot X io S i own slot request now =
     (case validate_request request of
        Inl e \<Rightarrow> (Inl e, S)
      | Inr _ \<Rightarrow> mutate X io S i own now (reserve_op slot request now))"

definition finalize_op ::
  "'z sext_scheme \<Rightarrow> string \<Rightarrow> string \<Rightarrow> slot_outcome \<Rightarrow> i64 \<Rightarrow> task_record
    \<Rightarrow> task_store_error + (task_record \<times> task_record)" where
  "finalize_op X slot request oc now r =
     and_then (find_slot slot (tr_slots r)) (\<lambda>s.
       if sl_state s \<noteq> Reserved then Inl TSE_SlotConsumed
       else if sl_request_id s \<noteq> Some request then Inl TSE_RequestMismatch
       else if now < (case sl_reserved_at s of Some at \<Rightarrow> at | None \<Rightarrow> tr_created_at r)
       then Inl TSE_InvalidInput
       else and_then (map_err TSE_Validation (outcome_validate_for_action X oc (sl_action s))) (\<lambda>_.
              let slots = update_slot slot (\<lambda>s. s\<lparr>sl_state := so_state oc, sl_finished_at := Some now,
                                              sl_outcome := Some oc\<rparr>) (tr_slots r);
                  r' = r\<lparr>tr_slots := slots,
                         tr_state := (if tr_state r = TS_Running \<and> list_all (\<lambda>s. is_terminal (sl_state s)) slots
                                      then if list_all (\<lambda>s. sl_state s = ApiAccepted) slots
                                           then TS_Completed else TS_Partial
                                      else tr_state r)\<rparr>
              in Inr (r', r')))"

definition finalize_slot ::
  "('j, 'z) tsext_scheme \<Rightarrow> task_store_error option \<Rightarrow> 'j task_store \<Rightarrow> string \<Rightarrow> string \<Rightarrow> string
    \<Rightarrow> string \<Rightarrow> slot_outcome \<Rightarrow> i64 \<Rightarrow> (task_store_error + task_record) \<times> 'j task_store" where
  "finalize_slot X io S i own slot request oc now =
     (case and_then (validate_request request) (\<lambda>_. map_err TSE_Validation (outcome_validate oc)) of
        Inl e \<Rightarrow> (Inl e, S)
      | Inr _ \<Rightarrow> mutate X io S i own now (finalize_op X slot request oc now))"

definition dispatch_op ::
  "string \<Rightarrow> string \<Rightarrow> i64 \<Rightarrow> task_record \<Rightarrow> task_store_error + (unit \<times> task_record)" where
  "dispatch_op slot request now r =
     and_then (check_active r) (\<lambda>_.
       if tr_state r \<noteq> TS_Running \<or> tr_approved_at r = None then Inl TSE_NotApproved
       else and_then (find_slot slot (tr_slots r)) (\<lambda>s.
              if sl_state s \<noteq> Reserved then Inl TSE_SlotConsumed
              else if sl_request_id s \<noteq> Some request then Inl TSE_RequestMismatch
              else if now < (case sl_reserved_at s of Some at \<Rightarrow> at | None \<Rightarrow> tr_created_at r)
              then Inl TSE_InvalidInput
              else Inr ((), r)))"

definition authorize_dispatch ::
  "('j, 'z) tsext_scheme \<Rightarrow> task_store_error option \<Rightarrow> 'j task_store \<Rightarrow> string \<Rightarrow> string \<Rightarrow> string
    \<Rightarrow> string \<Rightarrow> i64 \<Rightarrow> (task_store_error + unit) \<times> 'j task_store" where
  "authorize_dispatch X io S i own slot request now =
     (case validate_request request of
        Inl e \<Rightarrow> (Inl e, S)
      | Inr _ \<Rightarrow> mutate X io S i own now (dispatch_op slot request now))"

definition interrupted_outcome :: slot_outcome where
  "interrupted_outcome =
     \<lparr>so_state = Unknown, so_code = ''interrupted'', so_provider_run_id = None,
      so_inference_receipt = None, so_ssh_receipt = None\<rparr>"

definition finish_slot :: "i64 \<Rightarrow> task_slot \<Rightarrow> task_slot" where
  "finish_slot now s =
     (if sl_state s = Reserved
      then s\<lparr>sl_state := Unknown,
             sl_finished_at := Some (max now (case sl_reserved_at s of Some at \<Rightarrow> at | None \<Rightarrow> now)),
             sl_outcome := Some interrupted_outcome\<rparr>
      else s)"

definition finish_op :: "i64 \<Rightarrow> task_record \<Rightarrow> task_store_error + (task_record \<times> task_record)" where
  "finish_op now r =
     (if tr_state r = TS_Planned then Inl TSE_InvalidTransition
      else let slots = map (finish_slot now) (tr_slots r);
               r' = r\<lparr>tr_slots := slots,
                      tr_state := (if tr_state r = TS_Running
                                   then if list_all (\<lambda>s. sl_state s = ApiAccepted) slots
                                        then TS_Completed else TS_Partial
                                   else tr_state r)\<rparr>
           in Inr (r', r'))"

definition finish_run ::
  "('j, 'z) tsext_scheme \<Rightarrow> task_store_error option \<Rightarrow> 'j task_store \<Rightarrow> string \<Rightarrow> string \<Rightarrow> i64
    \<Rightarrow> (task_store_error + task_record) \<times> 'j task_store" where
  "finish_run X io S i own now = mutate X io S i own now (finish_op now)"

definition revoke_op :: "task_record \<Rightarrow> task_store_error + (task_record \<times> task_record)" where
  "revoke_op r =
     (let r' = (if tr_state r \<in> {TS_Planned, TS_Running} then r\<lparr>tr_state := TS_Revoked\<rparr> else r)
      in Inr (r', r'))"

definition revoke ::
  "('j, 'z) tsext_scheme \<Rightarrow> task_store_error option \<Rightarrow> 'j task_store \<Rightarrow> string \<Rightarrow> string \<Rightarrow> i64
    \<Rightarrow> (task_store_error + task_record) \<times> 'j task_store" where
  "revoke X io S i own now = mutate X io S i own now revoke_op"

subsection \<open>Listing\<close>

definition PAGE_LIMIT :: nat where "PAGE_LIMIT = 96 * 1024"
definition ROW_LIMIT :: nat where "ROW_LIMIT = 100"

text \<open>The rows of the owner that the keyset query returns, newest first.\<close>

definition row_index :: "string \<Rightarrow> string \<Rightarrow> 'j row list \<Rightarrow> nat option" where
  "row_index i own rows =
     (let n = length (takeWhile (\<lambda>row. \<not> (fst row = i \<and> fst (snd row) = own)) rows)
      in if n < length rows then Some n else None)"

definition page_rows :: "string \<Rightarrow> nat option \<Rightarrow> 'j row list \<Rightarrow> 'j row list" where
  "page_rows own cursor_row rows =
     take 101 (filter (\<lambda>row. fst (snd row) = own)
       (rev (case cursor_row of None \<Rightarrow> rows | Some n \<Rightarrow> take n rows)))"

fun fill_page ::
  "('j, 'z) tsext_scheme \<Rightarrow> tenant_binding option \<Rightarrow> i64 \<Rightarrow> 'j row list \<Rightarrow> (task_record \<times> bool) list \<Rightarrow> nat
    \<Rightarrow> task_store_error + ((task_record \<times> bool) list \<times> bool)" where
  "fill_page X tenant now [] page bytes = Inr (page, False)"
| "fill_page X tenant now (row # rows) page bytes =
     (if length page = ROW_LIMIT then Inr (page, True)
      else and_then (decode_row X row) (\<lambda>r.
           and_then (verify_tenant r tenant) (\<lambda>_.
             let (r', changed) = refresh_expiry r now;
                 size = json_len X (to_json X r') + 1
             in if bytes + size > PAGE_LIMIT
                then (if page = [] then Inl TSE_ReceiptTooLarge else Inr (page, True))
                else fill_page X tenant now rows (page @ [(r', changed)]) (bytes + size))))"

fun save_all ::
  "('j, 'z) tsext_scheme \<Rightarrow> 'j row list \<Rightarrow> task_record list \<Rightarrow> task_store_error + 'j row list" where
  "save_all X rows [] = Inr rows"
| "save_all X rows (r # rs) = and_then (save_record X rows r) (\<lambda>rows'. save_all X rows' rs)"

definition cursor_position ::
  "string \<Rightarrow> string option \<Rightarrow> 'j row list \<Rightarrow> task_store_error + nat option" where
  "cursor_position own cursor rows =
     (case cursor of
        None \<Rightarrow> Inr None
      | Some i \<Rightarrow> and_then (ok_or (row_index i own rows) TSE_InvalidCursor) (\<lambda>n. Inr (Some n)))"

definition list_page ::
  "('j, 'z) tsext_scheme \<Rightarrow> task_store_error option \<Rightarrow> 'j task_store \<Rightarrow> string \<Rightarrow> i64 \<Rightarrow> string option
    \<Rightarrow> (task_store_error + (task_record list \<times> bool \<times> string option)) \<times> 'j task_store" where
  "list_page X io S own now cursor =
     (case and_then (validate_owner own) (\<lambda>_.
           and_then (validate_owner_boundary X (ts_tenant S) own) (\<lambda>_.
           and_then (validate_now now) (\<lambda>_.
           and_then (case io of None \<Rightarrow> Inr () | Some e \<Rightarrow> Inl e) (\<lambda>_.
           and_then (cursor_position own cursor (ts_rows S)) (\<lambda>cursor_row.
           and_then (fill_page X (ts_tenant S) now (page_rows own cursor_row (ts_rows S)) [] 512)
             (\<lambda>(page, has_more).
           and_then (save_all X (ts_rows S) (map fst (filter snd page))) (\<lambda>rows.
             Inr (map fst page, has_more, rows)))))))) of
        Inl e \<Rightarrow> (Inl e, S)
      | Inr (page, has_more, rows) \<Rightarrow>
          (Inr (page, has_more, if has_more \<and> page \<noteq> [] then Some (tr_id (last page)) else None),
           S\<lparr>ts_rows := rows\<rparr>))"

subsection \<open>Opening and recovery\<close>

text \<open>What the pragmas and the schema queries of \<open>open_for_tenant\<close> report.\<close>

record db_meta =
  db_integrity :: string
  db_user_version :: i64
  db_task_table_exists :: bool
  db_existing_tables :: i64

definition interrupt_slot :: "task_slot \<Rightarrow> task_slot" where
  "interrupt_slot s =
     (if sl_state s = Reserved then s\<lparr>sl_state := Unknown, sl_outcome := Some interrupted_outcome\<rparr> else s)"

definition recover_record :: "task_record \<Rightarrow> task_record option" where
  "recover_record r =
     (if tr_state r = TS_Running
      then Some (r\<lparr>tr_slots := map interrupt_slot (tr_slots r), tr_state := TS_Partial\<rparr>)
      else if list_ex (\<lambda>s. sl_state s = Reserved) (tr_slots r)
      then Some (r\<lparr>tr_slots := map interrupt_slot (tr_slots r)\<rparr>)
      else None)"

fun recover_all ::
  "('j, 'z) tsext_scheme \<Rightarrow> tenant_binding option \<Rightarrow> 'j row list \<Rightarrow> task_record list
    \<Rightarrow> task_store_error + 'j row list" where
  "recover_all X tenant rows [] = Inr rows"
| "recover_all X tenant rows (r # rs) =
     and_then (verify_record X r) (\<lambda>_.
     and_then (verify_tenant r tenant) (\<lambda>_.
     and_then (case recover_record r of None \<Rightarrow> Inr rows | Some r' \<Rightarrow> save_record X rows r') (\<lambda>rows'.
       recover_all X tenant rows' rs)))"

definition open_for_tenant ::
  "('j, 'z) tsext_scheme \<Rightarrow> task_store_error option \<Rightarrow> db_meta \<Rightarrow> tenant_binding option \<Rightarrow> 'j row list
    \<Rightarrow> task_store_error + 'j task_store" where
  "open_for_tenant X io meta tenant rows =
     (if is_some_and tenant (\<lambda>b. \<not> is_ok (tenant_binding_validate b)) then Inl TSE_InvalidInput
      else and_then (case io of None \<Rightarrow> Inr () | Some e \<Rightarrow> Inl e) (\<lambda>_.
        if db_integrity meta \<noteq> ''ok'' then Inl TSE_Corrupt
        else if db_user_version meta \<notin> {0, 1} then Inl TSE_Corrupt
        else if (db_user_version meta = 1 \<and> \<not> db_task_table_exists meta)
                \<or> (db_user_version meta = 0 \<and> db_existing_tables meta \<noteq> 0)
        then Inl TSE_Corrupt
        else and_then (load_all X rows) (\<lambda>records.
             and_then (recover_all X tenant rows records) (\<lambda>rows'.
               Inr \<lparr>ts_tenant = tenant, ts_rows = rows'\<rparr>))))"

end
