(* ===== verification/Task_Order.thy ===== *)
theory Task_Order
  imports Task_Store
begin

text \<open>
  How task records evolve.  Records only ever move forward (\<open>record_le\<close>): identity, manifest and deadlines are
  fixed, an approval is recorded once, a charged slot keeps its request and reservation time, a finished slot
  and a closed task never change state.  Every operation of the ledger respects this order, keeps the store
  verified (\<open>store_ok\<close>) and touches one row; \<open>advances\<close> lifts the order to stores.
\<close>

subsection \<open>The order in which records evolve\<close>

definition slot_le :: "task_slot \<Rightarrow> task_slot \<Rightarrow> bool" where
  "slot_le s s' \<longleftrightarrow>
     sl_id s' = sl_id s \<and> sl_action s' = sl_action s
     \<and> (sl_state s \<noteq> Pending \<longrightarrow>
          sl_state s' \<noteq> Pending \<and> sl_request_id s' = sl_request_id s \<and> sl_reserved_at s' = sl_reserved_at s)
     \<and> (is_terminal (sl_state s) \<longrightarrow> s' = s)"

definition closed_state :: "task_state \<Rightarrow> bool" where
  "closed_state st \<longleftrightarrow> st \<in> {TS_Completed, TS_Partial, TS_Revoked, TS_Expired}"

definition record_identity ::
  "task_record \<Rightarrow> string \<times> string \<times> task_manifest \<times> string \<times> tenant_binding option \<times> i64 \<times> i64" where
  "record_identity r =
     (tr_id r, tr_manifest_digest r, tr_manifest r, tr_owner_key r, tr_tenant r, tr_created_at r, tr_expires_at r)"

definition approval_of ::
  "task_record \<Rightarrow> i64 option \<times> task_approval_mode option \<times> workstation_receipt_ref option" where
  "approval_of r = (tr_approved_at r, tr_approval_mode r, tr_workstation_receipt r)"

definition state_le :: "task_state \<Rightarrow> task_state \<Rightarrow> bool" where
  "state_le st st' \<longleftrightarrow> (closed_state st \<longrightarrow> st' = st) \<and> (st' = TS_Planned \<longrightarrow> st = TS_Planned)"

definition record_le :: "task_record \<Rightarrow> task_record \<Rightarrow> bool" where
  "record_le r r' \<longleftrightarrow>
     record_identity r' = record_identity r
     \<and> (tr_approved_at r \<noteq> None \<longrightarrow> approval_of r' = approval_of r)
     \<and> state_le (tr_state r) (tr_state r')
     \<and> list_all2 slot_le (tr_slots r) (tr_slots r')"

lemmas record_le_defs = record_le_def record_identity_def approval_of_def state_le_def closed_state_def

lemma slot_le_refl [simp]: "slot_le s s"
  by (simp add: slot_le_def)

lemma slot_le_trans: "slot_le a b \<Longrightarrow> slot_le b c \<Longrightarrow> slot_le a c"
  by (auto simp: slot_le_def)

lemma slots_le_refl [simp]: "list_all2 slot_le ss ss"
  by (simp add: list.rel_refl)

lemma record_le_refl [simp]: "record_le r r"
  by (simp add: record_le_def state_le_def)

lemma slots_le_trans:
  "list_all2 slot_le a b \<Longrightarrow> list_all2 slot_le b c \<Longrightarrow> list_all2 slot_le a c"
  by (rule list_all2_trans[OF slot_le_trans])

lemma state_le_trans: "state_le a b \<Longrightarrow> state_le b c \<Longrightarrow> state_le a c"
  unfolding state_le_def by metis

lemma record_le_trans:
  assumes "record_le a b" "record_le b c"
  shows "record_le a c"
proof -
  have "list_all2 slot_le (tr_slots a) (tr_slots c)" "state_le (tr_state a) (tr_state c)"
    using assms slots_le_trans state_le_trans unfolding record_le_def by blast+
  moreover have "tr_approved_at a \<noteq> None \<Longrightarrow> approval_of c = approval_of a"
    using assms unfolding record_le_def approval_of_def by auto
  ultimately show ?thesis using assms unfolding record_le_def by simp
qed

lemma find_slot_Inr:
  "find_slot i ss = Inr s \<longleftrightarrow> find (\<lambda>s. sl_id s = i) ss = Some s"
  by (simp add: find_slot_def)

lemma find_SomeD: "find P xs = Some x \<Longrightarrow> x \<in> set xs \<and> P x"
  by (auto simp: find_Some_iff)

lemma update_slot_le:
  "find (\<lambda>s. sl_id s = i) ss = Some s \<Longrightarrow> slot_le s (f s) \<Longrightarrow> list_all2 slot_le ss (update_slot i f ss)"
  by (induction ss) (auto split: if_splits)

lemma refresh_expiry_le: "record_le r (fst (refresh_expiry r now))"
  by (auto simp: refresh_expiry_def record_le_defs)

lemma check_active_Inr: "check_active r = Inr u \<longleftrightarrow> tr_state r \<notin> {TS_Expired, TS_Revoked}"
  by (cases "tr_state r") (simp_all add: check_active_def)

lemma read_op_le: "read_op r = Inr (v, r') \<Longrightarrow> record_le r r'"
  by (auto simp: read_op_def)

lemma observe_op_le: "observe_op X ob now r = Inr (v, r') \<Longrightarrow> record_le r r'"
  by (auto simp: observe_op_def Let_def record_le_defs split: if_splits option.splits)

lemma claim_op_le: "claim_op r = Inr (v, r') \<Longrightarrow> record_le r r'"
  by (auto simp: claim_op_def Let_def record_le_defs split: if_splits)

lemma approve_op_le: "approve_op X digest mode now receipt r = Inr (v, r') \<Longrightarrow> record_le r r'"
  by (auto simp: approve_op_def Let_def record_le_defs split: if_splits)

lemma reserve_op_le: "reserve_op slot request now r = Inr (v, r') \<Longrightarrow> record_le r r'"
  by (auto simp: reserve_op_def find_slot_Inr Let_def record_le_defs slot_le_def is_terminal_def
      intro!: update_slot_le split: if_splits)

lemma outcome_terminal: "outcome_validate oc = Inr u \<Longrightarrow> is_terminal (so_state oc)"
  by (cases "so_state oc")
    (auto simp: outcome_validate_def allowed_outcome_code_def is_terminal_def split: if_splits)

lemma outcome_for_action_terminal:
  "outcome_validate_for_action X oc a = Inr u \<Longrightarrow> is_terminal (so_state oc)"
  by (simp only: outcome_validate_for_action_def and_then_Inr) (blast dest: outcome_terminal)

definition final_state :: "task_state \<Rightarrow> task_slot list \<Rightarrow> task_state" where
  "final_state st slots =
     (if st = TS_Running \<and> list_all (\<lambda>s. is_terminal (sl_state s)) slots
      then if list_all (\<lambda>s. sl_state s = ApiAccepted) slots then TS_Completed else TS_Partial
      else st)"

definition set_outcome :: "slot_outcome \<Rightarrow> i64 \<Rightarrow> task_slot \<Rightarrow> task_slot" where
  "set_outcome oc now s = s\<lparr>sl_state := so_state oc, sl_finished_at := Some now, sl_outcome := Some oc\<rparr>"

lemma finalize_op_alt:
  "finalize_op X slot request oc now r =
     and_then (find_slot slot (tr_slots r)) (\<lambda>s.
       if sl_state s \<noteq> Reserved then Inl TSE_SlotConsumed
       else if sl_request_id s \<noteq> Some request then Inl TSE_RequestMismatch
       else if now < (case sl_reserved_at s of Some at \<Rightarrow> at | None \<Rightarrow> tr_created_at r)
       then Inl TSE_InvalidInput
       else and_then (map_err TSE_Validation (outcome_validate_for_action X oc (sl_action s))) (\<lambda>_.
              let slots = update_slot slot (set_outcome oc now) (tr_slots r);
                  r' = r\<lparr>tr_slots := slots, tr_state := final_state (tr_state r) slots\<rparr>
              in Inr (r', r')))"
  unfolding finalize_op_def set_outcome_def final_state_def Let_def ..

lemma finalize_op_Inr:
  assumes "finalize_op X slot request oc now r = Inr (v, r')"
  shows "\<exists>s. find (\<lambda>s. sl_id s = slot) (tr_slots r) = Some s \<and> sl_state s = Reserved
    \<and> sl_request_id s = Some request
    \<and> (case sl_reserved_at s of Some at \<Rightarrow> at | None \<Rightarrow> tr_created_at r) \<le> now
    \<and> outcome_validate_for_action X oc (sl_action s) = Inr ()
    \<and> r' = r\<lparr>tr_slots := update_slot slot (set_outcome oc now) (tr_slots r),
             tr_state := final_state (tr_state r) (update_slot slot (set_outcome oc now) (tr_slots r))\<rparr>
    \<and> v = r'"
proof (cases "find (\<lambda>s. sl_id s = slot) (tr_slots r)")
  case None
  then show ?thesis using assms by (simp add: finalize_op_alt find_slot_def)
next
  case (Some s)
  with assms show ?thesis
    by (simp add: finalize_op_alt find_slot_def Let_def not_less split: if_splits) blast
qed

lemma final_state_le: "state_le st (final_state st slots)"
  by (auto simp: state_le_def final_state_def closed_state_def)

lemma finalize_op_le:
  assumes "finalize_op X slot request oc now r = Inr (v, r')"
  shows "record_le r r'"
proof -
  let ?slots = "update_slot slot (set_outcome oc now) (tr_slots r)"
  from finalize_op_Inr[OF assms] obtain s
    where s: "find (\<lambda>s. sl_id s = slot) (tr_slots r) = Some s" "sl_state s = Reserved"
    and oc: "outcome_validate_for_action X oc (sl_action s) = Inr ()"
    and r': "r' = r\<lparr>tr_slots := ?slots, tr_state := final_state (tr_state r) ?slots\<rparr>"
    by blast
  have "list_all2 slot_le (tr_slots r) ?slots"
    using outcome_for_action_terminal[OF oc] s(2)
    by (intro update_slot_le[OF s(1)]) (auto simp: slot_le_def is_terminal_def set_outcome_def)
  then show ?thesis using final_state_le
    by (simp add: r' record_le_def record_identity_def approval_of_def)
qed

lemma dispatch_op_le: "dispatch_op slot request now r = Inr (v, r') \<Longrightarrow> record_le r r'"
  by (auto simp: dispatch_op_def split: if_splits)

lemma finish_slots_le: "list_all2 slot_le ss (map (finish_slot now) ss)"
  by (auto simp: list_all2_conv_all_nth slot_le_def finish_slot_def is_terminal_def)

lemma finish_op_le: "finish_op now r = Inr (v, r') \<Longrightarrow> record_le r r'"
  by (auto simp: finish_op_def Let_def record_le_defs finish_slots_le split: if_splits)

lemma revoke_op_le: "revoke_op r = Inr (v, r') \<Longrightarrow> record_le r r'"
  by (auto simp: revoke_op_def Let_def record_le_defs split: if_splits)

lemma interrupt_slots_le: "list_all2 slot_le ss (map interrupt_slot ss)"
  by (auto simp: list_all2_conv_all_nth slot_le_def interrupt_slot_def is_terminal_def)

lemma recover_record_le: "recover_record r = Some r' \<Longrightarrow> record_le r r'"
  by (auto simp: recover_record_def record_le_defs interrupt_slots_le split: if_splits)

lemmas op_le = read_op_le observe_op_le claim_op_le approve_op_le reserve_op_le finalize_op_le
  dispatch_op_le finish_op_le revoke_op_le

subsection \<open>Rows and verified stores\<close>

text \<open>serde reads back what it wrote.\<close>

definition serde_roundtrip :: "('j, 'z) tsext_scheme \<Rightarrow> bool" where
  "serde_roundtrip X \<longleftrightarrow> (\<forall>r. from_json X (to_json X r) = Some r)"

definition stored :: "('j, 'z) tsext_scheme \<Rightarrow> 'j task_store \<Rightarrow> string \<Rightarrow> task_record option" where
  "stored X S i = (case load_record X (ts_rows S) i of Inr r \<Rightarrow> Some r | Inl _ \<Rightarrow> None)"

definition store_ok :: "('j, 'z) tsext_scheme \<Rightarrow> 'j task_store \<Rightarrow> bool" where
  "store_ok X S \<longleftrightarrow>
     distinct (map fst (ts_rows S)) \<and> is_none_or (ts_tenant S) (\<lambda>b. is_ok (tenant_binding_validate b))
     \<and> (\<forall>row \<in> set (ts_rows S). \<exists>r. decode_row X row = Inr r \<and> tr_tenant r = ts_tenant S)"

lemma decode_row_Inr:
  "decode_row X row = Inr r \<longleftrightarrow>
     from_json X (snd (snd row)) = Some r \<and> tr_id r = fst row \<and> tr_owner_key r = fst (snd row) \<and> verified X r"
  by (cases row) (auto simp: decode_row_def verify_record_def split: if_splits)

lemma find_distinct_fst:
  "distinct (map fst rows) \<Longrightarrow> row \<in> set rows \<Longrightarrow> find (\<lambda>w. fst w = fst row) rows = Some row"
proof (induction rows)
  case (Cons a rows)
  then show ?case by (cases "fst a = fst row") (auto simp: rev_image_eqI)
qed simp

lemma load_record_row:
  assumes "distinct (map fst rows)" "row \<in> set rows"
  shows "load_record X rows (fst row) = decode_row X row"
  using find_distinct_fst[OF assms] by (simp add: load_record_def)

lemma load_record_InrD:
  "load_record X rows i = Inr r \<Longrightarrow> \<exists>row\<in>set rows. fst row = i \<and> decode_row X row = Inr r"
  by (auto simp: load_record_def dest: find_SomeD)

lemma stored_Some:
  assumes "distinct (map fst (ts_rows S))"
  shows "stored X S i = Some r \<longleftrightarrow> (\<exists>row\<in>set (ts_rows S). fst row = i \<and> decode_row X row = Inr r)"
proof
  assume "stored X S i = Some r"
  then show "\<exists>row\<in>set (ts_rows S). fst row = i \<and> decode_row X row = Inr r"
    by (auto simp: stored_def split: sum.splits dest: load_record_InrD)
next
  assume "\<exists>row\<in>set (ts_rows S). fst row = i \<and> decode_row X row = Inr r"
  then have "load_record X (ts_rows S) i = Inr r" using load_record_row[OF assms, of _ X] by metis
  then show "stored X S i = Some r" by (simp add: stored_def)
qed

lemma update_row_fst [simp]: "fst (update_row r j row) = fst row"
  by (simp add: update_row_def)

lemma map_update_fst: "map fst (map (update_row r j) rows) = map fst rows"
  by (simp add: comp_def)

lemma save_record_Inr:
  "save_record X rows r = Inr rows' \<longleftrightarrow>
     verified X r \<and> length (filter (row_matches r) rows) = 1 \<and> rows' = map (update_row r (to_json X r)) rows"
  by (auto simp: save_record_def verify_record_def)

lemma decode_saved:
  assumes "serde_roundtrip X" "verified X r" "row_matches r row"
  shows "decode_row X (update_row r (to_json X r) row) = Inr r"
  using assms by (auto simp: decode_row_Inr update_row_def row_matches_def serde_roundtrip_def)

text \<open>Saving a record under the store's own tenant keeps the store verified, replaces the row of that
  record and leaves every other row alone.\<close>

lemma save_record_ok:
  assumes serde: "serde_roundtrip X" and ok: "store_ok X S" and t: "tr_tenant r = ts_tenant S"
    and save: "save_record X (ts_rows S) r = Inr rows"
  shows "store_ok X (S\<lparr>ts_rows := rows\<rparr>)"
    and "stored X (S\<lparr>ts_rows := rows\<rparr>) (tr_id r) = Some r"
    and "\<And>i. i \<noteq> tr_id r \<Longrightarrow> stored X (S\<lparr>ts_rows := rows\<rparr>) i = stored X S i"
proof -
  let ?u = "update_row r (to_json X r)"
  from save have v: "verified X r" and one: "length (filter (row_matches r) (ts_rows S)) = 1"
    and rows: "rows = map ?u (ts_rows S)" by (simp_all add: save_record_Inr)
  have d: "distinct (map fst (ts_rows S))" using ok by (simp add: store_ok_def)
  then have d': "distinct (map fst rows)" unfolding rows map_update_fst .
  have dec: "decode_row X (?u row) = (if row_matches r row then Inr r else decode_row X row)" for row
    using decode_saved[OF serde v] by (auto simp: update_row_def)
  show "store_ok X (S\<lparr>ts_rows := rows\<rparr>)"
    using ok d' t unfolding store_ok_def rows by (auto simp: dec)
  have "filter (row_matches r) (ts_rows S) \<noteq> []" using one by (metis length_0_conv zero_neq_one)
  then obtain row where row: "row \<in> set (ts_rows S)" "row_matches r row"
    by (metis filter_empty_conv)
  show "stored X (S\<lparr>ts_rows := rows\<rparr>) (tr_id r) = Some r"
    using row d' by (subst stored_Some) (auto simp: rows dec row_matches_def intro!: bexI[of _ row])
  fix i assume i: "i \<noteq> tr_id r"
  have "stored X (S\<lparr>ts_rows := rows\<rparr>) i = Some q \<longleftrightarrow> stored X S i = Some q" for q
    using i by (simp add: stored_Some d d') (auto simp: rows dec row_matches_def)
  then show "stored X (S\<lparr>ts_rows := rows\<rparr>) i = stored X S i" by (metis not_Some_eq)
qed

text \<open>What a transaction can do: refuse and change nothing, or load a verified record of the caller, apply
  the expiry rule, run the operation and save its result, or save only the expiry if the operation fails.\<close>

lemma mutate_cases:
  assumes "mutate X io S i own now operation = (res, S')"
  obtains (refused) e where "res = Inl e" "S' = S"
  | (applied) r v p rows where "load_record X (ts_rows S) i = Inr r" "tr_tenant r = ts_tenant S"
      "tr_owner_key r = own" "0 \<le> now" "io = None"
      "operation (fst (refresh_expiry r now)) = Inr (v, p)" "save_record X (ts_rows S) p = Inr rows"
      "res = Inr v" "S' = S\<lparr>ts_rows := rows\<rparr>"
  | (failed) r e rows where "load_record X (ts_rows S) i = Inr r" "tr_tenant r = ts_tenant S"
      "tr_owner_key r = own" "0 \<le> now" "io = None"
      "operation (fst (refresh_expiry r now)) = Inl e"
      "save_record X (ts_rows S) (fst (refresh_expiry r now)) = Inr rows"
      "res = Inl e" "S' = S\<lparr>ts_rows := rows\<rparr>"
proof (cases "admit X io S i own now")
  case (Inl e)
  with assms show thesis using refused by (auto simp: mutate_def)
next
  case a: (Inr r)
  then have pre: "load_record X (ts_rows S) i = Inr r" "tr_tenant r = ts_tenant S"
    "tr_owner_key r = own" "0 \<le> now" "io = None"
    by (auto simp: admit_def validate_now_def verify_tenant_def split: if_splits option.splits)
  show thesis
  proof (cases "operation (fst (refresh_expiry r now))")
    case o: (Inl e)
    show thesis
    proof (cases "save_record X (ts_rows S) (fst (refresh_expiry r now))")
      case (Inl e')
      then show thesis using refused assms a o by (auto simp: mutate_def)
    next
      case (Inr rows)
      then show thesis using failed[OF pre o Inr] assms a o by (auto simp: mutate_def)
    qed
  next
    case o: (Inr vp)
    obtain v p where vp: "vp = (v, p)" by (cases vp)
    show thesis
    proof (cases "save_record X (ts_rows S) p")
      case (Inl e')
      then show thesis using refused assms a o vp by (auto simp: mutate_def)
    next
      case (Inr rows)
      then show thesis using applied[OF pre o[unfolded vp] Inr] assms a o vp by (auto simp: mutate_def)
    qed
  qed
qed

subsection \<open>Every operation moves the ledger forward\<close>

definition advances :: "('j, 'z) tsext_scheme \<Rightarrow> 'j task_store \<Rightarrow> 'j task_store \<Rightarrow> bool" where
  "advances X S S' \<longleftrightarrow>
     store_ok X S' \<and> ts_tenant S' = ts_tenant S
     \<and> (\<forall>i r. stored X S i = Some r \<longrightarrow> (\<exists>r'. stored X S' i = Some r' \<and> record_le r r'))"

lemma advances_refl: "store_ok X S \<Longrightarrow> advances X S S"
  by (auto simp: advances_def)

lemma advances_trans: "advances X S T \<Longrightarrow> advances X T U \<Longrightarrow> advances X S U"
  unfolding advances_def by (metis record_le_trans)

lemma stored_ok:
  assumes "store_ok X S" "stored X S i = Some r"
  shows "verified X r" "tr_tenant r = ts_tenant S" "tr_id r = i"
proof -
  from assms obtain row where "row \<in> set (ts_rows S)" "fst row = i" "decode_row X row = Inr r"
    using stored_Some[of S X i r] by (auto simp: store_ok_def)
  with assms(1) show "verified X r" "tr_tenant r = ts_tenant S" "tr_id r = i"
    by (auto simp: store_ok_def decode_row_Inr)
qed

lemma record_le_id: "record_le r p \<Longrightarrow> tr_id p = tr_id r \<and> tr_tenant p = tr_tenant r \<and> tr_owner_key p = tr_owner_key r"
  by (simp add: record_le_def record_identity_def)

lemma save_advances:
  assumes "serde_roundtrip X" "store_ok X S" "stored X S (tr_id p) = Some r" "record_le r p"
    and "save_record X (ts_rows S) p = Inr rows"
  shows "advances X S (S\<lparr>ts_rows := rows\<rparr>)"
proof -
  have t: "tr_tenant p = ts_tenant S"
    using stored_ok(2)[OF assms(2,3)] record_le_id[OF assms(4)] by simp
  note s = save_record_ok[OF assms(1,2) t assms(5)]
  show ?thesis unfolding advances_def
  proof (intro conjI allI impI)
    fix i q assume q: "stored X S i = Some q"
    show "\<exists>r'. stored X (S\<lparr>ts_rows := rows\<rparr>) i = Some r' \<and> record_le q r'"
    proof (cases "i = tr_id p")
      case True
      then show ?thesis using q s(2) assms(3,4) by auto
    next
      case False
      then show ?thesis using q s(3) by auto
    qed
  qed (use s in simp_all)
qed

lemma mutate_advances:
  assumes "serde_roundtrip X" "store_ok X S"
    and op: "\<And>r v p. operation r = Inr (v, p) \<Longrightarrow> record_le r p"
    and m: "mutate X io S i own now operation = (res, S')"
  shows "advances X S S'"
  using m
proof (cases rule: mutate_cases)
  case (refused e)
  then show ?thesis using assms(2) by (simp add: advances_refl)
next
  case (applied r v p rows)
  have le: "record_le r p" using op[OF applied(6)] refresh_expiry_le record_le_trans by blast
  have "stored X S i = Some r" using applied(1) by (simp add: stored_def)
  moreover have "tr_id p = i" using record_le_id[OF le] stored_ok(3)[OF assms(2)] calculation by simp
  ultimately show ?thesis using save_advances[OF assms(1,2) _ le applied(7)] applied(9) by simp
next
  case (failed r e rows)
  let ?b = "fst (refresh_expiry r now)"
  have "stored X S i = Some r" using failed(1) by (simp add: stored_def)
  moreover have "tr_id ?b = i"
    using record_le_id[OF refresh_expiry_le[of r now]] stored_ok(3)[OF assms(2)] calculation by simp
  ultimately show ?thesis
    using save_advances[OF assms(1,2) _ refresh_expiry_le failed(7)] failed(9) by simp
qed

lemma save_all_advances:
  assumes "serde_roundtrip X" "store_ok X S" "distinct (map tr_id rs)"
    and "\<forall>p\<in>set rs. \<exists>r. stored X S (tr_id p) = Some r \<and> record_le r p"
    and "save_all X (ts_rows S) rs = Inr rows"
  shows "advances X S (S\<lparr>ts_rows := rows\<rparr>)"
  using assms
proof (induction rs arbitrary: S)
  case Nil
  then show ?case by (cases S) (auto simp: advances_refl)
next
  case (Cons p rs)
  from Cons.prems(5) obtain rows1 where s: "save_record X (ts_rows S) p = Inr rows1"
    and rest: "save_all X rows1 rs = Inr rows" by auto
  from Cons.prems(4) obtain r where r: "stored X S (tr_id p) = Some r" "record_le r p" by auto
  let ?S = "S\<lparr>ts_rows := rows1\<rparr>"
  have a: "advances X S ?S" by (rule save_advances[OF Cons.prems(1,2) r s])
  have t: "tr_tenant p = ts_tenant S"
    using stored_ok(2)[OF Cons.prems(2) r(1)] record_le_id[OF r(2)] by simp
  have "advances X ?S (?S\<lparr>ts_rows := rows\<rparr>)"
  proof (rule Cons.IH)
    show "\<forall>p\<in>set rs. \<exists>r. stored X ?S (tr_id p) = Some r \<and> record_le r p"
    proof
      fix q assume q: "q \<in> set rs"
      then have "tr_id q \<noteq> tr_id p" using Cons.prems(3) by (metis distinct.simps(2) image_eqI list.map(2) list.set_map)
      then show "\<exists>r. stored X ?S (tr_id q) = Some r \<and> record_le r q"
        using Cons.prems(4) q save_record_ok(3)[OF Cons.prems(1,2) t s] by simp
    qed
  qed (use Cons.prems rest a in \<open>simp_all add: advances_def\<close>)
  with a show ?case using advances_trans by fastforce
qed

lemma fill_page_rows:
  assumes "fill_page X tenant now rows page bytes = Inr (page', has_more)"
  shows "\<exists>n new. page' = page @ new \<and> list_all2 (\<lambda>row rc. \<exists>r. decode_row X row = Inr r \<and> tr_tenant r = tenant
            \<and> rc = refresh_expiry r now) (take n rows) new"
  using assms
proof (induction X tenant now rows page bytes rule: fill_page.induct)
  case (1 X tenant now page bytes)
  then show ?case by (auto intro: exI[of _ 0])
next
  case (2 X tenant now row rows page bytes)
  show ?case
  proof (cases "length page = ROW_LIMIT")
    case True
    then show ?thesis using 2(2) by (auto intro: exI[of _ 0])
  next
    case False
    with 2(2) obtain r where r: "decode_row X row = Inr r" "tr_tenant r = tenant"
      by (auto simp: verify_tenant_def)
    obtain r' ch where rf: "refresh_expiry r now = (r', ch)" by force
    show ?thesis
    proof (cases "bytes + (json_len X (to_json X r') + 1) > PAGE_LIMIT")
      case True
      then show ?thesis using 2(2) False r rf
        by (auto simp: verify_tenant_def split: if_splits intro: exI[of _ 0])
    next
      case small: False
      then have rest: "fill_page X tenant now rows (page @ [(r', ch)]) (bytes + (json_len X (to_json X r') + 1))
          = Inr (page', has_more)"
        using 2(2) False r rf by (simp add: verify_tenant_def)
      have "\<exists>n new. page' = (page @ [(r', ch)]) @ new \<and> list_all2 (\<lambda>row rc. \<exists>r. decode_row X row = Inr r
          \<and> tr_tenant r = tenant \<and> rc = refresh_expiry r now) (take n rows) new"
        using small by (intro 2(1)[OF False refl rf[symmetric] refl _ rest])
      then obtain n new where "page' = page @ (r', ch) # new"
        "list_all2 (\<lambda>row rc. \<exists>r. decode_row X row = Inr r \<and> tr_tenant r = tenant \<and> rc = refresh_expiry r now)
           (take n rows) new" by auto
      then show ?thesis using r rf by (intro exI[of _ "Suc n"] exI[of _ "(r', ch) # new"]) auto
    qed
  qed
qed

lemma list_all2_in2: "list_all2 P xs ys \<Longrightarrow> y \<in> set ys \<Longrightarrow> \<exists>x\<in>set xs. P x y"
  by (induction rule: list_all2_induct) auto

lemma refresh_expiry_id [simp]: "tr_id (fst (refresh_expiry r now)) = tr_id r"
  by (simp add: refresh_expiry_def)

lemma page_rows_sub: "set (page_rows own c rows) \<subseteq> {row \<in> set rows. fst (snd row) = own}"
  by (auto simp: page_rows_def dest!: in_set_takeD split: option.splits)

lemma page_rows_distinct:
  assumes "distinct (map fst rows)"
  shows "distinct (map fst (page_rows own c rows))"
proof -
  have "distinct (map fst (case c of None \<Rightarrow> rows | Some n \<Rightarrow> take n rows))"
    using assms by (cases c) (auto simp: take_map[symmetric])
  then have "distinct (map fst (rev (case c of None \<Rightarrow> rows | Some n \<Rightarrow> take n rows)))"
    by (simp only: rev_map[symmetric] distinct_rev)
  then show ?thesis unfolding page_rows_def
    by (simp only: take_map[symmetric] distinct_take distinct_map_filter)
qed

lemma list_page_advances:
  assumes "serde_roundtrip X" "store_ok X S"
    and l: "list_page X io S own now cursor = (res, S')"
  shows "advances X S S'"
proof (cases "S' = S")
  case True
  then show ?thesis using assms(2) by (simp add: advances_refl)
next
  case False
  with l obtain c page has_more rows
    where f: "fill_page X (ts_tenant S) now (page_rows own c (ts_rows S)) [] 512 = Inr (page, has_more)"
      and s: "save_all X (ts_rows S) (map fst (filter snd page)) = Inr rows"
      and S': "S' = S\<lparr>ts_rows := rows\<rparr>"
    by (auto simp: list_page_def split: sum.splits)
  from fill_page_rows[OF f] obtain n where la: "list_all2 (\<lambda>row rc. \<exists>r. decode_row X row = Inr r
      \<and> tr_tenant r = ts_tenant S \<and> rc = refresh_expiry r now) (take n (page_rows own c (ts_rows S))) page"
    by auto
  let ?rows = "take n (page_rows own c (ts_rows S))"
  have d: "distinct (map fst (ts_rows S))" using assms(2) by (simp add: store_ok_def)
  have ids: "map (tr_id \<circ> fst) page = map fst ?rows"
    using la by (induction rule: list_all2_induct)
      (auto simp: decode_row_Inr)
  have dp: "distinct (map tr_id (map fst (filter snd page)))"
    using page_rows_distinct[OF d, of own c] ids
    by (simp add: take_map[symmetric] distinct_map_filter)
  have st: "\<forall>p\<in>set (map fst (filter snd page)). \<exists>r. stored X S (tr_id p) = Some r \<and> record_le r p"
  proof
    fix p assume "p \<in> set (map fst (filter snd page))"
    then obtain b where "(p, b) \<in> set page" by auto
    then obtain row r where row: "row \<in> set ?rows" "decode_row X row = Inr r" "(p, b) = refresh_expiry r now"
      using list_all2_in2[OF la] by blast
    then have "row \<in> set (ts_rows S)" using page_rows_sub in_set_takeD by fastforce
    moreover have "fst (refresh_expiry r now) = p" using row(3) by (metis fst_conv)
    ultimately have "stored X S (tr_id p) = Some r" "record_le r p"
      using row(2) d refresh_expiry_le[of r now] record_le_id[of r p]
      by (auto simp: stored_Some decode_row_Inr)
    then show "\<exists>r. stored X S (tr_id p) = Some r \<and> record_le r p" by blast
  qed
  show ?thesis unfolding S' by (rule save_all_advances[OF assms(1,2) dp st s])
qed

lemma create_advances:
  assumes serde: "serde_roundtrip X" and ok: "store_ok X S"
    and c: "create X io S own m now u = (res, S')"
  shows "advances X S S'"
proof (cases "S' = S")
  case True
  then show ?thesis using ok by (simp add: advances_refl)
next
  case False
  with c obtain r where S': "S' = S\<lparr>ts_rows := ts_rows S @ [(tr_id r, tr_owner_key r, to_json X r)]\<rparr>"
    and v: "verified X r" and t: "tr_tenant r = ts_tenant S" and new: "tr_id r \<notin> fst ` set (ts_rows S)"
    by (auto simp: create_def Let_def verify_record_def verify_tenant_def split: sum.splits if_splits)
  have dec: "decode_row X (tr_id r, tr_owner_key r, to_json X r) = Inr r"
    using serde v by (simp add: decode_row_Inr serde_roundtrip_def)
  have d: "distinct (map fst (ts_rows S))" and d': "distinct (map fst (ts_rows S'))"
    using ok new by (auto simp: store_ok_def S')
  have "store_ok X S'" using ok d' dec t by (auto simp: store_ok_def S')
  moreover have "stored X S i = Some q \<Longrightarrow> stored X S' i = Some q" for i q
    using d d' by (auto simp: stored_Some S')
  ultimately show ?thesis by (auto simp: advances_def S')
qed

lemma in_map_filterD: "p \<in> set (List.map_filter f xs) \<Longrightarrow> \<exists>x\<in>set xs. f x = Some p"
  by (induction xs) (auto simp: map_filter_simps split: option.splits)

lemma recover_all_advances:
  assumes "serde_roundtrip X" "store_ok X S" "distinct (map tr_id rs)"
    and "\<forall>r\<in>set rs. stored X S (tr_id r) = Some r"
    and "recover_all X (ts_tenant S) (ts_rows S) rs = Inr rows"
  shows "advances X S (S\<lparr>ts_rows := rows\<rparr>)"
proof -
  have "recover_all X t rws rs = Inr rows \<Longrightarrow>
      save_all X rws (List.map_filter recover_record rs) = Inr rows" for t rws
    by (induction X t rws rs rule: recover_all.induct)
      (auto simp: map_filter_simps split: option.splits)
  then have s: "save_all X (ts_rows S) (List.map_filter recover_record rs) = Inr rows"
    using assms(5) by blast
  have "distinct (map tr_id (List.map_filter recover_record rs))" using assms(3)
  proof (induction rs)
    case (Cons r rs)
    have "tr_id p \<noteq> tr_id r" if "p \<in> set (List.map_filter recover_record rs)" for p
      using Cons.prems in_map_filterD[OF that] recover_record_le record_le_id
      by (metis distinct.simps(2) image_eqI list.map(2) list.set_map)
    with Cons show ?case
      by (auto simp: map_filter_simps image_iff split: option.splits dest!: recover_record_le record_le_id)
  qed (simp add: map_filter_simps)
  moreover have "\<forall>p\<in>set (List.map_filter recover_record rs). \<exists>r. stored X S (tr_id p) = Some r \<and> record_le r p"
  proof
    fix p assume "p \<in> set (List.map_filter recover_record rs)"
    then obtain r where r: "r \<in> set rs" "recover_record r = Some p" using in_map_filterD by metis
    with assms(4) show "\<exists>r. stored X S (tr_id p) = Some r \<and> record_le r p"
      using recover_record_le[OF r(2)] record_le_id by metis
  qed
  ultimately show ?thesis using save_all_advances[OF assms(1,2) _ _ s] by blast
qed

end
