(* ===== verification/Task_Verified.thy ===== *)
theory Task_Verified
  imports Task_Order
begin

text \<open>
  Which transitions pass the structural check.  The check \<open>verified\<close> is taken apart into what it says of the
  header, of each slot and of the task state; each transition is shown to keep it, and recovery at startup is
  shown to succeed on every verified store.
\<close>

subsection \<open>Which transitions keep a record verified\<close>

lemma slots_ok_nth:
  "slots_ok r n ss as \<longleftrightarrow> (\<forall>i. i < length ss \<and> i < length as \<longrightarrow> slot_ok r (n + i) (ss ! i) (as ! i))"
proof (induction r n ss as rule: slots_ok.induct)
  case (1 r n s ss a as)
  have "(\<forall>i. i < Suc (length ss) \<and> i < Suc (length as) \<longrightarrow> slot_ok r (n + i) ((s # ss) ! i) ((a # as) ! i))
      \<longleftrightarrow> slot_ok r n s a \<and> (\<forall>i. i < length ss \<and> i < length as \<longrightarrow> slot_ok r (Suc n + i) (ss ! i) (as ! i))"
    by (auto simp: less_Suc_eq_0_disj)
  then show ?case using 1 by simp
qed simp_all

definition observation_ok :: "'z sext_scheme \<Rightarrow> task_record \<Rightarrow> bool" where
  "observation_ok X r \<longleftrightarrow>
     is_ok (validate_release_observation X r) \<or> list_ex (run_id_misplaced r) (tr_slots r)"

lemma verified_iff:
  "verified X r \<longleftrightarrow>
     workstation_ref_ok X r \<and> tenant_owner_check X r = Inr ()
     \<and> (\<forall>a\<in>set (tm_actions (tr_manifest r)). action_tenant_check X r a = Inr ())
     \<and> record_header_ok X r
     \<and> (\<forall>i < length (tr_slots r). slot_ok r i (tr_slots r ! i) (tm_actions (tr_manifest r) ! i))
     \<and> (\<forall>s\<in>set (tr_slots r). slot_receipt_check X r s = Inr () \<and> \<not> run_id_misplaced r s)
     \<and> observation_ok X r \<and> state_ok r"
proof -
  have "is_ok (validate_release_observation X r) \<longleftrightarrow>
      (\<forall>s\<in>set (tr_slots r). \<not> run_id_misplaced r s) \<and> observation_ok X r"
    by (auto simp: observation_ok_def validate_release_observation_def list_ex_iff)
  moreover have "is_ok (validate_tenant_and_inference_receipts X r) \<longleftrightarrow>
      tenant_owner_check X r = Inr ()
      \<and> (\<forall>a\<in>set (tm_actions (tr_manifest r)). action_tenant_check X r a = Inr ())
      \<and> (\<forall>s\<in>set (tr_slots r). slot_receipt_check X r s = Inr ())"
    by (auto simp: validate_tenant_and_inference_receipts_def is_ok_unit)
  moreover have "record_header_ok X r \<Longrightarrow> length (tr_slots r) = length (tm_actions (tr_manifest r))"
    by (simp add: record_header_ok_def)
  ultimately show ?thesis unfolding verified_def slots_ok_nth by auto
qed

text \<open>The parts of the check that look only at identity and approval.\<close>

lemma header_parts_cong:
  assumes "record_identity r' = record_identity r" "approval_of r' = approval_of r"
    and "length (tr_slots r') = length (tr_slots r)"
  shows "workstation_ref_ok X r' = workstation_ref_ok X r"
    and "tenant_owner_check X r' = tenant_owner_check X r"
    and "action_tenant_check X r' a = action_tenant_check X r a"
    and "record_header_ok X r' = record_header_ok X r"
    and "slot_ok r' i s b = slot_ok r i s b"
    and "slot_receipt_check X r' s = slot_receipt_check X r s"
    and "run_id_misplaced r' s = run_id_misplaced r s"
proof -
  from assms have e: "tr_id r' = tr_id r" "tr_manifest_digest r' = tr_manifest_digest r"
    "tr_manifest r' = tr_manifest r" "tr_owner_key r' = tr_owner_key r" "tr_tenant r' = tr_tenant r"
    "tr_created_at r' = tr_created_at r" "tr_expires_at r' = tr_expires_at r"
    "tr_approved_at r' = tr_approved_at r" "tr_approval_mode r' = tr_approval_mode r"
    "tr_workstation_receipt r' = tr_workstation_receipt r"
    by (simp_all add: record_identity_def approval_of_def)
  show "workstation_ref_ok X r' = workstation_ref_ok X r"
    and "tenant_owner_check X r' = tenant_owner_check X r"
    and "action_tenant_check X r' a = action_tenant_check X r a"
    and "record_header_ok X r' = record_header_ok X r"
    and "slot_ok r' i s b = slot_ok r i s b"
    and "slot_receipt_check X r' s = slot_receipt_check X r s"
    and "run_id_misplaced r' s = run_id_misplaced r s"
    unfolding workstation_ref_ok_def tenant_owner_check_def action_tenant_check_def record_header_ok_def
      slot_ok_def charged_slot_ok_def slot_receipt_check_def run_id_misplaced_def e assms(3)
    by (rule refl)+
qed

lemma observation_ok_cong:
  assumes "tr_release_observation r' = tr_release_observation r" "tr_manifest r' = tr_manifest r"
    "tr_approved_at r' = tr_approved_at r" "tr_created_at r' = tr_created_at r" "tr_slots r' = tr_slots r"
  shows "observation_ok X r' = observation_ok X r"
proof -
  have "run_id_misplaced r' = run_id_misplaced r" using assms by (simp add: fun_eq_iff run_id_misplaced_def)
  then show ?thesis
    unfolding observation_ok_def validate_release_observation_def assms by (simp only:)
qed

lemma observation_slots:
  assumes "observation_ok X r" "tr_release_observation r = Some ob" "\<not> list_ex (run_id_misplaced r) (tr_slots r)"
  shows "\<forall>s\<in>set (tr_slots r). is_terminal (sl_state s)"
proof -
  from assms have "length (tr_slots r) = 1" "sl_state (tr_slots r ! 0) \<in> {ApiAccepted, Unknown}"
    by (auto simp: observation_ok_def validate_release_observation_def is_ok_unit split: if_splits)
  then show ?thesis by (cases "tr_slots r") (auto simp: is_terminal_def)
qed

text \<open>Changing the task state alone.\<close>

lemma verified_set_state:
  assumes "verified X r" "state_ok (r\<lparr>tr_state := st\<rparr>)"
  shows "verified X (r\<lparr>tr_state := st\<rparr>)"
proof -
  let ?r = "r\<lparr>tr_state := st\<rparr>"
  have c: "record_identity ?r = record_identity r" "approval_of ?r = approval_of r"
    "length (tr_slots ?r) = length (tr_slots r)"
    by (simp_all add: record_identity_def approval_of_def)
  have o: "observation_ok X ?r = observation_ok X r" by (rule observation_ok_cong) simp_all
  from assms show ?thesis unfolding verified_iff header_parts_cong[OF c] o by simp
qed

text \<open>Replacing slots, one by one, by slots that pass the check.\<close>

lemma verified_set_slots:
  assumes v: "verified X r"
    and len: "length ss = length (tr_slots r)"
    and slots: "\<And>i. i < length ss \<Longrightarrow> ss ! i = tr_slots r ! i
        \<or> \<not> is_terminal (sl_state (tr_slots r ! i))
          \<and> slot_ok r i (ss ! i) (tm_actions (tr_manifest r) ! i)
          \<and> slot_receipt_check X r (ss ! i) = Inr () \<and> \<not> run_id_misplaced r (ss ! i)"
    and st: "state_ok (r\<lparr>tr_slots := ss, tr_state := st\<rparr>)"
  shows "verified X (r\<lparr>tr_slots := ss, tr_state := st\<rparr>)"
proof -
  let ?r = "r\<lparr>tr_slots := ss, tr_state := st\<rparr>"
  have c: "record_identity ?r = record_identity r" "approval_of ?r = approval_of r"
    "length (tr_slots ?r) = length (tr_slots r)"
    using len by (simp_all add: record_identity_def approval_of_def)
  note vr = v[unfolded verified_iff]
  have nth: "tr_slots r ! i \<in> set (tr_slots r)" if "i < length ss" for i using that len by simp
  have 1: "slot_ok r i (ss ! i) (tm_actions (tr_manifest r) ! i)" if "i < length ss" for i
    using slots[OF that] vr that len by metis
  have 2: "slot_receipt_check X r s = Inr () \<and> \<not> run_id_misplaced r s" if "s \<in> set ss" for s
  proof -
    obtain i where i: "i < length ss" "s = ss ! i" using \<open>s \<in> set ss\<close> by (auto simp: in_set_conv_nth)
    then show ?thesis using slots[OF i(1)] vr nth[OF i(1)] by metis
  qed
  have 3: "observation_ok X ?r"
  proof (cases "tr_release_observation r")
    case None
    then show ?thesis by (simp add: observation_ok_def validate_release_observation_def)
  next
    case (Some ob)
    have nm: "\<not> list_ex (run_id_misplaced r) (tr_slots r)" using vr by (auto simp: list_ex_iff)
    have t: "\<forall>s\<in>set (tr_slots r). is_terminal (sl_state s)"
      using observation_slots[OF _ Some nm] vr by blast
    have "ss = tr_slots r" using slots t nth len by (intro nth_equalityI) blast+
    then have "observation_ok X ?r = observation_ok X r" by (intro observation_ok_cong) simp_all
    then show ?thesis using vr by blast
  qed
  show ?thesis unfolding verified_iff header_parts_cong[OF c] using vr 1 2 3 st len by simp
qed

lemma refresh_expiry_verified: "verified X r \<Longrightarrow> verified X (fst (refresh_expiry r now))"
  by (auto simp: refresh_expiry_def state_ok_def intro!: verified_set_state)

lemma claim_op_verified:
  assumes "verified X r" "claim_op r = Inr (v, r')"
  shows "verified X r'"
  using assms by (auto simp: claim_op_def Let_def state_ok_def intro!: verified_set_state split: if_splits)

lemma revoke_op_verified:
  assumes "verified X r" "revoke_op r = Inr (v, r')"
  shows "verified X r'"
  using assms by (auto simp: revoke_op_def Let_def state_ok_def intro!: verified_set_state split: if_splits)

lemma read_op_verified: "verified X r \<Longrightarrow> read_op r = Inr (v, r') \<Longrightarrow> verified X r'"
  by (auto simp: read_op_def)

lemma dispatch_op_verified: "verified X r \<Longrightarrow> dispatch_op slot request now r = Inr (v, r') \<Longrightarrow> verified X r'"
  by (auto simp: dispatch_op_def split: if_splits)

lemma length_update_slot [simp]: "length (update_slot i f ss) = length ss"
  by (induction ss) auto

lemma update_slot_nth:
  "find (\<lambda>s. sl_id s = i) ss = Some s \<Longrightarrow> j < length ss \<Longrightarrow>
     update_slot i f ss ! j = ss ! j \<or> ss ! j = s \<and> update_slot i f ss ! j = f s"
proof (induction ss arbitrary: j)
  case (Cons a ss)
  then show ?case by (cases j) (auto split: if_splits)
qed simp

lemma in_update_slot:
  "find (\<lambda>s. sl_id s = i) ss = Some s \<Longrightarrow> f s \<in> set (update_slot i f ss)"
  by (induction ss) (auto split: if_splits)

lemma verified_slot:
  assumes "verified X r" "j < length (tr_slots r)"
  shows "slot_ok r j (tr_slots r ! j) (tm_actions (tr_manifest r) ! j)"
  using assms by (simp add: verified_iff)

definition charge :: "string \<Rightarrow> i64 \<Rightarrow> task_slot \<Rightarrow> task_slot" where
  "charge request now s = s\<lparr>sl_state := Reserved, sl_request_id := Some request, sl_reserved_at := Some now\<rparr>"

lemma reserve_op_Inr:
  "reserve_op slot request now r = Inr (v, r') \<longleftrightarrow>
     tr_state r = TS_Running \<and> (\<exists>at. tr_approved_at r = Some at \<and> at \<le> now)
     \<and> (\<exists>s. find (\<lambda>s. sl_id s = slot) (tr_slots r) = Some s \<and> sl_state s = Pending \<and> v = charge request now s
          \<and> r' = r\<lparr>tr_slots := update_slot slot (charge request now) (tr_slots r)\<rparr>)"
proof -
  have "reserve_op slot request now r =
     and_then (check_active r) (\<lambda>_.
       if tr_state r \<noteq> TS_Running \<or> tr_approved_at r = None then Inl TSE_NotApproved
       else if now < (case tr_approved_at r of Some at \<Rightarrow> at | None \<Rightarrow> tr_created_at r)
       then Inl TSE_InvalidInput
       else and_then (find_slot slot (tr_slots r)) (\<lambda>s.
              if sl_state s \<noteq> Pending then Inl TSE_SlotConsumed
              else Inr (charge request now s, r\<lparr>tr_slots := update_slot slot (charge request now) (tr_slots r)\<rparr>)))"
    unfolding reserve_op_def charge_def Let_def ..
  then show ?thesis by (auto simp: check_active_Inr find_slot_Inr split: if_splits)
qed

lemma reserve_op_verified:
  assumes v: "verified X r" and op: "reserve_op slot request now r = Inr (s', r')"
    and now: "now < tr_expires_at r" and req: "validate_request request = Inr ()"
  shows "verified X r'"
proof -
  let ?ss = "update_slot slot (charge request now) (tr_slots r)"
  from op obtain at s where at: "tr_approved_at r = Some at" "at \<le> now" and st: "tr_state r = TS_Running"
    and s: "find (\<lambda>s. sl_id s = slot) (tr_slots r) = Some s" "sl_state s = Pending"
    and r': "r' = r\<lparr>tr_slots := ?ss\<rparr>" by (auto simp: reserve_op_Inr)
  have "verified X (r\<lparr>tr_slots := ?ss, tr_state := TS_Running\<rparr>)"
  proof (rule verified_set_slots[OF v])
    fix i assume "i < length ?ss"
    then have i: "i < length (tr_slots r)" by simp
    from update_slot_nth[OF s(1) i, of "charge request now"]
    show "?ss ! i = tr_slots r ! i \<or> \<not> is_terminal (sl_state (tr_slots r ! i))
        \<and> slot_ok r i (?ss ! i) (tm_actions (tr_manifest r) ! i)
        \<and> slot_receipt_check X r (?ss ! i) = Inr () \<and> \<not> run_id_misplaced r (?ss ! i)"
    proof
      assume c: "tr_slots r ! i = s \<and> ?ss ! i = charge request now s"
      with verified_slot[OF v i] s(2) have p: "sl_id s = slot_id (tr_id r) i"
        "sl_action s = tm_actions (tr_manifest r) ! i" "sl_finished_at s = None" "sl_outcome s = None"
        by (auto simp: slot_ok_def)
      then show ?thesis using c s(2) at now req
        by (auto simp: slot_ok_def charged_slot_ok_def charge_def is_terminal_def slot_receipt_check_def
            run_id_misplaced_def)
    qed simp
  qed (simp_all add: state_ok_def)
  moreover have "r\<lparr>tr_slots := ?ss, tr_state := TS_Running\<rparr> = r'" using st r' by (cases r) simp
  ultimately show ?thesis by simp
qed

lemma interrupted_ok: "outcome_validate interrupted_outcome = Inr ()"
  "outcome_validate_for_action X interrupted_outcome a = Inr ()"
  by (simp_all add: outcome_validate_for_action_def outcome_validate_def interrupted_outcome_def
      allowed_outcome_code_def split: option.splits)

text \<open>Both ways of interrupting reserved slots, at recovery and at the end of a run.\<close>

lemma verified_interrupt:
  assumes v: "verified X r"
    and g: "\<And>s. sl_state s \<noteq> Reserved \<Longrightarrow> g s = s"
    and gr: "\<And>s. sl_state s = Reserved \<Longrightarrow> g s = s\<lparr>sl_state := Unknown, sl_finished_at := sl_finished_at (g s),
                 sl_outcome := Some interrupted_outcome\<rparr>"
    and fin: "\<And>s at. s \<in> set (tr_slots r) \<Longrightarrow> sl_state s = Reserved \<Longrightarrow> sl_reserved_at s = Some at \<Longrightarrow>
                 is_none_or (sl_finished_at (g s)) (\<lambda>t. at \<le> t)"
    and st: "state_ok (r\<lparr>tr_slots := map g (tr_slots r), tr_state := st\<rparr>)"
  shows "verified X (r\<lparr>tr_slots := map g (tr_slots r), tr_state := st\<rparr>)"
proof (rule verified_set_slots[OF v _ _ st])
  fix i assume "i < length (map g (tr_slots r))"
  then have i: "i < length (tr_slots r)" by simp
  let ?s = "tr_slots r ! i"
  show "map g (tr_slots r) ! i = ?s \<or> \<not> is_terminal (sl_state ?s)
      \<and> slot_ok r i (map g (tr_slots r) ! i) (tm_actions (tr_manifest r) ! i)
      \<and> slot_receipt_check X r (map g (tr_slots r) ! i) = Inr () \<and> \<not> run_id_misplaced r (map g (tr_slots r) ! i)"
  proof (cases "sl_state ?s = Reserved")
    case True
    obtain at where c: "sl_reserved_at ?s = Some at"
      using verified_slot[OF v i] True by (auto simp: slot_ok_def charged_slot_ok_def split: option.splits)
    obtain f where gs: "g ?s = ?s\<lparr>sl_state := Unknown, sl_finished_at := f, sl_outcome := Some interrupted_outcome\<rparr>"
      and f: "is_none_or f (\<lambda>t. at \<le> t)" using gr[OF True] fin[OF nth_mem[OF i] True c] by metis
    have "slot_ok r i (g ?s) (tm_actions (tr_manifest r) ! i)"
      using verified_slot[OF v i] True c f interrupted_ok(1) unfolding gs
      by (cases f) (auto simp: slot_ok_def charged_slot_ok_def interrupted_outcome_def split: option.splits)
    moreover have "slot_receipt_check X r (g ?s) = Inr ()" "\<not> run_id_misplaced r (g ?s)"
      unfolding gs using interrupted_ok(2)
      by (simp_all add: slot_receipt_check_def run_id_misplaced_def) (simp_all add: interrupted_outcome_def)
    ultimately show ?thesis using True i by (simp add: is_terminal_def)
  next
    case False
    then show ?thesis using i g by simp
  qed
qed simp

lemma recover_record_verified:
  assumes v: "verified X r" and rec: "recover_record r = Some r'"
  shows "verified X r'"
proof -
  have st: "state_ok (r\<lparr>tr_slots := map interrupt_slot (tr_slots r),
      tr_state := (if tr_state r = TS_Running then TS_Partial else tr_state r)\<rparr>)"
    using v unfolding verified_iff
    by (cases "tr_state r") (auto simp: state_ok_def list_all_iff interrupt_slot_def)
  have "verified X (r\<lparr>tr_slots := map interrupt_slot (tr_slots r),
      tr_state := (if tr_state r = TS_Running then TS_Partial else tr_state r)\<rparr>)"
  proof (rule verified_interrupt[OF v _ _ _ st])
    fix s at assume s: "s \<in> set (tr_slots r)" "sl_state s = Reserved"
    then obtain i where i: "i < length (tr_slots r)" "s = tr_slots r ! i" by (auto simp: in_set_conv_nth)
    have "sl_finished_at s = None" using verified_slot[OF v i(1)] s(2) i(2)
      by (auto simp: slot_ok_def charged_slot_ok_def split: option.splits)
    then show "is_none_or (sl_finished_at (interrupt_slot s)) (\<lambda>t. at \<le> t)"
      by (simp add: interrupt_slot_def)
  qed (auto simp: interrupt_slot_def)
  moreover have "r' = r\<lparr>tr_slots := map interrupt_slot (tr_slots r),
      tr_state := (if tr_state r = TS_Running then TS_Partial else tr_state r)\<rparr>"
    using rec by (cases r) (auto simp: recover_record_def split: if_splits)
  ultimately show ?thesis by simp
qed

lemma finish_op_verified:
  assumes v: "verified X r" and op: "finish_op now r = Inr (w, r')"
  shows "verified X r'"
proof -
  let ?st = "if tr_state r = TS_Running
     then if list_all (\<lambda>s. sl_state s = ApiAccepted) (map (finish_slot now) (tr_slots r)) then TS_Completed else TS_Partial
     else tr_state r"
  have r': "r' = r\<lparr>tr_slots := map (finish_slot now) (tr_slots r), tr_state := ?st\<rparr>" "tr_state r \<noteq> TS_Planned"
    using op by (auto simp: finish_op_def Let_def split: if_splits)
  have nr: "list_all (\<lambda>s. sl_state s \<noteq> Reserved) (map (finish_slot now) (tr_slots r))"
    by (auto simp: list_all_iff finish_slot_def)
  have acc: "list_all (\<lambda>s. sl_state s = ApiAccepted) (map (finish_slot now) (tr_slots r))"
    if "tr_state r = TS_Completed"
    using v that unfolding verified_iff by (auto simp: list_all_iff finish_slot_def state_ok_def)
  have "state_ok (r\<lparr>tr_slots := map (finish_slot now) (tr_slots r), tr_state := ?st\<rparr>)"
    using r'(2) nr acc by (cases "tr_state r") (simp_all add: state_ok_def)
  then have "verified X (r\<lparr>tr_slots := map (finish_slot now) (tr_slots r), tr_state := ?st\<rparr>)"
    by (intro verified_interrupt[OF v]) (auto simp: finish_slot_def)
  then show ?thesis by (simp only: r'(1))
qed

lemma unapproved_slots_pending:
  assumes v: "verified X r" and a: "tr_approved_at r = None"
  shows "\<forall>s\<in>set (tr_slots r). sl_state s = Pending \<and> sl_outcome s = None"
    and "tr_release_observation r = None" and "tr_workstation_receipt r = None"
proof -
  show p: "\<forall>s\<in>set (tr_slots r). sl_state s = Pending \<and> sl_outcome s = None"
  proof
    fix s assume "s \<in> set (tr_slots r)"
    then obtain i where "i < length (tr_slots r)" "s = tr_slots r ! i" by (auto simp: in_set_conv_nth)
    then show "sl_state s = Pending \<and> sl_outcome s = None"
      using verified_slot[OF v, of i] a by (auto simp: slot_ok_def charged_slot_ok_def split: if_splits)
  qed
  show "tr_release_observation r = None"
  proof (rule ccontr)
    assume "tr_release_observation r \<noteq> None"
    then obtain ob where ob: "tr_release_observation r = Some ob" by auto
    have nm: "\<not> list_ex (run_id_misplaced r) (tr_slots r)" using v by (auto simp: verified_iff list_ex_iff)
    have ok: "observation_ok X r" using v by (simp add: verified_iff)
    from ok nm ob a show False
      by (auto simp: observation_ok_def validate_release_observation_def is_ok_unit split: if_splits)
  qed
  show "tr_workstation_receipt r = None"
    using v a by (auto simp: verified_iff workstation_ref_ok_def is_none_or_iff)
qed

lemma receipt_ref_ok:
  assumes "receipt_ref X mode now receipt r = Inr w" "tr_workstation_receipt r = None"
    and sha: "\<And>v. length (sha256_bytes X v) = 32"
  shows "is_none_or w (\<lambda>ref. mode \<in> {PairedWorkstation, InsecureTest}
           \<and> uuid_parse_str X (wr_approval_id ref) \<noteq> None \<and> is_ok (decode_hex 32 (wr_sha256 ref)))"
proof (cases receipt)
  case None
  then show ?thesis using assms by (simp add: receipt_ref_def)
next
  case (Some q)
  with assms(1) have v: "signed_receipt_verify X q = Inr ()" and m: "mode \<in> {PairedWorkstation, InsecureTest}"
    and w: "w = Some \<lparr>wr_approval_id = wc_approval_id (rv_challenge (wsr_review q)),
                     wr_sha256 = review_hash X (json_of_signed_receipt X q)\<rparr>"
    by (auto simp: receipt_ref_def Let_def split: if_splits)
  have "uuid_parse_str X (wc_approval_id (rv_challenge (wsr_review q))) \<noteq> None"
    using v by (auto simp: signed_receipt_verify_Inr review_validate_def challenge_validate_def split: if_splits)
  moreover have "decode_hex 32 (review_hash X (json_of_signed_receipt X q)) = Inr (sha256_bytes X (json_of_signed_receipt X q))"
    unfolding review_hash_def by (rule decode_hex_encode) (rule sha)
  ultimately show ?thesis using m w by simp
qed

lemma approve_op_verified:
  assumes v: "verified X r" and op: "approve_op X digest mode now receipt r = Inr (u, r')"
    and now: "now < tr_expires_at r" and sha: "\<And>v. length (sha256_bytes X v) = 32"
  shows "verified X r'"
proof -
  from op obtain w where st: "tr_state r = TS_Running" and na: "tr_approved_at r = None"
    and c: "tr_created_at r \<le> now" and w: "receipt_ref X mode now receipt r = Inr w"
    and r': "r' = r\<lparr>tr_workstation_receipt := w, tr_approved_at := Some now, tr_approval_mode := Some mode\<rparr>"
    by (auto simp: approve_op_def Let_def not_less split: if_splits)
  note p = unapproved_slots_pending[OF v na]
  note wr = receipt_ref_ok[OF w p(3) sha]
  have 1: "workstation_ref_ok X r'" using wr by (auto simp: workstation_ref_ok_def r' is_none_or_iff)
  have 2: "tenant_owner_check X r' = tenant_owner_check X r"
    "action_tenant_check X r' a = action_tenant_check X r a" for a
    by (simp_all add: tenant_owner_check_def action_tenant_check_def r' split: option.splits)
  have 3: "record_header_ok X r'" using v c now by (simp add: verified_iff record_header_ok_def r')
  have 4: "slot_ok r' i (tr_slots r' ! i) (tm_actions (tr_manifest r') ! i)" if "i < length (tr_slots r')" for i
    using verified_slot[OF v, of i] p(1) that by (simp add: r' slot_ok_def)
  have 5: "slot_receipt_check X r' s = Inr ()" "\<not> run_id_misplaced r' s" if "s \<in> set (tr_slots r')" for s
    using p(1) that by (auto simp: r' slot_receipt_check_def run_id_misplaced_def)
  have 6: "observation_ok X r'" "state_ok r'"
    using p(2) st by (simp_all add: r' observation_ok_def validate_release_observation_def state_ok_def)
  show ?thesis unfolding verified_iff[of X r'] using 1 2 3 4 5 6 v[unfolded verified_iff] by (simp add: r')
qed

subsection \<open>Operations on a verified ledger\<close>

lemma save_succeeds:
  assumes ok: "store_ok X S" and st: "stored X S (tr_id p) = Some r" and le: "record_le r p"
    and v: "verified X p"
  shows "\<exists>rows. save_record X (ts_rows S) p = Inr rows"
proof -
  have d: "distinct (map fst (ts_rows S))" using ok by (simp add: store_ok_def)
  with st obtain row where row: "row \<in> set (ts_rows S)" "fst row = tr_id p" "decode_row X row = Inr r"
    by (auto simp: stored_Some)
  then have m: "row_matches p row" using record_le_id[OF le] by (simp add: row_matches_def decode_row_Inr)
  have "w = row" if "w \<in> set (ts_rows S)" "row_matches p w" for w
    using that row d unfolding row_matches_def distinct_map inj_on_def by metis
  then have "set (filter (row_matches p) (ts_rows S)) = {row}"
    using row(1) m unfolding set_filter by blast
  moreover have "distinct (filter (row_matches p) (ts_rows S))" using d by (simp add: distinct_map)
  ultimately have "length (filter (row_matches p) (ts_rows S)) = 1"
    by (metis card.empty card_insert_disjoint distinct_card empty_iff finite.emptyI One_nat_def)
  then show ?thesis using v by (simp add: save_record_Inr)
qed

lemma admit_Inr:
  assumes "store_ok X S" "admit X io S i own now = Inr r"
  shows "stored X S i = Some r" "verified X r" "tr_owner_key r = own" "tr_id r = i" "io = None" "0 \<le> now"
proof -
  have l: "load_record X (ts_rows S) i = Inr r"
    using assms(2) by (auto simp: admit_def split: if_splits)
  then show s: "stored X S i = Some r" by (simp add: stored_def)
  show "verified X r" "tr_id r = i" using stored_ok[OF assms(1) s] by simp_all
  show "tr_owner_key r = own" "io = None" "0 \<le> now"
    using assms(2) by (auto simp: admit_def validate_now_def split: if_splits option.splits)
qed

text \<open>On a verified ledger the transaction wrapper is transparent: an admitted operation that keeps records
  verified returns its own result, and what it computed is what is stored.\<close>

lemma mutate_exact:
  assumes ok: "store_ok X S" and a: "admit X io S i own now = Inr r"
    and le: "\<And>v p. operation (fst (refresh_expiry r now)) = Inr (v, p) \<Longrightarrow>
               record_le (fst (refresh_expiry r now)) p \<and> verified X p"
  shows "fst (mutate X io S i own now operation) = map_sum id fst (operation (fst (refresh_expiry r now)))"
proof -
  let ?b = "fst (refresh_expiry r now)"
  note ad = admit_Inr[OF ok a]
  have vb: "verified X ?b" by (rule refresh_expiry_verified[OF ad(2)])
  let ?p = "case operation ?b of Inr (_, r') \<Rightarrow> r' | Inl _ \<Rightarrow> ?b"
  have p: "record_le ?b ?p" "verified X ?p"
    using le vb by (auto split: sum.splits)
  have rl: "record_le r ?p" using refresh_expiry_le p(1) record_le_trans by blast
  have "stored X S (tr_id ?p) = Some r" using record_le_id[OF rl] ad(1,4) by simp
  then obtain rows where "save_record X (ts_rows S) ?p = Inr rows"
    using save_succeeds[OF ok _ rl p(2)] by blast
  then show ?thesis by (simp add: mutate_def a Let_def)
qed

subsection \<open>Recovery\<close>

lemma load_all_ok:
  assumes "store_ok X S"
  shows "\<exists>rs. load_all X (ts_rows S) = Inr rs \<and> map tr_id rs = map fst (ts_rows S)
           \<and> (\<forall>r\<in>set rs. stored X S (tr_id r) = Some r)"
proof -
  have d: "distinct (map fst (ts_rows S))" using assms by (simp add: store_ok_def)
  let ?rs = "map (\<lambda>row. projr (decode_row X row)) (ts_rows S)"
  have dec: "decode_row X row = Inr (projr (decode_row X row))" if "row \<in> set (ts_rows S)" for row
    using assms that by (auto simp: store_ok_def)
  have "load_all X (ts_rows S) = Inr ?rs"
    unfolding load_all_def try_map_Inr using dec by (auto simp: list_all2_map2 list_all2_same)
  moreover have "map tr_id ?rs = map fst (ts_rows S)"
    using dec by (auto simp: decode_row_Inr)
  moreover have "\<forall>r\<in>set ?rs. stored X S (tr_id r) = Some r"
    using dec d by (auto simp: stored_Some decode_row_Inr)
  ultimately show ?thesis by blast
qed

lemma recover_all_succeeds:
  assumes "serde_roundtrip X" "store_ok X S" "distinct (map tr_id rs)"
    and "\<forall>r\<in>set rs. stored X S (tr_id r) = Some r"
  shows "\<exists>rows. recover_all X (ts_tenant S) (ts_rows S) rs = Inr rows
     \<and> (\<forall>r\<in>set rs. stored X (S\<lparr>ts_rows := rows\<rparr>) (tr_id r)
           = Some (case recover_record r of None \<Rightarrow> r | Some r' \<Rightarrow> r'))
     \<and> (\<forall>i. i \<notin> tr_id ` set rs \<longrightarrow> stored X (S\<lparr>ts_rows := rows\<rparr>) i = stored X S i)"
  using assms
proof (induction rs arbitrary: S)
  case Nil
  then show ?case by (cases S) auto
next
  case (Cons r rs)
  have st: "stored X S (tr_id r) = Some r" using Cons.prems(4) by simp
  note v = stored_ok[OF Cons.prems(2) st]
  let ?r' = "case recover_record r of None \<Rightarrow> r | Some r' \<Rightarrow> r'"
  obtain rows1 where rows1: "(case recover_record r of None \<Rightarrow> Inr (ts_rows S) | Some r' \<Rightarrow> save_record X (ts_rows S) r')
        = Inr rows1"
      "stored X (S\<lparr>ts_rows := rows1\<rparr>) (tr_id r) = Some ?r'"
      "\<And>i. i \<noteq> tr_id r \<Longrightarrow> stored X (S\<lparr>ts_rows := rows1\<rparr>) i = stored X S i"
      "store_ok X (S\<lparr>ts_rows := rows1\<rparr>)"
  proof (cases "recover_record r")
    case None
    then show ?thesis using that[of "ts_rows S"] st Cons.prems(2) by (cases S) auto
  next
    case (Some p)
    note le = recover_record_le[OF Some]
    have id: "tr_id p = tr_id r" "tr_tenant p = ts_tenant S" using record_le_id[OF le] v by simp_all
    obtain rows where s: "save_record X (ts_rows S) p = Inr rows"
      using save_succeeds[OF Cons.prems(2) _ le recover_record_verified[OF v(1) Some]] st id by auto
    from save_record_ok[OF Cons.prems(1,2) id(2) s] show ?thesis using that[of rows] Some s id by simp
  qed
  let ?S = "S\<lparr>ts_rows := rows1\<rparr>"
  have nid: "tr_id q \<noteq> tr_id r" if "q \<in> set rs" for q
    using Cons.prems(3) that by (metis distinct.simps(2) image_eqI list.map(2) list.set_map)
  have "\<exists>rows. recover_all X (ts_tenant ?S) (ts_rows ?S) rs = Inr rows
     \<and> (\<forall>r\<in>set rs. stored X (?S\<lparr>ts_rows := rows\<rparr>) (tr_id r)
           = Some (case recover_record r of None \<Rightarrow> r | Some r' \<Rightarrow> r'))
     \<and> (\<forall>i. i \<notin> tr_id ` set rs \<longrightarrow> stored X (?S\<lparr>ts_rows := rows\<rparr>) i = stored X ?S i)"
    using Cons.prems rows1 nid by (intro Cons.IH) auto
  then obtain rows where ih: "recover_all X (ts_tenant S) rows1 rs = Inr rows"
    "\<forall>r\<in>set rs. stored X (S\<lparr>ts_rows := rows\<rparr>) (tr_id r) = Some (case recover_record r of None \<Rightarrow> r | Some r' \<Rightarrow> r')"
    "\<forall>i. i \<notin> tr_id ` set rs \<longrightarrow> stored X (S\<lparr>ts_rows := rows\<rparr>) i = stored X ?S i" by auto
  have "tr_id r \<notin> tr_id ` set rs" using nid by (metis imageE)
  with ih(3) rows1(2) have self: "stored X (S\<lparr>ts_rows := rows\<rparr>) (tr_id r) = Some ?r'" by metis
  have "recover_all X (ts_tenant S) (ts_rows S) (r # rs) = Inr rows"
    using rows1(1) ih(1) v by (simp add: verify_record_def verify_tenant_def)
  moreover have "\<forall>i. i \<notin> tr_id ` set (r # rs) \<longrightarrow> stored X (S\<lparr>ts_rows := rows\<rparr>) i = stored X S i"
    using ih(3) rows1(3) by simp
  ultimately show ?case using self ih(2) by (intro exI[of _ rows]) simp
qed

definition healthy_meta :: "db_meta \<Rightarrow> bool" where
  "healthy_meta meta \<longleftrightarrow>
     db_integrity meta = ''ok'' \<and> db_user_version meta = 1 \<and> db_task_table_exists meta"

definition settled :: "task_record \<Rightarrow> bool" where
  "settled r \<longleftrightarrow> tr_state r \<noteq> TS_Running \<and> list_all (\<lambda>s. sl_state s \<noteq> Reserved) (tr_slots r)"

lemma recovered_settled: "settled (case recover_record r of None \<Rightarrow> r | Some r' \<Rightarrow> r')"
  by (auto simp: settled_def recover_record_def interrupt_slot_def list_all_iff list_ex_iff)

lemma open_exact:
  assumes serde: "serde_roundtrip X" and ok: "store_ok X S" and m: "healthy_meta meta"
  obtains S' where "open_for_tenant X None meta (ts_tenant S) (ts_rows S) = Inr S'" "advances X S S'"
    "\<And>i. stored X S' i = map_option (\<lambda>r. case recover_record r of None \<Rightarrow> r | Some r' \<Rightarrow> r') (stored X S i)"
proof -
  obtain rs where rs: "load_all X (ts_rows S) = Inr rs" "map tr_id rs = map fst (ts_rows S)"
    "\<forall>r\<in>set rs. stored X S (tr_id r) = Some r" using load_all_ok[OF ok] by blast
  have d: "distinct (map tr_id rs)" using ok rs(2) by (simp add: store_ok_def)
  obtain rows where rec: "recover_all X (ts_tenant S) (ts_rows S) rs = Inr rows"
    and new: "\<forall>r\<in>set rs. stored X (S\<lparr>ts_rows := rows\<rparr>) (tr_id r)
           = Some (case recover_record r of None \<Rightarrow> r | Some r' \<Rightarrow> r')"
    and other: "\<forall>i. i \<notin> tr_id ` set rs \<longrightarrow> stored X (S\<lparr>ts_rows := rows\<rparr>) i = stored X S i"
    using recover_all_succeeds[OF serde ok d rs(3)] by blast
  have "is_none_or (ts_tenant S) (\<lambda>b. is_ok (tenant_binding_validate b))" using ok by (simp add: store_ok_def)
  then have op: "open_for_tenant X None meta (ts_tenant S) (ts_rows S) = Inr (S\<lparr>ts_rows := rows\<rparr>)"
    using m rs(1) rec by (cases S; cases "ts_tenant S") (auto simp: open_for_tenant_def healthy_meta_def)
  have adv: "advances X S (S\<lparr>ts_rows := rows\<rparr>)"
    by (rule recover_all_advances[OF serde ok d rs(3) rec])
  have "stored X (S\<lparr>ts_rows := rows\<rparr>) i
      = map_option (\<lambda>r. case recover_record r of None \<Rightarrow> r | Some r' \<Rightarrow> r') (stored X S i)" for i
  proof (cases "i \<in> tr_id ` set rs")
    case True
    then show ?thesis using new rs(3) by auto
  next
    case False
    then have "i \<notin> set (map fst (ts_rows S))" using rs(2) by (metis set_map)
    then have "stored X S i = None" using ok by (cases "stored X S i") (auto simp: stored_Some store_ok_def)
    then show ?thesis using other False by simp
  qed
  then show ?thesis using that op adv by blast
qed

lemma open_ok:
  assumes serde: "serde_roundtrip X" and ok: "store_ok X S" and m: "healthy_meta meta"
  shows "\<exists>S'. open_for_tenant X None meta (ts_tenant S) (ts_rows S) = Inr S' \<and> advances X S S'
     \<and> (\<forall>i r. stored X S' i = Some r \<longrightarrow> settled r)"
proof -
  obtain S' where S': "open_for_tenant X None meta (ts_tenant S) (ts_rows S) = Inr S'" "advances X S S'"
    and st: "\<And>i. stored X S' i = map_option (\<lambda>r. case recover_record r of None \<Rightarrow> r | Some r' \<Rightarrow> r') (stored X S i)"
    by (rule open_exact[OF assms]) blast
  have "settled r" if "stored X S' i = Some r" for i r using that recovered_settled unfolding st by auto
  then show ?thesis using S' by blast
qed

lemma open_advances:
  assumes "serde_roundtrip X" "store_ok X S" "open_for_tenant X io meta (ts_tenant S) (ts_rows S) = Inr S'"
  shows "advances X S S'"
proof -
  obtain rs where rs: "load_all X (ts_rows S) = Inr rs" "map tr_id rs = map fst (ts_rows S)"
    "\<forall>r\<in>set rs. stored X S (tr_id r) = Some r" using load_all_ok[OF assms(2)] by blast
  have d: "distinct (map tr_id rs)" using assms(2) rs(2) by (simp add: store_ok_def)
  from assms(3) rs(1) obtain rows where rec: "recover_all X (ts_tenant S) (ts_rows S) rs = Inr rows"
    and S': "S' = S\<lparr>ts_rows := rows\<rparr>"
    by (cases S) (auto simp: open_for_tenant_def split: if_splits)
  show ?thesis unfolding S' by (rule recover_all_advances[OF assms(1,2) d rs(3) rec])
qed

end
