(* ===== verification/Task_Ledger.thy ===== *)
theory Task_Ledger
  imports Task_Verified
begin

text \<open>
  The properties of the task ledger: arbitrary runs of operations and restarts, the charge-once contract of
  \<open>Ledger\<close> met by the ledger's slots, and the safety, isolation, error and paging properties.
\<close>

subsection \<open>Runs of the ledger\<close>

text \<open>Everything that can happen to a ledger, in any order: calls by any owner with any arguments and clock
  readings, failing transactions, and restarts of the daemon.\<close>

datatype ts_op =
    TCreate "task_store_error option" string task_manifest i64 uuid
  | TGet "task_store_error option" string string i64
  | TObserve "task_store_error option" string string release_observation i64
  | TList "task_store_error option" string i64 "string option"
  | TClaim "task_store_error option" string string i64
  | TApprove "task_store_error option" string string string task_approval_mode i64 "signed_workstation_receipt option"
  | TReserve "task_store_error option" string string string string i64
  | TFinalize "task_store_error option" string string string string slot_outcome i64
  | TDispatch "task_store_error option" string string string string i64
  | TFinish "task_store_error option" string string i64
  | TRevoke "task_store_error option" string string i64
  | TReopen "task_store_error option" db_meta

fun ts_exec :: "('j, 'z) tsext_scheme \<Rightarrow> ts_op \<Rightarrow> 'j task_store \<Rightarrow> 'j task_store" where
  "ts_exec X (TCreate io own m now u) S = snd (create X io S own m now u)"
| "ts_exec X (TGet io i own now) S = snd (get X io S i own now)"
| "ts_exec X (TObserve io i own ob now) S = snd (record_release_observation X io S i own ob now)"
| "ts_exec X (TList io own now cursor) S = snd (list_page X io S own now cursor)"
| "ts_exec X (TClaim io i own now) S = snd (claim X io S i own now)"
| "ts_exec X (TApprove io i own digest mode now receipt) S =
     snd (approve_with_receipt X io S i own digest mode now receipt)"
| "ts_exec X (TReserve io i own slot request now) S = snd (reserve_slot X io S i own slot request now)"
| "ts_exec X (TFinalize io i own slot request oc now) S = snd (finalize_slot X io S i own slot request oc now)"
| "ts_exec X (TDispatch io i own slot request now) S = snd (authorize_dispatch X io S i own slot request now)"
| "ts_exec X (TFinish io i own now) S = snd (finish_run X io S i own now)"
| "ts_exec X (TRevoke io i own now) S = snd (revoke X io S i own now)"
| "ts_exec X (TReopen io meta) S =
     (case open_for_tenant X io meta (ts_tenant S) (ts_rows S) of Inr S' \<Rightarrow> S' | Inl _ \<Rightarrow> S)"

text \<open>The slot that an operation is granted: a reservation that returned \<open>Ok\<close>.\<close>

fun ts_grants :: "('j, 'z) tsext_scheme \<Rightarrow> ts_op \<Rightarrow> 'j task_store \<Rightarrow> (string \<times> string) option" where
  "ts_grants X (TReserve io i own slot request now) S =
     (if is_ok (fst (reserve_slot X io S i own slot request now)) then Some (i, slot) else None)"
| "ts_grants X _ S = None"

definition ts_charged :: "('j, 'z) tsext_scheme \<Rightarrow> 'j task_store \<Rightarrow> string \<times> string \<Rightarrow> bool" where
  "ts_charged X S k \<longleftrightarrow>
     (\<exists>r. stored X S (fst k) = Some r \<and> (\<exists>s\<in>set (tr_slots r). sl_id s = snd k \<and> sl_state s \<noteq> Pending))"

definition ledger_ok :: "('j, 'z) tsext_scheme \<Rightarrow> 'j task_store \<Rightarrow> bool" where
  "ledger_ok X S \<longleftrightarrow> serde_roundtrip X \<and> store_ok X S"

lemma mutate_snd_advances:
  assumes "ledger_ok X S" "\<And>r v p. operation r = Inr (v, p) \<Longrightarrow> record_le r p"
  shows "advances X S (snd (mutate X io S i own now operation))"
  using mutate_advances[of X S operation io i own now] assms
  by (cases "mutate X io S i own now operation") (auto simp: ledger_ok_def)

lemma exec_advances:
  assumes ok: "ledger_ok X S"
  shows "advances X S (ts_exec X op S)"
proof -
  have serde: "serde_roundtrip X" and s: "store_ok X S" using ok by (simp_all add: ledger_ok_def)
  note m = mutate_snd_advances[OF ok] and refl = advances_refl[OF s]
  show ?thesis
  proof (cases op)
    case (TCreate io own m now u)
    then show ?thesis
      using create_advances[OF serde s, of io own m now u] by (cases "create X io S own m now u") simp
  next
    case (TGet io i own now)
    show ?thesis unfolding TGet ts_exec.simps get_def by (rule m) (erule op_le)
  next
    case (TObserve io i own ob now)
    show ?thesis unfolding TObserve ts_exec.simps record_release_observation_def by (rule m) (erule op_le)
  next
    case (TList io own now cursor)
    then show ?thesis
      using list_page_advances[OF serde s, of io own now cursor] by (cases "list_page X io S own now cursor") simp
  next
    case (TClaim io i own now)
    show ?thesis unfolding TClaim ts_exec.simps claim_def by (rule m) (erule op_le)
  next
    case (TApprove io i own digest mode now receipt)
    show ?thesis unfolding TApprove ts_exec.simps approve_with_receipt_def by (rule m) (erule op_le)
  next
    case (TReserve io i own slot request now)
    have "advances X S (snd (mutate X io S i own now (reserve_op slot request now)))"
      by (rule m) (erule op_le)
    then show ?thesis using refl TReserve by (simp add: reserve_slot_def split: sum.splits)
  next
    case (TFinalize io i own slot request oc now)
    have "advances X S (snd (mutate X io S i own now (finalize_op X slot request oc now)))"
      by (rule m) (erule op_le)
    then show ?thesis using refl TFinalize by (simp add: finalize_slot_def split: sum.splits)
  next
    case (TDispatch io i own slot request now)
    have "advances X S (snd (mutate X io S i own now (dispatch_op slot request now)))"
      by (rule m) (erule op_le)
    then show ?thesis using refl TDispatch by (simp add: authorize_dispatch_def split: sum.splits)
  next
    case (TFinish io i own now)
    show ?thesis unfolding TFinish ts_exec.simps finish_run_def by (rule m) (erule op_le)
  next
    case (TRevoke io i own now)
    show ?thesis unfolding TRevoke ts_exec.simps revoke_def by (rule m) (erule op_le)
  next
    case (TReopen io meta)
    then show ?thesis using open_advances[OF serde s, of io meta] refl by (simp split: sum.splits)
  qed
qed

lemma exec_ok: "ledger_ok X S \<Longrightarrow> ledger_ok X (ts_exec X op S)"
  using exec_advances[of X S op] by (simp add: ledger_ok_def advances_def)

lemma run_advances: "ledger_ok X S \<Longrightarrow> advances X S (run (ts_exec X) ops S)"
proof (induction ops arbitrary: S)
  case Nil
  then show ?case by (simp add: ledger_ok_def advances_refl)
next
  case (Cons op ops)
  then show ?case using exec_advances exec_ok advances_trans by fastforce
qed

lemma decimal_02_inject: "decimal_02 m = decimal_02 n \<Longrightarrow> m = n"
proof -
  have z: "decimal k \<noteq> CHR ''0'' # w" if "10 \<le> k" for k w
    using hd_decimal_zero[of k] that by (metis list.sel(1) not_one_le_zero order_trans one_le_numeral)
  assume "decimal_02 m = decimal_02 n"
  then show "m = n" using z[of m "decimal n"] z[of n "decimal m"]
    by (auto simp: decimal_02_def split: if_splits)
qed

lemma slot_id_inject: "slot_id t i = slot_id t j \<Longrightarrow> i = j"
  using decimal_02_inject[of "Suc i" "Suc j"] by (simp add: slot_id_def)

lemma verified_slot_ids:
  assumes "verified X r" "s \<in> set (tr_slots r)" "s' \<in> set (tr_slots r)" "sl_id s = sl_id s'"
  shows "s = s'"
proof -
  obtain i j where ij: "i < length (tr_slots r)" "s = tr_slots r ! i" "j < length (tr_slots r)" "s' = tr_slots r ! j"
    using assms(2,3) by (auto simp: in_set_conv_nth)
  have "slot_id (tr_id r) i = slot_id (tr_id r) j"
    using verified_slot[OF assms(1) ij(1)] verified_slot[OF assms(1) ij(3)] assms(4) ij(2,4)
    by (simp add: slot_ok_def)
  then show ?thesis using ij slot_id_inject by auto
qed

text \<open>A successful reservation, spelled out.\<close>

lemma reserve_slot_Inr:
  assumes ok: "ledger_ok X S" and res: "fst (reserve_slot X io S i own slot request now) = Inr v"
  obtains r s where "stored X S i = Some r" "s \<in> set (tr_slots r)" "sl_id s = slot" "sl_state s = Pending"
    "tr_state r = TS_Running" "now < tr_expires_at r" "tr_owner_key r = own"
    "stored X (snd (reserve_slot X io S i own slot request now)) i
       = Some (r\<lparr>tr_slots := update_slot slot (charge request now) (tr_slots r)\<rparr>)"
    "find (\<lambda>s. sl_id s = slot) (tr_slots r) = Some s"
proof -
  have serde: "serde_roundtrip X" and so: "store_ok X S" using ok by (simp_all add: ledger_ok_def)
  let ?m = "mutate X io S i own now (reserve_op slot request now)"
  have e: "reserve_slot X io S i own slot request now = ?m"
    using res by (cases "validate_request request") (simp_all add: reserve_slot_def)
  have "?m = (Inr v, snd ?m)" using res e by (metis prod.collapse)
  then show thesis
  proof (cases rule: mutate_cases)
    case (applied r v' p rows)
    let ?b = "fst (refresh_expiry r now)"
    have st: "tr_state ?b = TS_Running" using applied(6) by (simp add: reserve_op_Inr)
    then have b: "?b = r" and live: "now < tr_expires_at r" "tr_state r = TS_Running"
      by (auto simp: refresh_expiry_def split: if_splits)
    from applied(6) obtain s where s: "find (\<lambda>s. sl_id s = slot) (tr_slots r) = Some s" "sl_state s = Pending"
      and p: "p = r\<lparr>tr_slots := update_slot slot (charge request now) (tr_slots r)\<rparr>"
      unfolding b by (auto simp: reserve_op_Inr)
    have sr: "stored X S i = Some r" using applied(1) by (simp add: stored_def)
    have "tr_id p = i" "tr_tenant p = ts_tenant S" using stored_ok[OF so sr] p by simp_all
    with save_record_ok(2)[OF serde so _ applied(7)] have "stored X (snd ?m) i = Some p"
      using applied(9) by simp
    then show thesis using that[OF sr _ _ s(2) live(2,1) applied(3)] find_SomeD[OF s(1)] s(1) p e by simp
  qed simp_all
qed

subsection \<open>A concrete ledger\<close>

definition demo_tsext :: "task_record tsext" where
  "demo_tsext = wext.extend demo_wext (tsext.fields (\<lambda>r. r) Some (\<lambda>_. 100))"

lemma demo_tsext_sel [simp]:
  "to_json demo_tsext r = r" "from_json demo_tsext j = Some j" "json_len demo_tsext j = 100"
  "uuid_to_string demo_tsext u = decimal (unat u)"
  "uuid_parse_str demo_tsext s = map_option of_nat (parse_unsigned 128 s)"
  "sha256_bytes demo_tsext v = replicate 32 CHR ''a''"
  "regex_is_match demo_tsext re v = False"
  "json_of_manifest demo_tsext tm = ''manifest''"
  by (simp_all add: demo_tsext_def wext.defs tsext.defs demo_wext_def)

lemma demo_serde: "serde_roundtrip demo_tsext"
  by (simp add: serde_roundtrip_def)

definition demo_action :: task_action where
  "demo_action = PublishSecret \<lparr>pa_repo = ''o/r'', pa_repository_id = 1, pa_secret_name = ''S'',
     pa_value_ref = ''vault:a/data/b?version=1#F'', pa_github_token_ref = None\<rparr>"

definition demo_manifest :: task_manifest where
  "demo_manifest = \<lparr>tm_schema_version = 1, tm_title = ''t'', tm_expires_in_secs = 600,
     tm_github_api_url = ''https://g'', tm_vault_api_url = ''https://v'', tm_actions = [demo_action]\<rparr>"

definition demo_record :: task_record where
  "demo_record = (new_record ''5'' ''o1'' demo_manifest demo_hex None 100 700)
     \<lparr>tr_state := TS_Running, tr_approved_at := Some 150, tr_approval_mode := Some Native\<rparr>"

definition demo_store :: "task_record task_store" where
  "demo_store = \<lparr>ts_tenant = None, ts_rows = [(''5'', ''o1'', demo_record)]\<rparr>"

lemma demo_no_secret [simp]: "contains_secret demo_tsext v = False"
  by (simp add: contains_secret_def list_ex_iff split_beta)

lemma demo_url: "validate_provider_url ''https://g'' = Inr ()" "validate_provider_url ''https://v'' = Inr ()"
  by (simp_all add: validate_provider_url_def url_host_port_def invalid_host_label_def starts_with_def
      ends_with_def ascii_defs)

lemma demo_vault: "parse_pinned_vault_ref ''vault:a/data/b?version=1#F'' = Inr \<lparr>pv_path = ''a/data/b'', pv_version = 1, pv_field = ''F''\<rparr>"
  by (simp add: parse_pinned_vault_ref_def vault_path_char_def ascii_defs starts_with_def
      parse_unsigned_def decimal_val_def digit_val_def)

lemma demo_manifest_valid: "manifest_validate demo_tsext demo_manifest = Inr ()"
  by (simp add: manifest_validate_def demo_manifest_def title_ok_def TASK_SCHEMA_VERSION_def
      MAX_TASK_DURATION_SECS_def MAX_TASK_ACTIONS_def is_ssh_def is_inference_def is_release_def demo_url
      demo_action_def publish_action_validate_def demo_vault ascii_defs starts_with_def ends_with_def
      trim_def utf8_groups.simps(2) utf8_chars.simps(2) white_group_def is_whitespace_def)

lemma demo_manifest_canonical: "canonicalized demo_tsext demo_manifest = Inr demo_manifest"
  by (simp add: canonicalized_def demo_manifest_valid) (simp add: demo_manifest_def)

lemma demo_record_verified: "verified demo_tsext demo_record"
proof -
  have "record_header_ok demo_tsext demo_record"
    by (simp add: record_header_ok_def demo_record_def new_record_def demo_manifest_canonical
        manifest_digest_def sha256_def demo_hex_def validate_owner_def checked_add_i64_def in_i64_def
        i64_min_def i64_max_def)
      (simp add: demo_manifest_def wrap_i64_def)
  then show ?thesis
    by (simp add: verified_def workstation_ref_ok_def validate_tenant_and_inference_receipts_def
        tenant_owner_check_def action_tenant_check_def slot_receipt_check_def
        validate_release_observation_def run_id_misplaced_def slot_ok_def state_ok_def demo_record_def
        new_record_def demo_manifest_def demo_action_def new_slot_def)
qed

lemma demo_store_ok: "ledger_ok demo_tsext demo_store"
  using demo_record_verified demo_serde
  by (simp add: ledger_ok_def store_ok_def demo_store_def decode_row_Inr)
    (simp add: demo_record_def new_record_def)

subsection \<open>Charges are made once\<close>

lemma grants_Some:
  assumes "ledger_ok X S" "ts_grants X op S = Some k"
  shows "\<not> ts_charged X S k" "ts_charged X (ts_exec X op S) k"
proof -
  from assms(2) obtain io i own slot request now v where op: "op = TReserve io i own slot request now"
    and k: "k = (i, slot)" and res: "fst (reserve_slot X io S i own slot request now) = Inr v"
    by (cases op) (auto simp: is_ok_iff split: if_splits)
  obtain r s where r: "stored X S i = Some r" and s: "s \<in> set (tr_slots r)" "sl_id s = slot" "sl_state s = Pending"
    and new: "stored X (snd (reserve_slot X io S i own slot request now)) i
       = Some (r\<lparr>tr_slots := update_slot slot (charge request now) (tr_slots r)\<rparr>)"
    and f: "find (\<lambda>s. sl_id s = slot) (tr_slots r) = Some s"
    by (rule reserve_slot_Inr[OF assms(1) res]) blast
  have v: "verified X r" using stored_ok(1)[OF _ r] assms(1) by (simp add: ledger_ok_def)
  show "\<not> ts_charged X S k"
    using verified_slot_ids[OF v] s r by (auto simp: ts_charged_def k)
  have "charge request now s \<in> set (update_slot slot (charge request now) (tr_slots r))"
    by (rule in_update_slot[OF f])
  moreover have "sl_id (charge request now s) = slot" "sl_state (charge request now s) \<noteq> Pending"
    using s(2) by (simp_all add: charge_def)
  ultimately show "ts_charged X (ts_exec X op S) k" using new by (auto simp: ts_charged_def k op)
qed

lemma advances_charged:
  assumes "advances X S S'" "ts_charged X S k"
  shows "ts_charged X S' k"
proof -
  from assms(2) obtain r s where r: "stored X S (fst k) = Some r" "s \<in> set (tr_slots r)" "sl_id s = snd k"
    "sl_state s \<noteq> Pending" by (auto simp: ts_charged_def)
  with assms(1) obtain r' where r': "stored X S' (fst k) = Some r'" "record_le r r'"
    by (auto simp: advances_def)
  then have "list_all2 slot_le (tr_slots r) (tr_slots r')" by (simp add: record_le_def)
  with r(2) obtain s' where "s' \<in> set (tr_slots r')" "slot_le s s'"
    by (metis list_all2_conv_all_nth in_set_conv_nth)
  then show ?thesis using r r' by (auto simp: ts_charged_def slot_le_def)
qed

interpretation task_ledger: charge_ledger "ts_exec X" "ts_grants X" "ts_charged X" "ledger_ok X" for X
proof unfold_locales
  fix S op k
  show "ledger_ok X S \<Longrightarrow> ledger_ok X (ts_exec X op S)" by (rule exec_ok)
  show "ledger_ok X S \<Longrightarrow> ts_grants X op S = Some k \<Longrightarrow> \<not> ts_charged X S k" by (rule grants_Some(1))
  show "ledger_ok X S \<Longrightarrow> ts_grants X op S = Some k \<Longrightarrow> ts_charged X (ts_exec X op S) k"
    by (rule grants_Some(2))
  show "ledger_ok X S \<Longrightarrow> ts_charged X S k \<Longrightarrow> ts_charged X (ts_exec X op S) k"
    using exec_advances advances_charged by blast
qed

subsection \<open>Properties\<close>

text \<open>C1: No slot of any task is ever granted twice.  Over every sequence of operations, by any owners, at any
  clock readings, with any transactions failing and any number of daemon restarts in between, the
  reservations that return \<open>Ok\<close> name pairwise different slots, and every slot named stays charged at the end.
  (\<open>serde_roundtrip\<close>: serde reads back the record it wrote.)\<close>

theorem slot_granted_at_most_once:
  assumes "serde_roundtrip X" "store_ok X S"
  shows "distinct (granted (ts_exec X) (ts_grants X) ops S)
     \<and> (\<forall>k \<in> set (granted (ts_exec X) (ts_grants X) ops S). ts_charged X (run (ts_exec X) ops S) k)"
  using assms task_ledger.granted_distinct[of X S ops] task_ledger.granted_charged[of X S _ ops]
  by (simp add: ledger_ok_def)

definition demo_ops :: "ts_op list" where
  "demo_ops = [TReserve None ''5'' ''o1'' ''5:01'' ''q1'' 200, TReopen None \<lparr>db_integrity = ''ok'',
     db_user_version = 1, db_task_table_exists = True, db_existing_tables = 1\<rparr>,
     TReserve None ''5'' ''o1'' ''5:01'' ''q2'' 210]"

lemma demo_slot_id: "slot_id ''5'' 0 = ''5:01''"
  by code_simp

lemma demo_reserve: "is_ok (fst (reserve_slot demo_tsext None demo_store ''5'' ''o1'' ''5:01'' ''q1'' 200))"
proof -
  have a: "admit demo_tsext None demo_store ''5'' ''o1'' 200 = Inr demo_record"
    using demo_record_verified
    by (simp add: admit_def demo_store_def load_record_def decode_row_def verify_record_def validate_owner_def
        validate_owner_boundary_def validate_now_def verify_tenant_def)
      (simp add: demo_record_def new_record_def)
  have b: "fst (refresh_expiry demo_record 200) = demo_record"
    by (simp add: refresh_expiry_def demo_record_def new_record_def)
  have q: "validate_request ''q1'' = Inr ()" by (simp add: validate_request_def ascii_defs)
  have op: "is_ok (reserve_op ''5:01'' ''q1'' 200 demo_record)"
    by (simp add: reserve_op_def demo_record_def new_record_def check_active_def find_slot_def demo_manifest_def
        new_slot_def demo_slot_id Let_def)
  have "fst (mutate demo_tsext None demo_store ''5'' ''o1'' 200 (reserve_op ''5:01'' ''q1'' 200))
      = map_sum id fst (reserve_op ''5:01'' ''q1'' 200 demo_record)"
    using mutate_exact[OF _ a, of "reserve_op ''5:01'' ''q1'' 200"] demo_store_ok
      reserve_op_le reserve_op_verified[OF demo_record_verified _ _ q, of "''5:01''" 200]
    by (auto simp: b ledger_ok_def) (simp add: demo_record_def new_record_def)
  then show ?thesis using op q by (auto simp: reserve_slot_def is_ok_iff)
qed

theorem slot_granted_at_most_once_witness:
  "distinct (granted (ts_exec demo_tsext) (ts_grants demo_tsext) demo_ops demo_store)
   \<and> (''5'', ''5:01'') \<in> set (granted (ts_exec demo_tsext) (ts_grants demo_tsext) demo_ops demo_store)"
  using slot_granted_at_most_once[of demo_tsext demo_store demo_ops] demo_store_ok demo_reserve
  by (simp add: ledger_ok_def demo_ops_def)

lemma dispatch_op_Inr:
  "dispatch_op slot request now r = Inr (u, r') \<longleftrightarrow>
     r' = r \<and> tr_state r = TS_Running \<and> tr_approved_at r \<noteq> None
     \<and> (\<exists>s. find (\<lambda>s. sl_id s = slot) (tr_slots r) = Some s \<and> sl_state s = Reserved
          \<and> sl_request_id s = Some request
          \<and> (case sl_reserved_at s of Some at \<Rightarrow> at | None \<Rightarrow> tr_created_at r) \<le> now)"
  by (cases "find (\<lambda>s. sl_id s = slot) (tr_slots r)")
    (auto simp: dispatch_op_def check_active_Inr find_slot_def not_less split: if_splits)

lemma load_record_verified: "load_record X rows i = Inr r \<Longrightarrow> verified X r \<and> tr_id r = i"
  by (auto dest!: load_record_InrD simp: decode_row_Inr)

text \<open>C2: A provider write is authorized only under live, approved, reserved authority: when
  \<open>authorize_dispatch\<close> returns \<open>Ok\<close>, the stored task belongs to the caller and is running, it was approved,
  the slot is reserved by exactly this request, and the clock readings are ordered
  created \<open>\<le>\<close> approved \<open>\<le>\<close> reserved \<open>\<le>\<close> now \<open><\<close> expiry.  The ledger itself is left as it was.\<close>

theorem dispatch_needs_live_authority:
  assumes "authorize_dispatch X io S i own slot request now = (Inr (), S')"
  shows "\<exists>r s approved reserved. load_record X (ts_rows S) i = Inr r \<and> tr_owner_key r = own
     \<and> tr_tenant r = ts_tenant S \<and> tr_state r = TS_Running
     \<and> s \<in> set (tr_slots r) \<and> sl_id s = slot \<and> sl_state s = Reserved \<and> sl_request_id s = Some request
     \<and> tr_approved_at r = Some approved \<and> sl_reserved_at s = Some reserved
     \<and> tr_created_at r \<le> approved \<and> approved \<le> reserved \<and> reserved \<le> now \<and> now < tr_expires_at r"
proof -
  let ?m = "mutate X io S i own now (dispatch_op slot request now)"
  have "?m = (Inr (), S')"
    using assms by (auto simp: authorize_dispatch_def split: sum.splits)
  then show ?thesis
  proof (cases rule: mutate_cases)
    case (applied r v p rows)
    have st: "tr_state (fst (refresh_expiry r now)) = TS_Running" using applied(6) by (simp add: dispatch_op_Inr)
    then have b: "fst (refresh_expiry r now) = r" and live: "now < tr_expires_at r" "tr_state r = TS_Running"
      by (auto simp: refresh_expiry_def split: if_splits)
    from applied(6) obtain s where s: "find (\<lambda>s. sl_id s = slot) (tr_slots r) = Some s" "sl_state s = Reserved"
      "sl_request_id s = Some request" and le: "(case sl_reserved_at s of Some at \<Rightarrow> at | None \<Rightarrow> tr_created_at r) \<le> now"
      unfolding b by (auto simp: dispatch_op_Inr)
    have v: "verified X r" using load_record_verified[OF applied(1)] by simp
    obtain j where j: "j < length (tr_slots r)" "s = tr_slots r ! j"
      using find_SomeD[OF s(1)] by (auto simp: in_set_conv_nth)
    from verified_slot[OF v j(1)] s(2) j(2) obtain approved reserved
      where ar: "tr_approved_at r = Some approved" "sl_reserved_at s = Some reserved" "approved \<le> reserved"
      by (auto simp: slot_ok_def charged_slot_ok_def split: option.splits)
    have "tr_created_at r \<le> approved" using v ar(1) by (simp add: verified_iff record_header_ok_def)
    then show ?thesis using applied live s find_SomeD[OF s(1)] ar le by auto
  qed simp_all
qed

text \<open>C15: The ledger only moves forward.  After any run, every task that was stored is still stored under its
  id, owner, tenant, manifest, digest and deadlines; an approval, once recorded, is unchanged; a task that was
  completed, partial, revoked or expired still is; a charged slot is still charged, to the same request at the
  same time; and a slot with a final outcome has exactly that outcome.\<close>

theorem ledger_only_advances:
  assumes "serde_roundtrip X" "store_ok X S" and "stored X S i = Some r"
  shows "\<exists>r'. stored X (run (ts_exec X) ops S) i = Some r' \<and> record_le r r'"
  using run_advances[of X S ops] assms by (simp add: ledger_ok_def advances_def)

lemma demo_stored: "stored demo_tsext demo_store ''5'' = Some demo_record"
proof -
  have "distinct (map fst (ts_rows demo_store))" by (simp add: demo_store_def)
  moreover have "decode_row demo_tsext (''5'', ''o1'', demo_record) = Inr demo_record"
    using demo_record_verified by (simp add: decode_row_Inr) (simp add: demo_record_def new_record_def)
  ultimately show ?thesis by (simp add: stored_Some) (simp add: demo_store_def)
qed

theorem ledger_only_advances_witness:
  "\<exists>r'. stored demo_tsext (run (ts_exec demo_tsext) demo_ops demo_store) ''5'' = Some r' \<and> record_le demo_record r'"
  using ledger_only_advances[OF _ _ demo_stored] demo_store_ok by (simp add: ledger_ok_def)



text \<open>A restart always succeeds and never refunds.  On every ledger that the operations can produce, opening
  the store again (healthy file, same tenant) returns a store in which every task has only moved forward, no
  task is left running and no slot is left reserved.\<close>

theorem reopen_succeeds:
  assumes "serde_roundtrip X" "store_ok X S" "healthy_meta meta"
  shows "\<exists>S'. open_for_tenant X None meta (ts_tenant (run (ts_exec X) ops S)) (ts_rows (run (ts_exec X) ops S)) = Inr S'
     \<and> advances X (run (ts_exec X) ops S) S' \<and> (\<forall>i r. stored X S' i = Some r \<longrightarrow> settled r)"
proof -
  have "store_ok X (run (ts_exec X) ops S)"
    using task_ledger.ok_run[of X S ops] assms by (simp add: ledger_ok_def)
  then show ?thesis using open_ok[OF assms(1) _ assms(3)] by blast
qed

definition demo_meta :: db_meta where
  "demo_meta = \<lparr>db_integrity = ''ok'', db_user_version = 1, db_task_table_exists = True, db_existing_tables = 1\<rparr>"

theorem reopen_succeeds_witness:
  "\<exists>S'. open_for_tenant demo_tsext None demo_meta (ts_tenant (run (ts_exec demo_tsext) demo_ops demo_store))
      (ts_rows (run (ts_exec demo_tsext) demo_ops demo_store)) = Inr S'"
proof -
  have "healthy_meta demo_meta" by (simp add: healthy_meta_def demo_meta_def)
  then show ?thesis
    using reopen_succeeds[of demo_tsext demo_store demo_meta demo_ops] demo_store_ok
    by (auto simp: ledger_ok_def)
qed

definition demo_reserved :: task_record where
  "demo_reserved = demo_record\<lparr>tr_slots := update_slot ''5:01'' (charge ''q1'' 200) (tr_slots demo_record)\<rparr>"

definition demo_store2 :: "task_record task_store" where
  "demo_store2 = \<lparr>ts_tenant = None, ts_rows = [(''5'', ''o1'', demo_reserved)]\<rparr>"

lemma demo_record_slots:
  "tr_slots demo_record = [new_slot ''5'' (0, demo_action)]" "sl_id (new_slot ''5'' (0, demo_action)) = ''5:01''"
  by (simp_all add: demo_record_def new_record_def demo_manifest_def new_slot_def demo_slot_id)

lemma demo_reserved_verified: "verified demo_tsext demo_reserved"
proof (rule reserve_op_verified[OF demo_record_verified])
  show "reserve_op ''5:01'' ''q1'' 200 demo_record = Inr (charge ''q1'' 200 (new_slot ''5'' (0, demo_action)), demo_reserved)"
    unfolding reserve_op_Inr demo_reserved_def
    using demo_record_slots by (simp add: demo_record_def new_record_def) (simp add: new_slot_def)
  show "200 < tr_expires_at demo_record" by (simp add: demo_record_def new_record_def)
  show "validate_request ''q1'' = Inr ()" by (simp add: validate_request_def ascii_defs)
qed

theorem dispatch_needs_live_authority_witness:
  "\<exists>r. load_record demo_tsext (ts_rows demo_store2) ''5'' = Inr r \<and> tr_state r = TS_Running \<and> 300 < tr_expires_at r"
proof -
  have k: "tr_id demo_reserved = ''5''" "tr_owner_key demo_reserved = ''o1''" "tr_tenant demo_reserved = None"
    "tr_state demo_reserved = TS_Running" "tr_expires_at demo_reserved = 700" "tr_approved_at demo_reserved = Some 150"
    by (simp_all add: demo_reserved_def demo_record_def new_record_def)
  have ok: "store_ok demo_tsext demo_store2"
    using demo_reserved_verified k by (simp add: store_ok_def demo_store2_def decode_row_Inr)
  have a: "admit demo_tsext None demo_store2 ''5'' ''o1'' 300 = Inr demo_reserved"
    using demo_reserved_verified k
    by (simp add: admit_def demo_store2_def load_record_def decode_row_def verify_record_def validate_owner_def
        validate_owner_boundary_def validate_now_def verify_tenant_def)
  have b: "fst (refresh_expiry demo_reserved 300) = demo_reserved" by (simp add: refresh_expiry_def k)
  have d: "dispatch_op ''5:01'' ''q1'' 300 demo_reserved = Inr ((), demo_reserved)"
    unfolding dispatch_op_Inr using k demo_record_slots by (simp add: demo_reserved_def charge_def)
  have "fst (authorize_dispatch demo_tsext None demo_store2 ''5'' ''o1'' ''5:01'' ''q1'' 300) = Inr ()"
    using mutate_exact[OF ok a, of "dispatch_op ''5:01'' ''q1'' 300"] demo_reserved_verified
    by (simp add: b d authorize_dispatch_def validate_request_def ascii_defs)
  then have "authorize_dispatch demo_tsext None demo_store2 ''5'' ''o1'' ''5:01'' ''q1'' 300
      = (Inr (), snd (authorize_dispatch demo_tsext None demo_store2 ''5'' ''o1'' ''5:01'' ''q1'' 300))"
    by (metis prod.collapse)
  from dispatch_needs_live_authority[OF this] show ?thesis by blast
qed



text \<open>Tenants are isolated: a store bound to one tenant and broker refuses every owner key derived from any
  other valid binding, whatever the user id and principal (UUIDs print injectively and without colons).\<close>

theorem foreign_tenant_refused:
  assumes inj: "\<And>u v. uuid_to_string X u = uuid_to_string X v \<Longrightarrow> u = v"
    and hyph: "\<And>u. CHR '':'' \<notin> set (uuid_to_string X u)"
    and bound: "ts_tenant S = Some b" "tenant_binding_validate b = Inr ()"
    and foreign: "tenant_binding_validate b' = Inr ()" "b' \<noteq> b"
  shows "\<exists>e. mutate X io S i (owner_key X b' uid p) now operation = (Inl e, S)"
proof -
  have "\<not> starts_with (owner_prefix X b) (owner_key X b' uid p)"
    using owner_prefix_disjoint[OF inj hyph bound(2) foreign(1) _ owner_key_prefix] foreign(2) by blast
  then have "validate_owner_boundary X (ts_tenant S) (owner_key X b' uid p) = Inl TSE_OwnerMismatch"
    by (simp add: validate_owner_boundary_def bound(1))
  then show ?thesis
    by (cases "validate_owner (owner_key X b' uid p)") (auto simp: mutate_def admit_def)
qed

theorem foreign_tenant_refused_witness:
  "\<exists>e. mutate demo_tsext None (demo_store\<lparr>ts_tenant := Some demo_tenant\<rparr>) ''5''
      (owner_key demo_tsext (demo_tenant\<lparr>tb_broker_id := 8\<rparr>) 500 None) 200 revoke_op
      = (Inl e, demo_store\<lparr>ts_tenant := Some demo_tenant\<rparr>)"
proof (rule foreign_tenant_refused[where b = demo_tenant])
  show "uuid_to_string demo_tsext u = uuid_to_string demo_tsext v \<Longrightarrow> u = v" for u v
    by (simp add: word_unat_eq_iff)
  show "CHR '':'' \<notin> set (uuid_to_string demo_tsext u)" for u
    using decimal_digits[of "unat u"] by (auto simp: list_all_iff is_ascii_digit_def)
qed (simp_all add: demo_tenant_def tenant_binding_validate_def tenant_id_parse_def ascii_defs)

text \<open>On a verified ledger the lifecycle never trips its own integrity check: reading, claiming, approving
  (with or without a workstation receipt), reserving, authorizing, finishing and revoking return exactly what
  the transition computes on the caller's record with the expiry rule applied, and in particular never
  \<open>Corrupt\<close> (a SHA-256 digest has 32 bytes).\<close>

theorem transitions_never_corrupt:
  assumes ok: "store_ok X S" and sha: "\<And>v. length (sha256_bytes X v) = 32"
    and a: "admit X io S i own now = Inr r" and q: "validate_request request = Inr ()"
  shows "fst (get X io S i own now) = map_sum id fst (read_op (fst (refresh_expiry r now)))
    \<and> fst (claim X io S i own now) = map_sum id fst (claim_op (fst (refresh_expiry r now)))
    \<and> fst (approve_with_receipt X io S i own digest mode now receipt)
        = map_sum id fst (approve_op X digest mode now receipt (fst (refresh_expiry r now)))
    \<and> fst (reserve_slot X io S i own slot request now)
        = map_sum id fst (reserve_op slot request now (fst (refresh_expiry r now)))
    \<and> fst (authorize_dispatch X io S i own slot request now)
        = map_sum id fst (dispatch_op slot request now (fst (refresh_expiry r now)))
    \<and> fst (finish_run X io S i own now) = map_sum id fst (finish_op now (fst (refresh_expiry r now)))
    \<and> fst (revoke X io S i own now) = map_sum id fst (revoke_op (fst (refresh_expiry r now)))"
proof -
  let ?b = "fst (refresh_expiry r now)"
  have v: "verified X ?b" by (rule refresh_expiry_verified[OF admit_Inr(2)[OF ok a]])
  have live: "now < tr_expires_at ?b" if "tr_state ?b = TS_Running"
    using that by (auto simp: refresh_expiry_def split: if_splits)
  have ap: "record_le ?b p \<and> verified X p" if op: "approve_op X digest mode now receipt ?b = Inr (w, p)" for w p
  proof -
    have "tr_state ?b = TS_Running" using op by (auto simp: approve_op_def split: if_splits)
    then show ?thesis using approve_op_le[OF op] approve_op_verified[OF v op live sha] by blast
  qed
  have rs: "record_le ?b p \<and> verified X p" if op: "reserve_op slot request now ?b = Inr (w, p)" for w p
  proof -
    have "tr_state ?b = TS_Running" using op by (simp add: reserve_op_Inr)
    then show ?thesis using reserve_op_le[OF op] reserve_op_verified[OF v op live q] by blast
  qed
  show ?thesis unfolding get_def claim_def approve_with_receipt_def finish_run_def revoke_def
      reserve_slot_def authorize_dispatch_def q sum.case
    by (intro conjI; intro mutate_exact[OF ok a]; (elim ap rs)?)
      (blast intro: read_op_le claim_op_le dispatch_op_le finish_op_le revoke_op_le read_op_verified[OF v]
        claim_op_verified[OF v] dispatch_op_verified[OF v] finish_op_verified[OF v] revoke_op_verified[OF v])+
qed

theorem transitions_never_corrupt_witness:
  "fst (revoke demo_tsext None demo_store ''5'' ''o1'' 200) = Inr (demo_record\<lparr>tr_state := TS_Revoked\<rparr>)"
proof -
  have a: "admit demo_tsext None demo_store ''5'' ''o1'' 200 = Inr demo_record"
    using demo_record_verified
    by (simp add: admit_def demo_store_def load_record_def decode_row_def verify_record_def validate_owner_def
        validate_owner_boundary_def validate_now_def verify_tenant_def)
      (simp add: demo_record_def new_record_def)
  have q: "validate_request ''q1'' = Inr ()" by (simp add: validate_request_def ascii_defs)
  have "fst (revoke demo_tsext None demo_store ''5'' ''o1'' 200)
      = map_sum id fst (revoke_op (fst (refresh_expiry demo_record 200)))"
    using transitions_never_corrupt[OF _ _ a q] demo_store_ok by (simp add: ledger_ok_def)
  also have "\<dots> = Inr (demo_record\<lparr>tr_state := TS_Revoked\<rparr>)"
    by (simp add: revoke_op_def refresh_expiry_def demo_record_def new_record_def Let_def)
  finally show ?thesis .
qed

subsection \<open>Observations and listing\<close>

text \<open>Evidence about a release run only accumulates: recording an observation never goes back in time, never
  leaves the ambiguous state, never silently replaces the run it was about by another one, and never turns a
  finished run back into a running one.\<close>

theorem observation_only_accumulates:
  assumes "observe_op X ob now r = Inr (v, r')" and "tr_release_observation r = Some prev"
  shows "\<exists>new. tr_release_observation r' = Some new \<and> ro_checked_at prev \<le> ro_checked_at new
     \<and> (ro_state prev = RO_Ambiguous \<longrightarrow> new = prev)
     \<and> (ro_run_id prev \<noteq> None \<longrightarrow> ro_run_id new = ro_run_id prev \<or> ro_state new = RO_Ambiguous)
     \<and> (ro_state prev \<in> {RO_Succeeded, RO_Failed} \<longrightarrow> ro_state new \<noteq> RO_Running)"
  using assms by (auto simp: observe_op_def merge_observation_def Let_def split: if_splits)

definition demo_observation :: "release_observation_state \<Rightarrow> string \<Rightarrow> i64 \<Rightarrow> release_observation" where
  "demo_observation st code at = \<lparr>ro_state = st, ro_correlation = TaskTitle, ro_code = code, ro_run_id = Some 9,
     ro_run_url = Some ''u'', ro_observed_commit_sha = Some ''c'', ro_checked_at = at, ro_run_attempt = Some 1\<rparr>"

theorem observation_only_accumulates_witness:
  "\<exists>new. tr_release_observation (demo_record\<lparr>tr_release_observation := Some (demo_observation RO_Succeeded ''workflow_succeeded'' 300)\<rparr>)
       = Some new \<and> ro_state new \<noteq> RO_Running"
proof -
  let ?r = "demo_record\<lparr>tr_release_observation := Some (demo_observation RO_Succeeded ''workflow_succeeded'' 300)\<rparr>"
  have "observe_op demo_tsext (demo_observation RO_Running ''run_in_progress'' 310) 320 ?r = Inr (?r, ?r)"
    by (simp add: observe_op_def merge_observation_def demo_observation_def)
  from observation_only_accumulates[OF this] show ?thesis by (simp add: demo_observation_def)
qed

definition owner_rows :: "string \<Rightarrow> nat option \<Rightarrow> 'j row list \<Rightarrow> 'j row list" where
  "owner_rows own c rows =
     filter (\<lambda>row. fst (snd row) = own) (rev (case c of None \<Rightarrow> rows | Some n \<Rightarrow> take n rows))"

lemma fill_page_result:
  assumes "fill_page X tenant now rows page bytes = Inr (page', has_more)" "length page \<le> ROW_LIMIT"
    "bytes \<le> PAGE_LIMIT"
  shows "\<exists>n. n \<le> length rows \<and> length page' = length page + n \<and> length page' \<le> ROW_LIMIT
     \<and> (has_more \<longleftrightarrow> n < length rows) \<and> (has_more \<longrightarrow> page' \<noteq> [])
     \<and> map (\<lambda>rc. tr_id (fst rc)) page' = map (\<lambda>rc. tr_id (fst rc)) page @ map fst (take n rows)
     \<and> bytes + (\<Sum>rc\<leftarrow>drop (length page) page'. json_len X (to_json X (fst rc)) + 1) \<le> PAGE_LIMIT"
  using assms
proof (induction X tenant now rows page bytes rule: fill_page.induct)
  case (1 X tenant now page bytes)
  then show ?case by simp
next
  case (2 X tenant now row rows page bytes)
  show ?case
  proof (cases "length page = ROW_LIMIT")
    case True
    then show ?thesis using 2(2-4) by (intro exI[of _ 0]) (auto simp: ROW_LIMIT_def)
  next
    case False
    with 2(2) obtain r where r: "decode_row X row = Inr r" "tr_tenant r = tenant"
      by (auto simp: verify_tenant_def)
    obtain r' ch where rf: "refresh_expiry r now = (r', ch)" by force
    let ?size = "json_len X (to_json X r') + 1"
    show ?thesis
    proof (cases "bytes + ?size > PAGE_LIMIT")
      case True
      then show ?thesis using 2(2-4) False r rf
        by (intro exI[of _ 0]) (auto simp: verify_tenant_def split: if_splits)
    next
      case small: False
      then have rest: "fill_page X tenant now rows (page @ [(r', ch)]) (bytes + ?size) = Inr (page', has_more)"
        using 2(2) False r rf by (simp add: verify_tenant_def)
      have "tr_id r' = fst row"
        using r(1) rf refresh_expiry_id[of r now] by (simp add: decode_row_Inr)
      moreover have "length (page @ [(r', ch)]) \<le> ROW_LIMIT" "bytes + ?size \<le> PAGE_LIMIT"
        using 2(3) False small by simp_all
      ultimately obtain n where n: "n \<le> length rows" "length page' = length page + Suc n"
          "length page' \<le> ROW_LIMIT" "has_more \<longleftrightarrow> n < length rows" "has_more \<longrightarrow> page' \<noteq> []"
          "map (\<lambda>rc. tr_id (fst rc)) page' = map (\<lambda>rc. tr_id (fst rc)) page @ fst row # map fst (take n rows)"
          "bytes + ?size + (\<Sum>rc\<leftarrow>drop (Suc (length page)) page'. json_len X (to_json X (fst rc)) + 1) \<le> PAGE_LIMIT"
        using 2(1)[OF False refl rf[symmetric] refl small rest] by auto
      obtain m new where "page' = (page @ [(r', ch)]) @ new"
        using fill_page_rows[OF rest] by auto
      with n show ?thesis by (intro exI[of _ "Suc n"]) auto
    qed
  qed
qed

lemma page_rows_take: "page_rows own c rows = take 101 (owner_rows own c rows)"
  by (simp add: page_rows_def owner_rows_def)

lemma row_index_nth:
  assumes "distinct (map fst rows)" "k < length rows" "fst (snd (rows ! k)) = own"
  shows "row_index (fst (rows ! k)) own rows = Some k"
proof -
  have "takeWhile (\<lambda>row. \<not> (fst row = fst (rows ! k) \<and> fst (snd row) = own)) rows = take k rows"
  proof (rule takeWhile_eq_take_P_nth)
    fix j assume "j < k" "j < length rows"
    then show "\<not> (fst (rows ! j) = fst (rows ! k) \<and> fst (snd (rows ! j)) = own)"
      using assms(1,2) by (auto simp: distinct_conv_nth)
  qed (use assms in auto)
  then show ?thesis using assms(2) by (simp add: row_index_def)
qed

text \<open>The rows older than a given one are the rest of the listing after it.\<close>

lemma owner_rows_after:
  assumes d: "distinct (map fst rows)" and m: "m < length (owner_rows own c rows)"
  shows "\<exists>k. row_index (fst (owner_rows own c rows ! m)) own rows = Some k
           \<and> owner_rows own (Some k) rows = drop (Suc m) (owner_rows own c rows)"
proof -
  define P where "P = (\<lambda>row :: 'a row. fst (snd row) = own)"
  define xs where "xs = (case c of None \<Rightarrow> rows | Some n \<Rightarrow> take n rows)"
  have os: "owner_rows own c rows = filter P (rev xs)" by (simp add: owner_rows_def P_def xs_def)
  define w where "w = filter P (rev xs) ! m"
  have w: "w \<in> set xs" "P w" using nth_mem[OF m] by (auto simp: os w_def)
  then obtain k where k: "k < length xs" "xs ! k = w" by (auto simp: in_set_conv_nth)
  then have k': "k < length rows" "rows ! k = w" "take k rows = take k xs"
    by (auto simp: xs_def min_absorb1 split: option.splits)
  have "xs = take k xs @ w # drop (Suc k) xs" using k by (metis id_take_nth_drop)
  then have "rev xs = rev (drop (Suc k) xs) @ w # rev (take k xs)"
    by (metis append.assoc append_Cons append_Nil rev.simps(2) rev_append)
  then have split: "filter P (rev xs) = filter P (rev (drop (Suc k) xs)) @ w # filter P (rev (take k xs))"
    using w(2) by simp
  have dx: "distinct (filter P (rev xs))"
    using d by (auto simp: xs_def distinct_map split: option.splits)
  have "m = length (filter P (rev (drop (Suc k) xs)))"
  proof (rule nth_eq_iff_index_eq[THEN iffD1, OF dx])
    show "m < length (filter P (rev xs))" using m by (simp add: os)
    show "length (filter P (rev (drop (Suc k) xs))) < length (filter P (rev xs))" unfolding split by simp
    show "filter P (rev xs) ! m = filter P (rev xs) ! length (filter P (rev (drop (Suc k) xs)))"
      unfolding w_def[symmetric] by (metis split nth_append_length)
  qed
  then have "drop (Suc m) (filter P (rev xs)) = filter P (rev (take k xs))" by (subst split) simp
  then have "owner_rows own (Some k) rows = drop (Suc m) (owner_rows own c rows)"
    using k'(3) by (simp add: os) (simp add: owner_rows_def P_def)
  moreover have "row_index (fst (owner_rows own c rows ! m)) own rows = Some k"
    unfolding os w_def[symmetric] using row_index_nth[OF d k'(1)] k'(2) w(2) by (simp add: P_def)
  ultimately show ?thesis by blast
qed

lemma refresh_expiry_owner [simp]: "tr_owner_key (fst (refresh_expiry r now)) = tr_owner_key r"
  by (simp add: refresh_expiry_def)

text \<open>C31: Paging is exact.  A page holds the caller's tasks only, at most a hundred of them and at most 96 KiB of
  encoded text; it is the next stretch of the caller's tasks, newest first; \<open>has_more\<close> is true exactly when
  some are left; and then the returned cursor continues precisely after this page.  So following the cursors
  enumerates every task of the caller exactly once.\<close>

theorem list_page_exact:
  assumes "store_ok X S" "list_page X io S own now cursor = (Inr (page, has_more, next), S')"
    and "cursor_position own cursor (ts_rows S) = Inr c"
  shows "length page \<le> 100 \<and> (\<forall>r\<in>set page. tr_owner_key r = own \<and> tr_tenant r = ts_tenant S)
    \<and> 512 + (\<Sum>r\<leftarrow>page. json_len X (to_json X r) + 1) \<le> 96 * 1024
    \<and> map tr_id page = map fst (take (length page) (owner_rows own c (ts_rows S)))
    \<and> (has_more \<longleftrightarrow> length page < length (owner_rows own c (ts_rows S)))
    \<and> (has_more \<longrightarrow> (\<exists>n. cursor_position own next (ts_rows S) = Inr (Some n)
         \<and> owner_rows own (Some n) (ts_rows S) = drop (length page) (owner_rows own c (ts_rows S))))"
proof -
  let ?rows = "owner_rows own c (ts_rows S)"
  have d: "distinct (map fst (ts_rows S))" using assms(1) by (simp add: store_ok_def)
  from assms(2,3) obtain pg where f: "fill_page X (ts_tenant S) now (page_rows own c (ts_rows S)) [] 512 = Inr (pg, has_more)"
    and page: "page = map fst pg" and nxt: "next = (if has_more \<and> page \<noteq> [] then Some (tr_id (last page)) else None)"
    by (auto simp: list_page_def split: sum.splits)
  obtain n where n: "n \<le> length (take 101 ?rows)" "length pg = n" "length pg \<le> 100"
      "has_more \<longleftrightarrow> n < length (take 101 ?rows)" "has_more \<longrightarrow> pg \<noteq> []"
      "map (\<lambda>rc. tr_id (fst rc)) pg = map fst (take n (take 101 ?rows))"
      "512 + (\<Sum>rc\<leftarrow>pg. json_len X (to_json X (fst rc)) + 1) \<le> PAGE_LIMIT"
    using fill_page_result[OF f] by (auto simp: page_rows_take ROW_LIMIT_def PAGE_LIMIT_def)
  have lp: "length page = n" using n(2) page by simp
  have ids: "map tr_id page = map fst (take n ?rows)" using n(1,3,6) lp by (simp add: page comp_def min_def)
  have more: "has_more \<longleftrightarrow> n < length ?rows" using n(1-4) by auto
  have own: "tr_owner_key r = own \<and> tr_tenant r = ts_tenant S" if "r \<in> set page" for r
  proof -
    obtain k where la: "list_all2 (\<lambda>row rc. \<exists>r. decode_row X row = Inr r \<and> tr_tenant r = ts_tenant S
        \<and> rc = refresh_expiry r now) (take k (page_rows own c (ts_rows S))) pg"
      using fill_page_rows[OF f] by auto
    from that obtain rc where "rc \<in> set pg" "r = fst rc" using page by auto
    with list_all2_in2[OF la] obtain row q where q: "row \<in> set (take k (page_rows own c (ts_rows S)))"
      "decode_row X row = Inr q" "tr_tenant q = ts_tenant S" "r = fst (refresh_expiry q now)" by blast
    have "fst (snd row) = own" using page_rows_sub[of own c "ts_rows S"] in_set_takeD[OF q(1)] by blast
    then show ?thesis using q record_le_id[OF refresh_expiry_le[of q now]] by (simp add: decode_row_Inr)
  qed
  have next_ok: "\<exists>m. cursor_position own next (ts_rows S) = Inr (Some m)
      \<and> owner_rows own (Some m) (ts_rows S) = drop n ?rows" if h: "has_more"
  proof -
    have ne: "page \<noteq> []" "0 < n" using n(2,5) h page by auto
    then have m: "n - 1 < length ?rows" using more h by simp
    have "tr_id (last page) = map tr_id page ! (n - 1)" using ne lp by (simp add: last_conv_nth)
    also have "\<dots> = fst (?rows ! (n - 1))" using ids m ne(2) by simp
    finally have "tr_id (last page) = fst (?rows ! (n - 1))" .
    with owner_rows_after[OF d m] ne h show ?thesis by (auto simp: nxt cursor_position_def)
  qed
  have "(\<Sum>r\<leftarrow>page. json_len X (to_json X r) + 1) = (\<Sum>rc\<leftarrow>pg. json_len X (to_json X (fst rc)) + 1)"
    by (simp add: page comp_def)
  then show ?thesis using n(3,7) lp ids more own next_ok n(2) by (simp add: PAGE_LIMIT_def)
qed

theorem list_page_exact_witness:
  "\<exists>page has_more next S'. list_page demo_tsext None demo_store ''o1'' 200 None = (Inr (page, has_more, next), S')
     \<and> map tr_id page = [''5''] \<and> \<not> has_more"
proof -
  have k: "tr_id demo_record = ''5''" "tr_owner_key demo_record = ''o1''" "tr_tenant demo_record = None"
    "refresh_expiry demo_record 200 = (demo_record, False)"
    by (simp_all add: demo_record_def new_record_def refresh_expiry_def)
  have rows: "ts_rows demo_store = [(''5'', ''o1'', demo_record)]" "ts_tenant demo_store = None"
    by (simp_all add: demo_store_def)
  have dec: "decode_row demo_tsext (''5'', ''o1'', demo_record) = Inr demo_record"
    using demo_record_verified k by (simp add: decode_row_Inr)
  have c: "cursor_position ''o1'' None (ts_rows demo_store) = Inr None" by (simp add: cursor_position_def)
  have "list_page demo_tsext None demo_store ''o1'' 200 None = (Inr ([demo_record], False, None), demo_store)"
    by (simp add: list_page_def validate_owner_def validate_owner_boundary_def validate_now_def rows c[unfolded rows]
        page_rows_def ROW_LIMIT_def PAGE_LIMIT_def dec k verify_tenant_def)
  from list_page_exact[OF _ this c] this show ?thesis
    using demo_store_ok by (auto simp: ledger_ok_def owner_rows_def rows)
qed


end
