(* ===== verification/Manifest_Properties.thy ===== *)
theory Manifest_Properties
  imports Task_Ledger
begin

text \<open>
  The properties of manifests and their evidence: the reference grammar, the canonical form and its digest,
  the families, and what an accepted outcome proves.
\<close>

text \<open>The pinned reference grammar is exact: a string is accepted as a pinned Vault reference with a given
  path, version and field if and only if it is the one canonical spelling of that well-formed triple.  So an
  approved reference names one version of one field, and no two spellings name the same secret version.\<close>

theorem pinned_reference_exact:
  "parse_pinned_vault_ref s = Inr r \<longleftrightarrow> s = render_vault_ref r \<and> vault_ref_wf r"
  by (rule parse_pinned_vault_ref_iff)

definition demo_action2 :: task_action where
  "demo_action2 = PublishSecret \<lparr>pa_repo = ''a/r'', pa_repository_id = 2, pa_secret_name = ''S'',
     pa_value_ref = ''vault:a/data/b?version=1#F'', pa_github_token_ref = None\<rparr>"

definition demo_pair :: task_manifest where
  "demo_pair = demo_manifest\<lparr>tm_actions := [demo_action, demo_action2]\<rparr>"

lemma demo_pair_valid: "manifest_validate demo_tsext demo_pair = Inr ()"
  by (simp add: manifest_validate_def demo_pair_def demo_manifest_def title_ok_def TASK_SCHEMA_VERSION_def
      MAX_TASK_DURATION_SECS_def MAX_TASK_ACTIONS_def is_ssh_def is_inference_def is_release_def demo_url
      demo_action_def demo_action2_def publish_action_validate_def demo_vault ascii_defs starts_with_def
      ends_with_def trim_def utf8_groups.simps(2) utf8_chars.simps(2) white_group_def is_whitespace_def
      to_ascii_lowercase_def ascii_lower_def)

text \<open>C32: The manifest digest does not depend on the order in which actions were written: every reordering of the
  actions of a valid manifest is valid and has the same digest, so approval cannot be evaded or duplicated by
  shuffling the same actions.\<close>

theorem digest_order_insensitive:
  assumes "mset as = mset (tm_actions m)" "manifest_digest X m = Inr d"
  shows "manifest_digest X (m\<lparr>tm_actions := as\<rparr>) = Inr d"
  using assms(2) canonicalized_perm[OF assms(1)] by (auto simp: manifest_digest_def)

theorem digest_order_insensitive_witness:
  "manifest_digest demo_tsext (demo_pair\<lparr>tm_actions := [demo_action2, demo_action]\<rparr>)
     = manifest_digest demo_tsext demo_pair"
proof -
  obtain d where d: "manifest_digest demo_tsext demo_pair = Inr d"
    by (simp add: manifest_digest_def canonicalized_def demo_pair_valid)
  have "mset [demo_action2, demo_action] = mset (tm_actions demo_pair)" by (simp add: demo_pair_def)
  from digest_order_insensitive[OF this d] d show ?thesis by simp
qed

text \<open>Canonicalization is a normal form: it keeps exactly the reviewed actions, orders them strictly by their
  key (no two actions of a valid manifest share one), yields a valid manifest, and leaves that one unchanged.\<close>

theorem canonical_form_normal:
  assumes "canonicalized X m = Inr c"
  shows "mset (tm_actions c) = mset (tm_actions m) \<and> sorted (map action_sort_key (tm_actions c))
     \<and> distinct (map action_sort_key (tm_actions c)) \<and> manifest_validate X c = Inr ()
     \<and> canonicalized X c = Inr c"
proof -
  have "tm_actions c = sort_key action_sort_key (tm_actions m)" using assms by (simp add: canonicalized_Inr)
  then show ?thesis
    using canonical_valid[OF assms] canonicalized_idem[OF assms] valid_sort_keys_distinct[OF canonical_valid[OF assms]]
    by simp
qed

theorem canonical_form_normal_witness:
  "\<exists>c. canonicalized demo_tsext demo_pair = Inr c \<and> canonicalized demo_tsext c = Inr c
     \<and> distinct (map action_sort_key (tm_actions c))"
proof -
  obtain c where c: "canonicalized demo_tsext demo_pair = Inr c"
    by (simp add: canonicalized_def demo_pair_valid)
  from canonical_form_normal[OF c] c show ?thesis by blast
qed

text \<open>The inference loop accepts exactly the intended triples: three actions, each valid on its own, with the
  three different ordinals and one common tenant, profile, model, credential, source and snapshot.\<close>

theorem inference_triple_exact:
  "validate_inference_actions X as = Inr () \<longleftrightarrow>
     length as = 3 \<and> distinct (map ia_ordinal as)
     \<and> list_all (\<lambda>a. inference_action_validate X a = Inr ()) as
     \<and> list_all (\<lambda>a. list_all (same_profile a) as) as"
  by (simp only: validate_inference_actions_iff list_all_iff)

text \<open>A publish manifest never holds the same authority twice: in a valid manifest of the publish family every
  action is a valid publish action, and no two positions share a secret name together with the repository's
  case-folded name or with its numeric identity.\<close>

theorem publish_actions_distinct:
  assumes "manifest_validate X m = Inr ()" "tm_schema_version m = 1"
    and "i < length (tm_actions m)" "j < length (tm_actions m)" "i \<noteq> j"
  shows "\<exists>p q. tm_actions m ! i = PublishSecret p \<and> tm_actions m ! j = PublishSecret q
     \<and> (to_ascii_lowercase (pa_repo p), pa_secret_name p) \<noteq> (to_ascii_lowercase (pa_repo q), pa_secret_name q)
     \<and> (pa_repository_id p, pa_secret_name p) \<noteq> (pa_repository_id q, pa_secret_name q)"
proof -
  have "check_publish_actions X [] [] (tm_actions m) = Inr ()"
    using assms(1,2)
    by (auto simp: manifest_validate_def is_ssh_def is_inference_def is_release_def split: if_splits)
  then have pub: "\<forall>a\<in>set (tm_actions m). \<exists>p. a = PublishSecret p \<and> publish_action_validate X p = Inr ()"
    and d: "distinct (map action_sort_key (tm_actions m))" "distinct (map publish_ident (tm_actions m))"
    unfolding check_publish_iff by blast+
  from pub assms(3,4) obtain p q where pq: "tm_actions m ! i = PublishSecret p" "tm_actions m ! j = PublishSecret q"
    using nth_mem by metis
  have "action_sort_key (tm_actions m ! i) \<noteq> action_sort_key (tm_actions m ! j)"
    and "publish_ident (tm_actions m ! i) \<noteq> publish_ident (tm_actions m ! j)"
    using d assms(3-5) by (auto simp: distinct_conv_nth)
  then show ?thesis using pq by (auto simp: action_sort_key_def publish_ident_def)
qed

theorem publish_actions_distinct_witness:
  "\<exists>p q. tm_actions demo_pair ! 0 = PublishSecret p \<and> tm_actions demo_pair ! 1 = PublishSecret q
     \<and> (pa_repository_id p, pa_secret_name p) \<noteq> (pa_repository_id q, pa_secret_name q)"
proof -
  have l: "tm_schema_version demo_pair = 1" "length (tm_actions demo_pair) = 2"
    by (simp_all add: demo_pair_def demo_manifest_def)
  then have "0 < length (tm_actions demo_pair)" "1 < length (tm_actions demo_pair)" "(0::nat) \<noteq> 1" by simp_all
  from publish_actions_distinct[OF demo_pair_valid l(1) this] show ?thesis by blast
qed

text \<open>C33: Acceptance needs evidence.  An outcome that is accepted for a fixed inference slot carries a receipt for
  this very tenant, profile and prompt, with at most the reserved output tokens and an output text whose digest
  is the recorded one; an outcome accepted for an SSH slot carries a host receipt for this very grant, host key
  and destination, lasting no longer than the approved session (plus one second).\<close>

theorem acceptance_needs_evidence:
  assumes "outcome_validate_for_action X oc a = Inr ()" "so_state oc = ApiAccepted"
  shows "(\<forall>i. a = InferenceAct i \<longrightarrow> (\<exists>rc text. so_inference_receipt oc = Some rc
            \<and> ir_tenant rc = ia_tenant i \<and> ir_profile_sha256 rc = ia_profile_sha256 i
            \<and> ir_prompt_sha256 rc = ia_prompt_sha256 i
            \<and> is_some_and (ir_observed_output_tokens rc) (\<lambda>t. t \<le> 96)
            \<and> ir_output_text rc = Some text \<and> ir_output_sha256 rc = Some (sha256 X text)))
       \<and> (\<forall>s. a = SshHealth s \<longrightarrow> (\<exists>rc text. so_ssh_receipt oc = Some rc
            \<and> sp_tenant rc = sh_tenant s \<and> sp_grant_id rc = sh_grant_id s
            \<and> sp_host_key_sha256 rc = sh_host_key_sha256 s \<and> sp_host rc = sh_destination_host s
            \<and> sp_completed_at rc - sp_started_at rc \<le> int (unat (sh_max_session_secs s)) + 1
            \<and> sp_output_text rc = Some text \<and> sp_output_sha256 rc = Some (sha256 X text)))"
proof (intro conjI allI impI)
  fix i assume a: "a = InferenceAct i"
  with assms obtain rc where rc: "so_inference_receipt oc = Some rc" "inference_receipt_validate X rc i = Inr ()"
    by (auto simp: outcome_validate_for_action_def split: option.splits)
  have "outcome_validate oc = Inr ()" using assms(1) by (auto simp: outcome_validate_for_action_def)
  then have "ir_code rc = IC_CompletionObserved"
    using assms(2) rc(1) by (cases "ir_code rc") (auto simp: outcome_validate_def split: if_splits)
  then show "\<exists>rc text. so_inference_receipt oc = Some rc
            \<and> ir_tenant rc = ia_tenant i \<and> ir_profile_sha256 rc = ia_profile_sha256 i
            \<and> ir_prompt_sha256 rc = ia_prompt_sha256 i
            \<and> is_some_and (ir_observed_output_tokens rc) (\<lambda>t. t \<le> 96)
            \<and> ir_output_text rc = Some text \<and> ir_output_sha256 rc = Some (sha256 X text)"
    using rc by (auto simp: inference_receipt_validate_def INFERENCE_OUTPUT_TOKENS_def is_some_and_iff
        is_none_or_iff not_less split: if_splits)
next
  fix s assume a: "a = SshHealth s"
  with assms obtain rc where rc: "so_ssh_receipt oc = Some rc" "ssh_receipt_validate X rc s = Inr ()"
    by (auto simp: outcome_validate_for_action_def split: option.splits)
  have "outcome_validate oc = Inr ()" using assms(1) by (auto simp: outcome_validate_for_action_def)
  then have "sp_code rc = SC_HealthObserved"
    using assms(2) rc(1) by (cases "sp_code rc") (auto simp: outcome_validate_def split: if_splits)
  then show "\<exists>rc text. so_ssh_receipt oc = Some rc
            \<and> sp_tenant rc = sh_tenant s \<and> sp_grant_id rc = sh_grant_id s
            \<and> sp_host_key_sha256 rc = sh_host_key_sha256 s \<and> sp_host rc = sh_destination_host s
            \<and> sp_completed_at rc - sp_started_at rc \<le> int (unat (sh_max_session_secs s)) + 1
            \<and> sp_output_text rc = Some text \<and> sp_output_sha256 rc = Some (sha256 X text)"
    using rc by (auto simp: ssh_receipt_validate_def health_evidence_validate_def is_some_and_iff not_less
        split: if_splits)
qed

definition demo_inference :: inference_action where
  "demo_inference = \<lparr>ia_operation = INFERENCE_OPERATION, ia_ordinal = 1, ia_tenant = demo_tenant,
     ia_profile_id = ''p'', ia_profile_sha256 = demo_hex, ia_model_id = ''m'', ia_model_artifact_sha256 = demo_hex,
     ia_source_id = ''s'', ia_source_snapshot_sha256 = demo_hex, ia_github_ci_snapshot = None,
     ia_prompt_sha256 = demo_hex, ia_credential_ref = None, ia_options = default_inference_options\<rparr>"

definition demo_completion :: slot_outcome where
  "demo_completion = \<lparr>so_state = ApiAccepted, so_code = ''api_accepted'', so_provider_run_id = None,
     so_inference_receipt = Some \<lparr>ir_tenant = demo_tenant, ir_profile_sha256 = demo_hex, ir_prompt_sha256 = demo_hex,
       ir_code = IC_CompletionObserved, ir_reserved_output_tokens = 96, ir_input_tokens = 10,
       ir_observed_output_tokens = Some 12, ir_output_sha256 = Some demo_hex, ir_output_text = Some ''ok'',
       ir_duration_ms = 5, ir_completed_at = 210\<rparr>,
     so_ssh_receipt = None\<rparr>"

lemma demo_hex_valid: "valid_sha256 demo_hex"
  by (simp add: valid_sha256_def demo_hex_def hex_encode_lower)

theorem acceptance_needs_evidence_witness:
  "\<exists>rc. so_inference_receipt demo_completion = Some rc \<and> is_some_and (ir_observed_output_tokens rc) (\<lambda>t. t \<le> 96)"
proof -
  have "inference_action_validate demo_tsext demo_inference = Inr ()"
    by (simp add: inference_action_validate_def demo_inference_def demo_hex_valid demo_tenant_def
        tenant_binding_validate_def tenant_id_parse_def valid_label_def valid_model_id_def ascii_defs)
  then have v: "outcome_validate_for_action demo_tsext demo_completion (InferenceAct demo_inference) = Inr ()"
    by (simp add: outcome_validate_for_action_def outcome_validate_def demo_completion_def
        allowed_outcome_code_def inference_receipt_validate_def)
      (simp add: demo_inference_def INFERENCE_OUTPUT_TOKENS_def INFERENCE_INPUT_TOKENS_def valid_output_text_def
        utf8_chars.simps(2) is_control_def bidi_control_def sha256_def demo_hex_def)
  have "so_state demo_completion = ApiAccepted" by (simp add: demo_completion_def)
  from acceptance_needs_evidence[OF v this] show ?thesis by blast
qed

end
