(* ===== verification/Task_Model.thy ===== *)
theory Task_Model
  imports Task_Ledger
begin

text \<open>
  The abstract authority model of a task, and the task ledger as its implementation.  A task is an authority that
  is claimed once and then succeeds, closes, is withdrawn or times out, and one allowance per slot that is spent at
  most once.  The model follows the reference model of \<open>opaque-bounded-work/tests/task_state_model.rs\<close>, for any
  number of slots, requests and instants: it knows nothing of records, digests, receipts or rows.
\<close>

subsection \<open>The model\<close>

datatype authority = Unclaimed | Claimed | Succeeded | Closed | Withdrawn | TimedOut

datatype result_kind = RK_Accepted | RK_Rejected | RK_Unknown | RK_Interrupted

text \<open>An allowance is unspent, or spent by a request that is in flight or has a result.\<close>

type_synonym allowance = "(string \<times> result_kind option) option"

record task_model =
  md_authority :: authority
  md_approved :: bool
  md_deadline :: i64
  md_allowances :: "allowance list"

datatype model_action =
    MA_Claim | MA_Approve | MA_Reserve nat string | MA_Dispatch nat string
  | MA_Complete nat string result_kind | MA_Finish | MA_Revoke | MA_Read | MA_Reopen

definition active :: "authority \<Rightarrow> bool" where
  "active a \<longleftrightarrow> a = Unclaimed \<or> a = Claimed"

definition observe :: "i64 \<Rightarrow> task_model \<Rightarrow> task_model" where
  "observe now m = (if now \<ge> md_deadline m \<and> active (md_authority m) then m\<lparr>md_authority := TimedOut\<rparr> else m)"

fun interrupted :: "allowance \<Rightarrow> allowance" where
  "interrupted (Some (q, None)) = Some (q, Some RK_Interrupted)"
| "interrupted c = c"

fun resolved :: "allowance \<Rightarrow> bool" where
  "resolved (Some (q, Some res)) = True"
| "resolved c = False"

fun accepted :: "allowance \<Rightarrow> bool" where
  "accepted (Some (q, Some res)) = (res = RK_Accepted)"
| "accepted c = False"

definition conclude :: "allowance list \<Rightarrow> authority" where
  "conclude cs = (if list_all accepted cs then Succeeded else Closed)"

definition holds_at :: "task_model \<Rightarrow> nat \<Rightarrow> allowance \<Rightarrow> bool" where
  "holds_at m k c \<longleftrightarrow> k < length (md_allowances m) \<and> md_allowances m ! k = c"

fun model_step :: "model_action \<Rightarrow> task_model \<Rightarrow> task_model option" where
  "model_step MA_Claim m =
     (if md_authority m = Unclaimed then Some (m\<lparr>md_authority := Claimed\<rparr>) else None)"
| "model_step MA_Approve m =
     (if md_authority m = Claimed \<and> \<not> md_approved m then Some (m\<lparr>md_approved := True\<rparr>) else None)"
| "model_step (MA_Reserve k q) m =
     (if md_authority m = Claimed \<and> md_approved m \<and> holds_at m k None
      then Some (m\<lparr>md_allowances := (md_allowances m)[k := Some (q, None)]\<rparr>) else None)"
| "model_step (MA_Dispatch k q) m =
     (if md_authority m = Claimed \<and> md_approved m \<and> holds_at m k (Some (q, None)) then Some m else None)"
| "model_step (MA_Complete k q res) m =
     (if holds_at m k (Some (q, None))
      then let cs = (md_allowances m)[k := Some (q, Some res)]
           in Some (m\<lparr>md_allowances := cs,
                      md_authority := (if md_authority m = Claimed \<and> list_all resolved cs
                                       then conclude cs else md_authority m)\<rparr>)
      else None)"
| "model_step MA_Finish m =
     (if md_authority m = Unclaimed then None
      else let cs = map interrupted (md_allowances m)
           in Some (m\<lparr>md_allowances := cs,
                      md_authority := (if md_authority m = Claimed then conclude cs else md_authority m)\<rparr>))"
| "model_step MA_Revoke m =
     Some (if active (md_authority m) then m\<lparr>md_authority := Withdrawn\<rparr> else m)"
| "model_step MA_Read m = Some m"
| "model_step MA_Reopen m =
     Some (m\<lparr>md_allowances := map interrupted (md_allowances m),
             md_authority := (if md_authority m = Claimed then Closed else md_authority m)\<rparr>)"

lemma active_simps [simp]:
  "active Unclaimed" "active Claimed" "\<not> active Succeeded" "\<not> active Closed" "\<not> active Withdrawn" "\<not> active TimedOut"
  by (simp_all add: active_def)

lemma observe_idem [simp]: "observe now (observe now m) = observe now m"
  by (simp add: observe_def)

text \<open>A step taken on what is observed at an instant leaves nothing to time out at that instant.\<close>

lemma observe_step:
  assumes "model_step a (observe now m) = Some m'"
  shows "observe now m' = m'"
proof -
  let ?o = "observe now m"
  have o: "active (md_authority ?o) \<Longrightarrow> now < md_deadline ?o" by (simp add: observe_def split: if_splits)
  have "md_deadline m' = md_deadline ?o" "active (md_authority m') \<Longrightarrow> active (md_authority ?o)"
    using assms by (cases a; auto simp: Let_def conclude_def split: if_splits)+
  then show ?thesis using o by (auto simp: observe_def[of now m'])
qed

subsection \<open>The abstraction of a record\<close>

fun authority_of :: "task_state \<Rightarrow> authority" where
  "authority_of TS_Planned = Unclaimed"
| "authority_of TS_Running = Claimed"
| "authority_of TS_Completed = Succeeded"
| "authority_of TS_Partial = Closed"
| "authority_of TS_Revoked = Withdrawn"
| "authority_of TS_Expired = TimedOut"

definition kind_of :: "slot_outcome \<Rightarrow> result_kind" where
  "kind_of oc =
     (case so_state oc of
        ApiAccepted \<Rightarrow> RK_Accepted
      | Rejected \<Rightarrow> RK_Rejected
      | _ \<Rightarrow> if so_code oc = ''interrupted'' then RK_Interrupted else RK_Unknown)"

definition allowance_of :: "task_slot \<Rightarrow> allowance" where
  "allowance_of s = map_option (\<lambda>q. (q, map_option kind_of (sl_outcome s))) (sl_request_id s)"

definition model_of :: "task_record \<Rightarrow> task_model" where
  "model_of r =
     \<lparr>md_authority = authority_of (tr_state r), md_approved = (tr_approved_at r \<noteq> None),
      md_deadline = tr_expires_at r, md_allowances = map allowance_of (tr_slots r)\<rparr>"

lemma model_of_sel [simp]:
  "md_authority (model_of r) = authority_of (tr_state r)" "md_approved (model_of r) = (tr_approved_at r \<noteq> None)"
  "md_deadline (model_of r) = tr_expires_at r" "md_allowances (model_of r) = map allowance_of (tr_slots r)"
  by (simp_all add: model_of_def)

lemma authority_of_iff [simp]:
  "authority_of st = Unclaimed \<longleftrightarrow> st = TS_Planned" "authority_of st = Claimed \<longleftrightarrow> st = TS_Running"
  "active (authority_of st) \<longleftrightarrow> st \<in> {TS_Planned, TS_Running}"
  by (cases st; simp)+

lemma model_eqI:
  "md_authority m = md_authority m' \<Longrightarrow> md_approved m = md_approved m' \<Longrightarrow> md_deadline m = md_deadline m'
    \<Longrightarrow> md_allowances m = md_allowances m' \<Longrightarrow> m = (m' :: task_model)"
  by simp

lemma refresh_refines: "model_of (fst (refresh_expiry r now)) = observe now (model_of r)"
  by (auto simp: refresh_expiry_def observe_def model_of_def)

text \<open>What the integrity check says of a slot, seen as an allowance.\<close>

lemma slot_allowance:
  assumes "verified X r" "s \<in> set (tr_slots r)"
  shows "sl_state s = Pending \<longleftrightarrow> allowance_of s = None"
    and "sl_state s = Reserved \<longleftrightarrow> (\<exists>q. sl_request_id s = Some q \<and> allowance_of s = Some (q, None))"
    and "is_terminal (sl_state s) \<longleftrightarrow> resolved (allowance_of s)"
    and "sl_state s = ApiAccepted \<longleftrightarrow> accepted (allowance_of s)"
    and "sl_state s = Reserved \<Longrightarrow> \<exists>at. sl_reserved_at s = Some at"
proof -
  obtain i where i: "i < length (tr_slots r)" "s = tr_slots r ! i" using assms(2) by (auto simp: in_set_conv_nth)
  have ok: "slot_ok r i s (tm_actions (tr_manifest r) ! i)" using verified_slot[OF assms(1) i(1)] i(2) by simp
  have p: "sl_request_id s = None \<and> sl_outcome s = None" if "sl_state s = Pending"
    using ok that by (simp add: slot_ok_def)
  have c: "\<exists>q at. sl_request_id s = Some q \<and> sl_reserved_at s = Some at
      \<and> (if sl_state s = Reserved then sl_outcome s = None
         else \<exists>oc. sl_outcome s = Some oc \<and> so_state oc = sl_state s)" if "sl_state s \<noteq> Pending"
    using ok that
    by (cases "sl_request_id s"; cases "sl_outcome s")
      (auto simp: slot_ok_def charged_slot_ok_def split: option.splits if_splits)
  show "sl_state s = Pending \<longleftrightarrow> allowance_of s = None"
    "sl_state s = Reserved \<longleftrightarrow> (\<exists>q. sl_request_id s = Some q \<and> allowance_of s = Some (q, None))"
    "is_terminal (sl_state s) \<longleftrightarrow> resolved (allowance_of s)"
    "sl_state s = ApiAccepted \<longleftrightarrow> accepted (allowance_of s)"
    "sl_state s = Reserved \<Longrightarrow> \<exists>at. sl_reserved_at s = Some at"
    using p c by (cases "sl_state s"; force simp: allowance_of_def is_terminal_def kind_of_def split: if_splits)+
qed

subsection \<open>Operations on records refine the steps\<close>

definition slot_index :: "string \<Rightarrow> task_slot list \<Rightarrow> nat" where
  "slot_index i ss = length (takeWhile (\<lambda>s. sl_id s \<noteq> i) ss)"

lemma slot_index_simps [simp]:
  "slot_index i [] = 0" "slot_index i (s # ss) = (if sl_id s = i then 0 else Suc (slot_index i ss))"
  by (simp_all add: slot_index_def)

lemma find_slot_index:
  "find_slot i ss = (let k = slot_index i ss in if k < length ss then Inr (ss ! k) else Inl TSE_SlotNotFound)"
  by (induction ss) (auto simp: find_slot_def Let_def split: if_splits)

lemma update_slot_index:
  "update_slot i f ss = (let k = slot_index i ss in if k < length ss then ss[k := f (ss ! k)] else ss)"
  by (induction ss) (auto simp: Let_def)

text \<open>The calls of the lifecycle, the step each asks for, and the checks of a call that are not about authority:
  well-formed requests and outcomes, the digest and receipt of an approval, clocks that do not run backwards.\<close>

datatype task_call =
    TC_Get | TC_Claim | TC_Approve string task_approval_mode "signed_workstation_receipt option"
  | TC_Reserve string string | TC_Dispatch string string | TC_Finalize string string slot_outcome
  | TC_Finish | TC_Revoke

fun action_of :: "task_record \<Rightarrow> task_call \<Rightarrow> model_action" where
  "action_of r TC_Get = MA_Read"
| "action_of r TC_Claim = MA_Claim"
| "action_of r (TC_Approve d mode w) = MA_Approve"
| "action_of r (TC_Reserve slot q) = MA_Reserve (slot_index slot (tr_slots r)) q"
| "action_of r (TC_Dispatch slot q) = MA_Dispatch (slot_index slot (tr_slots r)) q"
| "action_of r (TC_Finalize slot q oc) = MA_Complete (slot_index slot (tr_slots r)) q (kind_of oc)"
| "action_of r TC_Finish = MA_Finish"
| "action_of r TC_Revoke = MA_Revoke"

fun presentable :: "'z wext_scheme \<Rightarrow> i64 \<Rightarrow> task_call \<Rightarrow> task_record \<Rightarrow> bool" where
  "presentable X now (TC_Approve d mode w) r =
     (tr_manifest_digest r = d \<and> tr_created_at r \<le> now \<and> is_ok (receipt_ref X mode now w r))"
| "presentable X now (TC_Reserve slot q) r = (is_ok (validate_request q) \<and> is_none_or (tr_approved_at r) (\<lambda>at. at \<le> now))"
| "presentable X now (TC_Dispatch slot q) r =
     (is_ok (validate_request q) \<and> is_none_or (sl_reserved_at (tr_slots r ! slot_index slot (tr_slots r))) (\<lambda>at. at \<le> now))"
| "presentable X now (TC_Finalize slot q oc) r =
     (let s = tr_slots r ! slot_index slot (tr_slots r)
      in is_ok (validate_request q) \<and> is_ok (outcome_validate oc)
         \<and> is_none_or (sl_reserved_at s) (\<lambda>at. at \<le> now)
         \<and> is_ok (outcome_validate_for_action X oc (sl_action s))
         \<and> is_ok (slot_receipt_check X r (set_outcome oc now s)) \<and> \<not> run_id_misplaced r (set_outcome oc now s))"
| "presentable X now c r = True"

text \<open>The transition a call runs inside its transaction; what it returns is reduced to the record it stores.\<close>

fun transition :: "'z wext_scheme \<Rightarrow> i64 \<Rightarrow> task_call \<Rightarrow> task_record \<Rightarrow> task_store_error + task_record" where
  "transition X now TC_Get r = map_sum id snd (read_op r)"
| "transition X now TC_Claim r = map_sum id snd (claim_op r)"
| "transition X now (TC_Approve d mode w) r = map_sum id snd (approve_op X d mode now w r)"
| "transition X now (TC_Reserve slot q) r = map_sum id snd (reserve_op slot q now r)"
| "transition X now (TC_Dispatch slot q) r = map_sum id snd (dispatch_op slot q now r)"
| "transition X now (TC_Finalize slot q oc) r = map_sum id snd (finalize_op X slot q oc now r)"
| "transition X now TC_Finish r = map_sum id snd (finish_op now r)"
| "transition X now TC_Revoke r = map_sum id snd (revoke_op r)"

lemma approve_refines:
  "(case approve_op X d mode now w r of
      Inr (v, p) \<Rightarrow> presentable X now (TC_Approve d mode w) r \<and> model_step MA_Approve (model_of r) = Some (model_of p)
    | Inl e \<Rightarrow> \<not> presentable X now (TC_Approve d mode w) r \<or> model_step MA_Approve (model_of r) = None)"
  by (cases "tr_state r"; cases "receipt_ref X mode now w r")
    (auto simp: approve_op_def check_active_def model_of_def Let_def simp del: and_then_Inr)

lemma reserve_refines:
  assumes v: "verified X r" and q: "validate_request q = Inr ()"
  shows "case reserve_op slot q now r of
      Inr (v, p) \<Rightarrow> presentable X now (TC_Reserve slot q) r
        \<and> model_step (MA_Reserve (slot_index slot (tr_slots r)) q) (model_of r) = Some (model_of p)
    | Inl e \<Rightarrow> \<not> presentable X now (TC_Reserve slot q) r
        \<or> model_step (MA_Reserve (slot_index slot (tr_slots r)) q) (model_of r) = None"
proof -
  let ?k = "slot_index slot (tr_slots r)"
  have p: "sl_state (tr_slots r ! ?k) = Pending \<longleftrightarrow> allowance_of (tr_slots r ! ?k) = None" if "?k < length (tr_slots r)"
    using slot_allowance(1)[OF v] that by simp
  have none: "sl_outcome (tr_slots r ! ?k) = None" if "?k < length (tr_slots r)" "sl_state (tr_slots r ! ?k) = Pending"
    using verified_slot[OF v that(1)] that(2) by (simp add: slot_ok_def)
  have upd: "map allowance_of (update_slot slot (charge q now) (tr_slots r))
      = (map allowance_of (tr_slots r))[?k := Some (q, None)]"
    if "?k < length (tr_slots r)" "sl_state (tr_slots r ! ?k) = Pending"
    using that none by (simp add: update_slot_index Let_def map_update allowance_of_def charge_def)
  show ?thesis
  proof (cases "reserve_op slot q now r")
    case (Inr vp)
    obtain w p' where vp: "vp = (w, p')" by (cases vp)
    from Inr vp obtain at s where f: "tr_state r = TS_Running" "tr_approved_at r = Some at" "at \<le> now"
      "find_slot slot (tr_slots r) = Inr s" "sl_state s = Pending"
      "p' = r\<lparr>tr_slots := update_slot slot (charge q now) (tr_slots r)\<rparr>"
      by (auto simp: reserve_op_Inr find_slot_Inr)
    then have k: "?k < length (tr_slots r)" "sl_state (tr_slots r ! ?k) = Pending"
      by (auto simp: find_slot_index Let_def split: if_splits)
    then show ?thesis using Inr vp f q p upd[OF k] by (simp add: holds_at_def model_of_def)
  next
    case (Inl e)
    have "\<nexists>v p. reserve_op slot q now r = Inr (v, p)" using Inl by simp
    then have "\<not> (tr_state r = TS_Running \<and> (\<exists>at. tr_approved_at r = Some at \<and> at \<le> now)
        \<and> (\<exists>s. find_slot slot (tr_slots r) = Inr s \<and> sl_state s = Pending))"
      by (auto simp: reserve_op_Inr find_slot_Inr)
    then show ?thesis using Inl p by (auto simp: holds_at_def find_slot_index Let_def)
  qed
qed

lemma dispatch_refines:
  assumes v: "verified X r" and q: "validate_request q = Inr ()"
  shows "case dispatch_op slot q now r of
      Inr (v, p) \<Rightarrow> presentable X now (TC_Dispatch slot q) r
        \<and> model_step (MA_Dispatch (slot_index slot (tr_slots r)) q) (model_of r) = Some (model_of p)
    | Inl e \<Rightarrow> \<not> presentable X now (TC_Dispatch slot q) r
        \<or> model_step (MA_Dispatch (slot_index slot (tr_slots r)) q) (model_of r) = None"
proof -
  let ?k = "slot_index slot (tr_slots r)"
  let ?s = "tr_slots r ! ?k"
  have p: "allowance_of ?s = Some (q, None) \<longleftrightarrow> sl_state ?s = Reserved \<and> sl_request_id ?s = Some q"
    and at: "sl_state ?s = Reserved \<Longrightarrow> \<exists>at. sl_reserved_at ?s = Some at" if "?k < length (tr_slots r)"
    using slot_allowance(2,5)[OF v, of ?s] that by (auto simp: allowance_of_def)
  show ?thesis
  proof (cases "tr_state r = TS_Running \<and> tr_approved_at r \<noteq> None \<and> ?k < length (tr_slots r) \<and> sl_state ?s = Reserved")
    case True
    then obtain at' where "sl_reserved_at ?s = Some at'" using at by auto
    then show ?thesis using True p q
      by (simp add: dispatch_op_def check_active_def find_slot_index holds_at_def del: and_then_Inr)
  next
    case False
    then have "\<exists>e. dispatch_op slot q now r = Inl e"
      by (cases "tr_state r") (auto simp: dispatch_op_def check_active_def find_slot_index Let_def simp del: and_then_Inr)
    then show ?thesis using False p by (auto simp: holds_at_def)
  qed
qed

text \<open>Completing a slot: the slots after it, and the state they conclude.\<close>

lemma completed_allowances:
  assumes v: "verified X r" and k: "k < length (tr_slots r)" "sl_request_id (tr_slots r ! k) = Some q"
    and oc: "is_terminal (so_state oc)"
    and ss: "ss = (tr_slots r)[k := set_outcome oc now (tr_slots r ! k)]"
  shows "map allowance_of ss = (map allowance_of (tr_slots r))[k := Some (q, Some (kind_of oc))]"
    and "list_all (\<lambda>s. is_terminal (sl_state s)) ss \<longleftrightarrow> list_all resolved (map allowance_of ss)"
    and "list_all (\<lambda>s. sl_state s = ApiAccepted) ss \<longleftrightarrow> list_all accepted (map allowance_of ss)"
proof -
  let ?n = "set_outcome oc now (tr_slots r ! k)"
  have n: "allowance_of ?n = Some (q, Some (kind_of oc))"
    using k(2) by (simp add: allowance_of_def set_outcome_def)
  then show "map allowance_of ss = (map allowance_of (tr_slots r))[k := Some (q, Some (kind_of oc))]"
    by (simp add: ss map_update)
  have s: "is_terminal (sl_state s) = resolved (allowance_of s) \<and> (sl_state s = ApiAccepted) = accepted (allowance_of s)"
    if "s \<in> set ss" for s
  proof (cases "s = ?n")
    case True
    then show ?thesis using oc unfolding True n
      by (cases "so_state oc") (auto simp: set_outcome_def kind_of_def is_terminal_def)
  next
    case False
    then have "s \<in> set (tr_slots r)" using that set_update_subset_insert[of "tr_slots r" k ?n] by (auto simp: ss)
    then show ?thesis using slot_allowance(3,4)[OF v] by simp
  qed
  show "list_all (\<lambda>s. is_terminal (sl_state s)) ss \<longleftrightarrow> list_all resolved (map allowance_of ss)"
    "list_all (\<lambda>s. sl_state s = ApiAccepted) ss \<longleftrightarrow> list_all accepted (map allowance_of ss)"
    using s by (simp_all add: list_all_iff)
qed

lemma finalize_refines:
  assumes v: "verified X r" and op: "finalize_op X slot q oc now r = Inr (w, p)"
  shows "model_step (MA_Complete (slot_index slot (tr_slots r)) q (kind_of oc)) (model_of r) = Some (model_of p)"
proof -
  let ?k = "slot_index slot (tr_slots r)"
  let ?s = "tr_slots r ! ?k"
  from finalize_op_Inr[OF op] obtain s where f: "find_slot slot (tr_slots r) = Inr s" "sl_state s = Reserved"
    "sl_request_id s = Some q" "outcome_validate_for_action X oc (sl_action s) = Inr ()"
    and p: "p = r\<lparr>tr_slots := update_slot slot (set_outcome oc now) (tr_slots r),
        tr_state := final_state (tr_state r) (update_slot slot (set_outcome oc now) (tr_slots r))\<rparr>"
    unfolding find_slot_Inr by blast
  then have k: "?k < length (tr_slots r)" "s = ?s" by (simp_all add: find_slot_index Let_def split: if_splits)
  have u: "update_slot slot (set_outcome oc now) (tr_slots r) = (tr_slots r)[?k := set_outcome oc now ?s]"
    using k(1) by (simp add: update_slot_index Let_def)
  note c = completed_allowances[OF v k(1) _ outcome_for_action_terminal[OF f(4)] refl, of q now]
  have a: "allowance_of ?s = Some (q, None)" using slot_allowance(2)[OF v, of s] f(2,3) k by (auto simp: allowance_of_def)
  have "md_authority (model_of p) = (if tr_state r = TS_Running \<and> list_all resolved (map allowance_of (tr_slots p))
      then conclude (map allowance_of (tr_slots p)) else authority_of (tr_state r))"
    using c f(3) k(2) by (simp add: p u final_state_def conclude_def)
  then show ?thesis using c(1) f(3) k a
    by (simp add: holds_at_def Let_def p u model_of_def)
qed

lemma finalize_accepts:
  assumes v: "verified X r" and pr: "presentable X now (TC_Finalize slot q oc) r"
    and st: "model_step (MA_Complete (slot_index slot (tr_slots r)) q (kind_of oc)) (model_of r) \<noteq> None"
  shows "\<exists>w p. finalize_op X slot q oc now r = Inr (w, p)"
proof -
  let ?k = "slot_index slot (tr_slots r)"
  have k: "?k < length (tr_slots r)" "allowance_of (tr_slots r ! ?k) = Some (q, None)"
    using st by (auto simp: holds_at_def split: if_splits)
  then have s: "sl_state (tr_slots r ! ?k) = Reserved" "sl_request_id (tr_slots r ! ?k) = Some q"
    using slot_allowance(2)[OF v, of "tr_slots r ! ?k"] by (auto simp: allowance_of_def)
  obtain at where "sl_reserved_at (tr_slots r ! ?k) = Some at" using slot_allowance(5)[OF v _ s(1)] k(1) by auto
  then show ?thesis using k s pr
    by (simp add: finalize_op_alt find_slot_index Let_def is_ok_unit del: and_then_Inr)
qed

lemma interrupted_allowance:
  assumes v: "verified X r" and s: "s \<in> set (tr_slots r)"
    and g: "sl_state s = Reserved \<Longrightarrow> sl_state (g s) = Unknown \<and> sl_request_id (g s) = sl_request_id s
              \<and> sl_outcome (g s) = Some interrupted_outcome" "sl_state s \<noteq> Reserved \<Longrightarrow> g s = s"
  shows "allowance_of (g s) = interrupted (allowance_of s)"
    and "sl_state (g s) = ApiAccepted \<longleftrightarrow> accepted (interrupted (allowance_of s))"
proof -
  have "allowance_of (g s) = interrupted (allowance_of s)
      \<and> (sl_state (g s) = ApiAccepted \<longleftrightarrow> accepted (interrupted (allowance_of s)))"
  proof (cases "sl_state s = Reserved")
    case True
    then obtain q where q: "sl_request_id s = Some q" "allowance_of s = Some (q, None)"
      using slot_allowance(2)[OF v s] by blast
    have "allowance_of (g s) = Some (q, Some RK_Interrupted)"
      using g(1)[OF True] q(1) by (simp add: allowance_of_def kind_of_def interrupted_outcome_def)
    then show ?thesis using g(1)[OF True] q(2) by simp
  next
    case False
    then have "interrupted (allowance_of s) = allowance_of s"
      using slot_allowance(2)[OF v s]
      by (cases "allowance_of s" rule: interrupted.cases) (auto simp: allowance_of_def)
    then show ?thesis using g(2)[OF False] slot_allowance(4)[OF v s] by simp
  qed
  then show "allowance_of (g s) = interrupted (allowance_of s)"
    "sl_state (g s) = ApiAccepted \<longleftrightarrow> accepted (interrupted (allowance_of s))" by simp_all
qed

lemma finish_refines:
  assumes v: "verified X r"
  shows "case finish_op now r of
      Inr (w, p) \<Rightarrow> model_step MA_Finish (model_of r) = Some (model_of p)
    | Inl e \<Rightarrow> model_step MA_Finish (model_of r) = None"
proof -
  have s: "allowance_of (finish_slot now s) = interrupted (allowance_of s)"
    "sl_state (finish_slot now s) = ApiAccepted \<longleftrightarrow> accepted (interrupted (allowance_of s))"
    if "s \<in> set (tr_slots r)" for s
    by (rule interrupted_allowance[OF v that]; simp add: finish_slot_def)+
  have m: "map allowance_of (map (finish_slot now) (tr_slots r)) = map interrupted (map allowance_of (tr_slots r))"
    using s(1) by simp
  have a: "list_all (\<lambda>s. sl_state s = ApiAccepted) (map (finish_slot now) (tr_slots r))
      \<longleftrightarrow> list_all accepted (map interrupted (map allowance_of (tr_slots r)))"
    using s(2) by (simp add: list_all_iff)
  show ?thesis
  proof (cases "tr_state r = TS_Planned")
    case False
    let ?p = "r\<lparr>tr_slots := map (finish_slot now) (tr_slots r),
        tr_state := (if tr_state r = TS_Running
                     then if list_all (\<lambda>s. sl_state s = ApiAccepted) (map (finish_slot now) (tr_slots r))
                          then TS_Completed else TS_Partial
                     else tr_state r)\<rparr>"
    have "finish_op now r = Inr (?p, ?p)" using False by (simp add: finish_op_def Let_def)
    moreover have "model_step MA_Finish (model_of r) = Some (model_of ?p)"
      using False unfolding a by (simp add: Let_def conclude_def model_of_def s(1))
    ultimately show ?thesis by (simp only: sum.case prod.case)
  qed (simp add: finish_op_def)
qed

lemma recover_refines:
  assumes v: "verified X r"
  shows "model_step MA_Reopen (model_of r) = Some (model_of (case recover_record r of None \<Rightarrow> r | Some r' \<Rightarrow> r'))"
proof -
  have s: "allowance_of (interrupt_slot s) = interrupted (allowance_of s)" if "s \<in> set (tr_slots r)" for s
    by (rule interrupted_allowance[OF v that]; simp add: interrupt_slot_def)
  have m: "map allowance_of (map interrupt_slot (tr_slots r)) = map interrupted (map allowance_of (tr_slots r))"
    using s by simp
  have n: "map interrupt_slot (tr_slots r) = tr_slots r" if "\<not> list_ex (\<lambda>s. sl_state s = Reserved) (tr_slots r)"
    using that by (intro map_idI) (auto simp: list_ex_iff interrupt_slot_def)
  have "map interrupted (map allowance_of (tr_slots r)) = map allowance_of (tr_slots r)"
    if "\<not> list_ex (\<lambda>s. sl_state s = Reserved) (tr_slots r)" using m n[OF that] by simp
  then show ?thesis using s by (auto simp: recover_record_def model_of_def)
qed

text \<open>A finished slot is saved exactly when its evidence passes the checks of the record.\<close>

lemma finalize_saved:
  assumes v: "verified X r" and op: "finalize_op X slot q oc now r = Inr (w, p)"
    and q: "validate_request q = Inr ()" and ocv: "outcome_validate oc = Inr ()"
  shows "verified X p \<longleftrightarrow> presentable X now (TC_Finalize slot q oc) r"
proof -
  let ?k = "slot_index slot (tr_slots r)"
  let ?s = "tr_slots r ! ?k"
  let ?ss = "(tr_slots r)[?k := set_outcome oc now ?s]"
  from finalize_op_Inr[OF op] obtain s where f: "find_slot slot (tr_slots r) = Inr s" "sl_state s = Reserved"
    "(case sl_reserved_at s of Some at \<Rightarrow> at | None \<Rightarrow> tr_created_at r) \<le> now"
    "outcome_validate_for_action X oc (sl_action s) = Inr ()"
    and p0: "p = r\<lparr>tr_slots := update_slot slot (set_outcome oc now) (tr_slots r),
        tr_state := final_state (tr_state r) (update_slot slot (set_outcome oc now) (tr_slots r))\<rparr>"
    unfolding find_slot_Inr by blast
  then have k: "?k < length (tr_slots r)" "s = ?s" by (simp_all add: find_slot_index Let_def split: if_splits)
  then have p: "p = r\<lparr>tr_slots := ?ss, tr_state := final_state (tr_state r) ?ss\<rparr>"
    using p0 by (simp add: update_slot_index Let_def)
  obtain at where at: "sl_reserved_at ?s = Some at" using slot_allowance(5)[OF v _ f(2)] k by auto
  have pres: "presentable X now (TC_Finalize slot q oc) r
      \<longleftrightarrow> slot_receipt_check X r (set_outcome oc now ?s) = Inr () \<and> \<not> run_id_misplaced r (set_outcome oc now ?s)"
    using q ocv f(3,4) k(2) at by (simp add: Let_def is_ok_unit)
  have same: "slot_receipt_check X p = slot_receipt_check X r" "run_id_misplaced p = run_id_misplaced r"
    by (intro ext header_parts_cong; simp add: p record_identity_def approval_of_def)+
  have n: "set_outcome oc now ?s \<in> set (tr_slots p)" using k(1) by (simp add: p set_update_memI)
  show ?thesis
  proof
    assume "verified X p"
    then show "presentable X now (TC_Finalize slot q oc) r" using n same unfolding pres by (metis verified_iff)
  next
    assume pr: "presentable X now (TC_Finalize slot q oc) r"
    have ter: "is_terminal (so_state oc)" by (rule outcome_terminal[OF ocv])
    have st: "tr_state r \<notin> {TS_Planned, TS_Partial, TS_Completed}"
    proof -
      have "state_ok r" using v by (simp add: verified_iff)
      then show ?thesis using nth_mem[OF k(1)] f(2) k(2) by (auto simp: state_ok_def list_all_iff)
    qed
    have "slot_ok r ?k (set_outcome oc now ?s) (tm_actions (tr_manifest r) ! ?k)"
      using verified_slot[OF v k(1)] f(2,3) k(2) at ocv ter
      by (auto simp: slot_ok_def charged_slot_ok_def set_outcome_def is_terminal_def is_ok_unit split: option.splits)
    moreover have "state_ok (r\<lparr>tr_slots := ?ss, tr_state := final_state (tr_state r) ?ss\<rparr>)"
      using st by (cases "tr_state r")
        (auto simp: state_ok_def final_state_def list_all_iff is_terminal_def)
    moreover have "\<not> is_terminal (sl_state ?s)" using f(2) k(2) by (simp add: is_terminal_def)
    ultimately show "verified X p" unfolding p
    proof (intro verified_set_slots[OF v])
      fix i assume ok: "slot_ok r ?k (set_outcome oc now ?s) (tm_actions (tr_manifest r) ! ?k)"
        "\<not> is_terminal (sl_state ?s)"
      show "?ss ! i = tr_slots r ! i \<or> \<not> is_terminal (sl_state (tr_slots r ! i))
          \<and> slot_ok r i (?ss ! i) (tm_actions (tr_manifest r) ! i)
          \<and> slot_receipt_check X r (?ss ! i) = Inr () \<and> \<not> run_id_misplaced r (?ss ! i)"
        using ok pr k(1) unfolding pres by (cases "i = ?k") simp_all
    qed simp_all
  qed
qed

subsection \<open>Calls on the ledger\<close>

text \<open>A call on the ledger: whether it returned \<open>Ok\<close>, and the ledger after it.\<close>

definition outcome_of :: "('e + 'a) \<times> 's \<Rightarrow> bool \<times> 's" where
  "outcome_of res = (is_ok (fst res), snd res)"

fun invoke ::
  "('j, 'z) tsext_scheme \<Rightarrow> task_store_error option \<Rightarrow> 'j task_store \<Rightarrow> string \<Rightarrow> string \<Rightarrow> i64 \<Rightarrow> task_call
    \<Rightarrow> bool \<times> 'j task_store" where
  "invoke X io S i own now TC_Get = outcome_of (get X io S i own now)"
| "invoke X io S i own now TC_Claim = outcome_of (claim X io S i own now)"
| "invoke X io S i own now (TC_Approve d mode w) = outcome_of (approve_with_receipt X io S i own d mode now w)"
| "invoke X io S i own now (TC_Reserve slot q) = outcome_of (reserve_slot X io S i own slot q now)"
| "invoke X io S i own now (TC_Dispatch slot q) = outcome_of (authorize_dispatch X io S i own slot q now)"
| "invoke X io S i own now (TC_Finalize slot q oc) = outcome_of (finalize_slot X io S i own slot q oc now)"
| "invoke X io S i own now TC_Finish = outcome_of (finish_run X io S i own now)"
| "invoke X io S i own now TC_Revoke = outcome_of (revoke X io S i own now)"

text \<open>The ledger seen through the abstraction.\<close>

definition models :: "('j, 'z) tsext_scheme \<Rightarrow> 'j task_store \<Rightarrow> string \<Rightarrow> task_model option" where
  "models X S i = map_option model_of (stored X S i)"

text \<open>What one transaction leaves of a verified ledger, whatever its operation does.\<close>

lemma mutate_stored:
  assumes ok: "ledger_ok X S" and a: "admit X io S i own now = Inr r"
    and le: "\<And>v p. operation (fst (refresh_expiry r now)) = Inr (v, p) \<Longrightarrow> record_le (fst (refresh_expiry r now)) p"
  shows "case operation (fst (refresh_expiry r now)) of
      Inr (v, p) \<Rightarrow>
        (if verified X p
         then \<exists>S'. mutate X io S i own now operation = (Inr v, S') \<and> stored X S' = (stored X S)(i \<mapsto> p)
         else \<exists>e. mutate X io S i own now operation = (Inl e, S))
    | Inl e \<Rightarrow> \<exists>S'. mutate X io S i own now operation = (Inl e, S')
               \<and> stored X S' = (stored X S)(i \<mapsto> fst (refresh_expiry r now))"
proof -
  let ?b = "fst (refresh_expiry r now)"
  have serde: "serde_roundtrip X" and so: "store_ok X S" using ok by (simp_all add: ledger_ok_def)
  note ad = admit_Inr[OF so a]
  have t: "tr_tenant r = ts_tenant S" by (rule stored_ok(2)[OF so ad(1)])
  have vb: "verified X ?b" by (rule refresh_expiry_verified[OF ad(2)])
  have save: "\<exists>rows. save_record X (ts_rows S) p = Inr rows \<and> stored X (S\<lparr>ts_rows := rows\<rparr>) = (stored X S)(i \<mapsto> p)"
    if le': "record_le ?b p" and vp: "verified X p" for p
  proof -
    have rl: "record_le r p" using refresh_expiry_le le' record_le_trans by blast
    have i: "tr_id p = i" "tr_tenant p = ts_tenant S" using record_le_id[OF rl] ad(4) t by simp_all
    then obtain rows where rows: "save_record X (ts_rows S) p = Inr rows"
      using save_succeeds[OF so _ rl vp] ad(1) by auto
    show ?thesis using save_record_ok(2,3)[OF serde so i(2) rows] rows i(1) by (auto simp: fun_eq_iff)
  qed
  show ?thesis
  proof (cases "operation ?b")
    case (Inl e)
    then show ?thesis using save[OF _ vb] by (auto simp: mutate_def a)
  next
    case (Inr vp)
    obtain v p where vp: "vp = (v, p)" by (cases vp)
    show ?thesis
    proof (cases "verified X p")
      case True
      then show ?thesis using save[OF le[OF Inr[unfolded vp]] True] Inr vp by (auto simp: mutate_def a)
    next
      case False
      then show ?thesis using Inr vp by (auto simp: mutate_def a save_record_def verify_record_def)
    qed
  qed
qed

text \<open>A call implements its step: it returns \<open>Ok\<close> exactly if it is presentable and the model, observed at the time
  of the call, takes the step, and then the ledger holds the task after the step; otherwise the task is unchanged but
  for its deadline, and no other task is touched.\<close>

definition implements ::
  "('j, 'z) tsext_scheme \<Rightarrow> 'j task_store \<Rightarrow> string \<Rightarrow> i64 \<Rightarrow> bool \<Rightarrow> model_action \<Rightarrow> bool \<times> 'j task_store \<Rightarrow> bool" where
  "implements X S i now pres a res \<longleftrightarrow>
     (\<exists>m m'. models X S i = Some m \<and> models X (snd res) i = Some m'
        \<and> (fst res \<longleftrightarrow> pres \<and> model_step a (observe now m) \<noteq> None)
        \<and> Some (observe now m') = (if fst res then model_step a (observe now m) else Some (observe now m)))
     \<and> (\<forall>j. j \<noteq> i \<longrightarrow> models X (snd res) j = models X S j)"

lemma mutate_implements:
  assumes ok: "ledger_ok X S" and a: "admit X io S i own now = Inr r"
    and op: "case operation (fst (refresh_expiry r now)) of
        Inr (v, p) \<Rightarrow> record_le (fst (refresh_expiry r now)) p \<and> (verified X p \<longleftrightarrow> pres)
          \<and> model_step act (model_of (fst (refresh_expiry r now))) = Some (model_of p)
      | Inl e \<Rightarrow> \<not> pres \<or> model_step act (model_of (fst (refresh_expiry r now))) = None"
  shows "implements X S i now pres act (outcome_of (mutate X io S i own now operation))"
proof -
  let ?b = "fst (refresh_expiry r now)"
  have so: "store_ok X S" using ok by (simp add: ledger_ok_def)
  have m: "stored X S i = Some r" by (rule admit_Inr(1)[OF so a])
  have le: "record_le ?b p" if "operation ?b = Inr (v, p)" for v p using op that by simp
  have st: "case operation ?b of
      Inr (v, p) \<Rightarrow>
        (if verified X p
         then \<exists>S'. mutate X io S i own now operation = (Inr v, S') \<and> stored X S' = (stored X S)(i \<mapsto> p)
         else \<exists>e. mutate X io S i own now operation = (Inl e, S))
    | Inl e \<Rightarrow> \<exists>S'. mutate X io S i own now operation = (Inl e, S') \<and> stored X S' = (stored X S)(i \<mapsto> ?b)"
    by (rule mutate_stored[OF ok a le])
  note b = refresh_refines[of r now]
  show ?thesis
  proof (cases "operation ?b")
    case (Inl e)
    then obtain S' where S': "mutate X io S i own now operation = (Inl e, S')"
      "stored X S' = (stored X S)(i \<mapsto> ?b)" using st by auto
    then show ?thesis using op Inl m b by (simp add: implements_def outcome_of_def models_def)
  next
    case (Inr vp)
    obtain v p where vp: "vp = (v, p)" by (cases vp)
    have step: "model_step act (observe now (model_of r)) = Some (model_of p)" "verified X p \<longleftrightarrow> pres"
      using op Inr vp b by simp_all
    show ?thesis
    proof (cases "verified X p")
      case True
      then obtain S' where S': "mutate X io S i own now operation = (Inr v, S')"
        "stored X S' = (stored X S)(i \<mapsto> p)" using st Inr vp by auto
      then show ?thesis using step m True observe_step[OF step(1)]
        by (simp add: implements_def outcome_of_def models_def)
    next
      case False
      then obtain e where "mutate X io S i own now operation = (Inl e, S)" using st Inr vp by auto
      then show ?thesis using step m False by (simp add: implements_def outcome_of_def models_def)
    qed
  qed
qed

lemma refused_implements:
  assumes "store_ok X S" "admit X io S i own now = Inr r"
  shows "implements X S i now False act (False, S)"
  using admit_Inr(1)[OF assms] by (simp add: implements_def models_def)

lemma presentable_refresh:
  "presentable X now c (fst (refresh_expiry r now')) = presentable X now c r"
  "action_of (fst (refresh_expiry r now')) c = action_of r c"
proof -
  let ?r = "r\<lparr>tr_state := TS_Expired\<rparr>"
  have same: "slot_receipt_check X ?r = slot_receipt_check X r" "run_id_misplaced ?r = run_id_misplaced r"
    by (intro ext header_parts_cong; simp add: record_identity_def approval_of_def)+
  have "presentable X now c ?r = presentable X now c r"
    by (cases c) (simp_all add: receipt_ref_def Let_def same cong: option.case_cong)
  moreover have "action_of ?r c = action_of r c" by (cases c) simp_all
  ultimately show "presentable X now c (fst (refresh_expiry r now')) = presentable X now c r"
    "action_of (fst (refresh_expiry r now')) c = action_of r c" by (simp_all add: refresh_expiry_def)
qed

lemma finalize_implements:
  assumes ok: "ledger_ok X S" and a: "admit X io S i own now = Inr r"
  shows "implements X S i now (presentable X now (TC_Finalize slot q oc) r) (action_of r (TC_Finalize slot q oc))
      (invoke X io S i own now (TC_Finalize slot q oc))"
proof (cases "validate_request q = Inr () \<and> outcome_validate oc = Inr ()")
  case True
  let ?c = "TC_Finalize slot q oc" and ?b = "fst (refresh_expiry r now)"
  have v: "verified X ?b" using ok a by (auto simp: ledger_ok_def intro: refresh_expiry_verified admit_Inr(2))
  have pb: "presentable X now ?c ?b = presentable X now ?c r" "action_of ?b ?c = action_of r ?c"
    by (rule presentable_refresh)+
  have inv: "invoke X io S i own now ?c = outcome_of (mutate X io S i own now (finalize_op X slot q oc now))"
    using True by (simp add: finalize_slot_def)
  show ?thesis unfolding inv
  proof (rule mutate_implements[OF ok a], cases "finalize_op X slot q oc now ?b")
    case (Inl e)
    then show "case finalize_op X slot q oc now ?b of
        Inr (v, p) \<Rightarrow> record_le ?b p \<and> (verified X p \<longleftrightarrow> presentable X now ?c r)
          \<and> model_step (action_of r ?c) (model_of ?b) = Some (model_of p)
      | Inl e \<Rightarrow> \<not> presentable X now ?c r \<or> model_step (action_of r ?c) (model_of ?b) = None"
      using finalize_accepts[OF v, of now slot q oc] pb by fastforce
  next
    case (Inr vp)
    obtain w p where vp: "vp = (w, p)" by (cases vp)
    note op = Inr[unfolded vp]
    have "model_step (action_of r ?c) (model_of ?b) = Some (model_of p)"
      using finalize_refines[OF v op] pb(2) by (simp only: action_of.simps)
    moreover have "verified X p \<longleftrightarrow> presentable X now ?c r" using finalize_saved[OF v op] True pb(1) by blast
    ultimately show "case finalize_op X slot q oc now ?b of
        Inr (v, p) \<Rightarrow> record_le ?b p \<and> (verified X p \<longleftrightarrow> presentable X now ?c r)
          \<and> model_step (action_of r ?c) (model_of ?b) = Some (model_of p)
      | Inl e \<Rightarrow> \<not> presentable X now ?c r \<or> model_step (action_of r ?c) (model_of ?b) = None"
      using finalize_op_le[OF op] unfolding op sum.case prod.case by blast
  qed
next
  case False
  have so: "store_ok X S" using ok by (simp add: ledger_ok_def)
  have "invoke X io S i own now (TC_Finalize slot q oc) = (False, S)"
    using False by (cases "validate_request q"; cases "outcome_validate oc")
      (simp_all add: finalize_slot_def outcome_of_def del: and_then_Inr)
  moreover have "presentable X now (TC_Finalize slot q oc) r = False"
    using False by (auto simp: Let_def is_ok_unit)
  ultimately show ?thesis using refused_implements[OF so a] by (simp only:)
qed

text \<open>Reservations and dispatches are presented with a request identifier, which is checked first.\<close>

lemma request_implements:
  assumes ok: "ledger_ok X S" and a: "admit X io S i own now = Inr r"
    and inv: "res = (case validate_request q of Inl e \<Rightarrow> (Inl e, S) | Inr _ \<Rightarrow> mutate X io S i own now operation)"
    and c: "\<not> is_ok (validate_request q) \<Longrightarrow> \<not> presentable X now c r"
    and op: "validate_request q = Inr () \<Longrightarrow> case operation (fst (refresh_expiry r now)) of
        Inr (v, p) \<Rightarrow> record_le (fst (refresh_expiry r now)) p \<and> verified X p
          \<and> presentable X now c (fst (refresh_expiry r now))
          \<and> model_step (action_of (fst (refresh_expiry r now)) c) (model_of (fst (refresh_expiry r now))) = Some (model_of p)
      | Inl e \<Rightarrow> \<not> presentable X now c (fst (refresh_expiry r now))
          \<or> model_step (action_of (fst (refresh_expiry r now)) c) (model_of (fst (refresh_expiry r now))) = None"
  shows "implements X S i now (presentable X now c r) (action_of r c) (outcome_of res)"
proof (cases "validate_request q")
  case (Inr u)
  then have "case operation (fst (refresh_expiry r now)) of
      Inr (v, p) \<Rightarrow> record_le (fst (refresh_expiry r now)) p \<and> (verified X p \<longleftrightarrow> presentable X now c r)
        \<and> model_step (action_of r c) (model_of (fst (refresh_expiry r now))) = Some (model_of p)
    | Inl e \<Rightarrow> \<not> presentable X now c r \<or> model_step (action_of r c) (model_of (fst (refresh_expiry r now))) = None"
    using op unfolding presentable_refresh by (auto split: sum.splits)
  then show ?thesis using mutate_implements[OF ok a] inv Inr by simp
next
  case (Inl e)
  have so: "store_ok X S" using ok by (simp add: ledger_ok_def)
  show ?thesis using Inl inv c refused_implements[OF so a] by (simp add: outcome_of_def)
qed

lemma live_refresh: "tr_state (fst (refresh_expiry r now)) = TS_Running \<Longrightarrow> now < tr_expires_at (fst (refresh_expiry r now))"
  by (auto simp: refresh_expiry_def split: if_splits)

lemma op_Inr_verified:
  assumes v: "verified X (fst (refresh_expiry r now))" and sha: "\<And>v. length (sha256_bytes X v) = 32"
  shows "approve_op X d mode now w (fst (refresh_expiry r now)) = Inr (u, p) \<Longrightarrow> verified X p"
    and "validate_request q = Inr () \<Longrightarrow> reserve_op slot q now (fst (refresh_expiry r now)) = Inr (s, p) \<Longrightarrow> verified X p"
proof -
  show "verified X p" if op: "approve_op X d mode now w (fst (refresh_expiry r now)) = Inr (u, p)"
  proof -
    have "tr_state (fst (refresh_expiry r now)) = TS_Running" using op by (auto simp: approve_op_def split: if_splits)
    then show ?thesis by (rule approve_op_verified[OF v op live_refresh sha])
  qed
  show "verified X p" if q: "validate_request q = Inr ()" and op: "reserve_op slot q now (fst (refresh_expiry r now)) = Inr (s, p)"
  proof -
    have "tr_state (fst (refresh_expiry r now)) = TS_Running" using op by (simp add: reserve_op_Inr)
    then show ?thesis by (rule reserve_op_verified[OF v op live_refresh q])
  qed
qed

lemma approve_implements:
  assumes ok: "ledger_ok X S" and a: "admit X io S i own now = Inr r" and sha: "\<And>v. length (sha256_bytes X v) = 32"
  shows "implements X S i now (presentable X now (TC_Approve d mode w) r) MA_Approve
      (invoke X io S i own now (TC_Approve d mode w))"
proof -
  let ?b = "fst (refresh_expiry r now)"
  have v: "verified X ?b" using ok a by (auto simp: ledger_ok_def intro: refresh_expiry_verified admit_Inr(2))
  show ?thesis unfolding invoke.simps approve_with_receipt_def
    using approve_refines[where X = X and d = d and mode = mode and now = now and w = w and r = ?b]
    unfolding presentable_refresh
    by (intro mutate_implements[OF ok a])
      (auto split: sum.splits intro: approve_op_le op_Inr_verified(1)[OF v sha] simp del: presentable.simps model_step.simps)
qed

lemma reserve_implements:
  assumes ok: "ledger_ok X S" and a: "admit X io S i own now = Inr r" and sha: "\<And>v. length (sha256_bytes X v) = 32"
  shows "implements X S i now (presentable X now (TC_Reserve slot q) r) (action_of r (TC_Reserve slot q))
      (invoke X io S i own now (TC_Reserve slot q))"
  unfolding invoke.simps
proof (rule request_implements[OF ok a reserve_slot_def])
  let ?b = "fst (refresh_expiry r now)"
  have v: "verified X ?b" using ok a by (auto simp: ledger_ok_def intro: refresh_expiry_verified admit_Inr(2))
  assume q: "validate_request q = Inr ()"
  show "case reserve_op slot q now ?b of
      Inr (s, p) \<Rightarrow> record_le ?b p \<and> verified X p \<and> presentable X now (TC_Reserve slot q) ?b
        \<and> model_step (action_of ?b (TC_Reserve slot q)) (model_of ?b) = Some (model_of p)
    | Inl e \<Rightarrow> \<not> presentable X now (TC_Reserve slot q) ?b
        \<or> model_step (action_of ?b (TC_Reserve slot q)) (model_of ?b) = None"
    using reserve_refines[OF v q, where slot = slot and now = now] unfolding action_of.simps
    by (auto split: sum.splits intro: reserve_op_le op_Inr_verified(2)[OF v sha q]
        simp del: presentable.simps model_step.simps)
qed simp

lemma dispatch_implements:
  assumes ok: "ledger_ok X S" and a: "admit X io S i own now = Inr r"
  shows "implements X S i now (presentable X now (TC_Dispatch slot q) r) (action_of r (TC_Dispatch slot q))
      (invoke X io S i own now (TC_Dispatch slot q))"
  unfolding invoke.simps
proof (rule request_implements[OF ok a authorize_dispatch_def])
  let ?b = "fst (refresh_expiry r now)"
  have v: "verified X ?b" using ok a by (auto simp: ledger_ok_def intro: refresh_expiry_verified admit_Inr(2))
  assume q: "validate_request q = Inr ()"
  show "case dispatch_op slot q now ?b of
      Inr (s, p) \<Rightarrow> record_le ?b p \<and> verified X p \<and> presentable X now (TC_Dispatch slot q) ?b
        \<and> model_step (action_of ?b (TC_Dispatch slot q)) (model_of ?b) = Some (model_of p)
    | Inl e \<Rightarrow> \<not> presentable X now (TC_Dispatch slot q) ?b
        \<or> model_step (action_of ?b (TC_Dispatch slot q)) (model_of ?b) = None"
    using dispatch_refines[OF v q, where slot = slot and now = now] unfolding action_of.simps
    by (auto split: sum.splits intro: dispatch_op_le dispatch_op_verified[OF v]
        simp del: presentable.simps model_step.simps)
qed simp

text \<open>C7: The task ledger implements the authority model.  For a caller the ledger admits, every call of the lifecycle
  (read, claim, approve, reserve, authorize, finalize, finish, revoke) returns \<open>Ok\<close> exactly if its arguments are
  presentable and the model of the task, observed at the time of the call, takes the corresponding step; the ledger
  then holds the task after that step, a refused call changes nothing but an elapsed deadline, and no other task is
  touched (a SHA-256 digest has 32 bytes).\<close>

theorem task_ledger_refines_model:
  assumes ok: "ledger_ok X S" and sha: "\<And>v. length (sha256_bytes X v) = 32"
    and a: "admit X io S i own now = Inr r"
  shows "implements X S i now (presentable X now c r) (action_of r c) (invoke X io S i own now c)"
proof -
  let ?b = "fst (refresh_expiry r now)"
  have v: "verified X ?b" using ok a by (auto simp: ledger_ok_def intro: refresh_expiry_verified admit_Inr(2))
  note m = mutate_implements[OF ok a]
  show ?thesis
  proof (cases c)
    case TC_Get
    show ?thesis unfolding TC_Get invoke.simps get_def by (rule m) (use v in \<open>simp add: read_op_def\<close>)
  next
    case TC_Claim
    have "case claim_op ?b of
        Inr (w, p) \<Rightarrow> model_step MA_Claim (model_of ?b) = Some (model_of p)
      | Inl e \<Rightarrow> model_step MA_Claim (model_of ?b) = None"
      by (cases "tr_state ?b") (simp_all add: claim_op_def check_active_def Let_def model_of_def del: and_then_Inr)
    then show ?thesis unfolding TC_Claim invoke.simps claim_def
      by (intro m) (auto split: sum.splits intro: claim_op_le claim_op_verified[OF v] simp del: model_step.simps)
  next
    case TC_Finish
    show ?thesis unfolding TC_Finish invoke.simps finish_run_def using finish_refines[OF v, of now]
      by (intro m) (auto split: sum.splits intro: finish_op_le finish_op_verified[OF v] simp del: model_step.simps)
  next
    case TC_Revoke
    have "case revoke_op ?b of
        Inr (w, p) \<Rightarrow> model_step MA_Revoke (model_of ?b) = Some (model_of p)
      | Inl e \<Rightarrow> model_step MA_Revoke (model_of ?b) = None"
      by (simp add: revoke_op_def Let_def model_of_def)
    then show ?thesis unfolding TC_Revoke invoke.simps revoke_def
      by (intro m) (auto split: sum.splits intro: revoke_op_le revoke_op_verified[OF v] simp del: model_step.simps)
  qed (use approve_implements[OF ok a sha] reserve_implements[OF ok a sha] dispatch_implements[OF ok a]
      finalize_implements[OF ok a] in \<open>simp_all only: action_of.simps(3)\<close>)
qed

lemma demo_admit: "admit demo_tsext None demo_store ''5'' ''o1'' 200 = Inr demo_record"
  using demo_record_verified
  by (simp add: admit_def demo_store_def load_record_def decode_row_def verify_record_def validate_owner_def
      validate_owner_boundary_def validate_now_def verify_tenant_def)
    (simp add: demo_record_def new_record_def)

theorem task_ledger_refines_model_witness:
  "\<exists>S'. invoke demo_tsext None demo_store ''5'' ''o1'' 200 (TC_Reserve ''5:01'' ''q1'') = (True, S')
     \<and> (\<exists>m. models demo_tsext S' ''5'' = Some m \<and> md_authority (observe 200 m) = Claimed
           \<and> md_allowances (observe 200 m) = [Some (''q1'', None)])"
proof -
  let ?c = "TC_Reserve ''5:01'' ''q1''"
  let ?res = "invoke demo_tsext None demo_store ''5'' ''o1'' 200 ?c"
  have m: "models demo_tsext demo_store ''5'' = Some (model_of demo_record)" by (simp add: models_def demo_stored)
  have "implements demo_tsext demo_store ''5'' 200 (presentable demo_tsext 200 ?c demo_record) (action_of demo_record ?c) ?res"
    by (rule task_ledger_refines_model[OF demo_store_ok _ demo_admit]) simp
  moreover have "presentable demo_tsext 200 ?c demo_record"
    by (simp add: demo_record_def new_record_def validate_request_def ascii_defs is_ok_unit)
  moreover have "model_step (action_of demo_record ?c) (observe 200 (model_of demo_record))
      = Some ((model_of demo_record)\<lparr>md_allowances := [Some (''q1'', None)]\<rparr>)"
    by (simp add: observe_def holds_at_def demo_record_slots allowance_of_def new_slot_def demo_slot_id)
      (simp add: demo_record_def new_record_def)
  ultimately show ?thesis using m
    by (cases ?res) (auto simp: implements_def demo_record_def new_record_def)
qed

text \<open>C8: A restart implements the model's restart on every task at once: a healthy ledger file opens, every request
  that was in flight becomes an interrupted result, every claimed authority is closed, and nothing else changes; no
  allowance is ever given back.\<close>

theorem restart_refines_model:
  assumes ok: "ledger_ok X S" and m: "healthy_meta meta"
  shows "\<exists>S'. open_for_tenant X None meta (ts_tenant S) (ts_rows S) = Inr S'
     \<and> models X S' = (\<lambda>i. Option.bind (models X S i) (model_step MA_Reopen))"
proof -
  have serde: "serde_roundtrip X" and so: "store_ok X S" using ok by (simp_all add: ledger_ok_def)
  obtain S' where S': "open_for_tenant X None meta (ts_tenant S) (ts_rows S) = Inr S'" "advances X S S'"
    and st: "\<And>i. stored X S' i = map_option (\<lambda>r. case recover_record r of None \<Rightarrow> r | Some r' \<Rightarrow> r') (stored X S i)"
    by (rule open_exact[OF serde so m]) blast
  have "models X S' i = Option.bind (models X S i) (model_step MA_Reopen)" for i
  proof (cases "stored X S i")
    case (Some r)
    then show ?thesis using recover_refines[OF stored_ok(1)[OF so Some]] st[of i] by (simp add: models_def)
  qed (simp add: models_def st)
  then show ?thesis using S'(1) by blast
qed

theorem restart_refines_model_witness:
  "\<exists>S'. open_for_tenant demo_tsext None demo_meta (ts_tenant demo_store) (ts_rows demo_store) = Inr S'
     \<and> (\<exists>m. models demo_tsext S' ''5'' = Some m \<and> md_authority m = Closed)"
proof -
  have h: "healthy_meta demo_meta" by (simp add: healthy_meta_def demo_meta_def)
  have "models demo_tsext demo_store ''5'' = Some (model_of demo_record)" by (simp add: models_def demo_stored)
  moreover have "tr_state demo_record = TS_Running" by (simp add: demo_record_def new_record_def)
  ultimately show ?thesis using restart_refines_model[OF demo_store_ok h] by auto
qed

subsection \<open>What calls return\<close>

text \<open>A returned record is well-formed, belongs to the caller, and is the one the ledger now holds.\<close>

definition returns_stored ::
  "('j, 'z) tsext_scheme \<Rightarrow> string \<Rightarrow> string \<Rightarrow> (task_store_error + task_record) \<times> 'j task_store \<Rightarrow> bool" where
  "returns_stored X i own res \<longleftrightarrow>
     (\<forall>r. fst res = Inr r \<longrightarrow> verified X r \<and> tr_id r = i \<and> tr_owner_key r = own
        \<and> tr_tenant r = ts_tenant (snd res) \<and> stored X (snd res) i = Some r)"

lemma mutate_returns:
  assumes ok: "ledger_ok X S" and same: "\<And>r v p. operation r = Inr (v, p) \<Longrightarrow> v = p \<and> record_le r p"
  shows "returns_stored X i own (mutate X io S i own now operation)"
proof -
  have serde: "serde_roundtrip X" and so: "store_ok X S" using ok by (simp_all add: ledger_ok_def)
  obtain res S' where e: "mutate X io S i own now operation = (res, S')" by (cases "mutate X io S i own now operation")
  from e have "returns_stored X i own (res, S')"
  proof (cases rule: mutate_cases)
    case (applied r v p rows)
    have sr: "stored X S i = Some r" using applied(1) by (simp add: stored_def)
    have "record_le r p" using same[OF applied(6)] refresh_expiry_le record_le_trans by blast
    then have p: "tr_id p = i" "tr_owner_key p = own" "tr_tenant p = ts_tenant S"
      using record_le_id[of r p] stored_ok[OF so sr] applied(3) by simp_all
    moreover have "verified X p" using applied(7) by (simp add: save_record_Inr)
    ultimately show ?thesis
      using save_record_ok(2)[OF serde so p(3) applied(7)] applied(8,9) same[OF applied(6)] by (simp add: returns_stored_def)
  qed (simp_all add: returns_stored_def)
  then show ?thesis by (simp only: e)
qed

lemma create_returns:
  assumes ok: "ledger_ok X S"
  shows "returns_stored X (uuid_to_string X u) own (create X io S own m now u)"
proof -
  have serde: "serde_roundtrip X" and so: "store_ok X S" using ok by (simp_all add: ledger_ok_def)
  have adv: "store_ok X (snd (create X io S own m now u))"
    using create_advances[OF serde so, of io own m now u]
    by (cases "create X io S own m now u") (simp add: advances_def)
  show ?thesis unfolding returns_stored_def
  proof (intro allI impI)
    fix r assume r: "fst (create X io S own m now u) = Inr r"
    then have c: "verified X r" "tr_tenant r = ts_tenant S" "tr_id r = uuid_to_string X u" "tr_owner_key r = own"
      and rows: "snd (create X io S own m now u) = S\<lparr>ts_rows := ts_rows S @ [(tr_id r, tr_owner_key r, to_json X r)]\<rparr>"
      by (auto simp: create_def Let_def verify_record_def verify_tenant_def new_record_def split: sum.splits if_splits)
    have "decode_row X (tr_id r, tr_owner_key r, to_json X r) = Inr r"
      using serde c(1) by (simp add: decode_row_Inr serde_roundtrip_def)
    then have "stored X (snd (create X io S own m now u)) (tr_id r) = Some r"
      using adv by (subst stored_Some) (auto simp: store_ok_def rows)
    then show "verified X r \<and> tr_id r = uuid_to_string X u \<and> tr_owner_key r = own
        \<and> tr_tenant r = ts_tenant (snd (create X io S own m now u))
        \<and> stored X (snd (create X io S own m now u)) (uuid_to_string X u) = Some r"
      using c rows by simp
  qed
qed



end
