(* ===== verification/Custody.thy ===== *)
theory Custody
  imports Identity
begin

text \<open>
  Trust-domain custody: \<open>opaque-core/src/trust_domain.rs\<close> and the startup check of \<open>opaqued/src/trust_domain.rs\<close>.
  The broker refuses to start in an enforced trust domain unless every custody file that exists is exclusively its
  own.  The file system is a parameter: a state \<open>'w\<close> with \<open>lstat\<close> and \<open>chmod\<close>.
\<close>

unbundle bit_operations_syntax

subsection \<open>Paths of the standard library\<close>

text \<open>\<open>PathBuf::push\<close> on Unix: an absolute argument replaces the path, otherwise a separator is added unless the path
  is empty or already ends in one, even if the argument is empty.\<close>

definition is_absolute :: "string \<Rightarrow> bool" where
  "is_absolute p = starts_with ''/'' p"

definition path_join :: "string \<Rightarrow> string \<Rightarrow> string" where
  "path_join p q =
     (if is_absolute q then q
      else if p = [] \<or> last p = CHR ''/'' then p @ q
      else p @ ''/'' @ q)"

text \<open>\<open>Path::components\<close>: the root, then the parts between separators without empty parts and without \<open>.\<close>, except
  that a leading \<open>.\<close> of a relative path is kept.\<close>

definition kept_part :: "string \<Rightarrow> bool" where
  "kept_part c = (c \<noteq> [] \<and> c \<noteq> ''.'')"

definition path_components :: "string \<Rightarrow> string list" where
  "path_components p =
     (let parts = split_on CHR ''/'' p
      in if is_absolute p then ''/'' # filter kept_part parts
         else (if hd parts = ''.'' then [''.''] else []) @ filter kept_part parts)"

definition path_of_components :: "string list \<Rightarrow> string" where
  "path_of_components cs =
     (case cs of
        [] \<Rightarrow> []
      | c # rest \<Rightarrow> if c = ''/'' then ''/'' @ join_str ''/'' rest else join_str ''/'' cs)"

text \<open>\<open>Path::parent\<close> and \<open>Path::strip_prefix\<close>, up to repeated separators in what remains.\<close>

definition path_parent :: "string \<Rightarrow> string option" where
  "path_parent p =
     (let cs = path_components p
      in if cs = [] \<or> cs = [''/''] then None else Some (path_of_components (butlast cs)))"

fun strip_components :: "string list \<Rightarrow> string list \<Rightarrow> string list option" where
  "strip_components cs [] = Some cs"
| "strip_components (c # cs) (b # base) = (if c = b then strip_components cs base else None)"
| "strip_components [] (b # base) = None"

definition path_strip_prefix :: "string \<Rightarrow> string \<Rightarrow> string option" where
  "path_strip_prefix p base =
     map_option path_of_components (strip_components (path_components p) (path_components base))"

definition path_eq :: "string \<Rightarrow> string \<Rightarrow> bool" where
  "path_eq p q = (path_components p = path_components q)"

subsection \<open>Custody paths and what is observed of them\<close>

datatype path_kind = PK_File | PK_Dir

record custody_path =
  cy_path :: string
  cy_kind :: path_kind
  cy_label :: string

record file_facts =
  ff_uid :: u32
  ff_mode :: u32
  ff_is_symlink :: bool
  ff_is_dir :: bool

text \<open>What \<open>lstat\<close> answers: metadata, \<open>NotFound\<close>, or another error.\<close>

datatype lstat_result = LS_Meta file_facts | LS_NotFound | LS_Error string

record 'w fsext =
  lstat :: "'w \<Rightarrow> string \<Rightarrow> lstat_result"
  set_permissions :: "'w \<Rightarrow> string \<Rightarrow> u32 \<Rightarrow> 'w option"

definition system_facts :: "('w, 'z) fsext_scheme \<Rightarrow> 'w \<Rightarrow> string \<Rightarrow> string + file_facts option" where
  "system_facts F w p =
     (case lstat F w p of
        LS_Meta meta \<Rightarrow> Inr (Some (meta\<lparr>ff_mode := ff_mode meta AND 0xFFF\<rparr>))
      | LS_NotFound \<Rightarrow> Inr None
      | LS_Error e \<Rightarrow> Inl e)"

datatype custody_violation =
    ForeignOwner string string u32 u32
  | TooPermissive string string u32 u32
  | Symlink string string
  | WrongKind string string
  | Unreadable string string string

fun allowed_bits :: "path_kind \<Rightarrow> u32" where
  "allowed_bits PK_File = 0x180"
| "allowed_bits PK_Dir = 0x1C0"

definition check_item ::
  "u32 \<Rightarrow> (string \<Rightarrow> string + file_facts option) \<Rightarrow> custody_path \<Rightarrow> custody_violation list" where
  "check_item daemon_uid facts item =
     (case facts (cy_path item) of
        Inr None \<Rightarrow> []
      | Inl e \<Rightarrow> [Unreadable (cy_label item) (cy_path item) e]
      | Inr (Some f) \<Rightarrow>
          if ff_is_symlink f then [Symlink (cy_label item) (cy_path item)]
          else if ff_is_dir f \<noteq> (cy_kind item = PK_Dir) then [WrongKind (cy_label item) (cy_path item)]
          else (if ff_uid f \<noteq> daemon_uid
                then [ForeignOwner (cy_label item) (cy_path item) (ff_uid f) daemon_uid] else [])
               @ (let allowed = allowed_bits (cy_kind item)
                  in if ff_mode f AND NOT allowed \<noteq> 0
                     then [TooPermissive (cy_label item) (cy_path item) (ff_mode f) allowed] else []))"

fun verify_custody ::
  "custody_path list \<Rightarrow> u32 \<Rightarrow> (string \<Rightarrow> string + file_facts option) \<Rightarrow> custody_violation list" where
  "verify_custody [] daemon_uid facts = []"
| "verify_custody (item # items) daemon_uid facts =
     check_item daemon_uid facts item @ verify_custody items daemon_uid facts"

subsection \<open>The custody set\<close>

definition seal_key_path :: "string \<Rightarrow> string" where
  "seal_key_path seal_file = seal_file @ ''.key''"

definition custody_dir :: "string \<Rightarrow> string \<Rightarrow> custody_path" where
  "custody_dir p l = \<lparr>cy_path = p, cy_kind = PK_Dir, cy_label = l\<rparr>"

definition custody_file :: "string \<Rightarrow> string \<Rightarrow> custody_path" where
  "custody_file p l = \<lparr>cy_path = p, cy_kind = PK_File, cy_label = l\<rparr>"

definition default_custody_set :: "string \<Rightarrow> string \<Rightarrow> custody_path list" where
  "default_custody_set home config_path =
     (let state = path_join home ''.opaque'';
          seal = path_join (case path_parent config_path of Some p \<Rightarrow> p | None \<Rightarrow> ''.'') ''config.seal'';
          pairing = path_join (path_join home ''.config'') ''opaque''
      in [custody_dir state ''state directory'',
          custody_file config_path ''daemon config'',
          custody_file (seal_key_path seal) ''config seal key'',
          custody_file seal ''config seal'',
          custody_file (path_join state ''audit.db'') ''audit database'',
          custody_file (path_join state ''audit.hmac'') ''audit chain key'',
          custody_file (path_join state ''identity.db'') ''identity store'',
          custody_file (path_join state ''identity.key'') ''delegation signing key'',
          custody_dir (path_join state ''profiles'') ''profiles directory'',
          custody_file (path_join state ''bundle.state'') ''federation bundle anti-rollback state'',
          custody_file (path_join state ''export.cursor'') ''audit export cursors'',
          custody_file (path_join state ''attestation.key'') ''attestation signing key'',
          custody_file (path_join state ''pairing.key'') ''device pairing signing key'',
          custody_file (path_join state ''approval_server.key'') ''approval server TLS key'',
          custody_file (path_join state ''approval_server.cert'') ''approval server TLS certificate'',
          custody_dir pairing ''pairing config directory'',
          custody_file (path_join pairing ''paired_devices.json'') ''paired device store'',
          custody_file (path_join pairing ''paired_devices.hmac'') ''paired device store integrity key'',
          custody_file (path_join pairing ''fido2_credentials.json'') ''FIDO2 credential store'',
          custody_file (path_join pairing ''fido2_credentials.hmac'') ''FIDO2 credential store integrity key''])"

definition relocate :: "string \<Rightarrow> string \<Rightarrow> custody_path \<Rightarrow> custody_path" where
  "relocate home state_dir item =
     (if cy_label item \<in> {''daemon config'', ''config seal key'', ''config seal''} then item
      else (case path_strip_prefix (cy_path item) (path_join home ''.opaque'') of
              Some rel \<Rightarrow> item\<lparr>cy_path := path_join state_dir rel\<rparr>
            | None \<Rightarrow>
                if \<not> path_eq state_dir (path_join home ''.opaque'')
                then (case path_strip_prefix (cy_path item) (path_join home ''.config/opaque'') of
                        Some rel \<Rightarrow> item\<lparr>cy_path := path_join (path_join state_dir ''approval'') rel\<rparr>
                      | None \<Rightarrow> item)
                else item))"

definition custody_paths :: "string \<Rightarrow> string \<Rightarrow> string \<Rightarrow> custody_path list" where
  "custody_paths home config_path state_dir =
     map (relocate home state_dir) (default_custody_set home config_path)
     @ map (\<lambda>name. custody_file (path_join state_dir name) ''task ledger'')
         [''tasks.db'', ''tasks.db-journal'', ''tasks.db.writer.lock'', ''tenant.binding.json'', ''tenant.binding.lock'']"

subsection \<open>Tightening and the startup check\<close>

fun tighten_modes ::
  "('w, 'z) fsext_scheme \<Rightarrow> custody_path list \<Rightarrow> u32 \<Rightarrow> 'w \<Rightarrow> (string \<times> u32 \<times> u32) list \<times> 'w" where
  "tighten_modes F [] daemon_uid w = ([], w)"
| "tighten_modes F (item # items) daemon_uid w =
     (case system_facts F w (cy_path item) of
        Inr (Some f) \<Rightarrow>
          if ff_is_symlink f \<or> ff_uid f \<noteq> daemon_uid then tighten_modes F items daemon_uid w
          else let allowed = allowed_bits (cy_kind item)
               in if ff_mode f AND NOT allowed \<noteq> 0
                  then let new_mode = ff_mode f AND allowed
                       in (case set_permissions F w (cy_path item) new_mode of
                             Some w' \<Rightarrow> (let (changes, w'') = tighten_modes F items daemon_uid w'
                                        in ((cy_path item, ff_mode f, new_mode) # changes, w''))
                           | None \<Rightarrow> tighten_modes F items daemon_uid w)
                  else tighten_modes F items daemon_uid w
      | _ \<Rightarrow> tighten_modes F items daemon_uid w)"

definition check_custody ::
  "('w, 'z) fsext_scheme \<Rightarrow> bool \<Rightarrow> u32 \<Rightarrow> custody_path list \<Rightarrow> 'w \<Rightarrow> custody_violation list + custody_violation list" where
  "check_custody F enforce daemon_uid items w =
     (let violations = verify_custody items daemon_uid (system_facts F w)
      in if violations = [] then Inr violations
         else if enforce then Inl violations
         else Inr violations)"

definition startup_custody_check_at ::
  "('w, 'z) fsext_scheme \<Rightarrow> bool \<Rightarrow> u32 \<Rightarrow> string \<Rightarrow> string \<Rightarrow> string \<Rightarrow> 'w
    \<Rightarrow> (custody_violation list + custody_violation list) \<times> 'w" where
  "startup_custody_check_at F enforce daemon_uid home config_path state_dir w =
     (let items = custody_paths home config_path state_dir;
          w' = snd (tighten_modes F items daemon_uid w)
      in (check_custody F enforce daemon_uid items w', w'))"

definition peer_uid_allowed :: "u32 \<Rightarrow> u32 \<Rightarrow> bool \<Rightarrow> bool" where
  "peer_uid_allowed peer_uid daemon_uid enforce =
     (if enforce then peer_uid \<noteq> daemon_uid else peer_uid = daemon_uid)"

subsection \<open>Exclusive custody\<close>

text \<open>What custody of a path means: it is absent, or a file or directory of the expected kind, owned by the daemon,
  with no permission for anybody else and no special bit.\<close>

definition exclusive :: "u32 \<Rightarrow> (string \<Rightarrow> string + file_facts option) \<Rightarrow> custody_path \<Rightarrow> bool" where
  "exclusive daemon_uid facts item \<longleftrightarrow>
     facts (cy_path item) = Inr None
     \<or> (\<exists>f. facts (cy_path item) = Inr (Some f) \<and> \<not> ff_is_symlink f \<and> ff_is_dir f = (cy_kind item = PK_Dir)
           \<and> ff_uid f = daemon_uid \<and> ff_mode f AND NOT (allowed_bits (cy_kind item)) = 0)"

lemma check_item_exclusive: "check_item daemon_uid facts item = [] \<longleftrightarrow> exclusive daemon_uid facts item"
  by (auto simp: check_item_def exclusive_def Let_def split: sum.splits option.splits if_splits)

lemma verify_custody_exclusive:
  "verify_custody items daemon_uid facts = [] \<longleftrightarrow> (\<forall>item\<in>set items. exclusive daemon_uid facts item)"
  by (induction items) (auto simp: check_item_exclusive)

lemma set_verify_custody:
  "set (verify_custody items daemon_uid facts) = (\<Union>item\<in>set items. set (check_item daemon_uid facts item))"
  by (induction items) auto

subsection \<open>Tightening\<close>

text \<open>\<open>chmod(2)\<close> on a path that is not a link: every path that names the same file gets the new permission bits, other
  paths keep what they had or, below a directory that lost its search bit, can no longer be inspected.\<close>

definition chmod_law :: "('w, 'z) fsext_scheme \<Rightarrow> bool" where
  "chmod_law F \<longleftrightarrow>
     (\<forall>w p m w' f. set_permissions F w p m = Some w' \<longrightarrow> lstat F w p = LS_Meta f \<longrightarrow> \<not> ff_is_symlink f \<longrightarrow>
        (let f' = f\<lparr>ff_mode := (ff_mode f AND NOT 0xFFF) OR (m AND 0xFFF)\<rparr>
         in lstat F w' p = LS_Meta f'
            \<and> (\<forall>q. lstat F w' q = lstat F w q \<or> (lstat F w q = LS_Meta f \<and> lstat F w' q = LS_Meta f')
                  \<or> (\<exists>e. lstat F w' q = LS_Error e))))"

text \<open>Facts after a step: unchanged, or with fewer permission bits, or unreadable.\<close>

definition narrowed :: "string + file_facts option \<Rightarrow> string + file_facts option \<Rightarrow> bool" where
  "narrowed a b \<longleftrightarrow>
     b = a \<or> (\<exists>e. b = Inl e)
     \<or> (\<exists>f f'. a = Inr (Some f) \<and> b = Inr (Some f') \<and> ff_uid f' = ff_uid f \<and> ff_is_symlink f' = ff_is_symlink f
          \<and> ff_is_dir f' = ff_is_dir f \<and> ff_mode f' AND NOT (ff_mode f) = 0)"

lemma narrowed_refl [simp]: "narrowed a a" by (simp add: narrowed_def)

lemma and_not_trans: "a AND NOT b = 0 \<Longrightarrow> b AND NOT c = 0 \<Longrightarrow> a AND NOT c = (0 :: u32)"
proof (rule bit_word_eqI)
  fix n assume "a AND NOT b = 0" "b AND NOT c = 0" "n < LENGTH(32)"
  then show "bit (a AND NOT c) n = bit (0 :: u32) n"
    by (metis bit_0_eq bit_and_iff bit_not_iff_eq bot_apply bot_bool_def)
qed

lemma narrowed_trans: "narrowed a b \<Longrightarrow> narrowed b c \<Longrightarrow> narrowed a c"
  unfolding narrowed_def by (elim disjE exE conjE) (use and_not_trans in fastforce)+

lemma mode_bits:
  "((x AND NOT 0xFFF) OR (m AND 0xFFF)) AND 0xFFF = (m AND 0xFFF :: u32)"
  by (rule bit_word_eqI) (auto simp: bit_simps)

lemma and_not_and: "(m AND a) AND NOT m = (0 :: u32)" "(m AND a) AND NOT a = (0 :: u32)"
  by (rule bit_word_eqI; simp add: bit_simps)+

lemma chmod_narrows:
  assumes law: "chmod_law F" and f: "system_facts F w p = Inr (Some f)" "\<not> ff_is_symlink f"
    and c: "set_permissions F w p (ff_mode f AND a) = Some w'"
  shows "narrowed (system_facts F w q) (system_facts F w' q)"
    and "system_facts F w' p = Inr (Some (f\<lparr>ff_mode := ff_mode f AND a\<rparr>))"
proof -
  obtain g where g: "lstat F w p = LS_Meta g" "f = g\<lparr>ff_mode := ff_mode g AND 0xFFF\<rparr>"
    using f(1) by (auto simp: system_facts_def split: lstat_result.splits)
  let ?g = "g\<lparr>ff_mode := (ff_mode g AND NOT 0xFFF) OR ((ff_mode f AND a) AND 0xFFF)\<rparr>"
  have low: "(ff_mode f AND a) AND 0xFFF = ff_mode f AND a"
    by (rule bit_word_eqI) (auto simp: g(2) bit_simps)
  have "\<not> ff_is_symlink g" using f(2) g(2) by simp
  then have l: "lstat F w' p = LS_Meta ?g"
    "lstat F w' q = lstat F w q \<or> (lstat F w q = LS_Meta g \<and> lstat F w' q = LS_Meta ?g) \<or> (\<exists>e. lstat F w' q = LS_Error e)"
    using law c g(1) unfolding chmod_law_def Let_def by blast+
  have m: "ff_mode ?g AND 0xFFF = ff_mode f AND a" using mode_bits[of "ff_mode g" "ff_mode f AND a"] low by simp
  then show "system_facts F w' p = Inr (Some (f\<lparr>ff_mode := ff_mode f AND a\<rparr>))"
    by (simp add: system_facts_def l(1) g(2))
  have fm: "ff_mode f = ff_mode g AND 0xFFF" by (simp add: g(2))
  have n: "(ff_mode ?g AND 0xFFF) AND NOT (ff_mode g AND 0xFFF) = 0"
    unfolding m using and_not_and(1)[of "ff_mode f" a] by (simp only: fm)
  show "narrowed (system_facts F w q) (system_facts F w' q)"
    using l(2)
  proof (elim disjE conjE exE)
    assume "lstat F w q = LS_Meta g" "lstat F w' q = LS_Meta ?g"
    then show ?thesis using n by (simp add: narrowed_def system_facts_def)
  qed (simp_all add: narrowed_def system_facts_def)
qed

text \<open>A run of \<open>tighten_modes\<close>: facts only narrow, and if the owner's \<open>chmod\<close> succeeds every item that the daemon owns
  ends up without excess bits.\<close>

definition within :: "custody_path \<Rightarrow> u32 \<Rightarrow> string + file_facts option \<Rightarrow> bool" where
  "within item daemon_uid a \<longleftrightarrow>
     (\<forall>f. a = Inr (Some f) \<longrightarrow> \<not> ff_is_symlink f \<longrightarrow> ff_uid f = daemon_uid \<longrightarrow>
        ff_mode f AND NOT (allowed_bits (cy_kind item)) = 0)"

lemma within_narrowed: "within item d a \<Longrightarrow> narrowed a b \<Longrightarrow> within item d b"
  unfolding within_def narrowed_def using and_not_trans by fastforce

definition owner_may_chmod :: "('w, 'z) fsext_scheme \<Rightarrow> u32 \<Rightarrow> bool" where
  "owner_may_chmod F d \<longleftrightarrow>
     (\<forall>w p m f. lstat F w p = LS_Meta f \<longrightarrow> \<not> ff_is_symlink f \<longrightarrow> ff_uid f = d \<longrightarrow> set_permissions F w p m \<noteq> None)"

lemma tighten_step:
  assumes law: "chmod_law F"
  obtains w' where "snd (tighten_modes F (item # items) d w) = snd (tighten_modes F items d w')"
    "\<And>q. narrowed (system_facts F w q) (system_facts F w' q)"
    "owner_may_chmod F d \<Longrightarrow> within item d (system_facts F w' (cy_path item))"
proof -
  let ?p = "cy_path item" and ?a = "allowed_bits (cy_kind item)"
  consider (chmod) f w' where "system_facts F w ?p = Inr (Some f)" "\<not> ff_is_symlink f" "ff_uid f = d"
      "ff_mode f AND NOT ?a \<noteq> 0" "set_permissions F w ?p (ff_mode f AND ?a) = Some w'"
    | (failed) f where "system_facts F w ?p = Inr (Some f)" "\<not> ff_is_symlink f" "ff_uid f = d"
      "ff_mode f AND NOT ?a \<noteq> 0" "set_permissions F w ?p (ff_mode f AND ?a) = None"
    | (kept) "snd (tighten_modes F (item # items) d w) = snd (tighten_modes F items d w)"
      "within item d (system_facts F w ?p)"
  proof (cases "\<exists>f. system_facts F w ?p = Inr (Some f) \<and> \<not> ff_is_symlink f \<and> ff_uid f = d \<and> ff_mode f AND NOT ?a \<noteq> 0")
    case True
    then obtain f where f: "system_facts F w ?p = Inr (Some f)" "\<not> ff_is_symlink f" "ff_uid f = d"
      "ff_mode f AND NOT ?a \<noteq> 0" by blast
    then show thesis using chmod failed by (cases "set_permissions F w ?p (ff_mode f AND ?a)") simp_all
  next
    case False
    have "snd (tighten_modes F (item # items) d w) = snd (tighten_modes F items d w)"
      using False by (auto simp: Let_def split: sum.split option.split)
    moreover have "within item d (system_facts F w ?p)" using False by (auto simp: within_def)
    ultimately show thesis by (rule kept)
  qed
  then show ?thesis
  proof cases
    case chmod
    have "snd (tighten_modes F (item # items) d w) = snd (tighten_modes F items d w')"
      using chmod by (simp add: Let_def split: prod.splits)
    then show ?thesis using that chmod_narrows[OF law chmod(1,2,5)]
      by (simp add: within_def and_not_and(2))
  next
    case failed
    have "snd (tighten_modes F (item # items) d w) = snd (tighten_modes F items d w)"
      using failed by (simp add: Let_def)
    moreover have "\<not> owner_may_chmod F d"
    proof -
      obtain g where g: "lstat F w ?p = LS_Meta g" "f = g\<lparr>ff_mode := ff_mode g AND 0xFFF\<rparr>"
        using failed(1) by (auto simp: system_facts_def split: lstat_result.splits)
      then have "\<not> ff_is_symlink g" "ff_uid g = d" using failed(2,3) by simp_all
      then show ?thesis using g(1) failed(5) unfolding owner_may_chmod_def by blast
    qed
    ultimately show ?thesis using that[of w] by simp
  next
    case kept
    then show ?thesis using that[of w] by simp
  qed
qed

lemma tighten_narrows:
  assumes law: "chmod_law F"
  shows "narrowed (system_facts F w q) (system_facts F (snd (tighten_modes F items d w)) q)"
proof (induction items arbitrary: w)
  case (Cons item items)
  obtain w' where "snd (tighten_modes F (item # items) d w) = snd (tighten_modes F items d w')"
    "narrowed (system_facts F w q) (system_facts F w' q)" by (rule tighten_step[OF law]) blast
  then show ?case using Cons.IH[of w'] narrowed_trans by metis
qed simp

lemma tighten_within:
  assumes law: "chmod_law F" and own: "owner_may_chmod F d" and item: "item \<in> set items"
  shows "within item d (system_facts F (snd (tighten_modes F items d w)) (cy_path item))"
  using item
proof (induction items arbitrary: w)
  case (Cons i items)
  obtain w' where w': "snd (tighten_modes F (i # items) d w) = snd (tighten_modes F items d w')"
    "within i d (system_facts F w' (cy_path i))" by (rule tighten_step[OF law]) (use own in blast)
  show ?case
  proof (cases "item \<in> set items")
    case True
    then show ?thesis using Cons.IH[of w'] w'(1) by simp
  next
    case False
    then have "item = i" using Cons.prems by simp
    then show ?thesis using within_narrowed[OF w'(2) tighten_narrows[OF law]] w'(1) by simp
  qed
qed simp

text \<open>C11: The startup check heals drift and reports the rest: if the owner of a file may change its mode, then after
  \<open>startup_custody_check_at\<close> has tightened modes the only paths it still reports as too permissive are those it also
  reports as owned by somebody else; tightening never adds a permission bit, and never changes the owner or the kind
  of any path.\<close>

theorem startup_heals_drift:
  assumes law: "chmod_law F" and own: "owner_may_chmod F d"
    and run: "startup_custody_check_at F enforce d home config_path state_dir w = (res, w')"
  shows "(\<forall>q. narrowed (system_facts F w q) (system_facts F w' q))
    \<and> (\<forall>l p m a. TooPermissive l p m a \<in> set (case res of Inl vs \<Rightarrow> vs | Inr vs \<Rightarrow> vs)
         \<longrightarrow> (\<exists>u. ForeignOwner l p u d \<in> set (case res of Inl vs \<Rightarrow> vs | Inr vs \<Rightarrow> vs)))"
proof -
  let ?items = "custody_paths home config_path state_dir"
  have w': "w' = snd (tighten_modes F ?items d w)"
    and vs: "(case res of Inl vs \<Rightarrow> vs | Inr vs \<Rightarrow> vs) = verify_custody ?items d (system_facts F w')"
    using run by (auto simp: startup_custody_check_at_def check_custody_def Let_def)
  have "\<exists>u. ForeignOwner l p u d \<in> set (verify_custody ?items d (system_facts F w'))"
    if "TooPermissive l p m a \<in> set (verify_custody ?items d (system_facts F w'))" for l p m a
  proof -
    from that obtain item where i: "item \<in> set ?items" "TooPermissive l p m a \<in> set (check_item d (system_facts F w') item)"
      unfolding set_verify_custody by blast
    obtain u where "ForeignOwner l p u d \<in> set (check_item d (system_facts F w') item)"
      using i(2) tighten_within[OF law own i(1), of w]
      by (fastforce simp: w'[symmetric] within_def check_item_def Let_def split: sum.splits option.splits if_splits)
    then show ?thesis using i(1) unfolding set_verify_custody by blast
  qed
  then show ?thesis unfolding vs using tighten_narrows[OF law] w' by blast
qed

subsection \<open>The files of the state directory are in custody\<close>

lemma split_on_sep: "split_on d (a @ d # b) = split_on d a @ split_on d b"
  by (induction a) (auto split: list.split)

lemma is_absolute_append: "p \<noteq> [] \<Longrightarrow> is_absolute (p @ q) = is_absolute p"
  by (cases p) (simp_all add: is_absolute_def starts_with_def)

lemma components_append:
  assumes "p \<noteq> []"
  shows "path_components (p @ CHR ''/'' # q) = path_components p @ filter kept_part (split_on CHR ''/'' q)"
  using assms by (simp add: path_components_def Let_def is_absolute_append split_on_sep)

text \<open>A plain file name, as the custody set uses them.\<close>

definition plain_name :: "string \<Rightarrow> bool" where
  "plain_name c \<longleftrightarrow> c \<noteq> [] \<and> c \<noteq> ''.'' \<and> CHR ''/'' \<notin> set c"

lemma plain_name_parts: "plain_name c \<Longrightarrow> filter kept_part (split_on CHR ''/'' c) = [c]"
  by (simp add: plain_name_def split_on_none kept_part_def)

lemma plain_name_relative: "plain_name c \<Longrightarrow> \<not> is_absolute c"
  by (cases c) (auto simp: plain_name_def is_absolute_def starts_with_def)

lemma path_components_join:
  assumes c: "plain_name c"
  shows "path_components (path_join p c) = path_components p @ [c]"
proof (cases "p = []")
  case True
  then show ?thesis using c plain_name_parts[OF c] plain_name_relative[OF c]
    by (simp add: path_join_def path_components_def plain_name_def split_on_none kept_part_def is_absolute_def starts_with_def)
next
  case False
  show ?thesis
  proof (cases "last p = CHR ''/''")
    case True
    then have p: "p = butlast p @ [CHR ''/'']" using False by (metis append_butlast_last_id)
    have join: "path_join p c = butlast p @ CHR ''/'' # c"
      using True False plain_name_relative[OF c] p by (simp add: path_join_def)
    show ?thesis
    proof (cases "butlast p = []")
      case True
      then have "p = ''/''" using p by simp
      then show ?thesis using plain_name_parts[OF c] plain_name_relative[OF c]
        by (simp add: path_join_def path_components_def is_absolute_def starts_with_def kept_part_def Let_def)
    next
      case ne: False
      have "path_components p = path_components (butlast p)"
        using components_append[OF ne, of "[]"] p by (simp add: kept_part_def)
      then show ?thesis unfolding join using components_append[OF ne, of c] plain_name_parts[OF c] by simp
    qed
  next
    case False
    then show ?thesis using \<open>p \<noteq> []\<close> plain_name_relative[OF c] plain_name_parts[OF c] components_append[OF \<open>p \<noteq> []\<close>, of c]
      by (simp add: path_join_def)
  qed
qed

lemma strip_components_append [simp]: "strip_components (base @ cs) base = Some cs"
  by (induction base) simp_all

lemma strip_prefix_join: "plain_name c \<Longrightarrow> path_strip_prefix (path_join base c) base = Some c"
  by (simp add: path_strip_prefix_def path_components_join path_of_components_def plain_name_def)

lemma relocate_state_file:
  assumes "plain_name c" "l \<notin> {''daemon config'', ''config seal key'', ''config seal''}"
  shows "relocate home st (custody_file (path_join (path_join home ''.opaque'') c) l) = custody_file (path_join st c) l"
  using assms strip_prefix_join[OF assms(1), of "path_join home ''.opaque''"]
  by (simp add: relocate_def custody_file_def)

text \<open>The databases and keys that the daemon opens below its state directory.\<close>

definition state_files :: "string list" where
  "state_files =
     [''audit.db'', ''audit.hmac'', ''identity.db'', ''identity.key'', ''bundle.state'', ''export.cursor'',
      ''attestation.key'', ''pairing.key'', ''approval_server.key'', ''approval_server.cert'',
      ''tasks.db'', ''tasks.db-journal'', ''tasks.db.writer.lock'', ''tenant.binding.json'', ''tenant.binding.lock'']"

lemma state_files_in_custody:
  assumes "name \<in> set state_files"
  shows "\<exists>l. custody_file (path_join st name) l \<in> set (custody_paths home config_path st)"
proof (cases "name \<in> {''tasks.db'', ''tasks.db-journal'', ''tasks.db.writer.lock'', ''tenant.binding.json'', ''tenant.binding.lock''}")
  case True
  then show ?thesis unfolding custody_paths_def set_append set_map by auto
next
  case False
  have plain: "plain_name name" using assms by (auto simp: state_files_def plain_name_def)
  obtain l where l: "custody_file (path_join (path_join home ''.opaque'') name) l \<in> set (default_custody_set home config_path)"
    "l \<notin> {''daemon config'', ''config seal key'', ''config seal''}"
  proof (rule that)
    let ?l = "the (map_of [(''audit.db'', ''audit database''), (''audit.hmac'', ''audit chain key''),
        (''identity.db'', ''identity store''), (''identity.key'', ''delegation signing key''),
        (''bundle.state'', ''federation bundle anti-rollback state''), (''export.cursor'', ''audit export cursors''),
        (''attestation.key'', ''attestation signing key''), (''pairing.key'', ''device pairing signing key''),
        (''approval_server.key'', ''approval server TLS key''),
        (''approval_server.cert'', ''approval server TLS certificate'')] name)"
    show "custody_file (path_join (path_join home ''.opaque'') name) ?l \<in> set (default_custody_set home config_path)"
      using assms False unfolding state_files_def default_custody_set_def Let_def set_simps by (elim insertE) simp_all
    show "?l \<notin> {''daemon config'', ''config seal key'', ''config seal''}"
      using assms False unfolding state_files_def set_simps by (elim insertE) simp_all
  qed
  have "relocate home st (custody_file (path_join (path_join home ''.opaque'') name) l) \<in> set (custody_paths home config_path st)"
    using l(1) by (simp add: custody_paths_def)
  then show ?thesis unfolding relocate_state_file[OF plain l(2)] by blast
qed

text \<open>Nobody but the daemon can reach a path: it is absent, or a real file or directory of the daemon with no
  permission for the group and for others.\<close>

definition owner_only :: "u32 \<Rightarrow> string + file_facts option \<Rightarrow> bool" where
  "owner_only d a \<longleftrightarrow>
     a = Inr None \<or> (\<exists>f. a = Inr (Some f) \<and> \<not> ff_is_symlink f \<and> ff_uid f = d \<and> ff_mode f AND 0x3F = 0)"

lemma and_not_disjoint: "a AND NOT b = 0 \<Longrightarrow> b AND c = 0 \<Longrightarrow> a AND c = (0 :: u32)"
proof (rule bit_word_eqI)
  fix n assume e: "a AND NOT b = 0" "b AND c = 0" and n: "n < LENGTH(32)"
  have "\<not> bit (a AND NOT b) n" "\<not> bit (b AND c) n" by (simp_all add: e)
  then show "bit (a AND c) n = bit (0 :: u32) n" using n by (auto simp: bit_simps)
qed

lemma exclusive_owner_only: "exclusive d facts item \<Longrightarrow> owner_only d (facts (cy_path item))"
proof -
  have "allowed_bits (cy_kind item) AND 0x3F = 0" by (cases "cy_kind item") simp_all
  then show "exclusive d facts item \<Longrightarrow> owner_only d (facts (cy_path item))"
    unfolding exclusive_def owner_only_def using and_not_disjoint by blast
qed


subsection \<open>A concrete file system\<close>

text \<open>A file system as the list of its nodes: \<open>lstat\<close> looks a path up, \<open>chmod\<close> replaces the low bits of one node.\<close>

definition demo_lstat :: "(string \<times> file_facts) list \<Rightarrow> string \<Rightarrow> lstat_result" where
  "demo_lstat w p = (case map_of w p of None \<Rightarrow> LS_NotFound | Some f \<Rightarrow> LS_Meta f)"

definition demo_chmod :: "(string \<times> file_facts) list \<Rightarrow> string \<Rightarrow> u32 \<Rightarrow> (string \<times> file_facts) list option" where
  "demo_chmod w p m =
     (case map_of w p of
        None \<Rightarrow> None
      | Some f \<Rightarrow> Some ((p, f\<lparr>ff_mode := (ff_mode f AND NOT 0xFFF) OR (m AND 0xFFF)\<rparr>) # w))"

definition demo_fs :: "(string \<times> file_facts) list fsext" where
  "demo_fs = \<lparr>lstat = demo_lstat, set_permissions = demo_chmod\<rparr>"

definition demo_node :: "u32 \<Rightarrow> u32 \<Rightarrow> bool \<Rightarrow> bool \<Rightarrow> file_facts" where
  "demo_node u m link dir = \<lparr>ff_uid = u, ff_mode = m, ff_is_symlink = link, ff_is_dir = dir\<rparr>"

lemma demo_fs_laws: "chmod_law demo_fs" "owner_may_chmod demo_fs d"
  unfolding chmod_law_def owner_may_chmod_def demo_fs_def fsext.simps demo_lstat_def demo_chmod_def Let_def
  by (auto split: option.splits if_splits)

lemma demo_system_facts:
  "system_facts demo_fs w p =
     Inr (map_option (\<lambda>f. f\<lparr>ff_mode := ff_mode f AND 0xFFF\<rparr>) (map_of w p))"
  by (simp add: system_facts_def demo_fs_def demo_lstat_def split: option.split)

text \<open>A broker of user 500 whose audit key was left readable for everybody.\<close>

definition demo_drift :: "(string \<times> file_facts) list" where
  "demo_drift = [(''/s/audit.hmac'', demo_node 500 0x81A4 False False)]"

theorem startup_heals_drift_witness:
  "narrowed (system_facts demo_fs demo_drift ''/s/audit.hmac'')
     (system_facts demo_fs (snd (startup_custody_check_at demo_fs True 500 ''/h'' ''/e/c'' ''/s'' demo_drift)) ''/s/audit.hmac'')"
  using startup_heals_drift[OF demo_fs_laws, of True 500 "''/h''" "''/e/c''" "''/s''" demo_drift]
  by (cases "startup_custody_check_at demo_fs True 500 ''/h'' ''/e/c'' ''/s'' demo_drift") auto

lemma tighten_absent:
  "(\<And>item. item \<in> set items \<Longrightarrow> system_facts F w (cy_path item) = Inr None) \<Longrightarrow> tighten_modes F items d w = ([], w)"
  by (induction items) simp_all


subsection \<open>The state directory itself\<close>

text \<open>C12: The check does not see that the state directory is a symbolic link.  \<open>custody_paths\<close> rewrites the entry of the
  state directory by joining the state directory with an empty relative path, which appends a separator; \<open>lstat\<close> of a
  path that ends in a separator follows the link, so that whatever the directory is replaced by, no symlink violation is
  ever reported for it.\<close>

theorem state_directory_link_unnoticed:
  assumes posix: "\<And>p f. p \<noteq> [] \<Longrightarrow> last p = CHR ''/'' \<Longrightarrow> lstat F w p = LS_Meta f \<Longrightarrow> \<not> ff_is_symlink f"
    and st: "state_dir \<noteq> []" "last state_dir \<noteq> CHR ''/''"
  shows "cy_path (hd (custody_paths home config_path state_dir)) = state_dir @ ''/''
    \<and> Symlink ''state directory'' p \<notin> set (verify_custody (custody_paths home config_path state_dir) d (system_facts F w))"
proof -
  let ?hd = "custody_dir (state_dir @ ''/'') ''state directory''"
  let ?items = "custody_paths home config_path state_dir"
  have "path_strip_prefix (path_join home ''.opaque'') (path_join home ''.opaque'') = Some []"
    using strip_components_append[of "path_components (path_join home ''.opaque'')" "[]"]
    by (simp add: path_strip_prefix_def path_of_components_def)
  then have "relocate home state_dir (custody_dir (path_join home ''.opaque'') ''state directory'') = ?hd"
    using st by (simp add: relocate_def custody_dir_def path_join_def is_absolute_def starts_with_def)
  then have items: "?items = ?hd # tl ?items"
    by (simp add: custody_paths_def default_custody_set_def Let_def)
  have label: "cy_label item \<noteq> ''state directory''" if "item \<in> set (tl ?items)" for item
  proof -
    have same: "cy_label (relocate home state_dir i) = cy_label i" for i
      by (simp add: relocate_def split: option.split)
    have "cy_label item \<in> set (map cy_label (tl ?items))" using that by simp
    then show ?thesis
      by (auto simp: custody_paths_def default_custody_set_def Let_def same custody_dir_def custody_file_def)
  qed
  have "\<not> ff_is_symlink f" if "system_facts F w (state_dir @ ''/'') = Inr (Some f)" for f
    using posix[of "state_dir @ ''/''"] that by (auto simp: system_facts_def split: lstat_result.splits)
  then have "Symlink ''state directory'' p \<notin> set (check_item d (system_facts F w) ?hd)"
    by (auto simp: check_item_def custody_dir_def Let_def split: sum.splits option.splits if_splits)
  moreover have "Symlink ''state directory'' p \<notin> set (check_item d (system_facts F w) item)" if "item \<in> set (tl ?items)" for item
    using label[OF that] by (auto simp: check_item_def Let_def split: sum.splits option.splits if_splits)
  ultimately have "Symlink ''state directory'' p \<notin> set (verify_custody (?hd # tl ?items) d (system_facts F w))"
    unfolding set_verify_custody by simp
  then show ?thesis using items by (metis custody_dir_def custody_path.select_convs(1) list.sel(1))
qed

text \<open>The state directory of user 500 is a link that somebody else owns; the directory behind it is in order.\<close>

definition demo_linked :: "(string \<times> file_facts) list" where
  "demo_linked = [(''/s'', demo_node 501 0xA1FF True False), (''/s/'', demo_node 500 0x41C0 False True)]"

theorem state_directory_link_unnoticed_witness:
  "system_facts demo_fs demo_linked ''/s'' = Inr (Some (demo_node 501 0x1FF True False))
   \<and> Symlink ''state directory'' ''/s/'' \<notin>
       set (verify_custody (custody_paths ''/h'' ''/e/c'' ''/s'') 500 (system_facts demo_fs demo_linked))"
proof (rule conjI)
  show "system_facts demo_fs demo_linked ''/s'' = Inr (Some (demo_node 501 0x1FF True False))"
    by (simp add: demo_system_facts demo_linked_def demo_node_def)
  show "Symlink ''state directory'' ''/s/'' \<notin>
      set (verify_custody (custody_paths ''/h'' ''/e/c'' ''/s'') 500 (system_facts demo_fs demo_linked))"
    by (rule state_directory_link_unnoticed[THEN conjunct2])
      (auto simp: demo_fs_def demo_lstat_def demo_linked_def demo_node_def split: option.splits if_splits)
qed

end
