(* ===== verification/Request.thy ===== *)
theory Request
  imports Identity
begin

text \<open>
  The request envelope that flows through the enforcement funnel:
  \<open>src/crates/opaque-core/src/workload.rs\<close> (trusted workload observations) and
  \<open>src/crates/opaque-core/src/operation.rs\<close> (operations, their registry, the request and its content hash).

  The rendering of JSON, the rendering of a workload identity
  and the JSON Schema validator are parameters.  A \<open>HashMap\<close> is an association list with distinct keys, in
  whatever order it iterates; a \<open>BTreeSet\<close> is a list in ascending order.  Paths are their lossy UTF-8 text.
\<close>

subsection \<open>Workload observations\<close>

definition valid_name :: "string \<Rightarrow> bool" where
  "valid_name value =
     (value \<noteq> [] \<and> length value \<le> 64
      \<and> list_all (\<lambda>b. is_ascii_lowercase b \<or> is_ascii_digit b \<or> b \<in> set ''._-'') value)"

definition attestor_id_try_from :: "string \<Rightarrow> unit + string" where
  "attestor_id_try_from value = (if valid_name value then Inr value else Inl ())"

record selector =
  sel_source :: string
  sel_key :: string
  sel_value :: string

definition selector_new :: "string \<Rightarrow> string \<Rightarrow> string \<Rightarrow> unit + selector" where
  "selector_new source k value =
     (if \<not> valid_name source \<or> \<not> valid_name k \<or> value = [] \<or> list_ex is_control (utf8_chars value)
      then Inl () else Inr \<lparr>sel_source = source, sel_key = k, sel_value = value\<rparr>)"

definition selector_to_string :: "selector \<Rightarrow> string" where
  "selector_to_string s = sel_source s @ '':'' @ sel_key s @ '':'' @ sel_value s"

text \<open>\<open>splitn(3, ':')\<close>: two cuts at the first two colons.\<close>

definition selector_from_str :: "string \<Rightarrow> unit + selector" where
  "selector_from_str s =
     and_then (ok_or (split_once CHR '':'' s) ()) (\<lambda>(source, r).
     and_then (ok_or (split_once CHR '':'' r) ()) (\<lambda>(k, value). selector_new source k value))"

datatype attestation_strength = AS_None | AS_Weak | AS_Medium | AS_Strong

fun strength_rank :: "attestation_strength \<Rightarrow> nat" where
  "strength_rank AS_None = 0"
| "strength_rank AS_Weak = 1"
| "strength_rank AS_Medium = 2"
| "strength_rank AS_Strong = 3"

text \<open>The derived order, that of the constructors.\<close>

instantiation attestation_strength :: linorder
begin

definition less_eq_attestation_strength :: "attestation_strength \<Rightarrow> attestation_strength \<Rightarrow> bool" where
  "a \<le> b \<longleftrightarrow> strength_rank a \<le> strength_rank b"

definition less_attestation_strength :: "attestation_strength \<Rightarrow> attestation_strength \<Rightarrow> bool" where
  "a < b \<longleftrightarrow> strength_rank a < strength_rank b"

instance
proof
  fix a b c :: attestation_strength
  show "a < b \<longleftrightarrow> a \<le> b \<and> \<not> b \<le> a"
    by (auto simp: less_eq_attestation_strength_def less_attestation_strength_def)
  show "a \<le> a" by (simp add: less_eq_attestation_strength_def)
  show "a \<le> b \<Longrightarrow> b \<le> c \<Longrightarrow> a \<le> c" by (simp add: less_eq_attestation_strength_def)
  show "a \<le> b \<Longrightarrow> b \<le> a \<Longrightarrow> a = b"
    by (cases a; cases b) (simp_all add: less_eq_attestation_strength_def)
  show "a \<le> b \<or> b \<le> a" by (auto simp: less_eq_attestation_strength_def)
qed

end

record workload_identity =
  wi_selectors :: "selector list"
  wi_strength :: attestation_strength
  wi_source :: string

definition workload_unavailable :: "string \<Rightarrow> workload_identity" where
  "workload_unavailable source = \<lparr>wi_selectors = [], wi_strength = AS_None, wi_source = source\<rparr>"

definition is_attested :: "workload_identity \<Rightarrow> bool" where
  "is_attested w = (wi_strength w \<noteq> AS_None \<and> wi_selectors w \<noteq> [])"

subsection \<open>Operations\<close>

datatype operation_safety = Safe | SensitiveOutput | Reveal

datatype approval_factor = LocalBio | IosFaceId | PairedWorkstationFactor | Fido2

fun approval_factor_to_string :: "approval_factor \<Rightarrow> string" where
  "approval_factor_to_string LocalBio = ''local_bio''"
| "approval_factor_to_string IosFaceId = ''ios_faceid''"
| "approval_factor_to_string PairedWorkstationFactor = ''paired_workstation''"
| "approval_factor_to_string Fido2 = ''fido2''"

datatype approval_requirement = Always | FirstUse | Never

record operation_def =
  od_name :: string
  od_safety :: operation_safety
  od_default_approval :: approval_requirement
  od_default_factors :: "approval_factor list"
  od_description :: string
  od_params_schema :: "json option"
  od_allowed_target_keys :: "string list"
  od_secret_ref_param_keys :: "string list"

text \<open>\<open>serde_json\<close> and \<open>jsonschema\<close>: the text of a value and of a workload identity; the errors of a
  value under a schema, or \<open>None\<close> when the schema does not compile.\<close>

record opext = ext +
  json_to_string :: "json \<Rightarrow> string"
  json_of_workload :: "workload_identity \<Rightarrow> string"
  schema_errors :: "json \<Rightarrow> (json \<Rightarrow> string list) option"

datatype registry_error = AlreadyRegistered string | UnknownOperation string | InvalidSchema string

record operation_registry =
  reg_ops :: "(string \<times> operation_def) list"
  reg_validators :: "(string \<times> (json \<Rightarrow> string list)) list"

definition registry_new :: operation_registry where
  "registry_new = \<lparr>reg_ops = [], reg_validators = []\<rparr>"

definition register :: "'z opext_scheme \<Rightarrow> operation_registry \<Rightarrow> operation_def \<Rightarrow> registry_error + operation_registry" where
  "register X R d =
     (if map_of (reg_ops R) (od_name d) \<noteq> None then Inl (AlreadyRegistered (od_name d))
      else and_then (case od_params_schema d of
                       None \<Rightarrow> Inr (reg_validators R)
                     | Some schema \<Rightarrow> and_then (ok_or (schema_errors X schema) (InvalidSchema (od_name d)))
                                        (\<lambda>v. Inr ((od_name d, v) # reg_validators R)))
             (\<lambda>vs. Inr (R\<lparr>reg_ops := (od_name d, d) # reg_ops R, reg_validators := vs\<rparr>)))"

definition registry_validate_params :: "operation_registry \<Rightarrow> string \<Rightarrow> json \<Rightarrow> string list + unit" where
  "registry_validate_params R operation params =
     (if map_of (reg_ops R) operation = None then Inl [''unknown operation: '' @ operation]
      else (case map_of (reg_validators R) operation of
              None \<Rightarrow> Inr ()
            | Some v \<Rightarrow> if v params = [] then Inr () else Inl (v params)))"

definition registry_get :: "operation_registry \<Rightarrow> string \<Rightarrow> registry_error + operation_def" where
  "registry_get R name = ok_or (map_of (reg_ops R) name) (UnknownOperation name)"

subsection \<open>Clients and requests\<close>

record client_identity =
  ci_uid :: u32
  ci_gid :: u32
  ci_pid :: "32 word option"
  ci_exe_path :: "string option"
  ci_exe_sha256 :: "string option"
  ci_codesign_team_id :: "string option"
  ci_workload :: "workload_identity option"

definition int_to_string :: "int \<Rightarrow> string" where
  "int_to_string i = (if i < 0 then CHR ''-'' # decimal (nat (- i)) else decimal (nat i))"

definition client_identity_to_string :: "client_identity \<Rightarrow> string" where
  "client_identity_to_string c =
     ''uid='' @ decimal (unat (ci_uid c)) @ '' gid='' @ decimal (unat (ci_gid c))
     @ (case ci_pid c of None \<Rightarrow> [] | Some pid \<Rightarrow> '' pid='' @ int_to_string (sint pid))
     @ (case ci_exe_path c of None \<Rightarrow> [] | Some exe \<Rightarrow> '' exe='' @ exe)
     @ (case ci_codesign_team_id c of None \<Rightarrow> [] | Some team \<Rightarrow> '' team='' @ team)"

record workspace_context =
  ws_repo_root :: string
  ws_remote_url :: "string option"
  ws_branch :: "string option"
  ws_head_sha :: "string option"
  ws_dirty :: bool
  ws_verified :: bool

datatype client_type = HumanClient | AgentClient

record operation_request =
  rq_request_id :: uuid
  rq_client_identity :: client_identity
  rq_client_type :: client_type
  rq_operation :: string
  rq_target :: "(string \<times> string) list"
  rq_secret_ref_names :: "string list"
  rq_created_at :: int
  rq_expires_at :: "int option"
  rq_params :: json
  rq_workspace :: "workspace_context option"
  rq_principal :: "principal_context option"

subsection \<open>The content hash\<close>

abbreviation nul :: string where "nul \<equiv> [CHR 0x00]"

definition to_le_bytes :: "32 word \<Rightarrow> string" where
  "to_le_bytes w = map (\<lambda>i. char_of (unat w div 256 ^ i mod 256)) [0, 1, 2, 3]"

definition opt_bytes :: "string option \<Rightarrow> string" where
  "opt_bytes v = (case v of None \<Rightarrow> [] | Some s \<Rightarrow> s)"

definition sorted_entries :: "(string \<times> string) list \<Rightarrow> (string \<times> string) list" where
  "sorted_entries target = sort_key fst target"

definition content_preimage :: "'z opext_scheme \<Rightarrow> operation_request \<Rightarrow> string" where
  "content_preimage X r =
     rq_operation r @ nul
     @ concat (map (\<lambda>(k, v). k @ ''='' @ v @ nul) (sorted_entries (rq_target r)))
     @ concat (map (\<lambda>n. n @ nul) (sort (rq_secret_ref_names r)))
     @ json_to_string X (rq_params r) @ nul
     @ to_le_bytes (ci_uid (rq_client_identity r)) @ to_le_bytes (ci_gid (rq_client_identity r)) @ nul
     @ (case ci_pid (rq_client_identity r) of None \<Rightarrow> [] | Some pid \<Rightarrow> to_le_bytes pid) @ nul
     @ (case ci_workload (rq_client_identity r) of
          None \<Rightarrow> []
        | Some w \<Rightarrow> ''workload-v1'' @ nul @ json_of_workload X w @ nul)
     @ (case rq_workspace r of
          None \<Rightarrow> []
        | Some ws \<Rightarrow> opt_bytes (ws_remote_url ws) @ nul @ opt_bytes (ws_branch ws) @ nul)
     @ (case rq_principal r of
          None \<Rightarrow> []
        | Some p \<Rightarrow> ''principal'' @ nul @ pc_sub p @ nul @ pc_act p @ nul
                    @ access_mode_as_str (pc_mode p) @ nul @ pc_jti p @ nul)"

definition content_hash :: "'z opext_scheme \<Rightarrow> operation_request \<Rightarrow> string" where
  "content_hash X r = sha256 X (content_preimage X r)"

subsection \<open>Properties\<close>

lemma split_once_valid_name:
  "valid_name n \<Longrightarrow> CHR '':'' \<notin> set n"
  by (auto simp: valid_name_def list_all_iff ascii_defs)

lemma selector_new_Inr:
  "selector_new a k v = Inr s \<longleftrightarrow>
     valid_name a \<and> valid_name k \<and> v \<noteq> [] \<and> \<not> list_ex is_control (utf8_chars v)
     \<and> s = \<lparr>sel_source = a, sel_key = k, sel_value = v\<rparr>"
  by (auto simp: selector_new_def)

lemma selector_roundtrip_aux:
  "selector_from_str w = Inr s \<longleftrightarrow>
     w = selector_to_string s \<and> selector_new (sel_source s) (sel_key s) (sel_value s) = Inr s"
proof
  assume "selector_from_str w = Inr s"
  then obtain a r k v where "split_once CHR '':'' w = Some (a, r)" "split_once CHR '':'' r = Some (k, v)"
    and n: "selector_new a k v = Inr s" by (auto simp: selector_from_str_def)
  then have "w = a @ CHR '':'' # k @ CHR '':'' # v" by (auto simp: split_once_Some)
  with n show "w = selector_to_string s \<and> selector_new (sel_source s) (sel_key s) (sel_value s) = Inr s"
    by (auto simp: selector_to_string_def selector_new_Inr)
next
  assume r: "w = selector_to_string s \<and> selector_new (sel_source s) (sel_key s) (sel_value s) = Inr s"
  then have "CHR '':'' \<notin> set (sel_source s)" "CHR '':'' \<notin> set (sel_key s)"
    by (auto simp: selector_new_Inr dest: split_once_valid_name)
  with r show "selector_from_str w = Inr s" by (simp add: selector_from_str_def selector_to_string_def)
qed

end
