(* ===== verification/Policy.thy ===== *)
theory Policy
  imports Request
begin

text \<open>
  The authorization decision: the pure kernel of \<open>src/crates/opaque-policy-kernel/src/lib.rs\<close>, and the match
  patterns, rules and engine of \<open>src/crates/opaque-core/src/policy.rs\<close> built on it.  The rules of an engine
  are its state; the loaders that produce them (TOML, federation bundles) are not modelled.
\<close>

subsection \<open>The decision kernel\<close>

record rule_facts =
  rf_matches :: bool
  rf_allow :: bool
  rf_first_use :: bool
  rf_budget :: "u32 option"

datatype kernel_decision = AgentRevealDenied | RuleDenied nat | InvalidBudget | Allow nat | DefaultDenied

text \<open>The \<open>for\<close> loop over the enumerated rules.\<close>

fun kernel_scan :: "nat \<Rightarrow> rule_facts list \<Rightarrow> kernel_decision" where
  "kernel_scan index [] = DefaultDenied"
| "kernel_scan index (rule # rules) =
     (if \<not> rf_matches rule then kernel_scan (Suc index) rules
      else if \<not> rf_allow rule then RuleDenied index
      else if is_some_and (rf_budget rule) (\<lambda>b. \<not> rf_first_use rule \<or> b = 0) then InvalidBudget
      else Allow index)"

definition kernel_evaluate :: "bool \<Rightarrow> bool \<Rightarrow> rule_facts list \<Rightarrow> kernel_decision" where
  "kernel_evaluate is_agent is_reveal rules =
     (if is_agent \<and> is_reveal then AgentRevealDenied else kernel_scan 0 rules)"

subsection \<open>Match patterns\<close>

record client_match =
  cm_uid :: "u32 option"
  cm_exe_path :: "string option"
  cm_exe_sha256 :: "string option"
  cm_codesign_team_id :: "string option"
  cm_attestor :: "string option"
  cm_min_attestation :: "attestation_strength option"
  cm_selectors :: "selector list"

definition attestation_matches :: "client_match \<Rightarrow> client_identity \<Rightarrow> bool" where
  "attestation_matches m c =
     (if cm_attestor m \<noteq> None \<or> cm_min_attestation m \<noteq> None \<or> cm_selectors m \<noteq> []
      then (case ci_workload c of
              None \<Rightarrow> False
            | Some w \<Rightarrow>
                is_attested w
                \<and> \<not> (is_some_and (cm_attestor m) (\<lambda>expected. expected \<noteq> wi_source w)
                     \<or> is_some_and (cm_min_attestation m) (\<lambda>minimum. wi_strength w < minimum)
                     \<or> list_ex (\<lambda>s. s \<notin> set (wi_selectors w)) (cm_selectors m)))
      else True)"

text \<open>An optional constraint against an optional observation: a missing observation fails a present constraint.\<close>

definition field_matches :: "('p \<Rightarrow> 'v \<Rightarrow> bool) \<Rightarrow> 'p option \<Rightarrow> 'v option \<Rightarrow> bool" where
  "field_matches test pattern value =
     (case pattern of None \<Rightarrow> True | Some p \<Rightarrow> (case value of Some v \<Rightarrow> test p v | None \<Rightarrow> False))"

definition client_matches :: "'z ext_scheme \<Rightarrow> client_match \<Rightarrow> client_identity \<Rightarrow> bool" where
  "client_matches X m c =
     (attestation_matches m c
      \<and> \<not> is_some_and (cm_uid m) (\<lambda>uid. ci_uid c \<noteq> uid)
      \<and> field_matches (glob_match X) (cm_exe_path m) (ci_exe_path c)
      \<and> field_matches (\<lambda>expected actual. eq_ignore_ascii_case actual expected) (cm_exe_sha256 m) (ci_exe_sha256 c)
      \<and> field_matches (\<lambda>expected actual. actual = expected) (cm_codesign_team_id m) (ci_codesign_team_id c))"

record identity_match =
  im_require_principal :: "bool option"
  im_principal :: "string option"
  im_roles :: "string list option"
  im_access_modes :: "access_mode list option"
  im_teams :: "string list option"

definition identity_match_is_empty :: "identity_match \<Rightarrow> bool" where
  "identity_match_is_empty m =
     (im_require_principal m = None \<and> im_principal m = None \<and> im_roles m = None
      \<and> im_access_modes m = None \<and> im_teams m = None)"

definition holds_role :: "principal_context \<Rightarrow> string \<Rightarrow> bool" where
  "holds_role ctx name = (case role_from_str name of Inr r \<Rightarrow> r \<in> pc_sub_roles ctx | Inl _ \<Rightarrow> False)"

definition identity_matches :: "identity_match \<Rightarrow> principal_context option \<Rightarrow> bool" where
  "identity_matches m ctx =
     (if identity_match_is_empty m then True
      else (case ctx of
              None \<Rightarrow> im_require_principal m = Some False \<and> im_principal m = None \<and> im_roles m = None
                      \<and> im_access_modes m = None \<and> im_teams m = None
            | Some c \<Rightarrow>
                \<not> is_some_and (im_principal m) (\<lambda>expected.
                     pc_sub c \<noteq> expected \<and> \<not> eq_ignore_ascii_case (pc_sub_label c) expected)
                \<and> is_none_or (im_roles m) (list_all (holds_role c))
                \<and> \<not> is_some_and (im_access_modes m) (\<lambda>modes. pc_mode c \<notin> set modes)
                \<and> is_none_or (im_teams m) (list_ex (\<lambda>t.
                     list_ex (\<lambda>have_team. eq_ignore_ascii_case have_team t) (pc_sub_teams c)))))"

type_synonym target_match = "(string \<times> string) list"

definition target_matches :: "'z ext_scheme \<Rightarrow> target_match \<Rightarrow> (string \<times> string) list \<Rightarrow> bool" where
  "target_matches X fs target =
     list_all (\<lambda>(field, pattern). case map_of target field of Some v \<Rightarrow> glob_match X pattern v | None \<Rightarrow> False) fs"

record workspace_match =
  wm_remote_url_pattern :: "string option"
  wm_branch_pattern :: "string option"
  wm_require_clean :: bool

definition workspace_matches :: "'z ext_scheme \<Rightarrow> workspace_match \<Rightarrow> workspace_context option \<Rightarrow> bool" where
  "workspace_matches X m ws =
     (let has_constraints = wm_remote_url_pattern m \<noteq> None \<or> wm_branch_pattern m \<noteq> None \<or> wm_require_clean m
      in if \<not> has_constraints then True
         else (case ws of
                 None \<Rightarrow> False
               | Some w \<Rightarrow>
                   ws_verified w
                   \<and> field_matches (glob_match X) (wm_remote_url_pattern m) (ws_remote_url w)
                   \<and> field_matches (glob_match X) (wm_branch_pattern m) (ws_branch w)
                   \<and> \<not> (wm_require_clean m \<and> ws_dirty w)))"

definition secret_names_match :: "'z ext_scheme \<Rightarrow> string list \<Rightarrow> string list \<Rightarrow> bool" where
  "secret_names_match X patterns names =
     (if patterns = [] then True
      else if names = [] then False
      else list_all (\<lambda>name. list_ex (\<lambda>p. glob_match X p name) patterns) names)"

subsection \<open>Rules and decisions\<close>

record approval_config =
  ac_require :: approval_requirement
  ac_factors :: "approval_factor list"
  ac_lease_ttl :: "nat option"
  ac_one_time :: bool
  ac_budget :: "u32 option"
  ac_require_distinct_approver :: bool

record policy_rule =
  pl_name :: string
  pl_client :: client_match
  pl_operation_pattern :: string
  pl_target :: target_match
  pl_workspace :: workspace_match
  pl_secret_names :: "string list"
  pl_allow :: bool
  pl_client_types :: "client_type list"
  pl_identity :: identity_match
  pl_approval :: approval_config

definition rule_matches :: "'z ext_scheme \<Rightarrow> policy_rule \<Rightarrow> operation_request \<Rightarrow> bool" where
  "rule_matches X p r =
     (\<not> (pl_client_types p \<noteq> [] \<and> rq_client_type r \<notin> set (pl_client_types p))
      \<and> client_matches X (pl_client p) (rq_client_identity r)
      \<and> identity_matches (pl_identity p) (rq_principal r)
      \<and> glob_match X (pl_operation_pattern p) (rq_operation r)
      \<and> target_matches X (pl_target p) (rq_target r)
      \<and> workspace_matches X (pl_workspace p) (rq_workspace r)
      \<and> secret_names_match X (pl_secret_names p) (rq_secret_ref_names r))"

record policy_decision =
  pd_allowed :: bool
  pd_required_factors :: "approval_factor list"
  pd_approval_requirement :: approval_requirement
  pd_lease_ttl :: "nat option"
  pd_one_time :: bool
  pd_budget :: "u32 option"
  pd_require_distinct_approver :: bool
  pd_matched_rule :: "string option"
  pd_denial_reason :: "string option"

definition policy_deny :: "string \<Rightarrow> policy_decision" where
  "policy_deny reason =
     \<lparr>pd_allowed = False, pd_required_factors = [], pd_approval_requirement = Never, pd_lease_ttl = None,
      pd_one_time = False, pd_budget = None, pd_require_distinct_approver = False, pd_matched_rule = None,
      pd_denial_reason = Some reason\<rparr>"

definition policy_allow :: "policy_rule \<Rightarrow> policy_decision" where
  "policy_allow p =
     \<lparr>pd_allowed = True, pd_required_factors = ac_factors (pl_approval p),
      pd_approval_requirement = ac_require (pl_approval p), pd_lease_ttl = ac_lease_ttl (pl_approval p),
      pd_one_time = ac_one_time (pl_approval p), pd_budget = ac_budget (pl_approval p),
      pd_require_distinct_approver = ac_require_distinct_approver (pl_approval p),
      pd_matched_rule = Some (pl_name p), pd_denial_reason = None\<rparr>"

definition rule_facts_of :: "'z ext_scheme \<Rightarrow> operation_request \<Rightarrow> policy_rule \<Rightarrow> rule_facts" where
  "rule_facts_of X r p =
     \<lparr>rf_matches = rule_matches X p r, rf_allow = pl_allow p,
      rf_first_use = (ac_require (pl_approval p) = FirstUse), rf_budget = ac_budget (pl_approval p)\<rparr>"

definition policy_evaluate ::
  "'z ext_scheme \<Rightarrow> policy_rule list \<Rightarrow> operation_request \<Rightarrow> operation_safety \<Rightarrow> policy_decision" where
  "policy_evaluate X rules r safety =
     (case kernel_evaluate (rq_client_type r = AgentClient) (safety = Reveal) (map (rule_facts_of X r) rules) of
        AgentRevealDenied \<Rightarrow> policy_deny ''REVEAL operations are never permitted for agent clients''
      | RuleDenied i \<Rightarrow>
          (policy_deny (''denied by rule: '' @ pl_name (rules ! i)))\<lparr>pd_matched_rule := Some (pl_name (rules ! i))\<rparr>
      | InvalidBudget \<Rightarrow> policy_deny ''approval budget requires first_use and a positive count''
      | Allow i \<Rightarrow> policy_allow (rules ! i)
      | DefaultDenied \<Rightarrow> policy_deny ''no matching policy rule (default deny)'')"

subsection \<open>Constraints a platform cannot enforce\<close>

definition codesign_requirement_is_unenforceable :: "bool \<Rightarrow> bool \<Rightarrow> bool" where
  "codesign_requirement_is_unenforceable requires enforceable = (requires \<and> \<not> enforceable)"

definition unenforceable_client_identity_rules :: "policy_rule list \<Rightarrow> bool \<Rightarrow> (policy_rule \<times> string) list" where
  "unenforceable_client_identity_rules rules enforceable =
     map (\<lambda>p. (p, ''codesign_team_id''))
       (filter (\<lambda>p. codesign_requirement_is_unenforceable (cm_codesign_team_id (pl_client p) \<noteq> None) enforceable) rules)"

definition unenforceable_codesign_entries :: "(string \<times> bool) list \<Rightarrow> bool \<Rightarrow> string list" where
  "unenforceable_codesign_entries entries enforceable =
     map fst (filter (\<lambda>(_, requires). codesign_requirement_is_unenforceable requires enforceable) entries)"

subsection \<open>Properties\<close>

text \<open>The reference reading of a policy: the first rule that matches the request decides it alone.\<close>

definition budget_malformed :: "policy_rule \<Rightarrow> bool" where
  "budget_malformed p = is_some_and (ac_budget (pl_approval p)) (\<lambda>b. ac_require (pl_approval p) \<noteq> FirstUse \<or> b = 0)"

definition decide_rule :: "policy_rule \<Rightarrow> policy_decision" where
  "decide_rule p =
     (if \<not> pl_allow p then (policy_deny (''denied by rule: '' @ pl_name p))\<lparr>pd_matched_rule := Some (pl_name p)\<rparr>
      else if budget_malformed p then policy_deny ''approval budget requires first_use and a positive count''
      else policy_allow p)"

definition first_match_decision ::
  "'z ext_scheme \<Rightarrow> policy_rule list \<Rightarrow> operation_request \<Rightarrow> policy_decision" where
  "first_match_decision X rules r =
     (case find (\<lambda>p. rule_matches X p r) rules of
        None \<Rightarrow> policy_deny ''no matching policy rule (default deny)''
      | Some p \<Rightarrow> decide_rule p)"

lemma policy_deny_not_allowed [simp]: "\<not> pd_allowed (policy_deny reason)"
  by (simp add: policy_deny_def)

lemma policy_allow_allowed [simp]: "pd_allowed (policy_allow p)"
  by (simp add: policy_allow_def)

lemma decide_rule_allowed: "pd_allowed (decide_rule p) \<longleftrightarrow> pl_allow p \<and> \<not> budget_malformed p"
  by (simp add: decide_rule_def)

text \<open>The decision the engine renders for a decision of the kernel.\<close>

fun render_decision :: "policy_rule list \<Rightarrow> kernel_decision \<Rightarrow> policy_decision" where
  "render_decision rules AgentRevealDenied = policy_deny ''REVEAL operations are never permitted for agent clients''"
| "render_decision rules (RuleDenied i) =
     (policy_deny (''denied by rule: '' @ pl_name (rules ! i)))\<lparr>pd_matched_rule := Some (pl_name (rules ! i))\<rparr>"
| "render_decision rules InvalidBudget = policy_deny ''approval budget requires first_use and a positive count''"
| "render_decision rules (Allow i) = policy_allow (rules ! i)"
| "render_decision rules DefaultDenied = policy_deny ''no matching policy rule (default deny)''"

lemma policy_evaluate_render:
  "policy_evaluate X rules r safety =
     render_decision rules (kernel_evaluate (rq_client_type r = AgentClient) (safety = Reveal)
       (map (rule_facts_of X r) rules))"
  by (simp add: policy_evaluate_def split: kernel_decision.splits)

lemma kernel_scan_first_match:
  "render_decision (pre @ rules) (kernel_scan (length pre) (map (rule_facts_of X r) rules))
     = first_match_decision X rules r"
proof (induction rules arbitrary: pre)
  case Nil
  then show ?case by (simp add: first_match_decision_def)
next
  case (Cons p rules)
  show ?case
  proof (cases "rule_matches X p r")
    case True
    then show ?thesis
      by (simp add: first_match_decision_def decide_rule_def budget_malformed_def rule_facts_of_def)
  next
    case False
    then show ?thesis using Cons[of "pre @ [p]"] by (simp add: first_match_decision_def rule_facts_of_def)
  qed
qed

lemma policy_evaluate_eq:
  "policy_evaluate X rules r safety =
     (if rq_client_type r = AgentClient \<and> safety = Reveal
      then policy_deny ''REVEAL operations are never permitted for agent clients''
      else first_match_decision X rules r)"
  using kernel_scan_first_match[of "[]" rules X r] by (simp add: policy_evaluate_render kernel_evaluate_def)

lemma find_split:
  assumes "find P xs = Some x"
  obtains pre post where "xs = pre @ x # post" "\<forall>y\<in>set pre. \<not> P y" "P x"
proof -
  from assms obtain i where i: "i < length xs" "P (xs ! i)" "x = xs ! i" "\<forall>j<i. \<not> P (xs ! j)"
    by (auto simp: find_Some_iff)
  show thesis
  proof (rule that[of "take i xs" "drop (Suc i) xs"])
    show "xs = take i xs @ x # drop (Suc i) xs" using i by (simp add: id_take_nth_drop)
    show "\<forall>y\<in>set (take i xs). \<not> P y" using i by (auto simp: in_set_conv_nth)
    show "P x" using i by simp
  qed
qed

lemma first_match_allowed:
  assumes "pd_allowed (first_match_decision X rules r)"
  obtains pre p post where "rules = pre @ p # post" "\<forall>q\<in>set pre. \<not> rule_matches X q r"
    "rule_matches X p r" "pl_allow p" "\<not> budget_malformed p" "first_match_decision X rules r = policy_allow p"
proof -
  from assms obtain p where p: "find (\<lambda>p. rule_matches X p r) rules = Some p" and a: "pd_allowed (decide_rule p)"
    by (auto simp: first_match_decision_def split: option.splits)
  have d: "first_match_decision X rules r = policy_allow p"
    using p a by (auto simp: first_match_decision_def decide_rule_def split: if_splits)
  from find_split[OF p] show thesis using that a d decide_rule_allowed by metis
qed

lemma field_matches_Some: "field_matches f (Some p) v \<longleftrightarrow> (\<exists>w. v = Some w \<and> f p w)"
  by (cases v) (simp_all add: field_matches_def)

lemma attestation_matchesD:
  assumes "attestation_matches m c"
    and "cm_attestor m \<noteq> None \<or> cm_min_attestation m \<noteq> None \<or> cm_selectors m \<noteq> []"
  shows "\<exists>w. ci_workload c = Some w \<and> is_attested w \<and> set (cm_selectors m) \<subseteq> set (wi_selectors w)
    \<and> is_none_or (cm_attestor m) (\<lambda>a. a = wi_source w) \<and> is_none_or (cm_min_attestation m) (\<lambda>s. s \<le> wi_strength w)"
  using assms by (auto simp: attestation_matches_def list_ex_iff is_some_and_iff is_none_or_iff split: option.splits)

lemma identity_matchesD:
  assumes "identity_matches m ctx"
    and "im_principal m \<noteq> None \<or> im_roles m \<noteq> None \<or> im_access_modes m \<noteq> None \<or> im_teams m \<noteq> None
         \<or> im_require_principal m = Some True"
  shows "\<exists>c. ctx = Some c \<and> is_none_or (im_roles m) (list_all (\<lambda>n. \<exists>r\<in>pc_sub_roles c. n = role_as_str r))
    \<and> is_none_or (im_access_modes m) (\<lambda>ms. pc_mode c \<in> set ms)"
proof -
  have h: "holds_role c n \<Longrightarrow> \<exists>r\<in>pc_sub_roles c. n = role_as_str r" for c n
    by (auto simp: holds_role_def role_from_str_iff split: sum.splits)
  have "\<not> identity_match_is_empty m" using assms(2) by (auto simp: identity_match_is_empty_def)
  then obtain c where "ctx = Some c" "is_none_or (im_roles m) (list_all (holds_role c))"
    "is_none_or (im_access_modes m) (\<lambda>ms. pc_mode c \<in> set ms)"
    using assms by (cases ctx) (auto simp: identity_matches_def is_none_or_iff is_some_and_iff)
  then show ?thesis using h by (auto simp: is_none_or_iff list_all_iff)
qed

lemma workspace_matchesD:
  assumes "workspace_matches X m ws"
    and "wm_remote_url_pattern m \<noteq> None \<or> wm_branch_pattern m \<noteq> None \<or> wm_require_clean m"
  shows "\<exists>w. ws = Some w \<and> ws_verified w \<and> (wm_require_clean m \<longrightarrow> \<not> ws_dirty w)"
  using assms by (auto simp: workspace_matches_def split: option.splits)

subsection \<open>A concrete policy\<close>

definition demo_opext :: opext where
  "demo_opext = \<lparr>uuid_parse_str = (\<lambda>_. None), uuid_to_string = (\<lambda>_. []), sha256_bytes = id,
     regex_is_match = (\<lambda>_ _. False), glob_match = (=), verifying_key_ok = (\<lambda>_. True),
     ed25519_verify = (\<lambda>_ _ _. False), ed25519_verify_strict = (\<lambda>_ _ _. False),
     ed25519_sign = (\<lambda>_ _. []), b64url_encode = id, b64url_decode = Some,
     json_to_string = (\<lambda>_. ''null''), json_of_workload = (\<lambda>_. ''w''), schema_errors = (\<lambda>_. Some (\<lambda>_. []))\<rparr>"

definition demo_client :: client_identity where
  "demo_client = \<lparr>ci_uid = 1000, ci_gid = 1000, ci_pid = Some 7, ci_exe_path = Some ''/bin/agent'',
     ci_exe_sha256 = None, ci_codesign_team_id = None,
     ci_workload = Some \<lparr>wi_selectors = [\<lparr>sel_source = ''unix'', sel_key = ''uid'', sel_value = ''1000''\<rparr>],
                        wi_strength = AS_Medium, wi_source = ''unix''\<rparr>\<rparr>"

definition demo_principal :: principal_context where
  "demo_principal = \<lparr>pc_sub = ''hum_a'', pc_sub_label = ''a@example.org'', pc_sub_roles = {Operator},
     pc_sub_teams = [''infra''], pc_act = ''agt_b'', pc_act_label = ''agent:b'', pc_mode = Delegated,
     pc_jti = ''s1'', pc_human_session_id = None\<rparr>"

definition demo_request :: operation_request where
  "demo_request = \<lparr>rq_request_id = 1, rq_client_identity = demo_client, rq_client_type = AgentClient,
     rq_operation = ''github.set'', rq_target = [(''repo'', ''org/app'')], rq_secret_ref_names = [''env:TOKEN''],
     rq_created_at = 0, rq_expires_at = None, rq_params = JNull,
     rq_workspace = Some \<lparr>ws_repo_root = ''/r'', ws_remote_url = None, ws_branch = Some ''main'',
                         ws_head_sha = None, ws_dirty = False, ws_verified = True\<rparr>,
     rq_principal = Some demo_principal\<rparr>"

definition demo_approval :: approval_config where
  "demo_approval = \<lparr>ac_require = FirstUse, ac_factors = [LocalBio], ac_lease_ttl = Some 60, ac_one_time = False,
     ac_budget = Some 2, ac_require_distinct_approver = False\<rparr>"

definition demo_rule :: policy_rule where
  "demo_rule = \<lparr>pl_name = ''publish'',
     pl_client = \<lparr>cm_uid = Some 1000, cm_exe_path = None, cm_exe_sha256 = None, cm_codesign_team_id = None,
       cm_attestor = Some ''unix'', cm_min_attestation = Some AS_Weak, cm_selectors = []\<rparr>,
     pl_operation_pattern = ''github.set'', pl_target = [(''repo'', ''org/app'')],
     pl_workspace = \<lparr>wm_remote_url_pattern = None, wm_branch_pattern = Some ''main'', wm_require_clean = True\<rparr>,
     pl_secret_names = [''env:TOKEN''], pl_allow = True, pl_client_types = [],
     pl_identity = \<lparr>im_require_principal = Some True, im_principal = None, im_roles = Some [''operator''],
       im_access_modes = Some [Delegated], im_teams = None\<rparr>,
     pl_approval = demo_approval\<rparr>"

definition demo_deny_rule :: policy_rule where
  "demo_deny_rule = demo_rule\<lparr>pl_name := ''deny prod'', pl_target := [(''environment'', ''prod'')], pl_allow := False\<rparr>"

lemma demo_rule_matches: "rule_matches demo_opext demo_rule demo_request"
  by (simp add: rule_matches_def demo_rule_def demo_request_def client_matches_def attestation_matches_def
      demo_client_def field_matches_def identity_matches_def identity_match_is_empty_def holds_role_def
      role_from_str_def demo_principal_def target_matches_def workspace_matches_def secret_names_match_def
      demo_opext_def is_attested_def less_attestation_strength_def)

lemma demo_deny_rule_silent: "\<not> rule_matches demo_opext demo_deny_rule demo_request"
  by (simp add: rule_matches_def demo_deny_rule_def demo_request_def target_matches_def)

lemma demo_policy_allows:
  "policy_evaluate demo_opext [demo_deny_rule, demo_rule] demo_request Safe = policy_allow demo_rule"
proof -
  have "pl_allow demo_rule" "\<not> budget_malformed demo_rule"
    by (simp_all add: budget_malformed_def demo_rule_def demo_approval_def)
  then show ?thesis
    by (simp add: policy_evaluate_eq first_match_decision_def demo_rule_matches demo_deny_rule_silent decide_rule_def)
qed

subsection \<open>Theorems\<close>

text \<open>C36: The engine decides exactly as the reference reading of a policy: an agent's request for a REVEAL operation is
  denied outright, and otherwise the first rule that matches decides alone - a deny rule and an allow rule with a
  malformed approval budget deny, no later rule is consulted, and without a match the request is denied.\<close>

theorem policy_first_match_final:
  "policy_evaluate X rules r safety =
     (if rq_client_type r = AgentClient \<and> safety = Reveal
      then policy_deny ''REVEAL operations are never permitted for agent clients''
      else first_match_decision X rules r)"
  by (rule policy_evaluate_eq)

text \<open>A request is allowed only by a rule that covers it, and the constraints of that rule fail closed: the rule is
  the first match and an allow rule, the decision carries exactly its approval obligations, a budget comes with
  first-use approval and is positive; constraints on the principal need a verified principal who holds every named
  role, workspace constraints a workspace the daemon verified (clean if so required), attestation constraints an
  attested workload of the named source, at least the named strength and with every named selector, and secret
  patterns a nonempty set of names that each match one of them.\<close>

theorem allowed_request_is_covered:
  assumes "pd_allowed (policy_evaluate X rules r safety)"
  shows "\<exists>pre p post. rules = pre @ p # post \<and> (\<forall>q\<in>set pre. \<not> rule_matches X q r) \<and> rule_matches X p r
    \<and> pl_allow p \<and> policy_evaluate X rules r safety = policy_allow p
    \<and> (\<forall>b. ac_budget (pl_approval p) = Some b \<longrightarrow> ac_require (pl_approval p) = FirstUse \<and> 0 < b)
    \<and> (im_roles (pl_identity p) \<noteq> None \<or> im_access_modes (pl_identity p) \<noteq> None
         \<or> im_require_principal (pl_identity p) = Some True \<longrightarrow>
       (\<exists>c. rq_principal r = Some c
          \<and> is_none_or (im_roles (pl_identity p)) (list_all (\<lambda>n. \<exists>ro\<in>pc_sub_roles c. n = role_as_str ro))
          \<and> is_none_or (im_access_modes (pl_identity p)) (\<lambda>ms. pc_mode c \<in> set ms)))
    \<and> (wm_remote_url_pattern (pl_workspace p) \<noteq> None \<or> wm_branch_pattern (pl_workspace p) \<noteq> None
         \<or> wm_require_clean (pl_workspace p) \<longrightarrow>
       (\<exists>w. rq_workspace r = Some w \<and> ws_verified w \<and> (wm_require_clean (pl_workspace p) \<longrightarrow> \<not> ws_dirty w)))
    \<and> (cm_attestor (pl_client p) \<noteq> None \<or> cm_min_attestation (pl_client p) \<noteq> None \<or> cm_selectors (pl_client p) \<noteq> [] \<longrightarrow>
       (\<exists>w. ci_workload (rq_client_identity r) = Some w \<and> is_attested w
          \<and> set (cm_selectors (pl_client p)) \<subseteq> set (wi_selectors w)
          \<and> is_none_or (cm_attestor (pl_client p)) (\<lambda>a. a = wi_source w)
          \<and> is_none_or (cm_min_attestation (pl_client p)) (\<lambda>s. s \<le> wi_strength w)))
    \<and> (pl_secret_names p \<noteq> [] \<longrightarrow> rq_secret_ref_names r \<noteq> []
       \<and> list_all (\<lambda>n. list_ex (\<lambda>pat. glob_match X pat n) (pl_secret_names p)) (rq_secret_ref_names r))"
proof -
  have e: "policy_evaluate X rules r safety = first_match_decision X rules r"
    using assms by (auto simp: policy_evaluate_eq split: if_splits)
  obtain pre p post where p: "rules = pre @ p # post" "\<forall>q\<in>set pre. \<not> rule_matches X q r" "rule_matches X p r"
    "pl_allow p" "\<not> budget_malformed p" "first_match_decision X rules r = policy_allow p"
    using first_match_allowed assms e by metis
  have m: "client_matches X (pl_client p) (rq_client_identity r)" "identity_matches (pl_identity p) (rq_principal r)"
    "workspace_matches X (pl_workspace p) (rq_workspace r)"
    "secret_names_match X (pl_secret_names p) (rq_secret_ref_names r)"
    using p(3) by (simp_all add: rule_matches_def)
  have "attestation_matches (pl_client p) (rq_client_identity r)" using m(1) by (simp add: client_matches_def)
  note att = attestation_matchesD[OF this] and ident = identity_matchesD[OF m(2)] and ws = workspace_matchesD[OF m(3)]
  have bud: "\<forall>b. ac_budget (pl_approval p) = Some b \<longrightarrow> ac_require (pl_approval p) = FirstUse \<and> 0 < b"
    using p(5) by (auto simp: budget_malformed_def word_neq_0_conv)
  have sn: "pl_secret_names p \<noteq> [] \<longrightarrow> rq_secret_ref_names r \<noteq> []
      \<and> list_all (\<lambda>n. list_ex (\<lambda>pat. glob_match X pat n) (pl_secret_names p)) (rq_secret_ref_names r)"
    using m(4) by (simp add: secret_names_match_def split: if_splits)
  show ?thesis
    by (rule exI[of _ pre], rule exI[of _ p], rule exI[of _ post])
      (use p e att ident ws bud sn in simp)
qed

theorem allowed_request_is_covered_witness:
  "pd_allowed (policy_evaluate demo_opext [demo_deny_rule, demo_rule] demo_request Safe)
   \<and> (\<exists>p. rule_matches demo_opext p demo_request \<and> pl_allow p
        \<and> policy_evaluate demo_opext [demo_deny_rule, demo_rule] demo_request Safe = policy_allow p)"
proof -
  have a: "pd_allowed (policy_evaluate demo_opext [demo_deny_rule, demo_rule] demo_request Safe)"
    by (simp add: demo_policy_allows)
  from allowed_request_is_covered[OF a] a show ?thesis by blast
qed

end
