(* ===== verification/Validate.thy ===== *)
theory Validate
  imports Request Secret_Refs
begin

text \<open>
  Validation of client-controlled strings before they reach the audit log or an approval prompt,
  \<open>src/crates/opaque-core/src/validate.rs\<close>.
\<close>

subsection \<open>Truncation\<close>

text \<open>\<open>str::floor_char_boundary\<close>: the largest index up to \<open>n\<close> at which no character is split.\<close>

definition is_char_start :: "char \<Rightarrow> bool" where
  "is_char_start b = (byte b < 128 \<or> 192 \<le> byte b)"

definition is_char_boundary :: "string \<Rightarrow> nat \<Rightarrow> bool" where
  "is_char_boundary s n = (n = 0 \<or> (if n < length s then is_char_start (s ! n) else n = length s))"

fun floor_char_boundary :: "string \<Rightarrow> nat \<Rightarrow> nat" where
  "floor_char_boundary s 0 = 0"
| "floor_char_boundary s (Suc n) = (if is_char_boundary s (Suc n) then Suc n else floor_char_boundary s n)"

definition truncate_utf8 :: "string \<Rightarrow> nat \<Rightarrow> string" where
  "truncate_utf8 value max_bytes = take (floor_char_boundary value (min max_bytes (length value))) value"

subsection \<open>Fields, targets and references\<close>

datatype validation_error =
    VE_TooLong string nat nat | VE_TooManyEntries string nat nat | VE_InvalidCharset string string
  | VE_SecretDetected string

definition hostile_char :: "nat \<Rightarrow> bool" where
  "hostile_char cp = (cp \<le> 0x1F \<or> (0x202A \<le> cp \<and> cp \<le> 0x202E) \<or> (0x2066 \<le> cp \<and> cp \<le> 0x2069))"

definition validate_field :: "string \<Rightarrow> string \<Rightarrow> nat \<Rightarrow> validation_error + string" where
  "validate_field field value max_len =
     (let trimmed = trim value
      in if length trimmed > max_len then Inl (VE_TooLong field max_len (length trimmed))
         else if list_ex hostile_char (utf8_chars trimmed) then Inl (VE_InvalidCharset field trimmed)
         else Inr trimmed)"

definition target_key_char :: "char \<Rightarrow> bool" where
  "target_key_char c = (is_ascii_lowercase c \<or> is_ascii_digit c \<or> c = CHR ''_'')"

definition validate_target_entry :: "'z ext_scheme \<Rightarrow> string \<times> string \<Rightarrow> validation_error + (string \<times> string)" where
  "validate_target_entry X e =
     (case e of (k, value) \<Rightarrow>
        if length k > 64 then Inl (VE_TooLong (''target key '' @ [CHR 0x27] @ k @ [CHR 0x27]) 64 (length k))
        else if \<not> list_all target_key_char k then Inl (VE_InvalidCharset ''target key'' k)
        else and_then (validate_field (''target['' @ k @ '']'') value 256) (\<lambda>clean_value.
               if contains_secret X clean_value then Inl (VE_SecretDetected (''target['' @ k @ '']''))
               else Inr (k, clean_value)))"

definition validate_target ::
  "'z ext_scheme \<Rightarrow> (string \<times> string) list \<Rightarrow> validation_error + (string \<times> string) list" where
  "validate_target X target =
     (if length target > 16 then Inl (VE_TooManyEntries ''target entries'' 16 (length target))
      else try_map (validate_target_entry X) target)"

text \<open>The reference without its known scheme.\<close>

definition ref_body :: "string \<Rightarrow> string" where
  "ref_body name =
     (case find_map (\<lambda>scheme. strip_prefix scheme name) ALLOWED_REF_SCHEMES of Some b \<Rightarrow> b | None \<Rightarrow> name)"

definition validate_prepared_ref :: "'z ext_scheme \<Rightarrow> string \<Rightarrow> validation_error + unit" where
  "validate_prepared_ref X name =
     (if length name > 4096 then Inl (VE_TooLong ''prepared secret reference'' 4096 (length name))
      else if trim name = [] \<or> list_ex (\<lambda>c. is_control c \<or> bidi_control c) (utf8_chars name)
      then Inl (VE_InvalidCharset ''prepared secret reference'' [])
      else if contains_secret X (ref_body name) then Inl (VE_SecretDetected ''prepared secret reference'')
      else Inr ())"

definition validate_prepared_refs :: "'z ext_scheme \<Rightarrow> string list \<Rightarrow> validation_error + unit" where
  "validate_prepared_refs X names = try_each (validate_prepared_ref X) names"

definition validate_secret_ref_name :: "'z ext_scheme \<Rightarrow> string \<Rightarrow> validation_error + string" where
  "validate_secret_ref_name X name =
     (if length name > 128 then Inl (VE_TooLong ''secret_ref_name'' 128 (length name))
      else if \<not> list_all (\<lambda>c. is_ascii_alphanumeric c \<or> c \<in> set ''_./-:'') (ref_body name)
      then Inl (VE_InvalidCharset ''secret_ref_name'' name)
      else if contains_secret X (ref_body name) then Inl (VE_SecretDetected ''secret_ref_name'')
      else Inr name)"

definition validate_secret_ref_names :: "'z ext_scheme \<Rightarrow> string list \<Rightarrow> validation_error + string list" where
  "validate_secret_ref_names X names =
     (if length names > 32 then Inl (VE_TooManyEntries ''secret ref names'' 32 (length names))
      else try_map (validate_secret_ref_name X) names)"

subsection \<open>URLs\<close>

definition find_char :: "char \<Rightarrow> string \<Rightarrow> nat option" where
  "find_char c s =
     (let n = length (takeWhile (\<lambda>x. x \<noteq> c) s) in if n < length s then Some n else None)"

definition strip_userinfo :: "string \<Rightarrow> string \<Rightarrow> string \<Rightarrow> string" where
  "strip_userinfo scheme rest url =
     (case find_char CHR ''@'' rest of
        Some at_pos \<Rightarrow>
          if at_pos < (case find_char CHR ''/'' rest of Some p \<Rightarrow> p | None \<Rightarrow> length rest)
          then scheme @ drop (at_pos + 1) rest else url
      | None \<Rightarrow> url)"

definition sanitize_url :: "string \<Rightarrow> string" where
  "sanitize_url url =
     (if starts_with ''git@'' url \<or> starts_with ''ssh://'' url then url
      else (case strip_prefix ''https://'' url of
              Some rest \<Rightarrow> strip_userinfo ''https://'' rest url
            | None \<Rightarrow> (case strip_prefix ''http://'' url of
                         Some rest \<Rightarrow> strip_userinfo ''http://'' rest url
                       | None \<Rightarrow> url)))"

subsection \<open>Properties\<close>

lemma floor_char_boundary_le: "floor_char_boundary s n \<le> n"
  by (induction n) auto

lemma floor_char_boundary_ok: "is_char_boundary s (floor_char_boundary s n)"
  by (induction n) (auto simp: is_char_boundary_def)

lemma floor_char_boundary_max: "is_char_boundary s m \<Longrightarrow> m \<le> n \<Longrightarrow> m \<le> floor_char_boundary s n"
  by (induction n) (auto simp: le_Suc_eq)

lemma find_char_Some: "find_char c s = Some n \<longleftrightarrow> n < length s \<and> s ! n = c \<and> c \<notin> set (take n s)"
proof
  assume "find_char c s = Some n"
  then have n: "n = length (takeWhile (\<lambda>x. x \<noteq> c) s)" "n < length s"
    by (auto simp: find_char_def Let_def split: if_splits)
  then have "s ! n = c" using nth_length_takeWhile by blast
  moreover have "take n s = takeWhile (\<lambda>x. x \<noteq> c) s" using n(1) by (metis takeWhile_eq_take)
  ultimately show "n < length s \<and> s ! n = c \<and> c \<notin> set (take n s)" using n(2) by (auto dest: set_takeWhileD)
next
  assume a: "n < length s \<and> s ! n = c \<and> c \<notin> set (take n s)"
  have "takeWhile (\<lambda>x. x \<noteq> c) (take n s @ c # drop (Suc n) s) = take n s"
    using a by (subst takeWhile_append2) auto
  moreover have "take n s @ c # drop (Suc n) s = s" using a by (metis id_take_nth_drop)
  ultimately show "find_char c s = Some n" using a by (simp add: find_char_def)
qed

lemma find_char_None: "find_char c s = None \<longleftrightarrow> c \<notin> set s"
proof -
  have "length (takeWhile (\<lambda>x. x \<noteq> c) s) < length s \<longleftrightarrow> c \<in> set s"
    by (induction s) auto
  then show ?thesis by (auto simp: find_char_def Let_def)
qed

text \<open>The authority of an http URL: what precedes the first slash.\<close>

definition authority_of :: "string \<Rightarrow> string" where
  "authority_of rest = takeWhile (\<lambda>c. c \<noteq> CHR ''/'') rest"

lemma validate_target_entry_Inr:
  "validate_target_entry X (k, v) = Inr e \<longleftrightarrow>
     e = (k, trim v) \<and> length k \<le> 64 \<and> list_all target_key_char k \<and> length (trim v) \<le> 256
     \<and> \<not> list_ex hostile_char (utf8_chars (trim v)) \<and> \<not> contains_secret X (trim v)"
  by (auto simp: validate_target_entry_def validate_field_def Let_def split: if_splits)

subsection \<open>Theorems\<close>

text \<open>Whatever \<open>validate_target\<close> accepts is fit for display and audit: it keeps the keys, holds at most sixteen
  entries with short lower-case keys, and every value is the trimmed input, at most 256 bytes long, free of control
  and direction-changing characters and of anything the secret patterns recognise.\<close>

theorem validated_target_is_displayable:
  assumes "validate_target X target = Inr clean"
  shows "length clean \<le> 16 \<and> map fst clean = map fst target \<and> map snd clean = map (trim \<circ> snd) target
    \<and> list_all (\<lambda>(k, v). length k \<le> 64 \<and> list_all target_key_char k \<and> length v \<le> 256
        \<and> \<not> list_ex hostile_char (utf8_chars v) \<and> \<not> contains_secret X v) clean"
proof -
  have m: "list_all2 (\<lambda>e c. validate_target_entry X e = Inr c) target clean" and n: "length target \<le> 16"
    using assms by (auto simp: validate_target_def try_map_Inr split: if_splits)
  from m have "map fst clean = map fst target \<and> map snd clean = map (trim \<circ> snd) target
    \<and> list_all (\<lambda>(k, v). length k \<le> 64 \<and> list_all target_key_char k \<and> length v \<le> 256
        \<and> \<not> list_ex hostile_char (utf8_chars v) \<and> \<not> contains_secret X v) clean"
    by (induction rule: list_all2_induct) (auto simp: validate_target_entry_Inr)
  with n list_all2_lengthD[OF m] show ?thesis by simp
qed

theorem validated_target_is_displayable_witness:
  "\<exists>clean. validate_target demo_idext [(''repo'', ''org/app '')] = Inr clean \<and> map fst clean = [''repo'']
     \<and> map snd clean = [''org/app'']"
proof -
  have e: "validate_target_entry demo_idext (''repo'', ''org/app '') = Inr (''repo'', ''org/app'')"
    by (simp add: validate_target_entry_Inr trim_def utf8_groups.simps(2) utf8_chars.simps(2) white_group_def
        is_whitespace_def hostile_char_def target_key_char_def ascii_defs contains_secret_def demo_idext_def list_ex_iff)
  then obtain clean where c: "validate_target demo_idext [(''repo'', ''org/app '')] = Inr clean"
    by (simp add: validate_target_def)
  have "trim ''org/app '' = ''org/app''" using e by (simp add: validate_target_entry_Inr)
  with c validated_target_is_displayable[OF c] show ?thesis by simp
qed

lemma takeWhile_at:
  assumes "CHR ''@'' \<in> set (authority_of rest)"
  obtains u h where "rest = u @ CHR ''@'' # h" "CHR ''@'' \<notin> set u" "CHR ''/'' \<notin> set u"
    "authority_of rest = u @ CHR ''@'' # authority_of h"
proof -
  obtain u a where ua: "authority_of rest = u @ CHR ''@'' # a" "CHR ''@'' \<notin> set u"
    using split_list_first[OF assms] by blast
  obtain t where t: "rest = authority_of rest @ t" unfolding authority_of_def by (metis takeWhile_dropWhile_id)
  have u: "CHR ''/'' \<notin> set u"
  proof
    assume "CHR ''/'' \<in> set u"
    then have "CHR ''/'' \<in> set (authority_of rest)" using ua by simp
    then show False unfolding authority_of_def by (auto dest: set_takeWhileD)
  qed
  have r: "rest = u @ CHR ''@'' # (a @ t)" using t ua by simp
  have "authority_of rest = u @ CHR ''@'' # authority_of (a @ t)"
    unfolding r authority_of_def using u by (subst takeWhile_append2) auto
  with r ua(2) u show thesis using that by blast
qed

lemma strip_userinfo_at:
  assumes "rest = u @ CHR ''@'' # h" "CHR ''@'' \<notin> set u" "CHR ''/'' \<notin> set u"
  shows "strip_userinfo scheme rest url = scheme @ h"
proof -
  have at: "find_char CHR ''@'' rest = Some (length u)" using assms by (simp add: find_char_Some)
  have "length u < (case find_char CHR ''/'' rest of Some p \<Rightarrow> p | None \<Rightarrow> length rest)"
  proof (cases "find_char CHR ''/'' rest")
    case (Some p)
    have "p \<noteq> length u" "\<not> p < length u"
      using Some assms by (auto simp: find_char_Some nth_append in_set_conv_nth)
    then show ?thesis using Some by simp
  qed (simp add: assms(1))
  moreover have "drop (length u + 1) rest = h" using assms(1) by simp
  ultimately show ?thesis using at by (simp add: strip_userinfo_def)
qed

lemma strip_userinfo_none:
  assumes "CHR ''@'' \<notin> set (authority_of rest)"
  shows "strip_userinfo scheme rest url = url"
proof (cases "find_char CHR ''@'' rest")
  case (Some n)
  have "\<not> n < length (authority_of rest)"
  proof
    assume "n < length (authority_of rest)"
    then have "authority_of rest ! n = rest ! n" unfolding authority_of_def by (rule takeWhile_nth)
    then show False using Some assms \<open>n < _\<close> by (auto simp: find_char_Some dest: nth_mem)
  qed
  moreover have "(case find_char CHR ''/'' rest of Some p \<Rightarrow> p | None \<Rightarrow> length rest) = length (authority_of rest)"
    using length_takeWhile_le[of "\<lambda>c. c \<noteq> CHR ''/''" rest]
    by (auto simp: find_char_def authority_of_def Let_def)
  ultimately show ?thesis using Some by (simp add: strip_userinfo_def)
qed (simp add: strip_userinfo_def)

text \<open>\<open>sanitize_url\<close> removes exactly the part of an https authority up to its first at sign: with one at sign the
  sanitized authority is the host alone, and without one the URL is unchanged.  A userinfo that itself contains an at
  sign keeps the part after it, so a piece of the password stays in the sanitized text.\<close>

theorem sanitize_url_strips_userinfo:
  "(CHR ''@'' \<notin> set (authority_of rest) \<longrightarrow> sanitize_url (''https://'' @ rest) = ''https://'' @ rest)
   \<and> (CHR ''@'' \<in> set (authority_of rest) \<longrightarrow>
      (\<exists>u h. rest = u @ CHR ''@'' # h \<and> CHR ''@'' \<notin> set u \<and> sanitize_url (''https://'' @ rest) = ''https://'' @ h
         \<and> authority_of rest = u @ CHR ''@'' # authority_of h
         \<and> (count_list (authority_of rest) CHR ''@'' = 1 \<longrightarrow> CHR ''@'' \<notin> set (authority_of h))))
   \<and> sanitize_url ''https://user:p@ss@host/x'' = ''https://ss@host/x''"
proof (intro conjI impI)
  have s: "sanitize_url (''https://'' @ w) = strip_userinfo ''https://'' w (''https://'' @ w)" for w
    by (simp add: sanitize_url_def starts_with_def)
  show "sanitize_url (''https://'' @ rest) = ''https://'' @ rest" if "CHR ''@'' \<notin> set (authority_of rest)"
    unfolding s using that by (rule strip_userinfo_none)
  show "\<exists>u h. rest = u @ CHR ''@'' # h \<and> CHR ''@'' \<notin> set u \<and> sanitize_url (''https://'' @ rest) = ''https://'' @ h
         \<and> authority_of rest = u @ CHR ''@'' # authority_of h
         \<and> (count_list (authority_of rest) CHR ''@'' = 1 \<longrightarrow> CHR ''@'' \<notin> set (authority_of h))"
    if a: "CHR ''@'' \<in> set (authority_of rest)"
  proof -
    obtain u h where uh: "rest = u @ CHR ''@'' # h" "CHR ''@'' \<notin> set u" "CHR ''/'' \<notin> set u"
      "authority_of rest = u @ CHR ''@'' # authority_of h" using takeWhile_at[OF a] by blast
    have "sanitize_url (''https://'' @ rest) = ''https://'' @ h"
      unfolding s by (rule strip_userinfo_at[OF uh(1-3)])
    moreover have "CHR ''@'' \<notin> set (authority_of h)" if "count_list (authority_of rest) CHR ''@'' = 1"
      using that uh(4) by (simp add: count_list_0_iff)
    ultimately show ?thesis using uh by blast
  qed
  have "sanitize_url (''https://'' @ ''user:p@ss@host/x'') = ''https://'' @ ''ss@host/x''"
    unfolding s by (rule strip_userinfo_at[of _ "''user:p''"]) simp_all
  then show "sanitize_url ''https://user:p@ss@host/x'' = ''https://ss@host/x''" by simp
qed

theorem sanitize_url_strips_userinfo_witness:
  "\<exists>u h. ''token@host/x'' = u @ CHR ''@'' # h \<and> sanitize_url (''https://'' @ ''token@host/x'') = ''https://'' @ h
     \<and> CHR ''@'' \<notin> set (authority_of h)"
proof -
  have a: "authority_of ''token@host/x'' = ''token@host''" by (simp add: authority_of_def)
  have c: "CHR ''@'' \<in> set (authority_of ''token@host/x'')" "count_list (authority_of ''token@host/x'') CHR ''@'' = 1"
    by (simp_all add: a)
  then show ?thesis using sanitize_url_strips_userinfo[of "''token@host/x''"] by blast
qed

end
