(* ===== verification/Sanitize.thy ===== *)
theory Sanitize
  imports Request
begin

text \<open>
  Response sanitization, \<open>src/crates/opaque-core/src/sanitize.rs\<close>: scrubbing of error messages, payloads and
  audit details.  The only thing taken from the crate \<open>regex\<close> is which texts an expression matches and what
  \<open>replace_all\<close> returns; both are parameters, given the source of the expression.  The typestate of
  \<open>SanitizedResponse\<close> is kept as two record types.
\<close>

record snext = opext +
  regex_replace_all :: "string \<Rightarrow> string \<Rightarrow> string \<Rightarrow> string"

record unsanitized_response =
  ur_payload :: json
  ur_error_code :: "string option"
  ur_error_message :: "string option"

record sanitized_response =
  sr_payload :: json
  sr_error_code :: "string option"
  sr_error_message :: "string option"

definition from_payload :: "json \<Rightarrow> unsanitized_response" where
  "from_payload p = \<lparr>ur_payload = p, ur_error_code = None, ur_error_message = None\<rparr>"

definition from_error :: "string \<Rightarrow> string \<Rightarrow> json \<Rightarrow> unsanitized_response" where
  "from_error code message p = \<lparr>ur_payload = p, ur_error_code = Some code, ur_error_message = Some message\<rparr>"

subsection \<open>Scrubbing of text\<close>

definition redact :: "'z snext_scheme \<Rightarrow> string \<Rightarrow> string" where
  "redact X text =
     foldl (\<lambda>result (label, re). regex_replace_all X re result (''[REDACTED:'' @ label @ '']'')) text secret_patterns"

definition PATH_RE :: string where
  "PATH_RE = ''(?:/[Uu]sers/[^'' @ bs # ''s:]+|/home/[^'' @ bs # ''s:]+|/tmp/[^'' @ bs # ''s:]+)''"

definition CRED_URL_RE :: string where
  "CRED_URL_RE = ''https?://[^'' @ bs # ''s@]+:[^'' @ bs # ''s@]+@[^'' @ bs # ''s]+''"

definition TOKEN_URL_RE :: string where
  "TOKEN_URL_RE = ''(https?://[^'' @ bs # ''s?]+)'' @ bs # ''?[^'' @ bs # ''s]{40,}''"

definition scrub_paths :: "'z snext_scheme \<Rightarrow> string \<Rightarrow> string" where
  "scrub_paths X text = regex_replace_all X PATH_RE text ''[PATH]''"

definition scrub_urls :: "'z snext_scheme \<Rightarrow> string \<Rightarrow> string" where
  "scrub_urls X text =
     regex_replace_all X TOKEN_URL_RE (regex_replace_all X CRED_URL_RE text ''[URL:REDACTED]'')
       ''$1?[PARAMS:REDACTED]''"

definition scrub_error :: "'z snext_scheme \<Rightarrow> string \<Rightarrow> string" where
  "scrub_error X message = redact X (scrub_urls X (scrub_paths X message))"

definition detail_patterns :: "(string \<times> string) list" where
  "detail_patterns =
    [(''keychain:'' @ bs # ''S+'', ''keychain:[REDACTED]''),
     (''vault:'' @ bs # ''S+'', ''vault:[REDACTED]''),
     (''env:'' @ bs # ''S+'', ''env:[REDACTED]''),
     (''(?i)Bearer'' @ bs # ''s+'' @ bs # ''S+'', ''Bearer [REDACTED]''),
     (''AKIA[A-Z0-9]{16}'', ''[REDACTED_AWS_KEY]''),
     (''(?i)(password|secret|token|key)'' @ bs # ''s*[:=]'' @ bs # ''s*'' @ bs # ''S+'', ''[REDACTED]'')]"

definition sanitize_detail :: "'z snext_scheme \<Rightarrow> string \<Rightarrow> string" where
  "sanitize_detail X detail = foldl (\<lambda>result (re, rep). regex_replace_all X re result rep) detail detail_patterns"

datatype redaction_level = AgentLevel | HumanLevel

definition redact_audit_text :: "'z snext_scheme \<Rightarrow> string \<Rightarrow> redaction_level \<Rightarrow> string" where
  "redact_audit_text X text level =
     (let text = sanitize_detail X text
      in case level of
           AgentLevel \<Rightarrow> redact X (scrub_paths X (scrub_urls X text))
         | HumanLevel \<Rightarrow> redact X text)"

subsection \<open>Scrubbing of JSON\<close>

definition SECRET_FIELD_NAMES :: "string list" where
  "SECRET_FIELD_NAMES =
     [''password'', ''passwd'', ''secret'', ''token'', ''access_key'', ''secret_key'', ''private_key'', ''api_key'',
      ''apikey'', ''auth_token'', ''authorization'', ''credentials'', ''connection_string'', ''private_key_pem'',
      ''client_secret'']"

definition is_secret_field_name :: "string \<Rightarrow> bool" where
  "is_secret_field_name name =
     (if name = ''name'' \<or> ends_with ''_name'' name then False
      else list_ex (\<lambda>s. contains_str s name) SECRET_FIELD_NAMES)"

definition sanitize_string :: "'z snext_scheme \<Rightarrow> string \<Rightarrow> string" where
  "sanitize_string X s = (if contains_secret X s then ''[REDACTED]'' else scrub_urls X (scrub_paths X s))"

fun sanitize_value :: "'z snext_scheme \<Rightarrow> json \<Rightarrow> json" where
  "sanitize_value X (JString s) = JString (sanitize_string X s)"
| "sanitize_value X (JObject fs) =
     JObject (map (\<lambda>(k, v). (k, if is_secret_field_name (to_ascii_lowercase k) then JString ''[REDACTED]''
                               else sanitize_value X v)) fs)"
| "sanitize_value X (JArray vs) = JArray (map (sanitize_value X) vs)"
| "sanitize_value X v = v"

definition sanitize_response :: "'z snext_scheme \<Rightarrow> unsanitized_response \<Rightarrow> sanitized_response" where
  "sanitize_response X r =
     \<lparr>sr_payload = sanitize_value X (ur_payload r), sr_error_code = ur_error_code r,
      sr_error_message = map_option (scrub_error X) (ur_error_message r)\<rparr>"

subsection \<open>Properties\<close>

text \<open>The strings and the object fields of a value, at any depth.\<close>

fun json_strings :: "json \<Rightarrow> string list" where
  "json_strings (JString s) = [s]"
| "json_strings (JObject fs) = concat (map (\<lambda>(k, v). json_strings v) fs)"
| "json_strings (JArray vs) = concat (map json_strings vs)"
| "json_strings v = []"

fun json_fields :: "json \<Rightarrow> (string \<times> json) list" where
  "json_fields (JObject fs) = fs @ concat (map (\<lambda>(k, v). json_fields v) fs)"
| "json_fields (JArray vs) = concat (map json_fields vs)"
| "json_fields v = []"

lemma sanitize_value_strings:
  "s \<in> set (json_strings (sanitize_value X v)) \<Longrightarrow>
     s = ''[REDACTED]'' \<or> (\<exists>t\<in>set (json_strings v). \<not> contains_secret X t \<and> s = scrub_urls X (scrub_paths X t))"
proof (induction X v rule: sanitize_value.induct)
  case (1 X t)
  then show ?case by (auto simp: sanitize_string_def split: if_splits)
next
  case (2 X fs)
  from "2.prems" obtain k v where kv: "(k, v) \<in> set fs"
    and s: "s \<in> set (json_strings (if is_secret_field_name (to_ascii_lowercase k) then JString ''[REDACTED]''
                                 else sanitize_value X v))"
    by auto
  show ?case
  proof (cases "is_secret_field_name (to_ascii_lowercase k)")
    case True
    then show ?thesis using s by simp
  next
    case False
    from "2.IH"[OF kv refl False] s False kv show ?thesis by fastforce
  qed
next
  case (3 X vs)
  then show ?case by fastforce
qed simp_all

lemma sanitize_value_fields:
  "(k, w) \<in> set (json_fields (sanitize_value X v)) \<Longrightarrow> is_secret_field_name (to_ascii_lowercase k) \<Longrightarrow>
     w = JString ''[REDACTED]''"
proof (induction X v rule: sanitize_value.induct)
  case (2 X fs)
  from "2.prems"(1) consider v where "(k, v) \<in> set fs" "w = (if is_secret_field_name (to_ascii_lowercase k)
        then JString ''[REDACTED]'' else sanitize_value X v)"
    | k' v where "(k', v) \<in> set fs" "(k, w) \<in> set (json_fields (if is_secret_field_name (to_ascii_lowercase k')
        then JString ''[REDACTED]'' else sanitize_value X v))"
    by auto
  then show ?case
  proof cases
    case 1
    then show ?thesis using "2.prems"(2) by simp
  next
    case 2
    then show ?thesis using "2.IH"[OF 2(1) refl] "2.prems"(2)
      by (cases "is_secret_field_name (to_ascii_lowercase k')") auto
  qed
qed auto


end
