(* ===== verification/Audit_Event.thy ===== *)
theory Audit_Event
  imports Policy Validate Sanitize
begin

text \<open>
  Audit events of \<open>src/crates/opaque-core/src/audit.rs\<close>: kinds and their names, the summaries that may be recorded, the
  event and its defaults.  An event has two parts: \<open>audit_fields\<close>, which the emitting code determines, and the
  identifier, sequence number, time and latency, which come from the random generator, the sink and the clocks; the
  record \<open>audit_event\<close> adds the second part to the first.
\<close>

subsection \<open>Kinds\<close>

datatype audit_kind =
    RequestReceived | PolicyDenied | ApprovalRequired | ApprovalPresented | ApprovalGranted | ApprovalDenied
  | OperationStarted | OperationSucceeded | OperationFailed | ProviderFetchStarted | ProviderFetchFinished
  | RateLimited | LeaseHit | SandboxCreated | SandboxCompleted | SecretResolved | AuditDropped
  | ExecveChecked | ExecveAllowed | ExecveDenied | ExecvePrompted
  | IdentityLoginSucceeded | IdentityLoginFailed | IdentityLogout | IdentityRoleChanged
  | DelegationIssued | DelegationRevoked | TrustDomainPosture | FederationBundleApplied | FederationBundleRejected
  | AuditAlert | WorkloadAttested | WorkloadAttestationDenied

fun kind_to_string :: "audit_kind \<Rightarrow> string" where
  "kind_to_string RequestReceived = ''request.received''"
| "kind_to_string PolicyDenied = ''policy.denied''"
| "kind_to_string ApprovalRequired = ''approval.required''"
| "kind_to_string ApprovalPresented = ''approval.presented''"
| "kind_to_string ApprovalGranted = ''approval.granted''"
| "kind_to_string ApprovalDenied = ''approval.denied''"
| "kind_to_string OperationStarted = ''operation.started''"
| "kind_to_string OperationSucceeded = ''operation.succeeded''"
| "kind_to_string OperationFailed = ''operation.failed''"
| "kind_to_string ProviderFetchStarted = ''provider.fetch.started''"
| "kind_to_string ProviderFetchFinished = ''provider.fetch.finished''"
| "kind_to_string RateLimited = ''rate.limited''"
| "kind_to_string LeaseHit = ''lease.hit''"
| "kind_to_string SandboxCreated = ''sandbox.created''"
| "kind_to_string SandboxCompleted = ''sandbox.completed''"
| "kind_to_string SecretResolved = ''secret.resolved''"
| "kind_to_string AuditDropped = ''audit.dropped''"
| "kind_to_string ExecveChecked = ''execve.checked''"
| "kind_to_string ExecveAllowed = ''execve.allowed''"
| "kind_to_string ExecveDenied = ''execve.denied''"
| "kind_to_string ExecvePrompted = ''execve.prompted''"
| "kind_to_string IdentityLoginSucceeded = ''identity.login.succeeded''"
| "kind_to_string IdentityLoginFailed = ''identity.login.failed''"
| "kind_to_string IdentityLogout = ''identity.logout''"
| "kind_to_string IdentityRoleChanged = ''identity.role.changed''"
| "kind_to_string DelegationIssued = ''delegation.issued''"
| "kind_to_string DelegationRevoked = ''delegation.revoked''"
| "kind_to_string TrustDomainPosture = ''trust_domain.posture''"
| "kind_to_string FederationBundleApplied = ''federation.bundle_applied''"
| "kind_to_string FederationBundleRejected = ''federation.bundle_rejected''"
| "kind_to_string AuditAlert = ''audit.alert''"
| "kind_to_string WorkloadAttested = ''workload.attested''"
| "kind_to_string WorkloadAttestationDenied = ''workload.attestation_denied''"

text \<open>The parser's table, in its order.\<close>

definition kind_table :: "(string \<times> audit_kind) list" where
  "kind_table =
     [(''request.received'', RequestReceived), (''policy.denied'', PolicyDenied),
      (''approval.required'', ApprovalRequired), (''approval.presented'', ApprovalPresented),
      (''approval.granted'', ApprovalGranted), (''approval.denied'', ApprovalDenied),
      (''operation.started'', OperationStarted), (''operation.succeeded'', OperationSucceeded),
      (''operation.failed'', OperationFailed), (''provider.fetch.started'', ProviderFetchStarted),
      (''provider.fetch.finished'', ProviderFetchFinished), (''rate.limited'', RateLimited),
      (''lease.hit'', LeaseHit), (''sandbox.created'', SandboxCreated), (''sandbox.completed'', SandboxCompleted),
      (''secret.resolved'', SecretResolved), (''audit.dropped'', AuditDropped), (''execve.checked'', ExecveChecked),
      (''execve.allowed'', ExecveAllowed), (''execve.denied'', ExecveDenied), (''execve.prompted'', ExecvePrompted),
      (''identity.login.succeeded'', IdentityLoginSucceeded), (''identity.login.failed'', IdentityLoginFailed),
      (''identity.logout'', IdentityLogout), (''identity.role.changed'', IdentityRoleChanged),
      (''delegation.issued'', DelegationIssued), (''delegation.revoked'', DelegationRevoked),
      (''trust_domain.posture'', TrustDomainPosture), (''federation.bundle_applied'', FederationBundleApplied),
      (''federation.bundle_rejected'', FederationBundleRejected), (''audit.alert'', AuditAlert),
      (''workload.attested'', WorkloadAttested), (''workload.attestation_denied'', WorkloadAttestationDenied)]"

definition kind_from_str :: "string \<Rightarrow> string + audit_kind" where
  "kind_from_str s = ok_or (map_of kind_table s) (''unknown audit event kind: '' @ s)"

datatype audit_level = LevelInfo | LevelWarn | LevelError

fun level_to_string :: "audit_level \<Rightarrow> string" where
  "level_to_string LevelInfo = ''info''"
| "level_to_string LevelWarn = ''warn''"
| "level_to_string LevelError = ''error''"

definition default_level_for_kind :: "audit_kind \<Rightarrow> audit_level" where
  "default_level_for_kind k =
     (if k \<in> {PolicyDenied, ApprovalDenied, RateLimited, AuditDropped, IdentityLoginFailed,
              WorkloadAttestationDenied, ExecveDenied} then LevelWarn
      else if k = OperationFailed then LevelError else LevelInfo)"

subsection \<open>Summaries\<close>

record principal_summary =
  ps_sub :: string
  ps_sub_label :: string
  ps_sub_roles :: "string list"
  ps_act :: string
  ps_act_label :: string
  ps_mode :: string
  ps_jti :: string
  ps_sub_teams :: "string list"

definition principal_summary_of :: "principal_context \<Rightarrow> principal_summary" where
  "principal_summary_of p =
     \<lparr>ps_sub = pc_sub p, ps_sub_label = pc_sub_label p,
      ps_sub_roles = map role_as_str (filter (\<lambda>r. r \<in> pc_sub_roles p) ALL_ROLES),
      ps_act = pc_act p, ps_act_label = pc_act_label p, ps_mode = access_mode_as_str (pc_mode p), ps_jti = pc_jti p,
      ps_sub_teams = pc_sub_teams p\<rparr>"

datatype approver_source =
    LocalBioSession | PairedDevice | PairedWorkstationSource | Fido2Source | PolkitAccount | InsecureAutoApprove

record approver_identity =
  ap_principal_id :: string
  ap_label :: string
  ap_source :: approver_source

record client_summary =
  cs_uid :: u32
  cs_gid :: u32
  cs_pid :: "32 word option"
  cs_exe_path :: "string option"
  cs_exe_sha256_prefix :: "string option"
  cs_codesign_team_id :: "string option"
  cs_client_type :: client_type
  cs_principal :: "principal_summary option"

definition client_summary_of :: "client_identity \<Rightarrow> client_type \<Rightarrow> client_summary" where
  "client_summary_of c ct =
     \<lparr>cs_uid = ci_uid c, cs_gid = ci_gid c, cs_pid = ci_pid c, cs_exe_path = ci_exe_path c,
      cs_exe_sha256_prefix = map_option (\<lambda>h. truncate_utf8 h 16) (ci_exe_sha256 c),
      cs_codesign_team_id = ci_codesign_team_id c, cs_client_type = ct, cs_principal = None\<rparr>"

definition with_principal :: "principal_context \<Rightarrow> client_summary \<Rightarrow> client_summary" where
  "with_principal p c = c\<lparr>cs_principal := Some (principal_summary_of p)\<rparr>"

definition target_summary :: "'z snext_scheme \<Rightarrow> (string \<times> string) list \<Rightarrow> (string \<times> string) list" where
  "target_summary X target = map (\<lambda>(k, v). (k, redact X (scrub_urls X v))) target"

record workspace_summary =
  wsu_remote_url :: "string option"
  wsu_branch :: "string option"
  wsu_dirty :: bool

definition workspace_summary_of :: "workspace_context \<Rightarrow> workspace_summary" where
  "workspace_summary_of w =
     \<lparr>wsu_remote_url = map_option sanitize_url (ws_remote_url w), wsu_branch = ws_branch w, wsu_dirty = ws_dirty w\<rparr>"

subsection \<open>Events\<close>

record audit_fields =
  ae_level :: audit_level
  ae_kind :: audit_kind
  ae_request_id :: "uuid option"
  ae_approval_id :: "uuid option"
  ae_client :: "client_summary option"
  ae_operation :: "string option"
  ae_safety :: "operation_safety option"
  ae_target :: "(string \<times> string) list option"
  ae_outcome :: "string option"
  ae_secret_names :: "string list"
  ae_policy_decision :: "string option"
  ae_detail :: "string option"
  ae_workspace :: "workspace_summary option"
  ae_request_hash :: "string option"
  ae_approver :: "approver_identity option"

record audit_event = audit_fields +
  ae_event_id :: uuid
  ae_sequence_number :: u64
  ae_ts_utc_ms :: int
  ae_latency_ms :: "int option"

definition audit_event_new :: "audit_kind \<Rightarrow> audit_fields" where
  "audit_event_new k =
     \<lparr>ae_level = default_level_for_kind k, ae_kind = k, ae_request_id = None, ae_approval_id = None,
      ae_client = None, ae_operation = None, ae_safety = None, ae_target = None, ae_outcome = None,
      ae_secret_names = [], ae_policy_decision = None, ae_detail = None, ae_workspace = None,
      ae_request_hash = None, ae_approver = None\<rparr>"

definition policy_decision_to_string :: "policy_decision \<Rightarrow> string" where
  "policy_decision_to_string dec =
     (if pd_allowed dec
      then ''ALLOW'' @ (case pd_matched_rule dec of None \<Rightarrow> [] | Some rule \<Rightarrow> '' (rule='' @ rule @ '')'')
      else ''DENY'' @ (case pd_denial_reason dec of None \<Rightarrow> [] | Some reason \<Rightarrow> '': '' @ reason))"

end
