(* ===== verification/Rate_Limit.thy ===== *)
theory Rate_Limit
  imports External
begin

text \<open>
  Sliding-window rate limiting: \<open>RateLimiter\<close> of \<open>src/crates/opaque-core/src/rate_limit.rs\<close> and
  \<open>ApprovalRateLimiter\<close> of \<open>src/crates/opaqued/src/enclave.rs\<close>.  Both meet one contract, the locale
  \<open>window_limiter\<close>: along every run on a monotonic clock no more than the limit of requests is recorded inside
  any window.  Instants and durations are nanoseconds; \<open>Instant::duration_since\<close> saturates at zero, as
  subtraction on \<open>nat\<close> does.
\<close>

subsection \<open>The contract\<close>

definition in_window :: "nat \<Rightarrow> nat \<Rightarrow> nat \<Rightarrow> bool" where
  "in_window window u t \<longleftrightarrow> t \<le> u \<and> u - t < window"

text \<open>The times at which a key was recorded along a run of operations.\<close>

fun recorded_at :: "('op \<Rightarrow> 's \<Rightarrow> 's) \<Rightarrow> ('op \<Rightarrow> nat) \<Rightarrow> ('op \<Rightarrow> 's \<Rightarrow> 'k \<Rightarrow> bool) \<Rightarrow> 'k \<Rightarrow> 'op list \<Rightarrow> 's \<Rightarrow> nat list" where
  "recorded_at exec clock records k [] s = []"
| "recorded_at exec clock records k (op # ops) s =
     (if records op s k then [clock op] else []) @ recorded_at exec clock records k ops (exec op s)"

locale window_limiter =
  fixes exec :: "'op \<Rightarrow> 's \<Rightarrow> 's"
    and clock :: "'op \<Rightarrow> nat"
    and records :: "'op \<Rightarrow> 's \<Rightarrow> 'k \<Rightarrow> bool"
    and bucket :: "'s \<Rightarrow> 'k \<Rightarrow> nat list"
    and limit :: "'k \<Rightarrow> nat"
    and window :: "'k \<Rightarrow> nat"
  assumes record_room: "records op s k \<Longrightarrow> length (filter (\<lambda>t. clock op - t < window k) (bucket s k)) < limit k"
    and record_adds: "records op s k \<Longrightarrow>
      bucket (exec op s) k = filter (\<lambda>t. clock op - t < window k) (bucket s k) @ [clock op]"
    and others_kept: "\<not> records op s k \<Longrightarrow>
      filter (\<lambda>t. clock op - t < window k) (bucket (exec op s) k) = filter (\<lambda>t. clock op - t < window k) (bucket s k)"
begin

text \<open>The bucket holds every recorded time that can still count at or after the instant \<open>T\<close>.\<close>

definition tracks :: "nat \<Rightarrow> 'k \<Rightarrow> nat list \<Rightarrow> 's \<Rightarrow> bool" where
  "tracks T k ts s \<longleftrightarrow>
     (\<forall>u\<ge>T. filter (\<lambda>t. u - t < window k) (bucket s k) = filter (\<lambda>t. u - t < window k) ts)
     \<and> (\<forall>t\<in>set ts. t \<le> T)
     \<and> (\<forall>u. length (filter (in_window (window k) u) ts) \<le> limit k)"

lemma filter_later: "u \<le> v \<Longrightarrow> filter (\<lambda>t. v - t < w) (filter (\<lambda>t. u - t < w) ts) = filter (\<lambda>t. v - t < w) (ts :: nat list)"
  by (induction ts) auto

lemma tracks_step:
  assumes t: "tracks T k ts s" and T: "T \<le> clock op"
  shows "tracks (clock op) k (ts @ (if records op s k then [clock op] else [])) (exec op s)"
proof (cases "records op s k")
  case True
  let ?now = "clock op" and ?w = "window k"
  have recent: "length (filter (\<lambda>t. ?now - t < ?w) ts) < limit k"
    using record_room[OF True] t T by (simp add: tracks_def)
  have "length (filter (in_window ?w u) (ts @ [?now])) \<le> limit k" for u
  proof (cases "?now \<le> u")
    case True
    have "length (filter (in_window ?w u) ts) \<le> length (filter (\<lambda>t. ?now - t < ?w) ts)"
      using True by (induction ts) (auto simp: in_window_def)
    then show ?thesis using recent by simp
  next
    case False
    then show ?thesis using t by (simp add: tracks_def in_window_def)
  qed
  moreover have "filter (\<lambda>t. u - t < ?w) (bucket (exec op s) k) = filter (\<lambda>t. u - t < ?w) (ts @ [?now])"
    if "?now \<le> u" for u
    using that t T record_adds[OF True] filter_later[of ?now u ?w "bucket s k"] by (simp add: tracks_def)
  ultimately show ?thesis using True t T by (auto simp: tracks_def)
next
  case False
  let ?now = "clock op" and ?w = "window k"
  have "filter (\<lambda>t. u - t < ?w) (bucket (exec op s) k) = filter (\<lambda>t. u - t < ?w) ts" if "?now \<le> u" for u
    using that t T others_kept[OF False] filter_later[of ?now u ?w "bucket s k"]
      filter_later[of ?now u ?w "bucket (exec op s) k"] by (simp add: tracks_def)
  then show ?thesis using False t T by (auto simp: tracks_def)
qed

lemma tracks_run:
  assumes "tracks T k ts s" "sorted (map clock ops)" "\<forall>op\<in>set ops. T \<le> clock op"
  shows "\<exists>T'. tracks T' k (ts @ recorded_at exec clock records k ops s) (fold exec ops s)"
  using assms
proof (induction ops arbitrary: T ts s)
  case (Cons op ops)
  have "tracks (clock op) k (ts @ (if records op s k then [clock op] else [])) (exec op s)"
    using Cons.prems by (intro tracks_step) auto
  moreover have "sorted (map clock ops)" "\<forall>op'\<in>set ops. clock op \<le> clock op'" using Cons.prems(2) by auto
  ultimately obtain T' where "tracks T' k ((ts @ (if records op s k then [clock op] else []))
      @ recorded_at exec clock records k ops (exec op s)) (fold exec ops (exec op s))"
    using Cons.IH by blast
  then show ?case by auto
qed auto

lemma window_bound:
  assumes "bucket s k = []" "sorted (map clock ops)"
  shows "length (filter (in_window (window k) u) (recorded_at exec clock records k ops s)) \<le> limit k"
proof -
  have "tracks 0 k [] s" using assms(1) by (simp add: tracks_def)
  from tracks_run[OF this assms(2)] obtain T where
    "tracks T k (recorded_at exec clock records k ops s) (fold exec ops s)" by auto
  then show ?thesis by (simp add: tracks_def)
qed

end

subsection \<open>RateLimiter\<close>

record rate_limit_rule =
  rl_pattern :: string
  rl_max_requests :: u32
  rl_window_secs :: u64

type_synonym buckets = "string \<times> nat \<Rightarrow> nat list option"

abbreviation nanos_per_sec :: nat where "nanos_per_sec \<equiv> 1000000000"

definition window_nanos :: "rate_limit_rule \<Rightarrow> nat" where
  "window_nanos rule = unat (rl_window_secs rule) * nanos_per_sec"

definition prune :: "nat \<Rightarrow> nat \<Rightarrow> nat list \<Rightarrow> nat list" where
  "prune window now ts = filter (\<lambda>t. now - t < window) ts"

definition retry_after :: "nat \<Rightarrow> nat \<Rightarrow> nat list \<Rightarrow> nat" where
  "retry_after window now ts =
     (case ts of
        [] \<Rightarrow> 1
      | oldest # _ \<Rightarrow>
          let elapsed = now - oldest
          in if elapsed < window then max ((window - elapsed) div nanos_per_sec) 1 else 1)"

definition entry_or_new :: "buckets \<Rightarrow> string \<times> nat \<Rightarrow> nat list" where
  "entry_or_new B k = (case B k of None \<Rightarrow> [] | Some ts \<Rightarrow> ts)"

fun check_rules ::
  "'z ext_scheme \<Rightarrow> nat \<Rightarrow> string \<Rightarrow> string \<Rightarrow> nat \<Rightarrow> rate_limit_rule list \<Rightarrow> buckets \<Rightarrow> (nat + unit) \<times> buckets" where
  "check_rules X now client operation i [] B = (Inr (), B)"
| "check_rules X now client operation i (rule # rules) B =
     (if \<not> glob_match X (rl_pattern rule) operation then check_rules X now client operation (Suc i) rules B
      else let ts = prune (window_nanos rule) now (entry_or_new B (client, i))
           in if length ts \<ge> unat (rl_max_requests rule)
              then (Inl (retry_after (window_nanos rule) now ts), B((client, i) \<mapsto> ts))
              else check_rules X now client operation (Suc i) rules (B((client, i) \<mapsto> ts @ [now])))"

text \<open>\<open>RateLimiter::check\<close>; on the left, \<open>retry_after_secs\<close>.\<close>

definition rate_check ::
  "'z ext_scheme \<Rightarrow> rate_limit_rule list \<Rightarrow> nat \<Rightarrow> string \<Rightarrow> string \<Rightarrow> buckets \<Rightarrow> (nat + unit) \<times> buckets" where
  "rate_check X rules now client operation B =
     (if rules = [] then (Inr (), B) else check_rules X now client operation 0 rules B)"

definition cleanup_expired :: "rate_limit_rule list \<Rightarrow> nat \<Rightarrow> buckets \<Rightarrow> buckets" where
  "cleanup_expired rules now B =
     (\<lambda>k. case B k of
            None \<Rightarrow> None
          | Some ts \<Rightarrow>
              if snd k < length rules
              then let ts' = prune (window_nanos (rules ! snd k)) now ts in if ts' = [] then None else Some ts'
              else Some ts)"

subsection \<open>Runs of the limiter\<close>

datatype rl_op = RCheck nat string string | RCleanup nat

fun rl_clock :: "rl_op \<Rightarrow> nat" where
  "rl_clock (RCheck now client operation) = now"
| "rl_clock (RCleanup now) = now"

fun rl_exec :: "'z ext_scheme \<Rightarrow> rate_limit_rule list \<Rightarrow> rl_op \<Rightarrow> buckets \<Rightarrow> buckets" where
  "rl_exec X rules (RCheck now client operation) B = snd (rate_check X rules now client operation B)"
| "rl_exec X rules (RCleanup now) B = cleanup_expired rules now B"

text \<open>Whether a check records the request under rule \<open>j\<close>: the loop reaches it and it has room.\<close>

fun records_rule ::
  "'z ext_scheme \<Rightarrow> nat \<Rightarrow> string \<Rightarrow> string \<Rightarrow> nat \<Rightarrow> rate_limit_rule list \<Rightarrow> buckets \<Rightarrow> nat \<Rightarrow> bool" where
  "records_rule X now client operation i [] B j = False"
| "records_rule X now client operation i (rule # rules) B j =
     (if \<not> glob_match X (rl_pattern rule) operation then records_rule X now client operation (Suc i) rules B j
      else length (prune (window_nanos rule) now (entry_or_new B (client, i))) < unat (rl_max_requests rule)
           \<and> (j = i \<or> records_rule X now client operation (Suc i) rules B j))"

fun rl_records :: "'z ext_scheme \<Rightarrow> rate_limit_rule list \<Rightarrow> rl_op \<Rightarrow> buckets \<Rightarrow> string \<times> nat \<Rightarrow> bool" where
  "rl_records X rules (RCheck now client operation) B k =
     (fst k = client \<and> records_rule X now client operation 0 rules B (snd k))"
| "rl_records X rules (RCleanup now) B k = False"

text \<open>A request under the key (client, rule) that was let through.\<close>

fun rl_accepted :: "'z ext_scheme \<Rightarrow> rate_limit_rule list \<Rightarrow> rl_op \<Rightarrow> buckets \<Rightarrow> string \<times> nat \<Rightarrow> bool" where
  "rl_accepted X rules (RCheck now client operation) B k =
     (fst k = client \<and> snd k < length rules \<and> glob_match X (rl_pattern (rules ! snd k)) operation
      \<and> is_ok (fst (rate_check X rules now client operation B)))"
| "rl_accepted X rules (RCleanup now) B k = False"

definition rl_limit :: "rate_limit_rule list \<Rightarrow> string \<times> nat \<Rightarrow> nat" where
  "rl_limit rules k = (if snd k < length rules then unat (rl_max_requests (rules ! snd k)) else 0)"

definition rl_window :: "rate_limit_rule list \<Rightarrow> string \<times> nat \<Rightarrow> nat" where
  "rl_window rules k = (if snd k < length rules then window_nanos (rules ! snd k) else 0)"

lemma entry_or_new_upd [simp]:
  "entry_or_new (B(k \<mapsto> ts)) k' = (if k' = k then ts else entry_or_new B k')"
  by (simp add: entry_or_new_def)

lemma records_rule_range: "records_rule X now client operation i rules B j \<Longrightarrow> i \<le> j \<and> j < i + length rules"
  by (induction rules arbitrary: i) (auto split: if_splits, force+)

lemma records_rule_other:
  "(\<And>j. i \<le> j \<Longrightarrow> entry_or_new B (client, j) = entry_or_new B' (client, j)) \<Longrightarrow>
     records_rule X now client operation i rules B j = records_rule X now client operation i rules B' j"
  by (induction rules arbitrary: i) simp_all

text \<open>What the loop leaves in the bucket of a key.\<close>

lemma check_rules_bucket:
  "entry_or_new (snd (check_rules X now client operation i rules B)) k
     \<in> (let ts = entry_or_new B k; ts' = prune (window_nanos (rules ! (snd k - i))) now ts
        in if fst k = client \<and> records_rule X now client operation i rules B (snd k) then {ts' @ [now]}
           else if i \<le> snd k \<and> snd k < i + length rules then {ts, ts'} else {ts})"
proof (induction rules arbitrary: i B)
  case Nil
  then show ?case by (simp add: Let_def)
next
  case (Cons rule rules)
  define ts where "ts = prune (window_nanos rule) now (entry_or_new B (client, i))"
  have shift: "Suc i \<le> j \<Longrightarrow> (rule # rules) ! (j - i) = rules ! (j - Suc i)" for j
    by (metis Suc_diff_Suc Suc_le_eq nth_Cons_Suc)
  show ?case
  proof (cases "glob_match X (rl_pattern rule) operation")
    case False
    then show ?thesis using Cons[of "Suc i" B] shift[of "snd k"] records_rule_range[of X now client operation "Suc i" rules B "snd k"]
      by (auto simp: Let_def split: if_splits)
  next
    case g: True
    show ?thesis
    proof (cases "unat (rl_max_requests rule) \<le> length ts")
      case True
      then show ?thesis using g
        by (cases "k = (client, i)"; cases k) (auto simp: ts_def Let_def simp del: fun_upd_apply)
    next
      case False
      define B' where "B' = B((client, i) \<mapsto> ts @ [now])"
      have e: "check_rules X now client operation i (rule # rules) B
          = check_rules X now client operation (Suc i) rules B'"
        using g False by (simp add: ts_def B'_def Let_def)
      have r: "records_rule X now client operation i (rule # rules) B j
          \<longleftrightarrow> j = i \<or> records_rule X now client operation (Suc i) rules B' j" for j
        using g False records_rule_other[of "Suc i" B client B' X now operation rules j]
        by (simp add: ts_def B'_def del: fun_upd_apply)
      have nr: "\<not> records_rule X now client operation (Suc i) rules B' i"
        using records_rule_range by (metis not_less_eq_eq order_refl)
      have b: "k \<noteq> (client, i) \<Longrightarrow> entry_or_new B' k = entry_or_new B k"
        "entry_or_new B' (client, i) = ts @ [now]" by (simp_all add: B'_def del: fun_upd_apply)
      show ?thesis
      proof (cases "k = (client, i)")
        case True
        then show ?thesis using Cons[of "Suc i" B'] nr b(2) unfolding e r by (simp add: ts_def Let_def)
      next
        case False
        then show ?thesis using Cons[of "Suc i" B'] b(1) shift[of "snd k"] unfolding e r
          by (cases k) (auto simp: Let_def split: if_splits dest: records_rule_range)
      qed
    qed
  qed
qed

lemma records_rule_room:
  "records_rule X now client operation i rules B j \<Longrightarrow>
     length (prune (window_nanos (rules ! (j - i))) now (entry_or_new B (client, j)))
       < unat (rl_max_requests (rules ! (j - i)))"
proof (induction rules arbitrary: i)
  case (Cons rule rules)
  have "Suc i \<le> j \<Longrightarrow> (rule # rules) ! (j - i) = rules ! (j - Suc i)"
    by (metis Suc_diff_Suc Suc_le_eq nth_Cons_Suc)
  then show ?case using Cons.prems Cons.IH[of "Suc i"] records_rule_range[of X now client operation "Suc i" rules B j]
    by (auto split: if_splits)
qed simp

lemma check_rules_ok:
  "is_ok (fst (check_rules X now client operation i rules B)) \<Longrightarrow> i \<le> j \<Longrightarrow> j < i + length rules \<Longrightarrow>
     glob_match X (rl_pattern (rules ! (j - i))) operation \<Longrightarrow> records_rule X now client operation i rules B j"
proof (induction rules arbitrary: i B)
  case (Cons rule rules)
  have shift: "Suc i \<le> j \<Longrightarrow> (rule # rules) ! (j - i) = rules ! (j - Suc i)"
    by (metis Suc_diff_Suc Suc_le_eq nth_Cons_Suc)
  show ?case
  proof (cases "glob_match X (rl_pattern rule) operation")
    case False
    then have "Suc i \<le> j" using Cons.prems by (cases "j = i") auto
    then show ?thesis using False Cons shift by simp
  next
    case True
    define B' where "B' = B((client, i) \<mapsto> prune (window_nanos rule) now (entry_or_new B (client, i)) @ [now])"
    have room: "length (prune (window_nanos rule) now (entry_or_new B (client, i))) < unat (rl_max_requests rule)"
      and ok: "is_ok (fst (check_rules X now client operation (Suc i) rules B'))"
      using Cons.prems(1) True by (auto simp: Let_def B'_def split: if_splits)
    have "records_rule X now client operation (Suc i) rules B j
        = records_rule X now client operation (Suc i) rules B' j"
      by (rule records_rule_other) (simp add: B'_def del: fun_upd_apply)
    then show ?thesis using Cons.IH[OF ok] Cons.prems(2-) shift room True by (cases "j = i") auto
  qed
qed simp

lemma accepted_is_recorded: "rl_accepted X rules op B k \<Longrightarrow> rl_records X rules op B k"
  using check_rules_ok[of X _ _ _ 0 rules B "snd k"]
  by (cases op) (auto simp: rate_check_def split: if_splits)

text \<open>The limiter meets the contract.\<close>

interpretation rate_window: window_limiter "rl_exec X rules" rl_clock "rl_records X rules" entry_or_new
  "rl_limit rules" "rl_window rules" for X rules
proof
  fix op B and k :: "string \<times> nat"
  show "length (filter (\<lambda>t. rl_clock op - t < rl_window rules k) (entry_or_new B k)) < rl_limit rules k"
    if "rl_records X rules op B k"
    using that records_rule_room[of X _ "fst k" _ 0 rules B "snd k"] records_rule_range[of X _ "fst k" _ 0 rules B "snd k"]
    by (cases op) (auto simp: prune_def rl_window_def rl_limit_def)
  have bk: "entry_or_new (snd (check_rules X now client operation 0 rules B)) k
      \<in> (let ts = entry_or_new B k; ts' = prune (window_nanos (rules ! snd k)) now ts
         in if fst k = client \<and> records_rule X now client operation 0 rules B (snd k) then {ts' @ [now]}
            else if snd k < length rules then {ts, ts'} else {ts})" for now client operation
    using check_rules_bucket[of X now client operation 0 rules B k] by (simp only: le0 simp_thms add_0 diff_zero)
  show "entry_or_new (rl_exec X rules op B) k = filter (\<lambda>t. rl_clock op - t < rl_window rules k) (entry_or_new B k) @ [rl_clock op]"
    if rec: "rl_records X rules op B k"
  proof (cases op)
    case (RCheck now client operation)
    have r: "fst k = client" "records_rule X now client operation 0 rules B (snd k)" using rec RCheck by simp_all
    then have "snd k < length rules" "rules \<noteq> []" using records_rule_range by fastforce+
    then show ?thesis using bk[of now client operation] r RCheck by (simp add: rate_check_def rl_window_def prune_def)
  qed (use rec in simp)
  show "filter (\<lambda>t. rl_clock op - t < rl_window rules k) (entry_or_new (rl_exec X rules op B) k)
      = filter (\<lambda>t. rl_clock op - t < rl_window rules k) (entry_or_new B k)"
    if rec: "\<not> rl_records X rules op B k"
  proof (cases op)
    case (RCheck now client operation)
    then show ?thesis using bk[of now client operation] rec
      by (auto simp: rate_check_def rl_window_def prune_def Let_def split: if_splits)
  next
    case (RCleanup now)
    have "entry_or_new (cleanup_expired rules now B) k
        = (if snd k < length rules then prune (window_nanos (rules ! snd k)) now (entry_or_new B k) else entry_or_new B k)"
      by (auto simp: cleanup_expired_def entry_or_new_def Let_def prune_def split: option.splits)
    then show ?thesis using RCleanup by (simp add: rl_window_def prune_def)
  qed
qed

subsection \<open>Theorems\<close>

lemma accepted_le_recorded:
  "length (filter P (recorded_at (rl_exec X rules) rl_clock (rl_accepted X rules) k ops B))
     \<le> length (filter P (recorded_at (rl_exec X rules) rl_clock (rl_records X rules) k ops B))"
proof (induction ops arbitrary: B)
  case (Cons op ops)
  show ?case using Cons[of "rl_exec X rules op B"] accepted_is_recorded[of X rules op B k] by auto
qed simp

lemma check_rules_retry:
  "check_rules X now client operation i rules B = (Inl n, B') \<Longrightarrow>
     \<exists>j < length rules. glob_match X (rl_pattern (rules ! j)) operation
       \<and> 1 \<le> n \<and> n \<le> max 1 (unat (rl_window_secs (rules ! j)))"
proof (induction rules arbitrary: i B)
  case (Cons rule rules)
  have later: ?case if "check_rules X now client operation (Suc i) rules B2 = (Inl n, B')" for B2
    using Cons.IH[OF that] by (metis Suc_mono length_Cons nth_Cons_Suc)
  have "1 \<le> retry_after (window_nanos rule) now ts \<and> retry_after (window_nanos rule) now ts \<le> max 1 (unat (rl_window_secs rule))" for ts
  proof -
    have "(unat (rl_window_secs rule) * nanos_per_sec - e) div nanos_per_sec \<le> unat (rl_window_secs rule)" for e
      by (metis diff_le_self div_le_mono nonzero_mult_div_cancel_right zero_neq_numeral)
    then show ?thesis by (auto simp: retry_after_def window_nanos_def Let_def max_def split: list.splits)
  qed
  then have here: ?case if "n = retry_after (window_nanos rule) now ts" "glob_match X (rl_pattern rule) operation" for ts
    using that by (intro exI[of _ 0]) simp
  show ?case using Cons.prems later here by (auto simp: Let_def split: if_splits)
qed simp

text \<open>The rate limiter holds its limit: along every sequence of checks and cleanups on a monotonic clock, for every
  rule, client and instant, the requests of that client matching the rule that were let through inside the window
  ending there number at most \<open>max_requests\<close>.\<close>

theorem rate_limit_window_bound:
  assumes "sorted (map rl_clock ops)" "i < length rules"
  shows "length (filter (in_window (window_nanos (rules ! i)) u)
      (recorded_at (rl_exec X rules) rl_clock (rl_accepted X rules) (client, i) ops (\<lambda>_. None)))
    \<le> unat (rl_max_requests (rules ! i))"
proof -
  have "entry_or_new (\<lambda>_. None) (client, i) = []" by (simp add: entry_or_new_def)
  from rate_window.window_bound[OF this assms(1), of rules u X]
  have "length (filter (in_window (rl_window rules (client, i)) u)
      (recorded_at (rl_exec X rules) rl_clock (rl_records X rules) (client, i) ops (\<lambda>_. None))) \<le> rl_limit rules (client, i)" .
  from order_trans[OF accepted_le_recorded this] show ?thesis using assms(2)
    by (simp add: rl_limit_def rl_window_def)
qed

definition demo_ext :: ext where
  "demo_ext = \<lparr>uuid_parse_str = (\<lambda>_. None), uuid_to_string = (\<lambda>_. []), sha256_bytes = id,
     regex_is_match = (\<lambda>_ _. False), glob_match = (=), verifying_key_ok = (\<lambda>_. True),
     ed25519_verify = (\<lambda>_ _ _. False), ed25519_verify_strict = (\<lambda>_ _ _. False),
     ed25519_sign = (\<lambda>_ _. []), b64url_encode = id, b64url_decode = Some\<rparr>"

definition demo_rate_rule :: rate_limit_rule where
  "demo_rate_rule = \<lparr>rl_pattern = ''op'', rl_max_requests = 1, rl_window_secs = 60\<rparr>"

theorem rate_limit_window_bound_witness:
  "length (filter (in_window (window_nanos demo_rate_rule) 5)
      (recorded_at (rl_exec demo_ext [demo_rate_rule]) rl_clock (rl_accepted demo_ext [demo_rate_rule])
         (''c'', 0) [RCheck 1 ''c'' ''op'', RCheck 2 ''c'' ''op'', RCleanup 3] (\<lambda>_. None))) \<le> 1"
  using rate_limit_window_bound[of "[RCheck 1 ''c'' ''op'', RCheck 2 ''c'' ''op'', RCleanup 3]" 0 "[demo_rate_rule]" 5
      demo_ext "''c''"]
  by (simp add: demo_rate_rule_def del: recorded_at.simps)

text \<open>A refusal of the rate limiter names a wait between one second and the window of a rule that matches the
  operation (one second at least).\<close>

theorem rate_limit_retry_bounds:
  assumes "rate_check X rules now client operation B = (Inl n, B')"
  shows "\<exists>j < length rules. glob_match X (rl_pattern (rules ! j)) operation
    \<and> 1 \<le> n \<and> n \<le> max 1 (unat (rl_window_secs (rules ! j)))"
  using assms check_rules_retry by (auto simp: rate_check_def split: if_splits)

theorem rate_limit_retry_bounds_witness:
  "\<exists>n B'. rate_check demo_ext [demo_rate_rule] 2 ''c'' ''op'' [(''c'', 0) \<mapsto> [1]] = (Inl n, B') \<and> 1 \<le> n \<and> n \<le> 60"
proof -
  obtain n B' where r: "rate_check demo_ext [demo_rate_rule] 2 ''c'' ''op'' [(''c'', 0) \<mapsto> [1]] = (Inl n, B')"
    by (simp add: rate_check_def demo_rate_rule_def demo_ext_def entry_or_new_def prune_def window_nanos_def Let_def)
  from rate_limit_retry_bounds[OF this] have "1 \<le> n \<and> n \<le> 60" by (simp add: demo_rate_rule_def)
  with r show ?thesis by blast
qed

end
