(* ===== verification/Lease.thy ===== *)
theory Lease
  imports Request Rate_Limit
begin

text \<open>
  The approval lease cache and the approval rate limiter of \<open>src/crates/opaqued/src/enclave.rs\<close>.  Instants
  are nanoseconds of the monotonic clock, passed in by the caller; both structures are guarded by a mutex, so every
  operation is atomic.
\<close>

subsection \<open>Lease keys\<close>

record lease_key =
  lk_client_fingerprint :: string
  lk_operation :: string
  lk_target_canonical :: string
  lk_secret_refs_canonical :: string
  lk_params_hash :: string
  lk_delegation :: "(string \<times> string) option"

definition fingerprint_preimage :: "'z opext_scheme \<Rightarrow> client_identity \<Rightarrow> string" where
  "fingerprint_preimage X c =
     to_le_bytes (ci_uid c) @ to_le_bytes (ci_gid c) @ opt_bytes (ci_exe_path c) @ nul
     @ opt_bytes (ci_exe_sha256 c) @ nul @ opt_bytes (ci_codesign_team_id c)
     @ (case ci_workload c of
          None \<Rightarrow> []
        | Some w \<Rightarrow> nul @ ''opaque.workload-lease.v1'' @ nul @ json_of_workload X w)"

definition lease_key_from_request :: "'z opext_scheme \<Rightarrow> operation_request \<Rightarrow> lease_key" where
  "lease_key_from_request X r =
     \<lparr>lk_client_fingerprint = sha256 X (fingerprint_preimage X (rq_client_identity r)),
      lk_operation = rq_operation r,
      lk_target_canonical = join_str nul (map (\<lambda>(k, v). k @ ''='' @ v) (sorted_entries (rq_target r))),
      lk_secret_refs_canonical = join_str nul (sort (rq_secret_ref_names r)),
      lk_params_hash = sha256 X (json_to_string X (rq_params r)),
      lk_delegation = map_option (\<lambda>p. (pc_sub p, pc_jti p)) (rq_principal r)\<rparr>"

subsection \<open>The cache\<close>

definition DEFAULT_LEASE_TTL :: nat where "DEFAULT_LEASE_TTL = 600 * nanos_per_sec"
definition MAX_LEASE_TTL :: nat where "MAX_LEASE_TTL = 3600 * nanos_per_sec"

record lease_entry =
  le_granted_at :: nat
  le_ttl :: nat
  le_one_time :: bool
  le_budget :: "u32 option"
  le_spent :: u32

datatype lease_use = LU_Missing | LU_Used | LU_Exhausted

type_synonym lease_cache = "lease_key \<Rightarrow> lease_entry option"

definition saturating_inc :: "u32 \<Rightarrow> u32" where
  "saturating_inc w = (if w = - 1 then w else w + 1)"

definition lease_live :: "nat \<Rightarrow> lease_entry \<Rightarrow> bool" where
  "lease_live now e = (now - le_granted_at e < le_ttl e)"

definition lease_take :: "nat \<Rightarrow> lease_key \<Rightarrow> lease_cache \<Rightarrow> lease_use \<times> lease_cache" where
  "lease_take now k L =
     (case L k of
        None \<Rightarrow> (LU_Missing, L)
      | Some e \<Rightarrow>
          if lease_live now e
          then if is_some_and (le_budget e) (\<lambda>b. le_spent e \<ge> b) then (LU_Exhausted, L)
               else (LU_Used, L(k \<mapsto> e\<lparr>le_spent := saturating_inc (le_spent e)\<rparr>))
          else (LU_Missing, L(k := None)))"

definition lease_grant :: "nat \<Rightarrow> lease_key \<Rightarrow> nat \<Rightarrow> bool \<Rightarrow> u32 option \<Rightarrow> lease_cache \<Rightarrow> lease_cache" where
  "lease_grant now k ttl one_time budget L =
     L(k \<mapsto> \<lparr>le_granted_at = now, le_ttl = min ttl MAX_LEASE_TTL, le_one_time = one_time,
             le_budget = (if one_time then Some 1 else budget), le_spent = 1\<rparr>)"

definition lease_clear :: "lease_cache \<Rightarrow> lease_cache" where
  "lease_clear L = (\<lambda>_. None)"

record lease_info =
  li_operation :: string
  li_target :: string
  li_client_fingerprint :: string
  li_ttl_remaining_secs :: nat
  li_one_time :: bool
  li_budget :: "u32 option"
  li_spent :: u32
  li_remaining_uses :: "u32 option"

text \<open>\<open>active_leases\<close>, one entry of the iteration.\<close>

definition lease_info_of :: "nat \<Rightarrow> lease_key \<Rightarrow> lease_entry \<Rightarrow> lease_info option" where
  "lease_info_of now k e =
     (let elapsed = now - le_granted_at e
      in if elapsed \<ge> le_ttl e then None
         else Some \<lparr>li_operation = lk_operation k, li_target = lk_target_canonical k,
                    li_client_fingerprint = take 12 (lk_client_fingerprint k),
                    li_ttl_remaining_secs = (le_ttl e - elapsed) div nanos_per_sec, li_one_time = le_one_time e,
                    li_budget = le_budget e, li_spent = le_spent e,
                    li_remaining_uses = map_option (\<lambda>b. if le_spent e \<le> b then b - le_spent e else 0) (le_budget e)\<rparr>)"

subsection \<open>The approval rate limiter\<close>

type_synonym approval_windows = "(32 word option \<times> string) \<Rightarrow> nat list option"

definition approval_entries :: "approval_windows \<Rightarrow> 32 word option \<times> string \<Rightarrow> nat list" where
  "approval_entries W k = (case W k of None \<Rightarrow> [] | Some ts \<Rightarrow> ts)"

definition check_and_record ::
  "nat \<Rightarrow> nat \<Rightarrow> nat \<Rightarrow> 32 word option \<times> string \<Rightarrow> approval_windows \<Rightarrow> bool \<times> approval_windows" where
  "check_and_record max_requests window_duration now k W =
     (let entries = filter (\<lambda>t. now - t < window_duration) (approval_entries W k)
      in if length entries \<ge> max_requests then (False, W(k \<mapsto> entries)) else (True, W(k \<mapsto> entries @ [now])))"

text \<open>The limits that \<open>EnclaveBuilder::build\<close> installs.\<close>

definition APPROVAL_LIMIT :: nat where "APPROVAL_LIMIT = 3"
definition APPROVAL_WINDOW :: nat where "APPROVAL_WINDOW = 60 * nanos_per_sec"

type_synonym approval_call = "nat \<times> (32 word option \<times> string)"

definition approval_exec :: "approval_call \<Rightarrow> approval_windows \<Rightarrow> approval_windows" where
  "approval_exec c W = snd (check_and_record APPROVAL_LIMIT APPROVAL_WINDOW (fst c) (snd c) W)"

definition approval_admits :: "approval_call \<Rightarrow> approval_windows \<Rightarrow> 32 word option \<times> string \<Rightarrow> bool" where
  "approval_admits c W k \<longleftrightarrow> k = snd c \<and> fst (check_and_record APPROVAL_LIMIT APPROVAL_WINDOW (fst c) (snd c) W)"

interpretation approval_window: window_limiter approval_exec fst approval_admits approval_entries
  "\<lambda>_. APPROVAL_LIMIT" "\<lambda>_. APPROVAL_WINDOW"
proof
  fix c :: approval_call and W and k :: "32 word option \<times> string"
  show "approval_admits c W k \<Longrightarrow>
      length (filter (\<lambda>t. fst c - t < APPROVAL_WINDOW) (approval_entries W k)) < APPROVAL_LIMIT"
    by (auto simp: approval_admits_def check_and_record_def Let_def split: if_splits)
  show "approval_admits c W k \<Longrightarrow>
      approval_entries (approval_exec c W) k = filter (\<lambda>t. fst c - t < APPROVAL_WINDOW) (approval_entries W k) @ [fst c]"
    by (auto simp: approval_admits_def approval_exec_def check_and_record_def approval_entries_def Let_def split: if_splits)
  show "\<not> approval_admits c W k \<Longrightarrow>
      filter (\<lambda>t. fst c - t < APPROVAL_WINDOW) (approval_entries (approval_exec c W) k)
        = filter (\<lambda>t. fst c - t < APPROVAL_WINDOW) (approval_entries W k)"
    by (auto simp: approval_admits_def approval_exec_def check_and_record_def approval_entries_def Let_def split: if_splits)
qed

subsection \<open>Properties\<close>

definition entry_ok :: "lease_entry \<Rightarrow> bool" where
  "entry_ok e \<longleftrightarrow> le_ttl e \<le> MAX_LEASE_TTL \<and> 1 \<le> le_spent e \<and> is_none_or (le_budget e) (\<lambda>b. le_spent e \<le> b)"

lemma unat_saturating_inc: "unat (saturating_inc w) = (if w = - 1 then unat w else Suc (unat w))"
proof -
  have "unat (1 + w) = Suc (unat w)" if "w \<noteq> - 1"
    using that by (intro unatSuc) (metis add_eq_0_iff)
  then show ?thesis by (simp add: saturating_inc_def add.commute)
qed

lemma saturating_inc_bound: "w < b \<Longrightarrow> saturating_inc w \<le> b"
  by (auto simp: word_le_nat_alt word_less_nat_alt unat_saturating_inc)

lemma saturating_inc_pos: "1 \<le> w \<Longrightarrow> 1 \<le> saturating_inc w"
  by (auto simp: word_le_nat_alt unat_saturating_inc)

end
