(* ===== verification/Enclave.thy ===== *)
theory Enclave
  imports Audit_Event Lease Workstation
begin

text \<open>
  The enforcement funnel for individual operations, \<open>src/crates/opaqued/src/enclave.rs\<close> with
  \<open>enclave/action.rs\<close>, \<open>opaque-core/src/operation_handler.rs\<close> and \<open>approval_gate.rs\<close>.

  \<open>Enclave::execute\<close> is asynchronous: it gives up control while it waits for the approval semaphore, for the
  approval gate, for the durable audit barrier and for the operation itself.  The synchronous code between two such
  points is one definition here; \<open>Enclave_System\<close> interleaves them.  Audit events are recorded with every field
  the funnel sets itself (\<open>audit_fields\<close>).
  What a handler's \<open>prepare\<close> returns, what the gate, the audit sink and the authority guard answer and what an
  executed action yields are inputs.
\<close>

subsection \<open>Errors\<close>

datatype enclave_error =
    EE_IdentityVerification string | EE_UnknownOperation string | EE_SafetyViolation string | EE_PolicyDenied string
  | EE_ApprovalNotGranted string | EE_ApprovalUnavailable string | EE_OperationFailed string | EE_RateLimited string
  | EE_InvalidInput string | EE_InvalidParams string | EE_Internal string

fun error_code :: "enclave_error \<Rightarrow> string" where
  "error_code (EE_IdentityVerification _) = ''identity_verification_failed''"
| "error_code (EE_InvalidInput _) = ''bad_request''"
| "error_code (EE_UnknownOperation _) = ''unknown_operation''"
| "error_code (EE_SafetyViolation _) = ''safety_violation''"
| "error_code (EE_PolicyDenied _) = ''policy_denied''"
| "error_code (EE_ApprovalNotGranted _) = ''approval_not_granted''"
| "error_code (EE_ApprovalUnavailable _) = ''approval_unavailable''"
| "error_code (EE_OperationFailed _) = ''operation_failed''"
| "error_code (EE_RateLimited _) = ''rate_limited''"
| "error_code (EE_InvalidParams _) = ''invalid_params''"
| "error_code (EE_Internal _) = ''internal_error''"

fun error_to_string :: "enclave_error \<Rightarrow> string" where
  "error_to_string (EE_IdentityVerification m) = ''client identity verification failed: '' @ m"
| "error_to_string (EE_UnknownOperation m) = ''unknown operation: '' @ m"
| "error_to_string (EE_SafetyViolation m) = ''operation safety violation: '' @ m"
| "error_to_string (EE_PolicyDenied m) = ''policy denied: '' @ m"
| "error_to_string (EE_ApprovalNotGranted m) = ''approval required but not granted: '' @ m"
| "error_to_string (EE_ApprovalUnavailable m) = ''approval unavailable: '' @ m"
| "error_to_string (EE_OperationFailed m) = ''operation execution failed: '' @ m"
| "error_to_string (EE_RateLimited m) = ''rate limited: '' @ m"
| "error_to_string (EE_InvalidInput m) = ''invalid input: '' @ m"
| "error_to_string (EE_InvalidParams m) = ''invalid params: '' @ m"
| "error_to_string (EE_Internal m) = ''internal error: '' @ m"

definition error_to_sanitized :: "'z snext_scheme \<Rightarrow> enclave_error \<Rightarrow> sanitized_response" where
  "error_to_sanitized X err = sanitize_response X (from_error (error_code err) (error_to_string err) JNull)"

subsection \<open>State\<close>

record approval_outcome =
  ao_approved :: bool
  ao_approver :: "approver_identity option"
  ao_workstation_receipt :: "signed_workstation_receipt option"

record prepared_operation =
  pp_target :: "(string \<times> string) list"
  pp_secret_ref_names :: "string list"
  pp_params :: json

text \<open>\<open>PreparedOperation::new\<close>; the encoded action is given.\<close>

definition prepared_new :: "json \<Rightarrow> (string \<times> string) list \<Rightarrow> string list \<Rightarrow> prepared_operation" where
  "prepared_new params target refs =
     \<lparr>pp_target = target, pp_secret_ref_names = remdups_adj (sort refs), pp_params = params\<rparr>"

type_synonym handler = "operation_request \<Rightarrow> string + prepared_operation"

text \<open>\<open>serde_json\<close> on the ordered rule set (\<open>None\<close> when it fails) and on a tenant binding.\<close>

record enext = snext +
  json_of_rules :: "policy_rule list \<Rightarrow> string option"
  tenant_from_value :: "json \<Rightarrow> tenant_binding option"

datatype target_os = MacOs | LinuxOs | OtherOs

fun platform_hint :: "target_os \<Rightarrow> string" where
  "platform_hint MacOs = ''Touch ID will prompt on the next attempt''"
| "platform_hint LinuxOs = ''configure polkit for biometric approval''"
| "platform_hint OtherOs = ''approve via the configured factor''"

record enclave =
  en_registry :: operation_registry
  en_handlers :: "(string \<times> handler) list"
  en_policy :: "policy_rule list"
  en_generation :: u64
  en_leases :: lease_cache
  en_windows :: approval_windows
  en_session_factor :: approval_factor
  en_target_os :: target_os
  en_audit :: "audit_fields list"

definition emit :: "audit_fields \<Rightarrow> enclave \<Rightarrow> enclave" where
  "emit ev E = E\<lparr>en_audit := en_audit E @ [ev]\<rparr>"

definition swap_policy :: "policy_rule list \<Rightarrow> enclave \<Rightarrow> nat \<times> enclave" where
  "swap_policy rules E =
     (length rules,
      E\<lparr>en_policy := rules, en_generation := en_generation E + 1, en_leases := lease_clear (en_leases E)\<rparr>)"

definition policy_digest :: "'z enext_scheme \<Rightarrow> policy_rule list \<Rightarrow> string option" where
  "policy_digest X rules =
     map_option (\<lambda>j. hex_encode (sha256_bytes X (''opaque.effective-policy.v1'' @ nul @ j))) (json_of_rules X rules)"

subsection \<open>Review text\<close>

definition newline :: string where "newline = [CHR 0x0A]"

definition hex4 :: "nat \<Rightarrow> string" where
  "hex4 n = map (\<lambda>i. hex_digit (n div 16 ^ i mod 16)) [3, 2, 1, 0]"

definition escape_direction_controls :: "string \<Rightarrow> string" where
  "escape_direction_controls s =
     concat (map (\<lambda>g. if list_ex bidi_control (utf8_chars g) then bs # ''u'' @ hex4 (hd (utf8_chars g)) else g)
       (utf8_groups s))"

definition render_argv :: "'z opext_scheme \<Rightarrow> string list \<Rightarrow> string" where
  "render_argv X argv = escape_direction_controls (json_to_string X (JArray (map JString argv)))"

definition render_review_text :: "'z opext_scheme \<Rightarrow> string \<Rightarrow> string" where
  "render_review_text X value = escape_direction_controls (json_to_string X (JString value))"

definition canonical_review_fields :: "'z opext_scheme \<Rightarrow> (string \<times> string) list \<Rightarrow> string list \<Rightarrow> string" where
  "canonical_review_fields X target refs =
     concat (map (\<lambda>(k, v). newline @ ''  '' @ render_review_text X k @ '': '' @ render_review_text X v)
       (sorted_entries target))
     @ newline @ ''Secrets: '' @ render_argv X refs"

definition sanitize_for_display :: "string \<Rightarrow> nat \<Rightarrow> string" where
  "sanitize_for_display s max_len =
     concat (take max_len (filter (\<lambda>g. \<not> list_ex hostile_char (utf8_chars g)) (utf8_groups s)))"

subsection \<open>Preparation\<close>

definition TASK_ONLY_OPERATIONS :: "string list" where
  "TASK_ONLY_OPERATIONS =
     [''github.publish_manifest'', ''github.release_manifest'', ''github.dispatch_staging_workflow'',
      ''github.observe_staging_workflow'', ''inference.fixed_manifest'', ''inference.fixed_completion'',
      ''ssh.health_manifest'', ''ssh.service_health'']"

definition prepare_generic ::
  "'z opext_scheme \<Rightarrow> enclave \<Rightarrow> operation_request \<Rightarrow> operation_def \<Rightarrow> enclave_error + prepared_operation" where
  "prepare_generic X E r d =
     (if rq_operation r \<in> set TASK_ONLY_OPERATIONS
      then Inl (EE_InvalidInput ''operation requires the typed task transport'')
      else
        and_then (ok_or (map_of (en_handlers E) (rq_operation r))
                   (EE_InvalidInput ''operation has no generic execution handler'')) (\<lambda>h.
        if od_allowed_target_keys d \<noteq> []
           \<and> list_ex (\<lambda>k. k \<notin> set (od_allowed_target_keys d)) (map fst (rq_target r))
        then Inl (EE_InvalidInput ''unexpected target assertion key'')
        else
          and_then (map_err (\<lambda>_. EE_InvalidParams ''invalid operation parameters'')
                     (registry_validate_params (en_registry E) (rq_operation r) (rq_params r))) (\<lambda>_.
          and_then (map_err (\<lambda>_. EE_InvalidParams ''action preparation rejected'') (h r)) (\<lambda>p.
          and_then (map_err (\<lambda>_. EE_InvalidParams ''invalid prepared reference metadata'')
                     (validate_prepared_refs X (pp_secret_ref_names p))) (\<lambda>_.
            if list_ex (\<lambda>(k, v). map_of (pp_target p) k \<noteq> Some v) (rq_target r)
            then Inl (EE_InvalidInput ''target assertion does not match prepared action'')
            else if length (canonical_review_fields X (pp_target p) (pp_secret_ref_names p)) > 32 * 1024
            then Inl (EE_InvalidParams ''prepared action review exceeds limit'')
            else Inr p)))))"

subsection \<open>Up to the approval semaphore\<close>

fun requirement_rank :: "approval_requirement \<Rightarrow> nat" where
  "requirement_rank Always = 2"
| "requirement_rank FirstUse = 1"
| "requirement_rank Never = 0"

definition stricter_requirement :: "approval_requirement \<Rightarrow> approval_requirement \<Rightarrow> approval_requirement" where
  "stricter_requirement a b = (if requirement_rank a \<ge> requirement_rank b then a else b)"

text \<open>Step 5b: the operation's default is a floor, sensitive output always needs approval, and an empty factor list
  means the defaults.\<close>

definition clamp_decision :: "operation_def \<Rightarrow> policy_decision \<Rightarrow> policy_decision" where
  "clamp_decision d dec =
     dec\<lparr>pd_approval_requirement :=
            (if od_safety d = SensitiveOutput then Always
             else stricter_requirement (od_default_approval d) (pd_approval_requirement dec)),
         pd_required_factors :=
            (if pd_required_factors dec = [] then od_default_factors d else pd_required_factors dec)\<rparr>"

definition check_safety_constraints :: "operation_def \<Rightarrow> enclave_error + unit" where
  "check_safety_constraints d =
     reject_if (od_safety d = Reveal) (EE_SafetyViolation ''REVEAL operations are not permitted in v1'')"

fun error_kind :: "enclave_error \<Rightarrow> audit_kind" where
  "error_kind (EE_PolicyDenied _) = PolicyDenied"
| "error_kind (EE_ApprovalNotGranted _) = ApprovalDenied"
| "error_kind (EE_ApprovalUnavailable _) = ApprovalDenied"
| "error_kind (EE_RateLimited _) = RateLimited"
| "error_kind _ = OperationFailed"

definition request_client :: "operation_request \<Rightarrow> client_summary" where
  "request_client r =
     (let c = client_summary_of (rq_client_identity r) (rq_client_type r)
      in case rq_principal r of None \<Rightarrow> c | Some p \<Rightarrow> with_principal p c)"

definition request_event :: "'z snext_scheme \<Rightarrow> audit_kind \<Rightarrow> operation_request \<Rightarrow> audit_fields" where
  "request_event X k r =
     (audit_event_new k)\<lparr>ae_request_id := Some (rq_request_id r), ae_client := Some (request_client r),
        ae_operation := Some (rq_operation r), ae_target := Some (target_summary X (rq_target r))\<rparr>"

definition emit_and_sanitize_error ::
  "'z snext_scheme \<Rightarrow> operation_request \<Rightarrow> enclave_error \<Rightarrow> enclave \<Rightarrow> sanitized_response \<times> enclave" where
  "emit_and_sanitize_error X r err E =
     (error_to_sanitized X err,
      emit ((request_event X (error_kind err) r)\<lparr>ae_outcome := Some ''error'',
              ae_secret_names := rq_secret_ref_names r, ae_detail := Some (error_code err)\<rparr>) E)"

definition reject_unprepared ::
  "'z snext_scheme \<Rightarrow> operation_request \<Rightarrow> enclave_error \<Rightarrow> enclave \<Rightarrow> sanitized_response \<times> enclave" where
  "reject_unprepared X r err E =
     (error_to_sanitized X err,
      emit ((audit_event_new OperationFailed)\<lparr>ae_request_id := Some (rq_request_id r),
              ae_client := Some (request_client r), ae_outcome := Some ''error'',
              ae_detail := Some ''action_preparation_rejected''\<rparr>) E)"

text \<open>A request on its way: the canonical request, its definition, the clamped decision and the policy generation
  under which it was taken.\<close>

record pending =
  pe_request :: operation_request
  pe_op :: operation_def
  pe_decision :: policy_decision
  pe_generation :: u64

definition prepared_request :: "operation_request \<Rightarrow> prepared_operation \<Rightarrow> operation_request" where
  "prepared_request r p =
     r\<lparr>rq_target := pp_target p, rq_secret_ref_names := pp_secret_ref_names p, rq_params := pp_params p\<rparr>"

definition em_dash :: string where "em_dash = [CHR 0xE2, CHR 0x80, CHR 0x94]"

definition policy_denied_error :: "operation_request \<Rightarrow> enclave_error" where
  "policy_denied_error r =
     EE_PolicyDenied (''operation '' @ [CHR 0x27] @ rq_operation r @ [CHR 0x27] @ '' denied by policy '' @ em_dash
       @ '' debug with: opaque policy simulate --operation '' @ rq_operation r)"

text \<open>Steps 1 to 5b of \<open>execute\<close>, and the identity check with which \<open>handle_approval\<close> begins.\<close>

definition begin_execute ::
  "'z snext_scheme \<Rightarrow> operation_request \<Rightarrow> enclave \<Rightarrow> (sanitized_response + pending) \<times> enclave" where
  "begin_execute X r0 E =
     (if ci_uid (rq_client_identity r0) = - 1
      then (Inl (error_to_sanitized X (EE_IdentityVerification ''peer credentials unavailable (uid unresolved)'')), E)
      else (case registry_get (en_registry E) (rq_operation r0) of
        Inl _ \<Rightarrow> apfst Inl (reject_unprepared X r0 (EE_UnknownOperation ''unregistered operation'') E)
      | Inr d \<Rightarrow> (case prepare_generic X E r0 d of
          Inl err \<Rightarrow> apfst Inl (reject_unprepared X r0 err E)
        | Inr p \<Rightarrow>
            (let r = prepared_request r0 p;
                 E1 = emit ((request_event X RequestReceived r)\<lparr>ae_secret_names := rq_secret_ref_names r,
                             ae_request_hash := Some (content_hash X r),
                             ae_workspace := map_option workspace_summary_of (rq_workspace r)\<rparr>) E
             in case check_safety_constraints d of
                  Inl err \<Rightarrow> apfst Inl (emit_and_sanitize_error X r err E1)
                | Inr _ \<Rightarrow>
                    (let dec = policy_evaluate X (en_policy E) r (od_safety d)
                     in if \<not> pd_allowed dec
                        then (Inl (error_to_sanitized X (policy_denied_error r)),
                              emit ((request_event X PolicyDenied r)\<lparr>ae_outcome := Some ''denied'',
                                      ae_policy_decision := Some (policy_decision_to_string dec),
                                      ae_detail := Some (case pd_denial_reason dec of Some reason \<Rightarrow> reason
                                                                                     | None \<Rightarrow> ''policy denied'')\<rparr>) E1)
                        else
                          (let dec' = clamp_decision d dec
                           in if pd_approval_requirement dec' \<noteq> Never \<and> pd_required_factors dec' = []
                              then apfst Inl (emit_and_sanitize_error X r
                                     (EE_SafetyViolation (''operation '' @ [CHR 0x27] @ rq_operation r @ [CHR 0x27]
                                        @ '' requires approval but no approval factor is configured'')) E1)
                              else if is_some_and (ci_workload (rq_client_identity r)) (\<lambda>w. \<not> is_attested w)
                              then apfst Inl (emit_and_sanitize_error X r
                                     (EE_IdentityVerification ''workload attestation unavailable'') E1)
                              else (Inr \<lparr>pe_request = r, pe_op = d, pe_decision = dec',
                                         pe_generation = en_generation E\<rparr>, E1)))))))"

subsection \<open>Under the semaphore\<close>

text \<open>What the gate is asked.\<close>

record gate_request =
  gr_approval_id :: uuid
  gr_factors :: "approval_factor list"
  gr_description :: string
  gr_binding :: "approval_binding option"

datatype evidence = NoApproval | LeaseEvidence lease_key | ApprovedBy approval_outcome

datatype after_permit = Refuse enclave_error | AskGate gate_request | Proceed evidence

definition first_use_ttl :: "policy_decision \<Rightarrow> nat" where
  "first_use_ttl dec = (case pd_lease_ttl dec of Some ttl \<Rightarrow> ttl | None \<Rightarrow> DEFAULT_LEASE_TTL)"

definition approval_description :: "'z opext_scheme \<Rightarrow> pending \<Rightarrow> string" where
  "approval_description X pe =
     (let r = pe_request pe; dec = pe_decision pe
      in ''Operation: '' @ od_description (pe_op pe)
         @ (if pd_approval_requirement dec = FirstUse
            then newline @ ''Approval allowance: ''
                 @ (case (if pd_one_time dec then Some 1 else pd_budget dec) of
                      None \<Rightarrow> ''unlimited'' | Some n \<Rightarrow> decimal (unat n))
                 @ '' attempts total (including this request), expires in ''
                 @ decimal (min (first_use_ttl dec) MAX_LEASE_TTL div nanos_per_sec)
                 @ '' seconds. Failed or uncertain attempts count.''
            else [])
         @ canonical_review_fields X (rq_target r) (rq_secret_ref_names r)
         @ newline @ ''Client: '' @ client_identity_to_string (rq_client_identity r)
         @ (case rq_workspace r of
              None \<Rightarrow> []
            | Some ws \<Rightarrow>
                newline @ ''Workspace: repo='' @ sanitize_url (case ws_remote_url ws of Some u \<Rightarrow> u | None \<Rightarrow> ''?'')
                @ '', branch='' @ (case ws_branch ws of Some b \<Rightarrow> b | None \<Rightarrow> ''?''))
         @ newline @ ''Request Hash: '' @ content_hash X r)"

definition json_get :: "json \<Rightarrow> string \<Rightarrow> json option" where
  "json_get v k = (case v of JObject fs \<Rightarrow> map_of fs k | _ \<Rightarrow> None)"

definition approval_binding_for ::
  "'z enext_scheme \<Rightarrow> enclave \<Rightarrow> operation_request \<Rightarrow> enclave_error + approval_binding option" where
  "approval_binding_for X E r =
     (case (map_of (rq_target r) ''task_id'', json_get (rq_params r) ''tenant'') of
        (Some task_id, Some tenant_value) \<Rightarrow>
          if tenant_value = JNull then Inr None
          else
            and_then (ok_or (tenant_from_value X tenant_value) (EE_SafetyViolation ''invalid approval tenant'')) (\<lambda>tenant.
            and_then (ok_or (policy_digest X (en_policy E)) (EE_SafetyViolation ''policy digest unavailable'')) (\<lambda>digest.
              Inr (Some \<lparr>ab_tenant = tenant, ab_task_id = task_id,
                         ab_manifest_digest = opt_bytes (map_of (rq_target r) ''manifest_digest''),
                         ab_request_hash = content_hash X r, ab_policy_digest = digest,
                         ab_requester = (case rq_principal r of Some p \<Rightarrow> pc_sub p | None \<Rightarrow> [])\<rparr>)))
      | _ \<Rightarrow> Inr None)"

text \<open>Whether an approval is needed, spending an attempt of a lease if there is one; \<open>None\<close> when its budget is spent.\<close>

definition needs_approval ::
  "'z snext_scheme \<Rightarrow> nat \<Rightarrow> pending \<Rightarrow> enclave \<Rightarrow> (bool \<times> evidence) option \<times> enclave" where
  "needs_approval X now pe E =
     (case pd_approval_requirement (pe_decision pe) of
        Always \<Rightarrow> (Some (True, NoApproval), E)
      | Never \<Rightarrow> (Some (False, NoApproval), E)
      | FirstUse \<Rightarrow>
          (let k = lease_key_from_request X (pe_request pe);
               (use, L) = lease_take now k (en_leases E);
               E1 = E\<lparr>en_leases := L\<rparr>
           in case use of
                LU_Used \<Rightarrow> (Some (False, LeaseEvidence k),
                   emit ((request_event X LeaseHit (pe_request pe))\<lparr>ae_outcome := Some ''lease_used''\<rparr>) E1)
              | LU_Missing \<Rightarrow> (Some (True, NoApproval), E1)
              | LU_Exhausted \<Rightarrow> (None, E1)))"

definition check_distinct_config ::
  "'z snext_scheme \<Rightarrow> pending \<Rightarrow> enclave \<Rightarrow> (enclave_error + unit) \<times> enclave" where
  "check_distinct_config X pe E =
     (if \<not> pd_require_distinct_approver (pe_decision pe) then (Inr (), E)
      else if pd_approval_requirement (pe_decision pe) = Never
      then (Inl (EE_SafetyViolation ''require_distinct_approver is set but the rule never requires approval''), E)
      else if rq_principal (pe_request pe) = None
      then (Inl (EE_ApprovalNotGranted (''this operation requires a distinct approver, which needs an ''
               @ ''identity-bound request '' @ em_dash @ '' run it under a delegation'')),
            emit ((request_event X ApprovalDenied (pe_request pe))\<lparr>ae_outcome := Some ''denied'',
                    ae_detail := Some ''distinct approver required but request has no principal''\<rparr>) E)
      else (Inr (), E))"

definition present_approval ::
  "'z enext_scheme \<Rightarrow> nat \<Rightarrow> uuid \<Rightarrow> pending \<Rightarrow> enclave \<Rightarrow> after_permit \<times> enclave" where
  "present_approval X now approval_id pe E =
     (let r = pe_request pe
      in if pd_required_factors (pe_decision pe) = []
         then (Refuse (EE_SafetyViolation ''approval required but no approval factor is configured''), E)
         else
           (let (ok, W) = check_and_record APPROVAL_LIMIT APPROVAL_WINDOW now (ci_pid (rq_client_identity r), rq_operation r)
                            (en_windows E);
                E1 = E\<lparr>en_windows := W\<rparr>
            in if \<not> ok
               then (Refuse (EE_RateLimited (''too many approval requests for operation '' @ [CHR 0x27]
                       @ rq_operation r @ [CHR 0x27])), E1)
               else
                 (let h = content_hash X r;
                      ev = (\<lambda>k. (request_event X k r)\<lparr>ae_approval_id := Some approval_id, ae_request_hash := Some h\<rparr>);
                      E2 = emit (ev ApprovalPresented) (emit (ev ApprovalRequired) E1)
                  in case approval_binding_for X E r of
                       Inl err \<Rightarrow> (Refuse err, E2)
                     | Inr binding \<Rightarrow>
                         (AskGate \<lparr>gr_approval_id = approval_id, gr_factors = pd_required_factors (pe_decision pe),
                                   gr_description = approval_description X pe, gr_binding = binding\<rparr>, E2))))"

definition under_permit ::
  "'z enext_scheme \<Rightarrow> nat \<Rightarrow> uuid \<Rightarrow> pending \<Rightarrow> enclave \<Rightarrow> after_permit \<times> enclave" where
  "under_permit X now approval_id pe E =
     (if en_generation E \<noteq> pe_generation pe
      then (Refuse (EE_ApprovalNotGranted ''policy changed before review; a fresh request is required''), E)
      else (case needs_approval X now pe E of
              (None, E1) \<Rightarrow>
                (Refuse (EE_ApprovalNotGranted (''first-use approval budget exhausted; wait for expiry before ''
                   @ ''requesting fresh approval'')), E1)
            | (Some (needed, ev), E1) \<Rightarrow>
                (case check_distinct_config X pe E1 of
                   (Inl err, E2) \<Rightarrow> (Refuse err, E2)
                 | (Inr _, E2) \<Rightarrow>
                     if \<not> needed then (Proceed ev, E2) else present_approval X now approval_id pe E2)))"

subsection \<open>The gate's answer\<close>

definition distinct_approver :: "operation_request \<Rightarrow> approval_outcome \<Rightarrow> bool" where
  "distinct_approver r oc =
     (let sub = (case rq_principal r of Some p \<Rightarrow> pc_sub p | None \<Rightarrow> [])
      in is_some_and (ao_approver oc) (\<lambda>a. ap_principal_id a \<noteq> sub))"

definition gate_answer ::
  "'z snext_scheme \<Rightarrow> nat \<Rightarrow> pending \<Rightarrow> gate_request \<Rightarrow> string + approval_outcome \<Rightarrow> enclave
    \<Rightarrow> (enclave_error + evidence) \<times> enclave" where
  "gate_answer X now pe g result E =
     (let r = pe_request pe; dec = pe_decision pe;
          ev = (\<lambda>k outcome. (request_event X k r)\<lparr>ae_approval_id := Some (gr_approval_id g),
                  ae_request_hash := Some (content_hash X r), ae_outcome := Some outcome\<rparr>)
      in case result of
           Inl e \<Rightarrow> (Inl (EE_ApprovalUnavailable e), emit ((ev ApprovalDenied ''error'')\<lparr>ae_level := LevelError\<rparr>) E)
         | Inr oc \<Rightarrow>
             if \<not> ao_approved oc
             then (Inl (EE_ApprovalNotGranted (''operation '' @ [CHR 0x27] @ rq_operation r @ [CHR 0x27]
                     @ '' requires approval ('' @ join_str '', '' (map approval_factor_to_string (pd_required_factors dec))
                     @ '') '' @ em_dash @ '' '' @ platform_hint (en_target_os E))), emit (ev ApprovalDenied ''denied'') E)
             else if en_generation E \<noteq> pe_generation pe
             then (Inl (EE_ApprovalNotGranted ''policy changed during review; a fresh approval is required''), E)
             else if pd_require_distinct_approver dec \<and> \<not> distinct_approver r oc
             then (Inl (EE_ApprovalNotGranted (''approval was granted, but this operation requires an approver ''
                     @ ''distinct from the principal it runs on behalf of'')),
                   emit ((ev ApprovalDenied ''denied'')\<lparr>ae_detail := Some ''distinct approver required'',
                           ae_approver := ao_approver oc\<rparr>) E)
             else
               (let E1 = emit ((ev ApprovalGranted ''granted'')\<lparr>ae_approver := ao_approver oc\<rparr>) E
                in (Inr (ApprovedBy oc),
                    if pd_approval_requirement dec = FirstUse
                    then E1\<lparr>en_leases := lease_grant now (lease_key_from_request X r) (first_use_ttl dec)
                                         (pd_one_time dec) (pd_budget dec) (en_leases E1)\<rparr>
                    else E1)))"

subsection \<open>Dispatch and completion\<close>

definition operation_started :: "'z snext_scheme \<Rightarrow> pending \<Rightarrow> enclave \<Rightarrow> enclave" where
  "operation_started X pe E =
     emit ((request_event X OperationStarted (pe_request pe))\<lparr>ae_safety := Some (od_safety (pe_op pe)),
             ae_request_hash := Some (content_hash X (pe_request pe))\<rparr>) E"

text \<open>After the audit barrier: the policy generation and the authority guard (its answer is \<open>guard_ok\<close>).\<close>

definition admit_dispatch ::
  "'z snext_scheme \<Rightarrow> bool \<Rightarrow> pending \<Rightarrow> enclave \<Rightarrow> sanitized_response option \<times> enclave" where
  "admit_dispatch X guard_ok pe E =
     (if en_generation E = pe_generation pe \<and> guard_ok then (None, E)
      else apfst Some (emit_and_sanitize_error X (pe_request pe)
             (EE_SafetyViolation ''policy or requester authority changed before dispatch'') E))"

definition audit_unavailable :: "bool \<Rightarrow> enclave_error" where
  "audit_unavailable dispatched =
     EE_Internal (if dispatched
       then ''audit durability unavailable after dispatch; outcome unknown to the caller. ''
            @ ''Inspect the task receipt or operation audit before further action''
       else ''audit durability unavailable; next operation was not dispatched. ''
            @ ''Inspect existing task receipts for earlier effects'')"

text \<open>Steps 8 and 9; on the right, the response that is still to pass the second audit barrier.\<close>

definition complete ::
  "'z snext_scheme \<Rightarrow> pending \<Rightarrow> string + json \<Rightarrow> enclave \<Rightarrow> (sanitized_response + sanitized_response) \<times> enclave" where
  "complete X pe result E =
     (let r = pe_request pe;
          ev = (\<lambda>k outcome. (request_event X k r)\<lparr>ae_request_hash := Some (content_hash X r),
                  ae_safety := Some (od_safety (pe_op pe)), ae_outcome := Some outcome\<rparr>)
      in case result of
           Inr payload \<Rightarrow>
             (Inr (sanitize_response X (from_payload payload)), 
              emit ((ev OperationSucceeded ''ok'')\<lparr>ae_secret_names := rq_secret_ref_names r\<rparr>) E)
         | Inl err \<Rightarrow> (Inl (error_to_sanitized X (EE_OperationFailed err)), emit (ev OperationFailed ''error'') E))"

subsection \<open>Control-plane approvals\<close>

definition complete_review_label :: "string \<Rightarrow> bool" where
  "complete_review_label label =
     (label \<in> {''agent_session_start'', ''identity.provisioning.bind_start'', ''identity.provisioning.mandate_start''})"

definition reviewed_reason :: "string \<Rightarrow> string \<Rightarrow> enclave_error + string" where
  "reviewed_reason label reason =
     (if complete_review_label label
      then if trim reason = [] \<or> length reason > 8 * 1024
              \<or> list_ex (\<lambda>c. (is_control c \<and> c \<noteq> 10 \<and> c \<noteq> 9) \<or> bidi_control c) (utf8_chars reason)
           then Inl (EE_InvalidInput ''control review must be complete, bounded, and free of display controls'')
           else Inr reason
      else Inr (sanitize_for_display reason 256))"

record control_pending =
  cp_label :: string
  cp_request :: operation_request
  cp_gate :: gate_request

definition control_event :: "audit_kind \<Rightarrow> uuid \<Rightarrow> client_summary \<Rightarrow> string \<Rightarrow> audit_fields" where
  "control_event k approval_id client label =
     (audit_event_new k)\<lparr>ae_approval_id := Some approval_id, ae_client := Some client, ae_operation := Some label\<rparr>"

text \<open>\<open>request_control_approval\<close> up to the semaphore; the description and the synthetic request it goes on to
  build depend on nothing that can change in between.\<close>

definition begin_control ::
  "nat \<Rightarrow> uuid \<Rightarrow> client_identity \<Rightarrow> client_type \<Rightarrow> string \<Rightarrow> string \<Rightarrow> string \<Rightarrow> int \<Rightarrow> enclave
    \<Rightarrow> (enclave_error + control_pending) \<times> enclave" where
  "begin_control now approval_id c ct label action reason created_at E =
     (case reviewed_reason label reason of
        Inl err \<Rightarrow> (Inl err, E)
      | Inr reviewed \<Rightarrow>
          (let factor = (if complete_review_label label then en_session_factor E else LocalBio);
               (ok, W) = check_and_record APPROVAL_LIMIT APPROVAL_WINDOW now (ci_pid c, label) (en_windows E);
               E1 = E\<lparr>en_windows := W\<rparr>
           in if \<not> ok then (Inl (EE_RateLimited ''too many session approval requests''), E1)
              else
                (let description = ''Operation: '' @ action @ newline @ ''  '' @ reviewed @ newline @ ''Client: ''
                                   @ client_identity_to_string c;
                     synth = \<lparr>rq_request_id = approval_id, rq_client_identity = c, rq_client_type = ct,
                              rq_operation = label, rq_target = [], rq_secret_ref_names = [],
                              rq_created_at = created_at, rq_expires_at = None,
                              rq_params = (if complete_review_label label
                                           then JObject [(''control_review'', JString description)] else JNull),
                              rq_workspace = None, rq_principal = None\<rparr>
                 in (Inr \<lparr>cp_label = label, cp_request = synth,
                          cp_gate = \<lparr>gr_approval_id = approval_id, gr_factors = [factor],
                                     gr_description = description, gr_binding = None\<rparr>\<rparr>,
                     emit (control_event ApprovalRequired approval_id (client_summary_of c ct) label) E1))))"

definition control_under_permit :: "control_pending \<Rightarrow> enclave \<Rightarrow> enclave" where
  "control_under_permit cp E =
     emit (control_event ApprovalPresented (gr_approval_id (cp_gate cp)) (request_client (cp_request cp)) (cp_label cp)) E"

text \<open>The gate's answer; an approval still has to pass the audit barrier.\<close>

definition control_answer ::
  "control_pending \<Rightarrow> string + approval_outcome \<Rightarrow> enclave \<Rightarrow> (enclave_error + approver_identity option) \<times> enclave" where
  "control_answer cp result E =
     (let ev = (\<lambda>k outcome. (control_event k (gr_approval_id (cp_gate cp)) (request_client (cp_request cp))
                  (cp_label cp))\<lparr>ae_outcome := Some outcome\<rparr>)
      in case result of
           Inl e \<Rightarrow> (Inl (EE_ApprovalUnavailable e), emit (ev ApprovalDenied ''error'') E)
         | Inr oc \<Rightarrow>
             if ao_approved oc
             then (Inr (ao_approver oc), emit ((ev ApprovalGranted ''granted'')\<lparr>ae_approver := ao_approver oc\<rparr>) E)
             else (Inl (EE_ApprovalNotGranted (cp_label cp @ '' was not approved'')), emit (ev ApprovalDenied ''denied'') E))"

end
