(* ===== verification/Enclave_System.thy ===== *)
theory Enclave_System
  imports Enclave
begin

text \<open>
  The enclave under concurrent use: any number of requests in flight, each waiting at one of the points where
  \<open>execute\<close> or \<open>request_control_approval\<close> gives up control, interleaved with policy swaps, with the clock,
  and with clients that disconnect (which drops the future and releases the semaphore if it holds it).  The step
  relation composes the definitions of \<open>Enclave\<close> in the order of the code.  Three fields only record what
  happened: every policy that was in force, every dispatch, and every attempt charged to an approval.
\<close>

datatype phase =
    WaitPermit pending
  | WaitGate pending gate_request
  | WaitAudit pending evidence
  | Running pending evidence
  | WaitFinalAudit sanitized_response
  | ControlWait control_pending
  | ControlGate control_pending
  | ControlAudit "approver_identity option"

text \<open>One dispatched action: the request, why it was let through, and the policy in force at that moment.\<close>

record dispatch =
  di_pending :: pending
  di_evidence :: evidence
  di_policy :: "policy_rule list"
  di_audit :: "audit_fields list"

datatype attempt = Approval lease_key nat nat "u32 option" | Reuse lease_key nat | PolicyReset

record esys =
  es_enclave :: enclave
  es_clock :: nat
  es_holder :: "nat option"
  es_phases :: "nat \<Rightarrow> phase option"
  es_policies :: "policy_rule list list"
  es_dispatched :: "dispatch list"
  es_attempts :: "attempt list"

definition holds_permit :: "phase \<Rightarrow> bool" where
  "holds_permit p = (case p of WaitGate _ _ \<Rightarrow> True | ControlGate _ \<Rightarrow> True | ControlAudit _ \<Rightarrow> True | _ \<Rightarrow> False)"

text \<open>An enclave as \<open>EnclaveBuilder::build\<close> leaves it.\<close>

definition enclave_fresh :: "enclave \<Rightarrow> bool" where
  "enclave_fresh E \<longleftrightarrow> en_generation E = 0 \<and> en_leases E = (\<lambda>_. None) \<and> en_windows E = (\<lambda>_. None)"

definition esys_init :: "enclave \<Rightarrow> esys" where
  "esys_init E =
     \<lparr>es_enclave = E, es_clock = 0, es_holder = None, es_phases = (\<lambda>_. None), es_policies = [en_policy E],
      es_dispatched = [], es_attempts = []\<rparr>"

text \<open>A request leaves the system, with the enclave it leaves behind.\<close>

definition leave :: "nat \<Rightarrow> enclave \<Rightarrow> esys \<Rightarrow> esys" where
  "leave i E S = S\<lparr>es_enclave := E, es_phases := (es_phases S)(i := None)\<rparr>"

definition enter :: "nat \<Rightarrow> phase \<Rightarrow> enclave \<Rightarrow> esys \<Rightarrow> esys" where
  "enter i p E S = S\<lparr>es_enclave := E, es_phases := (es_phases S)(i \<mapsto> p)\<rparr>"

definition release :: "esys \<Rightarrow> esys" where
  "release S = S\<lparr>es_holder := None\<rparr>"

text \<open>The continuation after \<open>under_permit\<close>: the error response, the wait for the gate, or the audit barrier.\<close>

definition settle :: "'z enext_scheme \<Rightarrow> nat \<Rightarrow> pending \<Rightarrow> after_permit \<Rightarrow> enclave \<Rightarrow> esys \<Rightarrow> esys" where
  "settle X i pe out E S =
     (case out of
        Refuse err \<Rightarrow> leave i (snd (emit_and_sanitize_error X (pe_request pe) err E)) S
      | AskGate g \<Rightarrow> enter i (WaitGate pe g) E (S\<lparr>es_holder := Some i\<rparr>)
      | Proceed ev \<Rightarrow>
          (enter i (WaitAudit pe ev) (operation_started X pe E) S)
            \<lparr>es_attempts := (case ev of LeaseEvidence k \<Rightarrow> Reuse k (es_clock S) # es_attempts S | _ \<Rightarrow> es_attempts S)\<rparr>)"

definition approval_attempt :: "'z opext_scheme \<Rightarrow> pending \<Rightarrow> nat \<Rightarrow> attempt list" where
  "approval_attempt X pe now =
     (if pd_approval_requirement (pe_decision pe) = FirstUse
      then [Approval (lease_key_from_request X (pe_request pe)) now
              (min (first_use_ttl (pe_decision pe)) MAX_LEASE_TTL)
              (if pd_one_time (pe_decision pe) then Some 1 else pd_budget (pe_decision pe))]
      else [])"

inductive estep :: "'z enext_scheme \<Rightarrow> esys \<Rightarrow> esys \<Rightarrow> bool" for X :: "'z enext_scheme" where
  tick: "es_clock S \<le> t \<Longrightarrow> estep X S (S\<lparr>es_clock := t\<rparr>)"
| refused: "begin_execute X r (es_enclave S) = (Inl resp, E) \<Longrightarrow> estep X S (S\<lparr>es_enclave := E\<rparr>)"
| queued: "begin_execute X r (es_enclave S) = (Inr pe, E) \<Longrightarrow> es_phases S i = None \<Longrightarrow>
    pd_approval_requirement (pe_decision pe) \<noteq> Never \<Longrightarrow> estep X S (enter i (WaitPermit pe) E S)"
| no_approval: "begin_execute X r (es_enclave S) = (Inr pe, E) \<Longrightarrow> es_phases S i = None \<Longrightarrow>
    pd_approval_requirement (pe_decision pe) = Never \<Longrightarrow>
    under_permit X (es_clock S) aid pe E = (out, E') \<Longrightarrow> estep X S (settle X i pe out E' S)"
| permit: "es_phases S i = Some (WaitPermit pe) \<Longrightarrow> es_holder S = None \<Longrightarrow>
    under_permit X (es_clock S) aid pe (es_enclave S) = (out, E') \<Longrightarrow> estep X S (settle X i pe out E' S)"
| denied: "es_phases S i = Some (WaitGate pe g) \<Longrightarrow>
    gate_answer X (es_clock S) pe g result (es_enclave S) = (Inl err, E) \<Longrightarrow>
    estep X S (release (leave i (snd (emit_and_sanitize_error X (pe_request pe) err E)) S))"
| approved: "es_phases S i = Some (WaitGate pe g) \<Longrightarrow>
    gate_answer X (es_clock S) pe g result (es_enclave S) = (Inr ev, E) \<Longrightarrow>
    estep X S (release ((enter i (WaitAudit pe ev) (operation_started X pe E) S)
      \<lparr>es_attempts := approval_attempt X pe (es_clock S) @ es_attempts S\<rparr>))"
| audit_failed: "es_phases S i = Some (WaitAudit pe ev) \<Longrightarrow> estep X S (leave i (es_enclave S) S)"
| not_admitted: "es_phases S i = Some (WaitAudit pe ev) \<Longrightarrow>
    admit_dispatch X guard_ok pe (es_enclave S) = (Some resp, E) \<Longrightarrow> estep X S (leave i E S)"
| dispatched: "es_phases S i = Some (WaitAudit pe ev) \<Longrightarrow>
    admit_dispatch X guard_ok pe (es_enclave S) = (None, E) \<Longrightarrow>
    estep X S ((enter i (Running pe ev) E S)
      \<lparr>es_dispatched := es_dispatched S @ [\<lparr>di_pending = pe, di_evidence = ev, di_policy = en_policy E,
                                             di_audit = en_audit E\<rparr>]\<rparr>)"
| failed: "es_phases S i = Some (Running pe ev) \<Longrightarrow> complete X pe result (es_enclave S) = (Inl resp, E) \<Longrightarrow>
    estep X S (leave i E S)"
| succeeded: "es_phases S i = Some (Running pe ev) \<Longrightarrow> complete X pe result (es_enclave S) = (Inr resp, E) \<Longrightarrow>
    estep X S (enter i (WaitFinalAudit resp) E S)"
| answered: "es_phases S i = Some (WaitFinalAudit resp) \<Longrightarrow> estep X S (leave i (es_enclave S) S)"
| control_refused: "begin_control (es_clock S) aid c ct label action reason created_at (es_enclave S) = (Inl err, E) \<Longrightarrow>
    estep X S (S\<lparr>es_enclave := E\<rparr>)"
| control_queued: "begin_control (es_clock S) aid c ct label action reason created_at (es_enclave S) = (Inr cp, E) \<Longrightarrow>
    es_phases S i = None \<Longrightarrow> estep X S (enter i (ControlWait cp) E S)"
| control_permit: "es_phases S i = Some (ControlWait cp) \<Longrightarrow> es_holder S = None \<Longrightarrow>
    estep X S (enter i (ControlGate cp) (control_under_permit cp (es_enclave S)) (S\<lparr>es_holder := Some i\<rparr>))"
| control_denied: "es_phases S i = Some (ControlGate cp) \<Longrightarrow>
    control_answer cp result (es_enclave S) = (Inl err, E) \<Longrightarrow> estep X S (release (leave i E S))"
| control_approved: "es_phases S i = Some (ControlGate cp) \<Longrightarrow>
    control_answer cp result (es_enclave S) = (Inr approver, E) \<Longrightarrow>
    estep X S (enter i (ControlAudit approver) E S)"
| control_done: "es_phases S i = Some (ControlAudit approver) \<Longrightarrow> es_holder S = h \<Longrightarrow>
    estep X S ((leave i (es_enclave S) S)\<lparr>es_holder := (if h = Some i then None else h)\<rparr>)"
| policy_swapped: "swap_policy rules (es_enclave S) = (n, E) \<Longrightarrow>
    estep X S (S\<lparr>es_enclave := E, es_policies := es_policies S @ [rules], es_attempts := PolicyReset # es_attempts S\<rparr>)"
| cancelled: "es_phases S i = Some p \<Longrightarrow> es_holder S = h \<Longrightarrow>
    estep X S ((leave i (es_enclave S) S)\<lparr>es_holder := (if h = Some i then None else h)\<rparr>)"

inductive ereach :: "'z enext_scheme \<Rightarrow> enclave \<Rightarrow> esys \<Rightarrow> bool" for X :: "'z enext_scheme" and E0 :: enclave where
  reach_init: "enclave_fresh E0 \<Longrightarrow> ereach X E0 (esys_init E0)"
| reach_step: "ereach X E0 S \<Longrightarrow> estep X S S' \<Longrightarrow> ereach X E0 S'"

subsection \<open>What a waiting request carries\<close>

text \<open>What \<open>begin_execute\<close> has established about a request under the policy \<open>rules\<close>.\<close>

definition authorised :: "'z snext_scheme \<Rightarrow> enclave \<Rightarrow> policy_rule list \<Rightarrow> pending \<Rightarrow> bool" where
  "authorised X E0 rules pe \<longleftrightarrow>
     (\<exists>r0 p. map_of (reg_ops (en_registry E0)) (rq_operation r0) = Some (pe_op pe)
        \<and> prepare_generic X E0 r0 (pe_op pe) = Inr p \<and> pe_request pe = prepared_request r0 p
        \<and> ci_uid (rq_client_identity r0) \<noteq> - 1 \<and> od_safety (pe_op pe) \<noteq> Reveal
        \<and> pd_allowed (policy_evaluate X rules (pe_request pe) (od_safety (pe_op pe)))
        \<and> pe_decision pe
            = clamp_decision (pe_op pe) (policy_evaluate X rules (pe_request pe) (od_safety (pe_op pe)))
        \<and> is_none_or (ci_workload (rq_client_identity r0)) is_attested)"

definition admitted :: "'z snext_scheme \<Rightarrow> enclave \<Rightarrow> policy_rule list list \<Rightarrow> pending \<Rightarrow> bool" where
  "admitted X E0 policies pe \<longleftrightarrow>
     (\<exists>n < length policies. pe_generation pe = of_nat n \<and> authorised X E0 (policies ! n) pe)"

text \<open>Which evidence suffices for a decision.\<close>

definition evidence_ok :: "'z opext_scheme \<Rightarrow> pending \<Rightarrow> evidence \<Rightarrow> bool" where
  "evidence_ok X pe ev \<longleftrightarrow>
     (case ev of
        NoApproval \<Rightarrow> pd_approval_requirement (pe_decision pe) = Never
      | LeaseEvidence k \<Rightarrow> pd_approval_requirement (pe_decision pe) = FirstUse
                           \<and> k = lease_key_from_request X (pe_request pe)
      | ApprovedBy oc \<Rightarrow> ao_approved oc
          \<and> (pd_require_distinct_approver (pe_decision pe) \<longrightarrow> distinct_approver (pe_request pe) oc))
     \<and> (pd_require_distinct_approver (pe_decision pe) \<longrightarrow>
          pd_approval_requirement (pe_decision pe) \<noteq> Never \<and> rq_principal (pe_request pe) \<noteq> None)"

definition started_event :: "'z snext_scheme \<Rightarrow> pending \<Rightarrow> audit_fields" where
  "started_event X pe =
     (request_event X OperationStarted (pe_request pe))\<lparr>ae_safety := Some (od_safety (pe_op pe)),
        ae_request_hash := Some (content_hash X (pe_request pe))\<rparr>"

lemma emit_simps [simp]:
  "en_registry (emit ev E) = en_registry E" "en_handlers (emit ev E) = en_handlers E"
  "en_policy (emit ev E) = en_policy E" "en_generation (emit ev E) = en_generation E"
  "en_leases (emit ev E) = en_leases E" "en_windows (emit ev E) = en_windows E"
  "en_audit (emit ev E) = en_audit E @ [ev]"
  by (simp_all add: emit_def)

text \<open>Everything but the leases, the windows and the audit log stays as it is outside \<open>swap_policy\<close>.\<close>

definition same_authority :: "enclave \<Rightarrow> enclave \<Rightarrow> bool" where
  "same_authority E E' \<longleftrightarrow> en_registry E' = en_registry E \<and> en_handlers E' = en_handlers E
     \<and> en_policy E' = en_policy E \<and> en_generation E' = en_generation E \<and> set (en_audit E) \<subseteq> set (en_audit E')"

lemma same_authority_refl [simp]: "same_authority E E"
  by (simp add: same_authority_def)

lemma same_authority_trans: "same_authority A B \<Longrightarrow> same_authority B C \<Longrightarrow> same_authority A C"
  by (auto simp: same_authority_def)

lemma same_authority_emit [simp]: "same_authority E (emit ev E)"
  by (auto simp: same_authority_def)

lemma prepare_generic_cong:
  assumes "en_registry E = en_registry E'" "en_handlers E = en_handlers E'"
  shows "prepare_generic X E r d = prepare_generic X E' r d"
  unfolding prepare_generic_def assms by (rule refl)

lemma begin_execute_same:
  assumes "begin_execute X r0 E = (out, E')"
  shows "same_authority E E'" "en_leases E' = en_leases E"
  using assms
  by (auto simp: begin_execute_def Let_def reject_unprepared_def emit_and_sanitize_error_def same_authority_def
      split: if_splits sum.splits)

lemma begin_execute_Inr:
  assumes "begin_execute X r0 E = (Inr pe, E')"
  shows "\<exists>p. map_of (reg_ops (en_registry E)) (rq_operation r0) = Some (pe_op pe)
    \<and> prepare_generic X E r0 (pe_op pe) = Inr p \<and> pe_request pe = prepared_request r0 p
    \<and> ci_uid (rq_client_identity r0) \<noteq> - 1 \<and> od_safety (pe_op pe) \<noteq> Reveal
    \<and> pd_allowed (policy_evaluate X (en_policy E) (pe_request pe) (od_safety (pe_op pe)))
    \<and> pe_decision pe = clamp_decision (pe_op pe) (policy_evaluate X (en_policy E) (pe_request pe) (od_safety (pe_op pe)))
    \<and> is_none_or (ci_workload (rq_client_identity r0)) is_attested \<and> pe_generation pe = en_generation E"
  using assms
  by (auto simp: begin_execute_def Let_def reject_unprepared_def emit_and_sanitize_error_def registry_get_def
      check_safety_constraints_def prepared_request_def is_none_or_iff is_some_and_iff
      split: if_splits sum.splits)

lemma needs_approval_same:
  assumes "needs_approval X now pe E = (out, E')"
  shows "same_authority E E'"
  using assms by (auto simp: needs_approval_def Let_def same_authority_def
      split: approval_requirement.splits prod.splits lease_use.splits)

lemma check_distinct_config_same:
  assumes "check_distinct_config X pe E = (out, E')"
  shows "same_authority E E'" "en_leases E' = en_leases E"
  using assms by (auto simp: check_distinct_config_def same_authority_def split: if_splits)

lemma present_approval_same:
  assumes "present_approval X now aid pe E = (out, E')"
  shows "same_authority E E'" "en_leases E' = en_leases E"
  using assms by (auto simp: present_approval_def Let_def same_authority_def split: if_splits prod.splits sum.splits)

lemma under_permit_same:
  assumes "under_permit X now aid pe E = (out, E')"
  shows "same_authority E E'"
  using assms unfolding under_permit_def
  by (auto split: if_splits prod.splits option.splits sum.splits
      dest!: needs_approval_same check_distinct_config_same(1) present_approval_same(1)
      intro: same_authority_trans)

lemma gate_answer_same:
  assumes "gate_answer X now pe g result E = (out, E')"
  shows "same_authority E E'"
  using assms by (auto simp: gate_answer_def Let_def same_authority_def split: if_splits sum.splits)

subsection \<open>The invariant\<close>

fun phase_ok :: "'z enext_scheme \<Rightarrow> enclave \<Rightarrow> policy_rule list list \<Rightarrow> audit_fields set \<Rightarrow> phase \<Rightarrow> bool" where
  "phase_ok X E0 policies log (WaitPermit pe) = (admitted X E0 policies pe \<and> pd_approval_requirement (pe_decision pe) \<noteq> Never)"
| "phase_ok X E0 policies log (WaitGate pe g) =
     (admitted X E0 policies pe \<and> pd_approval_requirement (pe_decision pe) \<noteq> Never
      \<and> (pd_require_distinct_approver (pe_decision pe) \<longrightarrow> rq_principal (pe_request pe) \<noteq> None))"
| "phase_ok X E0 policies log (WaitAudit pe ev) =
     (admitted X E0 policies pe \<and> evidence_ok X pe ev \<and> started_event X pe \<in> log)"
| "phase_ok X E0 policies log p = True"

definition justified :: "'z enext_scheme \<Rightarrow> enclave \<Rightarrow> dispatch \<Rightarrow> bool" where
  "justified X E0 d \<longleftrightarrow>
     authorised X E0 (di_policy d) (di_pending d) \<and> evidence_ok X (di_pending d) (di_evidence d)
     \<and> started_event X (di_pending d) \<in> set (di_audit d)"

definition einv :: "'z enext_scheme \<Rightarrow> enclave \<Rightarrow> esys \<Rightarrow> bool" where
  "einv X E0 S \<longleftrightarrow>
     en_registry (es_enclave S) = en_registry E0 \<and> en_handlers (es_enclave S) = en_handlers E0
     \<and> es_policies S \<noteq> [] \<and> last (es_policies S) = en_policy (es_enclave S)
     \<and> en_generation (es_enclave S) = of_nat (length (es_policies S) - 1)
     \<and> (\<forall>i p. es_phases S i = Some p \<longrightarrow> phase_ok X E0 (es_policies S) (set (en_audit (es_enclave S))) p)
     \<and> (length (es_policies S) \<le> 2 ^ 64 \<longrightarrow> list_all (justified X E0) (es_dispatched S))"

lemma admitted_append: "admitted X E0 ps pe \<Longrightarrow> admitted X E0 (ps @ [rules]) pe"
  unfolding admitted_def by (metis length_append_singleton less_SucI nth_append)

lemma phase_ok_mono:
  "phase_ok X E0 ps log p \<Longrightarrow> log \<subseteq> log' \<Longrightarrow> phase_ok X E0 ps log' p"
  "phase_ok X E0 ps log p \<Longrightarrow> phase_ok X E0 (ps @ [rules]) log p"
  by (cases p; auto intro: admitted_append)+

text \<open>The two ways in which steps change the system: one request moves on in an enclave of the same authority, and
  the ghost fields may grow.\<close>

lemma einv_move:
  assumes inv: "einv X E0 S" and same: "same_authority (es_enclave S) E"
    and S': "es_enclave S' = E" "es_policies S' = es_policies S" "es_dispatched S' = es_dispatched S"
    and ph: "\<And>j p. es_phases S' j = Some p \<Longrightarrow> es_phases S j = Some p \<or> phase_ok X E0 (es_policies S) (set (en_audit E)) p"
  shows "einv X E0 S'"
proof -
  have "phase_ok X E0 (es_policies S') (set (en_audit (es_enclave S'))) p" if "es_phases S' j = Some p" for j p
  proof -
    have "set (en_audit (es_enclave S)) \<subseteq> set (en_audit E)" using same by (simp add: same_authority_def)
    moreover have "es_phases S j = Some p \<Longrightarrow> phase_ok X E0 (es_policies S) (set (en_audit (es_enclave S))) p"
      using inv by (simp add: einv_def)
    ultimately show ?thesis using ph[OF that] phase_ok_mono(1) S'(1,2) by metis
  qed
  then show ?thesis using inv same S' by (simp add: einv_def same_authority_def)
qed

lemma begin_execute_admitted:
  assumes inv: "einv X E0 S" and b: "begin_execute X r (es_enclave S) = (Inr pe, E)"
  shows "admitted X E0 (es_policies S) pe"
proof -
  obtain p where p: "map_of (reg_ops (en_registry (es_enclave S))) (rq_operation r) = Some (pe_op pe)"
    "prepare_generic X (es_enclave S) r (pe_op pe) = Inr p" "pe_request pe = prepared_request r p"
    "ci_uid (rq_client_identity r) \<noteq> - 1" "od_safety (pe_op pe) \<noteq> Reveal"
    "pd_allowed (policy_evaluate X (en_policy (es_enclave S)) (pe_request pe) (od_safety (pe_op pe)))"
    "pe_decision pe = clamp_decision (pe_op pe)
       (policy_evaluate X (en_policy (es_enclave S)) (pe_request pe) (od_safety (pe_op pe)))"
    "is_none_or (ci_workload (rq_client_identity r)) is_attested" "pe_generation pe = en_generation (es_enclave S)"
    using begin_execute_Inr[OF b] by blast
  have e: "en_registry (es_enclave S) = en_registry E0" "en_handlers (es_enclave S) = en_handlers E0"
    and ps: "es_policies S \<noteq> []" "last (es_policies S) = en_policy (es_enclave S)"
      "en_generation (es_enclave S) = of_nat (length (es_policies S) - 1)"
    using inv by (simp_all add: einv_def)
  have "authorised X E0 (es_policies S ! (length (es_policies S) - 1)) pe"
    unfolding authorised_def using p ps(1,2) e prepare_generic_cong[OF e, of X r "pe_op pe"]
    by (metis last_conv_nth)
  moreover have "pe_generation pe = of_nat (length (es_policies S) - 1)" using p(9) ps(3) by simp
  ultimately show ?thesis unfolding admitted_def using ps(1) by (metis diff_less length_greater_0_conv zero_less_one)
qed

lemma under_permit_out:
  assumes "under_permit X now aid pe E = (out, E')"
  shows "case out of
      Refuse _ \<Rightarrow> True
    | AskGate g \<Rightarrow> pd_approval_requirement (pe_decision pe) \<noteq> Never
        \<and> (pd_require_distinct_approver (pe_decision pe) \<longrightarrow> rq_principal (pe_request pe) \<noteq> None)
    | Proceed ev \<Rightarrow> evidence_ok X pe ev"
  using assms unfolding under_permit_def
  by (auto simp: needs_approval_def check_distinct_config_def present_approval_def evidence_ok_def Let_def
      split: if_splits prod.splits option.splits sum.splits approval_requirement.splits lease_use.splits)

lemma gate_answer_out:
  assumes "gate_answer X now pe g result E = (Inr ev, E')"
    and "pd_approval_requirement (pe_decision pe) \<noteq> Never"
    and "pd_require_distinct_approver (pe_decision pe) \<longrightarrow> rq_principal (pe_request pe) \<noteq> None"
  shows "evidence_ok X pe ev"
  using assms by (auto simp: gate_answer_def evidence_ok_def Let_def split: if_splits sum.splits)

lemmas move_simps = leave_def enter_def release_def

lemma started_logged: "started_event X pe \<in> set (en_audit (operation_started X pe E))"
  by (simp add: operation_started_def started_event_def)

lemma same_started: "same_authority A E \<Longrightarrow> same_authority A (operation_started X pe E)"
  unfolding operation_started_def by (erule same_authority_trans) (rule same_authority_emit)

lemma same_error: "same_authority A E \<Longrightarrow> same_authority A (snd (emit_and_sanitize_error X r err E))"
  unfolding emit_and_sanitize_error_def snd_conv by (erule same_authority_trans) (rule same_authority_emit)

lemma einv_settle:
  assumes inv: "einv X E0 S" and same: "same_authority (es_enclave S) E'"
    and adm: "admitted X E0 (es_policies S) pe"
    and out: "case out of Refuse _ \<Rightarrow> True
      | AskGate g \<Rightarrow> pd_approval_requirement (pe_decision pe) \<noteq> Never
          \<and> (pd_require_distinct_approver (pe_decision pe) \<longrightarrow> rq_principal (pe_request pe) \<noteq> None)
      | Proceed ev \<Rightarrow> evidence_ok X pe ev"
  shows "einv X E0 (settle X i pe out E' S)"
proof (cases out)
  case (Refuse err)
  show ?thesis
    by (rule einv_move[OF inv same_error[OF same, of X "pe_request pe" err]])
      (auto simp: Refuse settle_def move_simps split: if_splits)
next
  case (AskGate g)
  show ?thesis
    by (rule einv_move[OF inv same]) (use adm out AskGate in \<open>auto simp: settle_def move_simps split: if_splits\<close>)
next
  case (Proceed ev)
  show ?thesis
    by (rule einv_move[OF inv same_started[OF same, of X pe]])
      (use adm out Proceed started_logged[of X pe E'] in \<open>auto simp: settle_def move_simps split: if_splits evidence.splits\<close>)
qed

lemma of_nat_u64_inj: "m < 2 ^ 64 \<Longrightarrow> n < 2 ^ 64 \<Longrightarrow> (of_nat m :: u64) = of_nat n \<Longrightarrow> m = n"
  by (simp add: word_unat_eq_iff unat_of_nat take_bit_nat_eq_self)

lemma admit_dispatch_None:
  "admit_dispatch X guard_ok pe E = (None, E') \<longleftrightarrow> en_generation E = pe_generation pe \<and> guard_ok \<and> E' = E"
  by (auto simp: admit_dispatch_def emit_and_sanitize_error_def)

lemma dispatch_justified:
  assumes inv: "einv X E0 S" and ph: "es_phases S i = Some (WaitAudit pe ev)"
    and a: "admit_dispatch X guard_ok pe (es_enclave S) = (None, E)" and small: "length (es_policies S) \<le> 2 ^ 64"
  shows "justified X E0 \<lparr>di_pending = pe, di_evidence = ev, di_policy = en_policy E, di_audit = en_audit E\<rparr>"
proof -
  have E: "E = es_enclave S" "en_generation (es_enclave S) = pe_generation pe"
    using a by (simp_all add: admit_dispatch_None)
  have p: "admitted X E0 (es_policies S) pe" "evidence_ok X pe ev" "started_event X pe \<in> set (en_audit (es_enclave S))"
    using inv ph by (fastforce simp: einv_def)+
  obtain n where n: "n < length (es_policies S)" "pe_generation pe = of_nat n" "authorised X E0 (es_policies S ! n) pe"
    using p(1) by (auto simp: admitted_def)
  have g: "en_generation (es_enclave S) = of_nat (length (es_policies S) - 1)" and ne: "es_policies S \<noteq> []"
    and last: "last (es_policies S) = en_policy (es_enclave S)" using inv by (simp_all add: einv_def)
  have "n = length (es_policies S) - 1"
    by (rule of_nat_u64_inj) (use n g E small in \<open>auto simp: less_diff_conv\<close>)
  then have "es_policies S ! n = en_policy E" using ne last E by (simp add: last_conv_nth)
  then show ?thesis using n(3) p E by (simp add: justified_def)
qed

lemma einv_step:
  assumes inv: "einv X E0 S" and step: "estep X S S'"
  shows "einv X E0 S'"
  using step
proof cases
  case (tick t)
  then show ?thesis using inv by (simp add: einv_def)
next
  case (refused r resp E)
  show ?thesis by (rule einv_move[OF inv begin_execute_same(1)[OF refused(2)]]) (simp_all add: refused(1))
next
  case (queued r pe E i)
  show ?thesis
    by (rule einv_move[OF inv begin_execute_same(1)[OF queued(2)]])
      (use begin_execute_admitted[OF inv queued(2)] queued(4) in \<open>auto simp: queued(1) move_simps split: if_splits\<close>)
next
  case (no_approval r pe E i aid out E')
  show ?thesis unfolding no_approval(1)
    by (rule einv_settle[OF inv same_authority_trans[OF begin_execute_same(1) under_permit_same]
          begin_execute_admitted[OF inv] under_permit_out]) fact+
next
  case (permit i pe aid out E')
  have "admitted X E0 (es_policies S) pe" using inv permit(2) by (fastforce simp: einv_def)
  then show ?thesis unfolding permit(1)
    using einv_settle[OF inv under_permit_same[OF permit(4)] _ under_permit_out[OF permit(4)]] by blast
next
  case (denied i pe g result err E)
  show ?thesis
    by (rule einv_move[OF inv same_error[OF gate_answer_same[OF denied(3)], of X "pe_request pe" err]])
      (auto simp: denied(1) move_simps split: if_splits)
next
  case (approved i pe g result ev E)
  have p: "admitted X E0 (es_policies S) pe" "pd_approval_requirement (pe_decision pe) \<noteq> Never"
    "pd_require_distinct_approver (pe_decision pe) \<longrightarrow> rq_principal (pe_request pe) \<noteq> None"
    using inv approved(2) by (fastforce simp: einv_def)+
  show ?thesis
    by (rule einv_move[OF inv same_started[OF gate_answer_same[OF approved(3)], of X pe]])
      (use p(1) gate_answer_out[OF approved(3) p(2,3)] started_logged[of X pe E] in
        \<open>auto simp: approved(1) move_simps split: if_splits\<close>)
next
  case (audit_failed i pe ev)
  show ?thesis by (rule einv_move[OF inv same_authority_refl]) (auto simp: audit_failed(1) move_simps split: if_splits)
next
  case (not_admitted i pe ev guard_ok resp E)
  have "same_authority (es_enclave S) E"
    using not_admitted(3) by (auto simp: admit_dispatch_def emit_and_sanitize_error_def split: if_splits)
  then show ?thesis by (rule einv_move[OF inv]) (auto simp: not_admitted(1) move_simps split: if_splits)
next
  case (dispatched i pe ev guard_ok E)
  have E: "E = es_enclave S" using dispatched(3) by (simp add: admit_dispatch_None)
  have "einv X E0 (enter i (Running pe ev) E S)"
    by (rule einv_move[OF inv same_authority_refl]) (auto simp: E move_simps split: if_splits)
  then show ?thesis using dispatch_justified[OF inv dispatched(2,3)]
    by (auto simp: dispatched(1) einv_def move_simps)
next
  case (failed i pe ev result resp E)
  have "same_authority (es_enclave S) E" using failed(3) by (auto simp: complete_def Let_def split: sum.splits)
  then show ?thesis by (rule einv_move[OF inv]) (auto simp: failed(1) move_simps split: if_splits)
next
  case (succeeded i pe ev result resp E)
  have "same_authority (es_enclave S) E" using succeeded(3) by (auto simp: complete_def Let_def split: sum.splits)
  then show ?thesis by (rule einv_move[OF inv]) (auto simp: succeeded(1) move_simps split: if_splits)
next
  case (answered i resp)
  show ?thesis by (rule einv_move[OF inv same_authority_refl]) (auto simp: answered(1) move_simps split: if_splits)
next
  case (control_refused aid c ct label action reason created_at err E)
  have "same_authority (es_enclave S) E" using control_refused(2)
    by (auto simp: begin_control_def Let_def same_authority_def split: sum.splits prod.splits if_splits)
  then show ?thesis by (rule einv_move[OF inv]) (auto simp: control_refused(1))
next
  case (control_queued aid c ct label action reason created_at cp E i)
  have "same_authority (es_enclave S) E" using control_queued(2)
    by (auto simp: begin_control_def Let_def same_authority_def split: sum.splits prod.splits if_splits)
  then show ?thesis by (rule einv_move[OF inv]) (auto simp: control_queued(1) move_simps split: if_splits)
next
  case (control_permit i cp)
  have "same_authority (es_enclave S) (control_under_permit cp (es_enclave S))" by (simp add: control_under_permit_def)
  then show ?thesis by (rule einv_move[OF inv]) (auto simp: control_permit(1) move_simps split: if_splits)
next
  case (control_denied i cp result err E)
  have "same_authority (es_enclave S) E"
    using control_denied(3) by (auto simp: control_answer_def Let_def split: sum.splits if_splits)
  then show ?thesis by (rule einv_move[OF inv]) (auto simp: control_denied(1) move_simps split: if_splits)
next
  case (control_approved i cp result approver E)
  have "same_authority (es_enclave S) E"
    using control_approved(3) by (auto simp: control_answer_def Let_def split: sum.splits if_splits)
  then show ?thesis by (rule einv_move[OF inv]) (auto simp: control_approved(1) move_simps split: if_splits)
next
  case (control_done i approver h)
  show ?thesis by (rule einv_move[OF inv same_authority_refl]) (auto simp: control_done(1) move_simps split: if_splits)
next
  case (policy_swapped rules n E)
  have E: "E = (es_enclave S)\<lparr>en_policy := rules, en_generation := en_generation (es_enclave S) + 1,
      en_leases := lease_clear (en_leases (es_enclave S))\<rparr>" using policy_swapped(2) by (simp add: swap_policy_def)
  have "en_generation (es_enclave S) + 1 = of_nat (length (es_policies S))"
    using inv by (cases "es_policies S") (simp_all add: einv_def)
  then show ?thesis using inv by (auto simp: policy_swapped(1) E einv_def intro!: phase_ok_mono(2))
next
  case (cancelled i p h)
  show ?thesis by (rule einv_move[OF inv same_authority_refl]) (auto simp: cancelled(1) move_simps split: if_splits)
qed

lemma einv_reach: "ereach X E0 S \<Longrightarrow> einv X E0 S"
proof (induction rule: ereach.induct)
  case reach_init
  then show ?case by (auto simp: einv_def esys_init_def enclave_fresh_def)
next
  case (reach_step S S')
  show ?case by (rule einv_step[OF reach_step.IH reach_step.hyps(2)])
qed

end
