(* ===== verification/Enclave_Allowance.thy ===== *)
theory Enclave_Allowance
  imports Enclave_System
begin

text \<open>
  First-use approvals under concurrency: whatever the interleaving of requests, cancellations and policy swaps, no
  approval is stretched beyond its lifetime or its budget, and none is renewed while it is alive.  The log of attempts
  that the system keeps is the abstract account; the lease cache refines it.
\<close>

subsection \<open>First-use allowances\<close>

text \<open>Read from the log of attempts, newest first: the approval that currently covers a key (its time, lifetime and
  budget) and the number of reuses charged to it.\<close>

fun allowance :: "lease_key \<Rightarrow> attempt list \<Rightarrow> (nat \<times> nat \<times> u32 option \<times> nat) option" where
  "allowance k [] = None"
| "allowance k (PolicyReset # as) = None"
| "allowance k (Approval k' t ttl b # as) = (if k' = k then Some (t, ttl, b, 0) else allowance k as)"
| "allowance k (Reuse k' t # as) =
     (if k' = k then map_option (\<lambda>(t0, ttl, b, n). (t0, ttl, b, Suc n)) (allowance k as) else allowance k as)"

text \<open>A log that honours its approvals: no key is approved again while an approval of it is alive, and every reuse
  falls into the lifetime and within the budget of the approval that covers it (which itself was the first attempt).\<close>

fun attempts_ok :: "attempt list \<Rightarrow> bool" where
  "attempts_ok [] = True"
| "attempts_ok (PolicyReset # as) = attempts_ok as"
| "attempts_ok (Approval k t ttl b # as) =
     (attempts_ok as \<and> ttl \<le> MAX_LEASE_TTL
      \<and> (case allowance k as of None \<Rightarrow> True | Some (t0, ttl0, b0, n) \<Rightarrow> t0 \<le> t \<and> ttl0 \<le> t - t0))"
| "attempts_ok (Reuse k t # as) =
     (attempts_ok as
      \<and> (case allowance k as of None \<Rightarrow> False
         | Some (t0, ttl, b, n) \<Rightarrow> t0 \<le> t \<and> t - t0 < ttl \<and> is_none_or b (\<lambda>b. n + 2 \<le> unat b)))"

text \<open>The cached entry of a key agrees with the allowance the log shows for it.\<close>

fun entry_tracks :: "nat \<Rightarrow> lease_entry option \<Rightarrow> (nat \<times> nat \<times> u32 option \<times> nat) option \<Rightarrow> bool" where
  "entry_tracks c (Some e) a =
     (\<exists>n. a = Some (le_granted_at e, le_ttl e, le_budget e, n) \<and> le_granted_at e \<le> c
        \<and> (\<forall>b. le_budget e = Some b \<longrightarrow> n + 1 \<le> unat (le_spent e)))"
| "entry_tracks c None a = (\<forall>t ttl b n. a = Some (t, ttl, b, n) \<longrightarrow> t \<le> c \<and> ttl \<le> c - t)"

definition lease_tracks :: "nat \<Rightarrow> lease_cache \<Rightarrow> attempt list \<Rightarrow> bool" where
  "lease_tracks c L as \<longleftrightarrow> (\<forall>k. entry_tracks c (L k) (allowance k as))"

definition ainv :: "'z opext_scheme \<Rightarrow> esys \<Rightarrow> bool" where
  "ainv X S \<longleftrightarrow>
     attempts_ok (es_attempts S) \<and> lease_tracks (es_clock S) (en_leases (es_enclave S)) (es_attempts S)
     \<and> (\<forall>i p. es_phases S i = Some p \<longrightarrow> (holds_permit p \<longleftrightarrow> es_holder S = Some i))
     \<and> (\<forall>i. es_holder S = Some i \<longrightarrow> es_phases S i \<noteq> None)
     \<and> (\<forall>i pe g. es_phases S i = Some (WaitGate pe g) \<longrightarrow> pd_approval_requirement (pe_decision pe) = FirstUse \<longrightarrow>
          en_leases (es_enclave S) (lease_key_from_request X (pe_request pe)) = None)"

lemma entry_tracks_later: "entry_tracks c e a \<Longrightarrow> c \<le> c' \<Longrightarrow> entry_tracks c' e a"
  by (cases e) fastforce+

lemma lease_tracks_later: "lease_tracks c L as \<Longrightarrow> c \<le> c' \<Longrightarrow> lease_tracks c' L as"
  unfolding lease_tracks_def using entry_tracks_later by blast

lemma lease_tracksD: "lease_tracks c L as \<Longrightarrow> entry_tracks c (L k) (allowance k as)"
  by (simp add: lease_tracks_def)

lemma lease_tracks_upd:
  assumes "lease_tracks c L as" "entry_tracks c e (allowance k as')" "\<And>k'. k' \<noteq> k \<Longrightarrow> allowance k' as' = allowance k' as"
  shows "lease_tracks c (L(k := e)) as'"
  using assms by (auto simp: lease_tracks_def)

text \<open>The three ways in which \<open>take\<close> ends.\<close>

lemma take_missing_tracks:
  assumes "lease_tracks c L as" "lease_take c k L = (LU_Missing, L')"
  shows "lease_tracks c L' as" "L' k = None" "\<And>k'. L k' = None \<Longrightarrow> L' k' = None"
proof -
  have t: "lease_tracks c (L(k := None)) as" if "L k = Some e" "\<not> lease_live c e" for e
    using lease_tracksD[OF assms(1), of k] that
    by (intro lease_tracks_upd[OF assms(1)]) (auto simp: lease_live_def)
  from assms t show "lease_tracks c L' as" "L' k = None" "\<And>k'. L k' = None \<Longrightarrow> L' k' = None"
    by (auto simp: lease_take_def split: option.splits if_splits)
qed

lemma take_used_tracks:
  assumes tr: "lease_tracks c L as" and tk: "lease_take c k L = (LU_Used, L')" and ok: "attempts_ok as"
  shows "lease_tracks c L' (Reuse k c # as)" "attempts_ok (Reuse k c # as)" "\<And>k'. L k' = None \<Longrightarrow> L' k' = None"
    "lease_tracks c L' as"
proof -
  obtain e where e: "L k = Some e" "lease_live c e" "\<not> is_some_and (le_budget e) (\<lambda>b. le_spent e \<ge> b)"
    and L': "L' = L(k \<mapsto> e\<lparr>le_spent := saturating_inc (le_spent e)\<rparr>)"
    using tk by (auto simp: lease_take_def split: option.splits if_splits)
  obtain n where n: "allowance k as = Some (le_granted_at e, le_ttl e, le_budget e, n)" "le_granted_at e \<le> c"
    "\<forall>b. le_budget e = Some b \<longrightarrow> n + 1 \<le> unat (le_spent e)" using lease_tracksD[OF tr, of k] e(1) by auto
  have below: "unat (le_spent e) < unat b" if "le_budget e = Some b" for b
    using e(3) that by (simp add: word_le_nat_alt)
  have inc: "Suc (unat (le_spent e)) \<le> unat (saturating_inc (le_spent e))" if "le_budget e = Some b" for b
  proof -
    have "le_spent e \<noteq> - 1"
      using below[OF that] by (metis word_less_nat_alt word_order.extremum_strict)
    then show ?thesis by (simp add: unat_saturating_inc)
  qed
  show "attempts_ok (Reuse k c # as)" using ok n e(2) below by (fastforce simp: lease_live_def is_none_or_iff)
  show "lease_tracks c L' (Reuse k c # as)" "lease_tracks c L' as"
    unfolding L' using n inc by (intro lease_tracks_upd[OF tr]; fastforce)+
  show "\<And>k'. L k' = None \<Longrightarrow> L' k' = None" using e(1) by (auto simp: L')
qed

lemma take_exhausted_same: "lease_take c k L = (LU_Exhausted, L') \<Longrightarrow> L' = L"
  by (auto simp: lease_take_def split: option.splits if_splits)

subsection \<open>Steps\<close>

text \<open>The log after the code under the semaphore has run.\<close>

definition log_after :: "after_permit \<Rightarrow> nat \<Rightarrow> attempt list \<Rightarrow> attempt list" where
  "log_after out c as = (case out of Proceed (LeaseEvidence k) \<Rightarrow> Reuse k c # as | _ \<Rightarrow> as)"

lemma settle_simps [simp]:
  "es_attempts (settle X i pe out E S) = log_after out (es_clock S) (es_attempts S)"
  "es_clock (settle X i pe out E S) = es_clock S"
  "es_holder (settle X i pe out E S) = (case out of AskGate g \<Rightarrow> Some i | _ \<Rightarrow> es_holder S)"
  "en_leases (es_enclave (settle X i pe out E S)) = en_leases E"
  "es_phases (settle X i pe out E S) = (es_phases S)
     (i := (case out of Refuse _ \<Rightarrow> None | AskGate g \<Rightarrow> Some (WaitGate pe g) | Proceed ev \<Rightarrow> Some (WaitAudit pe ev)))"
  by (auto simp: settle_def move_simps log_after_def emit_and_sanitize_error_def operation_started_def
      split: after_permit.splits evidence.splits)

lemma needs_approval_tracks:
  assumes n: "needs_approval X c pe E = (out, E')" and tr: "lease_tracks c (en_leases E) as" and ok: "attempts_ok as"
  shows "lease_tracks c (en_leases E') as" "\<And>k. en_leases E k = None \<Longrightarrow> en_leases E' k = None"
    "out = Some (True, ev) \<Longrightarrow> pd_approval_requirement (pe_decision pe) = FirstUse \<Longrightarrow>
       en_leases E' (lease_key_from_request X (pe_request pe)) = None"
    "out = Some (b, LeaseEvidence k) \<Longrightarrow>
       lease_tracks c (en_leases E') (Reuse k c # as) \<and> attempts_ok (Reuse k c # as)"
proof -
  let ?k = "lease_key_from_request X (pe_request pe)"
  obtain use L where t: "lease_take c ?k (en_leases E) = (use, L)" by fastforce
  note used = take_used_tracks[OF tr _ ok, of ?k L] and missing = take_missing_tracks[OF tr, of ?k L]
  show "lease_tracks c (en_leases E') as" "\<And>k. en_leases E k = None \<Longrightarrow> en_leases E' k = None"
    "out = Some (True, ev) \<Longrightarrow> pd_approval_requirement (pe_decision pe) = FirstUse \<Longrightarrow> en_leases E' ?k = None"
    "out = Some (b, LeaseEvidence k) \<Longrightarrow> lease_tracks c (en_leases E') (Reuse k c # as) \<and> attempts_ok (Reuse k c # as)"
    using n t tr used missing take_exhausted_same[of c ?k "en_leases E" L]
    by (cases use; auto simp: needs_approval_def Let_def split: approval_requirement.splits)+
qed

lemma under_permit_tracks:
  assumes u: "under_permit X c aid pe E = (out, E')" and tr: "lease_tracks c (en_leases E) as" and ok: "attempts_ok as"
  shows "lease_tracks c (en_leases E') (log_after out c as) \<and> attempts_ok (log_after out c as)
    \<and> (\<forall>k. en_leases E k = None \<longrightarrow> en_leases E' k = None)
    \<and> (\<forall>g. out = AskGate g \<longrightarrow> pd_approval_requirement (pe_decision pe) = FirstUse \<longrightarrow>
         en_leases E' (lease_key_from_request X (pe_request pe)) = None)"
proof (cases "en_generation E \<noteq> pe_generation pe")
  case True
  then show ?thesis using u tr ok by (auto simp: under_permit_def log_after_def)
next
  case False
  obtain na E1 where n: "needs_approval X c pe E = (na, E1)" by fastforce
  note t = needs_approval_tracks[OF n tr ok]
  obtain dc E2 where d: "check_distinct_config X pe E1 = (dc, E2)" by fastforce
  have l2: "en_leases E2 = en_leases E1" by (rule check_distinct_config_same(2)[OF d])
  show ?thesis
  proof (cases na)
    case None
    then show ?thesis using u False n t ok by (auto simp: under_permit_def log_after_def)
  next
    case (Some p)
    obtain needed ev where p: "p = (needed, ev)" by fastforce
    show ?thesis
    proof (cases dc)
      case (Inl err)
      then show ?thesis using u False n d Some p t ok l2 by (auto simp: under_permit_def log_after_def)
    next
      case (Inr v)
      show ?thesis
      proof (cases needed)
        case False
        then have "out = Proceed ev" "E' = E2" using u \<open>\<not> en_generation E \<noteq> pe_generation pe\<close> n d Some p Inr
          by (simp_all add: under_permit_def)
        then show ?thesis using t Some p ok l2 by (cases ev) (auto simp: log_after_def)
      next
        case True
        then have pr: "present_approval X c aid pe E2 = (out, E')"
          using u \<open>\<not> en_generation E \<noteq> pe_generation pe\<close> n d Some p Inr by (simp add: under_permit_def)
        moreover have "\<And>ev. out \<noteq> Proceed ev"
          using pr by (auto simp: present_approval_def Let_def split: if_splits prod.splits sum.splits)
        then have "log_after out c as = as" by (auto simp: log_after_def split: after_permit.splits)
        ultimately show ?thesis using t(1,2) t(3)[of ev] Some p True ok l2 present_approval_same(2)[OF pr] by auto
      qed
    qed
  qed
qed

lemma under_permit_no_gate:
  assumes "under_permit X c aid pe E = (out, E')" "pd_approval_requirement (pe_decision pe) = Never"
  shows "out \<noteq> AskGate g"
  using under_permit_out[OF assms(1)] assms(2) by auto

lemma gate_answer_leases:
  "gate_answer X c pe g result E = (Inl err, E') \<Longrightarrow> en_leases E' = en_leases E"
  "gate_answer X c pe g result E = (Inr ev, E') \<Longrightarrow>
     en_leases E' = (if pd_approval_requirement (pe_decision pe) = FirstUse
       then lease_grant c (lease_key_from_request X (pe_request pe)) (first_use_ttl (pe_decision pe))
              (pd_one_time (pe_decision pe)) (pd_budget (pe_decision pe)) (en_leases E)
       else en_leases E)"
  by (auto simp: gate_answer_def Let_def split: if_splits sum.splits)

lemma grant_tracks:
  assumes tr: "lease_tracks c L as" and ok: "attempts_ok as" and free: "L k = None"
  shows "lease_tracks c (lease_grant c k ttl one_time budget L)
      (Approval k c (min ttl MAX_LEASE_TTL) (if one_time then Some 1 else budget) # as)"
    "attempts_ok (Approval k c (min ttl MAX_LEASE_TTL) (if one_time then Some 1 else budget) # as)"
proof -
  show "lease_tracks c (lease_grant c k ttl one_time budget L)
      (Approval k c (min ttl MAX_LEASE_TTL) (if one_time then Some 1 else budget) # as)"
    unfolding lease_grant_def by (rule lease_tracks_upd[OF tr]) auto
  show "attempts_ok (Approval k c (min ttl MAX_LEASE_TTL) (if one_time then Some 1 else budget) # as)"
    using ok lease_tracksD[OF tr, of k] free by (auto split: option.splits)
qed

lemma ainv_gate:
  "ainv X S \<Longrightarrow> es_phases S i = Some (WaitGate pe g) \<Longrightarrow> pd_approval_requirement (pe_decision pe) = FirstUse \<Longrightarrow>
     en_leases (es_enclave S) (lease_key_from_request X (pe_request pe)) = None"
  unfolding ainv_def by blast

lemma ainv_holder:
  "ainv X S \<Longrightarrow> es_phases S i = Some p \<Longrightarrow> holds_permit p \<longleftrightarrow> es_holder S = Some i"
  unfolding ainv_def by blast

lemma ainv_leave:
  assumes inv: "ainv X S"
    and S': "es_clock S' = es_clock S" "es_attempts S' = es_attempts S"
      "en_leases (es_enclave S') = en_leases (es_enclave S)" "es_phases S' = (es_phases S)(i := None)"
      "es_holder S' = (if es_holder S = Some i then None else es_holder S)"
  shows "ainv X S'"
  using inv unfolding ainv_def S' by (auto split: if_splits)

lemma ainv_enter:
  assumes inv: "ainv X S"
    and S': "es_clock S' = es_clock S" "es_attempts S' = es_attempts S"
      "en_leases (es_enclave S') = en_leases (es_enclave S)" "es_phases S' = (es_phases S)(i \<mapsto> p)"
    and h: "holds_permit p \<longleftrightarrow> es_holder S' = Some i" "\<And>j. j \<noteq> i \<Longrightarrow> es_holder S' = Some j \<longleftrightarrow> es_holder S = Some j"
    and p: "\<And>pe g. p \<noteq> WaitGate pe g"
  shows "ainv X S'"
proof -
  have "es_phases S' j \<noteq> None" if "es_holder S' = Some j" for j
    using inv that h(2)[of j] by (cases "j = i") (simp_all add: ainv_def S')
  moreover have "holds_permit q \<longleftrightarrow> es_holder S' = Some j" if "es_phases S' j = Some q" for j q
    using inv that h by (cases "j = i") (simp_all add: ainv_def S')
  moreover have "en_leases (es_enclave S) (lease_key_from_request X (pe_request pe)) = None"
    if "es_phases S' j = Some (WaitGate pe g)" "pd_approval_requirement (pe_decision pe) = FirstUse" for j pe g
    using ainv_gate[OF inv, of j pe g] that p by (cases "j = i") (simp_all add: S')
  ultimately show ?thesis using inv unfolding ainv_def S'(1-3) by blast
qed

lemma ainv_settle:
  assumes inv: "ainv X S" and l: "en_leases E = en_leases (es_enclave S)"
    and u: "under_permit X (es_clock S) aid pe E = (out, E')"
    and free: "es_phases S i = None \<or> (\<exists>pe. es_phases S i = Some (WaitPermit pe))"
    and holder: "\<And>g. out = AskGate g \<Longrightarrow> es_holder S = None"
  shows "ainv X (settle X i pe out E' S)"
proof -
  have inv': "attempts_ok (es_attempts S)" "lease_tracks (es_clock S) (en_leases E) (es_attempts S)"
    "\<And>i p. es_phases S i = Some p \<Longrightarrow> holds_permit p \<longleftrightarrow> es_holder S = Some i"
    "\<And>i. es_holder S = Some i \<Longrightarrow> es_phases S i \<noteq> None"
    "\<And>i pe g. es_phases S i = Some (WaitGate pe g) \<Longrightarrow> pd_approval_requirement (pe_decision pe) = FirstUse \<Longrightarrow>
        en_leases E (lease_key_from_request X (pe_request pe)) = None"
    using inv unfolding ainv_def l by blast+
  note t = under_permit_tracks[OF u inv'(2,1)]
  have ni: "es_holder S \<noteq> Some i" using free inv'(3)[of i] inv'(4)[of i] by (auto simp: holds_permit_def)
  let ?S = "settle X i pe out E' S"
  have "holds_permit q \<longleftrightarrow> es_holder ?S = Some j" if "es_phases ?S j = Some q" for j q
  proof (cases "j = i")
    case True
    then show ?thesis using that ni by (auto simp: holds_permit_def split: after_permit.splits)
  next
    case False
    then have "holds_permit q \<longleftrightarrow> es_holder S = Some j" using that inv'(3) by simp
    then show ?thesis using False holder by (auto split: after_permit.splits)
  qed
  moreover have "es_phases ?S j \<noteq> None" if "es_holder ?S = Some j" for j
    using that inv'(4) ni by (cases "j = i") (auto split: after_permit.splits)
  moreover have "en_leases E' (lease_key_from_request X (pe_request pe')) = None"
    if "es_phases ?S j = Some (WaitGate pe' g)" "pd_approval_requirement (pe_decision pe') = FirstUse" for j pe' g
    using that t inv'(5) by (cases "j = i") (auto split: after_permit.splits)
  ultimately show ?thesis using t unfolding ainv_def settle_simps(1,2,4) by blast
qed

lemma ainv_step:
  assumes inv: "ainv X S" and step: "estep X S S'"
  shows "ainv X S'"
  using step
proof cases
  case (tick t)
  then show ?thesis using inv by (auto simp: ainv_def lease_tracks_later)
next
  case (refused r resp E)
  then show ?thesis using inv begin_execute_same(2)[OF refused(2)] by (simp add: ainv_def)
next
  case (queued r pe E i)
  then have "es_holder S \<noteq> Some i" using inv by (auto simp: ainv_def)
  then show ?thesis using queued begin_execute_same(2)[OF queued(2)]
    by (intro ainv_enter[OF inv, of _ i "WaitPermit pe"]) (auto simp: move_simps holds_permit_def)
next
  case (no_approval r pe E i aid out E')
  show ?thesis unfolding no_approval(1)
    by (rule ainv_settle[OF inv begin_execute_same(2)[OF no_approval(2)] no_approval(5)])
      (use no_approval(3) under_permit_no_gate[OF no_approval(5,4)] in auto)
next
  case (permit i pe aid out E')
  show ?thesis unfolding permit(1) by (rule ainv_settle[OF inv refl permit(4)]) (use permit(2,3) in auto)
next
  case (denied i pe g result err E)
  have "es_holder S = Some i" using ainv_holder[OF inv denied(2)] by (simp add: holds_permit_def)
  then show ?thesis using gate_answer_leases(1)[OF denied(3)]
    by (intro ainv_leave[OF inv, of _ i]) (simp_all add: denied(1) move_simps emit_and_sanitize_error_def)
next
  case (approved i pe g result ev E)
  let ?k = "lease_key_from_request X (pe_request pe)"
  have h: "es_holder S = Some i" using ainv_holder[OF inv approved(2)] by (simp add: holds_permit_def)
  have only: "\<not> holds_permit q" if "es_phases S j = Some q" "j \<noteq> i" for j q
    using ainv_holder[OF inv that(1)] that(2) h by simp
  have inv': "lease_tracks (es_clock S) (en_leases (es_enclave S)) (es_attempts S)" "attempts_ok (es_attempts S)"
    "pd_approval_requirement (pe_decision pe) = FirstUse \<Longrightarrow> en_leases (es_enclave S) ?k = None"
    using inv ainv_gate[OF inv approved(2)] by (simp_all add: ainv_def)
  have "lease_tracks (es_clock S) (en_leases E) (approval_attempt X pe (es_clock S) @ es_attempts S)
      \<and> attempts_ok (approval_attempt X pe (es_clock S) @ es_attempts S)"
    using gate_answer_leases(2)[OF approved(3)] inv' grant_tracks[OF inv'(1,2,3)] by (auto simp: approval_attempt_def)
  moreover have np: "\<not> holds_permit q" if "es_phases S' j = Some q" for j q
    using that only by (cases "j = i") (auto simp: approved(1) move_simps holds_permit_def)
  moreover have "es_phases S' j \<noteq> Some (WaitGate pe' g')" for j pe' g'
    using np[of j "WaitGate pe' g'"] by (auto simp: holds_permit_def)
  moreover have "es_holder S' = None" "es_clock S' = es_clock S" "en_leases (es_enclave S') = en_leases E"
    "es_attempts S' = approval_attempt X pe (es_clock S) @ es_attempts S"
    by (simp_all add: approved(1) move_simps operation_started_def)
  ultimately show ?thesis by (simp add: ainv_def)
next
  case (audit_failed i pe ev)
  then have "es_holder S \<noteq> Some i" using ainv_holder[OF inv, of i] by (simp add: holds_permit_def)
  then show ?thesis by (intro ainv_leave[OF inv, of _ i]) (simp_all add: audit_failed(1) move_simps)
next
  case (not_admitted i pe ev guard_ok resp E)
  then have "es_holder S \<noteq> Some i" using ainv_holder[OF inv, of i] by (simp add: holds_permit_def)
  moreover have "en_leases E = en_leases (es_enclave S)"
    using not_admitted(3) by (auto simp: admit_dispatch_def emit_and_sanitize_error_def split: if_splits)
  ultimately show ?thesis by (intro ainv_leave[OF inv, of _ i]) (simp_all add: not_admitted(1) move_simps)
next
  case (dispatched i pe ev guard_ok E)
  then have "es_holder S \<noteq> Some i" using ainv_holder[OF inv, of i] by (simp add: holds_permit_def)
  moreover have "E = es_enclave S" using dispatched(3) by (simp add: admit_dispatch_None)
  ultimately show ?thesis
    by (intro ainv_enter[OF inv, of _ i "Running pe ev"]) (simp_all add: dispatched(1) move_simps holds_permit_def)
next
  case (failed i pe ev result resp E)
  then have "es_holder S \<noteq> Some i" using ainv_holder[OF inv, of i] by (simp add: holds_permit_def)
  moreover have "en_leases E = en_leases (es_enclave S)" using failed(3) by (auto simp: complete_def Let_def split: sum.splits)
  ultimately show ?thesis by (intro ainv_leave[OF inv, of _ i]) (simp_all add: failed(1) move_simps)
next
  case (succeeded i pe ev result resp E)
  then have "es_holder S \<noteq> Some i" using ainv_holder[OF inv, of i] by (simp add: holds_permit_def)
  moreover have "en_leases E = en_leases (es_enclave S)" using succeeded(3) by (auto simp: complete_def Let_def split: sum.splits)
  ultimately show ?thesis
    by (intro ainv_enter[OF inv, of _ i "WaitFinalAudit resp"]) (simp_all add: succeeded(1) move_simps holds_permit_def)
next
  case (answered i resp)
  then have "es_holder S \<noteq> Some i" using ainv_holder[OF inv, of i] by (simp add: holds_permit_def)
  then show ?thesis by (intro ainv_leave[OF inv, of _ i]) (simp_all add: answered(1) move_simps)
next
  case (control_refused aid c ct label action reason created_at err E)
  have "en_leases E = en_leases (es_enclave S)" using control_refused(2)
    by (auto simp: begin_control_def Let_def split: sum.splits prod.splits if_splits)
  then show ?thesis using inv by (simp add: control_refused(1) ainv_def)
next
  case (control_queued aid c ct label action reason created_at cp E i)
  have "en_leases E = en_leases (es_enclave S)" using control_queued(2)
    by (auto simp: begin_control_def Let_def split: sum.splits prod.splits if_splits)
  moreover have "es_holder S \<noteq> Some i" using inv control_queued(3) by (auto simp: ainv_def)
  ultimately show ?thesis
    by (intro ainv_enter[OF inv, of _ i "ControlWait cp"]) (simp_all add: control_queued(1) move_simps holds_permit_def)
next
  case (control_permit i cp)
  then show ?thesis
    by (intro ainv_enter[OF inv, of _ i "ControlGate cp"])
      (simp_all add: move_simps holds_permit_def control_under_permit_def)
next
  case (control_denied i cp result err E)
  have "es_holder S = Some i" using ainv_holder[OF inv control_denied(2)] by (simp add: holds_permit_def)
  moreover have "en_leases E = en_leases (es_enclave S)"
    using control_denied(3) by (auto simp: control_answer_def Let_def split: sum.splits if_splits)
  ultimately show ?thesis by (intro ainv_leave[OF inv, of _ i]) (simp_all add: control_denied(1) move_simps)
next
  case (control_approved i cp result approver E)
  have "es_holder S = Some i" using ainv_holder[OF inv control_approved(2)] by (simp add: holds_permit_def)
  moreover have "en_leases E = en_leases (es_enclave S)"
    using control_approved(3) by (auto simp: control_answer_def Let_def split: sum.splits if_splits)
  ultimately show ?thesis
    by (intro ainv_enter[OF inv, of _ i "ControlAudit approver"]) (simp_all add: control_approved(1) move_simps holds_permit_def)
next
  case (control_done i approver h)
  then show ?thesis by (intro ainv_leave[OF inv, of _ i]) (simp_all add: move_simps)
next
  case (policy_swapped rules n E)
  have "en_leases E = (\<lambda>_. None)" using policy_swapped(2) by (auto simp: swap_policy_def lease_clear_def)
  then show ?thesis using inv by (simp add: policy_swapped(1) ainv_def lease_tracks_def)
next
  case (cancelled i p h)
  then show ?thesis by (intro ainv_leave[OF inv, of _ i]) (simp_all add: move_simps)
qed

lemma ainv_reach: "ereach X E0 S \<Longrightarrow> ainv X S"
proof (induction rule: ereach.induct)
  case reach_init
  then show ?case by (simp add: ainv_def esys_init_def enclave_fresh_def lease_tracks_def)
next
  case (reach_step S S')
  show ?case by (rule ainv_step[OF reach_step.IH reach_step.hyps(2)])
qed

end
