(* ===== verification/Enclave_Properties.thy ===== *)
theory Enclave_Properties
  imports Enclave_Allowance
begin

text \<open>
  The properties of the enforcement funnel, and a concrete run of it.
\<close>

subsection \<open>A concrete run\<close>

definition demo_enext :: enext where
  "demo_enext = \<lparr>uuid_parse_str = (\<lambda>_. None), uuid_to_string = (\<lambda>_. []), sha256_bytes = id,
     regex_is_match = (\<lambda>_ _. False), glob_match = (=), verifying_key_ok = (\<lambda>_. True),
     ed25519_verify = (\<lambda>_ _ _. False), ed25519_verify_strict = (\<lambda>_ _ _. False),
     ed25519_sign = (\<lambda>_ _. []), b64url_encode = id, b64url_decode = Some,
     json_to_string = (\<lambda>_. ''null''), json_of_workload = (\<lambda>_. ''w''), schema_errors = (\<lambda>_. Some (\<lambda>_. [])),
     regex_replace_all = (\<lambda>_ s _. s), json_of_rules = (\<lambda>_. Some []), tenant_from_value = (\<lambda>_. None)\<rparr>"

definition demo_op :: operation_def where
  "demo_op = \<lparr>od_name = ''github.set'', od_safety = Safe, od_default_approval = Never, od_default_factors = [LocalBio],
     od_description = ''set a secret'', od_params_schema = None, od_allowed_target_keys = [],
     od_secret_ref_param_keys = []\<rparr>"

definition demo_prepared :: prepared_operation where
  "demo_prepared = \<lparr>pp_target = [(''repo'', ''org/app'')], pp_secret_ref_names = [''env:TOKEN''], pp_params = JNull\<rparr>"

definition demo_enclave :: enclave where
  "demo_enclave = \<lparr>en_registry = \<lparr>reg_ops = [(''github.set'', demo_op)], reg_validators = []\<rparr>,
     en_handlers = [(''github.set'', \<lambda>_. Inr demo_prepared)], en_policy = [demo_rule], en_generation = 0,
     en_leases = (\<lambda>_. None), en_windows = (\<lambda>_. None), en_session_factor = LocalBio, en_target_os = LinuxOs, en_audit = []\<rparr>"

definition demo_pending :: pending where
  "demo_pending = \<lparr>pe_request = demo_request, pe_op = demo_op,
     pe_decision = clamp_decision demo_op (policy_allow demo_rule), pe_generation = 0\<rparr>"

lemma demo_decision:
  "pd_approval_requirement (pe_decision demo_pending) = FirstUse" "pd_required_factors (pe_decision demo_pending) = [LocalBio]"
  "\<not> pd_require_distinct_approver (pe_decision demo_pending)" "\<not> pd_one_time (pe_decision demo_pending)"
  "pd_budget (pe_decision demo_pending) = Some 2" "pd_lease_ttl (pe_decision demo_pending) = Some 60"
  by (simp_all add: demo_pending_def clamp_decision_def stricter_requirement_def demo_op_def policy_allow_def
      demo_rule_def demo_approval_def)

lemma demo_evaluate: "policy_evaluate demo_enext [demo_rule] demo_request Safe = policy_allow demo_rule"
proof -
  have "rule_matches demo_enext demo_rule demo_request"
    by (simp add: rule_matches_def demo_rule_def demo_request_def client_matches_def attestation_matches_def
        demo_client_def field_matches_def identity_matches_def identity_match_is_empty_def holds_role_def
        role_from_str_def demo_principal_def target_matches_def workspace_matches_def secret_names_match_def
        demo_enext_def is_attested_def less_attestation_strength_def)
  moreover have "pl_allow demo_rule" "\<not> budget_malformed demo_rule"
    by (simp_all add: budget_malformed_def demo_rule_def demo_approval_def)
  ultimately show ?thesis by (simp add: policy_evaluate_eq first_match_decision_def decide_rule_def)
qed

lemma demo_prepare: "prepare_generic demo_enext demo_enclave demo_request demo_op = Inr demo_prepared"
  by (simp add: prepare_generic_def demo_enclave_def demo_request_def TASK_ONLY_OPERATIONS_def demo_op_def
      registry_validate_params_def demo_prepared_def validate_prepared_refs_def validate_prepared_ref_def
      trim_def utf8_groups.simps(2) utf8_chars.simps(2) white_group_def is_whitespace_def is_control_def bidi_control_def
      contains_secret_def demo_enext_def list_ex_iff canonical_review_fields_def render_review_text_def render_argv_def
      escape_direction_controls_def sorted_entries_def newline_def)

definition demo_like :: "enclave \<Rightarrow> bool" where
  "demo_like E \<longleftrightarrow> en_registry E = en_registry demo_enclave \<and> en_handlers E = en_handlers demo_enclave
     \<and> en_policy E = [demo_rule] \<and> en_generation E = 0"

lemma demo_like_same: "demo_like E \<Longrightarrow> same_authority E E' \<Longrightarrow> demo_like E'"
  by (simp add: demo_like_def same_authority_def)

lemma demo_begin:
  assumes "demo_like E"
  shows "\<exists>E'. begin_execute demo_enext demo_request E = (Inr demo_pending, E') \<and> en_windows E' = en_windows E"
proof -
  have e: "en_registry E = en_registry demo_enclave" "en_handlers E = en_handlers demo_enclave"
    "en_policy E = [demo_rule]" "en_generation E = 0" using assms by (simp_all add: demo_like_def)
  have p: "prepare_generic demo_enext E demo_request demo_op = Inr demo_prepared"
    unfolding prepare_generic_cong[OF e(1,2)] by (rule demo_prepare)
  have r: "prepared_request demo_request demo_prepared = demo_request"
    by (simp add: prepared_request_def demo_request_def demo_prepared_def)
  have g: "registry_get (en_registry E) (rq_operation demo_request) = Inr demo_op"
    by (simp add: e(1) registry_get_def demo_enclave_def demo_request_def)
  have s: "check_safety_constraints demo_op = Inr ()" "od_safety demo_op = Safe"
    by (simp_all add: check_safety_constraints_def demo_op_def)
  have u: "ci_uid (rq_client_identity demo_request) \<noteq> - 1" by (simp add: demo_request_def demo_client_def)
  have w: "\<not> is_some_and (ci_workload (rq_client_identity demo_request)) (\<lambda>w. \<not> is_attested w)"
    by (simp add: demo_request_def demo_client_def is_attested_def)
  have d: "pd_required_factors (clamp_decision demo_op (policy_allow demo_rule)) \<noteq> []"
    using demo_decision(2) by (simp add: demo_pending_def)
  show ?thesis
    unfolding begin_execute_def g p sum.case Let_def r s e(3,4) demo_evaluate
    using u w d by (simp add: demo_pending_def)
qed

lemma demo_wait_key: "lease_key_from_request X (pe_request demo_pending) = lease_key_from_request X demo_request"
  by (simp add: demo_pending_def)

abbreviation demo_key :: lease_key where "demo_key \<equiv> lease_key_from_request demo_enext demo_request"

lemma demo_under_fresh:
  assumes "demo_like E" "en_leases E demo_key = None" "en_windows E = (\<lambda>_. None)"
  shows "\<exists>g E'. under_permit demo_enext now aid demo_pending E = (AskGate g, E')"
proof -
  have b: "approval_binding_for demo_enext E' demo_request = Inr None" for E'
    by (simp add: approval_binding_for_def demo_request_def)
  have "lease_take now demo_key (en_leases E) = (LU_Missing, en_leases E)" using assms(2) by (simp add: lease_take_def)
  then have n: "needs_approval demo_enext now demo_pending E = (Some (True, NoApproval), E)"
    by (simp add: needs_approval_def demo_decision demo_pending_def[THEN arg_cong, of pe_request])
  have "\<exists>g E'. present_approval demo_enext now aid demo_pending E = (AskGate g, E')"
    by (simp add: present_approval_def demo_decision check_and_record_def approval_entries_def assms(3) APPROVAL_LIMIT_def
        Let_def demo_pending_def[THEN arg_cong, of pe_request] b)
  then show ?thesis using assms(1) n demo_decision
    by (simp add: under_permit_def demo_like_def demo_pending_def[THEN arg_cong, of pe_generation] check_distinct_config_def)
qed

definition demo_outcome :: approval_outcome where
  "demo_outcome = \<lparr>ao_approved = True, ao_approver = None, ao_workstation_receipt = None\<rparr>"

lemma demo_gate:
  assumes "demo_like E"
  shows "\<exists>E'. gate_answer demo_enext 0 demo_pending g (Inr demo_outcome) E = (Inr (ApprovedBy demo_outcome), E')
    \<and> same_authority E E'
    \<and> en_leases E' = lease_grant 0 demo_key 60 False (Some 2) (en_leases E)"
proof -
  obtain E' where g: "gate_answer demo_enext 0 demo_pending g (Inr demo_outcome) E = (Inr (ApprovedBy demo_outcome), E')"
    using assms demo_decision
    by (simp add: gate_answer_def demo_outcome_def demo_like_def demo_pending_def[THEN arg_cong, of pe_generation] Let_def)
  then show ?thesis using gate_answer_same[OF g] gate_answer_leases(2)[OF g] demo_decision
    by (simp add: first_use_ttl_def demo_pending_def[THEN arg_cong, of pe_request])
qed

lemma demo_under_leased:
  assumes "demo_like E" "en_leases E = lease_grant 0 demo_key 60 False (Some 2) L"
  shows "\<exists>E'. under_permit demo_enext 0 aid demo_pending E = (Proceed (LeaseEvidence demo_key), E')"
proof -
  have "\<exists>L'. lease_take 0 demo_key (en_leases E) = (LU_Used, L')"
    by (simp add: assms(2) lease_take_def lease_grant_def lease_live_def MAX_LEASE_TTL_def word_le_nat_alt)
  then have "\<exists>E1. needs_approval demo_enext 0 demo_pending E = (Some (False, LeaseEvidence demo_key), E1)"
    by (auto simp: needs_approval_def demo_decision demo_pending_def[THEN arg_cong, of pe_request])
  then show ?thesis using assms(1) demo_decision
    by (auto simp: under_permit_def demo_like_def demo_pending_def[THEN arg_cong, of pe_generation] check_distinct_config_def)
qed

lemma demo_run:
  "\<exists>S d. ereach demo_enext demo_enclave S \<and> es_dispatched S = [d] \<and> di_pending d = demo_pending
     \<and> di_evidence d = ApprovedBy demo_outcome \<and> length (es_policies S) = 1
     \<and> es_attempts S = [Reuse demo_key 0, Approval demo_key 0 60 (Some 2)]"
proof -
  let ?R = "ereach demo_enext demo_enclave" and ?p = demo_pending
  have nn: "pd_approval_requirement (pe_decision ?p) \<noteq> Never" using demo_decision(1) by simp
  have r0: "?R (esys_init demo_enclave)" by (rule reach_init) (simp add: enclave_fresh_def demo_enclave_def)
  have l0: "demo_like demo_enclave" by (simp add: demo_like_def demo_enclave_def)
  obtain E1 where b1: "begin_execute demo_enext demo_request demo_enclave = (Inr ?p, E1)"
    and w1: "en_windows E1 = (\<lambda>_. None)" using demo_begin[OF l0] by (auto simp: demo_enclave_def)
  define S1 where "S1 = enter 0 (WaitPermit ?p) E1 (esys_init demo_enclave)"
  have r1: "?R S1" unfolding S1_def
    by (rule reach_step[OF r0 queued[where i = 0 and r = demo_request]]) (use b1 nn in \<open>simp_all add: esys_init_def\<close>)
  have l1: "demo_like E1" "en_leases E1 = (\<lambda>_. None)"
    using demo_like_same[OF l0] begin_execute_same[OF b1] by (simp_all add: demo_enclave_def)
  obtain g E2 where u2: "under_permit demo_enext 0 0 ?p E1 = (AskGate g, E2)"
    using demo_under_fresh[OF l1(1) _ w1] l1(2) by fastforce
  define S2 where "S2 = settle demo_enext 0 ?p (AskGate g) E2 S1"
  have r2: "?R S2" unfolding S2_def
    by (rule reach_step[OF r1 permit[where i = 0 and aid = 0]]) (use u2 in \<open>simp_all add: S1_def move_simps esys_init_def\<close>)
  have l2: "demo_like E2" using demo_like_same[OF l1(1) under_permit_same[OF u2]] .
  obtain E3 where g3: "gate_answer demo_enext 0 ?p g (Inr demo_outcome) E2 = (Inr (ApprovedBy demo_outcome), E3)"
    and s3: "same_authority E2 E3" "en_leases E3 = lease_grant 0 demo_key 60 False (Some 2) (en_leases E2)"
    using demo_gate[OF l2] by blast
  define S3 where "S3 = release ((enter 0 (WaitAudit ?p (ApprovedBy demo_outcome)) (operation_started demo_enext ?p E3) S2)
      \<lparr>es_attempts := approval_attempt demo_enext ?p 0 @ es_attempts S2\<rparr>)"
  have c2: "es_clock S2 = 0" "es_enclave S2 = E2" "es_phases S2 0 = Some (WaitGate ?p g)" "es_attempts S2 = []"
    "es_dispatched S2 = []" "es_policies S2 = [en_policy demo_enclave]" "es_phases S2 1 = None"
    by (simp_all add: S2_def S1_def settle_def move_simps esys_init_def)
  have r3: "?R S3" unfolding S3_def
    using reach_step[OF r2 approved[where i = 0 and pe = ?p and g = g and result = "Inr demo_outcome"
          and ev = "ApprovedBy demo_outcome" and E = E3]] c2 g3 by simp
  let ?E4 = "operation_started demo_enext ?p E3"
  have l4: "demo_like ?E4" using demo_like_same[OF l2 same_started[OF s3(1)]] .
  have c3: "es_clock S3 = 0" "es_enclave S3 = ?E4" "es_phases S3 0 = Some (WaitAudit ?p (ApprovedBy demo_outcome))"
    "es_attempts S3 = [Approval demo_key 0 60 (Some 2)]" "es_dispatched S3 = []" "length (es_policies S3) = 1"
    "es_phases S3 1 = None" "es_holder S3 = None"
    using c2 demo_decision by (simp_all add: S3_def move_simps approval_attempt_def demo_wait_key first_use_ttl_def MAX_LEASE_TTL_def)
  have a4: "admit_dispatch demo_enext True ?p (es_enclave S3) = (None, ?E4)"
    using l4 c3(2) by (simp add: admit_dispatch_None demo_like_def demo_pending_def[THEN arg_cong, of pe_generation])
  define d where "d = \<lparr>di_pending = ?p, di_evidence = ApprovedBy demo_outcome, di_policy = en_policy ?E4, di_audit = en_audit ?E4\<rparr>"
  define S4 where "S4 = (enter 0 (Running ?p (ApprovedBy demo_outcome)) ?E4 S3)\<lparr>es_dispatched := es_dispatched S3 @ [d]\<rparr>"
  have r4: "?R S4" unfolding S4_def d_def by (rule reach_step[OF r3 dispatched[OF c3(3) a4]])
  obtain E5 where b5: "begin_execute demo_enext demo_request ?E4 = (Inr ?p, E5)" using demo_begin[OF l4] by blast
  define S5 where "S5 = enter 1 (WaitPermit ?p) E5 S4"
  have c4: "es_enclave S4 = ?E4" "es_phases S4 1 = None" using c3 by (simp_all add: S4_def move_simps)
  have r5: "?R S5" unfolding S5_def
    by (rule reach_step[OF r4 queued[where i = 1 and r = demo_request]]) (use b5 nn c4 in simp_all)
  have l5: "demo_like E5" "en_leases E5 = lease_grant 0 demo_key 60 False (Some 2) (en_leases E2)"
    using demo_like_same[OF l4] begin_execute_same[OF b5] s3(2) by (simp_all add: operation_started_def)
  obtain E6 where u6: "under_permit demo_enext 0 0 ?p E5 = (Proceed (LeaseEvidence demo_key), E6)"
    using demo_under_leased[OF l5] by blast
  let ?S6 = "settle demo_enext 1 ?p (Proceed (LeaseEvidence demo_key)) E6 S5"
  have "?R ?S6"
    by (rule reach_step[OF r5 permit[where i = 1 and aid = 0]]) (use u6 c3 in \<open>simp_all add: S5_def S4_def move_simps\<close>)
  moreover have "es_dispatched ?S6 = [d]" "length (es_policies ?S6) = 1"
    using c3 by (simp_all add: settle_def S5_def S4_def move_simps)
  moreover have "es_attempts ?S6 = [Reuse demo_key 0, Approval demo_key 0 60 (Some 2)]"
    using c3 by (simp add: log_after_def S5_def S4_def move_simps)
  ultimately show ?thesis by (intro exI[of _ ?S6] exI[of _ d]) (simp add: d_def)
qed

subsection \<open>Theorems\<close>

lemma clamp_rank:
  "requirement_rank (od_default_approval d) \<le> requirement_rank (pd_approval_requirement (clamp_decision d dec))"
  "requirement_rank (pd_approval_requirement dec) \<le> requirement_rank (pd_approval_requirement (clamp_decision d dec))"
  "od_safety d = SensitiveOutput \<Longrightarrow> pd_approval_requirement (clamp_decision d dec) = Always"
  by (cases "od_default_approval d"; cases "pd_approval_requirement dec";
      simp add: clamp_decision_def stricter_requirement_def)+

lemma clamp_distinct [simp]:
  "pd_require_distinct_approver (clamp_decision d dec) = pd_require_distinct_approver dec"
  by (simp add: clamp_decision_def)

text \<open>C13: Nothing is dispatched without authority, whatever the interleaving of requests, policy swaps and
  disconnections (with fewer than $2^{64}$ policy swaps).  Every dispatched action is a registered, non-REVEAL
  operation whose target, references and parameters come from its handler's preparation, was allowed by the policy in
  force at the moment of dispatch, and was announced in the audit log with its content hash.  It carries the evidence
  its strictest requirement asks for: none only if neither the rule nor the operation's default asks for approval and
  its output is not sensitive; a lease of its own key only if nothing asks for approval every time; otherwise a fresh
  approval, by somebody other than the principal where the rule demands a distinct approver.\<close>

theorem dispatch_is_authorised:
  assumes "ereach X E0 S" "length (es_policies S) \<le> 2 ^ 64" "d \<in> set (es_dispatched S)"
    and "pe = di_pending d" "dec = policy_evaluate X (di_policy d) (pe_request pe) (od_safety (pe_op pe))"
  shows "pd_allowed dec \<and> od_safety (pe_op pe) \<noteq> Reveal \<and> started_event X pe \<in> set (di_audit d)
    \<and> (\<exists>r0 p. map_of (reg_ops (en_registry E0)) (rq_operation r0) = Some (pe_op pe)
         \<and> prepare_generic X E0 r0 (pe_op pe) = Inr p \<and> pe_request pe = prepared_request r0 p)
    \<and> (case di_evidence d of
         NoApproval \<Rightarrow> od_default_approval (pe_op pe) = Never \<and> pd_approval_requirement dec = Never
           \<and> od_safety (pe_op pe) = Safe \<and> \<not> pd_require_distinct_approver dec
       | LeaseEvidence k \<Rightarrow> k = lease_key_from_request X (pe_request pe) \<and> od_default_approval (pe_op pe) \<noteq> Always
           \<and> pd_approval_requirement dec \<noteq> Always \<and> od_safety (pe_op pe) = Safe
       | ApprovedBy oc \<Rightarrow> ao_approved oc
           \<and> (pd_require_distinct_approver dec \<longrightarrow>
                (\<exists>a s. ao_approver oc = Some a \<and> rq_principal (pe_request pe) = Some s \<and> ap_principal_id a \<noteq> pc_sub s)))"
proof -
  have "justified X E0 d" using einv_reach[OF assms(1)] assms(2,3) by (simp add: einv_def list_all_iff)
  then have a: "authorised X E0 (di_policy d) pe" and ev: "evidence_ok X pe (di_evidence d)"
    and log: "started_event X pe \<in> set (di_audit d)" by (simp_all add: justified_def assms(4))
  obtain r0 p where r: "map_of (reg_ops (en_registry E0)) (rq_operation r0) = Some (pe_op pe)"
    "prepare_generic X E0 r0 (pe_op pe) = Inr p" "pe_request pe = prepared_request r0 p"
    "od_safety (pe_op pe) \<noteq> Reveal" "pd_allowed dec" and c: "pe_decision pe = clamp_decision (pe_op pe) dec"
    using a unfolding authorised_def assms(5) by blast
  have safe: "od_safety (pe_op pe) = Safe" if "pd_approval_requirement (pe_decision pe) \<noteq> Always"
    using that r(4) clamp_rank(3)[of "pe_op pe" dec] c by (cases "od_safety (pe_op pe)") auto
  have rank: "requirement_rank (od_default_approval (pe_op pe)) \<le> requirement_rank (pd_approval_requirement (pe_decision pe))"
    "requirement_rank (pd_approval_requirement dec) \<le> requirement_rank (pd_approval_requirement (pe_decision pe))"
    unfolding c by (rule clamp_rank)+
  have "case di_evidence d of
         NoApproval \<Rightarrow> od_default_approval (pe_op pe) = Never \<and> pd_approval_requirement dec = Never
           \<and> od_safety (pe_op pe) = Safe \<and> \<not> pd_require_distinct_approver dec
       | LeaseEvidence k \<Rightarrow> k = lease_key_from_request X (pe_request pe) \<and> od_default_approval (pe_op pe) \<noteq> Always
           \<and> pd_approval_requirement dec \<noteq> Always \<and> od_safety (pe_op pe) = Safe
       | ApprovedBy oc \<Rightarrow> ao_approved oc
           \<and> (pd_require_distinct_approver dec \<longrightarrow>
                (\<exists>a s. ao_approver oc = Some a \<and> rq_principal (pe_request pe) = Some s \<and> ap_principal_id a \<noteq> pc_sub s))"
  proof (cases "di_evidence d")
    case NoApproval
    then have "pd_approval_requirement (pe_decision pe) = Never" "\<not> pd_require_distinct_approver dec"
      using ev c by (auto simp: evidence_ok_def)
    then show ?thesis using rank safe NoApproval
      by (cases "od_default_approval (pe_op pe)"; cases "pd_approval_requirement dec") auto
  next
    case (LeaseEvidence k)
    then have "pd_approval_requirement (pe_decision pe) = FirstUse" "k = lease_key_from_request X (pe_request pe)"
      using ev by (auto simp: evidence_ok_def)
    then show ?thesis using rank safe LeaseEvidence by auto
  next
    case (ApprovedBy oc)
    then show ?thesis using ev c
      by (cases "rq_principal (pe_request pe)") (auto simp: evidence_ok_def distinct_approver_def is_some_and_iff Let_def)
  qed
  with r log show ?thesis by blast
qed

theorem dispatch_is_authorised_witness:
  "\<exists>S d. ereach demo_enext demo_enclave S \<and> d \<in> set (es_dispatched S)
     \<and> pd_allowed (policy_evaluate demo_enext (di_policy d) (pe_request (di_pending d)) (od_safety (pe_op (di_pending d))))"
proof -
  obtain S d where S: "ereach demo_enext demo_enclave S" "es_dispatched S = [d]" "length (es_policies S) = 1"
    using demo_run by blast
  have "length (es_policies S) \<le> 2 ^ 64" "d \<in> set (es_dispatched S)" using S by simp_all
  from dispatch_is_authorised[OF S(1) this refl refl] S(1) this(2) show ?thesis by blast
qed

lemma attempts_ok_append: "attempts_ok (newer @ older) \<Longrightarrow> attempts_ok older"
  by (induction newer rule: attempts_ok.induct) simp_all

text \<open>C14: First-use approvals are never stretched: in the log of every reachable system, each reuse of an approval falls
  to a live approval of the very same key granted under the current policy, within its lifetime (at most an hour) and
  within its budget - counting the approving attempt, this one and all reuses between - and a key is approved again
  only after its previous approval has expired or the policy was swapped.\<close>

theorem first_use_allowance_holds:
  assumes "ereach X E0 S"
  shows "(es_attempts S = newer @ Reuse k t # older \<longrightarrow>
      (\<exists>t0 ttl b n. allowance k older = Some (t0, ttl, b, n) \<and> t0 \<le> t \<and> t - t0 < ttl
         \<and> is_none_or b (\<lambda>b. n + 2 \<le> unat b)))
    \<and> (es_attempts S = newer @ Approval k t ttl b # older \<longrightarrow> ttl \<le> MAX_LEASE_TTL
      \<and> (\<forall>t0 ttl0 b0 n. allowance k older = Some (t0, ttl0, b0, n) \<longrightarrow> t0 \<le> t \<and> ttl0 \<le> t - t0))"
proof -
  have ok: "attempts_ok (es_attempts S)" using ainv_reach[OF assms] by (simp add: ainv_def)
  show ?thesis
  proof (intro conjI impI)
    assume "es_attempts S = newer @ Reuse k t # older"
    then have "attempts_ok (Reuse k t # older)" using ok attempts_ok_append by metis
    then show "\<exists>t0 ttl b n. allowance k older = Some (t0, ttl, b, n) \<and> t0 \<le> t \<and> t - t0 < ttl
         \<and> is_none_or b (\<lambda>b. n + 2 \<le> unat b)" by (auto split: option.splits)
  next
    assume "es_attempts S = newer @ Approval k t ttl b # older"
    then have a: "attempts_ok (Approval k t ttl b # older)" using ok attempts_ok_append by metis
    then show "ttl \<le> MAX_LEASE_TTL" by simp
    show "\<forall>t0 ttl0 b0 n. allowance k older = Some (t0, ttl0, b0, n) \<longrightarrow> t0 \<le> t \<and> ttl0 \<le> t - t0"
      using a by (auto split: option.splits)
  qed
qed

theorem first_use_allowance_holds_witness:
  "\<exists>S older. ereach demo_enext demo_enclave S \<and> es_attempts S = [] @ Reuse demo_key 0 # older
     \<and> (\<exists>t0 ttl b n. allowance demo_key older = Some (t0, ttl, b, n) \<and> is_none_or b (\<lambda>b. n + 2 \<le> unat b))"
proof -
  obtain S where S: "ereach demo_enext demo_enclave S"
    "es_attempts S = [] @ Reuse demo_key 0 # [Approval demo_key 0 60 (Some 2)]" using demo_run by auto
  from first_use_allowance_holds[OF S(1), of "[]" demo_key 0 "[Approval demo_key 0 60 (Some 2)]"] S
  show ?thesis by blast
qed



end
