(* ===== verification/Approval_Binding.thy ===== *)
theory Approval_Binding
  imports Enclave_Properties
begin

text \<open>
  What an approval is bound to: the lease key of \<open>src/crates/opaqued/src/enclave.rs\<close> (what a first-use approval may
  be reused for) and the content hash of \<open>src/crates/opaque-core/src/operation.rs\<close> (what a single approval covers)
  determine the request up to the order of its target entries and references.
\<close>

subsection \<open>Lease keys\<close>

lemma entry_text_inj:
  assumes "CHR ''='' \<notin> set k" "CHR ''='' \<notin> set k'" "k @ CHR ''='' # v = k' @ CHR ''='' # v'"
  shows "k = k' \<and> v = v'"
  using assms by (auto simp: append_eq_append_conv2 append_eq_Cons_conv Cons_eq_append_conv)

lemma join_nul_inj:
  assumes "list_all (\<lambda>x. x \<noteq> [] \<and> CHR 0x00 \<notin> set x) xs" "list_all (\<lambda>x. x \<noteq> [] \<and> CHR 0x00 \<notin> set x) ys"
    and "join_str nul xs = join_str nul ys"
  shows "xs = ys"
proof -
  have e: "join_str nul zs = [] \<longleftrightarrow> zs = []" if "list_all (\<lambda>x. x \<noteq> [] \<and> CHR 0x00 \<notin> set x) zs" for zs
    using that by (induction nul zs rule: join_str.induct) auto
  show ?thesis
  proof (cases "xs = [] \<or> ys = []")
    case True
    then show ?thesis using e[OF assms(1)] e[OF assms(2)] assms(3) by auto
  next
    case False
    then have "split_on (CHR 0x00) (join_str nul xs) = xs" "split_on (CHR 0x00) (join_str nul ys) = ys"
      using assms(1,2) by (auto intro!: split_join simp: list_all_iff)
    then show ?thesis using assms(3) by metis
  qed
qed

text \<open>The delimiters of the canonical texts occur in no field: keys without \<open>=\<close>, no NUL byte, no empty name.\<close>

definition delimitable :: "operation_request \<Rightarrow> bool" where
  "delimitable r =
     (list_all (\<lambda>(k, v). CHR ''='' \<notin> set k \<and> CHR 0x00 \<notin> set k \<and> CHR 0x00 \<notin> set v) (rq_target r)
      \<and> list_all (\<lambda>n. n \<noteq> [] \<and> CHR 0x00 \<notin> set n) (rq_secret_ref_names r))"

lemma target_canonical_inj:
  assumes "delimitable r" "delimitable r'"
    and "join_str nul (map (\<lambda>(k, v). k @ ''='' @ v) (sorted_entries (rq_target r)))
       = join_str nul (map (\<lambda>(k, v). k @ ''='' @ v) (sorted_entries (rq_target r')))"
  shows "sorted_entries (rq_target r) = sorted_entries (rq_target r')"
proof -
  let ?t = "\<lambda>(k, v). k @ ''='' @ v"
  have ok: "CHR ''='' \<notin> set k \<and> CHR 0x00 \<notin> set k \<and> CHR 0x00 \<notin> set v"
    if "(k, v) \<in> set (sorted_entries (rq_target q))" "delimitable q" for q k v
    using that by (auto simp: delimitable_def sorted_entries_def list_all_iff)
  have txt_ok: "list_all (\<lambda>x. x \<noteq> [] \<and> CHR 0x00 \<notin> set x) (map ?t (sorted_entries (rq_target q)))" if "delimitable q" for q
    unfolding list_all_iff using ok[OF _ that] by fastforce
  have inj: "inj_on ?t (set (sorted_entries (rq_target r)) \<union> set (sorted_entries (rq_target r')))"
  proof (rule inj_onI)
    fix x y
    assume x: "x \<in> set (sorted_entries (rq_target r)) \<union> set (sorted_entries (rq_target r'))"
      and y: "y \<in> set (sorted_entries (rq_target r)) \<union> set (sorted_entries (rq_target r'))" and e: "?t x = ?t y"
    have "CHR ''='' \<notin> set (fst x)" "CHR ''='' \<notin> set (fst y)"
      using x y ok[OF _ assms(1), of "fst x" "snd x"] ok[OF _ assms(2), of "fst x" "snd x"]
        ok[OF _ assms(1), of "fst y" "snd y"] ok[OF _ assms(2), of "fst y" "snd y"] by auto
    then show "x = y" using e entry_text_inj[of "fst x" "fst y" "snd x" "snd y"] by (simp add: case_prod_beta prod_eq_iff)
  qed
  show ?thesis by (rule map_inj_on[OF join_nul_inj[OF txt_ok[OF assms(1)] txt_ok[OF assms(2)] assms(3)] inj])
qed

text \<open>C38: A lease key separates what an approval must not cross: where no field holds a delimiter, equal keys mean the same
  operation, the same target entries, the same secret references, the same delegation (principal and session, or none)
  and the same digests of parameters and client identity.  The workspace is no part of the key, so a lease approved on
  one branch or repository also serves requests from another.\<close>

theorem lease_key_scope:
  assumes "delimitable r" "delimitable r'" "lease_key_from_request X r = lease_key_from_request X r'"
  shows "rq_operation r = rq_operation r' \<and> mset (rq_target r) = mset (rq_target r')
    \<and> mset (rq_secret_ref_names r) = mset (rq_secret_ref_names r')
    \<and> map_option (\<lambda>p. (pc_sub p, pc_jti p)) (rq_principal r) = map_option (\<lambda>p. (pc_sub p, pc_jti p)) (rq_principal r')
    \<and> sha256 X (json_to_string X (rq_params r)) = sha256 X (json_to_string X (rq_params r'))
    \<and> sha256 X (fingerprint_preimage X (rq_client_identity r)) = sha256 X (fingerprint_preimage X (rq_client_identity r'))
    \<and> lease_key_from_request X (r\<lparr>rq_workspace := w\<rparr>) = lease_key_from_request X r'"
proof -
  note k = assms(3)[unfolded lease_key_from_request_def, simplified]
  have "sorted_entries (rq_target r) = sorted_entries (rq_target r')"
    using target_canonical_inj[OF assms(1,2)] k by simp
  then have t: "mset (rq_target r) = mset (rq_target r')" by (metis sorted_entries_def mset_sort)
  have "sort (rq_secret_ref_names r) = sort (rq_secret_ref_names r')"
    using assms(1,2) k by (intro join_nul_inj) (simp_all add: delimitable_def list_all_iff)
  then have "mset (rq_secret_ref_names r) = mset (rq_secret_ref_names r')" by (metis mset_sort)
  with t k show ?thesis by (simp add: lease_key_from_request_def)
qed

theorem lease_key_scope_witness:
  "rq_operation demo_request = rq_operation (demo_request\<lparr>rq_workspace := None\<rparr>)
   \<and> mset (rq_target demo_request) = mset (rq_target (demo_request\<lparr>rq_workspace := None\<rparr>))"
proof -
  have "delimitable demo_request" by (simp add: delimitable_def demo_request_def)
  then show ?thesis
    using lease_key_scope[of demo_request "demo_request\<lparr>rq_workspace := None\<rparr>" demo_enext]
    by (simp add: delimitable_def lease_key_from_request_def)
qed

subsection \<open>The content hash an approval is bound to\<close>

definition starts_brace :: "string \<Rightarrow> bool" where
  "starts_brace s = (s \<noteq> [] \<and> hd s = CHR ''{'')"

lemma segments_inj:
  assumes "list_all (\<lambda>x. CHR 0x00 \<notin> set x \<and> \<not> starts_brace x) xs" "list_all (\<lambda>x. CHR 0x00 \<notin> set x \<and> \<not> starts_brace x) ys"
    and "CHR 0x00 \<notin> set j" "starts_brace j" "CHR 0x00 \<notin> set j'" "starts_brace j'"
    and "concat (map (\<lambda>x. x @ nul) xs) @ j @ nul @ rest = concat (map (\<lambda>x. x @ nul) ys) @ j' @ nul @ rest'"
  shows "xs = ys \<and> j = j' \<and> rest = rest'"
proof -
  have cut: "a = b \<and> u = w" if "CHR 0x00 \<notin> set a" "CHR 0x00 \<notin> set b" "a @ CHR 0x00 # u = b @ CHR 0x00 # w" for a b u w :: string
    using that by (auto simp: append_eq_append_conv2 append_eq_Cons_conv Cons_eq_append_conv)
  show ?thesis using assms(1,2,7)
  proof (induction xs arbitrary: ys)
    case Nil
    show ?case
    proof (cases ys)
      case (Cons y zs)
      have "j = y" by (rule conjunct1[OF cut[OF assms(3)]]) (use Nil.prems Cons in simp_all)
      then show ?thesis using Nil.prems(2) assms(4) Cons by simp
    qed (use Nil.prems(3) cut[OF assms(3,5)] in simp)
  next
    case (Cons x xs)
    show ?case
    proof (cases ys)
      case Nil
      have "x = j'" by (rule conjunct1[OF cut[OF _ assms(5)]]) (use Cons.prems Nil in simp_all)
      then show ?thesis using Cons.prems(1) assms(6) by simp
    next
      case y: (Cons y zs)
      have "x = y \<and> concat (map (\<lambda>x. x @ nul) xs) @ j @ nul @ rest = concat (map (\<lambda>x. x @ nul) zs) @ j' @ nul @ rest'"
        by (rule cut) (use Cons.prems y in simp_all)
      then show ?thesis using Cons.IH[of zs] Cons.prems(1,2) y by simp
    qed
  qed
qed

lemma to_le_bytes_length: "length (to_le_bytes w) = 4"
  by (simp add: to_le_bytes_def)

lemma to_le_bytes_inj: "to_le_bytes a = to_le_bytes b \<Longrightarrow> a = b"
proof -
  assume "to_le_bytes a = to_le_bytes b"
  then have d: "unat a div 256 ^ i mod 256 = unat b div 256 ^ i mod 256" if "i \<in> {0, 1, 2, 3}" for i
    using that by (auto simp: to_le_bytes_def dest!: arg_cong[of _ _ "of_char :: char \<Rightarrow> nat"])
  have v: "unat w = unat w mod 256 + 256 * (unat w div 256 mod 256) + 65536 * (unat w div 65536 mod 256)
      + 16777216 * (unat w div 16777216 mod 256)" for w :: "32 word"
  proof -
    let ?n = "unat w"
    have "?n div 65536 = ?n div 256 div 256" "?n div 16777216 = ?n div 256 div 256 div 256"
      by (simp_all flip: div_mult2_eq)
    moreover have "?n div 16777216 mod 256 = ?n div 16777216" using unsigned_less[of w, where ?'a = nat]
      by (simp add: less_mult_imp_div_less)
    moreover have "n = r0 + 256 * r1 + 65536 * r2 + 16777216 * q3"
      if "n = r0 + 256 * q1" "q1 = r1 + 256 * q2" "q2 = r2 + 256 * q3" for n r0 r1 r2 q1 q2 q3 :: nat using that by simp
    note this[OF mod_mult_div_eq[symmetric, of ?n 256] mod_mult_div_eq[symmetric] mod_mult_div_eq[symmetric]]
    ultimately show ?thesis by (simp only:)
  qed
  have "unat a = unat b" using v[of a] v[of b] d[of 0] d[of 1] d[of 2] d[of 3] by simp
  then show ?thesis by (rule word_unat_eq_iff[THEN iffD2])
qed

lemma sections_inj:
  assumes "list_all P xs" "list_all P xs'" "list_all (Not \<circ> P) ys" "list_all (Not \<circ> P) ys'" "xs @ ys = xs' @ ys'"
  shows "xs = xs' \<and> ys = ys'"
proof -
  have f: "filter P us = us \<and> filter P vs = [] \<and> filter (Not \<circ> P) us = [] \<and> filter (Not \<circ> P) vs = vs"
    if "list_all P us" "list_all (Not \<circ> P) vs" for us vs
    using that by (auto simp: list_all_iff filter_empty_conv)
  have "filter P (xs @ ys) = filter P (xs' @ ys')" "filter (Not \<circ> P) (xs @ ys) = filter (Not \<circ> P) (xs' @ ys')"
    using assms(5) by simp_all
  then show ?thesis using f[OF assms(1,3)] f[OF assms(2,4)] by simp
qed

text \<open>The bytes of a request that stand before the client identity in the content hash.\<close>

definition sealable :: "'z opext_scheme \<Rightarrow> operation_request \<Rightarrow> bool" where
  "sealable X r =
     (delimitable r \<and> CHR 0x00 \<notin> set (rq_operation r) \<and> \<not> starts_brace (rq_operation r)
      \<and> list_all (\<lambda>(k, v). \<not> starts_brace k) (rq_target r)
      \<and> list_all (\<lambda>n. CHR ''='' \<notin> set n \<and> \<not> starts_brace n) (rq_secret_ref_names r)
      \<and> CHR 0x00 \<notin> set (json_to_string X (rq_params r)) \<and> starts_brace (json_to_string X (rq_params r)))"

definition content_sections :: "operation_request \<Rightarrow> string list" where
  "content_sections r = rq_operation r # map (\<lambda>(k, v). k @ ''='' @ v) (sorted_entries (rq_target r))
     @ sort (rq_secret_ref_names r)"

lemma content_preimage_sections:
  "\<exists>rest. content_preimage X r = concat (map (\<lambda>x. x @ nul) (content_sections r)) @ json_to_string X (rq_params r) @ nul
     @ to_le_bytes (ci_uid (rq_client_identity r)) @ to_le_bytes (ci_gid (rq_client_identity r)) @ rest"
  by (simp add: content_preimage_def content_sections_def comp_def case_prod_beta')

lemma sealable_sections:
  assumes "sealable X r"
  shows "list_all (\<lambda>x. CHR 0x00 \<notin> set x \<and> \<not> starts_brace x) (content_sections r)"
proof -
  have "\<not> starts_brace (k @ CHR ''='' # v)" if "\<not> starts_brace k" for k v using that by (cases k) (simp_all add: starts_brace_def)
  then have "list_all (\<lambda>x. CHR 0x00 \<notin> set x \<and> \<not> starts_brace x) (map (\<lambda>(k, v). k @ ''='' @ v) (sorted_entries (rq_target r)))"
    using assms by (simp add: sealable_def delimitable_def sorted_entries_def list_all_iff case_prod_beta')
  moreover have "list_all (\<lambda>x. CHR 0x00 \<notin> set x \<and> \<not> starts_brace x) (sort (rq_secret_ref_names r))"
    using assms by (simp add: sealable_def delimitable_def list_all_iff)
  ultimately show ?thesis using assms by (simp add: sealable_def content_sections_def)
qed



text \<open>The content hash depends on neither the iteration order of the target map nor the order in which the secret
  references were named.\<close>

theorem content_hash_canonical:
  assumes "distinct (map fst (rq_target r))" "mset target = mset (rq_target r)" "mset names = mset (rq_secret_ref_names r)"
  shows "content_hash X (r\<lparr>rq_target := target, rq_secret_ref_names := names\<rparr>) = content_hash X r"
proof -
  have "sorted_entries target = sorted_entries (rq_target r)"
    unfolding sorted_entries_def by (rule sort_key_perm[OF assms(1) assms(2)[symmetric], symmetric])
  moreover have "sort names = sort (rq_secret_ref_names r)" by (metis assms(3) sorted_list_of_multiset_mset)
  ultimately show ?thesis by (simp add: content_hash_def content_preimage_def)
qed

theorem content_hash_canonical_witness:
  "content_hash demo_enext (demo_request\<lparr>rq_target := [(''b'', ''2''), (''a'', ''1'')], rq_secret_ref_names := [''y'', ''x'']\<rparr>)
   = content_hash demo_enext (demo_request\<lparr>rq_target := [(''a'', ''1''), (''b'', ''2'')], rq_secret_ref_names := [''x'', ''y'']\<rparr>)"
  using content_hash_canonical[of "demo_request\<lparr>rq_target := [(''a'', ''1''), (''b'', ''2'')], rq_secret_ref_names := [''x'', ''y'']\<rparr>"
      "[(''b'', ''2''), (''a'', ''1'')]" "[''y'', ''x'']" demo_enext] by simp

text \<open>Without the delimiters' discipline the sections run into each other: a target entry and a reference of the same
  text give one hash.\<close>

lemma content_hash_section_collision:
  "content_hash X (r\<lparr>rq_target := [(k, v)], rq_secret_ref_names := []\<rparr>)
   = content_hash X (r\<lparr>rq_target := [], rq_secret_ref_names := [k @ ''='' @ v]\<rparr>)"
  by (simp add: content_hash_def content_preimage_def sorted_entries_def)

end
