(* ===== verification/Audit_Chain.thy ===== *)
theory Audit_Chain
  imports Audit_Event
begin

text \<open>
  The tamper-evident audit store of \<open>src/crates/opaque-core/src/audit.rs\<close>: the canonical form of a row, the HMAC
  chain, its verification, retention and the insertion of a batch.

  A database is what the checks can see of the file: the rows in rowid order, the two metadata tables with their ids,
  whether tables and later-added columns exist and whether somebody put triggers on the metadata.  The full-text index,
  file permissions and the journal mode are left out.  A transaction that fails leaves the database as it was.  HMAC
  and \<open>serde_json\<close> are parameters.
\<close>

record aext = snext +
  hmac_sha256 :: "string \<Rightarrow> string \<Rightarrow> string"
  json_of_client :: "client_summary \<Rightarrow> string option"
  json_of_target :: "(string \<times> string) list \<Rightarrow> string option"
  json_of_workspace :: "workspace_summary \<Rightarrow> string option"
  json_of_approver :: "approver_identity \<Rightarrow> string option"

datatype audit_error = AuditSqlite string | AuditIo string | AuditOther string

subsection \<open>Rows and their canonical form\<close>

record audit_row =
  ar_rowid :: int
  ar_event_id :: string
  ar_sequence :: int
  ar_ts :: int
  ar_level :: string
  ar_kind :: string
  ar_request_id :: "string option"
  ar_approval_id :: "string option"
  ar_client_json :: "string option"
  ar_operation :: "string option"
  ar_safety :: "string option"
  ar_target_json :: "string option"
  ar_outcome :: "string option"
  ar_latency :: "int option"
  ar_secret_names :: "string option"
  ar_policy_decision :: "string option"
  ar_detail :: "string option"
  ar_workspace_json :: "string option"
  ar_request_hash :: "string option"
  ar_approver_json :: "string option"
  ar_record_hash :: "string option"

abbreviation US :: string where "US \<equiv> [CHR 0x1F]"
abbreviation RS :: string where "RS \<equiv> [CHR 0x1E]"

definition chained_fields :: "audit_row \<Rightarrow> string list" where
  "chained_fields r =
     [ar_event_id r, int_to_string (ar_sequence r), int_to_string (ar_ts r), ar_level r, ar_kind r,
      opt_bytes (ar_request_id r), opt_bytes (ar_approval_id r), opt_bytes (ar_client_json r),
      opt_bytes (ar_operation r), opt_bytes (ar_safety r), opt_bytes (ar_target_json r), opt_bytes (ar_outcome r),
      opt_bytes (map_option int_to_string (ar_latency r)), opt_bytes (ar_secret_names r),
      opt_bytes (ar_policy_decision r), opt_bytes (ar_detail r), opt_bytes (ar_workspace_json r),
      opt_bytes (ar_request_hash r)]"

definition canonical_record :: "audit_row \<Rightarrow> string" where
  "canonical_record r = join_str US (chained_fields r)"

definition append_optional_chained_field :: "string \<Rightarrow> string option \<Rightarrow> string" where
  "append_optional_chained_field canon value =
     (case value of None \<Rightarrow> canon | Some v \<Rightarrow> if v \<noteq> [] then canon @ US @ v else canon)"

definition canon_from_row :: "bool \<Rightarrow> audit_row \<Rightarrow> string" where
  "canon_from_row has_approver r =
     append_optional_chained_field (canonical_record r) (if has_approver then ar_approver_json r else None)"

subsection \<open>The chain\<close>

definition CHAIN_GENESIS :: string where "CHAIN_GENESIS = ''opaque-audit-chain-genesis-v1''"

definition chain_hash :: "'z aext_scheme \<Rightarrow> string \<Rightarrow> string \<Rightarrow> string \<Rightarrow> string" where
  "chain_hash X key prev canon = hex_encode (hmac_sha256 X key (prev @ RS @ canon))"

definition HEAD_DOMAIN :: string where "HEAD_DOMAIN = ''opaque-audit-tail-head-v1''"
definition BOUNDARY_DOMAIN :: string where "BOUNDARY_DOMAIN = ''opaque-audit-retention-boundary-v1''"

definition head_text :: "string \<Rightarrow> int \<Rightarrow> string" where
  "head_text hash sequence = int_to_string sequence @ US @ hash"

definition head_signature :: "'z aext_scheme \<Rightarrow> string \<Rightarrow> string \<Rightarrow> int \<Rightarrow> string" where
  "head_signature X key hash sequence = chain_hash X key HEAD_DOMAIN (head_text hash sequence)"

definition boundary_text :: "string \<Rightarrow> int \<Rightarrow> int \<Rightarrow> int \<Rightarrow> string" where
  "boundary_text hash sequence high_watermark rowid =
     int_to_string sequence @ US @ int_to_string high_watermark @ US @ int_to_string rowid @ US @ hash"

definition boundary_signature :: "'z aext_scheme \<Rightarrow> string \<Rightarrow> string \<Rightarrow> int \<Rightarrow> int \<Rightarrow> int \<Rightarrow> string" where
  "boundary_signature X key hash sequence high_watermark rowid =
     chain_hash X key BOUNDARY_DOMAIN (boundary_text hash sequence high_watermark rowid)"

subsection \<open>The database\<close>

record chain_head =
  hd_last_hash :: string
  hd_last_sequence :: int
  hd_format_version :: int
  hd_authenticator :: string

record retention_row =
  rb_previous_hash :: string
  rb_previous_sequence :: int
  rb_high_watermark :: int
  rb_previous_rowid :: int
  rb_authenticator :: string

record audit_db =
  db_events :: "audit_row list option"
  db_record_hash_column :: bool
  db_approver_column :: bool
  db_heads :: "(int \<times> chain_head) list option"
  db_head_columns :: bool
  db_head_triggers :: bool
  db_boundaries :: "(int \<times> retention_row) list option"
  db_boundary_triggers :: bool

definition upsert :: "'a \<Rightarrow> (int \<times> 'a) list option \<Rightarrow> (int \<times> 'a) list option" where
  "upsert v rows = Some ((0, v) # (case rows of None \<Rightarrow> [] | Some rs \<Rightarrow> filter (\<lambda>e. fst e \<noteq> 0) rs))"

definition singleton_row :: "(int \<times> 'a) list option \<Rightarrow> 'a option" where
  "singleton_row rows = (case rows of None \<Rightarrow> None | Some rs \<Rightarrow> map_of rs 0)"

definition set_chain_head :: "'z aext_scheme \<Rightarrow> string \<Rightarrow> string \<Rightarrow> int \<Rightarrow> audit_db \<Rightarrow> audit_db" where
  "set_chain_head X key last_hash last_sequence db =
     db\<lparr>db_heads := upsert \<lparr>hd_last_hash = last_hash, hd_last_sequence = last_sequence, hd_format_version = 1,
                            hd_authenticator = head_signature X key last_hash last_sequence\<rparr> (db_heads db)\<rparr>"

subsection \<open>Verification\<close>

record chain_verification =
  cv_ok :: bool
  cv_records_checked :: nat
  cv_first_bad_sequence :: "u64 option"
  cv_detail :: "string option"

definition broken :: "nat \<Rightarrow> int option \<Rightarrow> string \<Rightarrow> chain_verification" where
  "broken checked bad_sequence detail =
     \<lparr>cv_ok = False, cv_records_checked = checked, cv_first_bad_sequence = map_option of_int bad_sequence,
      cv_detail = Some detail\<rparr>"

definition metadata_fault :: "string \<Rightarrow> (int \<times> 'a) list option \<Rightarrow> bool \<Rightarrow> string option" where
  "metadata_fault table rows triggers =
     (case rows of
        None \<Rightarrow> None
      | Some rs \<Rightarrow>
          if length rs > 1 \<or> (rs \<noteq> [] \<and> fst (hd rs) \<noteq> 0)
          then Some (''audit '' @ table @ '' metadata must contain only the singleton id=0 row'')
          else if triggers then Some (''audit '' @ table @ '' metadata does not permit triggers'') else None)"

definition retention_boundary :: "'z aext_scheme \<Rightarrow> string \<Rightarrow> audit_db \<Rightarrow> audit_error + (string \<times> int) option" where
  "retention_boundary X key db =
     (case singleton_row (db_boundaries db) of
        None \<Rightarrow> Inr None
      | Some b \<Rightarrow>
          if rb_previous_sequence b < 0 \<or> rb_high_watermark b < rb_previous_sequence b \<or> rb_previous_rowid b \<le> 0
             \<or> rb_authenticator b \<noteq> boundary_signature X key (rb_previous_hash b) (rb_previous_sequence b)
                                     (rb_high_watermark b) (rb_previous_rowid b)
          then Inl (AuditOther ''audit retention boundary authentication failed'')
          else Inr (Some (rb_previous_hash b, rb_previous_sequence b)))"

text \<open>The row loop: the last hash, the last sequence number and the count, or the place of the break.\<close>

fun verify_rows ::
  "'z aext_scheme \<Rightarrow> string \<Rightarrow> bool \<Rightarrow> string \<Rightarrow> int option \<Rightarrow> nat \<Rightarrow> audit_row list
    \<Rightarrow> (nat \<times> int) + (string \<times> int option \<times> nat)" where
  "verify_rows X key ap prev tail n [] = Inr (prev, tail, n)"
| "verify_rows X key ap prev tail n (r # rs) =
     (let expected = chain_hash X key prev (canon_from_row ap r)
      in if ar_record_hash r = Some expected \<and> ar_sequence r \<ge> 0
         then verify_rows X key ap expected (Some (ar_sequence r)) (Suc n) rs
         else Inl (n, ar_sequence r))"

definition head_authentic :: "'z aext_scheme \<Rightarrow> string \<Rightarrow> chain_head option \<Rightarrow> bool" where
  "head_authentic X key head =
     is_some_and head (\<lambda>h. hd_format_version h = 1
       \<and> hd_authenticator h = head_signature X key (hd_last_hash h) (hd_last_sequence h))"

definition check_tail ::
  "'z aext_scheme \<Rightarrow> string \<Rightarrow> bool \<Rightarrow> audit_db \<Rightarrow> string \<Rightarrow> int option \<Rightarrow> nat \<Rightarrow> chain_verification" where
  "check_tail X key allow_legacy_missing_head db prev tail n =
     (let authenticated = (db_heads db \<noteq> None \<and> db_head_columns db);
          head = singleton_row (db_heads db)
      in if \<not> authenticated \<and> \<not> allow_legacy_missing_head
         then broken n tail ''legacy audit head requires independently pinned offline upgrade''
         else if authenticated \<and> \<not> head_authentic X key head
         then broken n tail ''audit tail head authentication failed''
         else if (case head of
                    Some h \<Rightarrow> hd_last_hash h = prev \<and> hd_last_sequence h = (case tail of Some s \<Rightarrow> s | None \<Rightarrow> - 1)
                  | None \<Rightarrow> allow_legacy_missing_head)
         then \<lparr>cv_ok = True, cv_records_checked = n, cv_first_bad_sequence = None, cv_detail = None\<rparr>
         else broken n tail ''audit log truncated or tail anchor altered'')"

definition verify_audit_connection ::
  "'z aext_scheme \<Rightarrow> string \<Rightarrow> bool \<Rightarrow> audit_db \<Rightarrow> audit_error + chain_verification" where
  "verify_audit_connection X key allow_legacy_missing_head db =
     (case metadata_fault ''chain_head'' (db_heads db) (db_head_triggers db) of
        Some detail \<Rightarrow> Inr (broken 0 None detail)
      | None \<Rightarrow> (case metadata_fault ''retention_boundary'' (db_boundaries db) (db_boundary_triggers db) of
          Some detail \<Rightarrow> Inr (broken 0 None detail)
        | None \<Rightarrow> (case retention_boundary X key db of
            Inl (AuditOther detail) \<Rightarrow> Inr (broken 0 None detail)
          | Inl err \<Rightarrow> Inl err
          | Inr boundary \<Rightarrow> (case db_events db of
              None \<Rightarrow> Inl (AuditSqlite ''no such table: audit_events'')
            | Some rows \<Rightarrow>
                if \<not> db_record_hash_column db then Inl (AuditSqlite ''no such column: record_hash'')
                else
                  (let (prev, tail) = (case boundary of Some (hash, seq) \<Rightarrow> (hash, Some seq) | None \<Rightarrow> (CHAIN_GENESIS, None))
                   in case verify_rows X key (db_approver_column db) prev tail 0 rows of
                        Inl (n, seq) \<Rightarrow>
                          Inr (broken n (Some (max seq 0)) (''audit chain broken at record '' @ decimal (Suc n)
                                 @ '' (sequence '' @ int_to_string seq @ '')''))
                      | Inr (prev', tail', n) \<Rightarrow> Inr (check_tail X key allow_legacy_missing_head db prev' tail' n))))))"

definition require_valid_chain :: "'z aext_scheme \<Rightarrow> string \<Rightarrow> bool \<Rightarrow> audit_db \<Rightarrow> audit_error + unit" where
  "require_valid_chain X key allow_legacy_missing_head db =
     and_then (verify_audit_connection X key allow_legacy_missing_head db) (\<lambda>v.
       if cv_ok v then Inr ()
       else Inl (AuditOther (case cv_detail v of Some d \<Rightarrow> d | None \<Rightarrow> ''audit chain integrity failure'')))"

subsection \<open>Retention\<close>

definition I64_MAX :: int where "I64_MAX = 2 ^ 63 - 1"

definition retention_cutoff_ms :: "nat \<Rightarrow> nat \<Rightarrow> int" where
  "retention_cutoff_ms retention_days now = min (int (now - retention_days * 86400000)) I64_MAX"

definition prune_verified_prefix ::
  "'z aext_scheme \<Rightarrow> string \<Rightarrow> nat \<Rightarrow> nat \<Rightarrow> audit_db \<Rightarrow> audit_error + (nat \<times> audit_db)" where
  "prune_verified_prefix X key retention_days now db =
     (if retention_days = 0 then Inr (0, db)
      else
        (let rows = (case db_events db of Some rs \<Rightarrow> rs | None \<Rightarrow> []);
             expired = takeWhile (\<lambda>r. ar_ts r < retention_cutoff_ms retention_days now) rows;
             high_watermark = fold max (map ar_sequence expired)
               (case singleton_row (db_boundaries db) of Some b \<Rightarrow> rb_high_watermark b | None \<Rightarrow> - 1)
         in if expired = [] then Inr (0, db)
            else if list_ex (\<lambda>r. ar_record_hash r = None) expired then Inl (AuditSqlite ''Invalid column type Null'')
            else
              (let l = last expired; hash = the (ar_record_hash l);
                   kept = filter (\<lambda>r. ar_rowid r > ar_rowid l) rows
               in Inr (length rows - length kept,
                       db\<lparr>db_boundaries := upsert
                             \<lparr>rb_previous_hash = hash, rb_previous_sequence = ar_sequence l,
                              rb_high_watermark = high_watermark, rb_previous_rowid = ar_rowid l,
                              rb_authenticator = boundary_signature X key hash (ar_sequence l) high_watermark (ar_rowid l)\<rparr>
                             (db_boundaries db),
                          db_events := Some kept\<rparr>))))"

definition run_retention_cleanup ::
  "'z aext_scheme \<Rightarrow> string \<Rightarrow> nat \<Rightarrow> nat \<Rightarrow> audit_db \<Rightarrow> audit_error + (nat \<times> audit_db)" where
  "run_retention_cleanup X key retention_days now db =
     (if retention_days = 0 then Inr (0, db)
      else and_then (require_valid_chain X key False db) (\<lambda>_. prune_verified_prefix X key retention_days now db))"

subsection \<open>Inserting a batch\<close>

fun safety_debug :: "operation_safety \<Rightarrow> string" where
  "safety_debug Safe = ''Safe''"
| "safety_debug SensitiveOutput = ''SensitiveOutput''"
| "safety_debug Reveal = ''Reveal''"

definition opt_bind :: "'a option \<Rightarrow> ('a \<Rightarrow> 'b option) \<Rightarrow> 'b option" where
  "opt_bind v f = (case v of None \<Rightarrow> None | Some x \<Rightarrow> f x)"

definition event_row :: "'z aext_scheme \<Rightarrow> audit_event \<Rightarrow> int \<Rightarrow> string option \<Rightarrow> audit_row" where
  "event_row X ev rowid record_hash =
     \<lparr>ar_rowid = rowid, ar_event_id = uuid_to_string X (ae_event_id ev), ar_sequence = sint (ae_sequence_number ev),
      ar_ts = ae_ts_utc_ms ev, ar_level = level_to_string (ae_level ev), ar_kind = kind_to_string (ae_kind ev),
      ar_request_id = map_option (uuid_to_string X) (ae_request_id ev),
      ar_approval_id = map_option (uuid_to_string X) (ae_approval_id ev),
      ar_client_json = opt_bind (ae_client ev) (json_of_client X), ar_operation = ae_operation ev,
      ar_safety = map_option safety_debug (ae_safety ev),
      ar_target_json = opt_bind (ae_target ev) (json_of_target X), ar_outcome = ae_outcome ev,
      ar_latency = ae_latency_ms ev,
      ar_secret_names = (if ae_secret_names ev = [] then None else Some (join_str '','' (ae_secret_names ev))),
      ar_policy_decision = ae_policy_decision ev, ar_detail = ae_detail ev,
      ar_workspace_json = opt_bind (ae_workspace ev) (json_of_workspace X), ar_request_hash = ae_request_hash ev,
      ar_approver_json = opt_bind (ae_approver ev) (json_of_approver X), ar_record_hash = record_hash\<rparr>"

text \<open>The loop over the batch: rows so far, the hash the next row chains to, the last rowid used and the last sequence
  number.  A sequence number above \<open>i64::MAX\<close> does not convert to an SQLite integer, and a reused identifier
  violates the primary key.\<close>

fun insert_events ::
  "'z aext_scheme \<Rightarrow> string \<Rightarrow> audit_row list \<Rightarrow> string \<Rightarrow> int \<Rightarrow> int option \<Rightarrow> audit_event list
    \<Rightarrow> string + (audit_row list \<times> string \<times> int option)" where
  "insert_events X key rows prev rowid last_seq [] = Inr (rows, prev, last_seq)"
| "insert_events X key rows prev rowid last_seq (ev # evs) =
     (let record_hash = chain_hash X key prev (canon_from_row True (event_row X ev rowid None))
      in if rowid = I64_MAX then Inl ''audit rowid exhausted''
         else if uint (ae_sequence_number ev) > I64_MAX then Inl ''out of range integral type conversion attempted''
         else if uuid_to_string X (ae_event_id ev) \<in> set (map ar_event_id rows)
         then Inl ''UNIQUE constraint failed: audit_events.event_id''
         else insert_events X key (rows @ [event_row X ev (rowid + 1) (Some record_hash)]) record_hash (rowid + 1)
                (Some (sint (ae_sequence_number ev))) evs)"

text \<open>The whole transaction; \<open>storage_ok\<close> says whether SQLite could begin, write and commit it.\<close>

definition insert_batch ::
  "'z aext_scheme \<Rightarrow> string \<Rightarrow> bool \<Rightarrow> audit_event list \<Rightarrow> audit_db \<times> string \<Rightarrow> string + (audit_db \<times> string)" where
  "insert_batch X key storage_ok events st =
     (case st of (db, last_hash) \<Rightarrow>
        (let rows = (case db_events db of Some rs \<Rightarrow> rs | None \<Rightarrow> []);
             existing_rowid = fold max (map ar_rowid rows) 0;
             pruned_rowid = (case singleton_row (db_boundaries db) of Some b \<Rightarrow> rb_previous_rowid b | None \<Rightarrow> 0)
         in case insert_events X key rows last_hash (max existing_rowid pruned_rowid) None events of
              Inl e \<Rightarrow> Inl e
            | Inr (rows', candidate_hash, last_seq) \<Rightarrow>
                if \<not> storage_ok then Inl ''storage failure''
                else
                  (let db' = db\<lparr>db_events := Some rows'\<rparr>
                   in Inr (case last_seq of
                             Some seq \<Rightarrow> set_chain_head X key candidate_hash seq db'
                           | None \<Rightarrow> db', candidate_hash))))"

subsection \<open>Opening\<close>

definition apply_schema :: "audit_db \<Rightarrow> audit_db" where
  "apply_schema db =
     db\<lparr>db_events := Some (case db_events db of Some rs \<Rightarrow> rs | None \<Rightarrow> []),
        db_record_hash_column := (db_events db = None \<or> db_record_hash_column db),
        db_approver_column := True,
        db_heads := Some (case db_heads db of Some hs \<Rightarrow> hs | None \<Rightarrow> []),
        db_head_columns := (db_heads db = None \<or> db_head_columns db),
        db_head_triggers := (db_heads db \<noteq> None \<and> db_head_triggers db),
        db_boundaries := Some (case db_boundaries db of Some brs \<Rightarrow> brs | None \<Rightarrow> []),
        db_boundary_triggers := (db_boundaries db \<noteq> None \<and> db_boundary_triggers db)\<rparr>"

definition opt_list :: "'a option \<Rightarrow> 'a list" where
  "opt_list v = (case v of None \<Rightarrow> [] | Some x \<Rightarrow> [x])"

definition next_sequence_of :: "audit_db \<Rightarrow> audit_error + u64" where
  "next_sequence_of db =
     (let candidates = map ar_sequence (case db_events db of Some rs \<Rightarrow> rs | None \<Rightarrow> [])
                       @ opt_list (map_option hd_last_sequence (singleton_row (db_heads db)))
                       @ opt_list (map_option rb_high_watermark (singleton_row (db_boundaries db)));
          next = (case candidates of [] \<Rightarrow> - 1 | c # cs \<Rightarrow> fold max cs c) + 1
      in if next < 0 \<or> next > I64_MAX then Inl (AuditSqlite ''integral value out of range'') else Inr (of_int next))"

text \<open>\<open>SqliteAuditSink::new_with_capacity\<close> up to the commit: the database, the key, the next sequence number and the
  hash to chain from.  \<open>key_file\<close> is the key on disk, \<open>fresh_key\<close> the one that would be created.\<close>

definition open_audit ::
  "'z aext_scheme \<Rightarrow> string option \<Rightarrow> string \<Rightarrow> nat \<Rightarrow> nat \<Rightarrow> audit_db
    \<Rightarrow> (audit_error + (audit_db \<times> string \<times> u64 \<times> string)) \<times> string option" where
  "open_audit X key_file fresh_key retention_days now db =
     (let established = (db_events db \<noteq> None \<or> db_heads db \<noteq> None)
      in if db_events db \<noteq> None \<and> \<not> db_record_hash_column db
         then (Inl (AuditOther (''unchained legacy audit cannot be authenticated automatically; ''
                 @ ''preserve it separately and enroll a new stream'')), key_file)
         else if established \<and> (db_heads db = None \<or> \<not> db_head_columns db)
         then (Inl (AuditOther ''legacy audit head requires independently pinned offline upgrade''), key_file)
         else if established \<and> key_file = None then (Inl (AuditOther ''audit chain key is missing''), key_file)
         else
           (let key = (case key_file of Some k \<Rightarrow> k | None \<Rightarrow> fresh_key);
                db1 = apply_schema db;
                db2 = (if established then db1 else set_chain_head X key CHAIN_GENESIS (- 1) db1)
            in (and_then (require_valid_chain X key False db2) (\<lambda>_.
                and_then (prune_verified_prefix X key retention_days now db2) (\<lambda>(_, db3).
                and_then (next_sequence_of db3) (\<lambda>next.
                  Inr (db3, key, next,
                       case singleton_row (db_heads db3) of Some h \<Rightarrow> hd_last_hash h | None \<Rightarrow> CHAIN_GENESIS)))),
                Some key)))"

definition empty_db :: audit_db where
  "empty_db = \<lparr>db_events = None, db_record_hash_column = False, db_approver_column = False, db_heads = None,
     db_head_columns = False, db_head_triggers = False, db_boundaries = None, db_boundary_triggers = False\<rparr>"

subsection \<open>Chains\<close>

text \<open>The rows carry the hashes of a chain from \<open>prev\<close> to \<open>end_hash\<close>.\<close>

fun linked :: "'z aext_scheme \<Rightarrow> string \<Rightarrow> string \<Rightarrow> audit_row list \<Rightarrow> string \<Rightarrow> bool" where
  "linked X key prev [] end_hash = (prev = end_hash)"
| "linked X key prev (r # rs) end_hash =
     (ar_record_hash r = Some (chain_hash X key prev (canon_from_row True r)) \<and> ar_sequence r \<ge> 0
      \<and> linked X key (chain_hash X key prev (canon_from_row True r)) rs end_hash)"

lemma linked_append:
  "linked X key prev (xs @ ys) e \<longleftrightarrow> (\<exists>m. linked X key prev xs m \<and> linked X key m ys e)"
  by (induction xs arbitrary: prev) auto

lemma linked_snoc:
  "linked X key prev (xs @ [r]) e \<longleftrightarrow>
     ar_record_hash r = Some e \<and> ar_sequence r \<ge> 0
     \<and> (\<exists>m. linked X key prev xs m \<and> e = chain_hash X key m (canon_from_row True r))"
  by (auto simp: linked_append)

lemma linked_last:
  assumes "linked X key prev rows e" "rows \<noteq> []"
  shows "ar_record_hash (last rows) = Some e"
  using assms by (cases rows rule: rev_cases) (auto simp: linked_snoc)

lemma linked_hashes: "linked X key prev rows e \<Longrightarrow> r \<in> set rows \<Longrightarrow> ar_record_hash r \<noteq> None \<and> ar_sequence r \<ge> 0"
  by (induction rows arbitrary: prev) auto

definition tail_of :: "int option \<Rightarrow> audit_row list \<Rightarrow> int option" where
  "tail_of tail rows = (if rows = [] then tail else Some (ar_sequence (last rows)))"

lemma verify_rows_linked:
  "linked X key prev rows e \<Longrightarrow> verify_rows X key True prev tail n rows = Inr (e, tail_of tail rows, n + length rows)"
  by (induction rows arbitrary: prev tail n) (auto simp: tail_of_def Let_def)

lemma event_row_sels [simp]:
  "ar_rowid (event_row X ev i h) = i" "ar_sequence (event_row X ev i h) = sint (ae_sequence_number ev)"
  "ar_record_hash (event_row X ev i h) = h" "ar_event_id (event_row X ev i h) = uuid_to_string X (ae_event_id ev)"
  "ar_ts (event_row X ev i h) = ae_ts_utc_ms ev"
  by (simp_all add: event_row_def)

lemma canon_event_row:
  "canon_from_row ap (event_row X ev i h) = canon_from_row ap (event_row X ev j h')"
  by (simp add: canon_from_row_def canonical_record_def chained_fields_def event_row_def)

definition recorded :: "'z aext_scheme \<Rightarrow> audit_event \<Rightarrow> audit_row \<Rightarrow> bool" where
  "recorded X ev r \<longleftrightarrow> (\<exists>i h. r = event_row X ev i h)"

lemma insert_events_Inr:
  assumes "insert_events X key rows prev rowid ls evs = Inr (rows', e, ls')"
  shows "\<exists>added. rows' = rows @ added \<and> linked X key prev added e \<and> list_all2 (recorded X) evs added
    \<and> map ar_rowid added = map (\<lambda>i. rowid + 1 + int i) [0..<length evs]
    \<and> map ar_sequence added = map (uint \<circ> ae_sequence_number) evs
    \<and> ls' = tail_of ls added"
  using assms
proof (induction evs arbitrary: rows prev rowid ls)
  case Nil
  then show ?case by (auto simp: tail_of_def)
next
  case (Cons ev evs)
  let ?h = "chain_hash X key prev (canon_from_row True (event_row X ev rowid None))"
  let ?r = "event_row X ev (rowid + 1) (Some ?h)"
  have le: "uint (ae_sequence_number ev) \<le> I64_MAX"
    and i: "insert_events X key (rows @ [?r]) ?h (rowid + 1) (Some (sint (ae_sequence_number ev))) evs = Inr (rows', e, ls')"
    using Cons.prems by (auto simp: Let_def split: if_splits)
  from Cons.IH[OF i] obtain added where a: "rows' = (rows @ [?r]) @ added" "linked X key ?h added e"
    "list_all2 (recorded X) evs added" "map ar_rowid added = map (\<lambda>i. rowid + 1 + 1 + int i) [0..<length evs]"
    "map ar_sequence added = map (uint \<circ> ae_sequence_number) evs"
    "ls' = tail_of (Some (sint (ae_sequence_number ev))) added" by blast
  have s: "sint (ae_sequence_number ev) = uint (ae_sequence_number ev)"
    using le order_trans[OF _ uint_ge_0[of "ae_sequence_number ev"], of "- (2 ^ 63)"]
    by (simp add: I64_MAX_def sint_uint signed_take_bit_int_eq_self_iff)
  have c: "canon_from_row True ?r = canon_from_row True (event_row X ev rowid None)" by (rule canon_event_row)
  have "rows' = rows @ ?r # added \<and> linked X key prev (?r # added) e \<and> list_all2 (recorded X) (ev # evs) (?r # added)"
    using a(1-3) c s by (auto simp: recorded_def)
  moreover have "map ar_rowid (?r # added) = map (\<lambda>i. rowid + 1 + int i) [0..<length (ev # evs)]"
    using a(4) by (simp add: map_upt_Suc del: upt_Suc)
  moreover have "map ar_sequence (?r # added) = map (uint \<circ> ae_sequence_number) (ev # evs)"
    using a(5) s by simp
  moreover have "ls' = tail_of ls (?r # added)" using a(6) by (simp add: tail_of_def)
  ultimately show ?case by blast
qed

end
