(* ===== verification/Audit_Store.thy ===== *)
theory Audit_Store
  imports Audit_Chain
begin

text \<open>
  What the audit store keeps: whatever the writer does - insert, prune, crash and reopen - the database holds the end
  of one unbroken chain that starts at the genesis value, with an authentic head and boundary.
\<close>

definition head_for :: "'z aext_scheme \<Rightarrow> string \<Rightarrow> string \<Rightarrow> int \<Rightarrow> chain_head" where
  "head_for X key hash seq =
     \<lparr>hd_last_hash = hash, hd_last_sequence = seq, hd_format_version = 1, hd_authenticator = head_signature X key hash seq\<rparr>"

definition boundary_for :: "'z aext_scheme \<Rightarrow> string \<Rightarrow> audit_row \<Rightarrow> int \<Rightarrow> retention_row" where
  "boundary_for X key r hw =
     \<lparr>rb_previous_hash = the (ar_record_hash r), rb_previous_sequence = ar_sequence r, rb_high_watermark = hw,
      rb_previous_rowid = ar_rowid r,
      rb_authenticator = boundary_signature X key (the (ar_record_hash r)) (ar_sequence r) hw (ar_rowid r)\<rparr>"

definition tail_sequence :: "audit_row list \<Rightarrow> int" where
  "tail_sequence log = (if log = [] then - 1 else ar_sequence (last log))"

text \<open>\<open>pruned\<close> are the rows retention removed, \<open>rows\<close> the rows still there.\<close>

definition boundary_ok :: "'z aext_scheme \<Rightarrow> string \<Rightarrow> audit_row list \<Rightarrow> (int \<times> retention_row) list option \<Rightarrow> bool" where
  "boundary_ok X key pruned brs \<longleftrightarrow>
     (if pruned = [] then brs = Some []
      else brs = Some [(0, boundary_for X key (last pruned) (Max (ar_sequence ` set pruned)))])"

definition store_ok ::
  "'z aext_scheme \<Rightarrow> string \<Rightarrow> audit_row list \<Rightarrow> audit_row list \<Rightarrow> string \<Rightarrow> audit_db \<Rightarrow> bool" where
  "store_ok X key pruned rows last_hash db \<longleftrightarrow>
     db_events db = Some rows \<and> db_record_hash_column db \<and> db_approver_column db
     \<and> db_head_columns db \<and> \<not> db_head_triggers db \<and> \<not> db_boundary_triggers db
     \<and> db_heads db = Some [(0, head_for X key last_hash (tail_sequence (pruned @ rows)))]
     \<and> boundary_ok X key pruned (db_boundaries db)
     \<and> linked X key CHAIN_GENESIS (pruned @ rows) last_hash
     \<and> sorted_wrt (<) (0 # map ar_rowid (pruned @ rows))"

lemma singleton_row_simps [simp]:
  "singleton_row None = None" "singleton_row (Some []) = None" "singleton_row (Some [(0, v)]) = Some v"
  by (simp_all add: singleton_row_def)

lemma upsert_simps [simp]:
  "upsert v None = Some [(0, v)]" "upsert v (Some []) = Some [(0, v)]" "upsert v (Some [(0, w)]) = Some [(0, v)]"
  by (simp_all add: upsert_def)

lemma boundary_row:
  assumes "boundary_ok X key pruned brs"
  shows "singleton_row brs = (if pruned = [] then None
           else Some (boundary_for X key (last pruned) (Max (ar_sequence ` set pruned))))"
  using assms by (auto simp: boundary_ok_def)

lemma retention_boundary_ok:
  assumes "store_ok X key pruned rows last_hash db"
  shows "retention_boundary X key db =
    Inr (if pruned = [] then None else Some (the (ar_record_hash (last pruned)), ar_sequence (last pruned)))"
proof (cases "pruned = []")
  case False
  from assms have l: "linked X key CHAIN_GENESIS (pruned @ rows) last_hash" and b: "boundary_ok X key pruned (db_boundaries db)"
    and s: "sorted_wrt (<) (0 # map ar_rowid (pruned @ rows))"
    by (simp_all add: store_ok_def)
  have "ar_sequence (last pruned) \<ge> 0" "ar_rowid (last pruned) > 0"
    using linked_hashes[OF l, of "last pruned"] s False by simp_all
  moreover have "\<not> Max (ar_sequence ` set pruned) < ar_sequence (last pruned)"
    unfolding not_less using False by (intro Max_ge) simp_all
  ultimately show ?thesis
    using False boundary_row[OF b] by (simp add: retention_boundary_def boundary_for_def del: Max_less_iff)
qed (use assms in \<open>auto simp: retention_boundary_def store_ok_def boundary_ok_def\<close>)

text \<open>An intact store passes verification.\<close>

lemma verify_store:
  assumes "store_ok X key pruned rows last_hash db"
  shows "verify_audit_connection X key False db
    = Inr \<lparr>cv_ok = True, cv_records_checked = length rows, cv_first_bad_sequence = None, cv_detail = None\<rparr>"
proof -
  from assms have l: "linked X key CHAIN_GENESIS (pruned @ rows) last_hash" by (simp add: store_ok_def)
  then obtain m where p: "linked X key CHAIN_GENESIS pruned m" and r: "linked X key m rows last_hash"
    by (auto simp: linked_append)
  define start where "start = (if pruned = [] then (CHAIN_GENESIS, None)
      else (the (ar_record_hash (last pruned)), Some (ar_sequence (last pruned))))"
  have m: "fst start = m" using p linked_last[OF p] by (auto simp: start_def)
  have v: "verify_rows X key True (fst start) (snd start) 0 rows = Inr (last_hash, tail_of (snd start) rows, length rows)"
    using verify_rows_linked[OF r, of "snd start" 0] m by simp
  have t: "tail_sequence (pruned @ rows) = (case tail_of (snd start) rows of Some s \<Rightarrow> s | None \<Rightarrow> - 1)"
    by (simp add: tail_sequence_def tail_of_def start_def)
  have f: "metadata_fault tb (db_heads db) (db_head_triggers db) = None"
    "metadata_fault tb (db_boundaries db) (db_boundary_triggers db) = None" for tb
    using assms by (auto simp: store_ok_def metadata_fault_def boundary_ok_def split: if_splits)
  have c: "check_tail X key False db last_hash (tail_of (snd start) rows) (length rows)
      = \<lparr>cv_ok = True, cv_records_checked = length rows, cv_first_bad_sequence = None, cv_detail = None\<rparr>"
    using assms t by (simp add: store_ok_def check_tail_def head_authentic_def head_for_def)
  have e: "db_events db = Some rows" "db_record_hash_column db" "db_approver_column db" using assms by (simp_all add: store_ok_def)
  show ?thesis using v c unfolding verify_audit_connection_def f retention_boundary_ok[OF assms] start_def
    by (cases "pruned = []") (simp_all add: e)
qed

lemma require_store: "store_ok X key pruned rows last_hash db \<Longrightarrow> require_valid_chain X key False db = Inr ()"
  by (simp add: require_valid_chain_def verify_store)

subsection \<open>Inserting\<close>

lemma fold_max_rowid:
  assumes "sorted_wrt (<) (0 # map ar_rowid rows)"
  shows "fold max (map ar_rowid rows) (0::int) = (if rows = [] then 0 else ar_rowid (last rows))"
  using assms
proof (induction rows rule: rev_induct)
  case (snoc r rows)
  then have "0 < ar_rowid r" "rows \<noteq> [] \<Longrightarrow> ar_rowid (last rows) < ar_rowid r" by (auto simp: sorted_wrt_append)
  moreover have "fold max (map ar_rowid rows) 0 = (if rows = [] then 0 else ar_rowid (last rows))"
    using snoc by (simp add: sorted_wrt_append)
  ultimately show ?case by simp
qed simp

lemma sorted_wrt_append_above:
  assumes "sorted_wrt (<) (0 # xs)" "sorted_wrt (<) (t # ys)" "\<forall>x \<in> set (0 # xs). x \<le> (t :: int)"
  shows "sorted_wrt (<) (0 # xs @ ys)"
  using assms by (auto simp: sorted_wrt_append) (meson order_le_less_trans)

lemma rowids_above: "sorted_wrt (<) (t # map (\<lambda>i. t + 1 + int i) [0..<n])"
  by (auto simp: sorted_wrt_iff_nth_less nth_Cons split: nat.splits)

lemma next_rowid:
  assumes "store_ok X key pruned rows last_hash db"
  shows "max (fold max (map ar_rowid rows) 0)
      (case singleton_row (db_boundaries db) of Some b \<Rightarrow> rb_previous_rowid b | None \<Rightarrow> 0)
    = (if pruned @ rows = [] then 0 else ar_rowid (last (pruned @ rows)))"
proof -
  have s: "sorted_wrt (<) (0 # map ar_rowid pruned @ map ar_rowid rows)" and b: "boundary_ok X key pruned (db_boundaries db)"
    using assms by (simp_all add: store_ok_def)
  then have r: "fold max (map ar_rowid rows) 0 = (if rows = [] then 0 else ar_rowid (last rows))"
    by (intro fold_max_rowid) (simp add: sorted_wrt_append)
  have "rows \<noteq> [] \<Longrightarrow> ar_rowid (last rows) > 0" "pruned \<noteq> [] \<Longrightarrow> ar_rowid (last pruned) > 0"
    "pruned \<noteq> [] \<Longrightarrow> rows \<noteq> [] \<Longrightarrow> ar_rowid (last pruned) < ar_rowid (last rows)"
    using s by (simp_all add: sorted_wrt_append)
  then show ?thesis unfolding r boundary_row[OF b] by (auto simp: boundary_for_def)
qed

lemma insert_store:
  assumes "store_ok X key pruned rows last_hash db" "insert_batch X key storage_ok evs (db, last_hash) = Inr (db', h')"
  shows "\<exists>added. store_ok X key pruned (rows @ added) h' db' \<and> list_all2 (recorded X) evs added
    \<and> map ar_sequence added = map (uint \<circ> ae_sequence_number) evs"
proof -
  let ?top = "if pruned @ rows = [] then 0 else ar_rowid (last (pruned @ rows))"
  have ev: "db_events db = Some rows" using assms(1) by (simp add: store_ok_def)
  obtain rows' ls where i: "insert_events X key rows last_hash ?top None evs = Inr (rows', h', ls)"
    and db': "db' = (case ls of Some seq \<Rightarrow> set_chain_head X key h' seq (db\<lparr>db_events := Some rows'\<rparr>)
                              | None \<Rightarrow> db\<lparr>db_events := Some rows'\<rparr>)"
    using assms(2) unfolding insert_batch_def
    by (auto simp: ev next_rowid[OF assms(1)] Let_def split: sum.splits if_splits)
  from insert_events_Inr[OF i] obtain added where a: "rows' = rows @ added" "linked X key last_hash added h'"
    "list_all2 (recorded X) evs added" "map ar_rowid added = map (\<lambda>i. ?top + 1 + int i) [0..<length evs]"
    "map ar_sequence added = map (uint \<circ> ae_sequence_number) evs" "ls = tail_of None added" by blast
  have s: "sorted_wrt (<) (0 # map ar_rowid (pruned @ rows))" using assms(1) by (simp add: store_ok_def)
  have "\<forall>x \<in> set (0 # map ar_rowid (pruned @ rows)). x \<le> ?top"
    using s by (cases "pruned @ rows" rule: rev_cases) (auto simp: sorted_wrt_append)
  then have rid: "sorted_wrt (<) (0 # map ar_rowid (pruned @ rows @ added))"
    using sorted_wrt_append_above[OF s rowids_above[of ?top "length evs"]] a(4) by simp
  have lk: "linked X key CHAIN_GENESIS (pruned @ rows @ added) h'"
    using assms(1) a(2) by (auto simp: store_ok_def linked_append)
  have "store_ok X key pruned (rows @ added) h' db'"
  proof (cases "added = []")
    case True
    then have "h' = last_hash" using a(2) by simp
    then show ?thesis using assms(1) True db' a(1,6) by (simp add: store_ok_def tail_of_def)
  next
    case False
    then show ?thesis using assms(1) db' a(1,6) lk rid
      by (simp add: store_ok_def set_chain_head_def tail_of_def tail_sequence_def head_for_def)
  qed
  with a(3,5) show ?thesis by blast
qed

subsection \<open>Pruning\<close>

lemma fold_max_eq: "fold max xs (a :: int) = Max (insert a (set xs))"
  using Max.set_eq_fold[of a xs] by simp

lemma high_watermark_eq:
  assumes "boundary_ok X key pruned brs" "gone \<noteq> []" "\<forall>r \<in> set gone. ar_sequence r \<ge> 0"
  shows "fold max (map ar_sequence gone) (case singleton_row brs of Some b \<Rightarrow> rb_high_watermark b | None \<Rightarrow> - 1)
    = Max (ar_sequence ` set (pruned @ gone))"
proof (cases "pruned = []")
  case True
  have "- 1 \<le> Max (ar_sequence ` set gone)"
    using assms(2,3) by (cases gone) (auto simp: Max_ge_iff intro!: exI[of _ "hd gone"])
  then show ?thesis using True assms(1,2)
    by (simp add: boundary_row fold_max_eq)
next
  case False
  then show ?thesis using assms(1,2)
    by (simp add: boundary_row fold_max_eq boundary_for_def Max_Un image_Un)
qed

lemma filter_above_prefix:
  assumes "sorted_wrt (<) (map ar_rowid (gone @ kept))" "gone \<noteq> []"
  shows "filter (\<lambda>r. ar_rowid r > ar_rowid (last gone)) (gone @ kept) = kept"
proof -
  have "\<forall>r \<in> set gone. \<not> ar_rowid r > ar_rowid (last gone)"
    using assms by (cases gone rule: rev_cases) (auto simp: sorted_wrt_append)
  moreover have "\<forall>r \<in> set kept. ar_rowid r > ar_rowid (last gone)" using assms by (simp add: sorted_wrt_append)
  ultimately show ?thesis by simp
qed

lemma prune_store:
  assumes "store_ok X key pruned rows last_hash db"
  shows "\<exists>db' gone kept. prune_verified_prefix X key days now db = Inr (length gone, db') \<and> rows = gone @ kept
    \<and> store_ok X key (pruned @ gone) kept last_hash db'
    \<and> list_all (\<lambda>r. ar_ts r < retention_cutoff_ms days now) gone \<and> (days = 0 \<longrightarrow> gone = [])"
proof -
  let ?p = "\<lambda>r. ar_ts r < retention_cutoff_ms days now"
  define gone kept where "gone = takeWhile ?p rows" and "kept = dropWhile ?p rows"
  have rows: "rows = gone @ kept" by (simp add: gone_def kept_def)
  have old: "list_all ?p gone" unfolding gone_def list_all_iff using set_takeWhileD by fastforce
  note s = assms[unfolded store_ok_def]
  show ?thesis
  proof (cases "days = 0 \<or> gone = []")
    case True
    then have "prune_verified_prefix X key days now db = Inr (length ([] :: audit_row list), db)"
      using s by (auto simp: prune_verified_prefix_def Let_def gone_def)
    with assms show ?thesis by (intro exI[of _ db] exI[of _ "[]"] exI[of _ rows]) simp
  next
    case False
    have l: "linked X key CHAIN_GENESIS ((pruned @ gone) @ kept) last_hash" using s rows by simp
    have seq: "\<forall>r \<in> set gone. ar_sequence r \<ge> 0" and rh: "\<forall>r \<in> set gone. ar_record_hash r \<noteq> None"
      using linked_hashes[OF l] by simp_all
    have f: "filter (\<lambda>r. ar_rowid r > ar_rowid (last gone)) rows = kept"
      unfolding rows by (rule filter_above_prefix) (use s rows False in \<open>simp_all add: sorted_wrt_append\<close>)
    let ?b = "boundary_for X key (last (pruned @ gone)) (Max (ar_sequence ` set (pruned @ gone)))"
    have len: "length rows - length kept = length gone" and ev: "db_events db = Some rows"
      and nn: "\<not> list_ex (\<lambda>r. ar_record_hash r = None) gone" using rows s rh by (simp_all add: list_ex_iff)
    note hw = high_watermark_eq[OF _ conjunct2[OF False[unfolded de_Morgan_disj]] seq, of X key pruned "db_boundaries db"]
    have "prune_verified_prefix X key days now db
        = Inr (length gone, db\<lparr>db_boundaries := upsert ?b (db_boundaries db), db_events := Some kept\<rparr>)"
      using False s nn unfolding prune_verified_prefix_def Let_def ev option.case gone_def[symmetric] f
      by (simp add: hw boundary_for_def len)
    moreover have "upsert ?b (db_boundaries db) = Some [(0, ?b)]"
      using s by (auto simp: boundary_ok_def split: if_splits)
    then have "store_ok X key (pruned @ gone) kept last_hash
        (db\<lparr>db_boundaries := upsert ?b (db_boundaries db), db_events := Some kept\<rparr>)"
      using s rows False by (simp add: store_ok_def boundary_ok_def)
    ultimately show ?thesis using rows old False by blast
  qed
qed

subsection \<open>Opening\<close>

lemma open_fresh:
  "\<exists>db. open_audit X key_file fresh_key days now empty_db
     = (Inr (db, case key_file of Some k \<Rightarrow> k | None \<Rightarrow> fresh_key, 0, CHAIN_GENESIS),
        Some (case key_file of Some k \<Rightarrow> k | None \<Rightarrow> fresh_key))
     \<and> store_ok X (case key_file of Some k \<Rightarrow> k | None \<Rightarrow> fresh_key) [] [] CHAIN_GENESIS db"
proof -
  define key where "key = (case key_file of Some k \<Rightarrow> k | None \<Rightarrow> fresh_key)"
  define db where "db = set_chain_head X key CHAIN_GENESIS (- 1) (apply_schema empty_db)"
  have s: "store_ok X key [] [] CHAIN_GENESIS db"
    by (simp add: db_def store_ok_def set_chain_head_def apply_schema_def empty_db_def head_for_def tail_sequence_def boundary_ok_def)
  have p: "prune_verified_prefix X key days now db = Inr (0, db)"
    using s by (simp add: prune_verified_prefix_def store_ok_def)
  have n: "next_sequence_of db = Inr 0"
    using s by (simp add: next_sequence_of_def store_ok_def boundary_ok_def opt_list_def head_for_def tail_sequence_def I64_MAX_def)
  have h: "singleton_row (db_heads db) = Some (head_for X key CHAIN_GENESIS (- 1))"
    using s by (simp add: store_ok_def tail_sequence_def)
  have e: "db_events empty_db = None" "db_heads empty_db = None" by (simp_all add: empty_db_def)
  have "open_audit X key_file fresh_key days now empty_db = (Inr (db, key, 0, CHAIN_GENESIS), Some key)"
    unfolding open_audit_def e Let_def key_def[symmetric] db_def[symmetric]
    by (simp add: db_def[symmetric] require_store[OF s] p n h head_for_def)
  with s show ?thesis unfolding key_def by blast
qed

definition top_sequence :: "audit_row list \<Rightarrow> int" where
  "top_sequence log = Max (insert (- 1) (ar_sequence ` set log))"

lemma top_sequence_ge: "r \<in> set log \<Longrightarrow> ar_sequence r \<le> top_sequence log" "- 1 \<le> top_sequence log"
  by (auto simp: top_sequence_def)

lemma tail_le_top: "tail_sequence log \<le> top_sequence log"
  unfolding tail_sequence_def using top_sequence_ge(1)[of "last log" log] top_sequence_ge(2)[of log] by auto

lemma next_sequence_store:
  assumes "store_ok X key pruned rows last_hash db"
  shows "next_sequence_of db = (if top_sequence (pruned @ rows) < I64_MAX then Inr (of_int (top_sequence (pruned @ rows) + 1))
    else Inl (AuditSqlite ''integral value out of range''))"
proof -
  let ?log = "pruned @ rows" let ?M = "top_sequence ?log"
  let ?c = "map ar_sequence rows @ [tail_sequence ?log] @ (if pruned = [] then [] else [Max (ar_sequence ` set pruned)])"
  note s = assms[unfolded store_ok_def]
  have b: "singleton_row (db_boundaries db) = (if pruned = [] then None
      else Some (boundary_for X key (last pruned) (Max (ar_sequence ` set pruned))))"
    using s boundary_row by blast
  have seqs: "\<forall>r \<in> set ?log. ar_sequence r \<ge> 0" using s linked_hashes by blast
  have le: "\<forall>y \<in> set ?c. y \<le> ?M"
    using top_sequence_ge(1)[of _ ?log] tail_le_top[of ?log] by (auto split: if_splits intro!: Max.boundedI)
  have mem: "?M \<in> set ?c"
  proof (cases "?log = []")
    case True
    then show ?thesis by (simp add: top_sequence_def tail_sequence_def)
  next
    case False
    have "?M \<in> insert (- 1) (ar_sequence ` set ?log)" unfolding top_sequence_def by (intro Max_in) simp_all
    moreover have "?M \<ge> 0" using top_sequence_ge(1)[of "last ?log" ?log] seqs False by (meson last_in_set order_trans)
    ultimately obtain r where r: "r \<in> set pruned \<union> set rows" "?M = ar_sequence r" by auto
    show ?thesis
    proof (cases "r \<in> set rows")
      case False
      then have "r \<in> set pruned" using r by simp
      then have "Max (ar_sequence ` set pruned) = ?M"
        using r(2) top_sequence_ge(1)[of _ ?log] by (intro Max_eqI) auto
      then show ?thesis using \<open>r \<in> set pruned\<close> by auto
    qed (use r(2) in simp)
  qed
  have "(case ?c of [] \<Rightarrow> - 1 | c # cs \<Rightarrow> fold max cs c) = Max (set ?c)"
    by (cases ?c) (simp_all add: fold_max_eq del: append_eq_Cons_conv)
  also have "Max (set ?c) = ?M" using le mem by (intro Max_eqI) auto
  finally have mx: "(case ?c of [] \<Rightarrow> - 1 | c # cs \<Rightarrow> fold max cs c) = ?M" .
  have cand: "map ar_sequence (case db_events db of Some rs \<Rightarrow> rs | None \<Rightarrow> [])
      @ opt_list (map_option hd_last_sequence (singleton_row (db_heads db)))
      @ opt_list (map_option rb_high_watermark (singleton_row (db_boundaries db))) = ?c"
    using s b by (simp add: opt_list_def head_for_def boundary_for_def)
  show ?thesis
    unfolding next_sequence_of_def Let_def cand mx using top_sequence_ge(2)[of ?log] by auto
qed

lemma uint_next_sequence:
  assumes "top_sequence log < I64_MAX"
  shows "uint (of_int (top_sequence log + 1) :: u64) = top_sequence log + 1"
  using assms top_sequence_ge(2)[of log] unfolding uint_word_of_int by (simp add: I64_MAX_def)

lemma reopen_store:
  assumes "store_ok X key pruned rows last_hash db"
  shows "\<exists>db' gone kept. rows = gone @ kept \<and> store_ok X key (pruned @ gone) kept last_hash db'
    \<and> list_all (\<lambda>r. ar_ts r < retention_cutoff_ms days now) gone \<and> (days = 0 \<longrightarrow> gone = [])
    \<and> open_audit X (Some key) fresh_key days now db
      = ((if top_sequence (pruned @ rows) < I64_MAX
          then Inr (db', key, of_int (top_sequence (pruned @ rows) + 1), last_hash)
          else Inl (AuditSqlite ''integral value out of range'')), Some key)"
proof -
  note s = assms[unfolded store_ok_def]
  have sch: "apply_schema db = db"
    using s by (auto simp: apply_schema_def boundary_ok_def split: if_splits)
  obtain db' gone kept where p: "prune_verified_prefix X key days now db = Inr (length gone, db')" "rows = gone @ kept"
    "store_ok X key (pruned @ gone) kept last_hash db'"
    "list_all (\<lambda>r. ar_ts r < retention_cutoff_ms days now) gone" "days = 0 \<longrightarrow> gone = []"
    using prune_store[OF assms] by blast
  have n: "next_sequence_of db' = (if top_sequence (pruned @ rows) < I64_MAX then Inr (of_int (top_sequence (pruned @ rows) + 1))
    else Inl (AuditSqlite ''integral value out of range''))"
    using next_sequence_store[OF p(3)] p(2) by simp
  have "singleton_row (db_heads db') = Some (head_for X key last_hash (tail_sequence ((pruned @ gone) @ kept)))"
    using p(3) by (simp add: store_ok_def)
  then have "open_audit X (Some key) fresh_key days now db
      = ((if top_sequence (pruned @ rows) < I64_MAX
          then Inr (db', key, of_int (top_sequence (pruned @ rows) + 1), last_hash)
          else Inl (AuditSqlite ''integral value out of range'')), Some key)"
    using s unfolding open_audit_def by (simp add: sch require_store[OF assms] p(1) n head_for_def)
  with p show ?thesis by blast
qed

end
