(* ===== verification/Audit_Sink.thy ===== *)
theory Audit_Sink
  imports Audit_Store
begin

text \<open>
  The asynchronous audit sink of \<open>src/crates/opaque-core/src/audit.rs\<close>: the bounded queue, the writer thread, the
  drop monitor, flush and close, and the system of one sink and its database under crashes and restarts.

  Everything under the \<open>progress\<close> mutex is one step.  The writer thread takes events off the channel one by one
  and writes the batch later, so both are steps of their own.  The channel's capacity, the outcome of storage and the
  clock are inputs.  Counters of events are natural numbers; the sequence counter is the 64-bit word it is.
\<close>

subsection \<open>The sink\<close>

datatype flush_error = FE_Timeout | FE_Closed | FE_Backpressure | FE_Storage string

record audit_sink =
  sk_sender :: bool
  sk_capacity :: nat
  sk_queue :: "audit_event list"
  sk_next_sequence :: u64
  sk_accepted :: nat
  sk_settled :: nat
  sk_failure :: "flush_error option"
  sk_stopped :: bool
  sk_dropped :: nat
  sk_batch :: "audit_event list"
  sk_db :: audit_db
  sk_last_hash :: string
  sk_key :: string
  sk_retention_days :: nat

definition fail_once :: "flush_error \<Rightarrow> audit_sink \<Rightarrow> audit_sink" where
  "fail_once e sk = (case sk_failure sk of None \<Rightarrow> sk\<lparr>sk_failure := Some e\<rparr> | Some _ \<Rightarrow> sk)"

definition try_send :: "audit_sink \<Rightarrow> flush_error + unit" where
  "try_send sk =
     (if \<not> sk_sender sk \<or> sk_stopped sk then Inl FE_Closed
      else if length (sk_queue sk) \<ge> sk_capacity sk then Inl FE_Backpressure else Inr ())"

definition enqueue_event :: "audit_event \<Rightarrow> audit_sink \<Rightarrow> (flush_error + unit) \<times> audit_sink" where
  "enqueue_event ev sk =
     (case try_send sk of
        Inr _ \<Rightarrow> (Inr (), sk\<lparr>sk_queue := sk_queue sk @ [ev\<lparr>ae_sequence_number := sk_next_sequence sk\<rparr>],
                            sk_accepted := sk_accepted sk + 1, sk_next_sequence := sk_next_sequence sk + 1\<rparr>)
      | Inl e \<Rightarrow> (Inl e, fail_once e sk))"

definition sanitize_event :: "'z snext_scheme \<Rightarrow> audit_event \<Rightarrow> audit_event" where
  "sanitize_event X ev = ev\<lparr>ae_detail := map_option (\<lambda>d. redact_audit_text X d HumanLevel) (ae_detail ev)\<rparr>"

definition emit_event :: "'z snext_scheme \<Rightarrow> audit_event \<Rightarrow> audit_sink \<Rightarrow> audit_sink" where
  "emit_event X ev sk =
     (case enqueue_event (sanitize_event X ev) sk of
        (Inl e, sk') \<Rightarrow> if e = FE_Backpressure then sk'\<lparr>sk_dropped := sk_dropped sk' + 1\<rparr> else sk'
      | (Inr _, sk') \<Rightarrow> sk')"

definition dropped_event :: "nat \<Rightarrow> uuid \<Rightarrow> int \<Rightarrow> audit_event" where
  "dropped_event n event_id ts =
     audit_fields.extend ((audit_event_new AuditDropped)\<lparr>ae_level := LevelWarn,
         ae_detail := Some (decimal n @ '' audit events dropped due to channel backpressure'')\<rparr>)
       (audit_event.fields event_id 0 ts None)"

text \<open>The synthetic event skips \<open>emit\<close>, so its text is stored as it stands.\<close>

definition report_drops :: "uuid \<Rightarrow> int \<Rightarrow> audit_sink \<Rightarrow> audit_sink" where
  "report_drops event_id ts sk =
     (if sk_dropped sk = 0 then sk
      else (case enqueue_event (dropped_event (sk_dropped sk) event_id ts) (sk\<lparr>sk_dropped := 0\<rparr>) of
              (Inr _, sk') \<Rightarrow> sk'
            | (Inl _, sk') \<Rightarrow> sk'\<lparr>sk_dropped := sk_dropped sk' + sk_dropped sk\<rparr>))"

subsection \<open>The writer thread\<close>

definition writer_recv :: "audit_sink \<Rightarrow> audit_sink" where
  "writer_recv sk =
     (if length (sk_batch sk) < 256 \<and> sk_queue sk \<noteq> []
      then sk\<lparr>sk_batch := sk_batch sk @ [hd (sk_queue sk)], sk_queue := tl (sk_queue sk)\<rparr> else sk)"

definition writer_write :: "'z aext_scheme \<Rightarrow> bool \<Rightarrow> audit_sink \<Rightarrow> audit_sink" where
  "writer_write X storage_ok sk =
     (let sk1 = (case insert_batch X (sk_key sk) storage_ok (sk_batch sk) (sk_db sk, sk_last_hash sk) of
                   Inr (db, h) \<Rightarrow> sk\<lparr>sk_db := db, sk_last_hash := h\<rparr>
                 | Inl e \<Rightarrow> fail_once (FE_Storage e) sk)
      in sk1\<lparr>sk_settled := sk_settled sk + length (sk_batch sk), sk_batch := []\<rparr>)"

fun audit_error_to_string :: "audit_error \<Rightarrow> string" where
  "audit_error_to_string (AuditSqlite e) = ''sqlite error: '' @ e"
| "audit_error_to_string (AuditIo e) = ''io error: '' @ e"
| "audit_error_to_string (AuditOther e) = e"

definition retention_tick :: "'z aext_scheme \<Rightarrow> bool \<Rightarrow> nat \<Rightarrow> audit_sink \<Rightarrow> audit_sink" where
  "retention_tick X storage_ok now sk =
     (case run_retention_cleanup X (sk_key sk) (sk_retention_days sk) now (sk_db sk) of
        Inr (_, db) \<Rightarrow> if storage_ok then sk\<lparr>sk_db := db\<rparr> else fail_once (FE_Storage ''storage failure'') sk
      | Inl e \<Rightarrow> fail_once (FE_Storage (audit_error_to_string e)) sk)"

definition writer_stop :: "audit_sink \<Rightarrow> audit_sink" where
  "writer_stop sk =
     (if \<not> sk_sender sk \<and> sk_queue sk = [] \<and> sk_batch sk = [] then sk\<lparr>sk_stopped := True\<rparr> else sk)"

subsection \<open>Flush and close\<close>

text \<open>One turn of the loop of \<open>flush\<close> for the count \<open>target\<close> read when it was called; \<open>None\<close> is a further
  wait, \<open>expired\<close> that the time is up.\<close>

definition flush_poll :: "nat \<Rightarrow> bool \<Rightarrow> audit_sink \<Rightarrow> (flush_error + unit) option" where
  "flush_poll target expired sk =
     (if sk_settled sk \<ge> target then Some (case sk_failure sk of None \<Rightarrow> Inr () | Some e \<Rightarrow> Inl e)
      else if sk_stopped sk then Some (Inl (case sk_failure sk of Some e \<Rightarrow> e | None \<Rightarrow> FE_Closed))
      else if expired then Some (Inl FE_Timeout) else None)"

definition close_sender :: "audit_sink \<Rightarrow> audit_sink" where
  "close_sender sk = sk\<lparr>sk_sender := False\<rparr>"

definition new_sink :: "nat \<Rightarrow> nat \<Rightarrow> audit_db \<Rightarrow> string \<Rightarrow> u64 \<Rightarrow> string \<Rightarrow> audit_sink" where
  "new_sink capacity retention_days db key next_sequence last_hash =
     \<lparr>sk_sender = True, sk_capacity = capacity, sk_queue = [], sk_next_sequence = next_sequence, sk_accepted = 0,
      sk_settled = 0, sk_failure = None, sk_stopped = False, sk_dropped = 0, sk_batch = [], sk_db = db,
      sk_last_hash = last_hash, sk_key = key, sk_retention_days = retention_days\<rparr>"

subsection \<open>The system\<close>

text \<open>Besides the sink: the events accepted and the number refused since it was opened, every row ever committed, and
  every head and boundary the database ever held.\<close>

record audit_system =
  as_sink :: audit_sink
  as_accepted :: "audit_event list"
  as_refused :: nat
  as_log :: "audit_row list"
  as_heads :: "(string \<times> int) set"
  as_bounds :: "retention_row set"

definition db_rows :: "audit_db \<Rightarrow> audit_row list" where
  "db_rows db = (case db_events db of Some rs \<Rightarrow> rs | None \<Rightarrow> [])"

definition observe :: "audit_sink \<Rightarrow> audit_system \<Rightarrow> audit_system" where
  "observe sk S =
     S\<lparr>as_sink := sk,
       as_heads := as_heads S \<union> (\<lambda>h. (hd_last_hash h, hd_last_sequence h)) ` set_option (singleton_row (db_heads (sk_db sk))),
       as_bounds := as_bounds S \<union> set_option (singleton_row (db_boundaries (sk_db sk)))\<rparr>"

definition offer :: "audit_event \<Rightarrow> (flush_error + unit) \<Rightarrow> audit_system \<Rightarrow> audit_system" where
  "offer ev result S =
     (case result of Inr _ \<Rightarrow> S\<lparr>as_accepted := as_accepted S @ [ev]\<rparr> | Inl _ \<Rightarrow> S\<lparr>as_refused := as_refused S + 1\<rparr>)"

inductive audit_step :: "'z aext_scheme \<Rightarrow> audit_system \<Rightarrow> audit_system \<Rightarrow> bool" for X where
  emit: "sk_next_sequence (as_sink S) \<noteq> - 1 \<Longrightarrow>
    audit_step X S (observe (emit_event X ev (as_sink S))
      (offer ((sanitize_event X ev)\<lparr>ae_sequence_number := sk_next_sequence (as_sink S)\<rparr>) (try_send (as_sink S)) S))"
| report: "sk_next_sequence (as_sink S) \<noteq> - 1 \<Longrightarrow> sk_dropped (as_sink S) \<noteq> 0 \<Longrightarrow>
    audit_step X S (observe (report_drops event_id ts (as_sink S))
      (offer ((dropped_event (sk_dropped (as_sink S)) event_id ts)\<lparr>ae_sequence_number := sk_next_sequence (as_sink S)\<rparr>)
        (try_send (as_sink S)) S))"
| recv: "audit_step X S (observe (writer_recv (as_sink S)) S)"
| commit: "sk' = writer_write X storage_ok (as_sink S) \<Longrightarrow>
    audit_step X S (observe sk' (S\<lparr>as_log := as_log S @ drop (length (db_rows (sk_db (as_sink S)))) (db_rows (sk_db sk'))\<rparr>))"
| retention: "audit_step X S (observe (retention_tick X storage_ok now (as_sink S)) S)"
| close: "audit_step X S (observe (close_sender (as_sink S)) S)"
| stop: "audit_step X S (observe (writer_stop (as_sink S)) S)"
| restart: "fst (open_audit X (Some (sk_key (as_sink S))) fresh days now (sk_db (as_sink S))) = Inr (db, key, n, h) \<Longrightarrow>
    audit_step X S (observe (new_sink capacity days db key n h) (S\<lparr>as_accepted := [], as_refused := 0\<rparr>))"

inductive audit_reach :: "'z aext_scheme \<Rightarrow> audit_system \<Rightarrow> bool" for X where
  start: "fst (open_audit X key_file fresh days now empty_db) = Inr (db, key, n, h) \<Longrightarrow>
    audit_reach X (observe (new_sink capacity days db key n h)
      \<lparr>as_sink = new_sink capacity days db key n h, as_accepted = [], as_refused = 0, as_log = [], as_heads = {},
       as_bounds = {}\<rparr>)"
| step: "audit_reach X S \<Longrightarrow> audit_step X S S' \<Longrightarrow> audit_reach X S'"

end
