(* ===== verification/Audit_Properties.thy ===== *)
theory Audit_Properties
  imports Audit_Sink
begin

text \<open>
  The properties of the audit store: the chain is always intact, numbers are never reused, a successful flush means
  that everything is committed, and whatever verifies is a stretch of the genuine log.
\<close>

subsection \<open>The store\<close>

definition ghosts_ok ::
  "'z aext_scheme \<Rightarrow> string \<Rightarrow> audit_row list \<Rightarrow> (string \<times> int) set \<Rightarrow> retention_row set \<Rightarrow> bool" where
  "ghosts_ok X key log heads bounds \<longleftrightarrow>
     (\<forall>(h, s) \<in> heads. \<exists>pre post. log = pre @ post \<and> linked X key CHAIN_GENESIS pre h \<and> s = tail_sequence pre)
     \<and> (\<forall>b \<in> bounds. \<exists>pre post hw. log = pre @ post \<and> pre \<noteq> [] \<and> b = boundary_for X key (last pre) hw)"

definition store_inv :: "'z aext_scheme \<Rightarrow> audit_system \<Rightarrow> bool" where
  "store_inv X S \<longleftrightarrow>
     (\<exists>pruned rows. as_log S = pruned @ rows
        \<and> store_ok X (sk_key (as_sink S)) pruned rows (sk_last_hash (as_sink S)) (sk_db (as_sink S)))
     \<and> ghosts_ok X (sk_key (as_sink S)) (as_log S) (as_heads S) (as_bounds S)"

lemma ghosts_ok_append: "ghosts_ok X key log heads bounds \<Longrightarrow> ghosts_ok X key (log @ added) heads bounds"
  unfolding ghosts_ok_def by (fastforce simp: append_assoc)

lemma ghosts_ok_now:
  assumes "store_ok X key pruned rows h db" "ghosts_ok X key (pruned @ rows) heads bounds"
  shows "ghosts_ok X key (pruned @ rows)
     (heads \<union> (\<lambda>h. (hd_last_hash h, hd_last_sequence h)) ` set_option (singleton_row (db_heads db)))
     (bounds \<union> set_option (singleton_row (db_boundaries db)))"
proof -
  have h: "singleton_row (db_heads db) = Some (head_for X key h (tail_sequence (pruned @ rows)))"
    and l: "linked X key CHAIN_GENESIS (pruned @ rows) h" and b: "boundary_ok X key pruned (db_boundaries db)"
    using assms(1) by (simp_all add: store_ok_def)
  have "\<exists>pre post. pruned @ rows = pre @ post \<and> linked X key CHAIN_GENESIS pre h \<and> tail_sequence (pruned @ rows) = tail_sequence pre"
    using l by (intro exI[of _ "pruned @ rows"] exI[of _ "[]"]) simp
  moreover have "\<exists>pre post hw. pruned @ rows = pre @ post \<and> pre \<noteq> [] \<and> br = boundary_for X key (last pre) hw"
    if "singleton_row (db_boundaries db) = Some br" for br
    using that unfolding boundary_row[OF b]
    by (intro exI[of _ pruned] exI[of _ rows]) (auto split: if_splits)
  ultimately show ?thesis
    using assms(2) unfolding ghosts_ok_def h by (auto simp: head_for_def)
qed

lemma store_inv_observe:
  assumes "store_ok X (sk_key sk) pruned rows (sk_last_hash sk) (sk_db sk)" "as_log S = pruned @ rows"
    and "ghosts_ok X (sk_key sk) (as_log S) (as_heads S) (as_bounds S)"
  shows "store_inv X (observe sk S)"
  using assms ghosts_ok_now[OF assms(1), of "as_heads S" "as_bounds S"]
  by (auto simp: store_inv_def observe_def)

lemma store_inv_same:
  assumes "store_inv X S" "sk_key sk = sk_key (as_sink S)" "sk_last_hash sk = sk_last_hash (as_sink S)"
    and "sk_db sk = sk_db (as_sink S)" "as_log S' = as_log S" "as_heads S' = as_heads S" "as_bounds S' = as_bounds S"
  shows "store_inv X (observe sk S')"
proof -
  obtain pruned rows where "as_log S = pruned @ rows"
    "store_ok X (sk_key sk) pruned rows (sk_last_hash sk) (sk_db sk)"
    "ghosts_ok X (sk_key sk) (as_log S) (as_heads S) (as_bounds S)"
    using assms(1-4) by (auto simp: store_inv_def)
  then show ?thesis using assms(5-7) by (intro store_inv_observe[of _ _ pruned rows]) simp_all
qed

lemma fail_once_sels [simp]:
  "sk_key (fail_once e sk) = sk_key sk" "sk_last_hash (fail_once e sk) = sk_last_hash sk" "sk_db (fail_once e sk) = sk_db sk"
  "sk_batch (fail_once e sk) = sk_batch sk" "sk_queue (fail_once e sk) = sk_queue sk"
  "sk_next_sequence (fail_once e sk) = sk_next_sequence sk" "sk_accepted (fail_once e sk) = sk_accepted sk"
  "sk_settled (fail_once e sk) = sk_settled sk" "sk_failure (fail_once e sk) = Some (case sk_failure sk of None \<Rightarrow> e | Some e' \<Rightarrow> e')"
  "sk_dropped (fail_once e sk) = sk_dropped sk"
  by (simp_all add: fail_once_def split: option.splits)

lemma emit_event_cases:
  "emit_event X ev sk = (case try_send sk of
     Inr _ \<Rightarrow> sk\<lparr>sk_queue := sk_queue sk @ [(sanitize_event X ev)\<lparr>ae_sequence_number := sk_next_sequence sk\<rparr>],
                sk_accepted := sk_accepted sk + 1, sk_next_sequence := sk_next_sequence sk + 1\<rparr>
   | Inl e \<Rightarrow> if e = FE_Backpressure then (fail_once e sk)\<lparr>sk_dropped := sk_dropped sk + 1\<rparr> else fail_once e sk)"
  by (simp add: emit_event_def enqueue_event_def split: sum.splits)

lemma report_drops_cases:
  assumes "sk_dropped sk \<noteq> 0"
  shows "\<exists>sk1. sk1 = sk\<lparr>sk_dropped := 0\<rparr> \<and> report_drops i ts sk = (case try_send sk of
     Inr _ \<Rightarrow> sk1\<lparr>sk_queue := sk_queue sk @ [(dropped_event (sk_dropped sk) i ts)\<lparr>ae_sequence_number := sk_next_sequence sk\<rparr>],
                sk_accepted := sk_accepted sk + 1, sk_next_sequence := sk_next_sequence sk + 1\<rparr>
   | Inl e \<Rightarrow> (fail_once e sk1)\<lparr>sk_dropped := sk_dropped sk\<rparr>)"
  using assms by (simp add: report_drops_def enqueue_event_def try_send_def)

lemma retention_store:
  assumes "store_ok X key pruned rows h db"
  shows "\<exists>db' gone kept. run_retention_cleanup X key days now db = Inr (length gone, db') \<and> rows = gone @ kept
    \<and> store_ok X key (pruned @ gone) kept h db' \<and> list_all (\<lambda>r. ar_ts r < retention_cutoff_ms days now) gone
    \<and> (days = 0 \<longrightarrow> gone = [])"
proof (cases "days = 0")
  case True
  then show ?thesis using assms
    by (intro exI[of _ db] exI[of _ "[]"] exI[of _ rows]) (simp add: run_retention_cleanup_def)
next
  case False
  then show ?thesis using prune_store[OF assms, of days now]
    by (auto simp: run_retention_cleanup_def require_store[OF assms])
qed

lemma store_inv_start:
  assumes "fst (open_audit X key_file fresh days now empty_db) = Inr (db, key, n, h)"
  shows "store_ok X key [] [] h db \<and> n = 0"
  using assms open_fresh[of X key_file fresh days now] by auto

lemma store_inv_step:
  assumes "audit_step X S S'" "store_inv X S"
  shows "store_inv X S'"
proof -
  obtain pruned rows where log: "as_log S = pruned @ rows"
    and ok: "store_ok X (sk_key (as_sink S)) pruned rows (sk_last_hash (as_sink S)) (sk_db (as_sink S))"
    and gh: "ghosts_ok X (sk_key (as_sink S)) (as_log S) (as_heads S) (as_bounds S)"
    using assms(2) by (auto simp: store_inv_def)
  have rows: "db_rows (sk_db (as_sink S)) = rows" using ok by (simp add: db_rows_def store_ok_def)
  show ?thesis using assms(1)
  proof cases
    case (emit ev)
    show ?thesis unfolding emit(1)
      by (rule store_inv_same[OF assms(2)]) (auto simp: emit_event_cases offer_def split: sum.splits)
  next
    case (report i ts)
    show ?thesis unfolding report(1) using report_drops_cases[OF report(3), of i ts]
      by (intro store_inv_same[OF assms(2)]) (auto simp: offer_def split: sum.splits)
  next
    case recv
    show ?thesis unfolding recv by (rule store_inv_same[OF assms(2)]) (simp_all add: writer_recv_def)
  next
    case (commit sk' storage_ok)
    show ?thesis
    proof (cases "insert_batch X (sk_key (as_sink S)) storage_ok (sk_batch (as_sink S)) (sk_db (as_sink S), sk_last_hash (as_sink S))")
      case (Inl e)
      then show ?thesis unfolding commit(1)
        by (intro store_inv_same[OF assms(2)]) (simp_all add: commit(2) writer_write_def)
    next
      case (Inr res)
      obtain db h where res: "res = (db, h)" by (cases res)
      obtain added where a: "store_ok X (sk_key (as_sink S)) pruned (rows @ added) h db"
        using insert_store[OF ok Inr[unfolded res]] by blast
      have sk': "sk' = (as_sink S)\<lparr>sk_db := db, sk_last_hash := h,
          sk_settled := sk_settled (as_sink S) + length (sk_batch (as_sink S)), sk_batch := []\<rparr>"
        unfolding commit(2) writer_write_def Inr res by simp
      have "db_rows (sk_db sk') = rows @ added" using a by (simp add: sk' db_rows_def store_ok_def)
      then show ?thesis unfolding commit(1) rows using a ghosts_ok_append[OF gh, of added] log
        by (intro store_inv_observe[of _ _ pruned "rows @ added"]) (simp_all add: sk')
    qed
  next
    case (retention storage_ok now)
    obtain db' gone kept where r: "run_retention_cleanup X (sk_key (as_sink S)) (sk_retention_days (as_sink S)) now (sk_db (as_sink S))
        = Inr (length gone, db')" "rows = gone @ kept"
      "store_ok X (sk_key (as_sink S)) (pruned @ gone) kept (sk_last_hash (as_sink S)) db'"
      using retention_store[OF ok] by blast
    show ?thesis
    proof (cases storage_ok)
      case True
      then show ?thesis unfolding retention using gh log r
        by (intro store_inv_observe[of _ _ "pruned @ gone" kept]) (simp_all add: retention_tick_def)
    qed (unfold retention, rule store_inv_same[OF assms(2)], simp_all add: retention_tick_def r(1))
  next
    case close
    show ?thesis unfolding close by (rule store_inv_same[OF assms(2)]) (simp_all add: close_sender_def)
  next
    case stop
    show ?thesis unfolding stop by (rule store_inv_same[OF assms(2)]) (simp_all add: writer_stop_def)
  next
    case (restart fresh days now db key n h capacity)
    obtain db' gone kept where r: "rows = gone @ kept"
      "store_ok X (sk_key (as_sink S)) (pruned @ gone) kept (sk_last_hash (as_sink S)) db'"
      "open_audit X (Some (sk_key (as_sink S))) fresh days now (sk_db (as_sink S))
      = ((if top_sequence (pruned @ rows) < I64_MAX
          then Inr (db', sk_key (as_sink S), of_int (top_sequence (pruned @ rows) + 1), sk_last_hash (as_sink S))
          else Inl (AuditSqlite ''integral value out of range'')), Some (sk_key (as_sink S)))"
      using reopen_store[OF ok, of days now fresh] by blast
    then have "db = db'" "key = sk_key (as_sink S)" "h = sk_last_hash (as_sink S)"
      using restart(2) by (simp_all split: if_splits)
    then show ?thesis unfolding restart(1) using r(1,2) gh log
      by (intro store_inv_observe[of _ _ "pruned @ gone" kept]) (simp_all add: new_sink_def)
  qed
qed

lemma store_inv_reach: "audit_reach X S \<Longrightarrow> store_inv X S"
proof (induction rule: audit_reach.induct)
  case (start key_file fresh days now db key n h capacity)
  have "store_ok X key [] [] h db" using store_inv_start[OF start] by simp
  then show ?case by (intro store_inv_observe[of _ _ "[]" "[]"]) (simp_all add: new_sink_def ghosts_ok_def)
next
  case (step S S')
  then show ?case using store_inv_step by blast
qed

subsection \<open>The flow of events\<close>

definition pending_events :: "audit_sink \<Rightarrow> audit_event list" where
  "pending_events sk = sk_batch sk @ sk_queue sk"

definition flow_ok ::
  "'z aext_scheme \<Rightarrow> audit_sink \<Rightarrow> audit_event list \<Rightarrow> nat \<Rightarrow> audit_row list \<Rightarrow> bool" where
  "flow_ok X sk accepted refused log \<longleftrightarrow>
     (let pend = pending_events sk; l = map ar_sequence log @ map (uint \<circ> ae_sequence_number) pend
      in sorted_wrt (<) l \<and> (\<forall>x \<in> set l. x < uint (sk_next_sequence sk))
         \<and> sk_settled sk + length pend = length accepted \<and> sk_accepted sk = length accepted
         \<and> (sk_failure sk = None \<longrightarrow> refused = 0
              \<and> (\<exists>older newer done. log = older @ newer \<and> accepted = done @ pend \<and> list_all2 (recorded X) done newer)))"

lemma sorted_snoc:
  fixes l :: "int list"
  assumes "sorted_wrt (<) l" "\<forall>x \<in> set l. x < m"
  shows "sorted_wrt (<) (l @ [m]) \<and> (\<forall>x \<in> set (l @ [m]). x < m + 1)"
  using assms by (fastforce simp: sorted_wrt_append)

lemma flow_offer:
  assumes "flow_ok X sk accepted refused log" "sk_next_sequence sk \<noteq> - 1"
    and "sk_batch sk' = sk_batch sk" "sk_settled sk' = sk_settled sk"
    and "sk_queue sk' = sk_queue sk @ [ev]" "ae_sequence_number ev = sk_next_sequence sk"
    and "sk_next_sequence sk' = sk_next_sequence sk + 1" "sk_accepted sk' = sk_accepted sk + 1"
    and "sk_failure sk' = sk_failure sk"
  shows "flow_ok X sk' (accepted @ [ev]) refused log"
proof -
  have "1 + sk_next_sequence sk \<noteq> 0" using assms(2) by (metis add_eq_0_iff)
  then have "int (unat (1 + sk_next_sequence sk)) = int (Suc (unat (sk_next_sequence sk)))"
    by (rule arg_cong[OF unatSuc])
  then have n: "uint (sk_next_sequence sk + 1) = uint (sk_next_sequence sk) + 1"
    unfolding of_nat_Suc by (simp add: add.commute)
  let ?l = "map ar_sequence log @ map (uint \<circ> ae_sequence_number) (pending_events sk)"
  have p: "pending_events sk' = pending_events sk @ [ev]" using assms(3,5) by (simp add: pending_events_def)
  then have l: "map ar_sequence log @ map (uint \<circ> ae_sequence_number) (pending_events sk') = ?l @ [uint (sk_next_sequence sk)]"
    using assms(6) by simp
  have "sorted_wrt (<) (?l @ [uint (sk_next_sequence sk)])
      \<and> (\<forall>x \<in> set (?l @ [uint (sk_next_sequence sk)]). x < uint (sk_next_sequence sk'))"
    unfolding assms(7) n
    by (rule sorted_snoc) (use assms(1) in \<open>unfold flow_ok_def Let_def, blast+\<close>)
  then show ?thesis
    using assms(1,4,8,9) unfolding flow_ok_def Let_def l by (auto simp: p)
qed

lemma flow_refuse:
  assumes "flow_ok X sk accepted refused log" "sk_batch sk' = sk_batch sk" "sk_queue sk' = sk_queue sk"
    and "sk_next_sequence sk' = sk_next_sequence sk" "sk_settled sk' = sk_settled sk" "sk_accepted sk' = sk_accepted sk"
    and "sk_failure sk' \<noteq> None"
  shows "flow_ok X sk' accepted refused' log"
  using assms unfolding flow_ok_def Let_def by (auto simp: pending_events_def)

lemma flow_same:
  assumes "flow_ok X sk accepted refused log" "pending_events sk' = pending_events sk"
    and "sk_next_sequence sk' = sk_next_sequence sk" "sk_settled sk' = sk_settled sk" "sk_accepted sk' = sk_accepted sk"
    and "sk_failure sk' = sk_failure sk"
  shows "flow_ok X sk' accepted refused log"
  using assms unfolding flow_ok_def Let_def by simp

lemma flow_lost:
  assumes "flow_ok X sk accepted refused log" "sk_queue sk' = sk_queue sk" "sk_batch sk' = []"
    and "sk_next_sequence sk' = sk_next_sequence sk" "sk_settled sk' = sk_settled sk + length (sk_batch sk)"
    and "sk_accepted sk' = sk_accepted sk" "sk_failure sk' \<noteq> None"
  shows "flow_ok X sk' accepted refused log"
  using assms unfolding flow_ok_def Let_def by (auto simp: pending_events_def sorted_wrt_append)

lemma flow_commit:
  assumes "flow_ok X sk accepted refused log" "list_all2 (recorded X) (sk_batch sk) added"
    and "map ar_sequence added = map (uint \<circ> ae_sequence_number) (sk_batch sk)"
    and "sk_queue sk' = sk_queue sk" "sk_batch sk' = []" "sk_next_sequence sk' = sk_next_sequence sk"
    and "sk_settled sk' = sk_settled sk + length (sk_batch sk)" "sk_accepted sk' = sk_accepted sk"
    and "sk_failure sk' = sk_failure sk"
  shows "flow_ok X sk' accepted refused (log @ added)"
proof -
  have l: "map ar_sequence (log @ added) @ map (uint \<circ> ae_sequence_number) (pending_events sk')
      = map ar_sequence log @ map (uint \<circ> ae_sequence_number) (pending_events sk)"
    using assms(3-5) by (simp add: pending_events_def)
  have "\<exists>older newer done'. log @ added = older @ newer \<and> accepted = done' @ pending_events sk' \<and> list_all2 (recorded X) done' newer"
    if "log = older @ newer" "accepted = done @ pending_events sk" "list_all2 (recorded X) done newer" for older newer "done"
    using that assms(2,4,5)
    by (intro exI[of _ older] exI[of _ "newer @ added"] exI[of _ "done @ sk_batch sk"])
       (simp add: pending_events_def list_all2_appendI)
  then show ?thesis
    using assms(1,4-9) unfolding flow_ok_def Let_def l by (auto simp: pending_events_def)
qed

definition flow_inv :: "'z aext_scheme \<Rightarrow> audit_system \<Rightarrow> bool" where
  "flow_inv X S \<longleftrightarrow> flow_ok X (as_sink S) (as_accepted S) (as_refused S) (as_log S)"

lemma flow_inv_observe:
  "flow_inv X (observe sk S) \<longleftrightarrow> flow_ok X sk (as_accepted S) (as_refused S) (as_log S)"
  by (simp add: flow_inv_def observe_def)

lemma flow_restart:
  assumes "sorted_wrt (<) (map ar_sequence log)" "\<forall>r \<in> set log. ar_sequence r < uint n"
  shows "flow_ok X (new_sink capacity days db key n h) [] 0 log"
  using assms unfolding flow_ok_def Let_def
  by (auto simp: new_sink_def pending_events_def intro!: exI[of _ log] exI[of _ "[]"])

lemma flow_inv_step:
  assumes "audit_step X S S'" "store_inv X S" "flow_inv X S"
  shows "flow_inv X S'"
proof -
  note f = assms(3)[unfolded flow_inv_def]
  obtain pruned rows where log: "as_log S = pruned @ rows"
    and ok: "store_ok X (sk_key (as_sink S)) pruned rows (sk_last_hash (as_sink S)) (sk_db (as_sink S))"
    using assms(2) by (auto simp: store_inv_def)
  have rows: "db_rows (sk_db (as_sink S)) = rows" using ok by (simp add: db_rows_def store_ok_def)
  show ?thesis using assms(1)
  proof cases
    case (emit ev)
    show ?thesis
    proof (cases "try_send (as_sink S)")
      case (Inl e)
      then show ?thesis unfolding emit(1) flow_inv_observe
        by (simp add: offer_def, intro flow_refuse[OF f]) (simp_all add: emit_event_cases)
    next
      case (Inr u)
      then show ?thesis unfolding emit(1) flow_inv_observe
        by (simp add: offer_def, intro flow_offer[OF f emit(2)]) (simp_all add: emit_event_cases)
    qed
  next
    case (report i ts)
    show ?thesis
    proof (cases "try_send (as_sink S)")
      case (Inl e)
      then show ?thesis unfolding report(1) flow_inv_observe using report_drops_cases[OF report(3), of i ts]
        by (simp add: offer_def, intro flow_refuse[OF f]) simp_all
    next
      case (Inr u)
      then show ?thesis unfolding report(1) flow_inv_observe using report_drops_cases[OF report(3), of i ts]
        by (simp add: offer_def, intro flow_offer[OF f report(2)]) simp_all
    qed
  next
    case recv
    have "pending_events (writer_recv (as_sink S)) = pending_events (as_sink S)"
      by (cases "sk_queue (as_sink S)") (simp_all add: writer_recv_def pending_events_def)
    then show ?thesis unfolding recv flow_inv_observe by (intro flow_same[OF f]) (simp_all add: writer_recv_def)
  next
    case (commit sk' storage_ok)
    show ?thesis
    proof (cases "insert_batch X (sk_key (as_sink S)) storage_ok (sk_batch (as_sink S)) (sk_db (as_sink S), sk_last_hash (as_sink S))")
      case (Inl e)
      then have "sk' = (fail_once (FE_Storage e) (as_sink S))\<lparr>sk_settled := sk_settled (as_sink S) + length (sk_batch (as_sink S)), sk_batch := []\<rparr>"
        unfolding commit(2) writer_write_def by simp
      then show ?thesis unfolding commit(1) flow_inv_observe using f by (simp, intro flow_lost[OF f]) simp_all
    next
      case (Inr res)
      obtain db h where res: "res = (db, h)" by (cases res)
      obtain added where a: "store_ok X (sk_key (as_sink S)) pruned (rows @ added) h db"
        "list_all2 (recorded X) (sk_batch (as_sink S)) added"
        "map ar_sequence added = map (uint \<circ> ae_sequence_number) (sk_batch (as_sink S))"
        using insert_store[OF ok Inr[unfolded res]] by blast
      have sk': "sk' = (as_sink S)\<lparr>sk_db := db, sk_last_hash := h,
          sk_settled := sk_settled (as_sink S) + length (sk_batch (as_sink S)), sk_batch := []\<rparr>"
        unfolding commit(2) writer_write_def Inr res by simp
      have "drop (length rows) (db_rows (sk_db sk')) = added" using a(1) by (simp add: sk' db_rows_def store_ok_def)
      then show ?thesis unfolding commit(1) flow_inv_observe rows
        by (simp, intro flow_commit[OF f a(2,3)]) (simp_all add: sk')
    qed
  next
    case (retention storage_ok now)
    obtain db' n where "run_retention_cleanup X (sk_key (as_sink S)) (sk_retention_days (as_sink S)) now (sk_db (as_sink S)) = Inr (n, db')"
      using retention_store[OF ok, of "sk_retention_days (as_sink S)" now] by (elim exE conjE) rule
    then show ?thesis unfolding retention flow_inv_observe
      by (cases storage_ok; intro flow_same[OF f] flow_refuse[OF f]) (simp_all add: retention_tick_def pending_events_def)
  next
    case close
    show ?thesis unfolding close flow_inv_observe by (intro flow_same[OF f]) (simp_all add: close_sender_def pending_events_def)
  next
    case stop
    show ?thesis unfolding stop flow_inv_observe by (intro flow_same[OF f]) (simp_all add: writer_stop_def pending_events_def)
  next
    case (restart fresh days now db key n h capacity)
    obtain db' where "open_audit X (Some (sk_key (as_sink S))) fresh days now (sk_db (as_sink S))
      = ((if top_sequence (pruned @ rows) < I64_MAX
          then Inr (db', sk_key (as_sink S), of_int (top_sequence (pruned @ rows) + 1), sk_last_hash (as_sink S))
          else Inl (AuditSqlite ''integral value out of range'')), Some (sk_key (as_sink S)))"
      using reopen_store[OF ok, of days now fresh] by blast
    then have n: "n = of_int (top_sequence (as_log S) + 1)" "top_sequence (as_log S) < I64_MAX"
      using restart(2) unfolding log by (simp_all split: if_splits)
    have "ar_sequence r < uint n" if "r \<in> set (as_log S)" for r
      unfolding n(1) uint_next_sequence[OF n(2)] using top_sequence_ge(1)[OF that] by simp
    moreover have "sorted_wrt (<) (map ar_sequence (as_log S))"
      using f unfolding flow_ok_def Let_def by (simp add: sorted_wrt_append)
    ultimately show ?thesis unfolding restart(1) flow_inv_observe by (simp add: flow_restart)
  qed
qed

lemma flow_inv_reach: "audit_reach X S \<Longrightarrow> flow_inv X S"
proof (induction rule: audit_reach.induct)
  case (start key_file fresh days now db key n h capacity)
  then show ?case unfolding flow_inv_observe by (simp add: flow_restart)
next
  case (step S S')
  then show ?case using flow_inv_step store_inv_reach by blast
qed

subsection \<open>Messages under the key\<close>

fun row_messages :: "'z aext_scheme \<Rightarrow> string \<Rightarrow> bool \<Rightarrow> string \<Rightarrow> audit_row list \<Rightarrow> string list" where
  "row_messages X key ap prev [] = []"
| "row_messages X key ap prev (r # rs) =
     (prev @ RS @ canon_from_row ap r) # row_messages X key ap (chain_hash X key prev (canon_from_row ap r)) rs"

fun hash_after :: "'z aext_scheme \<Rightarrow> string \<Rightarrow> bool \<Rightarrow> string \<Rightarrow> audit_row list \<Rightarrow> string" where
  "hash_after X key ap prev [] = prev"
| "hash_after X key ap prev (r # rs) = hash_after X key ap (chain_hash X key prev (canon_from_row ap r)) rs"

definition head_message :: "string \<Rightarrow> int \<Rightarrow> string" where
  "head_message h s = HEAD_DOMAIN @ RS @ head_text h s"

definition boundary_message :: "retention_row \<Rightarrow> string" where
  "boundary_message b = BOUNDARY_DOMAIN @ RS
     @ boundary_text (rb_previous_hash b) (rb_previous_sequence b) (rb_high_watermark b) (rb_previous_rowid b)"

text \<open>What the store ever authenticated, and what a verification of \<open>db\<close> relies on.\<close>

definition signed_messages :: "'z aext_scheme \<Rightarrow> audit_system \<Rightarrow> string set" where
  "signed_messages X S =
     set (row_messages X (sk_key (as_sink S)) True CHAIN_GENESIS (as_log S))
     \<union> (\<lambda>(h, s). head_message h s) ` as_heads S \<union> boundary_message ` as_bounds S"

definition start_hash :: "audit_db \<Rightarrow> string" where
  "start_hash db = (case singleton_row (db_boundaries db) of Some b \<Rightarrow> rb_previous_hash b | None \<Rightarrow> CHAIN_GENESIS)"

definition checked_messages :: "'z aext_scheme \<Rightarrow> string \<Rightarrow> audit_db \<Rightarrow> string set" where
  "checked_messages X key db =
     set (row_messages X key (db_approver_column db) (start_hash db) (db_rows db))
     \<union> (\<lambda>h. head_message (hd_last_hash h) (hd_last_sequence h)) ` set_option (singleton_row (db_heads db))
     \<union> boundary_message ` set_option (singleton_row (db_boundaries db))"

lemma row_messages_snoc:
  "row_messages X key ap prev (rs @ [r])
     = row_messages X key ap prev rs @ [hash_after X key ap prev rs @ RS @ canon_from_row ap r]"
  by (induction rs arbitrary: prev) simp_all

lemma hash_after_snoc:
  "hash_after X key ap prev (rs @ [r]) = chain_hash X key (hash_after X key ap prev rs) (canon_from_row ap r)"
  by (induction rs arbitrary: prev) simp_all

lemma row_messages_append:
  "row_messages X key ap prev (xs @ ys) = row_messages X key ap prev xs @ row_messages X key ap (hash_after X key ap prev xs) ys"
  by (induction xs arbitrary: prev) simp_all

lemma row_messages_length [simp]: "length (row_messages X key ap prev rs) = length rs"
  by (induction rs arbitrary: prev) simp_all

lemma hash_after_append: "hash_after X key ap prev (xs @ ys) = hash_after X key ap (hash_after X key ap prev xs) ys"
  by (induction xs arbitrary: prev) simp_all

lemma linked_hash_after: "linked X key prev rs e \<Longrightarrow> hash_after X key True prev rs = e"
  by (induction rs arbitrary: prev) auto

lemma verify_rows_hash_after: "verify_rows X key ap prev t n rs = Inr (e, t', m) \<Longrightarrow> hash_after X key ap prev rs = e"
  by (induction rs arbitrary: prev t n) (auto simp: Let_def split: if_splits)

lemma hex_chars: "c \<in> set (hex_encode s) \<Longrightarrow> hex_val c \<noteq> None"
  by (auto simp: hex_encode_def hex_byte_def hex_val_digit less_mult_imp_div_less)

lemma hex_lacks: "hex_val c = None \<Longrightarrow> c \<notin> set (chain_hash X key p d)"
  using hex_chars unfolding chain_hash_def by blast

lemma hash_neq: "hex_val c = None \<Longrightarrow> c \<in> set t \<Longrightarrow> chain_hash X key p d \<noteq> t"
  using hex_lacks by blast

lemma RS_free:
  "CHR 0x1E \<notin> set (chain_hash X key p c)" "CHR 0x1E \<notin> set CHAIN_GENESIS"
  "CHR 0x1E \<notin> set HEAD_DOMAIN" "CHR 0x1E \<notin> set BOUNDARY_DOMAIN"
  by (simp_all add: hex_lacks hex_val_def is_ascii_digit_def CHAIN_GENESIS_def HEAD_DOMAIN_def BOUNDARY_DOMAIN_def)

lemma domains_apart:
  "chain_hash X key p c \<noteq> CHAIN_GENESIS" "chain_hash X key p c \<noteq> HEAD_DOMAIN" "chain_hash X key p c \<noteq> BOUNDARY_DOMAIN"
  "CHAIN_GENESIS \<noteq> HEAD_DOMAIN" "CHAIN_GENESIS \<noteq> BOUNDARY_DOMAIN" "HEAD_DOMAIN \<noteq> BOUNDARY_DOMAIN"
  by (rule hash_neq[of "CHR ''o''"]; simp add: hex_val_def is_ascii_digit_def CHAIN_GENESIS_def HEAD_DOMAIN_def BOUNDARY_DOMAIN_def)+
     (simp_all add: CHAIN_GENESIS_def HEAD_DOMAIN_def BOUNDARY_DOMAIN_def)

lemma cut_at:
  assumes "c \<notin> set a" "c \<notin> set b" "a @ [c] @ u = b @ [c] @ w"
  shows "a = b \<and> u = w"
  using assms by (auto simp: append_eq_append_conv2 append_eq_Cons_conv Cons_eq_append_conv)

lemma chain_hash_inj:
  assumes "chain_hash X key p c = chain_hash X key p' c'" "inj_on (hmac_sha256 X key) M" "p @ RS @ c \<in> M" "p' @ RS @ c' \<in> M"
  shows "p @ RS @ c = p' @ RS @ c'"
proof -
  have "hmac_sha256 X key (p @ RS @ c) = hmac_sha256 X key (p' @ RS @ c')"
    using assms(1) unfolding chain_hash_def by (metis hex_decode_encode option.inject)
  then show ?thesis using inj_onD[OF assms(2) _ assms(3,4)] by simp
qed

lemma hash_after_RS_free: "CHR 0x1E \<notin> set p \<Longrightarrow> CHR 0x1E \<notin> set (hash_after X key ap p rs)"
  by (cases rs rule: rev_cases) (simp_all add: hash_after_snoc RS_free)

lemma hash_after_genesis: "hash_after X key ap p rs = CHAIN_GENESIS \<Longrightarrow> rs = []"
  by (cases rs rule: rev_cases) (simp_all add: hash_after_snoc domains_apart)

text \<open>Reading a verified chain backwards from a hash of the genuine one.\<close>

lemma backwards:
  assumes "hash_after X key True CHAIN_GENESIS pre = hash_after X key ap p rs" "CHR 0x1E \<notin> set p"
    and "set (row_messages X key True CHAIN_GENESIS pre) \<subseteq> M" "set (row_messages X key ap p rs) \<subseteq> M"
    and "inj_on (hmac_sha256 X key) M" "p = CHAIN_GENESIS \<or> (\<exists>d c. p = chain_hash X key d c)"
  shows "\<exists>older mid. pre = older @ mid \<and> map (canon_from_row ap) rs = map (canon_from_row True) mid
    \<and> hash_after X key True CHAIN_GENESIS older = p"
  using assms(1,3,4)
proof (induction rs arbitrary: pre rule: rev_induct)
  case Nil
  then show ?case by (intro exI[of _ pre] exI[of _ "[]"]) simp
next
  case (snoc r rs)
  have h: "hash_after X key True CHAIN_GENESIS pre = chain_hash X key (hash_after X key ap p rs) (canon_from_row ap r)"
    using snoc.prems(1) by (simp add: hash_after_snoc)
  have "pre \<noteq> []"
  proof
    assume "pre = []"
    then show False using h by (simp add: domains_apart(1)[symmetric])
  qed
  then obtain pre' q where q: "pre = pre' @ [q]" by (cases pre rule: rev_cases) auto
  have "hash_after X key True CHAIN_GENESIS pre' @ RS @ canon_from_row True q = hash_after X key ap p rs @ RS @ canon_from_row ap r"
    by (rule chain_hash_inj[OF _ assms(5)])
       (use h snoc.prems(2,3) in \<open>simp_all add: q hash_after_snoc row_messages_snoc\<close>)
  then have e: "hash_after X key True CHAIN_GENESIS pre' = hash_after X key ap p rs \<and> canon_from_row True q = canon_from_row ap r"
    by (intro cut_at) (simp_all add: hash_after_RS_free RS_free assms(2))
  have "\<exists>older mid. pre' = older @ mid \<and> map (canon_from_row ap) rs = map (canon_from_row True) mid
    \<and> hash_after X key True CHAIN_GENESIS older = p"
    using snoc.prems(2,3) e by (intro snoc.IH) (simp_all add: q row_messages_snoc)
  then obtain older mid where "pre' = older @ mid" "map (canon_from_row ap) rs = map (canon_from_row True) mid"
    "hash_after X key True CHAIN_GENESIS older = p" by blast
  then show ?case using q e by (intro exI[of _ older] exI[of _ "mid @ [q]"]) simp
qed

lemma int_US_free: "CHR 0x1F \<notin> set (int_to_string i)"
proof -
  have "CHR 0x1F \<notin> set (decimal n)" for n
    using decimal_digits[of n] by (auto simp: list_all_iff is_ascii_digit_def)
  then show ?thesis by (simp add: int_to_string_def)
qed

lemma row_message_domain:
  assumes "m \<in> set (row_messages X key ap p rs)"
  shows "\<exists>pre r. m = hash_after X key ap p pre @ RS @ canon_from_row ap r"
  using assms
proof (induction rs arbitrary: p)
  case (Cons r rs)
  show ?case
  proof (cases "m = p @ RS @ canon_from_row ap r")
    case True
    then show ?thesis by (intro exI[of _ "[]"] exI[of _ r]) simp
  next
    case False
    then have "m \<in> set (row_messages X key ap (chain_hash X key p (canon_from_row ap r)) rs)" using Cons.prems by simp
    from Cons.IH[OF this] obtain pre q where "m = hash_after X key ap (chain_hash X key p (canon_from_row ap r)) pre @ RS @ canon_from_row ap q"
      by blast
    then show ?thesis by (intro exI[of _ "r # pre"] exI[of _ q]) simp
  qed
qed simp

lemma genuine_prev_domain:
  "hash_after X key ap CHAIN_GENESIS pre \<noteq> HEAD_DOMAIN" "hash_after X key ap CHAIN_GENESIS pre \<noteq> BOUNDARY_DOMAIN"
  by (cases pre rule: rev_cases; simp add: hash_after_snoc domains_apart)+

lemma not_row_message:
  assumes "D = HEAD_DOMAIN \<or> D = BOUNDARY_DOMAIN"
  shows "D @ RS @ t \<notin> set (row_messages X key ap CHAIN_GENESIS rs)"
proof
  assume "D @ RS @ t \<in> set (row_messages X key ap CHAIN_GENESIS rs)"
  then obtain pre r where "D @ RS @ t = hash_after X key ap CHAIN_GENESIS pre @ RS @ canon_from_row ap r"
    by (auto dest: row_message_domain)
  then have "D = hash_after X key ap CHAIN_GENESIS pre"
    using cut_at[of "CHR 0x1E" D "hash_after X key ap CHAIN_GENESIS pre"] assms by (auto simp: RS_free hash_after_RS_free)
  then show False using assms by (auto simp: genuine_prev_domain dest: sym)
qed

lemma head_message_signed:
  assumes "head_message h s \<in> signed_messages X S"
  shows "\<exists>s'. (h, s') \<in> as_heads S"
proof -
  have "head_message h s \<notin> boundary_message ` as_bounds S"
  proof
    assume "head_message h s \<in> boundary_message ` as_bounds S"
    then have "HEAD_DOMAIN = BOUNDARY_DOMAIN"
      unfolding head_message_def boundary_message_def using cut_at[of "CHR 0x1E" HEAD_DOMAIN BOUNDARY_DOMAIN] RS_free(3,4) by auto
    then show False using domains_apart(6) by simp
  qed
  then obtain h' s' where m: "(h', s') \<in> as_heads S" "head_message h s = head_message h' s'"
    using assms not_row_message[of HEAD_DOMAIN] unfolding signed_messages_def head_message_def by fastforce
  then have "head_text h s = head_text h' s'" by (simp add: head_message_def)
  then have "h = h'" unfolding head_text_def using cut_at[OF int_US_free int_US_free] by blast
  with m(1) show ?thesis by blast
qed

lemma boundary_message_signed:
  assumes "boundary_message b \<in> signed_messages X S"
  shows "\<exists>b' \<in> as_bounds S. rb_previous_hash b' = rb_previous_hash b"
proof -
  have "boundary_message b \<notin> (\<lambda>(h, s). head_message h s) ` as_heads S"
  proof
    assume "boundary_message b \<in> (\<lambda>(h, s). head_message h s) ` as_heads S"
    then have "BOUNDARY_DOMAIN = HEAD_DOMAIN"
      unfolding head_message_def boundary_message_def using cut_at[of "CHR 0x1E" BOUNDARY_DOMAIN HEAD_DOMAIN] RS_free(3,4) by auto
    then show False using domains_apart(6) by simp
  qed
  then obtain b' where m: "b' \<in> as_bounds S" "boundary_message b = boundary_message b'"
    using assms not_row_message[of BOUNDARY_DOMAIN] unfolding signed_messages_def boundary_message_def by fastforce
  then have t: "boundary_text (rb_previous_hash b) (rb_previous_sequence b) (rb_high_watermark b) (rb_previous_rowid b)
      = boundary_text (rb_previous_hash b') (rb_previous_sequence b') (rb_high_watermark b') (rb_previous_rowid b')"
    by (simp add: boundary_message_def)
  have "rb_previous_hash b = rb_previous_hash b'"
    using t unfolding boundary_text_def using cut_at[OF int_US_free int_US_free] by metis
  with m(1) show ?thesis by metis
qed

lemma verify_ok_chain:
  assumes "verify_audit_connection X key False db = Inr cv" "cv_ok cv"
  shows "\<exists>h. singleton_row (db_heads db) = Some h
    \<and> hash_after X key (db_approver_column db) (start_hash db) (db_rows db) = hd_last_hash h"
proof -
  obtain boundary rows where b: "retention_boundary X key db = Inr boundary" and r: "db_events db = Some rows"
    using assms unfolding verify_audit_connection_def
    by (auto simp: broken_def split: option.splits sum.splits audit_error.splits if_splits)
  define start where "start = (case boundary of Some (hash, seq) \<Rightarrow> (hash, Some seq) | None \<Rightarrow> (CHAIN_GENESIS, None))"
  have s: "fst start = start_hash db"
    using b by (auto simp: start_def retention_boundary_def start_hash_def split: option.splits if_splits)
  obtain e t n where v: "verify_rows X key (db_approver_column db) (fst start) (snd start) 0 rows = Inr (e, t, n)"
    and cv: "cv = check_tail X key False db e t n"
    using assms b r unfolding verify_audit_connection_def
    by (auto simp: broken_def start_def Let_def case_prod_beta split: option.splits sum.splits audit_error.splits if_splits prod.splits)
  have "hash_after X key (db_approver_column db) (start_hash db) (db_rows db) = e"
    using verify_rows_hash_after[OF v] r s by (simp add: db_rows_def)
  moreover obtain h where "singleton_row (db_heads db) = Some h" "hd_last_hash h = e"
    using assms(2) unfolding cv check_tail_def by (auto simp: broken_def Let_def split: option.splits if_splits)
  ultimately show ?thesis by simp
qed

subsection \<open>Theorems\<close>

text \<open>C17: Whatever happens - bursts of events, failing writes, retention, shutdown, crashes and restarts - the audit
  database verifies, its rows are the end of the log of everything ever committed, and it can be opened again unless
  the sequence numbers are used up.\<close>

theorem audit_chain_intact:
  assumes "audit_reach X S"
  shows "(\<exists>cv. verify_audit_connection X (sk_key (as_sink S)) False (sk_db (as_sink S)) = Inr cv \<and> cv_ok cv
          \<and> cv_records_checked cv = length (db_rows (sk_db (as_sink S))))
    \<and> (\<exists>pruned. as_log S = pruned @ db_rows (sk_db (as_sink S)))
    \<and> (list_all (\<lambda>r. ar_sequence r < I64_MAX) (as_log S) \<longrightarrow>
        (\<exists>db n h. fst (open_audit X (Some (sk_key (as_sink S))) fresh days now (sk_db (as_sink S)))
           = Inr (db, sk_key (as_sink S), n, h)))"
proof -
  obtain pruned rows where log: "as_log S = pruned @ rows"
    and ok: "store_ok X (sk_key (as_sink S)) pruned rows (sk_last_hash (as_sink S)) (sk_db (as_sink S))"
    using store_inv_reach[OF assms] by (auto simp: store_inv_def)
  have rows: "db_rows (sk_db (as_sink S)) = rows" using ok by (simp add: db_rows_def store_ok_def)
  have "\<exists>db n h. fst (open_audit X (Some (sk_key (as_sink S))) fresh days now (sk_db (as_sink S)))
           = Inr (db, sk_key (as_sink S), n, h)" if "list_all (\<lambda>r. ar_sequence r < I64_MAX) (as_log S)"
  proof -
    have "top_sequence (pruned @ rows) < I64_MAX"
      using that unfolding log top_sequence_def by (auto simp: list_all_iff I64_MAX_def)
    then show ?thesis using reopen_store[OF ok, of days now fresh] by (elim exE conjE) simp
  qed
  then show ?thesis using verify_store[OF ok] log rows by auto
qed

text \<open>C19: No sequence number and no rowid is ever used twice: along everything ever committed, across pruning of the
  whole table and restarts, both are strictly increasing.\<close>

theorem audit_numbers_never_reused:
  assumes "audit_reach X S"
  shows "sorted_wrt (<) (map ar_sequence (as_log S)) \<and> sorted_wrt (<) (map ar_rowid (as_log S))"
  using flow_inv_reach[OF assms] store_inv_reach[OF assms]
  by (auto simp: flow_inv_def flow_ok_def Let_def store_inv_def store_ok_def sorted_wrt_append)

text \<open>C18: A flush that reports success tells the truth: no event was refused since the sink was opened, and the events
  accepted before the flush was called are committed, in order, each in its own row.\<close>

theorem flush_ok_means_durable:
  assumes "audit_reach X S" "flush_poll target expired (as_sink S) = Some (Inr ())" "target \<le> sk_accepted (as_sink S)"
  shows "as_refused S = 0 \<and> (\<exists>older newer. as_log S = older @ newer
    \<and> list_all2 (recorded X) (take target (as_accepted S)) (take target newer))"
proof -
  have f: "flow_ok X (as_sink S) (as_accepted S) (as_refused S) (as_log S)"
    using flow_inv_reach[OF assms(1)] by (simp add: flow_inv_def)
  have s: "sk_settled (as_sink S) \<ge> target" and none: "sk_failure (as_sink S) = None"
    using assms(2) by (auto simp: flush_poll_def split: if_splits option.splits)
  obtain older newer sent where l: "as_log S = older @ newer" "as_accepted S = sent @ pending_events (as_sink S)"
    "list_all2 (recorded X) sent newer" and z: "as_refused S = 0"
    and n: "sk_settled (as_sink S) + length (pending_events (as_sink S)) = length (as_accepted S)"
    using f none unfolding flow_ok_def Let_def by blast
  then have "take target (as_accepted S) = take target sent" using s by simp
  moreover have "list_all2 (recorded X) (take target sent) (take target newer)" using l(3) by (rule list_all2_takeI)
  ultimately show ?thesis using l(1) z by metis
qed


subsection \<open>A concrete run\<close>

definition demo_aext :: aext where
  "demo_aext = \<lparr>uuid_parse_str = (\<lambda>_. None), uuid_to_string = (\<lambda>_. ''id''), sha256_bytes = id,
     regex_is_match = (\<lambda>_ _. False), glob_match = (=), verifying_key_ok = (\<lambda>_. True),
     ed25519_verify = (\<lambda>_ _ _. False), ed25519_verify_strict = (\<lambda>_ _ _. False),
     ed25519_sign = (\<lambda>_ _. []), b64url_encode = id, b64url_decode = Some,
     json_to_string = (\<lambda>_. ''null''), json_of_workload = (\<lambda>_. ''w''), schema_errors = (\<lambda>_. Some (\<lambda>_. [])),
     regex_replace_all = (\<lambda>_ s _. s), hmac_sha256 = (\<lambda>_ m. m), json_of_client = (\<lambda>_. Some ''c''),
     json_of_target = (\<lambda>_. Some ''t''), json_of_workspace = (\<lambda>_. Some ''w''), json_of_approver = (\<lambda>_. Some ''a'')\<rparr>"

lemma reach_observed: "audit_reach X S \<Longrightarrow> \<exists>sk S0. S = observe sk S0"
  by (erule audit_reach.cases, blast, erule audit_step.cases) blast+

lemma own_messages_signed:
  assumes "audit_reach X S"
  shows "checked_messages X (sk_key (as_sink S)) (sk_db (as_sink S)) \<subseteq> signed_messages X S"
proof -
  let ?k = "sk_key (as_sink S)" and ?db = "sk_db (as_sink S)"
  obtain pruned rows where log: "as_log S = pruned @ rows" and ok: "store_ok X ?k pruned rows (sk_last_hash (as_sink S)) ?db"
    using store_inv_reach[OF assms] by (auto simp: store_inv_def)
  obtain m where "linked X ?k CHAIN_GENESIS pruned m" using ok by (auto simp: store_ok_def linked_append)
  then have "start_hash ?db = hash_after X ?k True CHAIN_GENESIS pruned"
    using ok boundary_row[of X ?k pruned "db_boundaries ?db"] linked_last linked_hash_after
    by (fastforce simp: start_hash_def store_ok_def boundary_for_def)
  then have "set (row_messages X ?k (db_approver_column ?db) (start_hash ?db) (db_rows ?db)) \<subseteq> signed_messages X S"
    using ok log by (auto simp: signed_messages_def row_messages_append db_rows_def store_ok_def)
  moreover obtain sk S0 where S: "S = observe sk S0" using reach_observed[OF assms] by blast
  ultimately show ?thesis unfolding checked_messages_def
    by (auto simp: S observe_def signed_messages_def)
qed

lemma reach_observe:
  assumes "audit_reach X S" "audit_step X S (observe sk T)"
  shows "\<exists>S'. audit_reach X S' \<and> as_sink S' = sk \<and> as_log S' = as_log T"
  using audit_reach.step[OF assms] by (intro exI[of _ "observe sk T"]) (simp add: observe_def)

lemma demo_audit_run:
  "\<exists>S. audit_reach demo_aext S \<and> flush_poll 1 False (as_sink S) = Some (Inr ()) \<and> sk_accepted (as_sink S) = 1
     \<and> list_all (\<lambda>r. ar_sequence r < I64_MAX) (as_log S) \<and> length (as_log S) = 1"
proof -
  let ?X = demo_aext
  obtain db where o: "fst (open_audit ?X None ''k'' 0 0 empty_db) = Inr (db, ''k'', 0, CHAIN_GENESIS)"
    and ok: "store_ok ?X ''k'' [] [] CHAIN_GENESIS db" using open_fresh[of ?X None "''k''" 0 0] by auto
  define sk where "sk = new_sink 4 0 db ''k'' 0 CHAIN_GENESIS"
  have sk: "sk_sender sk" "\<not> sk_stopped sk" "sk_capacity sk = 4" "sk_queue sk = []" "sk_batch sk = []" "sk_accepted sk = 0"
    "sk_settled sk = 0" "sk_failure sk = None" "sk_next_sequence sk = 0" "sk_db sk = db" "sk_key sk = ''k''"
    "sk_last_hash sk = CHAIN_GENESIS" by (simp_all add: sk_def new_sink_def)
  define S0 where "S0 = observe sk \<lparr>as_sink = sk, as_accepted = [], as_refused = 0, as_log = [], as_heads = {}, as_bounds = {}\<rparr>"
  have r0: "audit_reach ?X S0" unfolding S0_def sk_def by (rule audit_reach.start[OF o])
  have s0: "as_sink S0 = sk" "as_log S0 = []" by (simp_all add: S0_def observe_def)
  have t: "try_send sk = Inr ()" by (simp add: try_send_def sk)
  define ev where "ev = (sanitize_event ?X (dropped_event 0 1 5))\<lparr>ae_sequence_number := 0\<rparr>"
  define sk1 where "sk1 = emit_event ?X (dropped_event 0 1 5) sk"
  have sk1: "sk_queue sk1 = [ev]" "sk_batch sk1 = []" "sk_accepted sk1 = 1" "sk_settled sk1 = 0" "sk_failure sk1 = None"
    "sk_db sk1 = db" "sk_key sk1 = ''k''" "sk_last_hash sk1 = CHAIN_GENESIS"
    unfolding sk1_def emit_event_cases t sum.case using sk by (simp_all add: ev_def)
  have st: "audit_step ?X S0 (observe sk1 (offer ev (Inr ()) S0))"
    using audit_step.emit[of S0 ?X "dropped_event 0 1 5"] s0 sk t by (simp add: sk1_def ev_def)
  obtain S1 where r1: "audit_reach ?X S1" "as_sink S1 = sk1" "as_log S1 = []"
    using reach_observe[OF r0 st] s0 by (auto simp: offer_def)
  define sk2 where "sk2 = writer_recv sk1"
  have sk2: "sk_queue sk2 = []" "sk_batch sk2 = [ev]" "sk_accepted sk2 = 1" "sk_settled sk2 = 0" "sk_failure sk2 = None"
    "sk_db sk2 = db" "sk_key sk2 = ''k''" "sk_last_hash sk2 = CHAIN_GENESIS"
    by (simp_all add: sk2_def writer_recv_def sk1)
  obtain S2 where r2: "audit_reach ?X S2" "as_sink S2 = sk2" "as_log S2 = []"
    using reach_observe[OF r1(1) audit_step.recv] r1(2,3) by (auto simp: sk2_def)
  have dbr: "db_rows db = []" using ok by (simp add: db_rows_def store_ok_def)
  obtain db' h where i: "insert_batch ?X ''k'' True [ev] (db, CHAIN_GENESIS) = Inr (db', h)"
    using ok unfolding insert_batch_def
    by (auto simp: Let_def store_ok_def boundary_ok_def I64_MAX_def ev_def)
  obtain added where a: "store_ok ?X ''k'' [] ([] @ added) h db'" "list_all2 (recorded ?X) [ev] added"
    "map ar_sequence added = map (uint \<circ> ae_sequence_number) [ev]" using insert_store[OF ok i] by blast
  have dbr': "db_rows db' = added" using a(1) by (simp add: db_rows_def store_ok_def)
  let ?sk3 = "writer_write ?X True sk2"
  have sk3: "?sk3 = sk2\<lparr>sk_db := db', sk_last_hash := h, sk_settled := 1, sk_batch := []\<rparr>"
    unfolding writer_write_def Let_def sk2 i by simp
  obtain S3 where r3: "audit_reach ?X S3" "as_sink S3 = ?sk3" "as_log S3 = added"
    using reach_observe[OF r2(1) audit_step.commit[OF refl, of ?X S2 True]] r2(2,3)
    by (auto simp: sk3 dbr dbr' sk2)
  have "list_all (\<lambda>r. ar_sequence r < I64_MAX) added \<and> length added = 1"
    using a(2,3) by (auto simp: list_all2_Cons1 I64_MAX_def ev_def)
  then show ?thesis using r3 by (intro exI[of _ S3]) (simp add: sk3 sk2 flush_poll_def)
qed

theorem audit_chain_intact_witness:
  "\<exists>S. audit_reach demo_aext S \<and> (\<exists>cv. verify_audit_connection demo_aext (sk_key (as_sink S)) False (sk_db (as_sink S)) = Inr cv
     \<and> cv_ok cv) \<and> (\<exists>db n h. fst (open_audit demo_aext (Some (sk_key (as_sink S))) [] 0 0 (sk_db (as_sink S)))
           = Inr (db, sk_key (as_sink S), n, h))"
  using demo_audit_run audit_chain_intact[of demo_aext _ "[]" 0 0] by blast

theorem audit_numbers_never_reused_witness:
  "\<exists>S. audit_reach demo_aext S \<and> as_log S \<noteq> [] \<and> sorted_wrt (<) (map ar_sequence (as_log S))"
proof -
  obtain S where S: "audit_reach demo_aext S" "length (as_log S) = 1" using demo_audit_run by blast
  then show ?thesis using audit_numbers_never_reused[OF S(1)] by (intro exI[of _ S]) auto
qed

theorem flush_ok_means_durable_witness:
  "\<exists>S. audit_reach demo_aext S \<and> as_refused S = 0 \<and> (\<exists>older newer. as_log S = older @ newer
     \<and> list_all2 (recorded demo_aext) (take 1 (as_accepted S)) (take 1 newer))"
proof -
  obtain S where S: "audit_reach demo_aext S" "flush_poll 1 False (as_sink S) = Some (Inr ())" "sk_accepted (as_sink S) = 1"
    using demo_audit_run by blast
  then show ?thesis using flush_ok_means_durable[OF S(1,2)] by auto
qed


subsection \<open>The canonical form\<close>

definition separator_free :: "audit_row \<Rightarrow> bool" where
  "separator_free r \<longleftrightarrow> list_all (\<lambda>f. CHR 0x1F \<notin> set f) (opt_bytes (ar_approver_json r) # chained_fields r)"

lemma canon_split:
  assumes "separator_free r"
  shows "split_on (CHR 0x1F) (canon_from_row True r)
    = chained_fields r @ (if opt_bytes (ar_approver_json r) = [] then [] else [opt_bytes (ar_approver_json r)])"
proof -
  let ?fs = "chained_fields r @ (if opt_bytes (ar_approver_json r) = [] then [] else [opt_bytes (ar_approver_json r)])"
  have snoc: "join_str US (xs @ [y]) = join_str US xs @ US @ y" if "xs \<noteq> []" for xs y
    using that by (induction US xs rule: join_str.induct) auto
  have ne: "chained_fields r \<noteq> []" by (simp add: chained_fields_def)
  have "canon_from_row True r = join_str US ?fs"
    using snoc[OF ne]
    by (auto simp: canon_from_row_def append_optional_chained_field_def canonical_record_def opt_bytes_def split: option.splits)
  moreover have "split_on (CHR 0x1F) (join_str US ?fs) = ?fs"
    by (rule split_join) (use assms ne in \<open>auto simp: separator_free_def list_all_iff\<close>)
  ultimately show ?thesis by simp
qed

text \<open>Two rows without unit separators in their fields have the same canonical form only if all chained fields and
  the approver agree (an absent text counting as the empty one), so a row's hash binds every field of it.\<close>

theorem canonical_form_unambiguous:
  assumes "separator_free r" "separator_free r'" "canon_from_row True r = canon_from_row True r'"
  shows "chained_fields r = chained_fields r' \<and> opt_bytes (ar_approver_json r) = opt_bytes (ar_approver_json r')"
proof -
  let ?a = "\<lambda>r. if opt_bytes (ar_approver_json r) = [] then [] else [opt_bytes (ar_approver_json r)]"
  have "chained_fields r @ ?a r = chained_fields r' @ ?a r'" using canon_split assms by metis
  moreover have "length (chained_fields r) = length (chained_fields r')" by (simp add: chained_fields_def)
  ultimately have "chained_fields r = chained_fields r'" "?a r = ?a r'" by simp_all
  then show ?thesis by (auto split: if_splits)
qed

definition demo_row :: audit_row where
  "demo_row = event_row demo_aext (dropped_event 0 1 5) 1 None"

theorem canonical_form_unambiguous_witness:
  "chained_fields demo_row = chained_fields (demo_row\<lparr>ar_operation := Some []\<rparr>)"
proof -
  have s: "separator_free demo_row" "separator_free (demo_row\<lparr>ar_operation := Some []\<rparr>)"
    using int_US_free[of 0] int_US_free[of 5] int_US_free[of 1]
    by (simp_all add: int_to_string_def separator_free_def demo_row_def event_row_def chained_fields_def opt_bytes_def opt_bind_def
        dropped_event_def audit_event_new_def audit_fields.extend_def audit_event.fields_def demo_aext_def)
  have "canon_from_row True demo_row = canon_from_row True (demo_row\<lparr>ar_operation := Some []\<rparr>)"
    by (simp add: canon_from_row_def canonical_record_def chained_fields_def opt_bytes_def demo_row_def event_row_def
        dropped_event_def audit_event_new_def audit_fields.extend_def audit_event.fields_def)
  from canonical_form_unambiguous[OF s this] show ?thesis by blast
qed

text \<open>A unit separator inside a field defeats this: text moves across the field boundary, and a request hash becomes an
  approver.\<close>

lemma canonical_form_collision:
  assumes "hash \<noteq> []"
  shows "canon_from_row True (r\<lparr>ar_detail := Some (a @ US @ b), ar_workspace_json := None, ar_request_hash := Some hash,
      ar_approver_json := None\<rparr>)
    = canon_from_row True (r\<lparr>ar_detail := Some a, ar_workspace_json := Some b, ar_request_hash := None,
      ar_approver_json := Some hash\<rparr>)"
  using assms by (simp add: canon_from_row_def append_optional_chained_field_def canonical_record_def chained_fields_def opt_bytes_def)

text \<open>The stored name of every audit event kind reads back as that kind, and nothing else is accepted.\<close>

theorem audit_kind_roundtrip: "kind_from_str s = Inr k \<longleftrightarrow> s = kind_to_string k"
proof
  assume "kind_from_str s = Inr k"
  then have "map_of kind_table s = Some k" by (auto simp: kind_from_str_def ok_or_def split: option.splits)
  then have "(s, k) \<in> set kind_table" by (rule map_of_SomeD)
  then show "s = kind_to_string k" by (auto simp: kind_table_def)
next
  assume "s = kind_to_string k"
  then show "kind_from_str s = Inr k" by (cases k) (simp_all add: kind_from_str_def kind_table_def ok_or_def)
qed

end
