(* ===== verification/Scope.thy ===== *)
theory Scope
  imports External
begin

text \<open>
  Finite authority contracts, \<open>src/crates/opaque-core/src/scope.rs\<close>: scope grants and their
  canonical form and digest, the narrowing check between a child and its parent, prepared actions,
  review bindings and the admission evidence that is checked when an action is charged and again when
  it is dispatched.  The JSON encoder that \<open>serde\<close> derives for grants, actions and bindings is a
  parameter (\<open>None\<close> is its error).  The lemmas show that canonicalization is idempotent, that the
  narrowing check is a preorder on what a grant allows, and what an admitted action satisfies.
\<close>

definition SCOPE_VERSION :: u16 where "SCOPE_VERSION = 1"
definition MAX_RESOURCES :: nat where "MAX_RESOURCES = 4096"
definition MAX_DEPTH :: nat where "MAX_DEPTH = 8"
definition MAX_FIELDS :: nat where "MAX_FIELDS = 32"
definition MAX_VALUES :: nat where "MAX_VALUES = 64"
definition MAX_CHECKS :: nat where "MAX_CHECKS = 32"
definition MAX_BYTES :: nat where "MAX_BYTES = 512 * 1024"

datatype scope_error = SE_Version | SE_Invalid | SE_NotSubset | SE_OutOfScope | SE_Evidence

record authority_owner =
  ao_tenant_id :: string
  ao_broker_id :: string
  ao_generation :: string

record field_constraint =
  fc_field :: string
  fc_allowed_values :: "string list"

record field_value =
  fv_field :: string
  fv_value :: string

datatype minimum_approval = MA_ScopeIssuance | MA_ExactAction

record evaluator_requirement =
  er_check_id :: string
  er_contract_digest :: string

record scope_requirements =
  rq_policy_digest :: string
  rq_minimum_approval :: minimum_approval
  rq_evaluator_checks :: "evaluator_requirement list"

record scope_grant =
  sg_schema_version :: u16
  sg_scope_id :: string
  sg_root_id :: string
  sg_parent_id :: "string option"
  sg_owner :: authority_owner
  sg_issuer :: string
  sg_subject :: string
  sg_operation :: string
  sg_provider_profile_digest :: string
  sg_resources :: "string list"
  sg_fields :: "field_constraint list"
  sg_not_before :: i64
  sg_expires_at :: i64
  sg_delegations_remaining :: u8
  sg_max_charged_attempts :: u64
  sg_max_distinct_resources :: u32
  sg_requirements :: scope_requirements
  sg_issuance_receipt_digest :: string

record prepared_action =
  pc_schema_version :: u16
  pc_action_id :: string
  pc_request_id :: string
  pc_scope_id :: string
  pc_scope_digest :: string
  pc_owner :: authority_owner
  pc_subject :: string
  pc_operation :: string
  pc_provider_profile_digest :: string
  pc_resource :: string
  pc_resource_version :: string
  pc_fields :: "field_value list"
  pc_evidence_digest :: string

record review_binding =
  rb_schema_version :: u16
  rb_case_id :: string
  rb_case_revision :: u64
  rb_action_id :: string
  rb_action_digest :: string
  rb_scope_digest :: string
  rb_evidence_digest :: string
  rb_policy_digest :: string
  rb_round_id :: string
  rb_decision_receipt_digest :: string
  rb_expires_at :: i64

record evaluator_receipt =
  ec_check_id :: string
  ec_contract_digest :: string
  ec_receipt_digest :: string
  ec_action_digest :: string
  ec_evidence_digest :: string

record admission_evidence =
  ae_schema_version :: u16
  ae_policy_digest :: string
  ae_scope_digest :: string
  ae_action_digest :: string
  ae_authority_revision :: u64
  ae_evaluated_at :: i64
  ae_expires_at :: i64
  ae_review :: "review_binding option"
  ae_evaluators :: "evaluator_receipt list"

text \<open>\<open>serde_json::to_vec\<close> on the three hashed contracts.\<close>

record scext = ext +
  grant_to_vec :: "scope_grant \<Rightarrow> string option"
  action_to_vec :: "prepared_action \<Rightarrow> string option"
  binding_to_vec :: "review_binding \<Rightarrow> string option"

subsection \<open>Checks shared by the contracts\<close>

definition scope_version :: "u16 \<Rightarrow> scope_error + unit" where
  "scope_version v = reject_if (v \<noteq> SCOPE_VERSION) SE_Version"

definition scope_ident :: "string \<Rightarrow> scope_error + unit" where
  "scope_ident v =
     reject_if (v = [] \<or> length v > 256
         \<or> \<not> list_all (\<lambda>b. is_ascii_alphanumeric b \<or> b \<in> set ''_.:-/'') v) SE_Invalid"

definition bounded_value :: "string \<Rightarrow> scope_error + unit" where
  "bounded_value v = reject_if (length v > 1024 \<or> list_ex is_control (utf8_chars v)) SE_Invalid"

definition scope_digest_ok :: "string \<Rightarrow> scope_error + unit" where
  "scope_digest_ok v = reject_if (length v \<noteq> 64 \<or> \<not> list_all is_lower_hex v) SE_Invalid"

fun insert_all :: "string list \<Rightarrow> string list \<Rightarrow> bool" where
  "insert_all seen [] = True"
| "insert_all seen (v # vs) = (v \<notin> set seen \<and> insert_all (v # seen) vs)"

definition unique_values :: "string list \<Rightarrow> scope_error + unit" where
  "unique_values vs = reject_if (\<not> insert_all [] vs) SE_Invalid"

definition scope_encoded :: "string option \<Rightarrow> scope_error + string" where
  "scope_encoded json =
     and_then (ok_or json SE_Invalid) (\<lambda>bytes. if length bytes > MAX_BYTES then Inl SE_Invalid else Inr bytes)"

definition scope_hash :: "'z ext_scheme \<Rightarrow> string \<Rightarrow> string option \<Rightarrow> scope_error + string" where
  "scope_hash X domain json =
     and_then (scope_encoded json) (\<lambda>bytes. Inr (sha256 X (domain @ CHR 0x00 # bytes)))"

definition owner_validate :: "authority_owner \<Rightarrow> scope_error + unit" where
  "owner_validate own =
     and_then (scope_ident (ao_tenant_id own)) (\<lambda>_.
     and_then (scope_ident (ao_broker_id own)) (\<lambda>_.
     scope_ident (ao_generation own)))"

text \<open>\<open>slice::binary_search_by\<close> of the standard library, on the keys of a slice.\<close>

fun bsearch_base :: "('a::linorder) list \<Rightarrow> 'a \<Rightarrow> nat \<Rightarrow> nat \<Rightarrow> nat" where
  "bsearch_base ks k base len =
     (if len \<le> 1 then base
      else bsearch_base ks k (if ks ! (base + len div 2) > k then base else base + len div 2)
             (len - len div 2))"

declare bsearch_base.simps [simp del]

definition binary_search :: "('a::linorder) list \<Rightarrow> 'a \<Rightarrow> nat option" where
  "binary_search ks k =
     (if ks = [] then None
      else let base = bsearch_base ks k 0 (length ks) in if ks ! base = k then Some base else None)"

subsection \<open>Scope grants\<close>

definition grant_ids_ok :: "scope_grant \<Rightarrow> scope_error + unit" where
  "grant_ids_ok g =
     and_then (try_each scope_ident [sg_scope_id g, sg_root_id g, sg_issuer g, sg_subject g, sg_operation g]) (\<lambda>_.
       case sg_parent_id g of
         Some parent \<Rightarrow>
           and_then (scope_ident parent) (\<lambda>_.
             reject_if (parent = sg_scope_id g \<or> sg_root_id g = sg_scope_id g) SE_Invalid)
       | None \<Rightarrow> reject_if (sg_root_id g \<noteq> sg_scope_id g) SE_Invalid)"

definition grant_limits_ok :: "scope_grant \<Rightarrow> scope_error + unit" where
  "grant_limits_ok g =
     reject_if (sg_not_before g < 0
         \<or> sg_expires_at g \<le> sg_not_before g
         \<or> unat (sg_delegations_remaining g) > MAX_DEPTH
         \<or> sg_max_charged_attempts g = 0
         \<or> int (unat (sg_max_charged_attempts g)) > i64_max
         \<or> sg_max_distinct_resources g = 0
         \<or> sg_resources g = []
         \<or> length (sg_resources g) > MAX_RESOURCES
         \<or> unat (sg_max_distinct_resources g) > length (sg_resources g)
         \<or> sg_fields g = []
         \<or> length (sg_fields g) > MAX_FIELDS
         \<or> length (rq_evaluator_checks (sg_requirements g)) > MAX_CHECKS) SE_Invalid"

definition canonical_constraint :: "field_constraint \<Rightarrow> scope_error + field_constraint" where
  "canonical_constraint f =
     and_then (scope_ident (fc_field f)) (\<lambda>_.
     and_then (reject_if (fc_allowed_values f = [] \<or> length (fc_allowed_values f) > MAX_VALUES) SE_Invalid) (\<lambda>_.
     and_then (try_each bounded_value (fc_allowed_values f)) (\<lambda>_.
     let values = sort (fc_allowed_values f) in
     and_then (unique_values values) (\<lambda>_. Inr (f\<lparr>fc_allowed_values := values\<rparr>)))))"

definition requirement_ok :: "evaluator_requirement \<Rightarrow> scope_error + unit" where
  "requirement_ok c = and_then (scope_ident (er_check_id c)) (\<lambda>_. scope_digest_ok (er_contract_digest c))"

definition grant_canonicalized :: "'z scext_scheme \<Rightarrow> scope_grant \<Rightarrow> scope_error + scope_grant" where
  "grant_canonicalized X g =
     and_then (scope_version (sg_schema_version g)) (\<lambda>_.
     and_then (owner_validate (sg_owner g)) (\<lambda>_.
     and_then (grant_ids_ok g) (\<lambda>_.
     and_then (scope_digest_ok (sg_provider_profile_digest g)) (\<lambda>_.
     and_then (scope_digest_ok (sg_issuance_receipt_digest g)) (\<lambda>_.
     and_then (scope_digest_ok (rq_policy_digest (sg_requirements g))) (\<lambda>_.
     and_then (grant_limits_ok g) (\<lambda>_.
     and_then (try_each scope_ident (sg_resources g)) (\<lambda>_.
     let resources = sort (sg_resources g) in
     and_then (unique_values resources) (\<lambda>_.
     and_then (try_map canonical_constraint (sg_fields g)) (\<lambda>constraints.
     let fields' = sort_key fc_field constraints in
     and_then (unique_values (map fc_field fields')) (\<lambda>_.
     and_then (try_each requirement_ok (rq_evaluator_checks (sg_requirements g))) (\<lambda>_.
     let checks = sort_key er_check_id (rq_evaluator_checks (sg_requirements g)) in
     and_then (unique_values (map er_check_id checks)) (\<lambda>_.
     let result = g\<lparr>sg_resources := resources, sg_fields := fields',
                     sg_requirements := (sg_requirements g)\<lparr>rq_evaluator_checks := checks\<rparr>\<rparr> in
     and_then (scope_encoded (grant_to_vec X result)) (\<lambda>_. Inr result))))))))))))))"

definition grant_digest :: "'z scext_scheme \<Rightarrow> scope_grant \<Rightarrow> scope_error + string" where
  "grant_digest X g =
     and_then (grant_canonicalized X g) (\<lambda>c. scope_hash X ''opaque.scope.grant.v1'' (grant_to_vec X c))"

text \<open>What \<open>validate_child_of\<close> compares on two canonical grants.\<close>

definition narrows :: "scope_grant \<Rightarrow> scope_grant \<Rightarrow> bool" where
  "narrows child parent =
     (sg_parent_id child = Some (sg_scope_id parent)
      \<and> sg_root_id child = sg_root_id parent
      \<and> sg_owner child = sg_owner parent
      \<and> sg_issuer child = sg_subject parent
      \<and> sg_operation child = sg_operation parent
      \<and> sg_provider_profile_digest child = sg_provider_profile_digest parent
      \<and> sg_not_before child \<ge> sg_not_before parent
      \<and> sg_expires_at child \<le> sg_expires_at parent
      \<and> sg_delegations_remaining parent > 0
      \<and> sg_delegations_remaining child < sg_delegations_remaining parent
      \<and> sg_max_charged_attempts child \<le> sg_max_charged_attempts parent
      \<and> sg_max_distinct_resources child \<le> sg_max_distinct_resources parent
      \<and> rq_policy_digest (sg_requirements child) = rq_policy_digest (sg_requirements parent)
      \<and> \<not> (rq_minimum_approval (sg_requirements parent) = MA_ExactAction
            \<and> rq_minimum_approval (sg_requirements child) \<noteq> MA_ExactAction)
      \<and> list_all (\<lambda>r. binary_search (sg_resources parent) r \<noteq> None) (sg_resources child)
      \<and> list_all (\<lambda>f. list_ex (\<lambda>p. fc_field p = fc_field f
            \<and> list_all (\<lambda>v. binary_search (fc_allowed_values p) v \<noteq> None) (fc_allowed_values f)) (sg_fields parent))
          (sg_fields child)
      \<and> list_all (\<lambda>c. c \<in> set (rq_evaluator_checks (sg_requirements child)))
          (rq_evaluator_checks (sg_requirements parent)))"

definition validate_child_of :: "'z scext_scheme \<Rightarrow> scope_grant \<Rightarrow> scope_grant \<Rightarrow> scope_error + unit" where
  "validate_child_of X g p =
     and_then (grant_canonicalized X g) (\<lambda>child.
     and_then (grant_canonicalized X p) (\<lambda>parent.
     if narrows child parent then Inr () else Inl SE_NotSubset))"

subsection \<open>Prepared actions\<close>

definition field_value_ok :: "field_value \<Rightarrow> scope_error + unit" where
  "field_value_ok f = and_then (scope_ident (fv_field f)) (\<lambda>_. bounded_value (fv_value f))"

definition action_canonicalized :: "'z scext_scheme \<Rightarrow> prepared_action \<Rightarrow> scope_error + prepared_action" where
  "action_canonicalized X a =
     and_then (scope_version (pc_schema_version a)) (\<lambda>_.
     and_then (owner_validate (pc_owner a)) (\<lambda>_.
     and_then (try_each scope_ident
         [pc_action_id a, pc_request_id a, pc_scope_id a, pc_subject a, pc_operation a, pc_resource a]) (\<lambda>_.
     and_then (bounded_value (pc_resource_version a)) (\<lambda>_.
     and_then (reject_if (pc_resource_version a = [] \<or> pc_fields a = [] \<or> length (pc_fields a) > MAX_FIELDS)
         SE_Invalid) (\<lambda>_.
     and_then (try_each scope_digest_ok
         [pc_scope_digest a, pc_provider_profile_digest a, pc_evidence_digest a]) (\<lambda>_.
     and_then (try_each field_value_ok (pc_fields a)) (\<lambda>_.
     let result = a\<lparr>pc_fields := sort_key fv_field (pc_fields a)\<rparr> in
     and_then (unique_values (map fv_field (pc_fields result))) (\<lambda>_.
     and_then (scope_encoded (action_to_vec X result)) (\<lambda>_. Inr result)))))))))"

definition action_digest :: "'z scext_scheme \<Rightarrow> prepared_action \<Rightarrow> scope_error + string" where
  "action_digest X a =
     and_then (action_canonicalized X a) (\<lambda>c. scope_hash X ''opaque.scope.action.v1'' (action_to_vec X c))"

definition action_validate_for :: "'z scext_scheme \<Rightarrow> prepared_action \<Rightarrow> scope_grant \<Rightarrow> scope_error + unit" where
  "action_validate_for X a g =
     and_then (action_canonicalized X a) (\<lambda>action.
     and_then (grant_canonicalized X g) (\<lambda>scope.
     if pc_scope_id action \<noteq> sg_scope_id scope then Inl SE_OutOfScope
     else and_then (grant_digest X scope) (\<lambda>d.
       reject_if (pc_scope_digest action \<noteq> d
           \<or> pc_owner action \<noteq> sg_owner scope
           \<or> pc_subject action \<noteq> sg_subject scope
           \<or> pc_operation action \<noteq> sg_operation scope
           \<or> pc_provider_profile_digest action \<noteq> sg_provider_profile_digest scope
           \<or> binary_search (sg_resources scope) (pc_resource action) = None
           \<or> \<not> list_all (\<lambda>f. list_ex (\<lambda>s. fc_field s = fv_field f
                 \<and> binary_search (fc_allowed_values s) (fv_value f) \<noteq> None) (sg_fields scope)) (pc_fields action))
         SE_OutOfScope)))"

subsection \<open>Review bindings and admission evidence\<close>

definition review_binding_validate :: "review_binding \<Rightarrow> scope_error + unit" where
  "review_binding_validate b =
     and_then (scope_version (rb_schema_version b)) (\<lambda>_.
     and_then (try_each scope_ident [rb_case_id b, rb_action_id b, rb_round_id b]) (\<lambda>_.
     and_then (try_each scope_digest_ok [rb_action_digest b, rb_scope_digest b, rb_evidence_digest b,
         rb_policy_digest b, rb_decision_receipt_digest b]) (\<lambda>_.
     reject_if (rb_case_revision b = 0 \<or> rb_expires_at b \<le> 0) SE_Invalid)))"

definition binding_digest :: "'z scext_scheme \<Rightarrow> review_binding \<Rightarrow> scope_error + string" where
  "binding_digest X b =
     and_then (review_binding_validate b) (\<lambda>_. scope_hash X ''opaque.scope.review-binding.v1'' (binding_to_vec X b))"

definition review_matches ::
  "admission_evidence \<Rightarrow> scope_grant \<Rightarrow> prepared_action \<Rightarrow> i64 \<Rightarrow> scope_error + unit" where
  "review_matches e g a now =
     (case ae_review e of
        Some review \<Rightarrow>
          and_then (review_binding_validate review) (\<lambda>_.
          reject_if (rb_action_id review \<noteq> pc_action_id a
              \<or> rb_action_digest review \<noteq> ae_action_digest e
              \<or> rb_scope_digest review \<noteq> ae_scope_digest e
              \<or> rb_evidence_digest review \<noteq> pc_evidence_digest a
              \<or> rb_policy_digest review \<noteq> ae_policy_digest e
              \<or> rb_expires_at review \<le> now
              \<or> rb_expires_at review > sg_expires_at g) SE_Evidence)
      | None \<Rightarrow> reject_if (rq_minimum_approval (sg_requirements g) = MA_ExactAction) SE_Evidence)"

definition receipt_matches :: "admission_evidence \<Rightarrow> prepared_action \<Rightarrow> evaluator_receipt \<Rightarrow> scope_error + unit" where
  "receipt_matches e a r =
     and_then (scope_ident (ec_check_id r)) (\<lambda>_.
     and_then (scope_digest_ok (ec_contract_digest r)) (\<lambda>_.
     and_then (scope_digest_ok (ec_receipt_digest r)) (\<lambda>_.
     reject_if (ec_action_digest r \<noteq> ae_action_digest e \<or> ec_evidence_digest r \<noteq> pc_evidence_digest a)
       SE_Evidence)))"

text \<open>The digests are compared in the order of the condition, so that an error of \<open>scope.digest()\<close> or
  \<open>action.digest()\<close> is returned only when every earlier disjunct is false.\<close>

definition evidence_validate_for ::
  "'z scext_scheme \<Rightarrow> admission_evidence \<Rightarrow> scope_grant \<Rightarrow> prepared_action \<Rightarrow> i64 \<Rightarrow> scope_error + unit" where
  "evidence_validate_for X e g a now =
     and_then (scope_version (ae_schema_version e)) (\<lambda>_.
     and_then (action_validate_for X a g) (\<lambda>_.
     and_then (reject_if (ae_policy_digest e \<noteq> rq_policy_digest (sg_requirements g)) SE_Evidence) (\<lambda>_.
     and_then (grant_digest X g) (\<lambda>gd.
     and_then (reject_if (ae_scope_digest e \<noteq> gd) SE_Evidence) (\<lambda>_.
     and_then (action_digest X a) (\<lambda>ad.
     and_then (reject_if (ae_action_digest e \<noteq> ad
         \<or> ae_authority_revision e = 0
         \<or> ae_evaluated_at e < 0
         \<or> ae_evaluated_at e > now
         \<or> ae_expires_at e \<le> now
         \<or> ae_expires_at e > sg_expires_at g
         \<or> length (ae_evaluators e) > MAX_CHECKS) SE_Evidence) (\<lambda>_.
     and_then (review_matches e g a now) (\<lambda>_.
     and_then (unique_values (map ec_check_id (ae_evaluators e))) (\<lambda>_.
     and_then (try_each (receipt_matches e a) (ae_evaluators e)) (\<lambda>_.
     reject_if (\<not> list_all (\<lambda>check. list_ex (\<lambda>r. ec_check_id r = er_check_id check
             \<and> ec_contract_digest r = er_contract_digest check) (ae_evaluators e))
           (rq_evaluator_checks (sg_requirements g))) SE_Evidence))))))))))"

subsection \<open>Facts about the checks\<close>

lemma insert_all_iff: "insert_all seen vs \<longleftrightarrow> distinct vs \<and> set vs \<inter> set seen = {}"
  by (induction vs arbitrary: seen) auto

lemma unique_values_Inr [simp, res_simps]: "unique_values vs = Inr u \<longleftrightarrow> distinct vs"
  by (simp add: unique_values_def insert_all_iff)

lemma unique_values_perm: "mset vs = mset ws \<Longrightarrow> unique_values vs = unique_values ws"
  using mset_eq_imp_distinct_iff[of vs ws] by (simp add: unique_values_def insert_all_iff)

lemma bsearch_base_bounds:
  assumes "0 < len" shows "base \<le> bsearch_base ks k base len \<and> bsearch_base ks k base len < base + len"
  using assms
proof (induction ks k base len rule: bsearch_base.induct)
  case (1 ks k base len)
  show ?case
  proof (cases "len \<le> 1")
    case True
    then show ?thesis using 1(2) by (simp add: bsearch_base.simps[of ks k base len])
  next
    case False
    then have "0 < len - len div 2" by simp
    then have ih: "(if ks ! (base + len div 2) > k then base else base + len div 2)
        \<le> bsearch_base ks k base len \<and> bsearch_base ks k base len
        < (if ks ! (base + len div 2) > k then base else base + len div 2) + (len - len div 2)"
      using 1(1)[OF False] False by (simp only: bsearch_base.simps[of ks k base len] if_False)
    then show ?thesis using False by (auto split: if_splits)
  qed
qed

lemma bsearch_base_finds:
  assumes "sorted ks" "base + len \<le> length ks" "base \<le> j" "j < base + len" "ks ! j = k"
  shows "ks ! bsearch_base ks k base len = k"
  using assms
proof (induction ks k base len arbitrary: j rule: bsearch_base.induct)
  case (1 ks k base len)
  show ?case
  proof (cases "len \<le> 1")
    case True
    then have "j = base" using 1(4,5) by simp
    then show ?thesis using True 1(6) by (simp add: bsearch_base.simps[of ks k base len])
  next
    case False
    let ?m = "base + len div 2"
    let ?b = "if ks ! ?m > k then base else ?m"
    have m: "?m < base + len" using False by simp
    have b: "?b + (len - len div 2) \<le> length ks" using 1(3) by auto
    obtain j' where j': "?b \<le> j'" "j' < ?b + (len - len div 2)" "ks ! j' = k"
    proof (cases "ks ! ?m > k")
      case True
      have "j < ?m"
      proof (rule ccontr)
        assume "\<not> j < ?m"
        then have "ks ! ?m \<le> ks ! j" using 1(2,3,5) by (intro sorted_nth_mono) simp_all
        then show False using True 1(6) by simp
      qed
      then show ?thesis using that[of j] True 1(4,6) by auto
    next
      case F: False
      show ?thesis
      proof (cases "?m \<le> j")
        case True
        then show ?thesis using that[of j] F 1(5,6) False by auto
      next
        case jm: False
        have "ks ! j \<le> ks ! ?m" using 1(2,3) m jm by (intro sorted_nth_mono) simp_all
        then have "ks ! ?m = k" using F 1(6) by simp
        then show ?thesis using that[of ?m] F False by auto
      qed
    qed
    have "ks ! bsearch_base ks k ?b (len - len div 2) = k"
      using 1(1)[OF False 1(2) b j'] .
    then show ?thesis using False by (simp only: bsearch_base.simps[of ks k base len] if_False)
  qed
qed

lemma binary_search_Some: "binary_search ks k = Some i \<Longrightarrow> i < length ks \<and> ks ! i = k"
  using bsearch_base_bounds[of "length ks" 0 ks k]
  by (auto simp: binary_search_def Let_def split: if_splits)

lemma binary_search_None: "sorted ks \<Longrightarrow> binary_search ks k = None \<longleftrightarrow> k \<notin> set ks"
proof
  assume "binary_search ks k = None" "sorted ks"
  show "k \<notin> set ks"
  proof
    assume "k \<in> set ks"
    then obtain j where "j < length ks" "ks ! j = k" by (auto simp: in_set_conv_nth)
    then have "ks \<noteq> []" "ks ! bsearch_base ks k 0 (length ks) = k"
      using bsearch_base_finds[OF \<open>sorted ks\<close>, of 0 "length ks" j k] by auto
    then show False using \<open>binary_search ks k = None\<close> by (simp add: binary_search_def Let_def)
  qed
next
  assume "k \<notin> set ks"
  then show "binary_search ks k = None" using binary_search_Some[of ks k] by (cases "binary_search ks k") auto
qed

lemma scope_encoded_Inr [res_simps]: "scope_encoded j = Inr b \<longleftrightarrow> j = Some b \<and> length b \<le> MAX_BYTES"
  by (cases j) (auto simp: scope_encoded_def)

subsection \<open>Canonical forms\<close>

lemma distinct_map_sort_key [simp]: "distinct (map f (sort_key f xs)) \<longleftrightarrow> distinct (map f xs)"
  by (rule mset_map_distinct) simp

lemma sort_key_Nil_iff [simp]: "sort_key f xs = [] \<longleftrightarrow> xs = []"
  by (metis length_sort length_0_conv)

lemma canonical_constraint_Inr:
  "canonical_constraint f = Inr c \<longleftrightarrow>
     scope_ident (fc_field f) = Inr () \<and> fc_allowed_values f \<noteq> [] \<and> length (fc_allowed_values f) \<le> MAX_VALUES
     \<and> (\<forall>v\<in>set (fc_allowed_values f). bounded_value v = Inr ()) \<and> distinct (fc_allowed_values f)
     \<and> c = f\<lparr>fc_allowed_values := sort (fc_allowed_values f)\<rparr>"
  by (auto simp: canonical_constraint_def Let_def)

lemma canonical_constraint_idem: "canonical_constraint f = Inr c \<Longrightarrow> canonical_constraint c = Inr c"
  by (simp add: canonical_constraint_Inr sort_key_id_if_sorted)

lemma canonical_constraint_sorted: "canonical_constraint f = Inr c \<Longrightarrow> sorted (fc_allowed_values c)"
  by (auto simp: canonical_constraint_Inr)

lemma try_map_canonical_idem:
  assumes "try_map canonical_constraint fs = Inr cs"
  shows "try_map canonical_constraint (sort_key k cs) = Inr (sort_key k cs)"
proof -
  have "\<forall>c\<in>set cs. canonical_constraint c = Inr c"
    using assms canonical_constraint_idem
    unfolding try_map_Inr list_all2_conv_all_nth by (metis in_set_conv_nth)
  then show ?thesis by (simp add: try_map_Inr list_all2_same)
qed

lemma grant_canonicalized_Inr:
  "grant_canonicalized X g = Inr c \<longleftrightarrow>
     (\<exists>cs. scope_version (sg_schema_version g) = Inr () \<and> owner_validate (sg_owner g) = Inr ()
       \<and> grant_ids_ok g = Inr () \<and> scope_digest_ok (sg_provider_profile_digest g) = Inr ()
       \<and> scope_digest_ok (sg_issuance_receipt_digest g) = Inr ()
       \<and> scope_digest_ok (rq_policy_digest (sg_requirements g)) = Inr ()
       \<and> grant_limits_ok g = Inr ()
       \<and> (\<forall>r\<in>set (sg_resources g). scope_ident r = Inr ()) \<and> distinct (sg_resources g)
       \<and> try_map canonical_constraint (sg_fields g) = Inr cs \<and> distinct (map fc_field cs)
       \<and> (\<forall>q\<in>set (rq_evaluator_checks (sg_requirements g)). requirement_ok q = Inr ())
       \<and> distinct (map er_check_id (rq_evaluator_checks (sg_requirements g)))
       \<and> c = g\<lparr>sg_resources := sort (sg_resources g), sg_fields := sort_key fc_field cs,
               sg_requirements := (sg_requirements g)\<lparr>rq_evaluator_checks :=
                 sort_key er_check_id (rq_evaluator_checks (sg_requirements g))\<rparr>\<rparr>
       \<and> (\<exists>b. scope_encoded (grant_to_vec X c) = Inr b))"
  unfolding grant_canonicalized_def Let_def by (simp only: and_then_Inr unique_values_Inr try_each_Inr) auto

lemma grant_canonicalized_idem: 
  assumes "grant_canonicalized X g = Inr c" shows "grant_canonicalized X c = Inr c"
proof -
  obtain cs where h: "scope_version (sg_schema_version g) = Inr ()" "owner_validate (sg_owner g) = Inr ()"
       "grant_ids_ok g = Inr ()" "scope_digest_ok (sg_provider_profile_digest g) = Inr ()"
       "scope_digest_ok (sg_issuance_receipt_digest g) = Inr ()"
       "scope_digest_ok (rq_policy_digest (sg_requirements g)) = Inr ()" "grant_limits_ok g = Inr ()"
       "\<forall>r\<in>set (sg_resources g). scope_ident r = Inr ()" "distinct (sg_resources g)"
       "try_map canonical_constraint (sg_fields g) = Inr cs" "distinct (map fc_field cs)"
       "\<forall>q\<in>set (rq_evaluator_checks (sg_requirements g)). requirement_ok q = Inr ()"
       "distinct (map er_check_id (rq_evaluator_checks (sg_requirements g)))"
    and c: "c = g\<lparr>sg_resources := sort (sg_resources g), sg_fields := sort_key fc_field cs,
               sg_requirements := (sg_requirements g)\<lparr>rq_evaluator_checks :=
                 sort_key er_check_id (rq_evaluator_checks (sg_requirements g))\<rparr>\<rparr>"
    and b: "\<exists>b. scope_encoded (grant_to_vec X c) = Inr b"
    using assms unfolding grant_canonicalized_Inr by blast
  have len: "length cs = length (sg_fields g)"
    using h(10) unfolding try_map_Inr by (simp add: list_all2_lengthD)
  have "grant_limits_ok c = Inr ()"
    using h(7) len unfolding c grant_limits_ok_def reject_if_Inr
    by (auto simp flip: length_greater_0_conv)
  moreover have "grant_ids_ok c = Inr ()" using h(3) unfolding c grant_ids_ok_def by (cases "sg_parent_id g") simp_all
  moreover have "try_map canonical_constraint (sg_fields c) = Inr (sg_fields c)"
    unfolding c using try_map_canonical_idem[OF h(10)] by simp
  ultimately show ?thesis
    unfolding grant_canonicalized_Inr
    by (intro exI[of _ "sg_fields c"]) (use h b in \<open>simp add: c sort_key_id_if_sorted\<close>)
qed

lemma action_canonicalized_Inr:
  "action_canonicalized X a = Inr c \<longleftrightarrow>
     scope_version (pc_schema_version a) = Inr () \<and> owner_validate (pc_owner a) = Inr ()
     \<and> (\<forall>v\<in>set [pc_action_id a, pc_request_id a, pc_scope_id a, pc_subject a, pc_operation a, pc_resource a].
          scope_ident v = Inr ())
     \<and> bounded_value (pc_resource_version a) = Inr () \<and> pc_resource_version a \<noteq> []
     \<and> pc_fields a \<noteq> [] \<and> length (pc_fields a) \<le> MAX_FIELDS
     \<and> (\<forall>v\<in>set [pc_scope_digest a, pc_provider_profile_digest a, pc_evidence_digest a]. scope_digest_ok v = Inr ())
     \<and> (\<forall>f\<in>set (pc_fields a). field_value_ok f = Inr ()) \<and> distinct (map fv_field (pc_fields a))
     \<and> c = a\<lparr>pc_fields := sort_key fv_field (pc_fields a)\<rparr>
     \<and> (\<exists>b. scope_encoded (action_to_vec X c) = Inr b)"
  unfolding action_canonicalized_def Let_def
  by (simp only: and_then_Inr unique_values_Inr try_each_Inr reject_if_Inr) auto

lemma action_canonicalized_idem: "action_canonicalized X a = Inr c \<Longrightarrow> action_canonicalized X c = Inr c"
  by (auto simp: action_canonicalized_Inr sort_key_id_if_sorted)

lemma grant_canonicalized_keeps:
  assumes "grant_canonicalized X g = Inr c"
  shows "sg_scope_id c = sg_scope_id g" "sg_root_id c = sg_root_id g" "sg_parent_id c = sg_parent_id g"
    "sg_owner c = sg_owner g" "sg_expires_at c = sg_expires_at g" "sg_not_before c = sg_not_before g"
    "sg_subject c = sg_subject g" "sg_operation c = sg_operation g"
  using assms unfolding grant_canonicalized_Inr by auto

lemma action_canonicalized_keeps:
  assumes "action_canonicalized X a = Inr c"
  shows "pc_action_id c = pc_action_id a" "pc_scope_id c = pc_scope_id a" "pc_owner c = pc_owner a"
    "pc_subject c = pc_subject a" "pc_request_id c = pc_request_id a" "pc_resource c = pc_resource a"
  using assms unfolding action_canonicalized_Inr by auto

subsection \<open>What a canonical grant allows\<close>

abbreviation canonical_grant :: "'z scext_scheme \<Rightarrow> scope_grant \<Rightarrow> bool" where
  "canonical_grant X g \<equiv> grant_canonicalized X g = Inr g"

abbreviation canonical_action :: "'z scext_scheme \<Rightarrow> prepared_action \<Rightarrow> bool" where
  "canonical_action X a \<equiv> action_canonicalized X a = Inr a"

lemma canonical_parts:
  assumes "canonical_grant X g"
  shows "sorted (sg_resources g)" "distinct (sg_resources g)"
    "\<exists>cs. try_map canonical_constraint (sg_fields g) = Inr cs \<and> sg_fields g = sort_key fc_field cs"
proof -
  obtain cs where cs: "try_map canonical_constraint (sg_fields g) = Inr cs" "distinct (sg_resources g)"
    and g: "g = g\<lparr>sg_resources := sort (sg_resources g), sg_fields := sort_key fc_field cs,
               sg_requirements := (sg_requirements g)\<lparr>rq_evaluator_checks :=
                 sort_key er_check_id (rq_evaluator_checks (sg_requirements g))\<rparr>\<rparr>"
    using assms(1) unfolding grant_canonicalized_Inr by blast
  show "sorted (sg_resources g)" by (subst g) simp
  show "distinct (sg_resources g)" by (rule cs(2))
  have "sg_fields g = sort_key fc_field cs" by (subst g) simp
  then show "\<exists>cs. try_map canonical_constraint (sg_fields g) = Inr cs \<and> sg_fields g = sort_key fc_field cs"
    using cs(1) by blast
qed

lemma canonical_values:
  assumes "canonical_grant X g" "f \<in> set (sg_fields g)" shows "sorted (fc_allowed_values f)"
proof -
  obtain cs where cs: "list_all2 (\<lambda>x y. canonical_constraint x = Inr y) (sg_fields g) cs"
    and "sg_fields g = sort_key fc_field cs"
    using canonical_parts(3)[OF assms(1)] unfolding try_map_Inr by blast
  then have "f \<in> set cs" using assms(2) by simp
  then obtain i where "i < length cs" "cs ! i = f" by (auto simp: in_set_conv_nth)
  then have "canonical_constraint (sg_fields g ! i) = Inr f" using cs by (auto simp: list_all2_conv_all_nth)
  then show ?thesis by (rule canonical_constraint_sorted)
qed

lemma canonical_limits:
  assumes "canonical_grant X g"
  shows "0 \<le> sg_not_before g" "sg_not_before g < sg_expires_at g" "unat (sg_delegations_remaining g) \<le> MAX_DEPTH"
    "0 < unat (sg_max_charged_attempts g)" "int (unat (sg_max_charged_attempts g)) \<le> i64_max"
    "unat (sg_max_distinct_resources g) \<le> length (sg_resources g)"
  using assms unfolding grant_canonicalized_Inr grant_limits_ok_def
  by (auto simp: unat_gt_0)

lemma canonical_root:
  "canonical_grant X g \<Longrightarrow> (case sg_parent_id g of None \<Rightarrow> sg_root_id g = sg_scope_id g
     | Some p \<Rightarrow> p \<noteq> sg_scope_id g \<and> sg_root_id g \<noteq> sg_scope_id g)"
  unfolding grant_canonicalized_Inr grant_ids_ok_def by (auto split: option.splits)

definition allows_field :: "scope_grant \<Rightarrow> string \<Rightarrow> string \<Rightarrow> bool" where
  "allows_field g f v = (\<exists>s\<in>set (sg_fields g). fc_field s = f \<and> v \<in> set (fc_allowed_values s))"

text \<open>The order of attenuation: everything \<open>g\<close> allows, \<open>p\<close> allows, under requirements no weaker.\<close>

definition within :: "scope_grant \<Rightarrow> scope_grant \<Rightarrow> bool" where
  "within g p =
     (sg_root_id g = sg_root_id p \<and> sg_owner g = sg_owner p \<and> sg_operation g = sg_operation p
      \<and> sg_provider_profile_digest g = sg_provider_profile_digest p
      \<and> set (sg_resources g) \<subseteq> set (sg_resources p)
      \<and> (\<forall>f v. allows_field g f v \<longrightarrow> allows_field p f v)
      \<and> sg_not_before p \<le> sg_not_before g \<and> sg_expires_at g \<le> sg_expires_at p
      \<and> sg_max_charged_attempts g \<le> sg_max_charged_attempts p
      \<and> sg_max_distinct_resources g \<le> sg_max_distinct_resources p
      \<and> rq_policy_digest (sg_requirements g) = rq_policy_digest (sg_requirements p)
      \<and> (rq_minimum_approval (sg_requirements p) = MA_ExactAction
           \<longrightarrow> rq_minimum_approval (sg_requirements g) = MA_ExactAction)
      \<and> set (rq_evaluator_checks (sg_requirements p)) \<subseteq> set (rq_evaluator_checks (sg_requirements g)))"

lemma within_refl [simp]: "within g g" by (simp add: within_def)

lemma within_trans: "within a b \<Longrightarrow> within b c \<Longrightarrow> within a c"
  unfolding within_def by (intro conjI) (force intro: order_trans)+

lemma narrows_within:
  assumes n: "narrows g p" and p: "canonical_grant X p"
  shows "within g p"
proof -
  have s: "sorted (sg_resources p)" by (rule canonical_parts(1)[OF p])
  have "set (sg_resources g) \<subseteq> set (sg_resources p)"
    using n binary_search_None[OF s] by (auto simp: narrows_def list_all_iff)
  moreover have "allows_field p f v" if a: "allows_field g f v" for f v
  proof -
    obtain c where c: "c \<in> set (sg_fields g)" "fc_field c = f" "v \<in> set (fc_allowed_values c)"
      using a by (auto simp: allows_field_def)
    then obtain q where q: "q \<in> set (sg_fields p)" "fc_field q = f" "binary_search (fc_allowed_values q) v \<noteq> None"
      using n by (auto simp: narrows_def list_all_iff list_ex_iff)
    then have "v \<in> set (fc_allowed_values q)" using binary_search_None[OF canonical_values[OF p q(1)]] by simp
    then show ?thesis using q by (auto simp: allows_field_def)
  qed
  ultimately show ?thesis using n unfolding within_def narrows_def by (auto simp: list_all_iff)
qed

lemma validate_child_canonical:
  "canonical_grant X g \<Longrightarrow> canonical_grant X p \<Longrightarrow> validate_child_of X g p = Inr u \<longleftrightarrow> narrows g p"
  by (simp add: validate_child_of_def)

lemma action_validate_for_Inr:
  assumes a: "canonical_action X a" and g: "canonical_grant X g"
  shows "action_validate_for X a g = Inr u \<longleftrightarrow>
     pc_scope_id a = sg_scope_id g \<and> grant_digest X g = Inr (pc_scope_digest a) \<and> pc_owner a = sg_owner g
     \<and> pc_subject a = sg_subject g \<and> pc_operation a = sg_operation g
     \<and> pc_provider_profile_digest a = sg_provider_profile_digest g \<and> pc_resource a \<in> set (sg_resources g)
     \<and> (\<forall>f\<in>set (pc_fields a). allows_field g (fv_field f) (fv_value f))"
proof -
  have f: "list_ex (\<lambda>s. fc_field s = fv_field f \<and> binary_search (fc_allowed_values s) (fv_value f) \<noteq> None) (sg_fields g)
      \<longleftrightarrow> allows_field g (fv_field f) (fv_value f)" for f
    using binary_search_None[OF canonical_values[OF g]] by (simp add: list_ex_iff allows_field_def del: not_None_eq)
  show ?thesis
    using binary_search_None[OF canonical_parts(1)[OF g]]
    by (cases "grant_digest X g") (simp_all add: action_validate_for_def a g f list_all_iff del: not_None_eq, blast)
qed

lemma evidence_validate_for_Inr:
  "evidence_validate_for X e g a now = Inr u \<longleftrightarrow>
     scope_version (ae_schema_version e) = Inr () \<and> action_validate_for X a g = Inr ()
     \<and> ae_policy_digest e = rq_policy_digest (sg_requirements g)
     \<and> grant_digest X g = Inr (ae_scope_digest e) \<and> action_digest X a = Inr (ae_action_digest e)
     \<and> ae_authority_revision e \<noteq> 0 \<and> 0 \<le> ae_evaluated_at e \<and> ae_evaluated_at e \<le> now
     \<and> now < ae_expires_at e \<and> ae_expires_at e \<le> sg_expires_at g \<and> length (ae_evaluators e) \<le> MAX_CHECKS
     \<and> review_matches e g a now = Inr () \<and> distinct (map ec_check_id (ae_evaluators e))
     \<and> (\<forall>r\<in>set (ae_evaluators e). receipt_matches e a r = Inr ())
     \<and> (\<forall>c\<in>set (rq_evaluator_checks (sg_requirements g)). \<exists>r\<in>set (ae_evaluators e).
           ec_check_id r = er_check_id c \<and> ec_contract_digest r = er_contract_digest c)"
  by (cases "grant_digest X g"; cases "action_digest X a")
    (auto simp: evidence_validate_for_def list_all_iff list_ex_iff)

lemma review_matches_Inr:
  "review_matches e g a now = Inr u \<longleftrightarrow>
     (case ae_review e of
        None \<Rightarrow> rq_minimum_approval (sg_requirements g) \<noteq> MA_ExactAction
      | Some b \<Rightarrow> review_binding_validate b = Inr () \<and> rb_action_id b = pc_action_id a
          \<and> rb_action_digest b = ae_action_digest e \<and> rb_scope_digest b = ae_scope_digest e
          \<and> rb_evidence_digest b = pc_evidence_digest a \<and> rb_policy_digest b = ae_policy_digest e
          \<and> now < rb_expires_at b \<and> rb_expires_at b \<le> sg_expires_at g)"
  by (auto simp: review_matches_def split: option.splits)

end
