(* ===== verification/Scope_Evidence.thy ===== *)
theory Scope_Evidence
  imports Scope "HOL-Library.FSet"
begin

text \<open>
  The portable evidence of the scope ledger, \<open>src/crates/opaque-core/src/scope_evidence.rs\<close>:
  records of issued scopes and charged actions, the append-only event history, and the validator that
  recomputes every charge from the actions and replays the events.  A \<open>BTreeMap\<close> is an association
  list in key order and a \<open>BTreeSet\<close> a finite set.  The two upward walks are modelled apart:
  \<open>ancestry\<close> counts its steps, \<open>verify_events\<close> does not, so its walk has fuel and a distinct
  outcome \<open>Diverges\<close> that the properties show is never reached.  The error texts are the code's.
\<close>

datatype evidence_error = EvidenceError string | Diverges

datatype execution_state = ES_Reserved | ES_DispatchClaimed | ES_ApiAccepted | ES_Rejected | ES_Unknown

datatype event_kind =
    EK_ScopeIssued | EK_ScopeRevoked | EK_AttemptCharged | EK_DispatchClaimed | EK_AttemptFinished
  | EK_Interrupted

record scope_record =
  sr_grant :: scope_grant
  sr_digest :: string
  sr_issued_at :: i64
  sr_revoked_at :: "i64 option"
  sr_charged_attempts :: u64
  sr_charged_resources :: "string fset"

record action_record =
  ar_action :: prepared_action
  ar_digest :: string
  ar_evidence :: admission_evidence
  ar_reserved_at :: i64
  ar_dispatch_claimed_at :: "i64 option"
  ar_finished_at :: "i64 option"
  ar_state :: execution_state

record authority_event =
  ev_sequence :: u64
  ev_scope_id :: string
  ev_action_id :: "string option"
  ev_kind :: event_kind
  ev_observed_at :: "i64 option"
  ev_content_digest :: string

record scope_evidence =
  se_schema_version :: u16
  se_owner :: authority_owner
  se_last_seen :: i64
  se_scopes :: "scope_record list"
  se_actions :: "action_record list"
  se_events :: "authority_event list"

abbreviation sr_id :: "scope_record \<Rightarrow> string" where "sr_id r \<equiv> sg_scope_id (sr_grant r)"
abbreviation ar_id :: "action_record \<Rightarrow> string" where "ar_id r \<equiv> pc_action_id (ar_action r)"

subsection \<open>Ordered maps\<close>

fun bt_insert :: "('k::linorder) \<Rightarrow> 'v \<Rightarrow> ('k \<times> 'v) list \<Rightarrow> ('k \<times> 'v) list" where
  "bt_insert k v [] = [(k, v)]"
| "bt_insert k v ((k', v') # m) =
     (if k < k' then (k, v) # (k', v') # m else if k = k' then (k, v) # m else (k', v') # bt_insert k v m)"

subsection \<open>Ancestry\<close>

text \<open>The loop of \<open>ancestry\<close>, and of \<open>chain\<close> in the ledger, over the way a scope is found.\<close>

function climb ::
  "(string \<Rightarrow> 'e + scope_record) \<Rightarrow> 'e \<Rightarrow> scope_record list \<Rightarrow> string option \<Rightarrow> 'e + scope_record list" where
  "climb look deep result None = Inr result"
| "climb look deep result (Some i) =
     (if length result > MAX_DEPTH \<or> list_ex (\<lambda>r. sr_id r = i) result then Inl deep
      else case look i of
             Inl e \<Rightarrow> Inl e
           | Inr r \<Rightarrow> climb look deep (result @ [r]) (sg_parent_id (sr_grant r)))"
  by pat_completeness auto
termination by (relation "measure (\<lambda>(_, _, result, _). Suc (Suc MAX_DEPTH) - length result)") auto

fun windows_narrow :: "'z scext_scheme \<Rightarrow> scope_record list \<Rightarrow> scope_error + unit" where
  "windows_narrow X (a # b # rs) =
     and_then (validate_child_of X (sr_grant a) (sr_grant b)) (\<lambda>_. windows_narrow X (b # rs))"
| "windows_narrow X _ = Inr ()"

definition find_record :: "scope_record list \<Rightarrow> string \<Rightarrow> scope_record option" where
  "find_record scopes i = map_option (\<lambda>n. scopes ! n) (binary_search (map sr_id scopes) i)"

definition ancestry ::
  "'z scext_scheme \<Rightarrow> scope_record list \<Rightarrow> string \<Rightarrow> evidence_error + scope_record list" where
  "ancestry X scopes i =
     and_then (climb (\<lambda>j. ok_or (find_record scopes j) (EvidenceError ''missing scope ancestor''))
         (EvidenceError ''cyclic or overdeep authority chain'') [] (Some i)) (\<lambda>result.
     and_then (map_err (\<lambda>_. EvidenceError ''expanded child scope'') (windows_narrow X result)) (\<lambda>_. Inr result))"

subsection \<open>Event history\<close>

definition bad_history :: evidence_error where
  "bad_history = EvidenceError ''inconsistent scope event history''"

fun walk_issued ::
  "nat \<Rightarrow> (string \<times> scope_record) list \<Rightarrow> (string \<times> event_kind) list \<Rightarrow> scope_record \<Rightarrow> evidence_error + unit" where
  "walk_issued 0 scopes seen current = Inl Diverges"
| "walk_issued (Suc n) scopes seen current =
     (if (sr_id current, EK_ScopeRevoked) \<in> set seen \<or> (sr_id current, EK_ScopeIssued) \<notin> set seen
      then Inl bad_history
      else case sg_parent_id (sr_grant current) of
             None \<Rightarrow> Inr ()
           | Some p \<Rightarrow> and_then (ok_or (map_of scopes p) bad_history) (walk_issued n scopes seen))"

definition action_event_correct :: "authority_event \<Rightarrow> action_record \<Rightarrow> bool" where
  "action_event_correct ev a =
     (case ev_kind ev of
        EK_AttemptCharged \<Rightarrow> ev_observed_at ev = Some (ar_reserved_at a)
      | EK_DispatchClaimed \<Rightarrow> ev_observed_at ev = ar_dispatch_claimed_at a \<and> ar_dispatch_claimed_at a \<noteq> None
      | EK_AttemptFinished \<Rightarrow> ev_observed_at ev = ar_finished_at a \<and> ar_finished_at a \<noteq> None
      | EK_Interrupted \<Rightarrow> ev_observed_at ev = None \<and> ar_state a = ES_Unknown \<and> ar_finished_at a = None
      | _ \<Rightarrow> False)"

definition scope_event_correct :: "authority_event \<Rightarrow> scope_record \<Rightarrow> bool" where
  "scope_event_correct ev s =
     (ev_content_digest ev = sr_digest s
      \<and> (case ev_kind ev of
           EK_ScopeIssued \<Rightarrow> ev_observed_at ev = Some (sr_issued_at s)
         | EK_ScopeRevoked \<Rightarrow> ev_observed_at ev = sr_revoked_at s \<and> sr_revoked_at s \<noteq> None
         | _ \<Rightarrow> False))"

definition action_event_ok ::
  "(string \<times> event_kind) list \<Rightarrow> authority_event \<Rightarrow> string \<Rightarrow> action_record \<Rightarrow> bool" where
  "action_event_ok seen ev i a =
     (ev_scope_id ev = pc_scope_id (ar_action a) \<and> ev_content_digest ev = ar_digest a
      \<and> action_event_correct ev a
      \<and> \<not> (ev_kind ev \<noteq> EK_AttemptCharged \<and> (i, EK_AttemptCharged) \<notin> set seen)
      \<and> \<not> (ev_kind ev \<in> {EK_AttemptFinished, EK_Interrupted} \<and> ar_dispatch_claimed_at a \<noteq> None
            \<and> (i, EK_DispatchClaimed) \<notin> set seen))"

definition event_key :: "authority_event \<Rightarrow> string \<times> event_kind" where
  "event_key ev = (case ev_action_id ev of None \<Rightarrow> ev_scope_id ev | Some i \<Rightarrow> i, ev_kind ev)"

text \<open>One round of the loop over the events; \<open>seen\<close> holds the keys of the earlier ones.\<close>

definition event_step ::
  "(string \<times> scope_record) list \<Rightarrow> (string \<times> action_record) list \<Rightarrow> i64 \<Rightarrow> u64 \<Rightarrow> (string \<times> event_kind) list \<Rightarrow> i64
    \<Rightarrow> authority_event \<Rightarrow> evidence_error + i64" where
  "event_step scopes actions last_seen sequence seen0 previous ev =
     and_then (ok_or (map_of scopes (ev_scope_id ev)) bad_history) (\<lambda>scope.
     and_then (reject_if (ev_sequence ev \<noteq> sequence
         \<or> is_some_and (ev_observed_at ev) (\<lambda>at. at < previous \<or> at > last_seen)) bad_history) (\<lambda>_.
     let previous' = (case ev_observed_at ev of Some at \<Rightarrow> at | None \<Rightarrow> previous);
         seen = event_key ev # seen0 in
     and_then (reject_if (event_key ev \<in> set seen0) bad_history) (\<lambda>_.
     and_then (reject_if (ev_kind ev \<noteq> EK_ScopeIssued \<and> (ev_scope_id ev, EK_ScopeIssued) \<notin> set seen)
         bad_history) (\<lambda>_.
     and_then (if ev_kind ev \<in> {EK_ScopeIssued, EK_AttemptCharged, EK_DispatchClaimed}
               then walk_issued (Suc (length scopes)) scopes seen scope else Inr ()) (\<lambda>_.
     and_then (case ev_action_id ev of
         Some i \<Rightarrow> and_then (ok_or (map_of actions i) bad_history)
                     (\<lambda>a. reject_if (\<not> action_event_ok seen ev i a) bad_history)
       | None \<Rightarrow> reject_if (\<not> scope_event_correct ev scope) bad_history) (\<lambda>_.
     Inr previous'))))))"

fun event_loop ::
  "(string \<times> scope_record) list \<Rightarrow> (string \<times> action_record) list \<Rightarrow> i64 \<Rightarrow> u64 \<Rightarrow> (string \<times> event_kind) list \<Rightarrow> i64
    \<Rightarrow> authority_event list \<Rightarrow> evidence_error + (string \<times> event_kind) list" where
  "event_loop scopes actions last_seen sequence seen previous [] = Inr seen"
| "event_loop scopes actions last_seen sequence seen previous (ev # evs) =
     and_then (event_step scopes actions last_seen (sequence + 1) seen previous ev) (\<lambda>previous'.
       event_loop scopes actions last_seen (sequence + 1) (event_key ev # seen) previous' evs)"

definition scope_events_present :: "(string \<times> event_kind) list \<Rightarrow> scope_record \<Rightarrow> bool" where
  "scope_events_present seen s =
     ((sr_id s, EK_ScopeIssued) \<in> set seen
      \<and> \<not> (sr_revoked_at s \<noteq> None \<and> (sr_id s, EK_ScopeRevoked) \<notin> set seen))"

definition action_events_present :: "(string \<times> event_kind) list \<Rightarrow> action_record \<Rightarrow> bool" where
  "action_events_present seen a =
     list_all (\<lambda>(required, kind). \<not> (required \<and> (ar_id a, kind) \<notin> set seen))
       [(True, EK_AttemptCharged), (ar_dispatch_claimed_at a \<noteq> None, EK_DispatchClaimed),
        (ar_finished_at a \<noteq> None, EK_AttemptFinished),
        (ar_state a = ES_Unknown \<and> ar_finished_at a = None, EK_Interrupted)]"

definition verify_events ::
  "authority_event list \<Rightarrow> (string \<times> scope_record) list \<Rightarrow> action_record list \<Rightarrow> i64 \<Rightarrow> evidence_error + unit" where
  "verify_events events scopes actions last_seen =
     (let action_map = fold (\<lambda>a. bt_insert (ar_id a) a) actions [] in
      and_then (event_loop scopes action_map last_seen 0 [] 0 events) (\<lambda>seen.
      and_then (try_each (\<lambda>s. reject_if (\<not> scope_events_present seen s) bad_history) (map snd scopes)) (\<lambda>_.
      try_each (\<lambda>a. reject_if (\<not> action_events_present seen a) bad_history) actions)))"

subsection \<open>Validation of retained evidence\<close>

definition bad_ledger :: evidence_error where
  "bad_ledger = EvidenceError ''inconsistent scope ledger''"

text \<open>\<open>slice::windows(2)\<close> with a strict comparison of neighbouring keys.\<close>

fun strictly_ascending :: "('a::linorder) list \<Rightarrow> bool" where
  "strictly_ascending (a # b # xs) = (a < b \<and> strictly_ascending (b # xs))"
| "strictly_ascending _ = True"

definition scope_digest_matches :: "'z scext_scheme \<Rightarrow> scope_record \<Rightarrow> evidence_error + unit" where
  "scope_digest_matches X r =
     and_then (map_err (\<lambda>_. EvidenceError ''invalid grant'') (grant_canonicalized X (sr_grant r))) (\<lambda>g.
     if g \<noteq> sr_grant r then Inl (EvidenceError ''scope digest mismatch'')
     else and_then (map_err (\<lambda>_. EvidenceError ''invalid grant'') (grant_digest X g)) (\<lambda>d.
       reject_if (d \<noteq> sr_digest r) (EvidenceError ''scope digest mismatch'')))"

fun actions_distinct ::
  "'z scext_scheme \<Rightarrow> (string \<times> string \<times> string) list \<Rightarrow> action_record list \<Rightarrow> evidence_error + unit" where
  "actions_distinct X requests [] = Inr ()"
| "actions_distinct X requests (r # rs) =
     and_then (map_err (\<lambda>_. EvidenceError ''invalid action'') (action_canonicalized X (ar_action r))) (\<lambda>a.
     if a \<noteq> ar_action r then Inl (EvidenceError ''action digest or request identity mismatch'')
     else and_then (map_err (\<lambda>_. EvidenceError ''invalid action'') (action_digest X a)) (\<lambda>d.
       and_then (reject_if (d \<noteq> ar_digest r \<or> (pc_scope_id a, pc_subject a, pc_request_id a) \<in> set requests)
           (EvidenceError ''action digest or request identity mismatch'')) (\<lambda>_.
       actions_distinct X ((pc_scope_id a, pc_subject a, pc_request_id a) # requests) rs)))"

definition scope_consistent :: "authority_owner \<Rightarrow> i64 \<Rightarrow> scope_record list \<Rightarrow> bool" where
  "scope_consistent own last_seen records =
     (let scope = hd records in
      \<not> (sg_owner (sr_grant scope) \<noteq> own
         \<or> sr_issued_at scope < 0
         \<or> sr_issued_at scope > last_seen
         \<or> sr_issued_at scope \<ge> sg_expires_at (sr_grant scope)
         \<or> is_some_and (sr_revoked_at scope) (\<lambda>at. at < sr_issued_at scope \<or> at > last_seen)
         \<or> sr_charged_attempts scope > sg_max_charged_attempts (sr_grant scope)
         \<or> fcard (sr_charged_resources scope) > unat (sg_max_distinct_resources (sr_grant scope))
         \<or> list_ex (\<lambda>p. sr_issued_at p > sr_issued_at scope
              \<or> sr_issued_at scope < sg_not_before (sr_grant p)
              \<or> sr_issued_at scope \<ge> sg_expires_at (sr_grant p)
              \<or> is_some_and (sr_revoked_at p) (\<lambda>at. at < sr_issued_at scope)) (tl records)))"

definition check_scope ::
  "'z scext_scheme \<Rightarrow> authority_owner \<Rightarrow> i64 \<Rightarrow> scope_record list \<Rightarrow> scope_record \<Rightarrow> evidence_error + scope_record" where
  "check_scope X own last_seen scopes r =
     and_then (ancestry X scopes (sr_id r)) (\<lambda>records.
     and_then (reject_if (\<not> scope_consistent own last_seen records) bad_ledger) (\<lambda>_. Inr (hd records)))"

text \<open>Whether a chain admits something at a time: every scope open and none revoked before.\<close>

definition chain_open_at :: "scope_record list \<Rightarrow> i64 \<Rightarrow> bool" where
  "chain_open_at chain at =
     (\<not> list_ex (\<lambda>s. at < sg_not_before (sr_grant s) \<or> at \<ge> sg_expires_at (sr_grant s)
            \<or> is_some_and (sr_revoked_at s) (\<lambda>revoked. revoked < at)) chain)"

definition action_times_ok :: "authority_owner \<Rightarrow> i64 \<Rightarrow> scope_record list \<Rightarrow> action_record \<Rightarrow> bool" where
  "action_times_ok own last_seen chain r =
     (\<not> (pc_owner (ar_action r) \<noteq> own
         \<or> ar_reserved_at r > last_seen
         \<or> ar_reserved_at r < sr_issued_at (hd chain)
         \<or> is_some_and (ar_dispatch_claimed_at r) (\<lambda>at.
              at < ar_reserved_at r \<or> at > last_seen \<or> at \<ge> ae_expires_at (ar_evidence r))
         \<or> is_some_and (ar_finished_at r) (\<lambda>at.
              at < (case ar_dispatch_claimed_at r of Some d \<Rightarrow> d | None \<Rightarrow> ar_reserved_at r) \<or> at > last_seen)
         \<or> \<not> chain_open_at chain (ar_reserved_at r)))"

definition action_state_ok :: "action_record \<Rightarrow> bool" where
  "action_state_ok r =
     (case ar_state r of
        ES_Reserved \<Rightarrow> \<not> (ar_dispatch_claimed_at r \<noteq> None \<or> ar_finished_at r \<noteq> None)
      | ES_DispatchClaimed \<Rightarrow> \<not> (ar_dispatch_claimed_at r = None \<or> ar_finished_at r \<noteq> None)
      | ES_ApiAccepted \<Rightarrow> \<not> (ar_dispatch_claimed_at r = None \<or> ar_finished_at r = None)
      | ES_Rejected \<Rightarrow> ar_finished_at r \<noteq> None
      | ES_Unknown \<Rightarrow> True)"

definition check_action ::
  "'z scext_scheme \<Rightarrow> authority_owner \<Rightarrow> i64 \<Rightarrow> scope_record list \<Rightarrow> action_record \<Rightarrow> evidence_error + scope_record list" where
  "check_action X own last_seen scopes r =
     and_then (ancestry X scopes (pc_scope_id (ar_action r))) (\<lambda>chain.
     and_then (map_err (\<lambda>_. EvidenceError ''invalid admission evidence'')
         (evidence_validate_for X (ar_evidence r) (sr_grant (hd chain)) (ar_action r) (ar_reserved_at r))) (\<lambda>_.
     and_then (case ar_dispatch_claimed_at r of
         Some at \<Rightarrow>
           and_then (map_err (\<lambda>_. EvidenceError ''invalid dispatch evidence'')
             (evidence_validate_for X (ar_evidence r) (sr_grant (hd chain)) (ar_action r) at)) (\<lambda>_.
           reject_if (\<not> chain_open_at chain at) bad_ledger)
       | None \<Rightarrow> Inr ()) (\<lambda>_.
     and_then (reject_if (\<not> action_times_ok own last_seen chain r) bad_ledger) (\<lambda>_.
     and_then (reject_if (\<not> action_state_ok r) bad_ledger) (\<lambda>_. Inr chain)))))"

type_synonym charges = "(string \<times> u64 \<times> string fset) list"

definition checked_add_u64 :: "u64 \<Rightarrow> u64 \<Rightarrow> u64 option" where
  "checked_add_u64 a b = (if unat a + unat b < 2 ^ 64 then Some (a + b) else None)"

fun count_chain :: "charges \<Rightarrow> string \<Rightarrow> scope_record list \<Rightarrow> evidence_error + charges" where
  "count_chain expected resource [] = Inr expected"
| "count_chain expected resource (s # chain) =
     and_then (ok_or (map_of expected (sr_id s)) bad_ledger) (\<lambda>(n, resources).
     and_then (ok_or (checked_add_u64 n 1) bad_ledger) (\<lambda>n'.
       count_chain (bt_insert (sr_id s) (n', finsert resource resources) expected) resource chain))"

fun count_actions ::
  "'z scext_scheme \<Rightarrow> authority_owner \<Rightarrow> i64 \<Rightarrow> scope_record list \<Rightarrow> charges \<Rightarrow> action_record list \<Rightarrow> evidence_error + charges" where
  "count_actions X own last_seen scopes expected [] = Inr expected"
| "count_actions X own last_seen scopes expected (r # rs) =
     and_then (check_action X own last_seen scopes r) (\<lambda>chain.
     and_then (count_chain expected (pc_resource (ar_action r)) chain) (\<lambda>expected'.
       count_actions X own last_seen scopes expected' rs))"

definition charge_matches :: "(string \<times> scope_record) list \<Rightarrow> string \<times> u64 \<times> string fset \<Rightarrow> evidence_error + unit" where
  "charge_matches scopes entry =
     (case entry of (i, n, resources) \<Rightarrow>
        and_then (ok_or (map_of scopes i) bad_ledger) (\<lambda>s.
          reject_if (sr_charged_attempts s \<noteq> n \<or> sr_charged_resources s \<noteq> resources) bad_ledger))"

definition evidence_validate :: "'z scext_scheme \<Rightarrow> scope_evidence \<Rightarrow> evidence_error + unit" where
  "evidence_validate X E =
     and_then (reject_if (se_schema_version E \<noteq> 1 \<or> se_last_seen E < 0)
         (EvidenceError ''invalid scope evidence version or time'')) (\<lambda>_.
     and_then (map_err (\<lambda>_. EvidenceError ''invalid scope evidence owner'') (owner_validate (se_owner E))) (\<lambda>_.
     and_then (reject_if (\<not> strictly_ascending (map sr_id (se_scopes E))
           \<or> \<not> strictly_ascending (map ar_id (se_actions E)))
         (EvidenceError ''duplicate or unordered scope evidence records'')) (\<lambda>_.
     and_then (try_each (scope_digest_matches X) (se_scopes E)) (\<lambda>_.
     and_then (actions_distinct X [] (se_actions E)) (\<lambda>_.
     and_then (try_map (check_scope X (se_owner E) (se_last_seen E) (se_scopes E)) (se_scopes E)) (\<lambda>records.
     let expected = fold (\<lambda>s. bt_insert (sr_id s) (0, {||})) records [];
         scopes = fold (\<lambda>s. bt_insert (sr_id s) s) records [] in
     and_then (count_actions X (se_owner E) (se_last_seen E) (se_scopes E) expected (se_actions E)) (\<lambda>counted.
     and_then (try_each (charge_matches scopes) counted) (\<lambda>_.
     verify_events (se_events E) scopes (se_actions E) (se_last_seen E)))))))))"

subsection \<open>Extension of an earlier export\<close>

definition scope_kept :: "scope_record list \<Rightarrow> scope_record \<Rightarrow> evidence_error + unit" where
  "scope_kept scopes old =
     and_then (ok_or (find_record scopes (sr_id old)) (EvidenceError ''retained scope removed'')) (\<lambda>new.
     reject_if (sr_grant new \<noteq> sr_grant old \<or> sr_issued_at new \<noteq> sr_issued_at old
         \<or> is_some_and (sr_revoked_at old) (\<lambda>at. sr_revoked_at new \<noteq> Some at))
       (EvidenceError ''retained scope changed''))"

definition find_action :: "action_record list \<Rightarrow> string \<Rightarrow> action_record option" where
  "find_action actions i = map_option (\<lambda>n. actions ! n) (binary_search (map ar_id actions) i)"

definition action_kept :: "action_record list \<Rightarrow> action_record \<Rightarrow> evidence_error + unit" where
  "action_kept actions old =
     and_then (ok_or (find_action actions (ar_id old)) (EvidenceError ''retained action removed'')) (\<lambda>new.
     reject_if (ar_action new \<noteq> ar_action old \<or> ar_evidence new \<noteq> ar_evidence old
         \<or> ar_reserved_at new \<noteq> ar_reserved_at old
         \<or> is_some_and (ar_dispatch_claimed_at old) (\<lambda>at. ar_dispatch_claimed_at new \<noteq> Some at)
         \<or> (ar_state old \<in> {ES_ApiAccepted, ES_Rejected, ES_Unknown} \<and> new \<noteq> old))
       (EvidenceError ''retained action or consumed outcome changed''))"

definition validate_extension :: "'z scext_scheme \<Rightarrow> scope_evidence \<Rightarrow> scope_evidence \<Rightarrow> evidence_error + unit" where
  "validate_extension X E previous =
     and_then (evidence_validate X E) (\<lambda>_.
     and_then (evidence_validate X previous) (\<lambda>_.
     and_then (reject_if (se_owner E \<noteq> se_owner previous
         \<or> se_last_seen E < se_last_seen previous
         \<or> take (length (se_events previous)) (se_events E) \<noteq> se_events previous
         \<or> list_ex (\<lambda>ev. is_some_and (ev_observed_at ev) (\<lambda>at. at < se_last_seen previous))
             (drop (length (se_events previous)) (se_events E)))
         (EvidenceError ''scope evidence history regressed or changed'')) (\<lambda>_.
     and_then (try_each (scope_kept (se_scopes E)) (se_scopes previous)) (\<lambda>_.
     try_each (action_kept (se_actions E)) (se_actions previous)))))"

subsection \<open>Portable encoding\<close>

definition MAX_EXPORT_BYTES :: nat where "MAX_EXPORT_BYTES = 64 * 1024 * 1024"

text \<open>\<open>serde_json\<close> on exports, and the length of the encoded rows that an export is made of.\<close>

record evext = scext +
  evidence_to_vec :: "scope_evidence \<Rightarrow> string option"
  evidence_from_slice :: "string \<Rightarrow> scope_evidence option"
  scope_row_len :: "scope_record \<Rightarrow> nat"
  action_row_len :: "action_record \<Rightarrow> nat"
  event_row_len :: "authority_event \<Rightarrow> nat"

definition evidence_encode :: "'z evext_scheme \<Rightarrow> scope_evidence \<Rightarrow> evidence_error + string" where
  "evidence_encode X E =
     and_then (evidence_validate X E) (\<lambda>_.
     and_then (ok_or (evidence_to_vec X E) (EvidenceError ''invalid scope export'')) (\<lambda>bytes.
     if length bytes > MAX_EXPORT_BYTES then Inl (EvidenceError ''scope export exceeds bound'') else Inr bytes))"

definition evidence_decode :: "'z evext_scheme \<Rightarrow> string \<Rightarrow> evidence_error + scope_evidence" where
  "evidence_decode X bytes =
     (if length bytes > MAX_EXPORT_BYTES then Inl (EvidenceError ''scope export exceeds bound'')
      else and_then (ok_or (evidence_from_slice X bytes) (EvidenceError ''invalid scope export'')) (\<lambda>E.
             and_then (evidence_validate X E) (\<lambda>_. Inr E)))"

end
