(* ===== verification/Scope_Validity.thy ===== *)
theory Scope_Validity
  imports Scope_Evidence
begin

text \<open>
  What the validator of scope evidence accepts, stated over the two finite maps from ids to records
  instead of over sorted lists, loops and counters: \<open>ledger_sound\<close> for the records and their charges,
  \<open>history\<close> for the events.  The main lemma \<open>evidence_validate_iff\<close> is an equivalence; it is what
  the proofs about the ledger use in both directions.
\<close>

subsection \<open>Maps\<close>

lemma strictly_ascending_iff: "strictly_ascending xs \<longleftrightarrow> sorted_wrt (<) xs"
  by (induction xs rule: strictly_ascending.induct) (auto intro: less_trans)

lemma strictly_ascending_sorted: "strictly_ascending xs \<Longrightarrow> sorted xs \<and> distinct xs"
  by (simp add: strictly_ascending_iff strict_sorted_iff)

lemma map_of_bt_insert [simp]: "map_of (bt_insert k v m) = (map_of m)(k \<mapsto> v)"
  by (induction m) (auto simp: fun_eq_iff)

lemma set_bt_insert: "fst ` set (bt_insert k v m) = insert k (fst ` set m)"
  by (induction k v m rule: bt_insert.induct) (simp_all add: insert_commute)

lemma bt_insert_sorted: "sorted_wrt (<) (map fst m) \<Longrightarrow> sorted_wrt (<) (map fst (bt_insert k v m))"
proof (induction m)
  case (Cons p m)
  obtain k' v' where p: "p = (k', v')" by (cases p)
  have "\<forall>x\<in>fst ` set (bt_insert k v m). k' < x" if "\<not> k < k'" "k \<noteq> k'"
    using Cons.prems that by (auto simp: p set_bt_insert)
  then show ?case using Cons by (auto simp: p intro: less_trans)
qed simp

definition by_key :: "('r \<Rightarrow> 'k) \<Rightarrow> 'r list \<Rightarrow> 'k \<Rightarrow> 'r option" where
  "by_key key rs = map_of (map (\<lambda>r. (key r, r)) rs)"

lemma by_key_Some: "distinct (map key rs) \<Longrightarrow> by_key key rs i = Some r \<longleftrightarrow> r \<in> set rs \<and> key r = i"
  unfolding by_key_def by (induction rs) (auto simp: image_iff)

lemma by_key_None: "by_key key rs i = None \<longleftrightarrow> i \<notin> key ` set rs"
  unfolding by_key_def by (simp add: map_of_eq_None_iff image_image)

lemma map_eqI: "(\<And>x. m i = Some x \<longleftrightarrow> n i = Some x) \<Longrightarrow> m i = n i"
  by (cases "m i"; cases "n i") auto

lemma by_key_Cons [simp]: "by_key key (x # xs) i = (if key x = i then Some x else by_key key xs i)"
  by (simp add: by_key_def)

lemma fold_bt_insert:
  assumes "distinct (map key xs)"
  shows "map_of (fold (\<lambda>x. bt_insert (key x) (val x)) xs m) i =
     (case by_key key xs i of Some x \<Rightarrow> Some (val x) | None \<Rightarrow> map_of m i)"
  using assms
proof (induction xs arbitrary: m)
  case (Cons x xs)
  then have "by_key key xs (key x) = None" by (simp add: by_key_None)
  with Cons show ?case by (auto split: option.splits)
qed (simp add: by_key_def)

lemma fold_bt_insert_map:
  assumes "distinct (map key xs)"
  shows "map_of (fold (\<lambda>x. bt_insert (key x) (val x)) xs []) i = map_option val (by_key key xs i)"
  unfolding fold_bt_insert[OF assms] by (simp split: option.split)

lemma fold_bt_sorted:
  "sorted_wrt (<) (map fst m) \<Longrightarrow> sorted_wrt (<) (map fst (fold (\<lambda>x. bt_insert (key x) (val x)) xs m))"
  by (induction xs arbitrary: m) (simp_all add: bt_insert_sorted)

lemma search_by_key:
  assumes "strictly_ascending (map key rs)"
  shows "map_option (\<lambda>n. rs ! n) (binary_search (map key rs) i) = by_key key rs i"
proof (cases "binary_search (map key rs) i")
  case None
  then have "i \<notin> key ` set rs" using binary_search_None[of "map key rs"] strictly_ascending_sorted[OF assms] by auto
  then show ?thesis using None by_key_None[of key rs i] by simp
next
  case (Some n)
  then have "n < length rs" "key (rs ! n) = i" using binary_search_Some[OF Some] by auto
  then have "by_key key rs i = Some (rs ! n)"
    using by_key_Some[of key rs] strictly_ascending_sorted[OF assms] by auto
  then show ?thesis using Some by simp
qed

lemma find_record_by_key: "strictly_ascending (map sr_id ss) \<Longrightarrow> find_record ss = by_key sr_id ss"
  by (simp add: find_record_def search_by_key fun_eq_iff)

lemma find_action_by_key: "strictly_ascending (map ar_id as) \<Longrightarrow> find_action as = by_key ar_id as"
  by (simp add: find_action_def search_by_key fun_eq_iff)

subsection \<open>Lineages\<close>

text \<open>The scopes from one upwards to its root.\<close>

fun lineage :: "(string \<Rightarrow> scope_record option) \<Rightarrow> string option \<Rightarrow> scope_record list \<Rightarrow> bool" where
  "lineage sc None ch = (ch = [])"
| "lineage sc (Some i) [] = False"
| "lineage sc (Some i) (r # ch) = (sc i = Some r \<and> lineage sc (sg_parent_id (sr_grant r)) ch)"

fun chain_narrows :: "scope_record list \<Rightarrow> bool" where
  "chain_narrows (a # b # ch) = (narrows (sr_grant a) (sr_grant b) \<and> chain_narrows (b # ch))"
| "chain_narrows _ = True"

definition grants_ok :: "'z scext_scheme \<Rightarrow> (string \<Rightarrow> scope_record option) \<Rightarrow> bool" where
  "grants_ok X sc =
     (\<forall>i r. sc i = Some r \<longrightarrow> sr_id r = i \<and> canonical_grant X (sr_grant r)
        \<and> grant_digest X (sr_grant r) = Inr (sr_digest r))"

lemma lineage_unique: "lineage sc p c \<Longrightarrow> lineage sc p d \<Longrightarrow> c = d"
proof (induction sc p c arbitrary: d rule: lineage.induct)
  case (3 sc i r ch)
  then obtain d' where "d = r # d'" "lineage sc (sg_parent_id (sr_grant r)) d'" by (cases d) auto
  then show ?case using 3 by simp
qed auto

lemma lineage_nonempty: "lineage sc (Some i) ch \<Longrightarrow> ch \<noteq> []"
  by (cases ch) auto

lemma lineage_hd: "lineage sc (Some i) ch \<Longrightarrow> sc i = Some (hd ch)"
  by (cases ch) auto

lemma lineage_mem: "lineage sc p ch \<Longrightarrow> r \<in> set ch \<Longrightarrow> \<exists>i. sc i = Some r"
  by (induction sc p ch rule: lineage.induct) auto

lemma lineage_mem_key: "grants_ok X sc \<Longrightarrow> lineage sc p ch \<Longrightarrow> r \<in> set ch \<Longrightarrow> sc (sr_id r) = Some r"
  using lineage_mem unfolding grants_ok_def by blast

lemma lineage_canonical: "grants_ok X sc \<Longrightarrow> lineage sc p ch \<Longrightarrow> r \<in> set ch \<Longrightarrow> canonical_grant X (sr_grant r)"
  using lineage_mem unfolding grants_ok_def by blast

lemma windows_narrow_iff:
  "(\<forall>r\<in>set ch. canonical_grant X (sr_grant r)) \<Longrightarrow> windows_narrow X ch = Inr () \<longleftrightarrow> chain_narrows ch"
  by (induction X ch rule: windows_narrow.induct) (simp_all add: validate_child_canonical)

lemma narrowing_depth:
  "chain_narrows ch \<Longrightarrow> ch \<noteq> [] \<Longrightarrow> r \<in> set (tl ch) \<Longrightarrow>
     unat (sg_delegations_remaining (sr_grant (hd ch))) < unat (sg_delegations_remaining (sr_grant r))"
proof (induction ch rule: chain_narrows.induct)
  case (1 a b ch)
  have ab: "unat (sg_delegations_remaining (sr_grant a)) < unat (sg_delegations_remaining (sr_grant b))"
    using 1(2) by (simp add: narrows_def word_less_nat_alt)
  show ?case
  proof (cases "r = b")
    case False
    then have "unat (sg_delegations_remaining (sr_grant b)) < unat (sg_delegations_remaining (sr_grant r))"
      using 1 by simp
    then show ?thesis using ab by simp
  qed (use ab in simp)
qed auto

lemma narrowing_tl: "chain_narrows (a # ch) \<Longrightarrow> chain_narrows ch"
  by (cases ch) simp_all

lemma narrowing_length:
  "chain_narrows ch \<Longrightarrow> ch \<noteq> [] \<Longrightarrow> (\<forall>r\<in>set ch. unat (sg_delegations_remaining (sr_grant r)) \<le> MAX_DEPTH) \<Longrightarrow>
     length ch + unat (sg_delegations_remaining (sr_grant (hd ch))) \<le> Suc MAX_DEPTH"
proof (induction ch rule: chain_narrows.induct)
  case (1 a b ch)
  then have "unat (sg_delegations_remaining (sr_grant a)) < unat (sg_delegations_remaining (sr_grant b))"
    by (simp add: narrows_def word_less_nat_alt)
  moreover have "length (b # ch) + unat (sg_delegations_remaining (sr_grant b)) \<le> Suc MAX_DEPTH" using 1 by simp
  ultimately show ?case by simp
qed auto

lemma narrowing_distinct: "chain_narrows ch \<Longrightarrow> distinct ch"
proof (induction ch)
  case (Cons a ch)
  have "a \<notin> set ch" using narrowing_depth[OF Cons.prems, of a] by auto
  then show ?case using Cons narrowing_tl by simp
qed simp

lemma lineage_bounded:
  assumes "grants_ok X sc" "lineage sc (Some i) ch" "chain_narrows ch"
  shows "length ch \<le> Suc MAX_DEPTH" "distinct (map sr_id ch)"
proof -
  have c: "\<forall>r\<in>set ch. unat (sg_delegations_remaining (sr_grant r)) \<le> MAX_DEPTH"
    using lineage_canonical[OF assms(1,2)] canonical_limits(3) by blast
  show "length ch \<le> Suc MAX_DEPTH"
    by (rule add_leD1[OF narrowing_length[OF assms(3) lineage_nonempty[OF assms(2)] c]])
  have "inj_on sr_id (set ch)"
  proof (rule inj_onI)
    fix a b assume ab: "a \<in> set ch" "b \<in> set ch" "sr_id a = sr_id b"
    have "Some a = Some b"
      using lineage_mem_key[OF assms(1,2) ab(1)] lineage_mem_key[OF assms(1,2) ab(2)]
      unfolding ab(3) by (rule trans[OF sym])
    then show "a = b" by (rule option.inject[THEN iffD1])
  qed
  then show "distinct (map sr_id ch)" using narrowing_distinct[OF assms(3)] by (simp add: distinct_map)
qed

definition found :: "('k \<Rightarrow> 'e + 'r) \<Rightarrow> 'k \<Rightarrow> 'r option" where
  "found look i = (case look i of Inl _ \<Rightarrow> None | Inr r \<Rightarrow> Some r)"

lemma climb_Inr:
  assumes "\<And>i r. look i = Inr r \<Longrightarrow> sr_id r = i"
  shows "climb look deep result cur = Inr out \<longleftrightarrow>
     (\<exists>ch. out = result @ ch \<and> lineage (found look) cur ch \<and> (ch = [] \<or> length result + length ch \<le> Suc MAX_DEPTH)
        \<and> distinct (map sr_id ch) \<and> set (map sr_id ch) \<inter> set (map sr_id result) = {})"
  using assms
proof (induction look deep result cur arbitrary: out rule: climb.induct)
  case (1 look deep result)
  then show ?case by auto
next
  case (2 look deep result i)
  show ?case
  proof (cases "length result > MAX_DEPTH \<or> list_ex (\<lambda>r. sr_id r = i) result")
    case True
    have "False" if l: "lineage (found look) (Some i) ch" "ch = [] \<or> length result + length ch \<le> Suc MAX_DEPTH"
      "set (map sr_id ch) \<inter> set (map sr_id result) = {}" for ch
    proof -
      obtain r ch' where ch: "ch = r # ch'" "found look i = Some r" using l(1) by (cases ch) auto
      then have "sr_id r = i" using 2(2)[of i r] by (auto simp: found_def split: sum.splits)
      then show False using True l ch by (auto simp: list_ex_iff image_iff)
    qed
    then show ?thesis using True by auto
  next
    case F: False
    show ?thesis
    proof (cases "look i")
      case (Inl e)
      have "\<not> lineage (found look) (Some i) ch" for ch by (cases ch) (simp_all add: found_def Inl)
      then show ?thesis using F Inl by simp
    next
      case (Inr r)
      have i: "sr_id r = i" using 2(2) Inr by blast
      have f: "found look i = Some r" by (simp add: found_def Inr)
      have "climb look deep result (Some i) = Inr out
          \<longleftrightarrow> climb look deep (result @ [r]) (sg_parent_id (sr_grant r)) = Inr out"
        using F Inr by simp
      also have "\<dots> \<longleftrightarrow> (\<exists>ch'. out = (result @ [r]) @ ch' \<and> lineage (found look) (sg_parent_id (sr_grant r)) ch'
          \<and> (ch' = [] \<or> length (result @ [r]) + length ch' \<le> Suc MAX_DEPTH)
          \<and> distinct (map sr_id ch') \<and> set (map sr_id ch') \<inter> set (map sr_id (result @ [r])) = {})"
        using 2(1)[OF F Inr 2(2)] by simp
      also have "\<dots> \<longleftrightarrow> (\<exists>ch. out = result @ ch \<and> lineage (found look) (Some i) ch
          \<and> (ch = [] \<or> length result + length ch \<le> Suc MAX_DEPTH)
          \<and> distinct (map sr_id ch) \<and> set (map sr_id ch) \<inter> set (map sr_id result) = {})" (is "?l \<longleftrightarrow> ?r")
      proof
        assume ?l
        then obtain ch' where c: "out = (result @ [r]) @ ch'" "lineage (found look) (sg_parent_id (sr_grant r)) ch'"
          "ch' = [] \<or> length (result @ [r]) + length ch' \<le> Suc MAX_DEPTH" "distinct (map sr_id ch')"
          "set (map sr_id ch') \<inter> set (map sr_id (result @ [r])) = {}" by blast
        show ?r using c F f i by (intro exI[of _ "r # ch'"]) (auto simp: list_ex_iff image_iff)
      next
        assume ?r
        then obtain ch where c: "out = result @ ch" "lineage (found look) (Some i) ch"
          "ch = [] \<or> length result + length ch \<le> Suc MAX_DEPTH" "distinct (map sr_id ch)"
          "set (map sr_id ch) \<inter> set (map sr_id result) = {}" by blast
        then obtain ch' where "ch = r # ch'" using f by (cases ch) auto
        then show ?l using c by (intro exI[of _ ch']) auto
      qed
      finally show ?thesis .
    qed
  qed
qed

lemma found_ok_or [simp]: "found (\<lambda>j. ok_or (m j) e) = m"
  by (auto simp: found_def fun_eq_iff ok_or_def split: option.splits)

text \<open>On canonical scopes the bound on the depth and the test for cycles never fire: chain_narrows uses up
  the delegations that remain.\<close>

lemma climb_narrow_Inr:
  assumes "grants_ok X (found look)" "\<And>i r. look i = Inr r \<Longrightarrow> sr_id r = i"
  shows "(climb look deep [] (Some i) = Inr ch \<and> windows_narrow X ch = Inr ()) \<longleftrightarrow>
     lineage (found look) (Some i) ch \<and> chain_narrows ch"
proof -
  have c: "climb look deep [] (Some i) = Inr ch \<longleftrightarrow>
      lineage (found look) (Some i) ch \<and> (ch = [] \<or> length ch \<le> Suc MAX_DEPTH) \<and> distinct (map sr_id ch)"
    using climb_Inr[of look deep "[]" "Some i" ch, OF assms(2)] by simp
  show ?thesis
    unfolding c
    using windows_narrow_iff[of ch X] lineage_canonical[OF assms(1), of "Some i" ch] lineage_bounded[OF assms(1), of i ch]
    by blast
qed

lemma ancestry_Inr:
  assumes "strictly_ascending (map sr_id ss)" "grants_ok X (by_key sr_id ss)"
  shows "ancestry X ss i = Inr ch \<longleftrightarrow> lineage (by_key sr_id ss) (Some i) ch \<and> chain_narrows ch"
proof -
  let ?look = "\<lambda>j. ok_or (by_key sr_id ss j) (EvidenceError ''missing scope ancestor'')"
  have k: "sr_id r = j" if "?look j = Inr r" for j r using that assms(2) by (simp add: grants_ok_def)
  have "ancestry X ss i = Inr ch \<longleftrightarrow>
      climb ?look (EvidenceError ''cyclic or overdeep authority chain'') [] (Some i) = Inr ch \<and> windows_narrow X ch = Inr ()"
    unfolding ancestry_def find_record_by_key[OF assms(1)] by (simp only: and_then_Inr map_err_Inr) auto
  also have "\<dots> \<longleftrightarrow> lineage (by_key sr_id ss) (Some i) ch \<and> chain_narrows ch"
    using climb_narrow_Inr[of X ?look, OF _ k] assms(2) by simp
  finally show ?thesis .
qed

subsection \<open>Records\<close>

definition action_admitted ::
  "'z scext_scheme \<Rightarrow> authority_owner \<Rightarrow> i64 \<Rightarrow> scope_record list \<Rightarrow> action_record \<Rightarrow> bool" where
  "action_admitted X own T ch a =
     (evidence_validate_for X (ar_evidence a) (sr_grant (hd ch)) (ar_action a) (ar_reserved_at a) = Inr ()
      \<and> (\<forall>at. ar_dispatch_claimed_at a = Some at \<longrightarrow>
           evidence_validate_for X (ar_evidence a) (sr_grant (hd ch)) (ar_action a) at = Inr () \<and> chain_open_at ch at)
      \<and> action_times_ok own T ch a \<and> action_state_ok a)"

abbreviation scope_of :: "action_record \<Rightarrow> string" where "scope_of a \<equiv> pc_scope_id (ar_action a)"

abbreviation request_of :: "action_record \<Rightarrow> string \<times> string \<times> string" where
  "request_of a \<equiv> (pc_scope_id (ar_action a), pc_subject (ar_action a), pc_request_id (ar_action a))"

definition scopes_ok :: "authority_owner \<Rightarrow> i64 \<Rightarrow> (string \<Rightarrow> scope_record option) \<Rightarrow> bool" where
  "scopes_ok own T sc =
     (\<forall>i r. sc i = Some r \<longrightarrow> (\<exists>ch. lineage sc (Some i) ch \<and> chain_narrows ch \<and> scope_consistent own T ch))"

definition actions_ok ::
  "'z scext_scheme \<Rightarrow> authority_owner \<Rightarrow> i64 \<Rightarrow> (string \<Rightarrow> scope_record option) \<Rightarrow> (string \<Rightarrow> action_record option) \<Rightarrow> bool" where
  "actions_ok X own T sc ac =
     ((\<forall>j a. ac j = Some a \<longrightarrow> ar_id a = j \<and> canonical_action X (ar_action a)
         \<and> action_digest X (ar_action a) = Inr (ar_digest a)
         \<and> (\<exists>ch. lineage sc (Some (scope_of a)) ch \<and> chain_narrows ch \<and> action_admitted X own T ch a))
      \<and> (\<forall>j k a b. ac j = Some a \<and> ac k = Some b \<and> request_of a = request_of b \<longrightarrow> j = k))"

text \<open>The actions charged to a scope: those of the scope itself and of everything delegated from it.\<close>

definition charges_scope :: "(string \<Rightarrow> scope_record option) \<Rightarrow> string \<Rightarrow> action_record \<Rightarrow> bool" where
  "charges_scope sc i a = (\<exists>ch. lineage sc (Some (scope_of a)) ch \<and> i \<in> sr_id ` set ch)"

definition charged_to ::
  "(string \<Rightarrow> scope_record option) \<Rightarrow> (string \<Rightarrow> action_record option) \<Rightarrow> string \<Rightarrow> string set" where
  "charged_to sc ac i = {j. \<exists>a. ac j = Some a \<and> charges_scope sc i a}"

definition charges_ok :: "(string \<Rightarrow> scope_record option) \<Rightarrow> (string \<Rightarrow> action_record option) \<Rightarrow> bool" where
  "charges_ok sc ac =
     (\<forall>i r. sc i = Some r \<longrightarrow> unat (sr_charged_attempts r) = card (charged_to sc ac i)
        \<and> fset (sr_charged_resources r) = (\<lambda>j. pc_resource (ar_action (the (ac j)))) ` charged_to sc ac i)"

lemma check_scope_Inr:
  assumes "strictly_ascending (map sr_id ss)" "grants_ok X (by_key sr_id ss)"
  shows "check_scope X own T ss r = Inr s \<longleftrightarrow>
     (\<exists>ch. lineage (by_key sr_id ss) (Some (sr_id r)) ch \<and> chain_narrows ch \<and> scope_consistent own T ch \<and> s = hd ch)"
  unfolding check_scope_def by (auto simp: ancestry_Inr[OF assms])

lemma check_scopes_Inr:
  assumes "strictly_ascending (map sr_id ss)" "grants_ok X (by_key sr_id ss)"
  shows "try_map (check_scope X own T ss) ss = Inr rs \<longleftrightarrow> scopes_ok own T (by_key sr_id ss) \<and> rs = ss"
proof -
  have d: "distinct (map sr_id ss)" using strictly_ascending_sorted[OF assms(1)] by simp
  have look: "by_key sr_id ss (sr_id r) = Some r" if "r \<in> set ss" for r using by_key_Some[OF d] that by simp
  have self: "check_scope X own T ss r = Inr s \<Longrightarrow> s = r" if "r \<in> set ss" for r s
    using look[OF that] by (auto simp: check_scope_Inr[OF assms] dest: lineage_hd)
  have ok: "scopes_ok own T (by_key sr_id ss) \<longleftrightarrow> (\<forall>r\<in>set ss. check_scope X own T ss r = Inr r)"
  proof -
    have "check_scope X own T ss r = Inr r \<longleftrightarrow>
        (\<exists>ch. lineage (by_key sr_id ss) (Some (sr_id r)) ch \<and> chain_narrows ch \<and> scope_consistent own T ch)"
      if "r \<in> set ss" for r
      using look[OF that] lineage_hd unfolding check_scope_Inr[OF assms] by (metis option.inject)
    then show ?thesis unfolding scopes_ok_def by (auto simp: by_key_Some[OF d])
  qed
  show ?thesis
  proof
    assume "try_map (check_scope X own T ss) ss = Inr rs"
    then have l: "list_all2 (\<lambda>x y. check_scope X own T ss x = Inr y) ss rs" by (simp add: try_map_Inr)
    have "list_all2 (=) ss rs" by (rule list.rel_mono_strong[OF l]) (use self in blast)
    then have "rs = ss" by (simp add: list.rel_eq)
    then show "scopes_ok own T (by_key sr_id ss) \<and> rs = ss" using l ok by (simp add: list_all2_same)
  qed (simp add: ok try_map_Inr list_all2_same)
qed

lemma check_action_Inr:
  assumes "strictly_ascending (map sr_id ss)" "grants_ok X (by_key sr_id ss)"
  shows "check_action X own T ss a = Inr ch \<longleftrightarrow>
     lineage (by_key sr_id ss) (Some (scope_of a)) ch \<and> chain_narrows ch \<and> action_admitted X own T ch a"
  unfolding check_action_def action_admitted_def
  by (cases "ar_dispatch_claimed_at a") (auto simp: ancestry_Inr[OF assms])

lemma actions_distinct_Inr:
  "actions_distinct X requests as = Inr u \<longleftrightarrow>
     (\<forall>a\<in>set as. canonical_action X (ar_action a) \<and> action_digest X (ar_action a) = Inr (ar_digest a))
     \<and> distinct (map request_of as) \<and> set (map request_of as) \<inter> set requests = {}"
proof (induction as arbitrary: requests)
  case (Cons a as)
  have step: "actions_distinct X requests (a # as) = Inr u \<longleftrightarrow>
      canonical_action X (ar_action a) \<and> action_digest X (ar_action a) = Inr (ar_digest a)
      \<and> request_of a \<notin> set requests \<and> actions_distinct X (request_of a # requests) as = Inr u"
    by (cases "action_canonicalized X (ar_action a)"; cases "action_digest X (ar_action a)") auto
  show ?case unfolding step Cons by auto
qed simp

subsection \<open>Counted charges\<close>

lemma unat_add_one: "unat n + 1 < 2 ^ 64 \<Longrightarrow> unat (n + 1 :: u64) = unat n + 1"
  by (subst unat_plus_simple[THEN iffD1]) (simp_all add: no_olen_add_nat)

lemma checked_add_one: "checked_add_u64 n 1 = Some m \<longleftrightarrow> unat n + 1 < 2 ^ 64 \<and> m = n + 1"
  by (auto simp: checked_add_u64_def)

lemma count_chain_Cons:
  "count_chain e res (s # ch) = Inr e' \<longleftrightarrow>
     (\<exists>n rs. map_of e (sr_id s) = Some (n, rs) \<and> unat n + 1 < 2 ^ 64
        \<and> count_chain (bt_insert (sr_id s) (n + 1, finsert res rs) e) res ch = Inr e')"
  by (auto simp: checked_add_one)

declare count_chain.simps(2) [simp del]

lemma count_chain_result:
  assumes "count_chain e res ch = Inr e'" "distinct (map sr_id ch)" "sorted_wrt (<) (map fst e)"
  shows "sorted_wrt (<) (map fst e')
    \<and> (\<forall>i. i \<notin> sr_id ` set ch \<longrightarrow> map_of e' i = map_of e i)
    \<and> (\<forall>i\<in>sr_id ` set ch. \<exists>n rs. map_of e i = Some (n, rs) \<and> unat n + 1 < 2 ^ 64
         \<and> map_of e' i = Some (n + 1, finsert res rs))"
  using assms
proof (induction ch arbitrary: e)
  case (Cons s ch)
  obtain n rs where s: "map_of e (sr_id s) = Some (n, rs)" "unat n + 1 < 2 ^ 64"
    and c: "count_chain (bt_insert (sr_id s) (n + 1, finsert res rs) e) res ch = Inr e'"
    using Cons.prems(1) unfolding count_chain_Cons by blast
  let ?e = "bt_insert (sr_id s) (n + 1, finsert res rs) e"
  have ih: "sorted_wrt (<) (map fst e')
    \<and> (\<forall>i. i \<notin> sr_id ` set ch \<longrightarrow> map_of e' i = map_of ?e i)
    \<and> (\<forall>i\<in>sr_id ` set ch. \<exists>n rs. map_of ?e i = Some (n, rs) \<and> unat n + 1 < 2 ^ 64
         \<and> map_of e' i = Some (n + 1, finsert res rs))"
    by (rule Cons.IH[OF c _ bt_insert_sorted[OF Cons.prems(3)]]) (use Cons.prems(2) in simp)
  have ns: "sr_id s \<notin> sr_id ` set ch" using Cons.prems(2) by simp
  have "\<exists>n rs. map_of e i = Some (n, rs) \<and> unat n + 1 < 2 ^ 64 \<and> map_of e' i = Some (n + 1, finsert res rs)"
    if i: "i \<in> sr_id ` set (s # ch)" for i
  proof (cases "i = sr_id s")
    case True
    then show ?thesis using s ih ns by simp
  next
    case False
    then have "i \<in> sr_id ` set ch" and e: "map_of ?e i = map_of e i" using i by simp_all
    then show ?thesis using bspec[OF conjunct2[OF conjunct2[OF ih]], of i] unfolding e by blast
  qed
  moreover have "map_of e' i = map_of e i" if "i \<notin> sr_id ` set (s # ch)" for i using ih that by simp
  ultimately show ?case using ih by blast
qed simp

lemma count_chain_succeeds:
  assumes "distinct (map sr_id ch)" "\<forall>s\<in>set ch. \<exists>n rs. map_of e (sr_id s) = Some (n, rs) \<and> unat n + 1 < 2 ^ 64"
  shows "\<exists>e'. count_chain e res ch = Inr e'"
  using assms
proof (induction ch arbitrary: e)
  case (Cons s ch)
  obtain n rs where s: "map_of e (sr_id s) = Some (n, rs)" "unat n + 1 < 2 ^ 64" using Cons.prems(2) by auto
  have "\<exists>e'. count_chain (bt_insert (sr_id s) (n + 1, finsert res rs) e) res ch = Inr e'"
  proof (rule Cons.IH)
    show "distinct (map sr_id ch)" using Cons.prems(1) by simp
    show "\<forall>t\<in>set ch. \<exists>m ts. map_of (bt_insert (sr_id s) (n + 1, finsert res rs) e) (sr_id t) = Some (m, ts)
        \<and> unat m + 1 < 2 ^ 64"
    proof
      fix t assume t: "t \<in> set ch"
      then have "sr_id t \<noteq> sr_id s" using Cons.prems(1) by (force simp: image_iff)
      then show "\<exists>m ts. map_of (bt_insert (sr_id s) (n + 1, finsert res rs) e) (sr_id t) = Some (m, ts)
          \<and> unat m + 1 < 2 ^ 64"
        using Cons.prems(2) t by simp
    qed
  qed
  then show ?case unfolding count_chain_Cons using s by blast
qed simp

abbreviation resource_of :: "action_record \<Rightarrow> string" where "resource_of a \<equiv> pc_resource (ar_action a)"

definition tally :: "(string \<Rightarrow> scope_record option) \<Rightarrow> charges \<Rightarrow> action_record list \<Rightarrow> bool" where
  "tally sc e as =
     (sorted_wrt (<) (map fst e) \<and> (\<forall>i. map_of e i = None \<longleftrightarrow> sc i = None)
      \<and> (\<forall>i n rs. map_of e i = Some (n, rs) \<longrightarrow>
           unat n = length (filter (charges_scope sc i) as) \<and> fset rs = resource_of ` set (filter (charges_scope sc i) as)))"

lemma charges_lineage: "lineage sc (Some (scope_of a)) ch \<Longrightarrow> charges_scope sc i a \<longleftrightarrow> i \<in> sr_id ` set ch"
  unfolding charges_scope_def using lineage_unique by metis

lemma tally_step:
  assumes t: "tally sc e as" and g: "grants_ok X sc" and l: "lineage sc (Some (scope_of a)) ch" "chain_narrows ch"
    and c: "count_chain e (resource_of a) ch = Inr e'"
  shows "tally sc e' (as @ [a])"
proof -
  note r = count_chain_result[OF c lineage_bounded(2)[OF g l]]
  have s: "sorted_wrt (<) (map fst e)" using t by (simp add: tally_def)
  note r = r[OF s]
  have "map_of e' i = None \<longleftrightarrow> sc i = None" for i
  proof -
    have "map_of e' i = None \<longleftrightarrow> map_of e i = None"
    proof (cases "i \<in> sr_id ` set ch")
      case True
      then show ?thesis using bspec[OF conjunct2[OF conjunct2[OF r]], of i] by auto
    next
      case False
      then show ?thesis using r by simp
    qed
    moreover have "map_of e i = None \<longleftrightarrow> sc i = None" using t by (simp add: tally_def)
    ultimately show ?thesis by (rule trans)
  qed
  moreover have "unat n = length (filter (charges_scope sc i) (as @ [a])) \<and> fset rs = resource_of ` set (filter (charges_scope sc i) (as @ [a]))"
    if m: "map_of e' i = Some (n, rs)" for i n rs
  proof (cases "i \<in> sr_id ` set ch")
    case True
    then obtain n0 rs0 where "map_of e i = Some (n0, rs0)" "unat n0 + 1 < 2 ^ 64" "n = n0 + 1" "rs = finsert (resource_of a) rs0"
      using r m by auto
    moreover have "charges_scope sc i a" using True charges_lineage[OF l(1)] by blast
    ultimately show ?thesis using t unat_add_one[of n0] unfolding tally_def by auto
  next
    case False
    then have "map_of e i = Some (n, rs)" "\<not> charges_scope sc i a" using r m charges_lineage[OF l(1)] by auto
    then show ?thesis using t unfolding tally_def by auto
  qed
  ultimately show ?thesis using r unfolding tally_def by blast
qed

lemma count_actions_result:
  assumes "strictly_ascending (map sr_id ss)" "grants_ok X (by_key sr_id ss)"
    and "count_actions X own T ss e as = Inr e'" "tally (by_key sr_id ss) e prev"
  shows "tally (by_key sr_id ss) e' (prev @ as)
    \<and> (\<forall>a\<in>set as. \<exists>ch. lineage (by_key sr_id ss) (Some (scope_of a)) ch \<and> chain_narrows ch \<and> action_admitted X own T ch a)"
  using assms(3,4)
proof (induction as arbitrary: e prev)
  case (Cons a as)
  obtain ch e1 where ch: "check_action X own T ss a = Inr ch" and e1: "count_chain e (resource_of a) ch = Inr e1"
    and rest: "count_actions X own T ss e1 as = Inr e'"
    using Cons.prems(1) by auto
  note l = ch[unfolded check_action_Inr[OF assms(1,2)]]
  have "tally (by_key sr_id ss) e1 (prev @ [a])"
    by (rule tally_step[OF Cons.prems(2) assms(2) conjunct1[OF l] conjunct1[OF conjunct2[OF l]] e1])
  then show ?case using Cons.IH[OF rest, of "prev @ [a]"] l by auto
qed simp

lemma count_actions_succeeds:
  assumes "strictly_ascending (map sr_id ss)" "grants_ok X (by_key sr_id ss)"
    and "\<forall>a\<in>set as. \<exists>ch. lineage (by_key sr_id ss) (Some (scope_of a)) ch \<and> chain_narrows ch \<and> action_admitted X own T ch a"
    and "\<forall>i. length (filter (charges_scope (by_key sr_id ss) i) (prev @ as)) < 2 ^ 64" "tally (by_key sr_id ss) e prev"
  shows "\<exists>e'. count_actions X own T ss e as = Inr e'"
  using assms(3-5)
proof (induction as arbitrary: e prev)
  case (Cons a as)
  obtain ch where l: "lineage (by_key sr_id ss) (Some (scope_of a)) ch" "chain_narrows ch" "action_admitted X own T ch a"
    using Cons.prems(1) by auto
  have "\<exists>n rs. map_of e (sr_id s) = Some (n, rs) \<and> unat n + 1 < 2 ^ 64" if s: "s \<in> set ch" for s
  proof -
    have "by_key sr_id ss (sr_id s) \<noteq> None" using lineage_mem_key[OF assms(2) l(1) s] by simp
    then obtain n rs where n: "map_of e (sr_id s) = Some (n, rs)"
      using Cons.prems(3) unfolding tally_def by (metis not_None_eq surj_pair)
    then have "unat n = length (filter (charges_scope (by_key sr_id ss) (sr_id s)) prev)"
      using Cons.prems(3) unfolding tally_def by blast
    moreover have "charges_scope (by_key sr_id ss) (sr_id s) a" using charges_lineage[OF l(1)] s by blast
    ultimately show ?thesis using n Cons.prems(2)[rule_format, of "sr_id s"] by auto
  qed
  then obtain e1 where e1: "count_chain e (resource_of a) ch = Inr e1"
    using count_chain_succeeds[OF lineage_bounded(2)[OF assms(2) l(1,2)]] by blast
  have "tally (by_key sr_id ss) e1 (prev @ [a])" by (rule tally_step[OF Cons.prems(3) assms(2) l(1,2) e1])
  then have "\<exists>e'. count_actions X own T ss e1 as = Inr e'"
    using Cons.prems(1,2) by (intro Cons.IH[of "prev @ [a]"]) auto
  moreover have "check_action X own T ss a = Inr ch" using check_action_Inr[OF assms(1,2)] l by blast
  ultimately show ?case using e1 by auto
qed simp

subsection \<open>Events\<close>

definition chain_in_force :: "(string \<times> event_kind) list \<Rightarrow> scope_record list \<Rightarrow> bool" where
  "chain_in_force seen ch =
     (\<forall>r\<in>set ch. (sr_id r, EK_ScopeRevoked) \<notin> set seen \<and> (sr_id r, EK_ScopeIssued) \<in> set seen)"

lemma walk_issued_iff:
  assumes "lineage (map_of scopes) (sg_parent_id (sr_grant s)) ch" "length ch < n"
  shows "walk_issued n scopes seen s = (if chain_in_force seen (s # ch) then Inr () else Inl bad_history)"
  using assms
proof (induction n arbitrary: s ch)
  case (Suc n)
  show ?case
  proof (cases "sg_parent_id (sr_grant s)")
    case None
    then show ?thesis using Suc.prems(1) by (auto simp: chain_in_force_def)
  next
    case (Some p)
    then obtain q ch' where ch: "ch = q # ch'" "map_of scopes p = Some q"
      "lineage (map_of scopes) (sg_parent_id (sr_grant q)) ch'"
      using Suc.prems(1) by (cases ch) auto
    then have "walk_issued n scopes seen q = (if chain_in_force seen ch then Inr () else Inl bad_history)"
      using Suc.IH[of q ch'] Suc.prems(2) by simp
    then show ?thesis using Some ch by (auto simp: chain_in_force_def)
  qed
qed simp

definition rooted :: "(string \<times> scope_record) list \<Rightarrow> bool" where
  "rooted scopes = (\<forall>i r. map_of scopes i = Some r \<longrightarrow>
     (\<exists>ch. lineage (map_of scopes) (Some i) ch \<and> length ch \<le> length scopes))"

lemma rootedI:
  assumes g: "grants_ok X (map_of scopes)"
    and l: "\<And>i r. map_of scopes i = Some r \<Longrightarrow> \<exists>ch. lineage (map_of scopes) (Some i) ch \<and> chain_narrows ch"
  shows "rooted scopes"
  unfolding rooted_def
proof (intro allI impI)
  fix i r assume "map_of scopes i = Some r"
  then obtain ch where ch: "lineage (map_of scopes) (Some i) ch" "chain_narrows ch" using l by blast
  have "sr_id ` set ch \<subseteq> fst ` set scopes"
  proof
    fix k assume "k \<in> sr_id ` set ch"
    then obtain s where "s \<in> set ch" "k = sr_id s" by blast
    then have "map_of scopes k = Some s" using lineage_mem_key[OF g ch(1)] by blast
    then show "k \<in> fst ` set scopes" by (metis map_of_eq_None_iff option.distinct(1))
  qed
  then have "card (sr_id ` set ch) \<le> card (fst ` set scopes)" by (intro card_mono) simp_all
  moreover have "card (sr_id ` set ch) = length ch"
    using lineage_bounded(2)[OF g ch] distinct_card by fastforce
  moreover have "card (fst ` set scopes) \<le> length scopes"
    using card_length[of "map fst scopes"] by simp
  ultimately show "\<exists>ch. lineage (map_of scopes) (Some i) ch \<and> length ch \<le> length scopes"
    using ch(1) order_trans by metis
qed

definition event_fits ::
  "(string \<Rightarrow> scope_record option) \<Rightarrow> (string \<Rightarrow> action_record option) \<Rightarrow> i64 \<Rightarrow> u64 \<Rightarrow> (string \<times> event_kind) list \<Rightarrow> i64
    \<Rightarrow> authority_event \<Rightarrow> bool" where
  "event_fits sc ac T sequence seen0 previous ev =
     (let seen = event_key ev # seen0 in
      ev_sequence ev = sequence
      \<and> (\<forall>at. ev_observed_at ev = Some at \<longrightarrow> previous \<le> at \<and> at \<le> T)
      \<and> event_key ev \<notin> set seen0
      \<and> (ev_kind ev \<noteq> EK_ScopeIssued \<longrightarrow> (ev_scope_id ev, EK_ScopeIssued) \<in> set seen)
      \<and> (\<exists>s. sc (ev_scope_id ev) = Some s
           \<and> (ev_kind ev \<in> {EK_ScopeIssued, EK_AttemptCharged, EK_DispatchClaimed} \<longrightarrow>
                (\<exists>ch. lineage sc (Some (ev_scope_id ev)) ch \<and> chain_in_force seen ch))
           \<and> (case ev_action_id ev of
                Some i \<Rightarrow> (\<exists>a. ac i = Some a \<and> action_event_ok seen ev i a)
              | None \<Rightarrow> scope_event_correct ev s)))"

definition later :: "i64 \<Rightarrow> authority_event \<Rightarrow> i64" where
  "later previous ev = (case ev_observed_at ev of Some at \<Rightarrow> at | None \<Rightarrow> previous)"

lemma walk_lineage:
  assumes "rooted scopes" "map_of scopes i = Some s"
  obtains ch where "lineage (map_of scopes) (Some i) ch"
    "walk_issued (Suc (length scopes)) scopes seen s = (if chain_in_force seen ch then Inr () else Inl bad_history)"
proof -
  obtain ch where ch: "lineage (map_of scopes) (Some i) ch" "length ch \<le> length scopes"
    using assms unfolding rooted_def by blast
  then obtain ch' where c: "ch = s # ch'" "lineage (map_of scopes) (sg_parent_id (sr_grant s)) ch'"
    using assms(2) by (cases ch) auto
  then have "length ch' < Suc (length scopes)" using ch(2) by simp
  note w = walk_issued_iff[OF c(2) this, of seen]
  show ?thesis by (rule that[OF ch(1)]) (unfold w c(1), rule refl)
qed

lemma event_step_Inr:
  assumes "rooted scopes"
  shows "event_step scopes actions T sequence seen0 previous ev = Inr p \<longleftrightarrow>
     event_fits (map_of scopes) (map_of actions) T sequence seen0 previous ev \<and> p = later previous ev"
proof (cases "map_of scopes (ev_scope_id ev)")
  case None
  then show ?thesis by (simp add: event_step_def event_fits_def Let_def)
next
  case (Some s)
  obtain ch where ch: "lineage (map_of scopes) (Some (ev_scope_id ev)) ch"
    and w: "walk_issued (Suc (length scopes)) scopes (event_key ev # seen0) s
        = (if chain_in_force (event_key ev # seen0) ch then Inr () else Inl bad_history)"
    by (rule walk_lineage[OF assms Some])
  have ex: "(\<exists>c. lineage (map_of scopes) (Some (ev_scope_id ev)) c \<and> chain_in_force (event_key ev # seen0) c)
      \<longleftrightarrow> chain_in_force (event_key ev # seen0) ch"
    using ch lineage_unique by blast
  show ?thesis
    unfolding event_step_def event_fits_def Let_def Some ok_or_simps and_then_simps w ex later_def
    by (simp only: and_then_Inr reject_if_Inr is_some_and_iff)
      (cases "ev_action_id ev"; cases "ev_kind ev"; simp; fastforce)
qed

lemma event_step_returns:
  assumes "rooted scopes"
  shows "event_step scopes actions T sequence seen0 previous ev \<noteq> Inl Diverges"
proof (cases "map_of scopes (ev_scope_id ev)")
  case None
  then show ?thesis by (simp add: event_step_def bad_history_def)
next
  case (Some s)
  obtain ch where w: "walk_issued (Suc (length scopes)) scopes (event_key ev # seen0) s
        = (if chain_in_force (event_key ev # seen0) ch then Inr () else Inl bad_history)"
    by (rule walk_lineage[OF assms Some])
  show ?thesis
    unfolding event_step_def Let_def Some ok_or_simps and_then_simps w
    by (auto simp: bad_history_def split: if_splits option.splits)
qed

fun history ::
  "(string \<Rightarrow> scope_record option) \<Rightarrow> (string \<Rightarrow> action_record option) \<Rightarrow> i64 \<Rightarrow> u64 \<Rightarrow> (string \<times> event_kind) list \<Rightarrow> i64
    \<Rightarrow> authority_event list \<Rightarrow> bool" where
  "history sc ac T sequence seen previous [] = True"
| "history sc ac T sequence seen previous (ev # evs) =
     (event_fits sc ac T (sequence + 1) seen previous ev
      \<and> history sc ac T (sequence + 1) (event_key ev # seen) (later previous ev) evs)"

lemma event_loop_Inr:
  assumes "rooted scopes"
  shows "event_loop scopes actions T sequence seen previous evs = Inr out \<longleftrightarrow>
     history (map_of scopes) (map_of actions) T sequence seen previous evs \<and> out = rev (map event_key evs) @ seen"
proof (induction evs arbitrary: sequence seen previous)
  case (Cons ev evs)
  have "event_loop scopes actions T sequence seen previous (ev # evs) = Inr out \<longleftrightarrow>
      (\<exists>p. event_step scopes actions T (sequence + 1) seen previous ev = Inr p
        \<and> event_loop scopes actions T (sequence + 1) (event_key ev # seen) p evs = Inr out)"
    by (simp only: event_loop.simps and_then_Inr)
  then show ?case unfolding event_step_Inr[OF assms] Cons by auto
qed auto

lemma event_loop_returns:
  "rooted scopes \<Longrightarrow> event_loop scopes actions T sequence seen previous evs \<noteq> Inl Diverges"
proof (induction evs arbitrary: sequence seen previous)
  case (Cons ev evs)
  then show ?case
    using event_step_returns[OF Cons.prems, of actions T "sequence + 1" seen previous ev]
    by (cases "event_step scopes actions T (sequence + 1) seen previous ev") auto
qed simp

definition keys_of :: "authority_event list \<Rightarrow> (string \<times> event_kind) list" where
  "keys_of evs = rev (map event_key evs)"

definition events_present ::
  "(string \<Rightarrow> scope_record option) \<Rightarrow> (string \<Rightarrow> action_record option) \<Rightarrow> authority_event list \<Rightarrow> bool" where
  "events_present sc ac evs =
     ((\<forall>i s. sc i = Some s \<longrightarrow> scope_events_present (keys_of evs) s)
      \<and> (\<forall>j a. ac j = Some a \<longrightarrow> action_events_present (keys_of evs) a))"

lemma verify_events_Inr:
  assumes "rooted scopes" "distinct (map fst scopes)" "distinct (map ar_id as)"
  shows "verify_events evs scopes as T = Inr u \<longleftrightarrow>
     history (map_of scopes) (by_key ar_id as) T 0 [] 0 evs \<and> events_present (map_of scopes) (by_key ar_id as) evs"
proof -
  have m: "map_of (fold (\<lambda>a. bt_insert (ar_id a) a) as []) = by_key ar_id as"
    using fold_bt_insert_map[OF assms(3), of "\<lambda>a. a"] by (auto simp: fun_eq_iff option.map_ident)
  have v: "(\<forall>s\<in>set (map snd scopes). P s) \<longleftrightarrow> (\<forall>i s. map_of scopes i = Some s \<longrightarrow> P s)" for P
    using assms(2) by (auto simp: map_of_eq_Some_iff)
  have a: "(\<forall>a\<in>set as. P a) \<longleftrightarrow> (\<forall>j a. by_key ar_id as j = Some a \<longrightarrow> P a)" for P
    by (auto simp: by_key_Some[OF assms(3)])
  show ?thesis
    unfolding verify_events_def Let_def and_then_Inr try_each_Inr reject_if_Inr event_loop_Inr[OF assms(1)] m
      events_present_def keys_of_def v a
    by auto
qed

subsection \<open>The validator, as an equivalence\<close>

definition ledger_sound ::
  "'z scext_scheme \<Rightarrow> authority_owner \<Rightarrow> i64 \<Rightarrow> (string \<Rightarrow> scope_record option) \<Rightarrow> (string \<Rightarrow> action_record option)
    \<Rightarrow> authority_event list \<Rightarrow> bool" where
  "ledger_sound X own T sc ac evs =
     (owner_validate own = Inr () \<and> 0 \<le> T \<and> grants_ok X sc \<and> scopes_ok own T sc \<and> actions_ok X own T sc ac
      \<and> charges_ok sc ac \<and> history sc ac T 0 [] 0 evs \<and> events_present sc ac evs)"

lemma scope_digest_matches_Inr:
  "scope_digest_matches X r = Inr u \<longleftrightarrow> canonical_grant X (sr_grant r) \<and> grant_digest X (sr_grant r) = Inr (sr_digest r)"
  by (cases "grant_canonicalized X (sr_grant r)"; cases "grant_digest X (sr_grant r)")
    (auto simp: scope_digest_matches_def)

lemma digests_grants_ok:
  "distinct (map sr_id ss) \<Longrightarrow>
     (\<forall>r\<in>set ss. scope_digest_matches X r = Inr ()) \<longleftrightarrow> grants_ok X (by_key sr_id ss)"
  by (auto simp: grants_ok_def scope_digest_matches_Inr by_key_Some)

lemma actions_ok_by_key:
  assumes "distinct (map ar_id as)"
  shows "actions_ok X own T sc (by_key ar_id as) \<longleftrightarrow>
     actions_distinct X [] as = Inr ()
     \<and> (\<forall>a\<in>set as. \<exists>ch. lineage sc (Some (scope_of a)) ch \<and> chain_narrows ch \<and> action_admitted X own T ch a)"
proof -
  have d: "distinct as" using assms by (simp add: distinct_map)
  have i: "ar_id a = ar_id b \<longleftrightarrow> a = b" if "a \<in> set as" "b \<in> set as" for a b
    using assms that unfolding distinct_map inj_on_def by blast
  have q: "distinct (map request_of as) \<longleftrightarrow>
      (\<forall>a b. a \<in> set as \<and> b \<in> set as \<and> request_of a = request_of b \<longrightarrow> ar_id a = ar_id b)"
    using d i unfolding distinct_map inj_on_def by blast
  show ?thesis
    unfolding actions_ok_def actions_distinct_Inr by_key_Some[OF assms] q
    by (simp only: list.set Int_empty_right simp_thms) blast
qed

lemma charged_to_by_key:
  assumes "distinct (map ar_id as)"
  shows "card (charged_to sc (by_key ar_id as) i) = length (filter (charges_scope sc i) as)"
    "(\<lambda>j. resource_of (the (by_key ar_id as j))) ` charged_to sc (by_key ar_id as) i
       = resource_of ` set (filter (charges_scope sc i) as)"
proof -
  have c: "charged_to sc (by_key ar_id as) i = ar_id ` set (filter (charges_scope sc i) as)"
    by (auto simp: charged_to_def by_key_Some[OF assms])
  have d: "distinct as" "inj_on ar_id (set as)" using assms by (simp_all add: distinct_map)
  have "card (ar_id ` set (filter (charges_scope sc i) as)) = card (set (filter (charges_scope sc i) as))"
    by (rule card_image) (rule inj_on_subset[OF d(2)], simp)
  then show "card (charged_to sc (by_key ar_id as) i) = length (filter (charges_scope sc i) as)"
    unfolding c using distinct_card[OF distinct_filter[OF d(1)]] by simp
  have "by_key ar_id as (ar_id a) = Some a" if "a \<in> set as" for a using by_key_Some[OF assms] that by simp
  then show "(\<lambda>j. resource_of (the (by_key ar_id as j))) ` charged_to sc (by_key ar_id as) i
       = resource_of ` set (filter (charges_scope sc i) as)"
    unfolding c image_image by (intro image_cong) auto
qed

lemma charges_ok_tally:
  assumes t: "tally sc e as" and d: "distinct (map ar_id as)" and s: "\<And>i. map_of scopes i = sc i"
  shows "(\<forall>p\<in>set e. charge_matches scopes p = Inr ()) \<longleftrightarrow> charges_ok sc (by_key ar_id as)"
proof -
  have de: "distinct (map fst e)" using t unfolding tally_def by (simp add: strict_sorted_iff)
  have k: "charges_ok sc (by_key ar_id as) \<longleftrightarrow> (\<forall>i r. sc i = Some r \<longrightarrow>
      unat (sr_charged_attempts r) = length (filter (charges_scope sc i) as)
      \<and> fset (sr_charged_resources r) = resource_of ` set (filter (charges_scope sc i) as))"
    unfolding charges_ok_def charged_to_by_key[OF d] ..
  have "(\<forall>p\<in>set e. charge_matches scopes p = Inr ()) \<longleftrightarrow>
      (\<forall>i n rs. map_of e i = Some (n, rs) \<longrightarrow> charge_matches scopes (i, n, rs) = Inr ())"
    using de by (auto simp: map_of_eq_Some_iff)
  also have "\<dots> \<longleftrightarrow> (\<forall>i r. sc i = Some r \<longrightarrow> (\<forall>n rs. map_of e i = Some (n, rs) \<longrightarrow>
      sr_charged_attempts r = n \<and> sr_charged_resources r = rs))"
  proof -
    have cm: "charge_matches scopes (i, n, rs) = Inr () \<longleftrightarrow>
        (\<exists>r. sc i = Some r \<and> sr_charged_attempts r = n \<and> sr_charged_resources r = rs)" for i n rs
      by (auto simp: charge_matches_def s)
    have dom: "\<exists>r. sc i = Some r" if "map_of e i = Some p" for i p
      using t that unfolding tally_def by (metis not_None_eq)
    show ?thesis unfolding cm
    proof (intro iffI allI impI)
      fix i r n rs assume a: "\<forall>i n rs. map_of e i = Some (n, rs) \<longrightarrow>
          (\<exists>r. sc i = Some r \<and> sr_charged_attempts r = n \<and> sr_charged_resources r = rs)"
        and r: "sc i = Some r" and e: "map_of e i = Some (n, rs)"
      show "sr_charged_attempts r = n \<and> sr_charged_resources r = rs" using a[rule_format, OF e] r by simp
    next
      fix i n rs assume a: "\<forall>i r. sc i = Some r \<longrightarrow> (\<forall>n rs. map_of e i = Some (n, rs) \<longrightarrow>
          sr_charged_attempts r = n \<and> sr_charged_resources r = rs)" and e: "map_of e i = Some (n, rs)"
      then show "\<exists>r. sc i = Some r \<and> sr_charged_attempts r = n \<and> sr_charged_resources r = rs"
        using dom[OF e] by blast
    qed
  qed
  also have "\<dots> \<longleftrightarrow> charges_ok sc (by_key ar_id as)"
    unfolding k
  proof (intro iff_allI imp_cong refl)
    fix i r assume "sc i = Some r"
    then obtain n rs where e: "map_of e i = Some (n, rs)" using t unfolding tally_def by (metis not_None_eq surj_pair)
    then have n: "unat n = length (filter (charges_scope sc i) as)" "fset rs = resource_of ` set (filter (charges_scope sc i) as)"
      using t unfolding tally_def by blast+
    show "(\<forall>n rs. map_of e i = Some (n, rs) \<longrightarrow> sr_charged_attempts r = n \<and> sr_charged_resources r = rs) \<longleftrightarrow>
        unat (sr_charged_attempts r) = length (filter (charges_scope sc i) as)
        \<and> fset (sr_charged_resources r) = resource_of ` set (filter (charges_scope sc i) as)"
      unfolding n[symmetric] fset_inject using e by (auto simp: word_unat_eq_iff)
  qed
  finally show ?thesis .
qed

lemma tally_start:
  assumes "distinct (map sr_id ss)"
  shows "tally (by_key sr_id ss) (fold (\<lambda>s. bt_insert (sr_id s) (0, {||})) ss []) []"
  using fold_bt_insert_map[OF assms, of "\<lambda>_. (0 :: u64, {||} :: string fset)"]
    fold_bt_sorted[of "[]" sr_id "\<lambda>_. (0 :: u64, {||} :: string fset)" ss]
  by (auto simp: tally_def)

lemma scope_table:
  assumes "distinct (map sr_id ss)"
  shows "map_of (fold (\<lambda>s. bt_insert (sr_id s) s) ss []) = by_key sr_id ss"
    "distinct (map fst (fold (\<lambda>s. bt_insert (sr_id s) s) ss []))"
  using fold_bt_insert_map[OF assms, of "\<lambda>s. s"] fold_bt_sorted[of "[]" sr_id "\<lambda>s. s" ss]
  by (auto simp: fun_eq_iff option.map_ident strict_sorted_iff)

lemma scope_table_rooted:
  assumes "distinct (map sr_id ss)" "grants_ok X (by_key sr_id ss)" "scopes_ok own T (by_key sr_id ss)"
  shows "rooted (fold (\<lambda>s. bt_insert (sr_id s) s) ss [])"
proof (rule rootedI)
  show "grants_ok X (map_of (fold (\<lambda>s. bt_insert (sr_id s) s) ss []))" unfolding scope_table(1)[OF assms(1)] by (rule assms(2))
next
  fix i r assume "map_of (fold (\<lambda>s. bt_insert (sr_id s) s) ss []) i = Some r"
  then show "\<exists>ch. lineage (map_of (fold (\<lambda>s. bt_insert (sr_id s) s) ss [])) (Some i) ch \<and> chain_narrows ch"
    using assms(3) unfolding scope_table(1)[OF assms(1)] scopes_ok_def by blast
qed

text \<open>The part of the validator after the order of the records was checked.\<close>

lemma validate_tail:
  assumes sa: "strictly_ascending (map sr_id ss)" and ia: "strictly_ascending (map ar_id as)"
    and g: "grants_ok X (by_key sr_id ss)" and s: "scopes_ok own T (by_key sr_id ss)"
  shows "(let expected = fold (\<lambda>s. bt_insert (sr_id s) (0, {||})) ss []; scopes = fold (\<lambda>s. bt_insert (sr_id s) s) ss [] in
      and_then (count_actions X own T ss expected as) (\<lambda>counted.
      and_then (try_each (charge_matches scopes) counted) (\<lambda>_. verify_events evs scopes as T))) = Inr u \<longleftrightarrow>
     (\<forall>a\<in>set as. \<exists>ch. lineage (by_key sr_id ss) (Some (scope_of a)) ch \<and> chain_narrows ch \<and> action_admitted X own T ch a)
     \<and> charges_ok (by_key sr_id ss) (by_key ar_id as)
     \<and> history (by_key sr_id ss) (by_key ar_id as) T 0 [] 0 evs
     \<and> events_present (by_key sr_id ss) (by_key ar_id as) evs" (is "?l \<longleftrightarrow> ?a \<and> ?c \<and> ?h \<and> ?p")
proof -
  let ?sc = "by_key sr_id ss"
  let ?e = "fold (\<lambda>s. bt_insert (sr_id s) (0::u64, {||}::string fset)) ss []"
  let ?scopes = "fold (\<lambda>s. bt_insert (sr_id s) s) ss []"
  have ds: "distinct (map sr_id ss)" and da: "distinct (map ar_id as)"
    using strictly_ascending_sorted[OF sa] strictly_ascending_sorted[OF ia] by simp_all
  note table = scope_table[OF ds]
  note ev = verify_events_Inr[OF scope_table_rooted[OF ds g s] table(2) da, unfolded table(1)]
  have l: "?l \<longleftrightarrow> (\<exists>e. count_actions X own T ss ?e as = Inr e \<and> (\<forall>p\<in>set e. charge_matches ?scopes p = Inr ()) \<and> ?h \<and> ?p)"
    unfolding Let_def and_then_Inr try_each_Inr ev by auto
  have res: "tally ?sc e as \<and> ?a" if "count_actions X own T ss ?e as = Inr e" for e
    using count_actions_result[OF sa g that tally_start[OF ds]] by simp
  have m: "(\<forall>p\<in>set e. charge_matches ?scopes p = Inr ()) \<longleftrightarrow> ?c" if "tally ?sc e as" for e
    by (rule charges_ok_tally[OF that da]) (simp add: table(1))
  have "\<exists>e. count_actions X own T ss ?e as = Inr e" if a: ?a and c: ?c
  proof (rule count_actions_succeeds[OF sa g a _ tally_start[OF ds]], rule allI)
    fix i
    show "length (filter (charges_scope ?sc i) ([] @ as)) < 2 ^ 64"
    proof (cases "?sc i")
      case None
      have "\<not> charges_scope ?sc i x" for x
        using None lineage_mem_key[OF g] unfolding charges_scope_def by fastforce
      then show ?thesis by simp
    next
      case (Some r)
      then have "length (filter (charges_scope ?sc i) as) = unat (sr_charged_attempts r)"
        using c unfolding charges_ok_def charged_to_by_key[OF da] by simp
      then show ?thesis using unsigned_less[of "sr_charged_attempts r"] by simp
    qed
  qed
  then show ?thesis unfolding l using res m by blast
qed

lemma evidence_validate_iff:
  "evidence_validate X E = Inr u \<longleftrightarrow>
     se_schema_version E = 1 \<and> strictly_ascending (map sr_id (se_scopes E)) \<and> strictly_ascending (map ar_id (se_actions E))
     \<and> ledger_sound X (se_owner E) (se_last_seen E) (by_key sr_id (se_scopes E)) (by_key ar_id (se_actions E)) (se_events E)"
proof (cases "strictly_ascending (map sr_id (se_scopes E)) \<and> strictly_ascending (map ar_id (se_actions E))")
  case False
  then show ?thesis unfolding evidence_validate_def and_then_Inr reject_if_Inr by blast
next
  case True
  let ?ss = "se_scopes E" and ?as = "se_actions E" and ?own = "se_owner E" and ?T = "se_last_seen E"
  have ds: "distinct (map sr_id ?ss)" and da: "distinct (map ar_id ?as)"
    using strictly_ascending_sorted True by blast+
  let ?tail = "\<lambda>records. let expected = fold (\<lambda>s. bt_insert (sr_id s) (0, {||})) records [];
      scopes = fold (\<lambda>s. bt_insert (sr_id s) s) records [] in
      and_then (count_actions X ?own ?T ?ss expected ?as) (\<lambda>counted.
      and_then (try_each (charge_matches scopes) counted) (\<lambda>_. verify_events (se_events E) scopes ?as ?T))"
  have "evidence_validate X E = Inr u \<longleftrightarrow>
      se_schema_version E = 1 \<and> 0 \<le> ?T \<and> owner_validate ?own = Inr () \<and> grants_ok X (by_key sr_id ?ss)
      \<and> actions_distinct X [] ?as = Inr ()
      \<and> (\<exists>records. try_map (check_scope X ?own ?T ?ss) ?ss = Inr records \<and> ?tail records = Inr u)"
    unfolding evidence_validate_def and_then_Inr reject_if_Inr try_each_Inr map_err_Inr digests_grants_ok[OF ds]
    using True by auto
  also have "\<dots> \<longleftrightarrow> se_schema_version E = 1 \<and> 0 \<le> ?T \<and> owner_validate ?own = Inr () \<and> grants_ok X (by_key sr_id ?ss)
      \<and> actions_distinct X [] ?as = Inr () \<and> scopes_ok ?own ?T (by_key sr_id ?ss) \<and> ?tail ?ss = Inr u"
  proof (cases "grants_ok X (by_key sr_id ?ss)")
    case g: True
    show ?thesis unfolding check_scopes_Inr[OF conjunct1[OF True] g] by blast
  qed blast
  also have "\<dots> \<longleftrightarrow> se_schema_version E = 1
      \<and> ledger_sound X ?own ?T (by_key sr_id ?ss) (by_key ar_id ?as) (se_events E)"
    unfolding ledger_sound_def actions_ok_by_key[OF da]
    using validate_tail[OF conjunct1[OF True] conjunct2[OF True], of X ?own ?T "se_events E" u] by blast
  finally show ?thesis using True by blast
qed

end
