(* ===== verification/Scope_Review.thy ===== *)
theory Scope_Review
  imports Scope_Validity Workstation
begin

text \<open>
  The review protocol of \<open>src/crates/opaque-core/src/scope_review.rs\<close>: a broker signs a review of a scope draft or of an
  exact action, a reviewer signs a decision over the whole review, and the broker signs a receipt that records when it
  accepted that decision.  \<open>verify_reviews\<close> of \<open>src/crates/opaque-core/src/scope_evidence.rs\<close> checks an export against
  such receipts.  The encodings of \<open>serde_json\<close> and the public half of a signing key are parameters.
\<close>

definition REVIEW_VERSION :: u16 where "REVIEW_VERSION = 1"
definition SCOPE_REVIEW_BYTES :: nat where "SCOPE_REVIEW_BYTES = 120 * 1024"
definition MAX_SIGNED_REVIEW_BYTES :: nat where "MAX_SIGNED_REVIEW_BYTES = 250 * 1024"
definition MAX_RECEIPT_BYTES :: nat where "MAX_RECEIPT_BYTES = 256 * 1024"
definition MAX_ROUND_SECONDS :: i64 where "MAX_ROUND_SECONDS = 300"
definition EMPTY_RECEIPT_DIGEST :: string where "EMPTY_RECEIPT_DIGEST = replicate 64 (CHR ''0'')"

datatype review_error = RE_Invalid | RE_Expired | RE_Signature | RE_Binding

record review_authority =
  ra_owner :: authority_owner
  ra_requester_id :: string
  ra_reviewer_id :: string
  ra_device_id :: string
  ra_reviewer_public_key :: string
  ra_required_role :: string
  ra_policy_digest :: string
  ra_authority_epoch :: u64
  ra_enrollment_epoch :: u64

record review_evidence =
  re_provider_profile_digest :: string
  re_resource :: string
  re_resource_version :: string
  re_fields :: "field_value list"

datatype review_subject =
    ScopeIssuance scope_grant
  | ExactAction scope_grant prepared_action string u64 "review_evidence option"

record review_document =
  rd_schema_version :: u16
  rd_round_id :: string
  rd_nonce :: string
  rd_created_at :: i64
  rd_expires_at :: i64
  rd_authority :: review_authority
  rd_subject :: review_subject
  rd_review_text :: string

record signed_review =
  sv_schema_version :: u16
  sv_document :: review_document
  sv_broker_public_key :: string
  sv_signature :: string

datatype review_decision = RD_Approve | RD_Reject

record reviewer_decision =
  rc_schema_version :: u16
  rc_round_id :: string
  rc_reviewer_id :: string
  rc_device_id :: string
  rc_decision :: review_decision
  rc_signature :: string

record decision_receipt =
  dr_schema_version :: u16
  dr_review :: signed_review
  dr_response :: reviewer_decision
  dr_accepted_at :: i64
  dr_broker_signature :: string

text \<open>What \<open>render\<close> shows, the local struct \<open>Display\<close>.\<close>

record review_display =
  ds_protocol :: string
  ds_round_id :: string
  ds_nonce :: string
  ds_created_at :: i64
  ds_expires_at :: i64
  ds_authority :: review_authority
  ds_subject :: review_subject
  ds_issuance_commitment :: "string option"

record rvext = evext +
  review_evidence_to_vec :: "review_evidence \<Rightarrow> string option"
  grant_to_value :: "scope_grant \<Rightarrow> json option"
  value_to_vec :: "json \<Rightarrow> string option"
  display_to_pretty :: "review_display \<Rightarrow> string option"
  document_to_vec :: "review_document \<Rightarrow> string option"
  decided_to_vec :: "review_document \<times> review_decision \<Rightarrow> string option"
  signed_review_to_vec :: "signed_review \<Rightarrow> string option"
  receipt_body_to_vec :: "u16 \<times> signed_review \<times> reviewer_decision \<times> i64 \<Rightarrow> string option"
  receipt_to_vec :: "decision_receipt \<Rightarrow> string option"
  signing_public :: "string \<Rightarrow> string"

subsection \<open>Shared checks\<close>

definition review_ident :: "string \<Rightarrow> review_error + unit" where
  "review_ident v =
     reject_if (v = [] \<or> length v > 256
         \<or> \<not> list_all (\<lambda>b. is_ascii_alphanumeric b \<or> b \<in> set ''_.:-/'') v) RE_Invalid"

definition review_digest_ok :: "string \<Rightarrow> review_error + unit" where
  "review_digest_ok v = reject_if (length v \<noteq> 64 \<or> \<not> list_all is_lower_hex v) RE_Invalid"

definition review_bytes :: "string \<Rightarrow> string option \<Rightarrow> review_error + string" where
  "review_bytes domain json =
     and_then (ok_or json RE_Invalid) (\<lambda>encoded.
     and_then (reject_if (length encoded > 1024 * 1024) RE_Invalid) (\<lambda>_. Inr (domain @ CHR 0x00 # encoded)))"

definition bounded_wire :: "string option \<Rightarrow> nat \<Rightarrow> review_error + unit" where
  "bounded_wire json maximum =
     and_then (ok_or json RE_Invalid) (\<lambda>bytes. reject_if (length bytes > maximum) RE_Invalid)"

definition scope_review_hash :: "'z ext_scheme \<Rightarrow> string \<Rightarrow> string option \<Rightarrow> review_error + string" where
  "scope_review_hash X domain json = and_then (review_bytes domain json) (\<lambda>bytes. Inr (sha256 X bytes))"

definition checked_sub_i64 :: "int \<Rightarrow> int \<Rightarrow> int option" where
  "checked_sub_i64 a b = (if in_i64 (a - b) then Some (a - b) else None)"

subsection \<open>Authorities, evidence and subjects\<close>

definition review_authority_validate :: "'z ext_scheme \<Rightarrow> review_authority \<Rightarrow> review_error + unit" where
  "review_authority_validate X a =
     and_then (map_err (\<lambda>_. RE_Invalid) (owner_validate (ra_owner a))) (\<lambda>_.
     and_then (try_each review_ident [ra_requester_id a, ra_reviewer_id a, ra_device_id a, ra_required_role a]) (\<lambda>_.
     and_then (review_digest_ok (ra_reviewer_public_key a)) (\<lambda>_.
     and_then (review_digest_ok (ra_policy_digest a)) (\<lambda>_.
     and_then (map_err (\<lambda>_. RE_Invalid) (decode_hex 32 (ra_reviewer_public_key a))) (\<lambda>key.
     and_then (reject_if (\<not> verifying_key_ok X key) RE_Invalid) (\<lambda>_.
     reject_if (ra_requester_id a = ra_reviewer_id a \<or> ra_authority_epoch a = 0 \<or> ra_enrollment_epoch a = 0) RE_Binding))))))"

definition review_field_ok :: "field_value \<Rightarrow> review_error + unit" where
  "review_field_ok f =
     and_then (review_ident (fv_field f)) (\<lambda>_.
     reject_if (length (fv_value f) > 1024 \<or> list_ex is_control (utf8_chars (fv_value f))) RE_Invalid)"

definition review_evidence_canonicalized :: "review_evidence \<Rightarrow> review_error + review_evidence" where
  "review_evidence_canonicalized e =
     and_then (review_digest_ok (re_provider_profile_digest e)) (\<lambda>_.
     and_then (review_ident (re_resource e)) (\<lambda>_.
     and_then (reject_if (re_resource_version e = [] \<or> length (re_resource_version e) > 1024
         \<or> list_ex is_control (utf8_chars (re_resource_version e))
         \<or> re_fields e = [] \<or> length (re_fields e) > 32) RE_Invalid) (\<lambda>_.
     and_then (try_each review_field_ok (re_fields e)) (\<lambda>_.
     let result = e\<lparr>re_fields := sort_key fv_field (re_fields e)\<rparr>;
         names = map fv_field (re_fields result) in
     and_then (reject_if (list_ex (\<lambda>(a, b). a = b) (zip names (tl names))) RE_Invalid) (\<lambda>_. Inr result)))))"

definition review_evidence_digest :: "'z rvext_scheme \<Rightarrow> review_evidence \<Rightarrow> review_error + string" where
  "review_evidence_digest X e =
     and_then (review_evidence_canonicalized e) (\<lambda>c.
     scope_review_hash X ''opaque.scope.review-evidence.v1'' (review_evidence_to_vec X c))"

definition review_evidence_validate_for ::
  "'z rvext_scheme \<Rightarrow> review_evidence \<Rightarrow> prepared_action \<Rightarrow> review_error + unit" where
  "review_evidence_validate_for X e action =
     and_then (review_evidence_canonicalized e) (\<lambda>c.
     and_then (reject_if (c \<noteq> e
         \<or> re_provider_profile_digest e \<noteq> pc_provider_profile_digest action
         \<or> re_resource e \<noteq> pc_resource action
         \<or> re_resource_version e \<noteq> pc_resource_version action) RE_Binding) (\<lambda>_.
     and_then (review_evidence_digest X e) (\<lambda>d.
     reject_if (d \<noteq> pc_evidence_digest action) RE_Binding)))"

definition subject_issuance :: "'z scext_scheme \<Rightarrow> scope_grant \<Rightarrow> review_error + review_subject" where
  "subject_issuance X scope =
     and_then (map_err (\<lambda>_. RE_Invalid) (grant_canonicalized X scope)) (\<lambda>draft.
     Inr (ScopeIssuance (draft\<lparr>sg_issuance_receipt_digest := EMPTY_RECEIPT_DIGEST\<rparr>)))"

definition subject_exact_action ::
  "'z scext_scheme \<Rightarrow> scope_grant \<Rightarrow> prepared_action \<Rightarrow> string \<Rightarrow> u64 \<Rightarrow> review_error + review_subject" where
  "subject_exact_action X scope action case_id case_revision =
     and_then (map_err (\<lambda>_. RE_Invalid) (grant_canonicalized X scope)) (\<lambda>scope.
     and_then (map_err (\<lambda>_. RE_Invalid) (action_canonicalized X action)) (\<lambda>action.
     and_then (map_err (\<lambda>_. RE_Binding) (action_validate_for X action scope)) (\<lambda>_.
     and_then (review_ident case_id) (\<lambda>_.
     and_then (reject_if (case_revision = 0) RE_Invalid) (\<lambda>_.
     Inr (ExactAction scope action case_id case_revision None))))))"

definition subject_exact_action_with_evidence ::
  "'z rvext_scheme \<Rightarrow> scope_grant \<Rightarrow> prepared_action \<Rightarrow> string \<Rightarrow> u64 \<Rightarrow> review_evidence \<Rightarrow> review_error + review_subject" where
  "subject_exact_action_with_evidence X scope action case_id case_revision evidence =
     and_then (review_evidence_canonicalized evidence) (\<lambda>evidence.
     and_then (review_evidence_validate_for X evidence action) (\<lambda>_.
     and_then (subject_exact_action X scope action case_id case_revision) (\<lambda>subject.
     Inr (case subject of
            ExactAction s a i r _ \<Rightarrow> ExactAction s a i r (Some evidence)
          | ScopeIssuance d \<Rightarrow> ScopeIssuance d))))"

text \<open>The conditions are evaluated left to right, so a canonicalization that fails is reported only when every earlier
  disjunct is false.\<close>

definition subject_validate_for ::
  "'z rvext_scheme \<Rightarrow> review_subject \<Rightarrow> review_authority \<Rightarrow> review_error + unit" where
  "subject_validate_for X subject authority =
     and_then (review_authority_validate X authority) (\<lambda>_.
     case subject of
       ScopeIssuance draft \<Rightarrow>
         and_then (reject_if (sg_issuance_receipt_digest draft \<noteq> EMPTY_RECEIPT_DIGEST) RE_Binding) (\<lambda>_.
         and_then (map_err (\<lambda>_. RE_Invalid) (grant_canonicalized X draft)) (\<lambda>c.
         reject_if (c \<noteq> draft \<or> sg_owner draft \<noteq> ra_owner authority
             \<or> sg_issuer draft \<noteq> ra_requester_id authority
             \<or> rq_policy_digest (sg_requirements draft) \<noteq> ra_policy_digest authority) RE_Binding))
     | ExactAction scope action case_id case_revision evidence \<Rightarrow>
         and_then (review_ident case_id) (\<lambda>_.
         and_then (reject_if (case_revision = 0) RE_Binding) (\<lambda>_.
         and_then (map_err (\<lambda>_. RE_Invalid) (grant_canonicalized X scope)) (\<lambda>c.
         and_then (reject_if (c \<noteq> scope) RE_Binding) (\<lambda>_.
         and_then (map_err (\<lambda>_. RE_Invalid) (action_canonicalized X action)) (\<lambda>c.
         and_then (reject_if (c \<noteq> action \<or> sg_owner scope \<noteq> ra_owner authority
             \<or> pc_subject action \<noteq> ra_requester_id authority
             \<or> rq_policy_digest (sg_requirements scope) \<noteq> ra_policy_digest authority) RE_Binding) (\<lambda>_.
         and_then (map_err (\<lambda>_. RE_Binding) (action_validate_for X action scope)) (\<lambda>_.
         case evidence of None \<Rightarrow> Inr () | Some e \<Rightarrow> review_evidence_validate_for X e action))))))))"

definition subject_scope :: "review_subject \<Rightarrow> scope_grant" where
  "subject_scope subject = (case subject of ScopeIssuance draft \<Rightarrow> draft | ExactAction scope _ _ _ _ \<Rightarrow> scope)"

definition issuance_commitment :: "'z rvext_scheme \<Rightarrow> scope_grant \<Rightarrow> review_error + string" where
  "issuance_commitment X scope =
     and_then (map_err (\<lambda>_. RE_Invalid) (grant_canonicalized X scope)) (\<lambda>canonical.
     and_then (ok_or (grant_to_value X canonical) RE_Invalid) (\<lambda>v.
     case v of
       JObject entries \<Rightarrow>
         scope_review_hash X ''opaque.scope.unsigned-issuance.v1''
           (value_to_vec X (JObject (filter (\<lambda>(k, _). k \<noteq> ''issuance_receipt_digest'') entries)))
     | _ \<Rightarrow> Inl RE_Invalid))"

subsection \<open>Documents\<close>

definition hostile_review_char :: "nat \<Rightarrow> bool" where
  "hostile_review_char c =
     ((is_control c \<and> c \<noteq> 10 \<and> c \<noteq> 9) \<or> c = 0x061C \<or> (0x200E \<le> c \<and> c \<le> 0x200F)
      \<or> (0x202A \<le> c \<and> c \<le> 0x202E) \<or> (0x2066 \<le> c \<and> c \<le> 0x2069))"

definition render :: "'z rvext_scheme \<Rightarrow> review_document \<Rightarrow> review_error + string" where
  "render X d =
     and_then (case rd_subject d of
         ScopeIssuance draft \<Rightarrow> and_then (issuance_commitment X draft) (\<lambda>c. Inr (Some c))
       | _ \<Rightarrow> Inr None) (\<lambda>commitment.
     and_then (ok_or (display_to_pretty X
         \<lparr>ds_protocol = ''opaque.scope.review.v1'', ds_round_id = rd_round_id d, ds_nonce = rd_nonce d,
          ds_created_at = rd_created_at d, ds_expires_at = rd_expires_at d, ds_authority = rd_authority d,
          ds_subject = rd_subject d, ds_issuance_commitment = commitment\<rparr>) RE_Invalid) (\<lambda>shown.
     and_then (reject_if (length shown > SCOPE_REVIEW_BYTES \<or> list_ex hostile_review_char (utf8_chars shown)) RE_Invalid) (\<lambda>_.
     Inr shown)))"

definition document_validate_at :: "'z rvext_scheme \<Rightarrow> review_document \<Rightarrow> i64 \<Rightarrow> review_error + unit" where
  "document_validate_at X d now =
     and_then (reject_if (rd_schema_version d \<noteq> REVIEW_VERSION
         \<or> uuid_parse_str X (rd_round_id d) = None
         \<or> \<not> is_ok (review_digest_ok (rd_nonce d))
         \<or> rd_created_at d < 0
         \<or> is_none_or (checked_sub_i64 (rd_expires_at d) (rd_created_at d)) (\<lambda>ttl. \<not> (1 \<le> ttl \<and> ttl \<le> MAX_ROUND_SECONDS)))
       RE_Invalid) (\<lambda>_.
     and_then (subject_validate_for X (rd_subject d) (rd_authority d)) (\<lambda>_.
     and_then (reject_if (rd_expires_at d > sg_expires_at (subject_scope (rd_subject d))) RE_Binding) (\<lambda>_.
     and_then (reject_if (length (rd_review_text d) > SCOPE_REVIEW_BYTES) RE_Binding) (\<lambda>_.
     and_then (render X d) (\<lambda>shown.
     and_then (reject_if (rd_review_text d \<noteq> shown) RE_Binding) (\<lambda>_.
     reject_if (now < rd_created_at d \<or> now \<ge> rd_expires_at d) RE_Expired))))))"

definition document_new ::
  "'z rvext_scheme \<Rightarrow> string \<Rightarrow> string \<Rightarrow> i64 \<Rightarrow> i64 \<Rightarrow> review_authority \<Rightarrow> review_subject \<Rightarrow> review_error + review_document" where
  "document_new X round_id nonce created_at expires_at authority subject =
     (let d = \<lparr>rd_schema_version = REVIEW_VERSION, rd_round_id = round_id, rd_nonce = nonce, rd_created_at = created_at,
               rd_expires_at = expires_at, rd_authority = authority, rd_subject = subject, rd_review_text = []\<rparr> in
     and_then (render X d) (\<lambda>shown.
     let d = d\<lparr>rd_review_text := shown\<rparr> in
     and_then (document_validate_at X d created_at) (\<lambda>_. Inr d)))"

subsection \<open>Signed reviews, decisions and receipts\<close>

definition review_sign :: "'z rvext_scheme \<Rightarrow> review_document \<Rightarrow> string \<Rightarrow> review_error + signed_review" where
  "review_sign X d key =
     and_then (document_validate_at X d (rd_created_at d)) (\<lambda>_.
     and_then (review_bytes ''opaque.scope.broker-review.v1'' (document_to_vec X d)) (\<lambda>bytes.
     let result = \<lparr>sv_schema_version = REVIEW_VERSION, sv_document = d, sv_broker_public_key = hex_encode (signing_public X key),
                   sv_signature = hex_encode (ed25519_sign X key bytes)\<rparr> in
     and_then (bounded_wire (signed_review_to_vec X result) MAX_SIGNED_REVIEW_BYTES) (\<lambda>_. Inr result)))"

definition review_verify :: "'z rvext_scheme \<Rightarrow> signed_review \<Rightarrow> string \<Rightarrow> i64 \<Rightarrow> review_error + unit" where
  "review_verify X r expected_broker_key now =
     and_then (bounded_wire (signed_review_to_vec X r) MAX_SIGNED_REVIEW_BYTES) (\<lambda>_.
     and_then (reject_if (sv_schema_version r \<noteq> REVIEW_VERSION \<or> sv_broker_public_key r \<noteq> expected_broker_key) RE_Signature) (\<lambda>_.
     and_then (document_validate_at X (sv_document r) now) (\<lambda>_.
     and_then (review_bytes ''opaque.scope.broker-review.v1'' (document_to_vec X (sv_document r))) (\<lambda>bytes.
     map_err (\<lambda>_. RE_Signature) (verify_signature X expected_broker_key (sv_signature r) bytes)))))"

definition decision_bytes :: "'z rvext_scheme \<Rightarrow> review_document \<Rightarrow> review_decision \<Rightarrow> review_error + string" where
  "decision_bytes X d decision =
     and_then (document_validate_at X d (rd_created_at d)) (\<lambda>_.
     review_bytes ''opaque.scope.reviewer-decision.v1'' (decided_to_vec X (d, decision)))"

definition decision_sign ::
  "'z rvext_scheme \<Rightarrow> signed_review \<Rightarrow> string \<Rightarrow> string \<Rightarrow> review_decision \<Rightarrow> i64 \<Rightarrow> review_error + reviewer_decision" where
  "decision_sign X review expected_broker_key key decision now =
     and_then (review_verify X review expected_broker_key now) (\<lambda>_.
     let authority = rd_authority (sv_document review) in
     and_then (reject_if (ra_reviewer_public_key authority \<noteq> hex_encode (signing_public X key)) RE_Binding) (\<lambda>_.
     and_then (decision_bytes X (sv_document review) decision) (\<lambda>bytes.
     Inr \<lparr>rc_schema_version = REVIEW_VERSION, rc_round_id = rd_round_id (sv_document review),
          rc_reviewer_id = ra_reviewer_id authority, rc_device_id = ra_device_id authority, rc_decision = decision,
          rc_signature = hex_encode (ed25519_sign X key bytes)\<rparr>)))"

definition decision_verify :: "'z rvext_scheme \<Rightarrow> reviewer_decision \<Rightarrow> review_document \<Rightarrow> review_error + unit" where
  "decision_verify X r d =
     and_then (reject_if (rc_schema_version r \<noteq> REVIEW_VERSION
         \<or> rc_round_id r \<noteq> rd_round_id d
         \<or> rc_reviewer_id r \<noteq> ra_reviewer_id (rd_authority d)
         \<or> rc_device_id r \<noteq> ra_device_id (rd_authority d)) RE_Binding) (\<lambda>_.
     and_then (decision_bytes X d (rc_decision r)) (\<lambda>bytes.
     map_err (\<lambda>_. RE_Signature) (verify_signature X (ra_reviewer_public_key (rd_authority d)) (rc_signature r) bytes)))"

definition receipt_signing_bytes :: "'z rvext_scheme \<Rightarrow> decision_receipt \<Rightarrow> review_error + string" where
  "receipt_signing_bytes X r =
     review_bytes ''opaque.scope.broker-receipt.v1''
       (receipt_body_to_vec X (dr_schema_version r, dr_review r, dr_response r, dr_accepted_at r))"

definition receipt_sign ::
  "'z rvext_scheme \<Rightarrow> signed_review \<Rightarrow> reviewer_decision \<Rightarrow> i64 \<Rightarrow> string \<Rightarrow> review_error + decision_receipt" where
  "receipt_sign X review response accepted_at key =
     and_then (review_verify X review (hex_encode (signing_public X key)) accepted_at) (\<lambda>_.
     and_then (decision_verify X response (sv_document review)) (\<lambda>_.
     let result = \<lparr>dr_schema_version = REVIEW_VERSION, dr_review = review, dr_response = response,
                   dr_accepted_at = accepted_at, dr_broker_signature = []\<rparr> in
     and_then (receipt_signing_bytes X result) (\<lambda>bytes.
     let result = result\<lparr>dr_broker_signature := hex_encode (ed25519_sign X key bytes)\<rparr> in
     and_then (bounded_wire (receipt_to_vec X result) MAX_RECEIPT_BYTES) (\<lambda>_. Inr result))))"

definition receipt_verify :: "'z rvext_scheme \<Rightarrow> decision_receipt \<Rightarrow> string \<Rightarrow> review_error + unit" where
  "receipt_verify X r expected_broker_key =
     and_then (bounded_wire (receipt_to_vec X r) MAX_RECEIPT_BYTES) (\<lambda>_.
     and_then (reject_if (dr_schema_version r \<noteq> REVIEW_VERSION) RE_Invalid) (\<lambda>_.
     and_then (review_verify X (dr_review r) expected_broker_key (dr_accepted_at r)) (\<lambda>_.
     and_then (decision_verify X (dr_response r) (sv_document (dr_review r))) (\<lambda>_.
     and_then (receipt_signing_bytes X r) (\<lambda>bytes.
     map_err (\<lambda>_. RE_Signature) (verify_signature X expected_broker_key (dr_broker_signature r) bytes))))))"

definition decision_receipt_digest :: "'z rvext_scheme \<Rightarrow> decision_receipt \<Rightarrow> review_error + string" where
  "decision_receipt_digest X r = scope_review_hash X ''opaque.scope.decision-receipt.v1'' (receipt_to_vec X r)"

subsection \<open>Exports against their receipts\<close>

text \<open>\<open>unhex\<close> of \<open>src/crates/opaque-core/src/evidence_checkpoint.rs\<close> accepts lower case only.\<close>

definition unhex :: "nat \<Rightarrow> string \<Rightarrow> evidence_error + string" where
  "unhex n v =
     and_then (reject_if (length v \<noteq> n * 2 \<or> \<not> list_all is_lower_hex v) (EvidenceError ''invalid lowercase hexadecimal'')) (\<lambda>_.
     ok_or (hex_decode v) (EvidenceError ''invalid hexadecimal''))"

fun index_receipts ::
  "'z rvext_scheme \<Rightarrow> authority_owner \<Rightarrow> string \<Rightarrow> (string \<times> decision_receipt) list \<Rightarrow> decision_receipt list
     \<Rightarrow> evidence_error + (string \<times> decision_receipt) list" where
  "index_receipts X own key indexed [] = Inr indexed"
| "index_receipts X own key indexed (r # rs) =
     and_then (map_err (\<lambda>_. EvidenceError ''invalid historical review signature'') (receipt_verify X r key)) (\<lambda>_.
     and_then (reject_if (ra_owner (rd_authority (sv_document (dr_review r))) \<noteq> own)
         (EvidenceError ''review belongs to another owner'')) (\<lambda>_.
     and_then (map_err (\<lambda>_. EvidenceError ''invalid review digest'') (decision_receipt_digest X r)) (\<lambda>d.
     and_then (reject_if (map_of indexed d \<noteq> None) (EvidenceError ''duplicate review receipt'')) (\<lambda>_.
     index_receipts X own key (bt_insert d r indexed) rs))))"

definition scope_reviewed :: "(string \<times> decision_receipt) list \<Rightarrow> scope_record \<Rightarrow> evidence_error + unit" where
  "scope_reviewed indexed s =
     and_then (ok_or (map_of indexed (sg_issuance_receipt_digest (sr_grant s))) (EvidenceError ''missing issuance receipt'')) (\<lambda>r.
     case rd_subject (sv_document (dr_review r)) of
       ScopeIssuance draft \<Rightarrow>
         reject_if (rc_decision (dr_response r) \<noteq> RD_Approve
             \<or> draft\<lparr>sg_issuance_receipt_digest := sg_issuance_receipt_digest (sr_grant s)\<rparr> \<noteq> sr_grant s
             \<or> dr_accepted_at r > sr_issued_at s) (EvidenceError ''issuance approval does not bind this grant'')
     | _ \<Rightarrow> Inl (EvidenceError ''issuance receipt subject mismatch''))"

definition action_reviewed ::
  "'z rvext_scheme \<Rightarrow> (string \<times> decision_receipt) list \<Rightarrow> action_record \<Rightarrow> evidence_error + unit" where
  "action_reviewed X indexed a =
     (case ae_review (ar_evidence a) of
        None \<Rightarrow> Inr ()
      | Some binding \<Rightarrow>
          and_then (ok_or (map_of indexed (rb_decision_receipt_digest binding)) (EvidenceError ''missing exact-action receipt'')) (\<lambda>r.
          let document = sv_document (dr_review r); bad = EvidenceError ''exact-action approval does not bind this charge'' in
          case rd_subject document of
            ExactAction scope action case_id case_revision _ \<Rightarrow>
              and_then (reject_if (rc_decision (dr_response r) \<noteq> RD_Approve \<or> action \<noteq> ar_action a) bad) (\<lambda>_.
              and_then (map_err (\<lambda>_. EvidenceError ''invalid reviewed scope'') (grant_digest X scope)) (\<lambda>d.
              reject_if (d \<noteq> rb_scope_digest binding
                  \<or> case_id \<noteq> rb_case_id binding
                  \<or> case_revision \<noteq> rb_case_revision binding
                  \<or> rd_round_id document \<noteq> rb_round_id binding
                  \<or> rd_expires_at document \<noteq> rb_expires_at binding
                  \<or> dr_accepted_at r > ar_reserved_at a) bad))
          | _ \<Rightarrow> Inl (EvidenceError ''action receipt subject mismatch'')))"

definition verify_reviews ::
  "'z rvext_scheme \<Rightarrow> scope_evidence \<Rightarrow> decision_receipt list \<Rightarrow> string \<Rightarrow> evidence_error + unit" where
  "verify_reviews X E receipts broker_public_key =
     and_then (evidence_validate X E) (\<lambda>_.
     and_then (unhex 32 broker_public_key) (\<lambda>key.
     and_then (reject_if (\<not> verifying_key_ok X key) (EvidenceError ''invalid review broker enrollment'')) (\<lambda>_.
     and_then (index_receipts X (se_owner E) broker_public_key [] receipts) (\<lambda>indexed.
     and_then (try_each (scope_reviewed indexed) (se_scopes E)) (\<lambda>_.
     try_each (action_reviewed X indexed) (se_actions E))))))"

subsection \<open>What a verified receipt shows\<close>

definition signature_holds :: "'z ext_scheme \<Rightarrow> string \<Rightarrow> string \<Rightarrow> string \<Rightarrow> bool" where
  "signature_holds X public_key signature message =
     (\<exists>key sig. decode_hex 32 public_key = Inr key \<and> decode_hex 64 signature = Inr sig
        \<and> verifying_key_ok X key \<and> ed25519_verify_strict X key message sig)"

lemma verify_signature_Inr [simp]: "verify_signature X k s m = Inr u \<longleftrightarrow> signature_holds X k s m"
  by (auto simp: verify_signature_def signature_holds_def)

text \<open>The reviewer's signature is over the whole document and the decision, the broker's over the whole receipt.\<close>

definition decided_by ::
  "'z rvext_scheme \<Rightarrow> string \<Rightarrow> review_decision \<Rightarrow> decision_receipt \<Rightarrow> bool" where
  "decided_by X broker decision r =
     (let d = sv_document (dr_review r) in
      rc_decision (dr_response r) = decision
      \<and> (\<exists>json. decided_to_vec X (d, decision) = Some json
           \<and> signature_holds X (ra_reviewer_public_key (rd_authority d)) (rc_signature (dr_response r))
               (''opaque.scope.reviewer-decision.v1'' @ CHR 0x00 # json))
      \<and> (\<exists>json. receipt_body_to_vec X (REVIEW_VERSION, dr_review r, dr_response r, dr_accepted_at r) = Some json
           \<and> signature_holds X broker (dr_broker_signature r) (''opaque.scope.broker-receipt.v1'' @ CHR 0x00 # json))
      \<and> ra_reviewer_id (rd_authority d) \<noteq> ra_requester_id (rd_authority d)
      \<and> rd_created_at d \<le> dr_accepted_at r \<and> dr_accepted_at r < rd_expires_at d
      \<and> rd_expires_at d \<le> rd_created_at d + MAX_ROUND_SECONDS)"

lemma review_bytes_Inr [simp]:
  "review_bytes domain json = Inr b \<longleftrightarrow> (\<exists>e. json = Some e \<and> length e \<le> 1024 * 1024 \<and> b = domain @ CHR 0x00 # e)"
  by (auto simp: review_bytes_def)

lemma bounded_wire_Inr [simp]: "bounded_wire json n = Inr u \<longleftrightarrow> (\<exists>b. json = Some b \<and> length b \<le> n)"
  by (auto simp: bounded_wire_def)

lemma review_authority_validateD:
  "review_authority_validate X a = Inr u \<Longrightarrow> ra_requester_id a \<noteq> ra_reviewer_id a"
  by (auto simp: review_authority_validate_def)

lemma document_validateD:
  assumes "document_validate_at X d now = Inr u"
  shows "subject_validate_for X (rd_subject d) (rd_authority d) = Inr ()"
    "rd_created_at d \<le> now" "now < rd_expires_at d" "rd_expires_at d \<le> rd_created_at d + MAX_ROUND_SECONDS"
    "rd_expires_at d \<le> sg_expires_at (subject_scope (rd_subject d))"
    "render X d = Inr (rd_review_text d)"
  using assms by (auto simp: document_validate_at_def is_none_or_iff checked_sub_i64_def split: if_splits)

lemma document_validate_later:
  assumes "document_validate_at X d now = Inr u" "rd_created_at d \<le> t" "t < rd_expires_at d"
  shows "document_validate_at X d t = Inr ()"
  using assms by (auto simp: document_validate_at_def)

lemma subject_validateD:
  assumes "subject_validate_for X s a = Inr u"
  shows "ra_requester_id a \<noteq> ra_reviewer_id a"
    "s = ScopeIssuance draft \<Longrightarrow> sg_issuance_receipt_digest draft = EMPTY_RECEIPT_DIGEST \<and> sg_issuer draft = ra_requester_id a"
    "s = ExactAction g act i n e \<Longrightarrow> pc_subject act = ra_requester_id a \<and> action_validate_for X act g = Inr ()"
  using assms by (auto simp: subject_validate_for_def dest: review_authority_validateD split: review_subject.splits)

lemma receipt_verifyD:
  assumes "receipt_verify X r broker = Inr u"
  shows "decided_by X broker (rc_decision (dr_response r)) r"
    and "subject_validate_for X (rd_subject (sv_document (dr_review r))) (rd_authority (sv_document (dr_review r))) = Inr ()"
proof -
  have d: "document_validate_at X (sv_document (dr_review r)) (dr_accepted_at r) = Inr ()"
    using assms by (auto simp: receipt_verify_def review_verify_def)
  note v = document_validateD[OF d]
  show "subject_validate_for X (rd_subject (sv_document (dr_review r))) (rd_authority (sv_document (dr_review r))) = Inr ()"
    by (rule v(1))
  have "dr_schema_version r = REVIEW_VERSION" using assms by (auto simp: receipt_verify_def)
  then show "decided_by X broker (rc_decision (dr_response r)) r"
    using assms v subject_validateD(1)[OF v(1)]
    by (auto simp: receipt_verify_def decision_verify_def decision_bytes_def receipt_signing_bytes_def decided_by_def Let_def)
qed

lemma index_receipts_Inr:
  assumes "index_receipts X own key m rs = Inr m'" "map_of m' d = Some r"
  shows "map_of m d = Some r
    \<or> r \<in> set rs \<and> receipt_verify X r key = Inr () \<and> decision_receipt_digest X r = Inr d
      \<and> ra_owner (rd_authority (sv_document (dr_review r))) = own"
  using assms
proof (induction rs arbitrary: m)
  case (Cons x xs)
  then obtain e where x: "receipt_verify X x key = Inr ()" "decision_receipt_digest X x = Inr e"
      "ra_owner (rd_authority (sv_document (dr_review x))) = own" "map_of m e = None"
    and i: "index_receipts X own key (bt_insert e x m) xs = Inr m'" by auto
  show ?case using Cons.IH[OF i Cons.prems(2)] x by (auto simp: map_of_bt_insert split: if_splits)
qed simp

lemma scope_reviewedD:
  assumes "scope_reviewed m s = Inr u"
  obtains r draft where "map_of m (sg_issuance_receipt_digest (sr_grant s)) = Some r"
    "rd_subject (sv_document (dr_review r)) = ScopeIssuance draft"
    "draft\<lparr>sg_issuance_receipt_digest := sg_issuance_receipt_digest (sr_grant s)\<rparr> = sr_grant s"
    "rc_decision (dr_response r) = RD_Approve" "dr_accepted_at r \<le> sr_issued_at s"
proof -
  from assms obtain r where r: "map_of m (sg_issuance_receipt_digest (sr_grant s)) = Some r" by (auto simp: scope_reviewed_def)
  then show thesis using assms that[OF r] by (cases "rd_subject (sv_document (dr_review r))") (simp_all add: scope_reviewed_def)
qed

lemma action_reviewedD:
  assumes "action_reviewed X m a = Inr u" "ae_review (ar_evidence a) = Some b"
  obtains r g e where "map_of m (rb_decision_receipt_digest b) = Some r"
    "rd_subject (sv_document (dr_review r)) = ExactAction g (ar_action a) (rb_case_id b) (rb_case_revision b) e"
    "grant_digest X g = Inr (rb_scope_digest b)"
    "rc_decision (dr_response r) = RD_Approve" "dr_accepted_at r \<le> ar_reserved_at a"
    "rd_round_id (sv_document (dr_review r)) = rb_round_id b" "rd_expires_at (sv_document (dr_review r)) = rb_expires_at b"
proof -
  from assms obtain r where r: "map_of m (rb_decision_receipt_digest b) = Some r" by (auto simp: action_reviewed_def)
  then show thesis using assms that[OF r]
    by (cases "rd_subject (sv_document (dr_review r))") (auto simp: action_reviewed_def Let_def)
qed

lemma verify_reviewsD:
  assumes "verify_reviews X E receipts broker = Inr u"
  shows "evidence_validate X E = Inr ()"
    and "s \<in> set (se_scopes E) \<Longrightarrow> \<exists>r\<in>set receipts. receipt_verify X r broker = Inr ()
      \<and> decision_receipt_digest X r = Inr (sg_issuance_receipt_digest (sr_grant s))
      \<and> ra_owner (rd_authority (sv_document (dr_review r))) = se_owner E
      \<and> rc_decision (dr_response r) = RD_Approve \<and> dr_accepted_at r \<le> sr_issued_at s
      \<and> (\<exists>draft. rd_subject (sv_document (dr_review r)) = ScopeIssuance draft
           \<and> draft\<lparr>sg_issuance_receipt_digest := sg_issuance_receipt_digest (sr_grant s)\<rparr> = sr_grant s)"
    and "a \<in> set (se_actions E) \<Longrightarrow> ae_review (ar_evidence a) = Some b \<Longrightarrow> \<exists>r\<in>set receipts. receipt_verify X r broker = Inr ()
      \<and> decision_receipt_digest X r = Inr (rb_decision_receipt_digest b)
      \<and> ra_owner (rd_authority (sv_document (dr_review r))) = se_owner E
      \<and> rc_decision (dr_response r) = RD_Approve \<and> dr_accepted_at r \<le> ar_reserved_at a
      \<and> (\<exists>g e. rd_subject (sv_document (dr_review r)) = ExactAction g (ar_action a) (rb_case_id b) (rb_case_revision b) e
           \<and> grant_digest X g = Inr (rb_scope_digest b))
      \<and> rd_round_id (sv_document (dr_review r)) = rb_round_id b
      \<and> rd_expires_at (sv_document (dr_review r)) = rb_expires_at b"
proof -
  from assms obtain m where m: "index_receipts X (se_owner E) broker [] receipts = Inr m"
    and s: "\<forall>s\<in>set (se_scopes E). scope_reviewed m s = Inr ()"
    and a: "\<forall>a\<in>set (se_actions E). action_reviewed X m a = Inr ()"
    and v: "evidence_validate X E = Inr ()"
    by (auto simp: verify_reviews_def)
  show "evidence_validate X E = Inr ()" by (rule v)
  note i = index_receipts_Inr[OF m, simplified]
  show "\<exists>r\<in>set receipts. receipt_verify X r broker = Inr ()
      \<and> decision_receipt_digest X r = Inr (sg_issuance_receipt_digest (sr_grant s))
      \<and> ra_owner (rd_authority (sv_document (dr_review r))) = se_owner E
      \<and> rc_decision (dr_response r) = RD_Approve \<and> dr_accepted_at r \<le> sr_issued_at s
      \<and> (\<exists>draft. rd_subject (sv_document (dr_review r)) = ScopeIssuance draft
           \<and> draft\<lparr>sg_issuance_receipt_digest := sg_issuance_receipt_digest (sr_grant s)\<rparr> = sr_grant s)"
    if "s \<in> set (se_scopes E)"
  proof -
    from s that have "scope_reviewed m s = Inr ()" by blast
    then show ?thesis by (rule scope_reviewedD) (use i in blast)
  qed
  show "\<exists>r\<in>set receipts. receipt_verify X r broker = Inr ()
      \<and> decision_receipt_digest X r = Inr (rb_decision_receipt_digest b)
      \<and> ra_owner (rd_authority (sv_document (dr_review r))) = se_owner E
      \<and> rc_decision (dr_response r) = RD_Approve \<and> dr_accepted_at r \<le> ar_reserved_at a
      \<and> (\<exists>g e. rd_subject (sv_document (dr_review r)) = ExactAction g (ar_action a) (rb_case_id b) (rb_case_revision b) e
           \<and> grant_digest X g = Inr (rb_scope_digest b))
      \<and> rd_round_id (sv_document (dr_review r)) = rb_round_id b
      \<and> rd_expires_at (sv_document (dr_review r)) = rb_expires_at b"
    if "a \<in> set (se_actions E)" "ae_review (ar_evidence a) = Some b"
  proof -
    from a that have "action_reviewed X m a = Inr ()" by blast
    then show ?thesis using that(2) by (rule action_reviewedD) (use i in blast)
  qed
qed

end
