(* ===== verification/Audit_Export.thy ===== *)
theory Audit_Export
  imports Audit_Chain Scope_Review
begin

text \<open>
  The exports of the audit log in \<open>src/crates/opaque-core/src/audit/checkpoint.rs\<close>: a verified snapshot is one JSON
  object per line, its inspection recovers the range of sequence numbers and the gaps in it, and a legacy log is given
  an authenticated head only under the digest of an independently retained export.  The encoding of a record is a
  parameter.
\<close>

record export_record =
  xr_schema :: string
  xr_rowid :: i64
  xr_event_id :: string
  xr_sequence_number :: u64
  xr_ts_utc_ms :: i64
  xr_level :: string
  xr_kind :: string
  xr_request_id :: "string option"
  xr_approval_id :: "string option"
  xr_client_json :: "string option"
  xr_operation :: "string option"
  xr_safety :: "string option"
  xr_target_json :: "string option"
  xr_outcome :: "string option"
  xr_latency_ms :: "i64 option"
  xr_secret_names :: "string option"
  xr_policy_decision :: "string option"
  xr_detail :: "string option"
  xr_workspace_json :: "string option"
  xr_request_hash :: "string option"
  xr_approver_json :: "string option"
  xr_record_hash :: string

record coverage_gap =
  cg_first_sequence :: u64
  cg_last_sequence :: u64

record export_summary =
  es_first_sequence :: "u64 option"
  es_last_sequence :: "u64 option"
  es_record_count :: u64
  es_gaps :: "coverage_gap list"

record audit_snapshot =
  vs_bytes :: string
  vs_summary :: export_summary

record xrext = rvext +
  export_record_to_vec :: "export_record \<Rightarrow> string option"
  export_record_from_slice :: "string \<Rightarrow> export_record option"

subsection \<open>Inspection\<close>

text \<open>\<open>slice::split_inclusive\<close>: every piece but possibly the last ends in the separator.\<close>

fun split_inclusive :: "char \<Rightarrow> string \<Rightarrow> string list" where
  "split_inclusive d [] = []"
| "split_inclusive d (c # cs) =
     (if c = d then [c] # split_inclusive d cs
      else (case split_inclusive d cs of [] \<Rightarrow> [[c]] | p # ps \<Rightarrow> (c # p) # ps))"

definition record_identity_ok :: "'z ext_scheme \<Rightarrow> i64 \<Rightarrow> string list \<Rightarrow> export_record \<Rightarrow> bool" where
  "record_identity_ok X rowid ids row =
     (xr_schema row = ''opaque.audit.v1'' \<and> xr_rowid row > rowid
      \<and> uint (xr_sequence_number row) \<le> i64_max
      \<and> uuid_parse_str X (xr_event_id row) \<noteq> None
      \<and> xr_event_id row \<notin> set ids
      \<and> xr_level row \<in> {''info'', ''warn'', ''error''}
      \<and> xr_kind row \<noteq> [])"

definition extend_summary :: "u64 \<Rightarrow> export_summary \<Rightarrow> evidence_error + export_summary" where
  "extend_summary n summary =
     and_then (case es_last_sequence summary of
         None \<Rightarrow> Inr summary
       | Some previous \<Rightarrow>
           if n \<le> previous then Inl (EvidenceError ''export sequence regressed'')
           else if n > previous + 1 then
             if length (es_gaps summary) \<ge> 128 then Inl (EvidenceError ''too many export gaps'')
             else Inr (summary\<lparr>es_gaps := es_gaps summary @ [\<lparr>cg_first_sequence = previous + 1, cg_last_sequence = n - 1\<rparr>]\<rparr>)
           else Inr summary) (\<lambda>summary.
     let summary = summary\<lparr>es_first_sequence := Some (case es_first_sequence summary of None \<Rightarrow> n | Some f \<Rightarrow> f),
                           es_last_sequence := Some n, es_record_count := es_record_count summary + 1\<rparr> in
     and_then (reject_if (es_record_count summary > 100000) (EvidenceError ''too many export records'')) (\<lambda>_. Inr summary))"

fun inspect_lines ::
  "'z xrext_scheme \<Rightarrow> i64 \<Rightarrow> string list \<Rightarrow> export_summary \<Rightarrow> string list \<Rightarrow> evidence_error + export_summary" where
  "inspect_lines X rowid ids summary [] = Inr summary"
| "inspect_lines X rowid ids summary (framed # rest) =
     (let line = butlast framed in
     and_then (reject_if (length line > 1024 * 1024) (EvidenceError ''export record too large'')) (\<lambda>_.
     and_then (ok_or (export_record_from_slice X line) (EvidenceError ''invalid export record'')) (\<lambda>row.
     and_then (reject_if (\<not> record_identity_ok X rowid ids row) (EvidenceError ''invalid export record identity'')) (\<lambda>_.
     and_then (unhex 32 (xr_record_hash row)) (\<lambda>_.
     and_then (extend_summary (xr_sequence_number row) summary) (\<lambda>summary.
     inspect_lines X (xr_rowid row) (xr_event_id row # ids) summary rest))))))"

definition empty_summary :: export_summary where
  "empty_summary = \<lparr>es_first_sequence = None, es_last_sequence = None, es_record_count = 0, es_gaps = []\<rparr>"

definition inspect_export :: "'z xrext_scheme \<Rightarrow> string \<Rightarrow> evidence_error + export_summary" where
  "inspect_export X bytes =
     and_then (reject_if (length bytes > MAX_EXPORT_BYTES \<or> (bytes \<noteq> [] \<and> last bytes \<noteq> CHR 0x0A))
       (EvidenceError ''invalid export framing or size'')) (\<lambda>_.
     inspect_lines X 0 [] empty_summary (split_inclusive (CHR 0x0A) bytes))"

subsection \<open>Snapshots\<close>

text \<open>Reading a row: a negative sequence number or a missing hash does not have the type of its field.\<close>

definition record_of_row :: "bool \<Rightarrow> audit_row \<Rightarrow> audit_error + export_record" where
  "record_of_row has_approver r =
     and_then (reject_if (ar_sequence r < 0) (AuditSqlite ''Integer out of range'')) (\<lambda>_.
     and_then (ok_or (ar_record_hash r) (AuditSqlite ''Invalid column type Null'')) (\<lambda>hash.
     Inr \<lparr>xr_schema = ''opaque.audit.v1'', xr_rowid = ar_rowid r, xr_event_id = ar_event_id r,
          xr_sequence_number = of_int (ar_sequence r), xr_ts_utc_ms = ar_ts r, xr_level = ar_level r, xr_kind = ar_kind r,
          xr_request_id = ar_request_id r, xr_approval_id = ar_approval_id r, xr_client_json = ar_client_json r,
          xr_operation = ar_operation r, xr_safety = ar_safety r, xr_target_json = ar_target_json r,
          xr_outcome = ar_outcome r, xr_latency_ms = ar_latency r, xr_secret_names = ar_secret_names r,
          xr_policy_decision = ar_policy_decision r, xr_detail = ar_detail r, xr_workspace_json = ar_workspace_json r,
          xr_request_hash = ar_request_hash r, xr_approver_json = (if has_approver then ar_approver_json r else None),
          xr_record_hash = hash\<rparr>))"

fun export_rows :: "'z xrext_scheme \<Rightarrow> bool \<Rightarrow> string \<Rightarrow> nat \<Rightarrow> audit_row list \<Rightarrow> audit_error + string" where
  "export_rows X has_approver bytes n [] = Inr bytes"
| "export_rows X has_approver bytes n (r # rs) =
     and_then (record_of_row has_approver r) (\<lambda>record.
     and_then (ok_or (export_record_to_vec X record) (AuditOther ''audit export serialization failed'')) (\<lambda>json.
     let bytes = bytes @ json @ [CHR 0x0A] in
     and_then (reject_if (length bytes > MAX_EXPORT_BYTES \<or> Suc n > 100000)
       (AuditOther ''audit checkpoint export exceeds bounded snapshot; archive before checkpointing'')) (\<lambda>_.
     export_rows X has_approver bytes (Suc n) rs)))"

definition export_snapshot :: "'z xrext_scheme \<Rightarrow> audit_db \<Rightarrow> audit_error + string" where
  "export_snapshot X db =
     (case db_events db of
        None \<Rightarrow> Inl (AuditSqlite ''no such table: audit_events'')
      | Some rows \<Rightarrow>
          if \<not> db_record_hash_column db then Inl (AuditSqlite ''no such column: record_hash'')
          else export_rows X (db_approver_column db) [] 0 (take 100001 rows))"

definition verified_snapshot ::
  "'z xrext_scheme \<Rightarrow> 'y aext_scheme \<Rightarrow> string option \<Rightarrow> audit_db \<Rightarrow> evidence_error + audit_snapshot" where
  "verified_snapshot X A key_file db =
     and_then (ok_or key_file (EvidenceError ''audit key unavailable'')) (\<lambda>key.
     and_then (map_err (\<lambda>_. EvidenceError ''audit authentication failed'') (require_valid_chain A key False db)) (\<lambda>_.
     and_then (map_err (\<lambda>_. EvidenceError ''audit export failed'') (export_snapshot X db)) (\<lambda>bytes.
     and_then (inspect_export X bytes) (\<lambda>summary.
     Inr \<lparr>vs_bytes = bytes, vs_summary = summary\<rparr>))))"

definition inspect_legacy_export ::
  "'z xrext_scheme \<Rightarrow> 'y aext_scheme \<Rightarrow> string option \<Rightarrow> audit_db \<Rightarrow> audit_error + string" where
  "inspect_legacy_export X A key_file db =
     and_then (ok_or key_file (AuditOther ''audit chain key is missing'')) (\<lambda>key.
     and_then (require_valid_chain A key True db) (\<lambda>_. export_snapshot X db))"

text \<open>\<open>CREATE TABLE IF NOT EXISTS\<close> and the two \<open>ALTER TABLE\<close>: an existing row takes the defaults of the new columns.\<close>

definition add_head_columns :: "audit_db \<Rightarrow> audit_db" where
  "add_head_columns db =
     db\<lparr>db_heads := Some (map (\<lambda>(i, h). (i, h\<lparr>hd_format_version := 1, hd_authenticator := []\<rparr>))
                            (case db_heads db of None \<Rightarrow> [] | Some hs \<Rightarrow> hs)),
        db_head_columns := True, db_head_triggers := (db_heads db \<noteq> None \<and> db_head_triggers db)\<rparr>"

definition upgrade_legacy_head ::
  "'z xrext_scheme \<Rightarrow> 'y aext_scheme \<Rightarrow> string option \<Rightarrow> string \<Rightarrow> audit_db \<Rightarrow> audit_error + audit_db" where
  "upgrade_legacy_head X A key_file trusted_export_sha256 db =
     and_then (map_err (\<lambda>_. AuditOther ''invalid trusted export digest'') (unhex 32 trusted_export_sha256)) (\<lambda>_.
     and_then (ok_or key_file (AuditOther ''audit chain key is missing'')) (\<lambda>key.
     and_then (reject_if (db_heads db \<noteq> None \<and> db_head_columns db)
       (AuditOther ''audit head is already versioned; refusing downgrade/re-anchor'')) (\<lambda>_.
     and_then (require_valid_chain A key True db) (\<lambda>_.
     and_then (export_snapshot X db) (\<lambda>export.
     and_then (reject_if (export = []) (AuditOther (''empty legacy export cannot establish a historical frontier; ''
         @ ''preserve custody and independent history without upgrading''))) (\<lambda>_.
     and_then (reject_if (sha256 X export \<noteq> trusted_export_sha256)
       (AuditOther ''independently trusted export digest does not match; no upgrade performed'')) (\<lambda>_.
     let db1 = add_head_columns db; rows = (case db_events db1 of None \<Rightarrow> [] | Some rs \<Rightarrow> rs) in
     and_then (if rows \<noteq> []
         then map_err AuditSqlite (and_then (ok_or (ar_record_hash (last rows)) ''Invalid column type Null'') (\<lambda>hash.
                Inr (hash, ar_sequence (last rows))))
         else and_then (retention_boundary A key db1) (\<lambda>b.
                Inr (case b of None \<Rightarrow> (CHAIN_GENESIS, - 1) | Some p \<Rightarrow> p))) (\<lambda>(hash, sequence).
     let db2 = set_chain_head A key hash sequence db1 in
     and_then (require_valid_chain A key False db2) (\<lambda>_.
     and_then (export_snapshot X db2) (\<lambda>again.
     and_then (reject_if (sha256 X again \<noteq> trusted_export_sha256)
       (AuditOther ''audit export changed during legacy upgrade; no upgrade performed'')) (\<lambda>_.
     Inr db2)))))))))))"

subsection \<open>Gaps and ranges\<close>

fun gaps_of :: "u64 list \<Rightarrow> coverage_gap list" where
  "gaps_of (a # b # ns) =
     (if b > a + 1 then [\<lparr>cg_first_sequence = a + 1, cg_last_sequence = b - 1\<rparr>] else []) @ gaps_of (b # ns)"
| "gaps_of _ = []"

definition summarise :: "u64 list \<Rightarrow> export_summary" where
  "summarise ns =
     \<lparr>es_first_sequence = (if ns = [] then None else Some (hd ns)), es_last_sequence = (if ns = [] then None else Some (last ns)),
      es_record_count = of_nat (length ns), es_gaps = gaps_of ns\<rparr>"

definition in_gap :: "coverage_gap \<Rightarrow> u64 \<Rightarrow> bool" where
  "in_gap g n = (cg_first_sequence g \<le> n \<and> n \<le> cg_last_sequence g)"

lemma unat_succ: assumes "(a :: u64) < b" shows "unat (a + 1) = unat a + 1"
proof -
  have "unat b < 2 ^ LENGTH(64)" by (rule unsigned_less)
  then show ?thesis using assms by (simp add: unat_word_ariths word_less_nat_alt)
qed

lemma unat_pred: assumes "(a :: u64) < b" shows "unat (b - 1) = unat b - 1"
proof -
  have "1 \<le> b" using assms by (simp add: word_le_nat_alt word_less_nat_alt)
  then show ?thesis by (simp add: unat_sub)
qed

lemma succ_le_word: "(a :: u64) < b \<Longrightarrow> a + 1 \<le> n \<longleftrightarrow> a < n"
  using unat_succ[of a b] by (simp add: word_le_nat_alt word_less_nat_alt Suc_le_eq)

lemma pred_ge_word: "(a :: u64) < b \<Longrightarrow> n \<le> b - 1 \<longleftrightarrow> n < b"
  using unat_pred[of a b] by (auto simp: word_le_nat_alt word_less_nat_alt)

lemma gaps_above: "sorted_wrt (<) ns \<Longrightarrow> g \<in> set (gaps_of ns) \<Longrightarrow> hd ns < cg_first_sequence g"
proof (induction ns rule: gaps_of.induct)
  case (1 a b ns)
  have ab: "a < b" using 1(2) by simp
  show ?case
  proof (cases "g \<in> set (gaps_of (b # ns))")
    case True
    then have "b < cg_first_sequence g" using 1 by simp
    then show ?thesis using ab by simp
  next
    case False
    then have "g = \<lparr>cg_first_sequence = a + 1, cg_last_sequence = b - 1\<rparr>" using 1(3) by (auto split: if_splits)
    then show ?thesis using succ_le_word[OF ab, of "a + 1"] by simp
  qed
qed simp_all

lemma gaps_exact:
  "sorted_wrt (<) ns \<Longrightarrow> ns \<noteq> [] \<Longrightarrow> hd ns \<le> n \<Longrightarrow> n \<le> last ns \<Longrightarrow> n \<in> set ns \<longleftrightarrow> \<not> (\<exists>g\<in>set (gaps_of ns). in_gap g n)"
proof (induction ns rule: gaps_of.induct)
  case (1 a b ns)
  have ab: "a < b" using 1(2) by simp
  have above: "\<not> in_gap g m" if "g \<in> set (gaps_of (b # ns))" "m \<le> b" for g m
    using gaps_above[OF _ that(1)] 1(2) that(2) by (auto simp: in_gap_def)
  have here: "(\<exists>g\<in>set (if b > a + 1 then [\<lparr>cg_first_sequence = a + 1, cg_last_sequence = b - 1\<rparr>] else []). in_gap g n) \<longleftrightarrow> a < n \<and> n < b"
  proof (cases "b > a + 1")
    case True
    then show ?thesis by (simp add: in_gap_def succ_le_word[OF ab] pred_ge_word[OF ab])
  next
    case False
    then have "b \<le> n" if "a < n" using succ_le_word[OF ab, of n] that by simp
    then show ?thesis using False by auto
  qed
  show ?case
  proof (cases "n < b")
    case True
    then have "n \<notin> set (b # ns)" using 1(2) by auto
    then show ?thesis using here above[of _ n] True 1(4) by (auto simp: less_le)
  next
    case False
    then have "n \<in> set (b # ns) \<longleftrightarrow> \<not> (\<exists>g\<in>set (gaps_of (b # ns)). in_gap g n)" using 1 by simp
    moreover have "n \<noteq> a" using False ab by auto
    ultimately show ?thesis using here False by auto
  qed
qed auto

lemma ascending_bounds: "sorted_wrt (<) ns \<Longrightarrow> x \<in> set ns \<Longrightarrow> hd ns \<le> x \<and> x \<le> (last ns :: u64)"
  by (induction ns) (auto simp: less_imp_le intro: order_trans)

lemma gaps_snoc:
  "ns \<noteq> [] \<Longrightarrow> gaps_of (ns @ [n]) = gaps_of ns
     @ (if n > last ns + 1 then [\<lparr>cg_first_sequence = last ns + 1, cg_last_sequence = n - 1\<rparr>] else [])"
  by (induction ns rule: gaps_of.induct) simp_all

lemma extend_summary_Inr:
  assumes "extend_summary n (summarise ns) = Inr s" "length ns \<le> 100000"
  shows "s = summarise (ns @ [n])" "ns \<noteq> [] \<Longrightarrow> last ns < n" "length (ns @ [n]) \<le> 100000"
proof -
  have c: "of_nat (length ns) + 1 = (of_nat (length (ns @ [n])) :: u64)" by simp
  have "unat (of_nat (length (ns @ [n])) :: u64) = length (ns @ [n])"
    using assms(2) by (simp only: unat_of_nat) simp
  then have b: "length (ns @ [n]) \<le> 100000" if "\<not> (of_nat (length (ns @ [n])) :: u64) > 100000"
    using that by (simp add: word_less_nat_alt)
  have "s = summarise (ns @ [n]) \<and> (ns \<noteq> [] \<longrightarrow> last ns < n) \<and> length (ns @ [n]) \<le> 100000"
  proof (cases "ns = []")
    case True
    then show ?thesis using assms(1) b by (auto simp: extend_summary_def summarise_def)
  next
    case False
    then show ?thesis using assms(1) b gaps_snoc[OF False, of n]
      by (auto simp: extend_summary_def summarise_def c split: if_splits)
  qed
  then show "s = summarise (ns @ [n])" "ns \<noteq> [] \<Longrightarrow> last ns < n" "length (ns @ [n]) \<le> 100000" by auto
qed

lemma inspect_lines_Inr:
  assumes "inspect_lines X rowid ids (summarise ns) ls = Inr s" "sorted_wrt (<) ns" "length ns \<le> 100000"
  shows "\<exists>rows. list_all2 (\<lambda>l r. export_record_from_slice X (butlast l) = Some r) ls rows
    \<and> s = summarise (ns @ map xr_sequence_number rows) \<and> sorted_wrt (<) (ns @ map xr_sequence_number rows)
    \<and> sorted_wrt (<) (rowid # map xr_rowid rows) \<and> distinct (map xr_event_id rows) \<and> set (map xr_event_id rows) \<inter> set ids = {}
    \<and> length (ns @ map xr_sequence_number rows) \<le> 100000"
  using assms
proof (induction ls arbitrary: rowid ids ns)
  case Nil
  then show ?case by (intro exI[of _ "[]"]) simp
next
  case (Cons l ls)
  then obtain row t where row: "export_record_from_slice X (butlast l) = Some row" "record_identity_ok X rowid ids row"
      "extend_summary (xr_sequence_number row) (summarise ns) = Inr t"
      "inspect_lines X (xr_rowid row) (xr_event_id row # ids) t ls = Inr s"
    by (auto simp: Let_def)
  let ?n = "xr_sequence_number row"
  note e = extend_summary_Inr[OF row(3) Cons.prems(3)]
  have srt: "sorted_wrt (<) (ns @ [?n])"
  proof (cases "ns = []")
    case False
    have "\<forall>x\<in>set ns. x \<le> last ns" using ascending_bounds[OF Cons.prems(2)] by blast
    then show ?thesis using e(2)[OF False] Cons.prems(2) by (auto simp: sorted_wrt_append)
  qed simp
  obtain rows where r: "list_all2 (\<lambda>l r. export_record_from_slice X (butlast l) = Some r) ls rows"
      "s = summarise ((ns @ [?n]) @ map xr_sequence_number rows)" "sorted_wrt (<) ((ns @ [?n]) @ map xr_sequence_number rows)"
      "sorted_wrt (<) (xr_rowid row # map xr_rowid rows)" "distinct (map xr_event_id rows)"
      "set (map xr_event_id rows) \<inter> set (xr_event_id row # ids) = {}" "length ((ns @ [?n]) @ map xr_sequence_number rows) \<le> 100000"
    using Cons.IH[OF row(4)[unfolded e(1)] srt e(3)] by blast
  have i: "rowid < xr_rowid row" "xr_event_id row \<notin> set ids" using row(2) by (auto simp: record_identity_ok_def)
  then have "sorted_wrt (<) (rowid # map xr_rowid (row # rows))" using r(4) by (auto intro: less_trans)
  moreover have "distinct (map xr_event_id (row # rows))" "set (map xr_event_id (row # rows)) \<inter> set ids = {}" using r(5,6) i(2) by auto
  ultimately show ?case using row(1) r(1,2,3,7) by (intro exI[of _ "row # rows"]) simp
qed

lemma inspect_export_Inr:
  assumes "inspect_export X bytes = Inr s"
  obtains rows where "list_all2 (\<lambda>l r. export_record_from_slice X (butlast l) = Some r) (split_inclusive (CHR 0x0A) bytes) rows"
    "s = summarise (map xr_sequence_number rows)" "sorted_wrt (<) (map xr_sequence_number rows)"
    "sorted_wrt (<) (map xr_rowid rows)" "distinct (map xr_event_id rows)" "length rows \<le> 100000"
proof -
  have "inspect_lines X 0 [] (summarise []) (split_inclusive (CHR 0x0A) bytes) = Inr s"
    using assms by (simp add: inspect_export_def summarise_def empty_summary_def)
  from inspect_lines_Inr[OF this] show thesis using that by auto
qed

lemma split_inclusive_lines:
  "s = [] \<or> last s = d \<Longrightarrow> \<exists>lines. split_inclusive d s = map (\<lambda>l. l @ [d]) lines
     \<and> s = concat (map (\<lambda>l. l @ [d]) lines) \<and> (\<forall>l\<in>set lines. d \<notin> set l)"
proof (induction s)
  case (Cons c s)
  then obtain lines where l: "split_inclusive d s = map (\<lambda>l. l @ [d]) lines" "s = concat (map (\<lambda>l. l @ [d]) lines)"
    "\<forall>l\<in>set lines. d \<notin> set l" by (auto split: if_splits)
  show ?case
  proof (cases "c = d")
    case True
    then show ?thesis using l by (intro exI[of _ "[] # lines"]) simp
  next
    case False
    then have "s \<noteq> []" using Cons.prems by auto
    then obtain a r where r: "lines = a # r" using l(2) by (cases lines) auto
    show ?thesis using False l unfolding r by (intro exI[of _ "(c # a) # r"]) auto
  qed
qed simp

subsection \<open>Upgrading a legacy log\<close>

lemma verify_rows_end:
  "verify_rows A key ap prev tail n rows = Inr (e, t, k) \<Longrightarrow> rows \<noteq> [] \<Longrightarrow>
     ar_record_hash (last rows) = Some e \<and> t = Some (ar_sequence (last rows))"
proof (induction rows arbitrary: prev tail n)
  case (Cons r rs)
  let ?h = "chain_hash A key prev (canon_from_row ap r)"
  have v: "ar_record_hash r = Some ?h" "verify_rows A key ap ?h (Some (ar_sequence r)) (Suc n) rs = Inr (e, t, k)"
    using Cons.prems(1) by (auto simp: Let_def split: if_splits)
  show ?case
  proof (cases "rs = []")
    case True
    then show ?thesis using v by simp
  next
    case False
    then show ?thesis using Cons.IH[OF v(2) False] by simp
  qed
qed simp

lemma require_valid_chain_Inr:
  "require_valid_chain A key legacy db = Inr u \<longleftrightarrow>
     metadata_fault ''chain_head'' (db_heads db) (db_head_triggers db) = None
     \<and> metadata_fault ''retention_boundary'' (db_boundaries db) (db_boundary_triggers db) = None \<and> db_record_hash_column db
     \<and> (\<exists>b rows e t k. retention_boundary A key db = Inr b \<and> db_events db = Some rows
          \<and> verify_rows A key (db_approver_column db) (fst (case b of Some (hash, seq) \<Rightarrow> (hash, Some seq) | None \<Rightarrow> (CHAIN_GENESIS, None)))
              (snd (case b of Some (hash, seq) \<Rightarrow> (hash, Some seq) | None \<Rightarrow> (CHAIN_GENESIS, None))) 0 rows = Inr (e, t, k)
          \<and> cv_ok (check_tail A key legacy db e t k))"
  unfolding require_valid_chain_def verify_audit_connection_def
  by (auto simp: broken_def case_prod_beta split: option.splits sum.splits audit_error.splits if_splits) blast

lemma export_rows_grow: "export_rows X ap bytes n rows = Inr out \<Longrightarrow> rows \<noteq> [] \<Longrightarrow> out \<noteq> []"
proof (induction rows arbitrary: bytes n)
  case (Cons r rs)
  then obtain json where j: "export_rows X ap (bytes @ json @ [CHR 0x0A]) (Suc n) rs = Inr out" by (auto simp: Let_def)
  show ?case
  proof (cases "rs = []")
    case True
    then show ?thesis using j by auto
  next
    case False
    then show ?thesis using Cons.IH[OF j] by blast
  qed
qed simp

definition upgraded :: "'y aext_scheme \<Rightarrow> string \<Rightarrow> audit_row \<Rightarrow> audit_db \<Rightarrow> audit_db" where
  "upgraded A key r db =
     db\<lparr>db_heads := Some [(0, \<lparr>hd_last_hash = the (ar_record_hash r), hd_last_sequence = ar_sequence r, hd_format_version = 1,
          hd_authenticator = head_signature A key (the (ar_record_hash r)) (ar_sequence r)\<rparr>)],
        db_head_columns := True, db_head_triggers := False\<rparr>"

lemma upgraded_head:
  assumes v: "require_valid_chain A key True db = Inr ()" and r: "db_events db = Some rows" "rows \<noteq> []"
  obtains h where "ar_record_hash (last rows) = Some h"
    "set_chain_head A key h (ar_sequence (last rows)) (add_head_columns db) = upgraded A key (last rows) db"
    "require_valid_chain A key False (upgraded A key (last rows) db) = Inr ()"
proof -
  note c = v[unfolded require_valid_chain_Inr]
  obtain b e t k where b: "retention_boundary A key db = Inr b"
      "verify_rows A key (db_approver_column db) (fst (case b of Some (hash, seq) \<Rightarrow> (hash, Some seq) | None \<Rightarrow> (CHAIN_GENESIS, None)))
         (snd (case b of Some (hash, seq) \<Rightarrow> (hash, Some seq) | None \<Rightarrow> (CHAIN_GENESIS, None))) 0 rows = Inr (e, t, k)"
    using c r(1) by auto
  have l: "ar_record_hash (last rows) = Some e" "t = Some (ar_sequence (last rows))" using verify_rows_end[OF b(2) r(2)] by auto
  have m: "metadata_fault ''chain_head'' (db_heads db) (db_head_triggers db) = None" using c by blast
  have f: "filter (\<lambda>x. fst x \<noteq> 0) (map (\<lambda>(i, h). (i, h\<lparr>hd_format_version := 1, hd_authenticator := []\<rparr>)) hs) = []"
    if "\<not> (length hs > 1 \<or> (hs \<noteq> [] \<and> fst (hd hs) \<noteq> 0))" for hs :: "(int \<times> chain_head) list"
    using that by (cases hs) auto
  have h: "set_chain_head A key e (ar_sequence (last rows)) (add_head_columns db) = upgraded A key (last rows) db"
    using m f l(1)
    by (auto simp: set_chain_head_def add_head_columns_def upgraded_def upsert_def metadata_fault_def split: option.splits if_splits)
  have "require_valid_chain A key False (upgraded A key (last rows) db) = Inr ()"
  proof -
    let ?d = "upgraded A key (last rows) db"
    have s: "metadata_fault ''chain_head'' (db_heads ?d) (db_head_triggers ?d) = None" by (simp add: metadata_fault_def upgraded_def)
    have k: "retention_boundary A key ?d = Inr b" using b(1) by (simp add: retention_boundary_def upgraded_def)
    have "cv_ok (check_tail A key False ?d e t k)"
      using l by (simp add: check_tail_def upgraded_def singleton_row_def head_authentic_def Let_def)
    moreover have "db_boundaries ?d = db_boundaries db" "db_boundary_triggers ?d = db_boundary_triggers db"
      "db_record_hash_column ?d = db_record_hash_column db" "db_events ?d = db_events db" "db_approver_column ?d = db_approver_column db"
      by (simp_all add: upgraded_def)
    ultimately show ?thesis unfolding require_valid_chain_Inr using s k b(2) c r(1) by auto
  qed
  then show thesis using that l(1) h by blast
qed

text \<open>A legacy audit log is upgraded exactly when the pin is a digest, the key is there, the head has no version yet, the
  log authenticates as a legacy log, its export is not empty and its digest is the pin.  The upgraded log differs only in
  its head, which is now signed and names the last record; every record and the retention boundary stay as they were, the
  export is still the pinned one and the log authenticates without the legacy exception.\<close>

theorem legacy_upgrade_exact:
  "upgrade_legacy_head X A key_file pin db = Inr db' \<longleftrightarrow>
     (\<exists>key export rows. is_ok (unhex 32 pin) \<and> key_file = Some key \<and> \<not> (db_heads db \<noteq> None \<and> db_head_columns db)
        \<and> require_valid_chain A key True db = Inr () \<and> export_snapshot X db = Inr export \<and> export \<noteq> [] \<and> sha256 X export = pin
        \<and> db_events db = Some rows \<and> db' = upgraded A key (last rows) db
        \<and> export_snapshot X db' = Inr export \<and> require_valid_chain A key False db' = Inr ())" (is "?l \<longleftrightarrow> ?r")
proof -
  have e: "export_snapshot X (upgraded A key r db) = export_snapshot X db" for key r
    by (simp add: export_snapshot_def upgraded_def split: option.split)
  have ne: "rows \<noteq> []" if "export_snapshot X db = Inr export" "export \<noteq> []" "db_events db = Some rows" for export rows
    using that by (auto simp: export_snapshot_def split: if_splits)
  have some: "\<exists>rows. db_events db = Some rows" if "export_snapshot X db = Inr export" for export
    using that by (auto simp: export_snapshot_def split: option.splits)
  have a: "db_events (add_head_columns db) = db_events db" by (simp add: add_head_columns_def)
  have step: "upgrade_legacy_head X A (Some key) pin db = Inr (upgraded A key (last rows) db)"
    if "unhex 32 pin = Inr b" "\<not> (db_heads db \<noteq> None \<and> db_head_columns db)"
      and v: "require_valid_chain A key True db = Inr ()" and x: "export_snapshot X db = Inr export" "export \<noteq> []"
      and "sha256 X export = pin" and r: "db_events db = Some rows" for key export rows b
  proof -
    obtain h where "ar_record_hash (last rows) = Some h"
      "set_chain_head A key h (ar_sequence (last rows)) (add_head_columns db) = upgraded A key (last rows) db"
      "require_valid_chain A key False (upgraded A key (last rows) db) = Inr ()"
      by (rule upgraded_head[OF v r ne[OF x r]])
    then show ?thesis using that ne[OF x r] unfolding upgrade_legacy_head_def by (simp add: a e Let_def)
  qed
  have unit: "m = Inr x \<Longrightarrow> m = Inr ()" for m :: "audit_error + unit" and x by simp
  show ?thesis
  proof
    assume l: ?l
    then obtain key b export where k: "unhex 32 pin = Inr b" "key_file = Some key" "\<not> (db_heads db \<noteq> None \<and> db_head_columns db)"
        "require_valid_chain A key True db = Inr ()" "export_snapshot X db = Inr export" "export \<noteq> []" "sha256 X export = pin"
      unfolding upgrade_legacy_head_def and_then_Inr ok_or_Inr reject_if_Inr map_err_Inr not_not
      by (elim exE conjE) (rule that; (assumption | erule unit))
    obtain rows where r: "db_events db = Some rows" using some[OF k(5)] by blast
    have d: "db' = upgraded A key (last rows) db" using l step[OF k(1,3-7) r] k(2) by simp
    obtain h where "require_valid_chain A key False (upgraded A key (last rows) db) = Inr ()"
      by (rule upgraded_head[OF k(4) r ne[OF k(5,6) r]])
    then show ?r using k r d e by auto
  next
    assume ?r
    then show ?l using step by (auto simp: is_ok_iff)
  qed
qed

end
