(* ===== verification/Evidence_Checkpoint.thy ===== *)
theory Evidence_Checkpoint
  imports Audit_Export
begin

text \<open>
  The producer checkpoints and retention receipts of \<open>src/crates/opaque-core/src/evidence_checkpoint.rs\<close>: a checkpoint
  signs the digest and the range of one export of the audit log (version 1) or of the scope ledger (version 2) and names
  its predecessor, a custodian's receipt signs a checkpoint.  Encodings are parameters; a verifying key is its 32 bytes.
\<close>

definition MAX_DOCUMENT_BYTES :: nat where "MAX_DOCUMENT_BYTES = 64 * 1024"
definition SCOPE_CHECKPOINT_VERSION :: u32 where "SCOPE_CHECKPOINT_VERSION = 2"

record evidence_stream =
  sc_tenant_id :: string
  sc_broker_id :: string
  sc_stream_id :: string
  sc_generation :: string

record producer_trust =
  pt_schema_version :: u32
  pt_scope :: evidence_stream
  pt_key_id :: string
  pt_public_key :: string

record checkpoint =
  cp_schema_version :: u32
  cp_scope :: evidence_stream
  cp_key_id :: string
  cp_checkpoint_sequence :: u64
  cp_first_sequence :: "u64 option"
  cp_last_sequence :: "u64 option"
  cp_record_count :: u64
  cp_export_sha256 :: string
  cp_previous_checkpoint_sha256 :: "string option"
  cp_build_identity :: string
  cp_coverage_start :: "u64 option"
  cp_gaps :: "coverage_gap list"

record signed_checkpoint =
  sk_payload :: checkpoint
  sk_signature :: string

record custodian_trust =
  ct_schema_version :: u32
  ct_key_id :: string
  ct_public_key :: string

record retention_receipt =
  rt_schema_version :: u32
  rt_custodian_key_id :: string
  rt_scope :: evidence_stream
  rt_checkpoint_sha256 :: string
  rt_export_sha256 :: string
  rt_first_sequence :: "u64 option"
  rt_last_sequence :: "u64 option"
  rt_record_count :: u64
  rt_object_id :: string
  rt_object_version :: string
  rt_previous_receipt_sha256 :: "string option"
  rt_received_at_unix_ms :: i64
  rt_retain_until_unix_ms :: i64

record signed_retention_receipt =
  sn_payload :: retention_receipt
  sn_signature :: string

record retention_request =
  rq_schema_version :: u32
  rq_checkpoint :: signed_checkpoint
  rq_checkpoint_sha256 :: string
  rq_export_sha256 :: string

record verified_checkpoint =
  vc_checkpoint_sha256 :: string
  vc_export_sha256 :: string

record cpext = xrext +
  checkpoint_to_vec :: "checkpoint \<Rightarrow> string option"
  signed_checkpoint_to_vec :: "signed_checkpoint \<Rightarrow> string option"
  retention_to_vec :: "retention_receipt \<Rightarrow> string option"
  signed_retention_to_vec :: "signed_retention_receipt \<Rightarrow> string option"

subsection \<open>Documents, labels and keys\<close>

definition evidence_key_id :: "'z ext_scheme \<Rightarrow> string \<Rightarrow> string" where
  "evidence_key_id X public_key = sha256 X public_key"

definition canonical_document :: "string option \<Rightarrow> evidence_error + string" where
  "canonical_document json =
     and_then (ok_or json (EvidenceError ''invalid document'')) (\<lambda>bytes.
     and_then (reject_if (length bytes > MAX_DOCUMENT_BYTES) (EvidenceError ''document too large'')) (\<lambda>_. Inr bytes))"

definition decode_document :: "(string \<Rightarrow> 'a option) \<Rightarrow> string \<Rightarrow> evidence_error + 'a" where
  "decode_document from_slice bytes =
     and_then (reject_if (length bytes > MAX_DOCUMENT_BYTES) (EvidenceError ''document too large'')) (\<lambda>_.
     ok_or (from_slice bytes) (EvidenceError ''invalid document''))"

definition evidence_label :: "string \<Rightarrow> bool" where
  "evidence_label v =
     (v \<noteq> [] \<and> length v \<le> 128 \<and> list_all (\<lambda>b. is_ascii_alphanumeric b \<or> b \<in> set ''._:/-'') v)"

definition stream_validate :: "evidence_stream \<Rightarrow> evidence_error + unit" where
  "stream_validate s =
     reject_if (\<not> list_all evidence_label [sc_tenant_id s, sc_broker_id s, sc_stream_id s, sc_generation s])
       (EvidenceError ''invalid scope'')"

definition trusted_key :: "'z ext_scheme \<Rightarrow> u32 \<Rightarrow> string \<Rightarrow> string \<Rightarrow> evidence_error + string" where
  "trusted_key X version i public =
     and_then (unhex 32 public) (\<lambda>key.
     and_then (reject_if (\<not> verifying_key_ok X key) (EvidenceError ''invalid public key'')) (\<lambda>_.
     and_then (reject_if (version \<noteq> 1 \<or> evidence_key_id X key \<noteq> i) (EvidenceError ''unsupported trust or key identity'')) (\<lambda>_.
     Inr key)))"

definition producer_verifying_key :: "'z ext_scheme \<Rightarrow> producer_trust \<Rightarrow> evidence_error + string" where
  "producer_verifying_key X t =
     and_then (stream_validate (pt_scope t)) (\<lambda>_. trusted_key X (pt_schema_version t) (pt_key_id t) (pt_public_key t))"

definition custodian_verifying_key :: "'z ext_scheme \<Rightarrow> custodian_trust \<Rightarrow> evidence_error + string" where
  "custodian_verifying_key X t = trusted_key X (ct_schema_version t) (ct_key_id t) (ct_public_key t)"

definition document_message :: "string \<Rightarrow> string option \<Rightarrow> evidence_error + string" where
  "document_message domain json = and_then (canonical_document json) (\<lambda>bytes. Inr (domain @ bytes))"

subsection \<open>Checkpoints\<close>

definition checked_sub_u64 :: "u64 \<Rightarrow> u64 \<Rightarrow> u64 option" where
  "checked_sub_u64 a b = (if a < b then None else Some (a - b))"

fun sum_gaps :: "u64 \<Rightarrow> u64 \<Rightarrow> u64 \<Rightarrow> u64 option \<Rightarrow> coverage_gap list \<Rightarrow> evidence_error + u64" where
  "sum_gaps lo hi missing previous [] = Inr missing"
| "sum_gaps lo hi missing previous (g # gs) =
     and_then (reject_if (cg_first_sequence g \<le> lo \<or> cg_last_sequence g \<ge> hi
         \<or> cg_first_sequence g > cg_last_sequence g
         \<or> is_some_and previous (\<lambda>p. cg_first_sequence g \<le> p)) (EvidenceError ''invalid coverage gap'')) (\<lambda>_.
     and_then (ok_or (checked_add_u64 missing (cg_last_sequence g - cg_first_sequence g + 1)) (EvidenceError ''range overflow'')) (\<lambda>missing.
     sum_gaps lo hi missing (Some (cg_last_sequence g)) gs))"

definition checkpoint_range_ok :: "checkpoint \<Rightarrow> evidence_error + unit" where
  "checkpoint_range_ok p =
     (case (cp_first_sequence p, cp_last_sequence p) of
        (None, None) \<Rightarrow>
          reject_if (\<not> (cp_record_count p = 0 \<and> cp_coverage_start p = None \<and> cp_gaps p = [])) (EvidenceError ''invalid range'')
      | (Some lo, Some hi) \<Rightarrow>
          if cp_record_count p > 0 \<and> lo \<le> hi \<and> cp_coverage_start p = Some lo then
            and_then (sum_gaps lo hi 0 None (cp_gaps p)) (\<lambda>missing.
            reject_if (Option.bind (Option.bind (checked_sub_u64 hi lo) (\<lambda>v. checked_add_u64 v 1)) (\<lambda>v. checked_sub_u64 v missing)
                \<noteq> Some (cp_record_count p)) (EvidenceError ''range count mismatch''))
          else Inl (EvidenceError ''invalid range'')
      | _ \<Rightarrow> Inl (EvidenceError ''invalid range''))"

definition validate_checkpoint :: "checkpoint \<Rightarrow> evidence_error + unit" where
  "validate_checkpoint p =
     and_then (stream_validate (cp_scope p)) (\<lambda>_.
     and_then (unhex 32 (cp_key_id p)) (\<lambda>_.
     and_then (unhex 32 (cp_export_sha256 p)) (\<lambda>_.
     and_then (case cp_previous_checkpoint_sha256 p of None \<Rightarrow> Inr [] | Some previous \<Rightarrow> unhex 32 previous) (\<lambda>_.
     and_then (reject_if (cp_schema_version p \<notin> {1, SCOPE_CHECKPOINT_VERSION}
         \<or> \<not> evidence_label (cp_build_identity p)
         \<or> (cp_checkpoint_sequence p = 1) \<noteq> (cp_previous_checkpoint_sha256 p = None)
         \<or> cp_checkpoint_sequence p = 0
         \<or> length (cp_gaps p) > 128) (EvidenceError ''invalid checkpoint metadata'')) (\<lambda>_.
     checkpoint_range_ok p)))))"

definition checkpoint_digest :: "'z cpext_scheme \<Rightarrow> signed_checkpoint \<Rightarrow> evidence_error + string" where
  "checkpoint_digest X c = and_then (canonical_document (signed_checkpoint_to_vec X c)) (\<lambda>bytes. Inr (sha256 X bytes))"

definition checkpoint_domain :: "u32 \<Rightarrow> string" where
  "checkpoint_domain version =
     (if version = SCOPE_CHECKPOINT_VERSION then ''opaque.evidence.scope-checkpoint.v2'' @ [CHR 0x00]
      else ''opaque.evidence.checkpoint.v1'' @ [CHR 0x00])"

definition scope_summary :: "scope_evidence \<Rightarrow> producer_trust \<Rightarrow> evidence_error + export_summary" where
  "scope_summary E t =
     and_then (reject_if (ao_tenant_id (se_owner E) \<noteq> sc_tenant_id (pt_scope t)
         \<or> ao_broker_id (se_owner E) \<noteq> sc_broker_id (pt_scope t)
         \<or> ao_generation (se_owner E) \<noteq> sc_generation (pt_scope t)) (EvidenceError ''scope export owner differs from enrollment'')) (\<lambda>_.
     Inr \<lparr>es_first_sequence = (case se_events E of [] \<Rightarrow> None | ev # _ \<Rightarrow> Some (ev_sequence ev)),
          es_last_sequence = (if se_events E = [] then None else Some (ev_sequence (last (se_events E)))),
          es_record_count = of_nat (length (se_events E)), es_gaps = []\<rparr>)"

definition export_range :: "'z cpext_scheme \<Rightarrow> u32 \<Rightarrow> producer_trust \<Rightarrow> string \<Rightarrow> evidence_error + export_summary" where
  "export_range X version t export =
     (if version = SCOPE_CHECKPOINT_VERSION then and_then (evidence_decode X export) (\<lambda>E. scope_summary E t)
      else inspect_export X export)"

definition verify_checkpoint ::
  "'z cpext_scheme \<Rightarrow> signed_checkpoint \<Rightarrow> producer_trust \<Rightarrow> string \<Rightarrow> evidence_error + verified_checkpoint" where
  "verify_checkpoint X c t export =
     (let p = sk_payload c in
     and_then (validate_checkpoint p) (\<lambda>_.
     and_then (producer_verifying_key X t) (\<lambda>key.
     and_then (reject_if (cp_scope p \<noteq> pt_scope t \<or> cp_key_id p \<noteq> pt_key_id t) (EvidenceError ''producer or scope mismatch'')) (\<lambda>_.
     and_then (reject_if (length export > MAX_EXPORT_BYTES \<or> sha256 X export \<noteq> cp_export_sha256 p) (EvidenceError ''export digest mismatch'')) (\<lambda>_.
     and_then (unhex 64 (sk_signature c)) (\<lambda>signature.
     and_then (document_message (checkpoint_domain (cp_schema_version p)) (checkpoint_to_vec X p)) (\<lambda>msg.
     and_then (reject_if (\<not> ed25519_verify_strict X key msg signature) (EvidenceError ''checkpoint signature mismatch'')) (\<lambda>_.
     and_then (export_range X (cp_schema_version p) t export) (\<lambda>summary.
     and_then (reject_if (es_first_sequence summary \<noteq> cp_first_sequence p
         \<or> es_last_sequence summary \<noteq> cp_last_sequence p
         \<or> es_record_count summary \<noteq> cp_record_count p
         \<or> es_gaps summary \<noteq> cp_gaps p) (EvidenceError ''export range mismatch'')) (\<lambda>_.
     and_then (checkpoint_digest X c) (\<lambda>d.
     Inr \<lparr>vc_checkpoint_sha256 = d, vc_export_sha256 = cp_export_sha256 p\<rparr>)))))))))))"

text \<open>What both constructors do with the range of the export and the sequence number.\<close>

definition sign_checkpoint ::
  "'z cpext_scheme \<Rightarrow> u32 \<Rightarrow> producer_trust \<Rightarrow> string \<Rightarrow> u64 \<Rightarrow> export_summary \<Rightarrow> string \<Rightarrow> signed_checkpoint option \<Rightarrow> string
     \<Rightarrow> evidence_error + signed_checkpoint" where
  "sign_checkpoint X version t key sequence summary export previous build_identity =
     and_then (case previous of None \<Rightarrow> Inr None | Some c \<Rightarrow> and_then (checkpoint_digest X c) (\<lambda>d. Inr (Some d))) (\<lambda>prev.
     let payload = \<lparr>cp_schema_version = version, cp_scope = pt_scope t, cp_key_id = pt_key_id t, cp_checkpoint_sequence = sequence,
         cp_first_sequence = es_first_sequence summary, cp_last_sequence = es_last_sequence summary,
         cp_record_count = es_record_count summary, cp_export_sha256 = sha256 X export,
         cp_previous_checkpoint_sha256 = prev, cp_build_identity = build_identity,
         cp_coverage_start = es_first_sequence summary, cp_gaps = es_gaps summary\<rparr> in
     and_then (validate_checkpoint payload) (\<lambda>_.
     and_then (document_message (checkpoint_domain version) (checkpoint_to_vec X payload)) (\<lambda>msg.
     Inr \<lparr>sk_payload = payload, sk_signature = hex_encode (ed25519_sign X key msg)\<rparr>)))"

definition next_checkpoint_sequence ::
  "'z cpext_scheme \<Rightarrow> producer_trust \<Rightarrow> string \<Rightarrow> export_summary \<Rightarrow> signed_checkpoint \<Rightarrow> evidence_error + u64" where
  "next_checkpoint_sequence X t key summary previous =
     (let p = sk_payload previous in
     and_then (validate_checkpoint p) (\<lambda>_.
     and_then (reject_if (cp_schema_version p \<noteq> 1 \<or> cp_scope p \<noteq> pt_scope t \<or> cp_key_id p \<noteq> pt_key_id t)
       (EvidenceError ''previous checkpoint scope or key changed; enroll a new generation'')) (\<lambda>_.
     and_then (document_message (''opaque.evidence.checkpoint.v1'' @ [CHR 0x00]) (checkpoint_to_vec X p)) (\<lambda>msg.
     and_then (unhex 64 (sk_signature previous)) (\<lambda>signature.
     and_then (reject_if (\<not> ed25519_verify_strict X (signing_public X key) msg signature) (EvidenceError ''invalid previous checkpoint'')) (\<lambda>_.
     and_then (reject_if (is_some_and (cp_last_sequence p) (\<lambda>l. is_none_or (es_last_sequence summary) (\<lambda>head. head < l)))
       (EvidenceError ''audit head regressed'')) (\<lambda>_.
     ok_or (checked_add_u64 (cp_checkpoint_sequence p) 1) (EvidenceError ''checkpoint sequence exhausted''))))))))"

definition create_checkpoint ::
  "'z cpext_scheme \<Rightarrow> 'y aext_scheme \<Rightarrow> string option \<Rightarrow> audit_db \<Rightarrow> producer_trust \<Rightarrow> string \<Rightarrow> signed_checkpoint option \<Rightarrow> string
     \<Rightarrow> evidence_error + (signed_checkpoint \<times> string)" where
  "create_checkpoint X A key_file db t key previous build_identity =
     and_then (producer_verifying_key X t) (\<lambda>enrolled.
     and_then (reject_if (enrolled \<noteq> signing_public X key) (EvidenceError ''signing key does not match enrollment'')) (\<lambda>_.
     and_then (verified_snapshot X A key_file db) (\<lambda>snapshot.
     and_then (case previous of None \<Rightarrow> Inr 1 | Some c \<Rightarrow> next_checkpoint_sequence X t key (vs_summary snapshot) c) (\<lambda>sequence.
     and_then (sign_checkpoint X 1 t key sequence (vs_summary snapshot) (vs_bytes snapshot) previous build_identity) (\<lambda>c.
     Inr (c, vs_bytes snapshot))))))"

definition create_scope_checkpoint ::
  "'z cpext_scheme \<Rightarrow> scope_evidence \<Rightarrow> producer_trust \<Rightarrow> string \<Rightarrow> (signed_checkpoint \<times> string) option \<Rightarrow> string
     \<Rightarrow> evidence_error + (signed_checkpoint \<times> string)" where
  "create_scope_checkpoint X E t key previous build_identity =
     and_then (producer_verifying_key X t) (\<lambda>enrolled.
     and_then (reject_if (enrolled \<noteq> signing_public X key) (EvidenceError ''signing key does not match enrollment'')) (\<lambda>_.
     and_then (evidence_encode X E) (\<lambda>export.
     and_then (scope_summary E t) (\<lambda>summary.
     and_then (case previous of
         None \<Rightarrow> Inr 1
       | Some (c, prior_bytes) \<Rightarrow>
           and_then (reject_if (cp_schema_version (sk_payload c) \<noteq> SCOPE_CHECKPOINT_VERSION)
             (EvidenceError ''checkpoint format changed; enroll a new stream'')) (\<lambda>_.
           and_then (verify_checkpoint X c t prior_bytes) (\<lambda>_.
           and_then (evidence_decode X prior_bytes) (\<lambda>prior.
           and_then (validate_extension X E prior) (\<lambda>_.
           ok_or (checked_add_u64 (cp_checkpoint_sequence (sk_payload c)) 1) (EvidenceError ''checkpoint sequence exhausted'')))))) (\<lambda>sequence.
     and_then (sign_checkpoint X SCOPE_CHECKPOINT_VERSION t key sequence summary export (map_option fst previous) build_identity) (\<lambda>c.
     Inr (c, export)))))))"

subsection \<open>Retention receipts\<close>

definition make_retention_request :: "'z cpext_scheme \<Rightarrow> signed_checkpoint \<Rightarrow> evidence_error + retention_request" where
  "make_retention_request X c =
     and_then (validate_checkpoint (sk_payload c)) (\<lambda>_.
     and_then (checkpoint_digest X c) (\<lambda>d.
     Inr \<lparr>rq_schema_version = 1, rq_checkpoint = c, rq_checkpoint_sha256 = d, rq_export_sha256 = cp_export_sha256 (sk_payload c)\<rparr>))"

definition validate_retention :: "retention_receipt \<Rightarrow> evidence_error + unit" where
  "validate_retention p =
     and_then (stream_validate (rt_scope p)) (\<lambda>_.
     and_then (try_each (\<lambda>d. and_then (unhex 32 d) (\<lambda>_. Inr ()))
       [rt_custodian_key_id p, rt_checkpoint_sha256 p, rt_export_sha256 p]) (\<lambda>_.
     and_then (case rt_previous_receipt_sha256 p of None \<Rightarrow> Inr [] | Some previous \<Rightarrow> unhex 32 previous) (\<lambda>_.
     reject_if (rt_schema_version p \<noteq> 1
         \<or> \<not> evidence_label (rt_object_id p) \<or> \<not> evidence_label (rt_object_version p)
         \<or> rt_received_at_unix_ms p < 0
         \<or> rt_retain_until_unix_ms p \<le> rt_received_at_unix_ms p) (EvidenceError ''invalid retention receipt''))))"

definition retention_domain :: string where "retention_domain = ''opaque.evidence.retention.v1'' @ [CHR 0x00]"

definition sign_retention_receipt ::
  "'z cpext_scheme \<Rightarrow> retention_receipt \<Rightarrow> string \<Rightarrow> evidence_error + signed_retention_receipt" where
  "sign_retention_receipt X p key =
     and_then (validate_retention p) (\<lambda>_.
     and_then (reject_if (rt_custodian_key_id p \<noteq> evidence_key_id X (signing_public X key)) (EvidenceError ''custodian key mismatch'')) (\<lambda>_.
     and_then (document_message retention_domain (retention_to_vec X p)) (\<lambda>msg.
     Inr \<lparr>sn_payload = p, sn_signature = hex_encode (ed25519_sign X key msg)\<rparr>)))"

definition retention_receipt_digest :: "'z cpext_scheme \<Rightarrow> signed_retention_receipt \<Rightarrow> evidence_error + string" where
  "retention_receipt_digest X r = and_then (canonical_document (signed_retention_to_vec X r)) (\<lambda>bytes. Inr (sha256 X bytes))"

definition verify_retention_receipt ::
  "'z cpext_scheme \<Rightarrow> signed_retention_receipt \<Rightarrow> custodian_trust \<Rightarrow> signed_checkpoint \<Rightarrow> i64 \<Rightarrow> evidence_error + unit" where
  "verify_retention_receipt X r t c now_unix_ms =
     (let p = sn_payload r; q = sk_payload c; bad = EvidenceError ''receipt binding or retention interval mismatch'' in
     and_then (validate_retention p) (\<lambda>_.
     and_then (custodian_verifying_key X t) (\<lambda>key.
     and_then (reject_if (ct_key_id t = cp_key_id q) (EvidenceError ''producer and custodian signer keys must differ'')) (\<lambda>_.
     and_then (reject_if (rt_custodian_key_id p \<noteq> ct_key_id t \<or> rt_scope p \<noteq> cp_scope q) bad) (\<lambda>_.
     and_then (checkpoint_digest X c) (\<lambda>d.
     and_then (reject_if (rt_checkpoint_sha256 p \<noteq> d
         \<or> rt_export_sha256 p \<noteq> cp_export_sha256 q
         \<or> rt_first_sequence p \<noteq> cp_first_sequence q
         \<or> rt_last_sequence p \<noteq> cp_last_sequence q
         \<or> rt_record_count p \<noteq> cp_record_count q
         \<or> now_unix_ms < rt_received_at_unix_ms p
         \<or> now_unix_ms \<ge> rt_retain_until_unix_ms p) bad) (\<lambda>_.
     and_then (document_message retention_domain (retention_to_vec X p)) (\<lambda>msg.
     and_then (unhex 64 (sn_signature r)) (\<lambda>signature.
     reject_if (\<not> ed25519_verify_strict X key msg signature) (EvidenceError ''retention signature mismatch'')))))))))) "

end
