(* ===== verification/Scope_Steps.thy ===== *)
theory Scope_Steps
  imports Scope_Validity
begin

text \<open>
  How soundness of scope evidence is kept when the ledger moves on.  A step may charge or revoke scopes,
  add one scope, add one action or advance one, and append one event; the lemmas of this theory say which
  facts carry over by themselves and which have to be shown for the record that changed.
\<close>

subsection \<open>Scopes\<close>

definition scope_step :: "i64 \<Rightarrow> scope_record \<Rightarrow> scope_record \<Rightarrow> bool" where
  "scope_step now r r' =
     (sr_grant r' = sr_grant r \<and> sr_digest r' = sr_digest r \<and> sr_issued_at r' = sr_issued_at r
      \<and> (sr_revoked_at r' = sr_revoked_at r \<or> sr_revoked_at r = None \<and> sr_revoked_at r' = Some now))"

definition scopes_step ::
  "i64 \<Rightarrow> (string \<Rightarrow> scope_record option) \<Rightarrow> (string \<Rightarrow> scope_record option) \<Rightarrow> bool" where
  "scopes_step now sc sc' = (\<forall>i r. sc i = Some r \<longrightarrow> (\<exists>r'. sc' i = Some r' \<and> scope_step now r r'))"

lemma scope_step_refl [simp]: "scope_step now r r"
  by (simp add: scope_step_def)

lemma scopes_step_refl [simp]: "scopes_step now sc sc"
  by (simp add: scopes_step_def)

lemma lineage_step:
  assumes "scopes_step now sc sc'" "lineage sc p ch"
  shows "\<exists>ch'. lineage sc' p ch' \<and> list_all2 (scope_step now) ch ch'"
  using assms(2)
proof (induction ch arbitrary: p)
  case Nil
  then have "p = None" by (cases p) simp_all
  then show ?case by simp
next
  case (Cons r ch)
  then obtain i where p: "p = Some i" "sc i = Some r" "lineage sc (sg_parent_id (sr_grant r)) ch"
    by (cases p) simp_all
  obtain r' where r': "sc' i = Some r'" "scope_step now r r'" using assms(1) p(2) unfolding scopes_step_def by blast
  obtain ch' where "lineage sc' (sg_parent_id (sr_grant r)) ch'" "list_all2 (scope_step now) ch ch'"
    using Cons.IH[OF p(3)] by blast
  then have "lineage sc' p (r' # ch') \<and> list_all2 (scope_step now) (r # ch) (r' # ch')"
    using r' p(1) by (simp add: scope_step_def)
  then show ?case by blast
qed

lemma lineage_extend: "sc \<subseteq>\<^sub>m sc' \<Longrightarrow> lineage sc p ch \<Longrightarrow> lineage sc' p ch"
proof (induction ch arbitrary: p)
  case (Cons r ch)
  then obtain i where "p = Some i" "sc i = Some r" "lineage sc (sg_parent_id (sr_grant r)) ch" by (cases p) simp_all
  then show ?case using Cons by (auto simp: map_le_def dom_def)
qed (auto elim: lineage.elims)

lemma steps_grants: "list_all2 (scope_step now) ch ch' \<Longrightarrow> map sr_grant ch' = map sr_grant ch"
  by (induction rule: list_all2_induct) (simp_all add: scope_step_def)

lemma steps_ids: "list_all2 (scope_step now) ch ch' \<Longrightarrow> map sr_id ch' = map sr_id ch"
  by (induction rule: list_all2_induct) (simp_all add: scope_step_def)

lemma chain_narrows_grants: "map sr_grant ch' = map sr_grant ch \<Longrightarrow> chain_narrows ch' \<longleftrightarrow> chain_narrows ch"
proof (induction ch arbitrary: ch')
  case (Cons a ch)
  obtain a' c' where c: "ch' = a' # c'" "sr_grant a' = sr_grant a" "map sr_grant c' = map sr_grant ch"
    using Cons.prems by (cases ch') simp_all
  note ih = Cons.IH[OF c(3)]
  show ?case
  proof (cases ch)
    case Nil
    then show ?thesis using c by simp
  next
    case (Cons b d)
    then obtain b' d' where "c' = b' # d'" "sr_grant b' = sr_grant b" using c(3) by (cases c') simp_all
    then show ?thesis using c(1,2) Cons ih by simp
  qed
qed simp

lemma chain_in_force_ids: "map sr_id ch' = map sr_id ch \<Longrightarrow> chain_in_force seen ch' \<longleftrightarrow> chain_in_force seen ch"
proof -
  assume m: "map sr_id ch' = map sr_id ch"
  have "chain_in_force seen c \<longleftrightarrow> (\<forall>i\<in>set (map sr_id c). (i, EK_ScopeRevoked) \<notin> set seen \<and> (i, EK_ScopeIssued) \<in> set seen)"
    for c by (simp add: chain_in_force_def)
  then show ?thesis using m by metis
qed

lemma chain_open_step:
  assumes "list_all2 (scope_step now) ch ch'" "at \<le> now" "chain_open_at ch at"
  shows "chain_open_at ch' at"
proof -
  have "\<not> (at < sg_not_before (sr_grant s') \<or> at \<ge> sg_expires_at (sr_grant s')
            \<or> is_some_and (sr_revoked_at s') (\<lambda>revoked. revoked < at))" if s: "s' \<in> set ch'" for s'
  proof -
    obtain n where n: "n < length ch'" "s' = ch' ! n" using s by (auto simp: in_set_conv_nth)
    then have st: "scope_step now (ch ! n) s'" and m: "ch ! n \<in> set ch" using assms(1) by (auto simp: list_all2_conv_all_nth)
    have "\<not> (at < sg_not_before (sr_grant (ch ! n)) \<or> at \<ge> sg_expires_at (sr_grant (ch ! n))
            \<or> is_some_and (sr_revoked_at (ch ! n)) (\<lambda>revoked. revoked < at))"
      using assms(3) m unfolding chain_open_at_def list_ex_iff by blast
    then show ?thesis using st assms(2) unfolding scope_step_def by auto
  qed
  then show ?thesis unfolding chain_open_at_def list_ex_iff by blast
qed

definition within_limits :: "scope_record \<Rightarrow> bool" where
  "within_limits r =
     (sr_charged_attempts r \<le> sg_max_charged_attempts (sr_grant r)
      \<and> fcard (sr_charged_resources r) \<le> unat (sg_max_distinct_resources (sr_grant r)))"

lemma scope_consistent_step:
  assumes st: "list_all2 (scope_step now) ch ch'" and c: "scope_consistent own T ch" "ch \<noteq> []" "T \<le> now"
    and w: "within_limits (hd ch')"
  shows "scope_consistent own now ch'"
proof -
  obtain r rs r' rs' where e: "ch = r # rs" "ch' = r' # rs'" "scope_step now r r'" "list_all2 (scope_step now) rs rs'"
    using st c(2) by (cases ch; cases ch') auto
  have par: "\<not> (sr_issued_at p' > sr_issued_at r' \<or> sr_issued_at r' < sg_not_before (sr_grant p')
      \<or> sr_issued_at r' \<ge> sg_expires_at (sr_grant p') \<or> is_some_and (sr_revoked_at p') (\<lambda>at. at < sr_issued_at r'))"
    if p': "p' \<in> set rs'" for p'
  proof -
    obtain p where p: "p \<in> set rs" "scope_step now p p'"
      using e(4) p' by (metis in_set_conv_nth list_all2_conv_all_nth)
    then have "\<not> (sr_issued_at p > sr_issued_at r \<or> sr_issued_at r < sg_not_before (sr_grant p)
        \<or> sr_issued_at r \<ge> sg_expires_at (sr_grant p) \<or> is_some_and (sr_revoked_at p) (\<lambda>at. at < sr_issued_at r))"
      and "sr_issued_at r \<le> T"
      using c(1) unfolding scope_consistent_def e Let_def list_ex_iff by auto
    then show ?thesis using p(2) e(3) c(3) unfolding scope_step_def by auto
  qed
  have hd: "sg_owner (sr_grant r) = own" "0 \<le> sr_issued_at r" "sr_issued_at r \<le> T"
    "sr_issued_at r < sg_expires_at (sr_grant r)"
    "\<not> is_some_and (sr_revoked_at r) (\<lambda>at. at < sr_issued_at r \<or> at > T)"
    using c(1) unfolding scope_consistent_def e Let_def by auto
  have "\<not> is_some_and (sr_revoked_at r') (\<lambda>at. at < sr_issued_at r' \<or> at > now)"
    using hd(3,5) e(3) c(3) unfolding scope_step_def by (cases "sr_revoked_at r") auto
  then show ?thesis
    unfolding scope_consistent_def e(2) Let_def list_ex_iff
    using hd e(3) par w c(3) unfolding within_limits_def e(2) scope_step_def by auto
qed

lemma scopes_ok_step:
  assumes "scopes_ok own T sc" "T \<le> now" "scopes_step now sc sc'" "\<And>i r. sc' i = Some r \<Longrightarrow> within_limits r"
    and "\<And>i r. sc i = None \<Longrightarrow> sc' i = Some r \<Longrightarrow> \<exists>ch. lineage sc' (Some i) ch \<and> chain_narrows ch \<and> scope_consistent own now ch"
  shows "scopes_ok own now sc'"
  unfolding scopes_ok_def
proof (intro allI impI)
  fix i r' assume r': "sc' i = Some r'"
  show "\<exists>ch. lineage sc' (Some i) ch \<and> chain_narrows ch \<and> scope_consistent own now ch"
  proof (cases "sc i")
    case None
    then show ?thesis using assms(5) r' by blast
  next
    case (Some r)
    then obtain ch where ch: "lineage sc (Some i) ch" "chain_narrows ch" "scope_consistent own T ch"
      using assms(1) unfolding scopes_ok_def by blast
    obtain ch' where ch': "lineage sc' (Some i) ch'" "list_all2 (scope_step now) ch ch'"
      using lineage_step[OF assms(3) ch(1)] by blast
    have "within_limits (hd ch')" using assms(4)[OF lineage_hd[OF ch'(1)]] .
    then have "scope_consistent own now ch'"
      using scope_consistent_step[OF ch'(2) ch(3) lineage_nonempty[OF ch(1)] assms(2)] by blast
    then show ?thesis using ch'(1) chain_narrows_grants[OF steps_grants[OF ch'(2)]] ch(2) by blast
  qed
qed

lemma grants_ok_step:
  assumes "grants_ok X sc" "scopes_step now sc sc'"
    and "\<And>i r. sc i = None \<Longrightarrow> sc' i = Some r \<Longrightarrow>
      sr_id r = i \<and> canonical_grant X (sr_grant r) \<and> grant_digest X (sr_grant r) = Inr (sr_digest r)"
  shows "grants_ok X sc'"
  unfolding grants_ok_def
proof (intro allI impI)
  fix i r' assume r': "sc' i = Some r'"
  show "sr_id r' = i \<and> canonical_grant X (sr_grant r') \<and> grant_digest X (sr_grant r') = Inr (sr_digest r')"
  proof (cases "sc i")
    case None
    then show ?thesis using assms(3) r' by blast
  next
    case (Some r)
    then have "scope_step now r r'" using assms(2) r' unfolding scopes_step_def by fastforce
    then show ?thesis using assms(1) Some unfolding grants_ok_def scope_step_def by auto
  qed
qed

lemma charges_scope_step:
  assumes "scopes_step now sc sc'" "lineage sc (Some (scope_of a)) ch"
  shows "charges_scope sc' i a \<longleftrightarrow> charges_scope sc i a"
proof -
  obtain ch' where ch': "lineage sc' (Some (scope_of a)) ch'" "list_all2 (scope_step now) ch ch'"
    using lineage_step[OF assms] by blast
  have "sr_id ` set ch' = sr_id ` set ch" using arg_cong[OF steps_ids[OF ch'(2)], of set] by simp
  then show ?thesis using charges_lineage[OF ch'(1)] charges_lineage[OF assms(2)] by simp
qed

subsection \<open>Actions\<close>

definition settled :: "action_record \<Rightarrow> bool" where
  "settled a = (ar_state a \<in> {ES_ApiAccepted, ES_Rejected, ES_Unknown})"

definition action_step :: "action_record \<Rightarrow> action_record \<Rightarrow> bool" where
  "action_step a a' =
     (ar_action a' = ar_action a \<and> ar_digest a' = ar_digest a \<and> ar_evidence a' = ar_evidence a
      \<and> ar_reserved_at a' = ar_reserved_at a
      \<and> (\<forall>at. ar_dispatch_claimed_at a = Some at \<longrightarrow> ar_dispatch_claimed_at a' = Some at)
      \<and> (settled a \<longrightarrow> a' = a))"

definition actions_step ::
  "(string \<Rightarrow> action_record option) \<Rightarrow> (string \<Rightarrow> action_record option) \<Rightarrow> bool" where
  "actions_step ac ac' = (\<forall>j a. ac j = Some a \<longrightarrow> (\<exists>a'. ac' j = Some a' \<and> action_step a a'))"

lemma action_step_refl [simp]: "action_step a a"
  by (simp add: action_step_def)

lemma actions_step_refl [simp]: "actions_step ac ac"
  by (simp add: actions_step_def)

lemma finished_settled: "action_state_ok a \<Longrightarrow> ar_finished_at a \<noteq> None \<Longrightarrow> settled a"
  by (auto simp: action_state_ok_def settled_def split: execution_state.splits)

lemma action_admitted_step:
  assumes "action_admitted X own T ch a" "list_all2 (scope_step now) ch ch'" "ch \<noteq> []" "T \<le> now"
  shows "action_admitted X own now ch' a"
proof -
  obtain r rs r' rs' where e: "ch = r # rs" "ch' = r' # rs'" "scope_step now r r'"
    using assms(2,3) by (cases ch; cases ch') auto
  then have g: "sr_grant (hd ch') = sr_grant (hd ch)" "sr_issued_at (hd ch') = sr_issued_at (hd ch)"
    by (simp_all add: scope_step_def)
  have t: "action_times_ok own T ch a" using assms(1) by (simp add: action_admitted_def)
  have at: "ar_reserved_at a \<le> now" "\<And>d. ar_dispatch_claimed_at a = Some d \<Longrightarrow> d \<le> now"
    using t assms(4) unfolding action_times_ok_def by auto
  have "chain_open_at ch (ar_reserved_at a)" using t by (simp add: action_times_ok_def)
  then have "chain_open_at ch' (ar_reserved_at a)" by (rule chain_open_step[OF assms(2) at(1)])
  then have "action_times_ok own now ch' a"
    using t assms(4) unfolding action_times_ok_def g(2)
    by (cases "ar_dispatch_claimed_at a"; cases "ar_finished_at a") auto
  moreover have "chain_open_at ch' d" if d: "ar_dispatch_claimed_at a = Some d" for d
    using chain_open_step[OF assms(2) at(2)[OF d]] assms(1) d unfolding action_admitted_def by blast
  ultimately show ?thesis using assms(1) unfolding action_admitted_def g by blast
qed

definition action_entry_ok ::
  "'z scext_scheme \<Rightarrow> authority_owner \<Rightarrow> i64 \<Rightarrow> (string \<Rightarrow> scope_record option) \<Rightarrow> string \<Rightarrow> action_record \<Rightarrow> bool" where
  "action_entry_ok X own T sc j a =
     (ar_id a = j \<and> canonical_action X (ar_action a) \<and> action_digest X (ar_action a) = Inr (ar_digest a)
      \<and> (\<exists>ch. lineage sc (Some (scope_of a)) ch \<and> chain_narrows ch \<and> action_admitted X own T ch a))"

lemma actions_ok_entries:
  "actions_ok X own T sc ac \<longleftrightarrow>
     (\<forall>j a. ac j = Some a \<longrightarrow> action_entry_ok X own T sc j a)
     \<and> (\<forall>j k a b. ac j = Some a \<and> ac k = Some b \<and> request_of a = request_of b \<longrightarrow> j = k)"
  unfolding actions_ok_def action_entry_ok_def ..

lemma action_entry_step:
  assumes "action_entry_ok X own T sc j a" "T \<le> now" "scopes_step now sc sc'"
  shows "action_entry_ok X own now sc' j a"
proof -
  obtain ch where ch: "lineage sc (Some (scope_of a)) ch" "chain_narrows ch" "action_admitted X own T ch a"
    using assms(1) unfolding action_entry_ok_def by blast
  obtain ch' where ch': "lineage sc' (Some (scope_of a)) ch'" "list_all2 (scope_step now) ch ch'"
    using lineage_step[OF assms(3) ch(1)] by blast
  have "action_admitted X own now ch' a"
    by (rule action_admitted_step[OF ch(3) ch'(2) lineage_nonempty[OF ch(1)] assms(2)])
  then show ?thesis
    using assms(1) ch' chain_narrows_grants[OF steps_grants[OF ch'(2)]] ch(2) unfolding action_entry_ok_def by blast
qed

lemma actions_ok_step:
  assumes "actions_ok X own T sc ac" "T \<le> now" "scopes_step now sc sc'"
  shows "actions_ok X own now sc' ac"
  using assms action_entry_step unfolding actions_ok_entries by blast

lemma actions_ok_update:
  assumes "actions_ok X own T sc ac" "T \<le> now" "scopes_step now sc sc'" "action_entry_ok X own now sc' j a"
    and "\<And>k b. ac k = Some b \<Longrightarrow> request_of b = request_of a \<Longrightarrow> k = j"
  shows "actions_ok X own now sc' (ac(j \<mapsto> a))"
proof -
  have e: "action_entry_ok X own now sc' k b" if k: "(ac(j \<mapsto> a)) k = Some b" for k b
  proof (cases "k = j")
    case True
    then show ?thesis using k assms(4) by simp
  next
    case False
    then have "ac k = Some b" using k by simp
    then have "action_entry_ok X own T sc k b" using assms(1) unfolding actions_ok_entries by blast
    then show ?thesis by (rule action_entry_step[OF _ assms(2,3)])
  qed
  have u: "k = l" if k: "(ac(j \<mapsto> a)) k = Some b" "(ac(j \<mapsto> a)) l = Some c" "request_of b = request_of c" for k l b c
  proof (cases "k = j"; cases "l = j")
    assume "k = j" "l \<noteq> j"
    then show ?thesis using assms(5)[of l c] k by simp
  next
    assume "k \<noteq> j" "l = j"
    then show ?thesis using assms(5)[of k b] k by simp
  next
    assume "k \<noteq> j" "l \<noteq> j"
    then have "ac k = Some b" "ac l = Some c" using k by simp_all
    then show ?thesis using assms(1) k(3) unfolding actions_ok_entries by blast
  qed simp
  show ?thesis unfolding actions_ok_entries using e u by blast
qed

subsection \<open>Charges\<close>

lemma charged_to_step:
  assumes "actions_ok X own T sc ac" "scopes_step now sc sc'"
  shows "charged_to sc' ac i = charged_to sc ac i"
proof -
  have "charges_scope sc' i a \<longleftrightarrow> charges_scope sc i a" if "ac j = Some a" for j a
    using assms(1) that charges_scope_step[OF assms(2)] unfolding actions_ok_def by blast
  then show ?thesis unfolding charged_to_def by blast
qed

lemma charged_to_update:
  assumes "ac j = Some a" "ar_action a' = ar_action a"
  shows "charged_to sc (ac(j \<mapsto> a')) i = charged_to sc ac i"
  using assms by (auto simp: charged_to_def charges_scope_def)

lemma resources_update:
  assumes "ac j = Some a" "ar_action a' = ar_action a"
  shows "resource_of (the ((ac(j \<mapsto> a')) k)) = resource_of (the (ac k))"
  using assms by simp

lemma charges_ok_update:
  "charges_ok sc ac \<Longrightarrow> ac j = Some a \<Longrightarrow> ar_action a' = ar_action a \<Longrightarrow> charges_ok sc (ac(j \<mapsto> a'))"
  unfolding charges_ok_def charged_to_update resources_update by simp

lemma finite_charged_to: "finite (dom ac) \<Longrightarrow> finite (charged_to sc ac i)"
  by (rule finite_subset[of _ "dom ac"]) (auto simp: charged_to_def)

subsection \<open>Events\<close>

lemma action_event_ok_step:
  assumes "action_step a a'" "action_state_ok a" "action_event_ok seen ev i a"
  shows "action_event_ok seen ev i a'"
proof (cases "settled a")
  case True
  then show ?thesis using assms by (simp add: action_step_def)
next
  case False
  then have "ev_kind ev \<notin> {EK_AttemptFinished, EK_Interrupted}"
    using assms(2,3) finished_settled[OF assms(2)]
    by (auto simp: action_event_ok_def action_event_correct_def settled_def)
  then show ?thesis
    using assms(1,3) by (auto simp: action_event_ok_def action_event_correct_def action_step_def split: event_kind.splits)
qed

lemma scope_event_correct_step:
  "scope_step now s s' \<Longrightarrow> scope_event_correct ev s \<Longrightarrow> scope_event_correct ev s'"
  by (auto simp: scope_event_correct_def scope_step_def split: event_kind.splits)

lemma event_fits_step:
  assumes "scopes_step now sc sc'" "actions_step ac ac'" "T \<le> now" "\<And>j a. ac j = Some a \<Longrightarrow> action_state_ok a"
    and f: "event_fits sc ac T sequence seen previous ev"
  shows "event_fits sc' ac' now sequence seen previous ev"
proof -
  let ?seen = "event_key ev # seen"
  obtain s where s: "sc (ev_scope_id ev) = Some s"
    and k: "ev_kind ev \<in> {EK_ScopeIssued, EK_AttemptCharged, EK_DispatchClaimed} \<longrightarrow>
                (\<exists>ch. lineage sc (Some (ev_scope_id ev)) ch \<and> chain_in_force ?seen ch)"
    and c: "case ev_action_id ev of Some i \<Rightarrow> (\<exists>a. ac i = Some a \<and> action_event_ok ?seen ev i a)
              | None \<Rightarrow> scope_event_correct ev s"
    using f unfolding event_fits_def Let_def by blast
  obtain s' where s': "sc' (ev_scope_id ev) = Some s'" "scope_step now s s'"
    using assms(1) s unfolding scopes_step_def by blast
  have "\<exists>ch'. lineage sc' (Some (ev_scope_id ev)) ch' \<and> chain_in_force ?seen ch'"
    if ch: "lineage sc (Some (ev_scope_id ev)) ch" "chain_in_force ?seen ch" for ch
    using lineage_step[OF assms(1) ch(1)] chain_in_force_ids[OF steps_ids] ch(2) by blast
  with k have k': "ev_kind ev \<in> {EK_ScopeIssued, EK_AttemptCharged, EK_DispatchClaimed} \<longrightarrow>
                (\<exists>ch. lineage sc' (Some (ev_scope_id ev)) ch \<and> chain_in_force ?seen ch)" by blast
  have c': "case ev_action_id ev of Some i \<Rightarrow> (\<exists>a. ac' i = Some a \<and> action_event_ok ?seen ev i a)
              | None \<Rightarrow> scope_event_correct ev s'"
  proof (cases "ev_action_id ev")
    case None
    then show ?thesis using c scope_event_correct_step[OF s'(2)] by simp
  next
    case (Some i)
    then obtain a where a: "ac i = Some a" "action_event_ok ?seen ev i a" using c by auto
    then obtain a' where "ac' i = Some a'" "action_step a a'" using assms(2) unfolding actions_step_def by blast
    then show ?thesis using Some a action_event_ok_step assms(4)[OF a(1)] by auto
  qed
  have h: "ev_sequence ev = sequence" "\<forall>at. ev_observed_at ev = Some at \<longrightarrow> previous \<le> at \<and> at \<le> T"
    "event_key ev \<notin> set seen" "ev_kind ev \<noteq> EK_ScopeIssued \<longrightarrow> (ev_scope_id ev, EK_ScopeIssued) \<in> set ?seen"
    using f unfolding event_fits_def Let_def by blast+
  have t: "\<forall>at. ev_observed_at ev = Some at \<longrightarrow> previous \<le> at \<and> at \<le> now" using h(2) assms(3) by fastforce
  show ?thesis unfolding event_fits_def Let_def using h(1,3,4) t s'(1) k' c' by blast
qed

lemma history_step:
  assumes "scopes_step now sc sc'" "actions_step ac ac'" "T \<le> now" "\<And>j a. ac j = Some a \<Longrightarrow> action_state_ok a"
  shows "history sc ac T sequence seen previous evs \<Longrightarrow> history sc' ac' now sequence seen previous evs"
proof (induction evs arbitrary: sequence seen previous)
  case (Cons ev evs)
  have "event_fits sc' ac' now (sequence + 1) seen previous ev"
    by (rule event_fits_step[OF assms]) (use Cons.prems in simp_all)
  then show ?case using Cons by simp
qed simp

definition last_time :: "authority_event list \<Rightarrow> i64" where
  "last_time evs = foldl later 0 evs"

lemma history_append:
  "history sc ac T sequence seen previous (evs @ [ev]) \<longleftrightarrow>
     history sc ac T sequence seen previous evs
     \<and> event_fits sc ac T (sequence + of_nat (length evs) + 1) (keys_of evs @ seen) (foldl later previous evs) ev"
  by (induction evs arbitrary: sequence seen previous) (simp_all add: keys_of_def add_ac)

lemma history_snoc:
  "history sc ac T 0 [] 0 (evs @ [ev]) \<longleftrightarrow>
     history sc ac T 0 [] 0 evs \<and> event_fits sc ac T (of_nat (length evs) + 1) (keys_of evs) (last_time evs) ev"
  using history_append[of sc ac T 0 "[]" 0 evs ev] by (simp add: last_time_def)

lemma history_times: "history sc ac T sequence seen previous evs \<Longrightarrow> previous \<le> T \<Longrightarrow> foldl later previous evs \<le> T"
proof (induction evs arbitrary: sequence seen previous)
  case (Cons ev evs)
  have "later previous ev \<le> T"
    using Cons.prems by (auto simp: later_def event_fits_def Let_def split: option.splits)
  moreover have "history sc ac T (sequence + 1) (event_key ev # seen) (later previous ev) evs" using Cons.prems(1) by simp
  ultimately show ?case using Cons.IH by simp
qed simp

lemma last_time_le: "history sc ac T 0 [] 0 evs \<Longrightarrow> 0 \<le> T \<Longrightarrow> last_time evs \<le> T"
  unfolding last_time_def by (rule history_times)

lemma keys_snoc [simp]: "keys_of (evs @ [ev]) = event_key ev # keys_of evs"
  by (simp add: keys_of_def)

lemma scope_events_mono: "scope_events_present seen s \<Longrightarrow> scope_events_present (k # seen) s"
  by (auto simp: scope_events_present_def)

lemma action_events_mono: "action_events_present seen a \<Longrightarrow> action_events_present (k # seen) a"
  by (auto simp: action_events_present_def)

text \<open>A history event of a kind exists for an action only if the record says so.\<close>

lemma history_action_event:
  assumes "history sc ac T sequence seen previous evs" "(j, k) \<in> set (keys_of evs)"
    "k \<in> {EK_AttemptCharged, EK_DispatchClaimed, EK_AttemptFinished, EK_Interrupted}"
  shows "\<exists>a ev. ac j = Some a \<and> ev_kind ev = k \<and> action_event_correct ev a"
  using assms(1,2)
proof (induction evs arbitrary: sequence seen previous)
  case (Cons ev evs)
  show ?case
  proof (cases "event_key ev = (j, k)")
    case True
    then have e: "ev_kind ev = k" by (auto simp: event_key_def)
    have f: "event_fits sc ac T (sequence + 1) seen previous ev" using Cons.prems(1) by simp
    obtain a where "ev_action_id ev = Some j \<and> ac j = Some a \<and> action_event_correct ev a"
    proof (cases "ev_action_id ev")
      case None
      then have False
        using f e assms(3) by (auto simp: event_fits_def Let_def scope_event_correct_def)
      then show ?thesis ..
    next
      case (Some i)
      then have "i = j" using True by (simp add: event_key_def)
      then show ?thesis using that f Some by (auto simp: event_fits_def Let_def action_event_ok_def)
    qed
    then show ?thesis using e by blast
  next
    case False
    then show ?thesis using Cons by (auto simp: keys_of_def)
  qed
qed (simp add: keys_of_def)

lemma history_scope_event:
  assumes "history sc ac T sequence seen previous evs" "(i, k) \<in> set (keys_of evs)"
    "k \<in> {EK_ScopeIssued, EK_ScopeRevoked}"
  shows "\<exists>s ev. sc i = Some s \<and> ev_kind ev = k \<and> scope_event_correct ev s"
  using assms(1,2)
proof (induction evs arbitrary: sequence seen previous)
  case (Cons ev evs)
  show ?case
  proof (cases "event_key ev = (i, k)")
    case True
    then have e: "ev_kind ev = k" by (auto simp: event_key_def)
    have f: "event_fits sc ac T (sequence + 1) seen previous ev" using Cons.prems(1) by simp
    have "\<exists>s. sc i = Some s \<and> scope_event_correct ev s"
    proof (cases "ev_action_id ev")
      case None
      then have "ev_scope_id ev = i" using True by (simp add: event_key_def)
      then show ?thesis using f None by (auto simp: event_fits_def Let_def)
    next
      case (Some j)
      then have False
        using f e assms(3) by (auto simp: event_fits_def Let_def action_event_ok_def action_event_correct_def)
      then show ?thesis ..
    qed
    then show ?thesis using e by blast
  next
    case False
    then show ?thesis using Cons by (auto simp: keys_of_def)
  qed
qed (simp add: keys_of_def)

end
