(* ===== verification/Scope_Store.thy ===== *)
theory Scope_Store
  imports Scope_Evidence
begin

text \<open>
  The single-owner scope ledger, \<open>src/crates/opaque-bounded-work/src/scope_store.rs\<close>.

  The state is the SQLite database: the row of \<open>scope_meta\<close>, the tables \<open>scope_grants\<close>,
  \<open>scope_actions\<close> and \<open>scope_events\<close> in rowid order, with their key constraints; a JSON column
  is the record it decodes to.  A write runs in one immediate transaction: the observed time is stored
  first, the operation runs under a savepoint that is rolled back when it fails.  The argument \<open>flt\<close>
  says whether SQLite fails outside the savepoint (the whole transaction is rolled back) or inside it.
  The host's \<open>AuthorityGuard\<close> is an argument of the operations that consult it.  File custody, the
  \<open>flock\<close> writer lock and the comparison of the schema text are not modelled.
\<close>

datatype scope_store_error =
    SSE_Io | SSE_Sqlite | SSE_Serde | SSE_Validation scope_error | SSE_Corrupt | SSE_Locked | SSE_Poisoned
  | SSE_NotFound | SSE_OwnerMismatch | SSE_Inactive | SSE_ClockRollback | SSE_IdempotencyConflict
  | SSE_BudgetExceeded | SSE_Consumed | SSE_InvalidTransition | SSE_Authority string

datatype scope_outcome = OC_ApiAccepted | OC_Rejected | OC_Unknown

record authority_guard =
  verify_scope :: "scope_grant \<Rightarrow> i64 \<Rightarrow> string + unit"
  verify_action :: "scope_grant \<Rightarrow> prepared_action \<Rightarrow> admission_evidence \<Rightarrow> i64 \<Rightarrow> string + unit"

text \<open>A row of \<open>scope_actions\<close>: id, scope, subject, request and record.\<close>

type_synonym action_row = "string \<times> string \<times> string \<times> string \<times> action_record"

record scope_db =
  db_owner :: authority_owner
  db_last_seen :: i64
  db_scopes :: "(string \<times> scope_record) list"
  db_actions :: "action_row list"
  db_events :: "(i64 \<times> authority_event) list"

datatype store_fault = NoFault | TxFault scope_store_error | OpFault scope_store_error

subsection \<open>Rows\<close>

definition scope_metadata :: "scope_db \<Rightarrow> scope_store_error + (authority_owner \<times> i64)" where
  "scope_metadata db =
     and_then (map_err SSE_Validation (owner_validate (db_owner db))) (\<lambda>_.
     if db_last_seen db < 0 then Inl SSE_Corrupt else Inr (db_owner db, db_last_seen db))"

definition maybe_scope :: "'z scext_scheme \<Rightarrow> scope_db \<Rightarrow> string \<Rightarrow> scope_store_error + scope_record option" where
  "maybe_scope X db i =
     (case map_of (db_scopes db) i of
        None \<Rightarrow> Inr None
      | Some r \<Rightarrow>
          if sr_id r \<noteq> i then Inl SSE_Corrupt
          else and_then (map_err SSE_Validation (grant_canonicalized X (sr_grant r))) (\<lambda>c.
            if sr_grant r \<noteq> c then Inl SSE_Corrupt
            else and_then (map_err SSE_Validation (grant_digest X (sr_grant r))) (\<lambda>d.
              if sr_digest r \<noteq> d then Inl SSE_Corrupt else Inr (Some r))))"

definition load_scope :: "'z scext_scheme \<Rightarrow> scope_db \<Rightarrow> string \<Rightarrow> scope_store_error + scope_record" where
  "load_scope X db i = and_then (maybe_scope X db i) (\<lambda>r. ok_or r SSE_NotFound)"

definition save_scope :: "scope_db \<Rightarrow> scope_record \<Rightarrow> scope_store_error + scope_db" where
  "save_scope db r =
     (if length (filter (\<lambda>(i, _). i = sr_id r) (db_scopes db)) \<noteq> 1 then Inl SSE_Corrupt
      else Inr (db\<lparr>db_scopes := map (\<lambda>(i, s). (i, if i = sr_id r then r else s)) (db_scopes db)\<rparr>))"

definition insert_scope :: "scope_db \<Rightarrow> scope_record \<Rightarrow> scope_store_error + scope_db" where
  "insert_scope db r =
     (if sr_id r \<in> fst ` set (db_scopes db) then Inl SSE_Sqlite
      else Inr (db\<lparr>db_scopes := db_scopes db @ [(sr_id r, r)]\<rparr>))"

definition load_action :: "'z scext_scheme \<Rightarrow> scope_db \<Rightarrow> string \<Rightarrow> scope_store_error + action_record" where
  "load_action X db i =
     and_then (ok_or (map_of (db_actions db) i) SSE_NotFound) (\<lambda>(scope, subject, request, r).
     if ar_id r \<noteq> i \<or> pc_scope_id (ar_action r) \<noteq> scope \<or> pc_subject (ar_action r) \<noteq> subject
        \<or> pc_request_id (ar_action r) \<noteq> request then Inl SSE_Corrupt
     else and_then (map_err SSE_Validation (action_canonicalized X (ar_action r))) (\<lambda>c.
       if ar_action r \<noteq> c then Inl SSE_Corrupt
       else and_then (map_err SSE_Validation (action_digest X (ar_action r))) (\<lambda>d.
         if ar_digest r \<noteq> d then Inl SSE_Corrupt else Inr r)))"

definition save_action :: "scope_db \<Rightarrow> action_record \<Rightarrow> scope_store_error + scope_db" where
  "save_action db r =
     (if length (filter (\<lambda>(i, _). i = ar_id r) (db_actions db)) \<noteq> 1 then Inl SSE_Corrupt
      else Inr (db\<lparr>db_actions :=
        map (\<lambda>(i, sc, su, rq, a). (i, sc, su, rq, if i = ar_id r then r else a)) (db_actions db)\<rparr>))"

definition insert_action :: "scope_db \<Rightarrow> action_record \<Rightarrow> scope_store_error + scope_db" where
  "insert_action db r =
     (let a = ar_action r in
      if pc_action_id a \<in> fst ` set (db_actions db)
         \<or> list_ex (\<lambda>(_, sc, su, rq, _). (sc, su, rq) = (pc_scope_id a, pc_subject a, pc_request_id a)) (db_actions db)
         \<or> pc_scope_id a \<notin> fst ` set (db_scopes db)
      then Inl SSE_Sqlite
      else Inr (db\<lparr>db_actions := db_actions db @
             [(pc_action_id a, pc_scope_id a, pc_subject a, pc_request_id a, r)]\<rparr>))"

definition all_actions :: "'z scext_scheme \<Rightarrow> scope_db \<Rightarrow> scope_store_error + action_record list" where
  "all_actions X db = try_map (load_action X db) (sort (map fst (db_actions db)))"

definition scope_chain :: "'z scext_scheme \<Rightarrow> scope_db \<Rightarrow> string \<Rightarrow> scope_store_error + scope_record list" where
  "scope_chain X db i =
     and_then (climb (load_scope X db) SSE_Corrupt [] (Some i)) (\<lambda>result.
     and_then (map_err SSE_Validation (windows_narrow X result)) (\<lambda>_. Inr result))"

definition active_chain :: "'z scext_scheme \<Rightarrow> scope_db \<Rightarrow> string \<Rightarrow> i64 \<Rightarrow> scope_store_error + scope_record list" where
  "active_chain X db i now =
     and_then (scope_chain X db i) (\<lambda>result.
     if list_ex (\<lambda>r. sr_revoked_at r \<noteq> None \<or> now < sg_not_before (sr_grant r) \<or> now \<ge> sg_expires_at (sr_grant r)) result
     then Inl SSE_Inactive else Inr result)"

definition append_event ::
  "scope_db \<Rightarrow> string \<Rightarrow> string option \<Rightarrow> event_kind \<Rightarrow> i64 option \<Rightarrow> string \<Rightarrow> scope_store_error + scope_db" where
  "append_event db scope action kind at digest =
     (let previous = (if db_events db = [] then 0 else Max (set (map fst (db_events db)))) in
      and_then (ok_or (checked_add_i64 previous 1) SSE_Corrupt) (\<lambda>sequence.
      if sequence \<in> set (map fst (db_events db)) then Inl SSE_Sqlite
      else Inr (db\<lparr>db_events := db_events db @ [(sequence,
             \<lparr>ev_sequence = word_of_int sequence, ev_scope_id = scope, ev_action_id = action, ev_kind = kind,
              ev_observed_at = at, ev_content_digest = digest\<rparr>)]\<rparr>)))"

definition read_event :: "i64 \<times> authority_event \<Rightarrow> scope_store_error + authority_event" where
  "read_event row = (case row of (sequence, ev) \<Rightarrow>
     if sequence < 0 then Inl SSE_Sqlite
     else if int (unat (ev_sequence ev)) \<noteq> sequence then Inl SSE_Corrupt else Inr ev)"

definition read_evidence ::
  "'z scext_scheme \<Rightarrow> scope_db \<Rightarrow> authority_owner \<Rightarrow> i64 \<Rightarrow> scope_store_error + scope_evidence" where
  "read_evidence X db own last_seen =
     and_then (try_map (load_scope X db) (sort (map fst (db_scopes db)))) (\<lambda>scopes.
     and_then (try_map read_event (sort_key fst (db_events db))) (\<lambda>events.
     and_then (all_actions X db) (\<lambda>actions.
     Inr \<lparr>se_schema_version = 1, se_owner = own, se_last_seen = last_seen, se_scopes = scopes,
          se_actions = actions, se_events = events\<rparr>)))"

definition verify_all :: "'z scext_scheme \<Rightarrow> scope_db \<Rightarrow> authority_owner \<Rightarrow> i64 \<Rightarrow> scope_store_error + unit" where
  "verify_all X db own last_seen =
     and_then (read_evidence X db own last_seen) (\<lambda>E. map_err (\<lambda>_. SSE_Corrupt) (evidence_validate X E))"

definition check_export_size :: "'z evext_scheme \<Rightarrow> scope_db \<Rightarrow> scope_store_error + unit" where
  "check_export_size X db =
     reject_if (sum_list (map (\<lambda>(_, r). scope_row_len X r) (db_scopes db))
         + sum_list (map (\<lambda>(_, _, _, _, r). action_row_len X r) (db_actions db))
         + sum_list (map (\<lambda>(_, r). event_row_len X r) (db_events db)) > MAX_EXPORT_BYTES) SSE_Corrupt"

subsection \<open>Transactions\<close>

definition scope_mutate ::
  "store_fault \<Rightarrow> i64 \<Rightarrow> (scope_db \<Rightarrow> scope_store_error + ('a \<times> scope_db)) \<Rightarrow> scope_db \<Rightarrow> (scope_store_error + 'a) \<times> scope_db" where
  "scope_mutate flt now operation db =
     (case flt of
        TxFault e \<Rightarrow> (Inl e, db)
      | _ \<Rightarrow>
          (case scope_metadata db of
             Inl e \<Rightarrow> (Inl e, db)
           | Inr (_, last_seen) \<Rightarrow>
               if now < last_seen then (Inl SSE_ClockRollback, db)
               else let seen = db\<lparr>db_last_seen := now\<rparr> in
                    case (case flt of OpFault e \<Rightarrow> Inl e | _ \<Rightarrow> operation seen) of
                      Inl e \<Rightarrow> (Inl e, seen)
                    | Inr (result, db') \<Rightarrow> (Inr result, db')))"

subsection \<open>Operations\<close>

definition issue_op ::
  "'z scext_scheme \<Rightarrow> authority_guard \<Rightarrow> i64 \<Rightarrow> scope_grant \<Rightarrow> scope_db \<Rightarrow> scope_store_error + (scope_record \<times> scope_db)" where
  "issue_op X guard now grant db =
     and_then (maybe_scope X db (sg_scope_id grant)) (\<lambda>found.
     case found of
       Some existing \<Rightarrow> if sr_grant existing = grant then Inr (existing, db) else Inl SSE_IdempotencyConflict
     | None \<Rightarrow>
         if now \<ge> sg_expires_at grant then Inl SSE_Inactive
         else
           and_then (case sg_parent_id grant of
               None \<Rightarrow> Inr ()
             | Some parent \<Rightarrow>
                 and_then (active_chain X db parent now) (\<lambda>ancestors.
                 and_then (map_err SSE_Validation (validate_child_of X grant (sr_grant (hd ancestors)))) (\<lambda>_.
                 reject_if (length ancestors > MAX_DEPTH) (SSE_Validation SE_NotSubset)))) (\<lambda>_.
           and_then (map_err SSE_Authority (verify_scope guard grant now)) (\<lambda>_.
           and_then (map_err SSE_Validation (grant_digest X grant)) (\<lambda>d.
           let r = \<lparr>sr_grant = grant, sr_digest = d, sr_issued_at = now, sr_revoked_at = None,
                    sr_charged_attempts = 0, sr_charged_resources = {||}\<rparr> in
           and_then (insert_scope db r) (\<lambda>db1.
           and_then (append_event db1 (sr_id r) None EK_ScopeIssued (Some now) (sr_digest r)) (\<lambda>db2.
           Inr (r, db2)))))))"

definition issue_scope ::
  "'z scext_scheme \<Rightarrow> authority_owner \<Rightarrow> store_fault \<Rightarrow> authority_guard \<Rightarrow> i64 \<Rightarrow> scope_grant \<Rightarrow> scope_db
    \<Rightarrow> (scope_store_error + scope_record) \<times> scope_db" where
  "issue_scope X own flt guard now grant0 db =
     (case grant_canonicalized X grant0 of
        Inl e \<Rightarrow> (Inl (SSE_Validation e), db)
      | Inr grant \<Rightarrow>
          if sg_owner grant \<noteq> own then (Inl SSE_OwnerMismatch, db)
          else scope_mutate flt now (issue_op X guard now grant) db)"

definition over_budget :: "string \<Rightarrow> scope_record \<Rightarrow> bool" where
  "over_budget resource s =
     (sr_charged_attempts s \<ge> sg_max_charged_attempts (sr_grant s)
      \<or> (resource |\<notin>| sr_charged_resources s
         \<and> fcard (sr_charged_resources s) \<ge> unat (sg_max_distinct_resources (sr_grant s))))"

definition charge_scope :: "string \<Rightarrow> scope_record \<Rightarrow> scope_record" where
  "charge_scope resource s =
     s\<lparr>sr_charged_attempts := sr_charged_attempts s + 1,
       sr_charged_resources := finsert resource (sr_charged_resources s)\<rparr>"

fun save_scopes :: "scope_db \<Rightarrow> scope_record list \<Rightarrow> scope_store_error + scope_db" where
  "save_scopes db [] = Inr db"
| "save_scopes db (s # ss) = and_then (save_scope db s) (\<lambda>db'. save_scopes db' ss)"

definition find_request :: "scope_db \<Rightarrow> prepared_action \<Rightarrow> action_record option" where
  "find_request db a =
     map_option (\<lambda>(_, _, _, _, r). r)
       (find (\<lambda>(i, sc, su, rq, _). i = pc_action_id a
            \<or> (sc = pc_scope_id a \<and> su = pc_subject a \<and> rq = pc_request_id a)) (db_actions db))"

definition reserve_action_op ::
  "'z scext_scheme \<Rightarrow> authority_guard \<Rightarrow> i64 \<Rightarrow> prepared_action \<Rightarrow> admission_evidence \<Rightarrow> scope_db
    \<Rightarrow> scope_store_error + (action_record \<times> scope_db)" where
  "reserve_action_op X guard now action evidence db =
     (case find_request db action of
        Some r \<Rightarrow> if ar_action r = action then Inr (r, db) else Inl SSE_IdempotencyConflict
      | None \<Rightarrow>
          and_then (active_chain X db (pc_scope_id action) now) (\<lambda>ch.
          and_then (map_err SSE_Validation
              (evidence_validate_for X evidence (sr_grant (hd ch)) action now)) (\<lambda>_.
          and_then (map_err SSE_Authority (verify_action guard (sr_grant (hd ch)) action evidence now)) (\<lambda>_.
          and_then (reject_if (list_ex (over_budget (pc_resource action)) ch) SSE_BudgetExceeded) (\<lambda>_.
          and_then (save_scopes db (map (charge_scope (pc_resource action)) ch)) (\<lambda>db1.
          and_then (map_err SSE_Validation (action_digest X action)) (\<lambda>d.
          let r = \<lparr>ar_action = action, ar_digest = d, ar_evidence = evidence, ar_reserved_at = now,
                   ar_dispatch_claimed_at = None, ar_finished_at = None, ar_state = ES_Reserved\<rparr> in
          and_then (insert_action db1 r) (\<lambda>db2.
          and_then (append_event db2 (pc_scope_id (ar_action r)) (Some (ar_id r)) EK_AttemptCharged (Some now)
              (ar_digest r)) (\<lambda>db3.
          Inr (r, db3))))))))))"

definition reserve_action ::
  "'z scext_scheme \<Rightarrow> authority_owner \<Rightarrow> store_fault \<Rightarrow> authority_guard \<Rightarrow> i64 \<Rightarrow> prepared_action \<Rightarrow> admission_evidence
    \<Rightarrow> scope_db \<Rightarrow> (scope_store_error + action_record) \<times> scope_db" where
  "reserve_action X own flt guard now action0 evidence db =
     (case action_canonicalized X action0 of
        Inl e \<Rightarrow> (Inl (SSE_Validation e), db)
      | Inr action \<Rightarrow>
          if pc_owner action \<noteq> own then (Inl SSE_OwnerMismatch, db)
          else scope_mutate flt now (reserve_action_op X guard now action evidence) db)"

definition claim_dispatch_op ::
  "'z scext_scheme \<Rightarrow> authority_guard \<Rightarrow> i64 \<Rightarrow> string \<Rightarrow> string \<Rightarrow> scope_db \<Rightarrow> scope_store_error + (action_record \<times> scope_db)" where
  "claim_dispatch_op X guard now i expected_digest db =
     and_then (load_action X db i) (\<lambda>r.
     if ar_digest r \<noteq> expected_digest then Inl SSE_IdempotencyConflict
     else if ar_state r \<noteq> ES_Reserved then Inl SSE_Consumed
     else
       and_then (active_chain X db (pc_scope_id (ar_action r)) now) (\<lambda>ch.
       and_then (map_err SSE_Validation
           (evidence_validate_for X (ar_evidence r) (sr_grant (hd ch)) (ar_action r) now)) (\<lambda>_.
       and_then (map_err SSE_Authority
           (verify_action guard (sr_grant (hd ch)) (ar_action r) (ar_evidence r) now)) (\<lambda>_.
       let r' = r\<lparr>ar_state := ES_DispatchClaimed, ar_dispatch_claimed_at := Some now\<rparr> in
       and_then (save_action db r') (\<lambda>db1.
       and_then (append_event db1 (pc_scope_id (ar_action r')) (Some i) EK_DispatchClaimed (Some now) (ar_digest r')) (\<lambda>db2.
       Inr (r', db2)))))))"

definition claim_dispatch ::
  "'z scext_scheme \<Rightarrow> store_fault \<Rightarrow> authority_guard \<Rightarrow> i64 \<Rightarrow> string \<Rightarrow> string \<Rightarrow> scope_db
    \<Rightarrow> (scope_store_error + action_record) \<times> scope_db" where
  "claim_dispatch X flt guard now i expected_digest db =
     scope_mutate flt now (claim_dispatch_op X guard now i expected_digest) db"

fun outcome_state :: "scope_outcome \<Rightarrow> execution_state" where
  "outcome_state OC_ApiAccepted = ES_ApiAccepted"
| "outcome_state OC_Rejected = ES_Rejected"
| "outcome_state OC_Unknown = ES_Unknown"

definition finish_action_op ::
  "'z scext_scheme \<Rightarrow> i64 \<Rightarrow> string \<Rightarrow> scope_outcome \<Rightarrow> scope_db \<Rightarrow> scope_store_error + (action_record \<times> scope_db)" where
  "finish_action_op X now i oc db =
     and_then (load_action X db i) (\<lambda>r.
     if ar_state r \<notin> {ES_Reserved, ES_DispatchClaimed} \<or> (oc = OC_ApiAccepted \<and> ar_state r \<noteq> ES_DispatchClaimed)
     then Inl SSE_InvalidTransition
     else
       let r' = r\<lparr>ar_state := outcome_state oc, ar_finished_at := Some now\<rparr> in
       and_then (save_action db r') (\<lambda>db1.
       and_then (append_event db1 (pc_scope_id (ar_action r')) (Some i) EK_AttemptFinished (Some now) (ar_digest r')) (\<lambda>db2.
       Inr (r', db2))))"

definition finish ::
  "'z scext_scheme \<Rightarrow> store_fault \<Rightarrow> i64 \<Rightarrow> string \<Rightarrow> scope_outcome \<Rightarrow> scope_db \<Rightarrow> (scope_store_error + action_record) \<times> scope_db" where
  "finish X flt now i oc db = scope_mutate flt now (finish_action_op X now i oc) db"

definition revoke_scope_op ::
  "'z scext_scheme \<Rightarrow> i64 \<Rightarrow> string \<Rightarrow> scope_db \<Rightarrow> scope_store_error + (scope_record \<times> scope_db)" where
  "revoke_scope_op X now i db =
     and_then (load_scope X db i) (\<lambda>r.
     if sr_revoked_at r = None then
       let r' = r\<lparr>sr_revoked_at := Some now\<rparr> in
       and_then (save_scope db r') (\<lambda>db1.
       and_then (append_event db1 i None EK_ScopeRevoked (Some now) (sr_digest r')) (\<lambda>db2.
       Inr (r', db2)))
     else Inr (r, db))"

definition revoke_scope ::
  "'z scext_scheme \<Rightarrow> store_fault \<Rightarrow> i64 \<Rightarrow> string \<Rightarrow> scope_db \<Rightarrow> (scope_store_error + scope_record) \<times> scope_db" where
  "revoke_scope X flt now i db = scope_mutate flt now (revoke_scope_op X now i) db"

subsection \<open>Reads\<close>

definition get_scope :: "'z scext_scheme \<Rightarrow> string \<Rightarrow> scope_db \<Rightarrow> scope_store_error + scope_record" where
  "get_scope X i db = load_scope X db i"

definition get_action :: "'z scext_scheme \<Rightarrow> string \<Rightarrow> scope_db \<Rightarrow> scope_store_error + action_record" where
  "get_action X i db = load_action X db i"

definition get_request :: "string \<Rightarrow> string \<Rightarrow> string \<Rightarrow> scope_db \<Rightarrow> scope_store_error + action_record" where
  "get_request scope subject request db =
     ok_or (map_option (\<lambda>(_, _, _, _, r). r)
       (find (\<lambda>(_, sc, su, rq, _). sc = scope \<and> su = subject \<and> rq = request) (db_actions db))) SSE_NotFound"

definition events_after :: "u64 \<Rightarrow> nat \<Rightarrow> scope_db \<Rightarrow> scope_store_error + authority_event list" where
  "events_after after limit db =
     (if limit = 0 \<or> limit > 1000 \<or> int (unat after) > i64_max then Inl SSE_Corrupt
      else Inr (map snd (take limit (filter (\<lambda>(sequence, _). sequence > int (unat after))
             (sort_key fst (db_events db))))))"

text \<open>The projection of \<open>snapshot\<close>: the newest records of each table and the size of the table.\<close>

record scope_snapshot =
  sp_scopes :: "scope_record list"
  sp_scopes_total :: nat
  sp_actions :: "action_record list"
  sp_actions_total :: nat
  sp_events :: "authority_event list"
  sp_events_total :: nat

definition snapshot :: "nat \<Rightarrow> scope_db \<Rightarrow> scope_store_error + scope_snapshot" where
  "snapshot limit db =
     (if limit = 0 \<or> limit > 100 then Inl SSE_Corrupt
      else Inr \<lparr>sp_scopes = map snd (take limit (sort_key (\<lambda>(i, r). (- sr_issued_at r)) (rev (sort_key fst (db_scopes db))))),
                sp_scopes_total = length (db_scopes db),
                sp_actions = map (\<lambda>(_, _, _, _, r). r) (take limit (sort_key (\<lambda>(_, _, _, _, r). - ar_reserved_at r)
                  (rev (sort_key fst (db_actions db))))),
                sp_actions_total = length (db_actions db),
                sp_events = map snd (take limit (rev (sort_key fst (db_events db)))),
                sp_events_total = length (db_events db)\<rparr>)"

definition export_evidence :: "'z evext_scheme \<Rightarrow> authority_owner \<Rightarrow> scope_db \<Rightarrow> scope_store_error + scope_evidence" where
  "export_evidence X own db =
     and_then (scope_metadata db) (\<lambda>(stored, last_seen).
     and_then (reject_if (stored \<noteq> own) SSE_OwnerMismatch) (\<lambda>_.
     and_then (check_export_size X db) (\<lambda>_.
     and_then (read_evidence X db stored last_seen) (\<lambda>evidence.
     and_then (map_err (\<lambda>_. SSE_Corrupt) (evidence_encode X evidence)) (\<lambda>_. Inr evidence)))))"

text \<open>\<open>export_stopped\<close> reads the database of a stopped broker.\<close>

definition export_stopped :: "'z evext_scheme \<Rightarrow> authority_owner \<Rightarrow> scope_db \<Rightarrow> scope_store_error + scope_evidence" where
  "export_stopped X own db =
     and_then (map_err SSE_Validation (owner_validate own)) (\<lambda>_.
     and_then (scope_metadata db) (\<lambda>(stored, last_seen).
     and_then (reject_if (stored \<noteq> own) SSE_OwnerMismatch) (\<lambda>_.
     and_then (check_export_size X db) (\<lambda>_.
     and_then (read_evidence X db own last_seen) (\<lambda>evidence.
     and_then (map_err (\<lambda>_. SSE_Corrupt) (evidence_encode X evidence)) (\<lambda>_. Inr evidence))))))"

subsection \<open>Opening and recovery\<close>

fun interrupt_actions :: "scope_db \<Rightarrow> action_record list \<Rightarrow> scope_store_error + scope_db" where
  "interrupt_actions db [] = Inr db"
| "interrupt_actions db (r # rs) =
     (if ar_state r \<in> {ES_Reserved, ES_DispatchClaimed} then
        let r' = r\<lparr>ar_state := ES_Unknown\<rparr> in
        and_then (save_action db r') (\<lambda>db1.
        and_then (append_event db1 (pc_scope_id (ar_action r')) (Some (ar_id r')) EK_Interrupted None (ar_digest r')) (\<lambda>db2.
        interrupt_actions db2 rs))
      else interrupt_actions db rs)"

text \<open>The file is \<open>None\<close> while the database has no tables; the first transaction creates them and
  commits before the second, which verifies and recovers.  An error drops that second transaction.\<close>

definition fresh_db :: "authority_owner \<Rightarrow> scope_db" where
  "fresh_db own = \<lparr>db_owner = own, db_last_seen = 0, db_scopes = [], db_actions = [], db_events = []\<rparr>"

definition recover_op :: "'z scext_scheme \<Rightarrow> authority_owner \<Rightarrow> scope_db \<Rightarrow> scope_store_error + scope_db" where
  "recover_op X own db =
     and_then (scope_metadata db) (\<lambda>(stored, last_seen).
     and_then (reject_if (own \<noteq> stored) SSE_OwnerMismatch) (\<lambda>_.
     and_then (verify_all X db own last_seen) (\<lambda>_.
     and_then (all_actions X db) (interrupt_actions db))))"

definition open_store ::
  "'z scext_scheme \<Rightarrow> store_fault \<Rightarrow> authority_owner \<Rightarrow> scope_db option \<Rightarrow> (scope_store_error + unit) \<times> scope_db option" where
  "open_store X flt own file =
     (case owner_validate own of
        Inl e \<Rightarrow> (Inl (SSE_Validation e), file)
      | Inr _ \<Rightarrow>
          (case flt of
             TxFault e \<Rightarrow> (Inl e, file)
           | _ \<Rightarrow>
               let db = (case file of None \<Rightarrow> fresh_db own | Some db \<Rightarrow> db) in
               case (case flt of OpFault e \<Rightarrow> Inl e | _ \<Rightarrow> recover_op X own db) of
                 Inl e \<Rightarrow> (Inl e, Some db)
               | Inr db' \<Rightarrow> (Inr (), Some db')))"

end
