(* ===== verification/Scope_Changes.thy ===== *)
theory Scope_Changes
  imports Scope_Steps Scope_Store
begin

text \<open>
  The changes the ledger makes, each shown to keep the evidence sound: the passing of time, issuing and
  revoking a scope, charging an action to a whole chain, and advancing an action.
\<close>

subsection \<open>What soundness gives\<close>

lemma sound_scope:
  assumes "ledger_sound X own T sc ac evs" "sc i = Some r"
  shows "sr_id r = i" "canonical_grant X (sr_grant r)" "grant_digest X (sr_grant r) = Inr (sr_digest r)"
    "sg_owner (sr_grant r) = own" "sr_issued_at r \<le> T" "sr_issued_at r < sg_expires_at (sr_grant r)" "within_limits r"
    "\<exists>ch. lineage sc (Some i) ch \<and> chain_narrows ch"
proof -
  obtain ch where ch: "lineage sc (Some i) ch" "chain_narrows ch" "scope_consistent own T ch"
    using assms unfolding ledger_sound_def scopes_ok_def by blast
  have "hd ch = r" using lineage_hd[OF ch(1)] assms(2) by simp
  then show "sg_owner (sr_grant r) = own" "sr_issued_at r \<le> T" "sr_issued_at r < sg_expires_at (sr_grant r)" "within_limits r"
    using ch(3) by (auto simp: scope_consistent_def Let_def within_limits_def)
  show "sr_id r = i" "canonical_grant X (sr_grant r)" "grant_digest X (sr_grant r) = Inr (sr_digest r)"
    using assms unfolding ledger_sound_def grants_ok_def by blast+
  show "\<exists>ch. lineage sc (Some i) ch \<and> chain_narrows ch" using ch by blast
qed

lemma sound_action_entry:
  assumes "ledger_sound X own T sc ac evs" "ac j = Some a"
  shows "action_entry_ok X own T sc j a"
  using assms unfolding ledger_sound_def actions_ok_entries by blast

lemma sound_state_ok: "ledger_sound X own T sc ac evs \<Longrightarrow> ac j = Some a \<Longrightarrow> action_state_ok a"
  using sound_action_entry unfolding action_entry_ok_def action_admitted_def by blast

lemma sound_tick:
  assumes s: "ledger_sound X own T sc ac evs" and "T \<le> now"
  shows "ledger_sound X own now sc ac evs"
proof -
  have "scopes_ok own now sc"
    by (rule scopes_ok_step[of own T sc]) (use assms sound_scope(7)[OF s] in \<open>auto simp: ledger_sound_def\<close>)
  moreover have "actions_ok X own now sc ac"
    by (rule actions_ok_step[of X own T sc]) (use assms in \<open>auto simp: ledger_sound_def\<close>)
  moreover have "history sc ac now 0 [] 0 evs"
    by (rule history_step[of now sc sc ac ac T]) (use assms sound_state_ok[OF s] in \<open>auto simp: ledger_sound_def\<close>)
  ultimately show ?thesis using assms unfolding ledger_sound_def by auto
qed

lemma sound_extend:
  assumes s: "ledger_sound X own now sc ac evs" and st: "scopes_step now sc sc'" "actions_step ac ac'"
    and "grants_ok X sc'" "scopes_ok own now sc'" "actions_ok X own now sc' ac'" "charges_ok sc' ac'"
    and "event_fits sc' ac' now (of_nat (length evs) + 1) (keys_of evs) (last_time evs) ev"
    and "events_present sc' ac' (evs @ [ev])"
  shows "ledger_sound X own now sc' ac' (evs @ [ev])"
proof -
  have "history sc' ac' now 0 [] 0 evs"
    by (rule history_step[OF st order_refl]) (use s sound_state_ok[OF s] in \<open>auto simp: ledger_sound_def\<close>)
  then show ?thesis using assms unfolding ledger_sound_def history_snoc by blast
qed

definition chain_active :: "scope_record list \<Rightarrow> i64 \<Rightarrow> bool" where
  "chain_active ch now =
     (\<forall>s\<in>set ch. sr_revoked_at s = None \<and> sg_not_before (sr_grant s) \<le> now \<and> now < sg_expires_at (sr_grant s))"

lemma active_open: "chain_active ch now \<Longrightarrow> chain_open_at ch now"
  by (auto simp: chain_active_def chain_open_at_def list_ex_iff)

lemma sound_in_force:
  assumes s: "ledger_sound X own T sc ac evs" and l: "lineage sc p ch" "chain_active ch now"
    and k: "\<forall>i. k \<noteq> (i, EK_ScopeRevoked)"
  shows "chain_in_force (k # keys_of evs) ch"
  unfolding chain_in_force_def
proof (intro ballI conjI)
  fix r assume r: "r \<in> set ch"
  have g: "grants_ok X sc" and h: "history sc ac T 0 [] 0 evs" and e: "events_present sc ac evs"
    using s by (simp_all add: ledger_sound_def)
  have look: "sc (sr_id r) = Some r" by (rule lineage_mem_key[OF g l(1) r])
  have "(sr_id r, EK_ScopeRevoked) \<notin> set (keys_of evs)"
  proof
    assume "(sr_id r, EK_ScopeRevoked) \<in> set (keys_of evs)"
    from history_scope_event[OF h this] have "sr_revoked_at r \<noteq> None"
      using look by (auto simp: scope_event_correct_def)
    then show False using l(2) r by (simp add: chain_active_def)
  qed
  then show "(sr_id r, EK_ScopeRevoked) \<notin> set (k # keys_of evs)" using k by auto
  show "(sr_id r, EK_ScopeIssued) \<in> set (k # keys_of evs)"
    using e look by (auto simp: events_present_def scope_events_present_def)
qed

lemma sound_last_time: "ledger_sound X own T sc ac evs \<Longrightarrow> last_time evs \<le> T"
  using last_time_le unfolding ledger_sound_def by blast

lemma sound_issued_key:
  assumes "ledger_sound X own T sc ac evs" "sc i = Some r"
  shows "(i, EK_ScopeIssued) \<in> set (keys_of evs)"
proof -
  have "scope_events_present (keys_of evs) r" using assms unfolding ledger_sound_def events_present_def by blast
  then show ?thesis using sound_scope(1)[OF assms] by (simp add: scope_events_present_def)
qed

lemma sound_action_keys:
  assumes "ledger_sound X own T sc ac evs" "ac j = Some a"
  shows "(j, EK_AttemptCharged) \<in> set (keys_of evs)"
    "ar_dispatch_claimed_at a \<noteq> None \<Longrightarrow> (j, EK_DispatchClaimed) \<in> set (keys_of evs)"
proof -
  have "action_events_present (keys_of evs) a" using assms unfolding ledger_sound_def events_present_def by blast
  moreover have "ar_id a = j" using sound_action_entry[OF assms] by (simp add: action_entry_ok_def)
  ultimately show "(j, EK_AttemptCharged) \<in> set (keys_of evs)"
    "ar_dispatch_claimed_at a \<noteq> None \<Longrightarrow> (j, EK_DispatchClaimed) \<in> set (keys_of evs)"
    by (auto simp: action_events_present_def)
qed

subsection \<open>Issuing a scope\<close>

lemma charges_fresh_scope:
  assumes c: "charges_ok sc ac" and a: "actions_ok X own T sc ac" and g: "grants_ok X sc" and "sc i = None" "sr_id r = i"
    and r: "sr_charged_attempts r = 0" "sr_charged_resources r = {||}"
  shows "charges_ok (sc(i \<mapsto> r)) ac"
proof -
  have st: "scopes_step now sc (sc(i \<mapsto> r))" for now using assms(4) by (auto simp: scopes_step_def)
  have ct: "charged_to (sc(i \<mapsto> r)) ac k = charged_to sc ac k" for k by (rule charged_to_step[OF a st])
  have "charged_to sc ac i = {}"
    using assms(4) lineage_mem_key[OF g] unfolding charged_to_def charges_scope_def by fastforce
  then show ?thesis using c r unfolding charges_ok_def ct by auto
qed

lemma sound_issue:
  assumes s: "ledger_sound X own now sc ac evs" and fresh: "sc i = None"
    and r: "sr_id r = i" "canonical_grant X (sr_grant r)" "grant_digest X (sr_grant r) = Inr (sr_digest r)"
      "sg_owner (sr_grant r) = own" "sr_issued_at r = now" "sr_revoked_at r = None" "now < sg_expires_at (sr_grant r)"
      "sr_charged_attempts r = 0" "sr_charged_resources r = {||}"
    and par: "lineage sc (sg_parent_id (sr_grant r)) ch" "chain_narrows (r # ch)" "chain_active ch now"
    and ev: "ev = \<lparr>ev_sequence = of_nat (length evs) + 1, ev_scope_id = i, ev_action_id = None, ev_kind = EK_ScopeIssued,
      ev_observed_at = Some now, ev_content_digest = sr_digest r\<rparr>"
  shows "ledger_sound X own now (sc(i \<mapsto> r)) ac (evs @ [ev])"
proof (rule sound_extend[OF s])
  let ?sc = "sc(i \<mapsto> r)"
  have g: "grants_ok X sc" and a: "actions_ok X own now sc ac" and c: "charges_ok sc ac"
    and so: "scopes_ok own now sc" and h: "history sc ac now 0 [] 0 evs" and e: "events_present sc ac evs" and t: "0 \<le> now"
    using s by (simp_all add: ledger_sound_def)
  show st: "scopes_step now sc ?sc" using fresh by (auto simp: scopes_step_def)
  show "actions_step ac ac" by simp
  show g': "grants_ok X ?sc" by (rule grants_ok_step[OF g st]) (use r in \<open>auto split: if_splits\<close>)
  have "lineage ?sc (sg_parent_id (sr_grant r)) ch"
    by (rule lineage_extend[OF _ par(1)]) (use fresh in \<open>auto simp: map_le_def\<close>)
  then have l: "lineage ?sc (Some i) (r # ch)" by simp
  have "\<forall>p\<in>set ch. \<not> now < sr_issued_at p"
    using sound_scope(5)[OF s lineage_mem_key[OF g par(1)]] by fastforce
  then have cons: "scope_consistent own now (r # ch)"
    using r par(3) t by (auto simp: scope_consistent_def Let_def list_ex_iff chain_active_def fcard_fempty)
  show "scopes_ok own now ?sc"
  proof (rule scopes_ok_step[OF so order_refl st])
    show "within_limits x" if "?sc k = Some x" for k x
      using that sound_scope(7)[OF s] r by (cases "k = i") (auto simp: within_limits_def fcard_fempty)
    show "\<exists>ch. lineage ?sc (Some k) ch \<and> chain_narrows ch \<and> scope_consistent own now ch" if "sc k = None" "?sc k = Some x" for k x
    proof -
      have "k = i" using that by (auto split: if_splits)
      then show ?thesis using l par(2) cons by blast
    qed
  qed
  show "actions_ok X own now ?sc ac" by (rule actions_ok_step[OF a order_refl st])
  show "charges_ok ?sc ac" by (rule charges_fresh_scope[OF c a g fresh r(1,8,9)])
  have nk: "(i, k) \<notin> set (keys_of evs)" if "k \<in> {EK_ScopeIssued, EK_ScopeRevoked}" for k
    using history_scope_event[OF h _ that, of i] fresh by auto
  have key: "event_key ev = (i, EK_ScopeIssued)" by (simp add: ev event_key_def)
  have "chain_in_force (event_key ev # keys_of evs) (r # ch)"
    using sound_in_force[OF s par(1,3), of "event_key ev"] nk r(1) by (auto simp: chain_in_force_def key)
  then show "event_fits ?sc ac now (of_nat (length evs) + 1) (keys_of evs) (last_time evs) ev"
    using l nk sound_last_time[OF s] r unfolding event_fits_def Let_def key
    by (auto simp: ev scope_event_correct_def simp del: lineage.simps)
  show "events_present ?sc ac (evs @ [ev])"
    using e r unfolding events_present_def keys_snoc key
    by (auto simp: scope_events_present_def action_events_mono split: if_splits)
qed

subsection \<open>Revoking a scope\<close>

lemma sound_revoke:
  assumes s: "ledger_sound X own now sc ac evs" and old: "sc i = Some r" "sr_revoked_at r = None"
    and r': "r' = r\<lparr>sr_revoked_at := Some now\<rparr>"
    and ev: "ev = \<lparr>ev_sequence = of_nat (length evs) + 1, ev_scope_id = i, ev_action_id = None, ev_kind = EK_ScopeRevoked,
      ev_observed_at = Some now, ev_content_digest = sr_digest r'\<rparr>"
  shows "ledger_sound X own now (sc(i \<mapsto> r')) ac (evs @ [ev])"
proof (rule sound_extend[OF s])
  let ?sc = "sc(i \<mapsto> r')"
  have g: "grants_ok X sc" and a: "actions_ok X own now sc ac" and c: "charges_ok sc ac"
    and so: "scopes_ok own now sc" and h: "history sc ac now 0 [] 0 evs" and e: "events_present sc ac evs"
    using s by (simp_all add: ledger_sound_def)
  show st: "scopes_step now sc ?sc" using old by (auto simp: scopes_step_def scope_step_def r')
  show "actions_step ac ac" by simp
  show "grants_ok X ?sc" by (rule grants_ok_step[OF g st]) (use old in \<open>auto split: if_splits\<close>)
  show "scopes_ok own now ?sc"
  proof (rule scopes_ok_step[OF so order_refl st])
    show "within_limits x" if "?sc k = Some x" for k x
      using that sound_scope(7)[OF s] old(1) by (cases "k = i") (auto simp: within_limits_def r')
  qed (use old in \<open>auto split: if_splits\<close>)
  show "actions_ok X own now ?sc ac" by (rule actions_ok_step[OF a order_refl st])
  show "charges_ok ?sc ac"
    using c old(1) unfolding charges_ok_def charged_to_step[OF a st] by (auto simp: r')
  have nk: "(i, EK_ScopeRevoked) \<notin> set (keys_of evs)"
    using history_scope_event[OF h, of i EK_ScopeRevoked] old by (auto simp: scope_event_correct_def)
  have key: "event_key ev = (i, EK_ScopeRevoked)" by (simp add: ev event_key_def)
  have iss: "(i, EK_ScopeIssued) \<in> set (keys_of evs)" by (rule sound_issued_key[OF s old(1)])
  then show "event_fits ?sc ac now (of_nat (length evs) + 1) (keys_of evs) (last_time evs) ev"
    using nk sound_last_time[OF s] unfolding event_fits_def Let_def key
    by (auto simp: ev scope_event_correct_def r')
  show "events_present ?sc ac (evs @ [ev])"
    unfolding events_present_def keys_snoc key
  proof (intro conjI allI impI)
    fix m x assume x: "?sc m = Some x"
    show "scope_events_present ((i, EK_ScopeRevoked) # keys_of evs) x"
    proof (cases "m = i")
      case True
      then show ?thesis using x iss sound_scope(1)[OF s old(1)] by (auto simp: scope_events_present_def r')
    next
      case False
      then show ?thesis using x e by (auto simp: events_present_def scope_events_mono)
    qed
  qed (use e in \<open>auto simp: events_present_def action_events_mono\<close>)
qed

subsection \<open>Advancing an action\<close>

lemma sound_advance:
  assumes s: "ledger_sound X own now sc ac evs" and old: "ac j = Some a" "action_step a a'"
    and entry: "action_entry_ok X own now sc j a'"
    and ev: "ev = \<lparr>ev_sequence = of_nat (length evs) + 1, ev_scope_id = scope_of a, ev_action_id = Some j, ev_kind = k,
      ev_observed_at = at, ev_content_digest = ar_digest a\<rparr>"
    and k: "k \<in> {EK_DispatchClaimed, EK_AttemptFinished, EK_Interrupted}" "at = Some now \<or> at = None"
      "(j, k) \<notin> set (keys_of evs)" "action_event_correct ev a'"
      "k \<noteq> EK_DispatchClaimed \<Longrightarrow> ar_dispatch_claimed_at a' = ar_dispatch_claimed_at a"
      "k = EK_DispatchClaimed \<Longrightarrow> lineage sc (Some (scope_of a)) ch \<and> chain_active ch now"
    and pres: "action_events_present ((j, k) # keys_of evs) a'"
  shows "ledger_sound X own now sc (ac(j \<mapsto> a')) (evs @ [ev])"
proof (rule sound_extend[OF s])
  let ?ac = "ac(j \<mapsto> a')"
  have g: "grants_ok X sc" and a: "actions_ok X own now sc ac" and c: "charges_ok sc ac"
    and so: "scopes_ok own now sc" and h: "history sc ac now 0 [] 0 evs" and e: "events_present sc ac evs"
    using s by (simp_all add: ledger_sound_def)
  have same: "ar_action a' = ar_action a" "ar_digest a' = ar_digest a" using old(2) by (simp_all add: action_step_def)
  show "scopes_step now sc sc" by simp
  show "actions_step ac ?ac" using old by (auto simp: actions_step_def)
  show "grants_ok X sc" "scopes_ok own now sc" by (fact g, fact so)
  show "actions_ok X own now sc ?ac"
  proof (rule actions_ok_update[OF a order_refl _ entry])
    show "m = j" if "ac m = Some b" "request_of b = request_of a'" for m b
      using a old(1) that unfolding actions_ok_def same(1) by blast
  qed simp
  show "charges_ok sc ?ac" by (rule charges_ok_update[OF c old(1) same(1)])
  have key: "event_key ev = (j, k)" by (simp add: ev event_key_def)
  obtain ch0 where l0: "lineage sc (Some (scope_of a)) ch0"
    using sound_action_entry[OF s old(1)] unfolding action_entry_ok_def by blast
  obtain r where r: "sc (scope_of a) = Some r" using lineage_hd[OF l0] by blast
  note iss = sound_issued_key[OF s r] and ch = sound_action_keys[OF s old(1)]
  have f: "ev_kind ev = k" "ev_scope_id ev = scope_of a" "ev_content_digest ev = ar_digest a" by (simp_all add: ev)
  have "k = EK_DispatchClaimed \<or> ar_dispatch_claimed_at a' = None \<or> (j, EK_DispatchClaimed) \<in> set (keys_of evs)"
    using k(5) ch(2) by metis
  then have "action_event_ok (event_key ev # keys_of evs) ev j a'"
    using k(4) ch(1) unfolding action_event_ok_def key f same by auto
  moreover have "\<exists>ch. lineage sc (Some (scope_of a)) ch \<and> chain_in_force (event_key ev # keys_of evs) ch" if "k = EK_DispatchClaimed"
    using k(6)[OF that] sound_in_force[OF s, of _ ch now "event_key ev"] unfolding key that by blast
  ultimately show "event_fits sc ?ac now (of_nat (length evs) + 1) (keys_of evs) (last_time evs) ev"
    using k(1-3) iss r sound_last_time[OF s] unfolding event_fits_def Let_def key by (auto simp: ev)
  show "events_present sc ?ac (evs @ [ev])"
    using e pres unfolding events_present_def keys_snoc key by (auto simp: scope_events_mono action_events_mono)
qed

subsection \<open>Charging an action\<close>

definition charge_all ::
  "string \<Rightarrow> string set \<Rightarrow> (string \<Rightarrow> scope_record option) \<Rightarrow> string \<Rightarrow> scope_record option" where
  "charge_all resource ids sc = (\<lambda>i. if i \<in> ids then map_option (charge_scope resource) (sc i) else sc i)"

lemma charge_keeps [simp]:
  "sr_grant (charge_scope res r) = sr_grant r" "sr_digest (charge_scope res r) = sr_digest r"
  "sr_issued_at (charge_scope res r) = sr_issued_at r" "sr_revoked_at (charge_scope res r) = sr_revoked_at r"
  by (simp_all add: charge_scope_def)

lemma charge_within:
  assumes "\<not> over_budget res r" "within_limits r"
  shows "within_limits (charge_scope res r)" "unat (sr_charged_attempts (charge_scope res r)) = unat (sr_charged_attempts r) + 1"
proof -
  have l: "sr_charged_attempts r < sg_max_charged_attempts (sr_grant r)" using assms(1) by (auto simp: over_budget_def not_le)
  have "unat (sg_max_charged_attempts (sr_grant r)) < 2 ^ LENGTH(64)" by (rule unsigned_less)
  then show u: "unat (sr_charged_attempts (charge_scope res r)) = unat (sr_charged_attempts r) + 1"
    using unat_add_one[of "sr_charged_attempts r"] l by (simp add: charge_scope_def word_less_nat_alt)
  have "sr_charged_attempts (charge_scope res r) \<le> sg_max_charged_attempts (sr_grant r)"
    using l unfolding word_le_nat_alt word_less_nat_alt u by simp
  moreover have "fcard (finsert res (sr_charged_resources r)) \<le> unat (sg_max_distinct_resources (sr_grant r))"
    using assms by (auto simp: over_budget_def within_limits_def fcard_finsert_if)
  ultimately show "within_limits (charge_scope res r)" by (simp add: within_limits_def charge_scope_def)
qed

lemma charges_ok_charge:
  assumes c: "charges_ok sc ac" and a: "actions_ok X own T sc ac" and fresh: "ac j = None" "finite (dom ac)"
    and l: "lineage sc (Some (scope_of r)) ch" and ids: "ids = sr_id ` set ch" and res: "res = resource_of r"
    and st: "scopes_step now sc (charge_all res ids sc)"
    and b: "\<And>i s. i \<in> ids \<Longrightarrow> sc i = Some s \<Longrightarrow>
      unat (sr_charged_attempts (charge_scope res s)) = unat (sr_charged_attempts s) + 1"
  shows "charges_ok (charge_all res ids sc) (ac(j \<mapsto> r))"
proof -
  let ?sc = "charge_all res ids sc"
  have ur: "charges_scope ?sc i r \<longleftrightarrow> i \<in> ids" for i
    using charges_scope_step[OF st l] charges_lineage[OF l] ids by simp
  have ct: "charged_to ?sc (ac(j \<mapsto> r)) i = (if i \<in> ids then insert j (charged_to sc ac i) else charged_to sc ac i)" for i
    using charged_to_step[OF a st, of i] ur[of i] fresh(1) by (auto simp: charged_to_def split: if_splits)
  have nj: "j \<notin> charged_to sc ac i" for i using fresh(1) by (simp add: charged_to_def)
  have im: "(\<lambda>k. resource_of (the ((ac(j \<mapsto> r)) k))) ` charged_to sc ac i = (\<lambda>k. resource_of (the (ac k))) ` charged_to sc ac i" for i
    using nj[of i] by (intro image_cong) auto
  show ?thesis unfolding charges_ok_def
  proof (intro allI impI)
    fix i s' assume s': "?sc i = Some s'"
    then obtain s where s: "sc i = Some s" "s' = (if i \<in> ids then charge_scope res s else s)"
      by (auto simp: charge_all_def split: if_splits)
    have old: "unat (sr_charged_attempts s) = card (charged_to sc ac i)"
      "fset (sr_charged_resources s) = (\<lambda>j. resource_of (the (ac j))) ` charged_to sc ac i"
      using c s(1) unfolding charges_ok_def by blast+
    show "unat (sr_charged_attempts s') = card (charged_to ?sc (ac(j \<mapsto> r)) i)
        \<and> fset (sr_charged_resources s') = (\<lambda>k. resource_of (the ((ac(j \<mapsto> r)) k))) ` charged_to ?sc (ac(j \<mapsto> r)) i"
    proof (cases "i \<in> ids")
      case True
      have "card (insert j (charged_to sc ac i)) = Suc (card (charged_to sc ac i))"
        using nj finite_charged_to[OF fresh(2)] by simp
      moreover have "fset (sr_charged_resources s') = insert res (fset (sr_charged_resources s))"
        using s(2) True by (simp add: charge_scope_def)
      ultimately show ?thesis
        using True s(2) b[OF True s(1)] old im[of i] unfolding ct by (simp add: res)
    next
      case False
      then show ?thesis using s(2) old im[of i] unfolding ct by simp
    qed
  qed
qed

lemma sound_charge:
  assumes s: "ledger_sound X own now sc ac evs" and fresh: "ac j = None" "finite (dom ac)"
      "\<And>k b. ac k = Some b \<Longrightarrow> request_of b \<noteq> request_of r"
    and r: "ar_id r = j" "canonical_action X (ar_action r)" "action_digest X (ar_action r) = Inr (ar_digest r)"
      "pc_owner (ar_action r) = own" "ar_reserved_at r = now" "ar_dispatch_claimed_at r = None" "ar_finished_at r = None"
      "ar_state r = ES_Reserved"
    and l: "lineage sc (Some (scope_of r)) ch" "chain_narrows ch" "chain_active ch now"
    and e: "evidence_validate_for X (ar_evidence r) (sr_grant (hd ch)) (ar_action r) now = Inr ()"
    and b: "\<And>x. x \<in> set ch \<Longrightarrow> \<not> over_budget (resource_of r) x"
    and ev: "ev = \<lparr>ev_sequence = of_nat (length evs) + 1, ev_scope_id = scope_of r, ev_action_id = Some j,
      ev_kind = EK_AttemptCharged, ev_observed_at = Some now, ev_content_digest = ar_digest r\<rparr>"
  shows "ledger_sound X own now (charge_all (resource_of r) (sr_id ` set ch) sc) (ac(j \<mapsto> r)) (evs @ [ev])"
proof (rule sound_extend[OF s])
  let ?sc = "charge_all (resource_of r) (sr_id ` set ch) sc" and ?ac = "ac(j \<mapsto> r)"
  have g: "grants_ok X sc" and a: "actions_ok X own now sc ac" and c: "charges_ok sc ac"
    and so: "scopes_ok own now sc" and h: "history sc ac now 0 [] 0 evs" and ep: "events_present sc ac evs"
    using s by (simp_all add: ledger_sound_def)
  have look: "sc (sr_id x) = Some x" if "x \<in> set ch" for x by (rule lineage_mem_key[OF g l(1) that])
  have lim: "within_limits (charge_scope (resource_of r) x)"
      "unat (sr_charged_attempts (charge_scope (resource_of r) x)) = unat (sr_charged_attempts x) + 1" if "x \<in> set ch" for x
    using charge_within[OF b[OF that] sound_scope(7)[OF s look[OF that]]] by blast+
  show st: "scopes_step now sc ?sc" by (auto simp: scopes_step_def scope_step_def charge_all_def)
  show "actions_step ac ?ac" using fresh(1) by (auto simp: actions_step_def)
  show "grants_ok X ?sc" by (rule grants_ok_step[OF g st]) (auto simp: charge_all_def split: if_splits)
  show "scopes_ok own now ?sc"
  proof (rule scopes_ok_step[OF so order_refl st])
    show "within_limits y" if "?sc k = Some y" for k y
      using that look lim(1) sound_scope(7)[OF s] by (auto simp: charge_all_def split: if_splits)
  qed (auto simp: charge_all_def split: if_splits)
  show "charges_ok ?sc ?ac"
    by (rule charges_ok_charge[OF c a fresh(1,2) l(1) refl refl st]) (use look lim(2) in auto)
  have "action_admitted X own now ch r"
    using e r l(3) active_open[OF l(3)] sound_scope(5)[OF s lineage_hd[OF l(1)]]
    by (simp add: action_admitted_def action_times_ok_def action_state_ok_def)
  then have en: "action_entry_ok X own now sc j r" using r l unfolding action_entry_ok_def by blast
  show "actions_ok X own now ?sc ?ac"
    by (rule actions_ok_update[OF a order_refl st action_entry_step[OF en order_refl st]]) (use fresh(3) in blast)
  have nk: "(j, k) \<notin> set (keys_of evs)" if "k \<in> {EK_AttemptCharged, EK_DispatchClaimed, EK_AttemptFinished, EK_Interrupted}" for k
    using history_action_event[OF h _ that, of j] fresh(1) by auto
  have key: "event_key ev = (j, EK_AttemptCharged)" by (simp add: ev event_key_def)
  obtain q where q: "sc (scope_of r) = Some q" using lineage_hd[OF l(1)] by blast
  obtain q' where q': "?sc (scope_of r) = Some q'" using st q unfolding scopes_step_def by blast
  obtain ch' where ch': "lineage ?sc (Some (scope_of r)) ch'" "list_all2 (scope_step now) ch ch'"
    using lineage_step[OF st l(1)] by blast
  have "chain_in_force (event_key ev # keys_of evs) ch'"
    using sound_in_force[OF s l(1,3), of "event_key ev"] chain_in_force_ids[OF steps_ids[OF ch'(2)]] by (simp add: key)
  moreover have "action_event_ok (event_key ev # keys_of evs) ev j r"
    by (simp add: action_event_ok_def action_event_correct_def ev r)
  ultimately show "event_fits ?sc ?ac now (of_nat (length evs) + 1) (keys_of evs) (last_time evs) ev"
    using nk[of EK_AttemptCharged] sound_issued_key[OF s q] q' ch'(1) sound_last_time[OF s]
    unfolding event_fits_def Let_def key by (auto simp: ev)
  show "events_present ?sc ?ac (evs @ [ev])" unfolding events_present_def keys_snoc key
  proof (intro conjI allI impI)
    fix i x assume "?sc i = Some x"
    then obtain y where "sc i = Some y" "sr_id x = sr_id y" "sr_revoked_at x = sr_revoked_at y"
      by (auto simp: charge_all_def split: if_splits)
    moreover then have "scope_events_present (keys_of evs) y" using ep unfolding events_present_def by blast
    ultimately show "scope_events_present ((j, EK_AttemptCharged) # keys_of evs) x" by (simp add: scope_events_present_def)
  next
    fix k x assume "?ac k = Some x"
    then show "action_events_present ((j, EK_AttemptCharged) # keys_of evs) x"
      using ep r by (cases "k = j") (auto simp: events_present_def action_events_mono, simp add: action_events_present_def)
  qed
qed

end
