(* ===== verification/Scope_Ledger.thy ===== *)
theory Scope_Ledger
  imports Scope_Changes Ledger
begin

text \<open>
  The scope ledger over runs: the invariant of the database, that every operation keeps it whatever fails,
  that the verification at startup accepts every database it describes, and that later states extend
  earlier ones.  The ledger is an instance of the contract of charges that are granted once.
\<close>

subsection \<open>The database as two maps and a history\<close>

definition scopes_of :: "scope_db \<Rightarrow> string \<Rightarrow> scope_record option" where
  "scopes_of db = map_of (db_scopes db)"

definition actions_of :: "scope_db \<Rightarrow> string \<Rightarrow> action_record option" where
  "actions_of db j = map_option (\<lambda>(_, _, _, r). r) (map_of (db_actions db) j)"

definition events_of :: "scope_db \<Rightarrow> authority_event list" where
  "events_of db = map snd (db_events db)"

definition tables_ok :: "scope_db \<Rightarrow> bool" where
  "tables_ok db =
     (distinct (map fst (db_scopes db)) \<and> distinct (map fst (db_actions db))
      \<and> (\<forall>(i, sc, su, rq, a)\<in>set (db_actions db). (sc, su, rq) = request_of a)
      \<and> map fst (db_events db) = map int [1..<Suc (length (db_events db))]
      \<and> int (length (db_events db)) \<le> i64_max)"

definition sound_db :: "'z scext_scheme \<Rightarrow> authority_owner \<Rightarrow> scope_db \<Rightarrow> bool" where
  "sound_db X own db = ledger_sound X own (db_last_seen db) (scopes_of db) (actions_of db) (events_of db)"

definition db_ok :: "'z scext_scheme \<Rightarrow> authority_owner \<Rightarrow> scope_db \<Rightarrow> bool" where
  "db_ok X own db = (db_owner db = own \<and> tables_ok db \<and> sound_db X own db)"

lemma finite_actions: "finite (dom (actions_of db))"
proof -
  have "dom (actions_of db) = dom (map_of (db_actions db))" by (auto simp: actions_of_def dom_def)
  then show ?thesis by (simp add: finite_dom_map_of)
qed

lemma actions_of_Some: "actions_of db j = Some a \<longleftrightarrow> (\<exists>sc su rq. map_of (db_actions db) j = Some (sc, su, rq, a))"
  by (auto simp: actions_of_def)

lemma tables_row: "tables_ok db \<Longrightarrow> map_of (db_actions db) j = Some (sc, su, rq, a) \<Longrightarrow> (sc, su, rq) = request_of a"
  using map_of_SomeD unfolding tables_ok_def by fastforce

subsection \<open>Reading rows\<close>

lemma maybe_scope_ok:
  assumes "grants_ok X (scopes_of db)"
  shows "maybe_scope X db i = Inr (scopes_of db i)"
  using assms by (cases "map_of (db_scopes db) i") (simp_all add: maybe_scope_def scopes_of_def grants_ok_def)

lemma load_scope_ok: "grants_ok X (scopes_of db) \<Longrightarrow> load_scope X db i = ok_or (scopes_of db i) SSE_NotFound"
  by (simp add: load_scope_def maybe_scope_ok)

lemma load_action_ok:
  assumes "tables_ok db" "sound_db X own db"
  shows "load_action X db j = ok_or (actions_of db j) SSE_NotFound"
proof (cases "map_of (db_actions db) j")
  case None
  then show ?thesis by (simp add: load_action_def actions_of_def)
next
  case (Some row)
  then obtain sc su rq a where row: "map_of (db_actions db) j = Some (sc, su, rq, a)" by (cases row) auto
  then have a: "actions_of db j = Some a" by (simp add: actions_of_def)
  have "action_entry_ok X own (db_last_seen db) (scopes_of db) j a"
    using sound_action_entry a assms(2) unfolding sound_db_def by blast
  then show ?thesis
    using row a tables_row[OF assms(1) row] by (simp add: load_action_def action_entry_ok_def)
qed

lemma scope_chain_Inr:
  assumes "grants_ok X (scopes_of db)"
  shows "scope_chain X db i = Inr ch \<longleftrightarrow> lineage (scopes_of db) (Some i) ch \<and> chain_narrows ch"
proof -
  let ?look = "\<lambda>j. ok_or (scopes_of db j) SSE_NotFound"
  have k: "sr_id r = j" if "?look j = Inr r" for j r using that assms by (simp add: grants_ok_def)
  have "load_scope X db = ?look" using load_scope_ok[OF assms] by blast
  then have "scope_chain X db i = Inr ch \<longleftrightarrow> climb ?look SSE_Corrupt [] (Some i) = Inr ch \<and> windows_narrow X ch = Inr ()"
    unfolding scope_chain_def by (simp only: and_then_Inr map_err_Inr) auto
  also have "\<dots> \<longleftrightarrow> lineage (scopes_of db) (Some i) ch \<and> chain_narrows ch"
    using climb_narrow_Inr[of X ?look, OF _ k] assms by simp
  finally show ?thesis .
qed

lemma active_chain_Inr:
  assumes "grants_ok X (scopes_of db)"
  shows "active_chain X db i now = Inr ch \<longleftrightarrow> lineage (scopes_of db) (Some i) ch \<and> chain_narrows ch \<and> chain_active ch now"
proof -
  have "\<not> list_ex (\<lambda>r. sr_revoked_at r \<noteq> None \<or> now < sg_not_before (sr_grant r) \<or> now \<ge> sg_expires_at (sr_grant r)) c
      \<longleftrightarrow> chain_active c now" for c
    by (auto simp: list_ex_iff chain_active_def)
  then show ?thesis unfolding active_chain_def and_then_Inr scope_chain_Inr[OF assms] by auto
qed

subsection \<open>Writing rows\<close>

lemma filter_key_one: "distinct (map fst xs) \<Longrightarrow> length (filter (\<lambda>(i, _). i = k) xs) = 1 \<longleftrightarrow> k \<in> fst ` set xs"
proof (induction xs)
  case (Cons x xs)
  have "k \<notin> fst ` set xs \<Longrightarrow> filter (\<lambda>(i, _). i = k) xs = []" by (force simp: filter_empty_conv)
  then show ?case using Cons by (cases x) auto
qed simp

lemma map_of_replace:
  "map_of (map (\<lambda>(i, s). (i, if i = k then v else s)) xs) = (if k \<in> fst ` set xs then (map_of xs)(k \<mapsto> v) else map_of xs)"
proof (induction xs)
  case (Cons x xs)
  then show ?case by (cases x) (auto simp: fun_eq_iff)
qed simp

lemma scopes_of_dom: "i \<in> fst ` set (db_scopes db) \<longleftrightarrow> scopes_of db i \<noteq> None"
  unfolding scopes_of_def map_of_eq_None_iff by simp

lemma actions_of_dom: "j \<in> fst ` set (db_actions db) \<longleftrightarrow> actions_of db j \<noteq> None"
  unfolding actions_of_def option.map_disc_iff map_of_eq_None_iff by simp

text \<open>The parts of a database that a write leaves alone.\<close>

lemma save_scope_Inr:
  assumes "tables_ok db"
  shows "save_scope db r = Inr db' \<longleftrightarrow> scopes_of db (sr_id r) \<noteq> None
     \<and> db' = db\<lparr>db_scopes := map (\<lambda>(i, s). (i, if i = sr_id r then r else s)) (db_scopes db)\<rparr>"
  using filter_key_one[of "db_scopes db" "sr_id r"] assms scopes_of_dom[of "sr_id r" db]
  by (auto simp: save_scope_def tables_ok_def)

lemma save_scope_effect:
  assumes "tables_ok db" "save_scope db r = Inr db'"
  shows "tables_ok db'" "scopes_of db' = (scopes_of db)(sr_id r \<mapsto> r)" "actions_of db' = actions_of db"
    "db_events db' = db_events db" "db_owner db' = db_owner db" "db_last_seen db' = db_last_seen db"
    "db_actions db' = db_actions db"
proof -
  have e: "scopes_of db (sr_id r) \<noteq> None"
    "db' = db\<lparr>db_scopes := map (\<lambda>(i, s). (i, if i = sr_id r then r else s)) (db_scopes db)\<rparr>"
    using assms by (simp_all add: save_scope_Inr)
  have k: "map fst (db_scopes db') = map fst (db_scopes db)" "db_actions db' = db_actions db" "db_events db' = db_events db"
    by (simp_all add: e(2) case_prod_beta comp_def)
  show "tables_ok db'" using assms(1) unfolding tables_ok_def k .
  show "scopes_of db' = (scopes_of db)(sr_id r \<mapsto> r)"
    using e scopes_of_dom[of "sr_id r" db] map_of_replace[of "sr_id r" r "db_scopes db"] by (simp add: scopes_of_def)
  show "actions_of db' = actions_of db" by (simp add: e(2) actions_of_def fun_eq_iff)
qed (use assms in \<open>auto simp: save_scope_Inr\<close>)

lemma save_scopes_effect:
  assumes "tables_ok db" "save_scopes db rs = Inr db'"
  shows "tables_ok db' \<and> scopes_of db' = scopes_of db ++ map_of (map (\<lambda>r. (sr_id r, r)) (rev rs))
    \<and> db_events db' = db_events db \<and> db_owner db' = db_owner db \<and> db_last_seen db' = db_last_seen db
    \<and> db_actions db' = db_actions db"
  using assms
proof (induction rs arbitrary: db)
  case (Cons r rs)
  obtain db1 where db1: "save_scope db r = Inr db1" "save_scopes db1 rs = Inr db'" using Cons.prems(2) by auto
  note eff = save_scope_effect[OF Cons.prems(1) db1(1)]
  have m: "(scopes_of db)(sr_id r \<mapsto> r) ++ map_of (map (\<lambda>r. (sr_id r, r)) (rev rs))
      = scopes_of db ++ map_of (map (\<lambda>r. (sr_id r, r)) (rev (r # rs)))"
    by (auto simp: map_add_def fun_eq_iff split: option.splits)
  show ?case using Cons.IH[OF eff(1) db1(2)] unfolding eff(2,4-7) m .
qed simp

lemma save_action_Inr:
  assumes "tables_ok db"
  shows "save_action db r = Inr db' \<longleftrightarrow> actions_of db (ar_id r) \<noteq> None
     \<and> db' = db\<lparr>db_actions := map (\<lambda>(i, sc, su, rq, a). (i, sc, su, rq, if i = ar_id r then r else a)) (db_actions db)\<rparr>"
  using filter_key_one[of "db_actions db" "ar_id r"] assms actions_of_dom[of "ar_id r" db]
  by (auto simp: save_action_def tables_ok_def)

lemma save_action_effect:
  assumes "tables_ok db" "save_action db r = Inr db'" "actions_of db (ar_id r) = Some a" "ar_action r = ar_action a"
  shows "tables_ok db'" "actions_of db' = (actions_of db)(ar_id r \<mapsto> r)" "scopes_of db' = scopes_of db"
    "db_events db' = db_events db" "db_owner db' = db_owner db" "db_last_seen db' = db_last_seen db"
proof -
  have e: "db' = db\<lparr>db_actions := map (\<lambda>(i, sc, su, rq, a). (i, sc, su, rq, if i = ar_id r then r else a)) (db_actions db)\<rparr>"
    using assms(1,2) by (simp add: save_action_Inr)
  have k: "map fst (db_actions db') = map fst (db_actions db)" by (simp add: e case_prod_beta comp_def)
  have m: "map_of (db_actions db') j =
      map_option (\<lambda>(sc, su, rq, x). (sc, su, rq, if j = ar_id r then r else x)) (map_of (db_actions db) j)" for j
  proof -
    have "map_of (map (\<lambda>(i, sc, su, rq, x). (i, sc, su, rq, if i = ar_id r then r else x)) rows) j =
      map_option (\<lambda>(sc, su, rq, x). (sc, su, rq, if j = ar_id r then r else x)) (map_of rows j)" for rows
      by (induction rows) (auto split: if_splits)
    then show ?thesis by (simp add: e)
  qed
  show "actions_of db' = (actions_of db)(ar_id r \<mapsto> r)"
    using assms(3) by (auto simp: actions_of_def m fun_eq_iff option.map_comp split: option.splits)
  have rows: "(sc, su, rq) = request_of x" if x: "(i, sc, su, rq, x) \<in> set (db_actions db')" for i sc su rq x
  proof -
    obtain y where y: "(i, sc, su, rq, y) \<in> set (db_actions db)" "x = (if i = ar_id r then r else y)"
      using x by (auto simp: e)
    then have row: "(sc, su, rq) = request_of y" using assms(1) unfolding tables_ok_def by blast
    show ?thesis
    proof (cases "i = ar_id r")
      case True
      have "map_of (db_actions db) i = Some (sc, su, rq, y)" using y(1) assms(1) by (auto simp: tables_ok_def)
      then have "y = a" using assms(3) True by (simp add: actions_of_def)
      then show ?thesis using row y(2) True assms(4) by simp
    qed (use row y(2) in simp)
  qed
  have r: "\<forall>row\<in>set (db_actions db'). case row of (i, sc, su, rq, a) \<Rightarrow> (sc, su, rq) = request_of a"
  proof
    fix row assume m: "row \<in> set (db_actions db')"
    obtain i sc su rq x where "row = (i, sc, su, rq, x)" by (rule prod_cases5)
    then show "case row of (i, sc, su, rq, a) \<Rightarrow> (sc, su, rq) = request_of a" using rows m by simp
  qed
  have o: "db_scopes db' = db_scopes db" "db_events db' = db_events db" by (simp_all add: e)
  show "tables_ok db'" unfolding tables_ok_def k o
    by (intro conjI r) (use assms(1) in \<open>simp_all only: tables_ok_def\<close>)
qed (use assms(1,2) in \<open>auto simp: save_action_Inr scopes_of_def fun_eq_iff\<close>)

lemma insert_scope_effect:
  assumes "tables_ok db" "insert_scope db r = Inr db'"
  shows "tables_ok db'" "scopes_of db (sr_id r) = None" "scopes_of db' = (scopes_of db)(sr_id r \<mapsto> r)"
    "actions_of db' = actions_of db" "db_events db' = db_events db" "db_owner db' = db_owner db"
    "db_last_seen db' = db_last_seen db"
proof -
  have n: "sr_id r \<notin> fst ` set (db_scopes db)" and e: "db' = db\<lparr>db_scopes := db_scopes db @ [(sr_id r, r)]\<rparr>"
    using assms(2) by (auto simp: insert_scope_def split: if_splits)
  show "scopes_of db (sr_id r) = None" using n scopes_of_dom[of "sr_id r" db] by simp
  then show "scopes_of db' = (scopes_of db)(sr_id r \<mapsto> r)"
    by (auto simp: e scopes_of_def map_add_def fun_eq_iff split: option.splits)
  have o: "db_actions db' = db_actions db" "db_events db' = db_events db" "db_scopes db' = db_scopes db @ [(sr_id r, r)]"
    by (simp_all add: e)
  have d: "distinct (map fst (db_scopes db @ [(sr_id r, r)]))" using assms(1) n by (simp add: tables_ok_def)
  show "tables_ok db'" using assms(1) d unfolding tables_ok_def o by (elim conjE) (intro conjI; assumption)
qed (use assms(2) in \<open>auto simp: insert_scope_def actions_of_def fun_eq_iff split: if_splits\<close>)

lemma insert_action_effect:
  assumes "tables_ok db" "insert_action db r = Inr db'"
  shows "tables_ok db'" "actions_of db (ar_id r) = None" "actions_of db' = (actions_of db)(ar_id r \<mapsto> r)"
    "scopes_of db' = scopes_of db" "db_events db' = db_events db" "db_owner db' = db_owner db"
    "db_last_seen db' = db_last_seen db" "\<And>k b. actions_of db k = Some b \<Longrightarrow> request_of b \<noteq> request_of r"
proof -
  let ?row = "(ar_id r, pc_scope_id (ar_action r), pc_subject (ar_action r), pc_request_id (ar_action r), r)"
  have n: "ar_id r \<notin> fst ` set (db_actions db)"
    and u: "\<not> list_ex (\<lambda>(_, sc, su, rq, _). (sc, su, rq) = request_of r) (db_actions db)"
    and e: "db' = db\<lparr>db_actions := db_actions db @ [?row]\<rparr>"
    using assms(2) by (auto simp: insert_action_def Let_def split: if_splits)
  show "actions_of db (ar_id r) = None" using n actions_of_dom[of "ar_id r" db] by simp
  then show "actions_of db' = (actions_of db)(ar_id r \<mapsto> r)"
    by (auto simp: e actions_of_def map_add_def fun_eq_iff split: option.splits)
  have o: "db_scopes db' = db_scopes db" "db_events db' = db_events db" "db_actions db' = db_actions db @ [?row]"
    by (simp_all add: e)
  have "distinct (map fst (db_actions db @ [?row]))" using assms(1) n by (simp add: tables_ok_def)
  moreover have "\<forall>row\<in>set (db_actions db @ [?row]). case row of (i, sc, su, rq, a) \<Rightarrow> (sc, su, rq) = request_of a"
    using assms(1) unfolding tables_ok_def by auto
  ultimately show "tables_ok db'" using assms(1) unfolding tables_ok_def o by (elim conjE) (intro conjI; assumption)
  show "request_of b \<noteq> request_of r" if b: "actions_of db k = Some b" for k b
  proof
    assume q: "request_of b = request_of r"
    obtain sc su rq where row: "map_of (db_actions db) k = Some (sc, su, rq, b)" using b by (auto simp: actions_of_Some)
    then have "(sc, su, rq) = request_of r" using tables_row[OF assms(1) row] q by simp
    then show False using u map_of_SomeD[OF row] by (auto simp: list_ex_iff)
  qed
qed (use assms(2) in \<open>auto simp: insert_action_def Let_def scopes_of_def split: if_splits\<close>)

lemma last_sequence:
  assumes "tables_ok db"
  shows "(if db_events db = [] then 0 else Max (set (map fst (db_events db)))) = int (length (db_events db))"
proof (cases "db_events db")
  case (Cons x xs)
  let ?n = "length (db_events db)"
  have k: "map fst (db_events db) = map int [1..<Suc ?n]" using assms by (simp only: tables_ok_def)
  have "Max (int ` {1..<Suc ?n}) = int ?n"
  proof (rule Max_eqI)
    show "int ?n \<in> int ` {1..<Suc ?n}" by (rule imageI) (use Cons in simp)
  qed auto
  then show ?thesis using Cons unfolding k by (simp only: set_map set_upt) simp
qed simp

lemma append_event_effect:
  assumes t: "tables_ok db" and a: "append_event db scope action kind at digest = Inr db'"
  shows "tables_ok db'" "events_of db' = events_of db @ [\<lparr>ev_sequence = of_nat (length (events_of db)) + 1, ev_scope_id = scope,
      ev_action_id = action, ev_kind = kind, ev_observed_at = at, ev_content_digest = digest\<rparr>]"
    "scopes_of db' = scopes_of db" "actions_of db' = actions_of db" "db_owner db' = db_owner db"
    "db_last_seen db' = db_last_seen db"
proof -
  let ?n = "length (db_events db)"
  have k: "map fst (db_events db) = map int [1..<Suc ?n]" using t by (simp only: tables_ok_def)
  note m = last_sequence[OF t]
  have s: "int ?n + 1 \<le> i64_max" and e: "db' = db\<lparr>db_events := db_events db @ [(int ?n + 1,
             \<lparr>ev_sequence = word_of_int (int ?n + 1), ev_scope_id = scope, ev_action_id = action, ev_kind = kind,
              ev_observed_at = at, ev_content_digest = digest\<rparr>)]\<rparr>"
    using a unfolding append_event_def m Let_def
    by (auto simp: checked_add_i64_Some in_i64_def split: if_splits)
  have o: "db_scopes db' = db_scopes db" "db_actions db' = db_actions db" by (simp_all add: e)
  have "map fst (db_events db') = map int [1..<Suc (length (db_events db'))]" by (simp add: e k)
  moreover have "int (length (db_events db')) \<le> i64_max" using s by (simp add: e)
  ultimately show "tables_ok db'" using t unfolding tables_ok_def o by (elim conjE) (intro conjI; assumption)
  show "events_of db' = events_of db @ [\<lparr>ev_sequence = of_nat (length (events_of db)) + 1, ev_scope_id = scope,
      ev_action_id = action, ev_kind = kind, ev_observed_at = at, ev_content_digest = digest\<rparr>]"
    by (simp add: e events_of_def)
qed (use a in \<open>auto simp: append_event_def Let_def scopes_of_def actions_of_def fun_eq_iff split: if_splits\<close>)

subsection \<open>Later states extend earlier ones\<close>

definition kept_by :: "scope_record \<Rightarrow> scope_record \<Rightarrow> bool" where
  "kept_by r r' =
     (sr_grant r' = sr_grant r \<and> sr_issued_at r' = sr_issued_at r
      \<and> (\<forall>at. sr_revoked_at r = Some at \<longrightarrow> sr_revoked_at r' = Some at)
      \<and> sr_charged_attempts r \<le> sr_charged_attempts r' \<and> fset (sr_charged_resources r) \<subseteq> fset (sr_charged_resources r'))"

definition scopes_kept :: "(string \<Rightarrow> scope_record option) \<Rightarrow> (string \<Rightarrow> scope_record option) \<Rightarrow> bool" where
  "scopes_kept sc sc' = (\<forall>i r. sc i = Some r \<longrightarrow> (\<exists>r'. sc' i = Some r' \<and> kept_by r r'))"

definition extends :: "scope_db \<Rightarrow> scope_db \<Rightarrow> bool" where
  "extends db db' =
     (db_owner db' = db_owner db \<and> db_last_seen db \<le> db_last_seen db'
      \<and> (\<exists>new. events_of db' = events_of db @ new
           \<and> (\<forall>ev\<in>set new. \<forall>at. ev_observed_at ev = Some at \<longrightarrow> db_last_seen db \<le> at))
      \<and> scopes_kept (scopes_of db) (scopes_of db') \<and> actions_step (actions_of db) (actions_of db'))"

lemma kept_by_refl [simp]: "kept_by r r"
  by (simp add: kept_by_def)

lemma kept_by_trans: "kept_by a b \<Longrightarrow> kept_by b c \<Longrightarrow> kept_by a c"
  unfolding kept_by_def by (intro conjI) (simp, simp, simp, meson order_trans, meson order_trans)

lemma scopes_kept_refl [simp]: "scopes_kept sc sc"
  by (simp add: scopes_kept_def)

lemma scopes_kept_trans: "scopes_kept a b \<Longrightarrow> scopes_kept b c \<Longrightarrow> scopes_kept a c"
  unfolding scopes_kept_def by (meson kept_by_trans)

lemma action_step_trans: "action_step a b \<Longrightarrow> action_step b c \<Longrightarrow> action_step a c"
  by (auto simp: action_step_def)

lemma actions_step_trans: "actions_step a b \<Longrightarrow> actions_step b c \<Longrightarrow> actions_step a c"
  unfolding actions_step_def by (meson action_step_trans)

lemma extends_refl [simp]: "extends db db"
  by (simp add: extends_def)

lemma extends_trans:
  assumes "extends a b" "extends b c" shows "extends a c"
proof -
  obtain n1 where n1: "events_of b = events_of a @ n1"
    "\<forall>ev\<in>set n1. \<forall>at. ev_observed_at ev = Some at \<longrightarrow> db_last_seen a \<le> at"
    using assms(1) unfolding extends_def by blast
  obtain n2 where n2: "events_of c = events_of b @ n2"
    "\<forall>ev\<in>set n2. \<forall>at. ev_observed_at ev = Some at \<longrightarrow> db_last_seen b \<le> at"
    using assms(2) unfolding extends_def by blast
  have t: "db_last_seen a \<le> db_last_seen b" using assms(1) unfolding extends_def by blast
  have "\<forall>ev\<in>set (n1 @ n2). \<forall>at. ev_observed_at ev = Some at \<longrightarrow> db_last_seen a \<le> at"
    using n1(2) n2(2) t by fastforce
  moreover have "events_of c = events_of a @ n1 @ n2" using n1(1) n2(1) by simp
  moreover have "scopes_kept (scopes_of a) (scopes_of c)" "actions_step (actions_of a) (actions_of c)"
    using assms scopes_kept_trans actions_step_trans unfolding extends_def by blast+
  ultimately show ?thesis using assms unfolding extends_def by auto
qed

subsection \<open>Operations keep the invariant\<close>

lemma db_ok_parts:
  assumes "db_ok X own db"
  shows "tables_ok db" "sound_db X own db" "db_owner db = own" "grants_ok X (scopes_of db)"
  using assms by (simp_all add: db_ok_def sound_db_def ledger_sound_def)

lemma db_ok_tick:
  assumes "db_ok X own db" "db_last_seen db \<le> now"
  shows "db_ok X own (db\<lparr>db_last_seen := now\<rparr>)" "extends db (db\<lparr>db_last_seen := now\<rparr>)"
proof -
  have m: "scopes_of (db\<lparr>db_last_seen := now\<rparr>) = scopes_of db" "actions_of (db\<lparr>db_last_seen := now\<rparr>) = actions_of db"
    "events_of (db\<lparr>db_last_seen := now\<rparr>) = events_of db" "tables_ok (db\<lparr>db_last_seen := now\<rparr>) = tables_ok db"
    by (auto simp: scopes_of_def actions_of_def events_of_def tables_ok_def fun_eq_iff)
  have "sound_db X own (db\<lparr>db_last_seen := now\<rparr>)"
    using assms sound_tick[of X own "db_last_seen db" "scopes_of db" "actions_of db" "events_of db" now]
    by (simp add: db_ok_def sound_db_def m)
  then show "db_ok X own (db\<lparr>db_last_seen := now\<rparr>)" using assms by (simp add: db_ok_def m)
  show "extends db (db\<lparr>db_last_seen := now\<rparr>)" using assms(2) by (simp add: extends_def m)
qed

lemma metadata_ok: "db_ok X own db \<Longrightarrow> scope_metadata db = Inr (own, db_last_seen db)"
  by (simp add: scope_metadata_def db_ok_def sound_db_def ledger_sound_def)

text \<open>What a write does to the database, for operations that keep the invariant at the stored time.\<close>

lemma mutate_keeps:
  assumes "db_ok X own db"
    and op: "\<And>db1 x db'. db_ok X own db1 \<Longrightarrow> db_last_seen db1 = now \<Longrightarrow> operation db1 = Inr (x, db') \<Longrightarrow>
      db_ok X own db' \<and> extends db1 db'"
  shows "db_ok X own (snd (scope_mutate flt now operation db)) \<and> extends db (snd (scope_mutate flt now operation db))"
proof (cases "db_last_seen db \<le> now")
  case False
  then show ?thesis using assms(1) metadata_ok[OF assms(1)] by (cases flt) (auto simp: scope_mutate_def)
next
  case True
  let ?db = "db\<lparr>db_last_seen := now\<rparr>"
  note tick = db_ok_tick[OF assms(1) True]
  have "db_ok X own db' \<and> extends db db'" if "operation ?db = Inr (x, db')" for x db'
    using op[OF tick(1) _ that] extends_trans[OF tick(2)] by simp
  then show ?thesis
    using tick assms(1) metadata_ok[OF assms(1)] True
    by (cases flt) (auto simp: scope_mutate_def Let_def split: sum.splits)
qed

lemma scopes_kept_upd: "(\<And>r0. sc i = Some r0 \<Longrightarrow> kept_by r0 r) \<Longrightarrow> scopes_kept sc (sc(i \<mapsto> r))"
  by (auto simp: scopes_kept_def)

lemma extends_event:
  assumes "db_owner db' = db_owner db" "db_last_seen db' = db_last_seen db" "events_of db' = events_of db @ [ev]"
    "ev_observed_at ev = Some (db_last_seen db) \<or> ev_observed_at ev = None"
    "scopes_kept (scopes_of db) (scopes_of db')" "actions_step (actions_of db) (actions_of db')"
  shows "extends db db'"
  using assms unfolding extends_def by auto

lemma issue_parent:
  assumes g: "grants_ok X (scopes_of db)" and c: "canonical_grant X grant" "sr_grant r = grant"
    and p: "(case sg_parent_id grant of None \<Rightarrow> Inr ()
        | Some parent \<Rightarrow> and_then (active_chain X db parent now) (\<lambda>ancestors.
            and_then (map_err SSE_Validation (validate_child_of X grant (sr_grant (hd ancestors)))) (\<lambda>_.
            reject_if (length ancestors > MAX_DEPTH) (SSE_Validation SE_NotSubset)))) = Inr ()"
  obtains ch where "lineage (scopes_of db) (sg_parent_id grant) ch" "chain_narrows (r # ch)" "chain_active ch now"
proof (cases "sg_parent_id grant")
  case None
  then show ?thesis using that[of "[]"] by (simp add: chain_active_def)
next
  case (Some parent)
  then obtain ch where ch: "lineage (scopes_of db) (Some parent) ch" "chain_narrows ch" "chain_active ch now"
    and v: "validate_child_of X grant (sr_grant (hd ch)) = Inr ()"
    using p by (auto simp: active_chain_Inr[OF g])
  obtain q ch' where q: "ch = q # ch'" using lineage_nonempty[OF ch(1)] by (cases ch) auto
  have "canonical_grant X (sr_grant q)" using lineage_canonical[OF g ch(1)] q by simp
  then have "narrows grant (sr_grant q)" using v validate_child_canonical[OF c(1)] q by simp
  then show ?thesis using that[of ch] ch q c(2) Some by simp
qed

lemma issue_op_cases:
  assumes "db_ok X own db" and i: "issue_op X guard now grant db = Inr (r, db')"
  obtains (found) "scopes_of db (sg_scope_id grant) = Some r" "sr_grant r = grant" "db' = db"
  | (fresh) d db1 where "scopes_of db (sg_scope_id grant) = None" "now < sg_expires_at grant"
      "(case sg_parent_id grant of None \<Rightarrow> Inr ()
        | Some parent \<Rightarrow> and_then (active_chain X db parent now) (\<lambda>ancestors.
            and_then (map_err SSE_Validation (validate_child_of X grant (sr_grant (hd ancestors)))) (\<lambda>_.
            reject_if (length ancestors > MAX_DEPTH) (SSE_Validation SE_NotSubset)))) = Inr ()"
      "verify_scope guard grant now = Inr ()" "grant_digest X grant = Inr d"
      "r = \<lparr>sr_grant = grant, sr_digest = d, sr_issued_at = now, sr_revoked_at = None,
            sr_charged_attempts = 0, sr_charged_resources = {||}\<rparr>"
      "insert_scope db r = Inr db1" "append_event db1 (sr_id r) None EK_ScopeIssued (Some now) (sr_digest r) = Inr db'"
proof (cases "scopes_of db (sg_scope_id grant)")
  case None
  then show ?thesis
    using fresh i unfolding issue_op_def maybe_scope_ok[OF db_ok_parts(4)[OF assms(1)]] and_then_simps
    by (auto simp: Let_def split: if_splits)
next
  case (Some s)
  then show ?thesis
    using found i unfolding issue_op_def maybe_scope_ok[OF db_ok_parts(4)[OF assms(1)]] and_then_simps
    by (auto split: if_splits)
qed

lemma issue_op_keeps:
  assumes ok: "db_ok X own db" and now: "db_last_seen db = now" and g: "canonical_grant X grant" "sg_owner grant = own"
    and i: "issue_op X guard now grant db = Inr (r, db')"
  shows "db_ok X own db' \<and> extends db db'"
  using ok i
proof (cases rule: issue_op_cases)
  case found
  then show ?thesis using ok by simp
next
  case (fresh d db1)
  note p = db_ok_parts[OF ok]
  note e1 = insert_scope_effect[OF p(1) fresh(7)]
  note e2 = append_event_effect[OF e1(1) fresh(8)]
  have f: "sr_grant r = grant" "sr_digest r = d" "sr_issued_at r = now" "sr_revoked_at r = None"
    "sr_charged_attempts r = 0" "sr_charged_resources r = {||}" by (simp_all add: fresh(6))
  obtain ch where ch: "lineage (scopes_of db) (sg_parent_id grant) ch" "chain_narrows (r # ch)" "chain_active ch now"
    using issue_parent[OF p(4) g(1) f(1) fresh(3)] .
  have ev: "events_of db1 = events_of db" by (simp add: events_of_def e1(5))
  have "ledger_sound X own now ((scopes_of db)(sg_scope_id grant \<mapsto> r)) (actions_of db) (events_of db')"
    unfolding e2(2) ev
    by (rule sound_issue[of X own now "scopes_of db" "actions_of db" "events_of db" "sg_scope_id grant" r ch])
      (use p(2) now fresh(1,2,5) f g ch in \<open>simp_all add: sound_db_def\<close>)
  then have "sound_db X own db'" using e1 e2 now f by (simp add: sound_db_def)
  then have "db_ok X own db'" using e1 e2 p(3) by (simp add: db_ok_def)
  moreover have "scopes_kept (scopes_of db) (scopes_of db')"
    unfolding e2(3) e1(3) by (rule scopes_kept_upd) (use fresh(1) f in simp)
  then have "extends db db'"
    by (intro extends_event[OF _ _ e2(2)[unfolded ev]]) (simp_all add: e1 e2 now)
  ultimately show ?thesis by simp
qed

lemma revoke_op_keeps:
  assumes ok: "db_ok X own db" and now: "db_last_seen db = now" and i: "revoke_scope_op X now i db = Inr (r, db')"
  shows "db_ok X own db' \<and> extends db db'"
proof -
  note p = db_ok_parts[OF ok]
  obtain r0 where r0: "scopes_of db i = Some r0" using i by (auto simp: revoke_scope_op_def load_scope_ok[OF p(4)])
  show ?thesis
  proof (cases "sr_revoked_at r0")
    case (Some at)
    then show ?thesis using ok i r0 by (simp add: revoke_scope_op_def load_scope_ok[OF p(4)])
  next
    case None
    let ?r = "r0\<lparr>sr_revoked_at := Some now\<rparr>"
    obtain db1 where s: "save_scope db ?r = Inr db1"
      and a: "append_event db1 i None EK_ScopeRevoked (Some now) (sr_digest ?r) = Inr db'"
      using i r0 None by (auto simp: revoke_scope_op_def load_scope_ok[OF p(4)] Let_def)
    note e1 = save_scope_effect[OF p(1) s]
    note e2 = append_event_effect[OF e1(1) a]
    have id: "sr_id ?r = i" using sound_scope(1)[of X own] p(2) r0 unfolding sound_db_def by simp
    have ev: "events_of db1 = events_of db" by (simp add: events_of_def e1(4))
    have "ledger_sound X own now ((scopes_of db)(i \<mapsto> ?r)) (actions_of db) (events_of db')"
      unfolding e2(2) ev
      by (rule sound_revoke[where r = r0]) (use p(2) now r0 None in \<open>simp_all add: sound_db_def\<close>)
    then have "sound_db X own db'" using e1 e2 now id by (simp add: sound_db_def)
    then have "db_ok X own db'" using e1 e2 p(3) by (simp add: db_ok_def)
    moreover have "scopes_kept (scopes_of db) (scopes_of db')"
      unfolding e2(3) e1(2) id by (rule scopes_kept_upd) (use r0 None in \<open>simp add: kept_by_def\<close>)
    then have "extends db db'"
      by (intro extends_event[OF _ _ e2(2)[unfolded ev]]) (simp_all add: e1 e2 now)
    ultimately show ?thesis by simp
  qed
qed

lemma unsettled_fields:
  "action_state_ok a \<Longrightarrow> \<not> settled a \<Longrightarrow> ar_finished_at a = None \<and> (ar_state a = ES_Reserved \<longleftrightarrow> ar_dispatch_claimed_at a = None)
     \<and> ar_state a \<in> {ES_Reserved, ES_DispatchClaimed}"
  by (auto simp: action_state_ok_def settled_def split: execution_state.splits)

lemma advance_keeps:
  assumes ok: "db_ok X own db" and now: "db_last_seen db = now" and a: "actions_of db j = Some a" "\<not> settled a"
    and a': "ar_action a' = ar_action a" "ar_digest a' = ar_digest a" "ar_evidence a' = ar_evidence a"
      "ar_reserved_at a' = ar_reserved_at a" "ar_dispatch_claimed_at a \<noteq> None \<Longrightarrow> ar_dispatch_claimed_at a' = ar_dispatch_claimed_at a"
    and db': "save_action db a' = Inr db1" "append_event db1 (scope_of a') (Some j) k at (ar_digest a') = Inr db'"
    and entry: "action_entry_ok X own now (scopes_of db) j a'"
    and k: "k \<in> {EK_DispatchClaimed, EK_AttemptFinished, EK_Interrupted}" "at = Some now \<or> at = None"
      "k = EK_DispatchClaimed \<Longrightarrow> at = Some now \<and> ar_dispatch_claimed_at a = None \<and> ar_dispatch_claimed_at a' = Some now"
      "k = EK_AttemptFinished \<Longrightarrow> at = Some now \<and> ar_finished_at a' = Some now"
      "k = EK_Interrupted \<Longrightarrow> at = None \<and> ar_state a' = ES_Unknown \<and> ar_finished_at a' = None"
      "k \<noteq> EK_DispatchClaimed \<Longrightarrow> ar_dispatch_claimed_at a' = ar_dispatch_claimed_at a"
      "k \<noteq> EK_AttemptFinished \<Longrightarrow> ar_finished_at a' = None" "k \<noteq> EK_Interrupted \<Longrightarrow> ar_state a' = ES_Unknown \<Longrightarrow> ar_finished_at a' \<noteq> None"
      "k = EK_DispatchClaimed \<Longrightarrow> lineage (scopes_of db) (Some (scope_of a)) ch \<and> chain_active ch now"
  shows "db_ok X own db' \<and> extends db db'"
proof -
  note p = db_ok_parts[OF ok]
  have s: "ledger_sound X own now (scopes_of db) (actions_of db) (events_of db)" using p(2) now by (simp add: sound_db_def)
  have st: "action_step a a'" using a' a(2) by (auto simp: action_step_def)
  have id: "ar_id a' = j" using entry by (simp add: action_entry_ok_def)
  have a2: "actions_of db (ar_id a') = Some a" using a(1) id by simp
  note e1 = save_action_effect[OF p(1) db'(1) a2 a'(1)]
  note e2 = append_event_effect[OF e1(1) db'(2)]
  have ev: "events_of db1 = events_of db" by (simp add: events_of_def e1(4))
  note un = unsettled_fields[OF sound_state_ok[OF s a(1)] a(2)]
  have h: "history (scopes_of db) (actions_of db) now 0 [] 0 (events_of db)" using s by (simp add: ledger_sound_def)
  have nk: "(j, k) \<notin> set (keys_of (events_of db))"
  proof
    assume m: "(j, k) \<in> set (keys_of (events_of db))"
    have "k \<in> {EK_AttemptCharged, EK_DispatchClaimed, EK_AttemptFinished, EK_Interrupted}" using k(1) by blast
    then obtain ev where "ev_kind ev = k" "action_event_correct ev a"
      using history_action_event[OF h m] a(1) by auto
    then show False using k(1,3) un a(2) by (auto simp: action_event_correct_def settled_def)
  qed
  note keys = sound_action_keys[OF s a(1)]
  have pres: "action_events_present ((j, k) # keys_of (events_of db)) a'"
    using keys k(1,3-8) id un by (cases k) (auto simp: action_events_present_def)
  have "ledger_sound X own now (scopes_of db) ((actions_of db)(j \<mapsto> a')) (events_of db')"
    unfolding e2(2) ev
    by (rule sound_advance[OF s a(1) st entry _ k(1,2) nk _ _ k(9) pres])
      (use k(1,3-6) a'(1,2) in \<open>auto simp: action_event_correct_def\<close>)
  then have "sound_db X own db'" using e1 e2 now id by (simp add: sound_db_def)
  then have "db_ok X own db'" using e1 e2 p(3) by (simp add: db_ok_def)
  moreover have "actions_step (actions_of db) (actions_of db')"
    unfolding e2(4) e1(2) id using a(1) st by (auto simp: actions_step_def)
  then have "extends db db'"
    using k(2) by (intro extends_event[OF _ _ e2(2)[unfolded ev]]) (auto simp: e1 e2 now)
  ultimately show ?thesis by simp
qed

lemma claim_op_cases:
  assumes "db_ok X own db" "claim_dispatch_op X guard now j d db = Inr (r', db')"
  obtains r ch db1 where "actions_of db j = Some r" "ar_digest r = d" "ar_state r = ES_Reserved"
    "lineage (scopes_of db) (Some (scope_of r)) ch" "chain_narrows ch" "chain_active ch now"
    "evidence_validate_for X (ar_evidence r) (sr_grant (hd ch)) (ar_action r) now = Inr ()"
    "verify_action guard (sr_grant (hd ch)) (ar_action r) (ar_evidence r) now = Inr ()"
    "r' = r\<lparr>ar_state := ES_DispatchClaimed, ar_dispatch_claimed_at := Some now\<rparr>"
    "save_action db r' = Inr db1"
    "append_event db1 (scope_of r') (Some j) EK_DispatchClaimed (Some now) (ar_digest r') = Inr db'"
proof -
  note p = db_ok_parts[OF assms(1)]
  show ?thesis
    using assms(2) that unfolding claim_dispatch_op_def load_action_ok[OF p(1,2)]
    by (auto simp: active_chain_Inr[OF p(4)] Let_def split: if_splits)
qed

lemma entry_lineage:
  assumes "db_ok X own db" "actions_of db j = Some a"
  obtains ch where "lineage (scopes_of db) (Some (scope_of a)) ch" "chain_narrows ch"
    "action_admitted X own (db_last_seen db) ch a" "ar_id a = j" "action_entry_ok X own (db_last_seen db) (scopes_of db) j a"
proof -
  have "action_entry_ok X own (db_last_seen db) (scopes_of db) j a"
    using db_ok_parts(2)[OF assms(1)] sound_action_entry[of X own _ _ _ _ j a] assms(2) unfolding sound_db_def by blast
  then show ?thesis using that unfolding action_entry_ok_def by blast
qed

lemma claim_op_keeps:
  assumes ok: "db_ok X own db" and now: "db_last_seen db = now" and c: "claim_dispatch_op X guard now j d db = Inr (r', db')"
  shows "db_ok X own db' \<and> extends db db'"
  using ok c
proof (cases rule: claim_op_cases)
  case (1 r ch db1)
  obtain ch0 where ch0: "lineage (scopes_of db) (Some (scope_of r)) ch0" "action_admitted X own now ch0 r"
    and en: "action_entry_ok X own now (scopes_of db) j r"
    using entry_lineage[OF ok 1(1)] now by metis
  have eq: "ch0 = ch" by (rule lineage_unique[OF ch0(1) 1(4)])
  have st: "action_state_ok r" "action_times_ok own now ch r" using ch0(2) by (simp_all add: action_admitted_def eq)
  then have f: "ar_dispatch_claimed_at r = None" "ar_finished_at r = None"
    using 1(3) by (simp_all add: action_state_ok_def)
  have "now < ae_expires_at (ar_evidence r)" using 1(7) by (simp add: evidence_validate_for_Inr)
  then have "action_admitted X own now ch r'"
    using ch0(2) 1(7) active_open[OF 1(6)] st(2) f
    by (simp add: action_admitted_def action_times_ok_def action_state_ok_def 1(9) eq)
  then have entry: "action_entry_ok X own now (scopes_of db) j r'"
    using en 1(4,5) unfolding action_entry_ok_def by (auto simp: 1(9))
  show ?thesis
    by (rule advance_keeps[OF ok now 1(1) _ _ _ _ _ _ 1(10,11) entry, of ch])
      (use 1 f in \<open>auto simp: settled_def\<close>)
qed

lemma finish_action_op_keeps:
  assumes ok: "db_ok X own db" and now: "db_last_seen db = now" and c: "finish_action_op X now j oc db = Inr (r', db')"
  shows "db_ok X own db' \<and> extends db db'"
proof -
  note p = db_ok_parts[OF ok]
  obtain r db1 where r: "actions_of db j = Some r" "ar_state r \<in> {ES_Reserved, ES_DispatchClaimed}"
      "oc = OC_ApiAccepted \<longrightarrow> ar_state r = ES_DispatchClaimed"
    and r': "r' = r\<lparr>ar_state := outcome_state oc, ar_finished_at := Some now\<rparr>"
    and db': "save_action db r' = Inr db1" "append_event db1 (scope_of r') (Some j) EK_AttemptFinished (Some now) (ar_digest r') = Inr db'"
    using c unfolding finish_action_op_def load_action_ok[OF p(1,2)] by (auto simp: Let_def split: if_splits)
  obtain ch where ch: "lineage (scopes_of db) (Some (scope_of r)) ch" "action_admitted X own now ch r"
    and en: "action_entry_ok X own now (scopes_of db) j r"
    using entry_lineage[OF ok r(1)] now by metis
  have ns: "\<not> settled r" using r(2) by (auto simp: settled_def)
  have "action_times_ok own now ch r" "action_state_ok r" using ch(2) by (simp_all add: action_admitted_def)
  then have "action_times_ok own now ch r'" "action_state_ok r'"
    using r(2,3) by (auto simp: action_times_ok_def action_state_ok_def r' split: option.splits; cases oc; auto)+
  then have "action_admitted X own now ch r'" using ch(2) by (simp add: action_admitted_def r')
  moreover have "chain_narrows ch"
    using en lineage_unique[OF ch(1)] unfolding action_entry_ok_def by blast
  ultimately have entry: "action_entry_ok X own now (scopes_of db) j r'"
    using en ch(1) unfolding action_entry_ok_def by (auto simp: r')
  show ?thesis
    by (rule advance_keeps[OF ok now r(1) ns _ _ _ _ _ db' entry]) (auto simp: r')
qed

lemma reserve_op_cases:
  assumes "db_ok X own db" "reserve_action_op X guard now action evidence db = Inr (r, db')"
  obtains (found) "find_request db action = Some r" "ar_action r = action" "db' = db"
  | (fresh) ch d db1 db2 where "find_request db action = None"
      "lineage (scopes_of db) (Some (pc_scope_id action)) ch" "chain_narrows ch" "chain_active ch now"
      "evidence_validate_for X evidence (sr_grant (hd ch)) action now = Inr ()"
      "verify_action guard (sr_grant (hd ch)) action evidence now = Inr ()"
      "\<not> list_ex (over_budget (pc_resource action)) ch" "save_scopes db (map (charge_scope (pc_resource action)) ch) = Inr db1"
      "action_digest X action = Inr d"
      "r = \<lparr>ar_action = action, ar_digest = d, ar_evidence = evidence, ar_reserved_at = now,
                   ar_dispatch_claimed_at = None, ar_finished_at = None, ar_state = ES_Reserved\<rparr>"
      "insert_action db1 r = Inr db2"
      "append_event db2 (scope_of r) (Some (ar_id r)) EK_AttemptCharged (Some now) (ar_digest r) = Inr db'"
proof (cases "find_request db action")
  case None
  then show ?thesis
    using fresh assms(2) unfolding reserve_action_op_def
    by (auto simp: active_chain_Inr[OF db_ok_parts(4)[OF assms(1)]] Let_def)
next
  case (Some s)
  then show ?thesis using found assms(2) unfolding reserve_action_op_def by (auto split: if_splits)
qed

lemma charged_rows:
  assumes g: "grants_ok X sc" and l: "lineage sc p ch"
  shows "sc ++ map_of (map (\<lambda>r. (sr_id r, r)) (rev (map (charge_scope res) ch))) = charge_all res (sr_id ` set ch) sc"
proof
  fix i
  let ?m = "map (\<lambda>r. (sr_id r, r)) (rev (map (charge_scope res) ch))"
  show "(sc ++ map_of ?m) i = charge_all res (sr_id ` set ch) sc i"
  proof (cases "map_of ?m i")
    case None
    then have "i \<notin> sr_id ` set ch" by (auto simp: map_of_eq_None_iff image_iff)
    then show ?thesis using None by (simp add: map_add_def charge_all_def)
  next
    case (Some r)
    then obtain x where x: "x \<in> set ch" "r = charge_scope res x" "i = sr_id x" using map_of_SomeD[OF Some] by auto
    then have "sc i = Some x" using lineage_mem_key[OF g l] by blast
    then show ?thesis using Some x by (simp add: map_add_def charge_all_def)
  qed
qed

lemma actions_of_rows: "db_actions db' = db_actions db \<Longrightarrow> actions_of db' = actions_of db"
  by (simp add: actions_of_def fun_eq_iff)

lemma charge_kept_by:
  assumes "\<not> over_budget res r" "within_limits r" shows "kept_by r (charge_scope res r)"
proof -
  have "unat (sr_charged_attempts r) \<le> unat (sr_charged_attempts (charge_scope res r))"
    using charge_within(2)[OF assms] by simp
  then show ?thesis by (auto simp: kept_by_def word_le_nat_alt charge_scope_def)
qed

lemma reserve_op_keeps:
  assumes ok: "db_ok X own db" and now: "db_last_seen db = now" and a: "canonical_action X action" "pc_owner action = own"
    and c: "reserve_action_op X guard now action evidence db = Inr (r, db')"
  shows "db_ok X own db' \<and> extends db db'"
  using ok c
proof (cases rule: reserve_op_cases)
  case found
  then show ?thesis using ok by simp
next
  case (fresh ch d db1 db2)
  note p = db_ok_parts[OF ok]
  note e1 = save_scopes_effect[OF p(1) fresh(8)]
  have t1: "tables_ok db1" using e1 by blast
  note e2 = insert_action_effect[OF t1 fresh(11)]
  note e3 = append_event_effect[OF e2(1) fresh(12)]
  have f: "ar_action r = action" "ar_digest r = d" "ar_evidence r = evidence" "ar_reserved_at r = now"
    "ar_dispatch_claimed_at r = None" "ar_finished_at r = None" "ar_state r = ES_Reserved" by (simp_all add: fresh(10))
  have ac: "actions_of db1 = actions_of db" using e1 by (intro actions_of_rows) simp
  have sc: "scopes_of db1 = charge_all (resource_of r) (sr_id ` set ch) (scopes_of db)"
    using e1 charged_rows[OF p(4) fresh(2)] f(1) by simp
  have ev: "events_of db2 = events_of db" using e1 e2(5) by (simp add: events_of_def)
  have s: "ledger_sound X own now (scopes_of db) (actions_of db) (events_of db)" using p(2) now by (simp add: sound_db_def)
  have b: "\<not> over_budget (resource_of r) x" if "x \<in> set ch" for x using fresh(7) that f(1) by (simp add: list_ex_iff)
  have "ledger_sound X own now (charge_all (resource_of r) (sr_id ` set ch) (scopes_of db))
      ((actions_of db)(ar_id r \<mapsto> r)) (events_of db')"
    unfolding e3(2) ev
    by (rule sound_charge[OF s])
      (use e2(2,8) ac fresh(2-5,9) f a b finite_actions in \<open>simp_all\<close>)
  then have "sound_db X own db'" using e1 e2 e3 now sc ac by (simp add: sound_db_def)
  then have "db_ok X own db'" using e1 e2 e3 p(3) by (simp add: db_ok_def)
  moreover have "scopes_kept (scopes_of db) (scopes_of db')"
    unfolding e3(3) e2(4) sc scopes_kept_def
  proof (intro allI impI)
    fix i x assume x: "scopes_of db i = Some x"
    show "\<exists>x'. charge_all (resource_of r) (sr_id ` set ch) (scopes_of db) i = Some x' \<and> kept_by x x'"
    proof (cases "i \<in> sr_id ` set ch")
      case True
      then have "x \<in> set ch" using lineage_mem_key[OF p(4) fresh(2)] x by fastforce
      then show ?thesis using True x charge_kept_by[OF b sound_scope(7)[OF s x]] by (simp add: charge_all_def)
    qed (simp add: x charge_all_def)
  qed
  moreover have "actions_step (actions_of db) (actions_of db')"
    unfolding e3(4) e2(3) ac using e2(2) ac by (auto simp: actions_step_def)
  ultimately show ?thesis
    using e1 by (intro conjI extends_event[OF _ _ e3(2)[unfolded ev]]) (simp_all add: e2 e3 now)
qed

lemma interrupt_keeps:
  assumes "db_ok X own db" "interrupt_actions db rs = Inr db'" "\<forall>r\<in>set rs. actions_of db (ar_id r) = Some r"
    "distinct (map ar_id rs)"
  shows "db_ok X own db' \<and> extends db db' \<and> db_last_seen db' = db_last_seen db
    \<and> (\<forall>j. actions_of db' j = (if j \<in> ar_id ` set rs then
          map_option (\<lambda>a. if settled a then a else a\<lparr>ar_state := ES_Unknown\<rparr>) (actions_of db j) else actions_of db j))
    \<and> scopes_of db' = scopes_of db"
  using assms
proof (induction rs arbitrary: db)
  case (Cons r rs)
  show ?case
  proof (cases "settled r")
    case True
    then have "interrupt_actions db rs = Inr db'" using Cons.prems(2) by (auto simp: settled_def)
    then show ?thesis using Cons.IH[OF Cons.prems(1)] Cons.prems(3,4) True by auto
  next
    case False
    let ?r = "r\<lparr>ar_state := ES_Unknown\<rparr>"
    have st: "ar_state r \<in> {ES_Reserved, ES_DispatchClaimed}" using False by (cases "ar_state r") (simp_all add: settled_def)
    obtain db1 db2 where s: "save_action db ?r = Inr db1"
      and a: "append_event db1 (scope_of ?r) (Some (ar_id r)) EK_Interrupted None (ar_digest ?r) = Inr db2"
      and rest: "interrupt_actions db2 rs = Inr db'"
      using Cons.prems(2) st by (auto simp: Let_def)
    have look: "actions_of db (ar_id r) = Some r" using Cons.prems(3) by simp
    obtain ch where ch: "lineage (scopes_of db) (Some (scope_of r)) ch" "chain_narrows ch"
      "action_admitted X own (db_last_seen db) ch r" "action_entry_ok X own (db_last_seen db) (scopes_of db) (ar_id r) r"
      using entry_lineage[OF Cons.prems(1) look] by blast
    have un: "ar_finished_at r = None" using unsettled_fields[of r] False ch(3) by (simp add: action_admitted_def)
    have "action_admitted X own (db_last_seen db) ch ?r"
      using ch(3) un by (simp add: action_admitted_def action_times_ok_def action_state_ok_def)
    then have "action_entry_ok X own (db_last_seen db) (scopes_of db) (ar_id r) ?r"
      using ch(1,2,4) unfolding action_entry_ok_def by auto
    then have k: "db_ok X own db2 \<and> extends db db2"
      by (intro advance_keeps[OF Cons.prems(1) refl look False _ _ _ _ _ s a]) (use un in auto)
    have e1: "actions_of db1 = (actions_of db)(ar_id r \<mapsto> ?r)" "scopes_of db1 = scopes_of db" "tables_ok db1"
        "db_last_seen db1 = db_last_seen db"
      using save_action_effect[OF db_ok_parts(1)[OF Cons.prems(1)] s, of r] look by simp_all
    note e2 = append_event_effect[OF e1(3) a]
    have nr: "ar_id r \<notin> ar_id ` set rs" using Cons.prems(4) by simp
    have "\<forall>x\<in>set rs. actions_of db2 (ar_id x) = Some x"
    proof
      fix x assume x: "x \<in> set rs"
      then have "ar_id x \<noteq> ar_id r" using nr by (metis imageI)
      then show "actions_of db2 (ar_id x) = Some x" using Cons.prems(3) x unfolding e2(4) e1(1) by simp
    qed
    then have ih: "db_ok X own db' \<and> extends db2 db' \<and> db_last_seen db' = db_last_seen db2
        \<and> (\<forall>j. actions_of db' j = (if j \<in> ar_id ` set rs then
          map_option (\<lambda>a. if settled a then a else a\<lparr>ar_state := ES_Unknown\<rparr>) (actions_of db2 j) else actions_of db2 j))
        \<and> scopes_of db' = scopes_of db2"
      using Cons.IH[OF conjunct1[OF k] rest] Cons.prems(4) by simp
    have "actions_of db' j = (if j \<in> ar_id ` set (r # rs) then
          map_option (\<lambda>a. if settled a then a else a\<lparr>ar_state := ES_Unknown\<rparr>) (actions_of db j) else actions_of db j)" for j
    proof (cases "j = ar_id r")
      case True
      then have "actions_of db' j = Some ?r" using ih nr unfolding e2(4) e1(1) by simp
      then show ?thesis using True look False by simp
    next
      case False
      then show ?thesis using ih unfolding e2(4) e1(1) by simp
    qed
    then show ?thesis using ih k extends_trans[of db db2 db'] e1(2,4) e2(3,6) by simp
  qed
qed simp

subsection \<open>Verification at startup\<close>

lemma try_map_total: "(\<And>x. x \<in> set xs \<Longrightarrow> f x = Inr (g x)) \<Longrightarrow> try_map f xs = Inr (map g xs)"
  by (induction xs) simp_all

lemma sorted_keys_table:
  assumes d: "distinct ks" and m: "\<And>i. i \<in> set ks \<longleftrightarrow> m i \<noteq> None" and k: "\<And>i r. m i = Some r \<Longrightarrow> key r = i"
  shows "strictly_ascending (map key (map (the \<circ> m) (sort ks)))" "by_key key (map (the \<circ> m) (sort ks)) = m"
proof -
  have id: "map key (map (the \<circ> m) (sort ks)) = sort ks"
    unfolding map_map
  proof (rule map_idI)
    fix i assume "i \<in> set (sort ks)"
    then obtain r where "m i = Some r" using m by auto
    then show "(key \<circ> (the \<circ> m)) i = i" using k by simp
  qed
  show "strictly_ascending (map key (map (the \<circ> m) (sort ks)))"
    unfolding id strictly_ascending_iff strict_sorted_iff using d by simp
  have ds: "distinct (map key (map (the \<circ> m) (sort ks)))" unfolding id using d by simp
  show "by_key key (map (the \<circ> m) (sort ks)) = m"
  proof
    fix i
    show "by_key key (map (the \<circ> m) (sort ks)) i = m i"
    proof (rule map_eqI)
      fix r
      have "r \<in> set (map (the \<circ> m) (sort ks)) \<and> key r = i \<longleftrightarrow> m i = Some r" using m k by (auto simp: image_iff) force+
      then show "by_key key (map (the \<circ> m) (sort ks)) i = Some r \<longleftrightarrow> m i = Some r" by (simp only: by_key_Some[OF ds])
    qed
  qed
qed

lemma history_sequence:
  "history sc ac T sequence seen previous evs \<Longrightarrow> n < length evs \<Longrightarrow> ev_sequence (evs ! n) = sequence + of_nat n + 1"
proof (induction evs arbitrary: sequence seen previous n)
  case (Cons ev evs)
  show ?case
  proof (cases n)
    case 0
    then show ?thesis using Cons.prems(1) by (simp add: event_fits_def Let_def)
  next
    case (Suc m)
    then show ?thesis using Cons.IH[of "sequence + 1" "event_key ev # seen" "later previous ev" m] Cons.prems by (simp add: ac_simps)
  qed
qed simp

lemma read_events_ok:
  assumes ok: "db_ok X own db"
  shows "try_map read_event (sort_key fst (db_events db)) = Inr (events_of db)"
proof -
  have t: "map fst (db_events db) = map int [1..<Suc (length (db_events db))]" "int (length (db_events db)) \<le> i64_max"
    using db_ok_parts(1)[OF ok] by (simp_all only: tables_ok_def)
  have "sorted (map fst (db_events db))" unfolding t by (simp add: sorted_map del: upt_Suc)
  then have s: "sort_key fst (db_events db) = db_events db" by (rule sort_key_id_if_sorted)
  have h: "history (scopes_of db) (actions_of db) (db_last_seen db) 0 [] 0 (events_of db)"
    using db_ok_parts(2)[OF ok] by (simp add: sound_db_def ledger_sound_def)
  have "read_event row = Inr (snd row)" if row: "row \<in> set (db_events db)" for row
  proof -
    obtain n where n: "n < length (db_events db)" "row = db_events db ! n" using row by (auto simp: in_set_conv_nth)
    have f: "fst row = int n + 1" using arg_cong[OF t(1), of "\<lambda>xs. xs ! n"] n by (simp del: upt_Suc)
    have "ev_sequence (snd row) = of_nat (n + 1)" using history_sequence[OF h, of n] n by (simp add: events_of_def)
    moreover have "n + 1 < 2 ^ 64" using n(1) t(2) by (simp add: i64_max_def)
    then have "unat (of_nat (n + 1) :: u64) = n + 1" unfolding unat_of_nat by simp
    ultimately have "unat (ev_sequence (snd row)) = n + 1" by (simp only:)
    then have "int (unat (ev_sequence (snd row))) = fst row" using f by (simp only: of_nat_add of_nat_1)
    then show ?thesis using f by (simp add: read_event_def case_prod_beta)
  qed
  then show ?thesis unfolding s events_of_def by (rule try_map_total)
qed

lemma read_evidence_ok:
  assumes ok: "db_ok X own db"
  obtains E where "read_evidence X db own (db_last_seen db) = Inr E" "se_owner E = own" "se_last_seen E = db_last_seen db"
    "se_events E = events_of db" "by_key sr_id (se_scopes E) = scopes_of db" "by_key ar_id (se_actions E) = actions_of db"
    "strictly_ascending (map sr_id (se_scopes E))" "strictly_ascending (map ar_id (se_actions E))"
    "se_schema_version E = 1" "all_actions X db = Inr (se_actions E)"
proof -
  note p = db_ok_parts[OF ok]
  have d: "distinct (map fst (db_scopes db))" "distinct (map fst (db_actions db))" using p(1) by (simp_all add: tables_ok_def)
  have s: "try_map (load_scope X db) (sort (map fst (db_scopes db))) = Inr (map (the \<circ> scopes_of db) (sort (map fst (db_scopes db))))"
    using scopes_of_dom[of _ db] by (intro try_map_total) (auto simp: load_scope_ok[OF p(4)] simp flip: set_map)
  have a: "all_actions X db = Inr (map (the \<circ> actions_of db) (sort (map fst (db_actions db))))"
    unfolding all_actions_def
    using actions_of_dom[of _ db] by (intro try_map_total) (auto simp: load_action_ok[OF p(1,2)] simp flip: set_map)
  have ks: "sr_id r = i" if "scopes_of db i = Some r" for i r using p(4) that by (simp add: grants_ok_def)
  have ka: "ar_id r = i" if "actions_of db i = Some r" for i r using entry_lineage[OF ok that] by metis
  note S = sorted_keys_table[where m = "scopes_of db" and key = sr_id, OF d(1) _ ks]
  note A = sorted_keys_table[where m = "actions_of db" and key = ar_id, OF d(2) _ ka]
  show ?thesis
    by (rule that[of "\<lparr>se_schema_version = 1, se_owner = own, se_last_seen = db_last_seen db,
          se_scopes = map (the \<circ> scopes_of db) (sort (map fst (db_scopes db))),
          se_actions = map (the \<circ> actions_of db) (sort (map fst (db_actions db))), se_events = events_of db\<rparr>"])
      (use S A scopes_of_dom actions_of_dom in \<open>simp_all add: read_evidence_def s a read_events_ok[OF ok]\<close>)
qed

lemma verify_all_ok:
  assumes "db_ok X own db" shows "verify_all X db own (db_last_seen db) = Inr ()"
proof -
  obtain E where E: "read_evidence X db own (db_last_seen db) = Inr E" "se_owner E = own" "se_last_seen E = db_last_seen db"
    "se_events E = events_of db" "by_key sr_id (se_scopes E) = scopes_of db" "by_key ar_id (se_actions E) = actions_of db"
    "strictly_ascending (map sr_id (se_scopes E))" "strictly_ascending (map ar_id (se_actions E))" "se_schema_version E = 1"
    by (rule read_evidence_ok[OF assms])
  have "evidence_validate X E = Inr ()"
    unfolding evidence_validate_iff using E db_ok_parts(2)[OF assms] by (simp add: sound_db_def)
  then show ?thesis by (simp add: verify_all_def E(1))
qed

lemma all_actions_entries:
  assumes "db_ok X own db" "all_actions X db = Inr rs"
  shows "\<forall>r\<in>set rs. actions_of db (ar_id r) = Some r" "distinct (map ar_id rs)" "\<And>j a. actions_of db j = Some a \<Longrightarrow> a \<in> set rs"
proof -
  obtain E :: scope_evidence where E: "by_key ar_id (se_actions E) = actions_of db" "strictly_ascending (map ar_id (se_actions E))"
    "all_actions X db = Inr (se_actions E)" using read_evidence_ok[OF assms(1)] by blast
  then have rs: "rs = se_actions E" using assms(2) by simp
  have d: "distinct (map ar_id rs)" using strictly_ascending_sorted[OF E(2)] rs by simp
  show "distinct (map ar_id rs)" by (rule d)
  have "actions_of db j = Some a \<longleftrightarrow> a \<in> set rs \<and> ar_id a = j" for j a
    using by_key_Some[OF d] E(1) rs by simp
  then show "\<forall>r\<in>set rs. actions_of db (ar_id r) = Some r" "\<And>j a. actions_of db j = Some a \<Longrightarrow> a \<in> set rs" by blast+
qed

lemma recover_op_Inr:
  assumes ok: "db_ok X own db" and r: "recover_op X own db = Inr db'"
  shows "db_ok X own db'" "extends db db'" "scopes_of db' = scopes_of db"
    "actions_of db' j = map_option (\<lambda>a. if settled a then a else a\<lparr>ar_state := ES_Unknown\<rparr>) (actions_of db j)"
proof -
  obtain rs where rs: "all_actions X db = Inr rs" "interrupt_actions db rs = Inr db'"
    using r by (auto simp: recover_op_def metadata_ok[OF ok] verify_all_ok[OF ok])
  note e = all_actions_entries[OF ok rs(1)]
  note k = interrupt_keeps[OF ok rs(2) e(1,2)]
  show "db_ok X own db'" "extends db db'" "scopes_of db' = scopes_of db" using k by blast+
  show "actions_of db' j = map_option (\<lambda>a. if settled a then a else a\<lparr>ar_state := ES_Unknown\<rparr>) (actions_of db j)"
  proof (cases "j \<in> ar_id ` set rs")
    case False
    have "actions_of db j \<noteq> Some a" for a
    proof
      assume a: "actions_of db j = Some a"
      then have "ar_id a = j" by (rule entry_lineage[OF ok])
      then show False using e(3)[OF a] False by blast
    qed
    then have "actions_of db j = None" by (cases "actions_of db j") auto
    then show ?thesis using k False by simp
  qed (use k in simp)
qed

text \<open>Recovery needs one event number per unfinished attempt.\<close>

lemma append_event_succeeds:
  assumes "tables_ok db" "int (length (db_events db)) + 1 \<le> i64_max"
  shows "\<exists>db'. append_event db scope action kind at digest = Inr db'"
proof -
  let ?n = "length (db_events db)"
  have k: "map fst (db_events db) = map int [1..<Suc ?n]" using assms(1) by (simp only: tables_ok_def)
  note m = last_sequence[OF assms(1)]
  have "int ?n + 1 \<notin> set (map fst (db_events db))" unfolding k by auto
  then show ?thesis using assms(2) unfolding append_event_def m Let_def
    by (simp add: checked_add_i64_def in_i64_def i64_min_def)
qed

lemma interrupt_succeeds:
  assumes "db_ok X own db" "\<forall>r\<in>set rs. actions_of db (ar_id r) = Some r" "distinct (map ar_id rs)"
    "int (length (db_events db)) + int (length rs) \<le> i64_max"
  shows "\<exists>db'. interrupt_actions db rs = Inr db'"
  using assms
proof (induction rs arbitrary: db)
  case (Cons r rs)
  show ?case
  proof (cases "settled r")
    case True
    then have "interrupt_actions db (r # rs) = interrupt_actions db rs" by (auto simp: settled_def)
    moreover have "\<exists>db'. interrupt_actions db rs = Inr db'" using Cons.prems by (intro Cons.IH) auto
    ultimately show ?thesis by simp
  next
    case False
    let ?r = "r\<lparr>ar_state := ES_Unknown\<rparr>"
    note p = db_ok_parts[OF Cons.prems(1)]
    have look: "actions_of db (ar_id r) = Some r" using Cons.prems(2) by simp
    obtain db1 where s: "save_action db ?r = Inr db1" using look by (simp add: save_action_Inr[OF p(1)])
    have e1: "tables_ok db1" "db_events db1 = db_events db"
      using save_action_effect[OF p(1) s, of r] look by simp_all
    obtain db2 where a: "append_event db1 (scope_of ?r) (Some (ar_id r)) EK_Interrupted None (ar_digest ?r) = Inr db2"
      using append_event_succeeds[OF e1(1)] Cons.prems(4) e1(2) by fastforce
    have one: "interrupt_actions db [r] = Inr db2" using s a False by (auto simp: settled_def Let_def split: if_splits)
       (cases "ar_state r"; simp)+
    have k: "db_ok X own db2 \<and> (\<forall>j. actions_of db2 j = (if j = ar_id r then
          map_option (\<lambda>a. if settled a then a else a\<lparr>ar_state := ES_Unknown\<rparr>) (actions_of db j) else actions_of db j))"
      using interrupt_keeps[OF Cons.prems(1) one] look by simp
    have l: "length (db_events db2) = Suc (length (db_events db))"
      using append_event_effect(2)[OF e1(1) a] e1(2) by (simp add: events_of_def) (metis length_append_singleton length_map)
    have nr: "ar_id r \<notin> ar_id ` set rs" using Cons.prems(3) by simp
    have "\<exists>db'. interrupt_actions db2 rs = Inr db'"
    proof (rule Cons.IH)
      show "\<forall>x\<in>set rs. actions_of db2 (ar_id x) = Some x"
      proof
        fix x assume x: "x \<in> set rs"
        then have "ar_id x \<noteq> ar_id r" using nr by (metis imageI)
        then show "actions_of db2 (ar_id x) = Some x" using k Cons.prems(2) x by simp
      qed
    qed (use k Cons.prems(3,4) l in simp_all)
    then show ?thesis using s a False by (cases "ar_state r") (auto simp: settled_def Let_def)
  qed
qed simp

lemma recover_succeeds:
  assumes "db_ok X own db" "int (length (db_events db)) + int (length (db_actions db)) \<le> i64_max"
  shows "\<exists>db'. recover_op X own db = Inr db'"
proof -
  obtain E :: scope_evidence where E: "all_actions X db = Inr (se_actions E)" using read_evidence_ok[OF assms(1)] by blast
  note e = all_actions_entries[OF assms(1) E]
  have "length (se_actions E) = length (db_actions db)"
    using E unfolding all_actions_def try_map_Inr by (auto dest: list_all2_lengthD)
  then have "\<exists>db'. interrupt_actions db (se_actions E) = Inr db'"
    using assms(2) by (intro interrupt_succeeds[OF assms(1) e(1,2)]) simp
  then show ?thesis by (simp add: recover_op_def metadata_ok[OF assms(1)] verify_all_ok[OF assms(1)] E)
qed

end
