(* ===== verification/Scope_Properties.thy ===== *)
theory Scope_Properties
  imports Scope_Ledger
begin

text \<open>
  The scope ledger as a whole: arbitrary sequences of calls, SQLite failures and restarts from a fresh
  database, and the properties of grants, charges, dispatch claims and exports over them.
\<close>

datatype scope_op =
    SO_Issue store_fault authority_guard i64 scope_grant
  | SO_Reserve store_fault authority_guard i64 prepared_action admission_evidence
  | SO_Claim store_fault authority_guard i64 string string
  | SO_Finish store_fault i64 string scope_outcome
  | SO_Revoke store_fault i64 string
  | SO_Reopen store_fault

fun scope_exec :: "'z scext_scheme \<Rightarrow> authority_owner \<Rightarrow> scope_op \<Rightarrow> scope_db \<Rightarrow> scope_db" where
  "scope_exec X own (SO_Issue flt guard now grant) db = snd (issue_scope X own flt guard now grant db)"
| "scope_exec X own (SO_Reserve flt guard now action evidence) db = snd (reserve_action X own flt guard now action evidence db)"
| "scope_exec X own (SO_Claim flt guard now j d) db = snd (claim_dispatch X flt guard now j d db)"
| "scope_exec X own (SO_Finish flt now j oc) db = snd (finish X flt now j oc db)"
| "scope_exec X own (SO_Revoke flt now i) db = snd (revoke_scope X flt now i db)"
| "scope_exec X own (SO_Reopen flt) db = the (snd (open_store X flt own (Some db)))"

text \<open>A dispatch claim is granted when \<open>claim_dispatch\<close> returns \<open>Ok\<close>.\<close>

definition claim_granted :: "'z scext_scheme \<Rightarrow> scope_op \<Rightarrow> scope_db \<Rightarrow> string option" where
  "claim_granted X op db =
     (case op of SO_Claim flt guard now j d \<Rightarrow> if is_ok (fst (claim_dispatch X flt guard now j d db)) then Some j else None
      | _ \<Rightarrow> None)"

definition claimed :: "scope_db \<Rightarrow> string \<Rightarrow> bool" where
  "claimed db j = (\<exists>a. actions_of db j = Some a \<and> ar_dispatch_claimed_at a \<noteq> None)"

lemma open_store_keeps:
  assumes ok: "db_ok X own db"
  shows "\<exists>db'. snd (open_store X flt own (Some db)) = Some db' \<and> db_ok X own db' \<and> extends db db'"
proof (cases "recover_op X own db")
  case (Inl e)
  then show ?thesis using ok by (cases flt; cases "owner_validate own") (auto simp: open_store_def Let_def)
next
  case (Inr db')
  then show ?thesis using ok recover_op_Inr(1,2)[OF ok Inr]
    by (cases flt; cases "owner_validate own") (auto simp: open_store_def Let_def)
qed

lemma scope_exec_keeps:
  assumes ok: "db_ok X own db"
  shows "db_ok X own (scope_exec X own op db) \<and> extends db (scope_exec X own op db)"
proof (cases op)
  case (SO_Issue flt guard now grant)
  show ?thesis
  proof (cases "grant_canonicalized X grant")
    case (Inr g)
    note c = grant_canonicalized_idem[OF Inr]
    show ?thesis
    proof (cases "sg_owner g = own")
      case True
      have "db_ok X own (snd (scope_mutate flt now (issue_op X guard now g) db))
          \<and> extends db (snd (scope_mutate flt now (issue_op X guard now g) db))"
        by (rule mutate_keeps[OF ok]) (rule issue_op_keeps[OF _ _ c True])
      then show ?thesis using True by (simp add: SO_Issue issue_scope_def Inr)
    qed (simp add: SO_Issue issue_scope_def Inr ok)
  qed (simp add: SO_Issue issue_scope_def ok)
next
  case (SO_Reserve flt guard now action evidence)
  show ?thesis
  proof (cases "action_canonicalized X action")
    case (Inr a)
    note c = action_canonicalized_idem[OF Inr]
    show ?thesis
    proof (cases "pc_owner a = own")
      case True
      have "db_ok X own (snd (scope_mutate flt now (reserve_action_op X guard now a evidence) db))
          \<and> extends db (snd (scope_mutate flt now (reserve_action_op X guard now a evidence) db))"
        by (rule mutate_keeps[OF ok]) (rule reserve_op_keeps[OF _ _ c True])
      then show ?thesis using True by (simp add: SO_Reserve reserve_action_def Inr)
    qed (simp add: SO_Reserve reserve_action_def Inr ok)
  qed (simp add: SO_Reserve reserve_action_def ok)
next
  case (SO_Claim flt guard now j d)
  show ?thesis unfolding SO_Claim scope_exec.simps claim_dispatch_def
    by (rule mutate_keeps[OF ok]) (rule claim_op_keeps)
next
  case (SO_Finish flt now j oc)
  show ?thesis unfolding SO_Finish scope_exec.simps finish_def
    by (rule mutate_keeps[OF ok]) (rule finish_action_op_keeps)
next
  case (SO_Revoke flt now i)
  show ?thesis unfolding SO_Revoke scope_exec.simps revoke_scope_def
    by (rule mutate_keeps[OF ok]) (rule revoke_op_keeps)
next
  case (SO_Reopen flt)
  then show ?thesis using open_store_keeps[OF ok, of flt] by auto
qed

lemma claim_success:
  assumes ok: "db_ok X own db" and c: "claim_dispatch X flt guard now j d db = (Inr r', db')"
  shows "db_last_seen db \<le> now" "flt = NoFault" "db_ok X own (db\<lparr>db_last_seen := now\<rparr>)"
    "claim_dispatch_op X guard now j d (db\<lparr>db_last_seen := now\<rparr>) = Inr (r', db')"
proof -
  have "\<not> now < db_last_seen db \<and> flt = NoFault \<and> claim_dispatch_op X guard now j d (db\<lparr>db_last_seen := now\<rparr>) = Inr (r', db')"
    using c unfolding claim_dispatch_def scope_mutate_def metadata_ok[OF ok]
    by (auto simp: Let_def split: store_fault.splits if_splits sum.splits)
  then show "db_last_seen db \<le> now" "flt = NoFault"
    "claim_dispatch_op X guard now j d (db\<lparr>db_last_seen := now\<rparr>) = Inr (r', db')" by auto
  then show "db_ok X own (db\<lparr>db_last_seen := now\<rparr>)" using db_ok_tick(1)[OF ok] by blast
qed

lemma tick_maps [simp]:
  "scopes_of (db\<lparr>db_last_seen := now\<rparr>) = scopes_of db" "actions_of (db\<lparr>db_last_seen := now\<rparr>) = actions_of db"
  by (auto simp: scopes_of_def actions_of_def fun_eq_iff)

interpretation scope_ledger: charge_ledger "scope_exec X own" "claim_granted X" claimed "db_ok X own" for X own
proof
  fix s op assume ok: "db_ok X own s"
  show "db_ok X own (scope_exec X own op s)" using scope_exec_keeps[OF ok] by blast
next
  fix s op j assume ok: "db_ok X own s" and g: "claim_granted X op s = Some j"
  then obtain flt guard now d where o: "op = SO_Claim flt guard now j d" "is_ok (fst (claim_dispatch X flt guard now j d s))"
    by (cases op) (auto simp: claim_granted_def split: if_splits)
  then obtain r' db' where op: "op = SO_Claim flt guard now j d" "claim_dispatch X flt guard now j d s = (Inr r', db')"
    by (cases "claim_dispatch X flt guard now j d s") (auto simp: is_ok_iff)
  note c = claim_success[OF ok op(2)]
  have "\<not> claimed s j \<and> claimed (scope_exec X own op s) j"
    using c(3,4)
  proof (cases rule: claim_op_cases)
    case (1 r ch db1)
    have r: "actions_of s j = Some r" using 1(1) by simp
    have "action_state_ok r" using sound_state_ok r db_ok_parts(2)[OF ok] unfolding sound_db_def by blast
    then have "ar_dispatch_claimed_at r = None" using 1(3) by (simp add: action_state_ok_def)
    then have n: "\<not> claimed s j" using r by (simp add: claimed_def)
    have t: "tables_ok (s\<lparr>db_last_seen := now\<rparr>)" using db_ok_parts(1)[OF c(3)] .
    have id: "ar_id r = j" using entry_lineage[OF ok r] by metis
    have a: "actions_of (s\<lparr>db_last_seen := now\<rparr>) (ar_id r') = Some r" "ar_action r' = ar_action r"
      using r id by (simp_all add: 1(9))
    note e1 = save_action_effect[OF t 1(10) a]
    note e2 = append_event_effect[OF e1(1) 1(11)]
    have "actions_of db' j = Some r'" using e2(4) e1(2) id by (simp add: 1(9))
    then have "claimed (scope_exec X own op s) j" using op by (simp add: claimed_def 1(9))
    then show ?thesis using n by blast
  qed
  then show "\<not> claimed s j" "claimed (scope_exec X own op s) j" by blast+
next
  fix s op j assume ok: "db_ok X own s" and "claimed s j"
  then obtain a at where a: "actions_of s j = Some a" "ar_dispatch_claimed_at a = Some at" by (auto simp: claimed_def)
  have "actions_step (actions_of s) (actions_of (scope_exec X own op s))"
    using scope_exec_keeps[OF ok] unfolding extends_def by blast
  then obtain a' where "actions_of (scope_exec X own op s) j = Some a'" "action_step a a'"
    using a(1) unfolding actions_step_def by blast
  then show "claimed (scope_exec X own op s) j" using a(2) by (auto simp: claimed_def action_step_def)
qed

lemma fresh_db_ok: "owner_validate own = Inr () \<Longrightarrow> db_ok X own (fresh_db own)"
  by (simp add: db_ok_def fresh_db_def tables_ok_def sound_db_def ledger_sound_def scopes_of_def actions_of_def events_of_def
      grants_ok_def scopes_ok_def actions_ok_def charges_ok_def events_present_def i64_max_def)

abbreviation scope_run :: "'z scext_scheme \<Rightarrow> authority_owner \<Rightarrow> scope_op list \<Rightarrow> scope_db" where
  "scope_run X own ops \<equiv> run (scope_exec X own) ops (fresh_db own)"

lemma scope_run_ok: "owner_validate own = Inr () \<Longrightarrow> db_ok X own (scope_run X own ops)"
  by (rule scope_ledger.ok_run[OF fresh_db_ok])

lemma run_extends: "db_ok X own db \<Longrightarrow> extends db (run (scope_exec X own) ops db)"
proof (induction ops arbitrary: db)
  case (Cons op ops)
  note k = scope_exec_keeps[OF Cons.prems, of op]
  show ?case using extends_trans[OF conjunct2[OF k] Cons.IH[OF conjunct1[OF k]]] by simp
qed simp

lemma run_append: "run exec (xs @ ys) s = run exec ys (run exec xs s)"
  by (induction xs arbitrary: s) simp_all

subsection \<open>Properties\<close>

lemma granted_append: "granted exec gr (xs @ ys) s = granted exec gr xs s @ granted exec gr ys (run exec xs s)"
  by (induction xs arbitrary: s) simp_all

lemma lineage_within:
  assumes g: "grants_ok X sc" and l: "lineage sc p ch" "chain_narrows ch" and s: "s \<in> set ch"
  shows "within (sr_grant (hd ch)) (sr_grant s)"
  using l s
proof (induction ch arbitrary: p)
  case (Cons a ch)
  show ?case
  proof (cases "s = a")
    case False
    then obtain b c where ch: "ch = b # c" using Cons.prems(3) by (cases ch) auto
    obtain i where p: "p = Some i" using Cons.prems(1) by (cases p) simp_all
    have "within (sr_grant (hd ch)) (sr_grant s)"
      using Cons.IH[of "sg_parent_id (sr_grant a)"] Cons.prems narrowing_tl False p by auto
    moreover have cb: "canonical_grant X (sr_grant b)" using lineage_canonical[OF g Cons.prems(1)] ch by simp
    have "within (sr_grant a) (sr_grant b)" by (rule narrows_within[OF _ cb]) (use Cons.prems(2) ch in simp)
    ultimately show ?thesis using within_trans ch by simp
  qed simp
qed simp

lemma claim_result:
  assumes o: "owner_validate own = Inr ()"
    and c: "claim_dispatch X flt guard now j d (scope_run X own ops) = (Inr r', db')"
  obtains r ch where "actions_of (scope_run X own ops) j = Some r" "ar_digest r = d" "ar_state r = ES_Reserved"
    "lineage (scopes_of (scope_run X own ops)) (Some (scope_of r)) ch" "chain_narrows ch" "chain_active ch now"
    "evidence_validate_for X (ar_evidence r) (sr_grant (hd ch)) (ar_action r) now = Inr ()"
    "verify_action guard (sr_grant (hd ch)) (ar_action r) (ar_evidence r) now = Inr ()"
    "ar_action r' = ar_action r" "ar_evidence r' = ar_evidence r" "canonical_action X (ar_action r)"
proof -
  note ok = scope_run_ok[OF o, of X ops]
  note s = claim_success[OF ok c]
  show ?thesis using s(3,4)
  proof (cases rule: claim_op_cases)
    case (1 r ch db1)
    have r: "actions_of (scope_run X own ops) j = Some r" using 1(1) by simp
    have "canonical_action X (ar_action r)" by (rule entry_lineage[OF ok r]) (simp add: action_entry_ok_def)
    then show ?thesis using that[of r ch] 1 by simp
  qed
qed

text \<open>C3: A dispatch claim of the scope ledger succeeds only for a reserved action with the expected digest whose whole
  chain of grants, from its scope up to the root, is issued, unrevoked and open now; every grant of the chain allows
  the action's operation, provider profile, resource and field values; the host's guard and the admission evidence
  accept it now; and when any grant of the chain demands approval of the exact action, the evidence carries an
  unexpired review bound to this action, scope and policy.\<close>

theorem claimed_dispatch_is_authorised:
  assumes "owner_validate own = Inr ()"
    and "claim_dispatch X flt guard now j d (scope_run X own ops) = (Inr r', db')"
  shows "\<exists>r ch. actions_of (scope_run X own ops) j = Some r \<and> ar_digest r = d \<and> ar_state r = ES_Reserved
    \<and> lineage (scopes_of (scope_run X own ops)) (Some (pc_scope_id (ar_action r))) ch
    \<and> (\<forall>s\<in>set ch. sr_revoked_at s = None \<and> sg_not_before (sr_grant s) \<le> now \<and> now < sg_expires_at (sr_grant s)
         \<and> pc_operation (ar_action r) = sg_operation (sr_grant s)
         \<and> pc_provider_profile_digest (ar_action r) = sg_provider_profile_digest (sr_grant s)
         \<and> pc_resource (ar_action r) \<in> set (sg_resources (sr_grant s))
         \<and> (\<forall>f\<in>set (pc_fields (ar_action r)). allows_field (sr_grant s) (fv_field f) (fv_value f))
         \<and> (rq_minimum_approval (sg_requirements (sr_grant s)) = MA_ExactAction \<longrightarrow>
              (\<exists>b. ae_review (ar_evidence r) = Some b \<and> rb_action_id b = j \<and> now < rb_expires_at b
                 \<and> action_digest X (ar_action r) = Inr (rb_action_digest b)
                 \<and> grant_digest X (sr_grant (hd ch)) = Inr (rb_scope_digest b)
                 \<and> rb_policy_digest b = rq_policy_digest (sg_requirements (sr_grant s)))))
    \<and> pc_subject (ar_action r) = sg_subject (sr_grant (hd ch))
    \<and> verify_action guard (sr_grant (hd ch)) (ar_action r) (ar_evidence r) now = Inr ()"
proof -
  note ok = scope_run_ok[OF assms(1), of X ops]
  note g = db_ok_parts(4)[OF ok]
  obtain r ch where r: "actions_of (scope_run X own ops) j = Some r" "ar_digest r = d" "ar_state r = ES_Reserved"
    and l: "lineage (scopes_of (scope_run X own ops)) (Some (scope_of r)) ch" "chain_narrows ch" "chain_active ch now"
    and e: "evidence_validate_for X (ar_evidence r) (sr_grant (hd ch)) (ar_action r) now = Inr ()"
    and v: "verify_action guard (sr_grant (hd ch)) (ar_action r) (ar_evidence r) now = Inr ()"
    and c: "canonical_action X (ar_action r)"
    by (rule claim_result[OF assms])
  have id: "ar_id r = j" using entry_lineage[OF ok r(1)] by metis
  have "hd ch \<in> set ch" using lineage_nonempty[OF l(1)] by simp
  then have hc: "canonical_grant X (sr_grant (hd ch))" by (rule lineage_canonical[OF g l(1)])
  have av: "action_validate_for X (ar_action r) (sr_grant (hd ch)) = Inr ()" using e by (simp add: evidence_validate_for_Inr)
  note av = av[unfolded action_validate_for_Inr[OF c hc]]
  have rev: "\<exists>b. ae_review (ar_evidence r) = Some b \<and> rb_action_id b = j \<and> now < rb_expires_at b
       \<and> action_digest X (ar_action r) = Inr (rb_action_digest b) \<and> grant_digest X (sr_grant (hd ch)) = Inr (rb_scope_digest b)
       \<and> rb_policy_digest b = rq_policy_digest (sg_requirements (sr_grant (hd ch)))"
    if "rq_minimum_approval (sg_requirements (sr_grant (hd ch))) = MA_ExactAction"
    using e that id unfolding evidence_validate_for_Inr review_matches_Inr by (auto split: option.splits)
  have "sr_revoked_at s = None \<and> sg_not_before (sr_grant s) \<le> now \<and> now < sg_expires_at (sr_grant s)
         \<and> pc_operation (ar_action r) = sg_operation (sr_grant s)
         \<and> pc_provider_profile_digest (ar_action r) = sg_provider_profile_digest (sr_grant s)
         \<and> pc_resource (ar_action r) \<in> set (sg_resources (sr_grant s))
         \<and> (\<forall>f\<in>set (pc_fields (ar_action r)). allows_field (sr_grant s) (fv_field f) (fv_value f))
         \<and> (rq_minimum_approval (sg_requirements (sr_grant s)) = MA_ExactAction \<longrightarrow>
              (\<exists>b. ae_review (ar_evidence r) = Some b \<and> rb_action_id b = j \<and> now < rb_expires_at b
                 \<and> action_digest X (ar_action r) = Inr (rb_action_digest b)
                 \<and> grant_digest X (sr_grant (hd ch)) = Inr (rb_scope_digest b)
                 \<and> rb_policy_digest b = rq_policy_digest (sg_requirements (sr_grant s))))" if s: "s \<in> set ch" for s
    using lineage_within[OF g l(1,2) s] av rev l(3) s unfolding within_def chain_active_def by auto
  then show ?thesis using r l(1) v av by blast
qed

subsection \<open>A concrete ledger\<close>

text \<open>Stand-ins for the parameters: every digest is the same, except that the digest of a review receipt shows the last
  byte of its encoding; further fields of the record are left open.\<close>

definition demo_scx :: "'m \<Rightarrow> 'm evext_scheme" where
  "demo_scx m = \<lparr>uuid_parse_str = (\<lambda>_. Some 1), uuid_to_string = (\<lambda>_. []),
     sha256_bytes = (\<lambda>v. if take 32 v = ''opaque.scope.decision-receipt.v1'' then replicate 31 (CHR 0x00) @ [last v]
        else replicate 32 (CHR 0x00)),
     regex_is_match = (\<lambda>_ _. False), glob_match = (\<lambda>_ _. False), verifying_key_ok = (\<lambda>_. True),
     ed25519_verify = (\<lambda>_ _ _. True), ed25519_verify_strict = (\<lambda>_ _ _. True),
     ed25519_sign = (\<lambda>_ _. replicate 64 (CHR 0x00)), b64url_encode = (\<lambda>_. []), b64url_decode = (\<lambda>_. None),
     grant_to_vec = (\<lambda>_. Some []), action_to_vec = (\<lambda>_. Some []), binding_to_vec = (\<lambda>_. Some []),
     evidence_to_vec = (\<lambda>_. Some []), evidence_from_slice = (\<lambda>_. None), scope_row_len = (\<lambda>_. 0),
     action_row_len = (\<lambda>_. 0), event_row_len = (\<lambda>_. 0), \<dots> = m\<rparr>"

definition mark :: "char \<Rightarrow> string" where "mark c = replicate 63 (CHR ''0'') @ [c]"

definition zeros :: string where "zeros = replicate 64 (CHR ''0'')"

definition demo_own :: authority_owner where
  "demo_own = \<lparr>ao_tenant_id = ''t'', ao_broker_id = ''b'', ao_generation = ''1''\<rparr>"

definition demo_grant :: scope_grant where
  "demo_grant = \<lparr>sg_schema_version = 1, sg_scope_id = ''root'', sg_root_id = ''root'', sg_parent_id = None, sg_owner = demo_own,
     sg_issuer = ''i'', sg_subject = ''s'', sg_operation = ''op'', sg_provider_profile_digest = zeros,
     sg_resources = [''r1''], sg_fields = [\<lparr>fc_field = ''f'', fc_allowed_values = [''v'']\<rparr>],
     sg_not_before = 5, sg_expires_at = 100, sg_delegations_remaining = 1, sg_max_charged_attempts = 1,
     sg_max_distinct_resources = 1,
     sg_requirements = \<lparr>rq_policy_digest = zeros, rq_minimum_approval = MA_ExactAction, rq_evaluator_checks = []\<rparr>,
     sg_issuance_receipt_digest = mark (CHR ''1'')\<rparr>"

definition demo_child :: scope_grant where
  "demo_child = demo_grant\<lparr>sg_scope_id := ''leaf'', sg_parent_id := Some ''root'', sg_issuer := ''s'', sg_subject := ''c'',
     sg_delegations_remaining := 0, sg_issuance_receipt_digest := mark (CHR ''2'')\<rparr>"

definition demo_action :: prepared_action where
  "demo_action = \<lparr>pc_schema_version = 1, pc_action_id = ''a'', pc_request_id = ''q'', pc_scope_id = ''leaf'',
     pc_scope_digest = zeros, pc_owner = demo_own, pc_subject = ''c'', pc_operation = ''op'',
     pc_provider_profile_digest = zeros, pc_resource = ''r1'', pc_resource_version = ''1'',
     pc_fields = [\<lparr>fv_field = ''f'', fv_value = ''v''\<rparr>], pc_evidence_digest = zeros\<rparr>"

definition demo_evidence :: admission_evidence where
  "demo_evidence = \<lparr>ae_schema_version = 1, ae_policy_digest = zeros, ae_scope_digest = zeros, ae_action_digest = zeros,
     ae_authority_revision = 1, ae_evaluated_at = 10, ae_expires_at = 50,
     ae_review = Some \<lparr>rb_schema_version = 1, rb_case_id = ''k'', rb_case_revision = 1, rb_action_id = ''a'',
       rb_action_digest = zeros, rb_scope_digest = zeros, rb_evidence_digest = zeros, rb_policy_digest = zeros,
       rb_round_id = ''o'', rb_decision_receipt_digest = mark (CHR ''3''), rb_expires_at = 40\<rparr>, ae_evaluators = []\<rparr>"

definition demo_guard :: authority_guard where
  "demo_guard = \<lparr>verify_scope = (\<lambda>_ _. Inr ()), verify_action = (\<lambda>_ _ _ _. Inr ())\<rparr>"

definition demo_ops :: "scope_op list" where
  "demo_ops = [SO_Issue NoFault demo_guard 10 demo_grant, SO_Issue NoFault demo_guard 10 demo_child,
     SO_Reserve NoFault demo_guard 11 demo_action demo_evidence]"

lemma demo_scx_simps [simp]:
  "grant_to_vec (demo_scx m) g = Some []"
  "action_to_vec (demo_scx m) a = Some []" "binding_to_vec (demo_scx m) b = Some []"
  by (simp_all add: demo_scx_def)

lemma demo_hash: "take 32 (domain @ [CHR 0x00]) \<noteq> ''opaque.scope.decision-receipt.v1'' \<Longrightarrow> scope_hash (demo_scx m) domain (Some []) = Inr zeros"
proof -
  assume d: "take 32 (domain @ [CHR 0x00]) \<noteq> ''opaque.scope.decision-receipt.v1''"
  have z: "(char_of (48 :: nat) :: char) = CHR ''0''" by code_simp
  have "hex_encode (replicate n (CHR 0x00)) = replicate (2 * n) (CHR ''0'')" for n
    by (induction n) (simp_all add: hex_encode_def hex_byte_def hex_digit_def z)
  moreover have "sha256_bytes (demo_scx m) (domain @ [CHR 0x00]) = replicate 32 (CHR 0x00)" using d by (simp add: demo_scx_def)
  ultimately show ?thesis by (simp add: scope_hash_def scope_encoded_def sha256_def zeros_def MAX_BYTES_def)
qed

lemma demo_checks [simp]:
  "scope_digest_ok zeros = Inr ()" "is_ascii_digit c \<Longrightarrow> scope_digest_ok (mark c) = Inr ()" "scope_version 1 = Inr ()" "scope_encoded (Some []) = Inr []"
  by (simp_all add: scope_digest_ok_def zeros_def mark_def is_lower_hex_def is_ascii_digit_def scope_version_def SCOPE_VERSION_def
      scope_encoded_def list_all_iff)

lemma ident_lower: "v \<noteq> [] \<Longrightarrow> length v \<le> 256 \<Longrightarrow> list_all is_ascii_alphanumeric v \<Longrightarrow> scope_ident v = Inr ()"
  by (auto simp: scope_ident_def list_all_iff)

lemma demo_owner_ok [simp]: "owner_validate demo_own = Inr ()"
  by (simp add: owner_validate_def demo_own_def ident_lower ascii_defs)

lemma demo_value [simp]: "bounded_value ''v'' = Inr ()" "bounded_value ''1'' = Inr ()"
  by (simp_all add: bounded_value_def utf8_chars_ascii is_control_def)

lemma demo_grant_canonical [simp]: "grant_canonicalized (demo_scx m) demo_grant = Inr demo_grant"
  unfolding grant_canonicalized_Inr
  by (rule exI[of _ "sg_fields demo_grant"])
    (simp add: demo_grant_def ident_lower ascii_defs grant_ids_ok_def grant_limits_ok_def canonical_constraint_Inr
      MAX_DEPTH_def MAX_RESOURCES_def MAX_FIELDS_def MAX_VALUES_def MAX_CHECKS_def i64_max_def)

lemma demo_child_canonical [simp]: "grant_canonicalized (demo_scx m) demo_child = Inr demo_child"
  unfolding grant_canonicalized_Inr
  by (rule exI[of _ "sg_fields demo_grant"])
    (simp add: demo_child_def demo_grant_def ident_lower ascii_defs grant_ids_ok_def grant_limits_ok_def canonical_constraint_Inr
      MAX_DEPTH_def MAX_RESOURCES_def MAX_FIELDS_def MAX_VALUES_def MAX_CHECKS_def i64_max_def)

lemma demo_action_canonical [simp]: "action_canonicalized (demo_scx m) demo_action = Inr demo_action"
  unfolding action_canonicalized_Inr
  by (simp add: demo_action_def ident_lower ascii_defs field_value_ok_def MAX_FIELDS_def)

lemma demo_digests [simp]:
  "grant_digest (demo_scx m) demo_grant = Inr zeros" "grant_digest (demo_scx m) demo_child = Inr zeros"
  "action_digest (demo_scx m) demo_action = Inr zeros"
  by (simp_all add: grant_digest_def action_digest_def demo_hash)

lemma binary_search_one [simp]: "binary_search [v] v = Some 0"
  using binary_search_None[of "[v]" v] binary_search_Some[of "[v]" v] by (cases "binary_search [v] v") auto

lemma demo_narrows: "validate_child_of (demo_scx m) demo_child demo_grant = Inr ()"
proof -
  have "narrows demo_child demo_grant" by (simp add: narrows_def demo_child_def demo_grant_def)
  then show ?thesis by (simp add: validate_child_canonical)
qed

subsection \<open>The concrete run\<close>

definition demo_root :: scope_record where
  "demo_root = \<lparr>sr_grant = demo_grant, sr_digest = zeros, sr_issued_at = 10, sr_revoked_at = None,
     sr_charged_attempts = 0, sr_charged_resources = {||}\<rparr>"

definition demo_leaf :: scope_record where
  "demo_leaf = \<lparr>sr_grant = demo_child, sr_digest = zeros, sr_issued_at = 10, sr_revoked_at = None,
     sr_charged_attempts = 0, sr_charged_resources = {||}\<rparr>"

definition demo_event :: "u64 \<Rightarrow> string \<Rightarrow> string option \<Rightarrow> event_kind \<Rightarrow> i64 \<Rightarrow> authority_event" where
  "demo_event n i j k at = \<lparr>ev_sequence = n, ev_scope_id = i, ev_action_id = j, ev_kind = k, ev_observed_at = Some at,
     ev_content_digest = zeros\<rparr>"

definition demo_db1 :: scope_db where
  "demo_db1 = \<lparr>db_owner = demo_own, db_last_seen = 10, db_scopes = [(''root'', demo_root)], db_actions = [],
     db_events = [(1, demo_event 1 ''root'' None EK_ScopeIssued 10)]\<rparr>"

definition demo_db2 :: scope_db where
  "demo_db2 = \<lparr>db_owner = demo_own, db_last_seen = 10, db_scopes = [(''root'', demo_root), (''leaf'', demo_leaf)], db_actions = [],
     db_events = [(1, demo_event 1 ''root'' None EK_ScopeIssued 10), (2, demo_event 2 ''leaf'' None EK_ScopeIssued 10)]\<rparr>"

definition demo_reserved :: action_record where
  "demo_reserved = \<lparr>ar_action = demo_action, ar_digest = zeros, ar_evidence = demo_evidence, ar_reserved_at = 11,
     ar_dispatch_claimed_at = None, ar_finished_at = None, ar_state = ES_Reserved\<rparr>"

definition demo_db3 :: scope_db where
  "demo_db3 = \<lparr>db_owner = demo_own, db_last_seen = 11,
     db_scopes = [(''root'', charge_scope ''r1'' demo_root), (''leaf'', charge_scope ''r1'' demo_leaf)],
     db_actions = [(''a'', ''leaf'', ''c'', ''q'', demo_reserved)],
     db_events = [(1, demo_event 1 ''root'' None EK_ScopeIssued 10), (2, demo_event 2 ''leaf'' None EK_ScopeIssued 10),
       (3, demo_event 3 ''leaf'' (Some ''a'') EK_AttemptCharged 11)]\<rparr>"

lemma demo_fields [simp]:
  "sg_scope_id demo_grant = ''root''" "sg_parent_id demo_grant = None" "sg_owner demo_grant = demo_own"
  "sg_expires_at demo_grant = 100" "sg_not_before demo_grant = 5"
  "sg_scope_id demo_child = ''leaf''" "sg_parent_id demo_child = Some ''root''" "sg_owner demo_child = demo_own"
  "sg_expires_at demo_child = 100" "sg_not_before demo_child = 5"
  "sr_grant demo_root = demo_grant" "sr_digest demo_root = zeros" "sr_revoked_at demo_root = None"
  "sr_grant demo_leaf = demo_child" "sr_digest demo_leaf = zeros" "sr_revoked_at demo_leaf = None"
  "verify_scope demo_guard g t = Inr ()" "verify_action demo_guard g a e t = Inr ()"
  "pc_scope_id demo_action = ''leaf''" "pc_action_id demo_action = ''a''" "pc_subject demo_action = ''c''"
  "pc_request_id demo_action = ''q''" "pc_resource demo_action = ''r1''" "pc_owner demo_action = demo_own"
  by (simp_all add: demo_grant_def demo_child_def demo_root_def demo_leaf_def demo_guard_def demo_action_def)

lemmas store_defs = scope_mutate_def scope_metadata_def maybe_scope_def load_scope_def insert_scope_def append_event_def
  active_chain_def scope_chain_def MAX_DEPTH_def checked_add_i64_def in_i64_def i64_max_def i64_min_def Let_def

lemma demo_step1: "scope_exec (demo_scx m) demo_own (SO_Issue NoFault demo_guard 10 demo_grant) (fresh_db demo_own) = demo_db1"
  by (simp add: issue_scope_def issue_op_def fresh_db_def store_defs demo_db1_def demo_event_def demo_root_def)

lemma demo_step2: "scope_exec (demo_scx m) demo_own (SO_Issue NoFault demo_guard 10 demo_child) demo_db1 = demo_db2"
  by (simp add: issue_scope_def issue_op_def demo_db1_def store_defs demo_narrows demo_db2_def demo_event_def demo_leaf_def)

lemma demo_in_scope: "action_validate_for (demo_scx m) demo_action demo_child = Inr ()"
  by (simp add: action_validate_for_Inr) (simp add: demo_action_def demo_child_def demo_grant_def allows_field_def)

lemma demo_admitted: "evidence_validate_for (demo_scx m) demo_evidence demo_child demo_action now = Inr ()" if "10 \<le> now" "now < 40"
proof -
  have "review_matches demo_evidence demo_child demo_action now = Inr ()"
    using that by (simp add: review_matches_Inr demo_evidence_def review_binding_validate_def ident_lower ascii_defs demo_action_def)
  then show ?thesis
    using that demo_in_scope[of m] unfolding evidence_validate_for_Inr
    by (simp add: demo_evidence_def MAX_CHECKS_def) (simp add: demo_child_def demo_grant_def)
qed

lemma demo_budget: "\<not> over_budget ''r1'' demo_leaf" "\<not> over_budget ''r1'' demo_root"
  by (simp_all add: over_budget_def demo_leaf_def demo_root_def fcard_fempty)
    (simp_all add: demo_child_def demo_grant_def)

lemma demo_chain:
  "now < 100 \<Longrightarrow> 5 \<le> now \<Longrightarrow> active_chain (demo_scx m) (demo_db2\<lparr>db_last_seen := now\<rparr>) ''leaf'' now = Inr [demo_leaf, demo_root]"
  by (simp add: demo_db2_def store_defs demo_narrows)

lemma demo_step3: "scope_exec (demo_scx m) demo_own (SO_Reserve NoFault demo_guard 11 demo_action demo_evidence) demo_db2 = demo_db3"
proof -
  have fr: "find_request (demo_db2\<lparr>db_last_seen := 11\<rparr>) demo_action = None" by (simp add: find_request_def demo_db2_def)
  have sv: "save_scopes (demo_db2\<lparr>db_last_seen := 11\<rparr>) [charge_scope ''r1'' demo_leaf, charge_scope ''r1'' demo_root]
      = Inr (demo_db3\<lparr>db_actions := [], db_events := db_events demo_db2\<rparr>)"
    by (simp add: save_scope_def demo_db2_def demo_db3_def)
  have "reserve_action_op (demo_scx m) demo_guard 11 demo_action demo_evidence (demo_db2\<lparr>db_last_seen := 11\<rparr>)
      = Inr (demo_reserved, demo_db3)"
    by (simp add: reserve_action_op_def fr sv demo_chain demo_admitted demo_budget Let_def del: and_then_Inr save_scopes.simps)
      (simp add: insert_action_def demo_db2_def demo_db3_def store_defs demo_event_def demo_reserved_def)
  then show ?thesis
    by (simp add: reserve_action_def scope_mutate_def) (simp add: scope_metadata_def demo_db2_def Let_def)
qed

lemma demo_scope_run: "scope_run (demo_scx m) demo_own demo_ops = demo_db3"
  by (simp add: demo_ops_def demo_step1 demo_step2 demo_step3 del: scope_exec.simps)

definition demo_claimed :: action_record where
  "demo_claimed = demo_reserved\<lparr>ar_state := ES_DispatchClaimed, ar_dispatch_claimed_at := Some 12\<rparr>"

definition demo_db4 :: scope_db where
  "demo_db4 = demo_db3\<lparr>db_last_seen := 12, db_actions := [(''a'', ''leaf'', ''c'', ''q'', demo_claimed)],
     db_events := db_events demo_db3 @ [(4, demo_event 4 ''leaf'' (Some ''a'') EK_DispatchClaimed 12)]\<rparr>"

lemma demo_claim: "claim_dispatch (demo_scx m) NoFault demo_guard 12 ''a'' zeros demo_db3 = (Inr demo_claimed, demo_db4)"
proof -
  have ch: "active_chain (demo_scx m) (demo_db3\<lparr>db_last_seen := 12\<rparr>) ''leaf'' 12 = Inr [charge_scope ''r1'' demo_leaf, charge_scope ''r1'' demo_root]"
    by (simp add: demo_db3_def store_defs demo_narrows)
  have ld: "load_action (demo_scx m) (demo_db3\<lparr>db_last_seen := 12\<rparr>) ''a'' = Inr demo_reserved"
    by (simp add: load_action_def demo_db3_def demo_reserved_def)
  have f: "ar_digest demo_reserved = zeros" "ar_state demo_reserved = ES_Reserved" "ar_action demo_reserved = demo_action"
    "ar_evidence demo_reserved = demo_evidence" by (simp_all add: demo_reserved_def)
  have "claim_dispatch_op (demo_scx m) demo_guard 12 ''a'' zeros (demo_db3\<lparr>db_last_seen := 12\<rparr>) = Inr (demo_claimed, demo_db4)"
    by (simp add: claim_dispatch_op_def ld ch demo_admitted f Let_def del: and_then_Inr)
      (simp add: save_action_def demo_db3_def demo_db4_def demo_claimed_def demo_event_def store_defs f)
  then show ?thesis
    by (simp add: claim_dispatch_def scope_mutate_def) (simp add: scope_metadata_def demo_db3_def Let_def)
qed

text \<open>The claim of the concrete run is authorised.\<close>

theorem claimed_dispatch_is_authorised_witness:
  "\<exists>r ch. actions_of (scope_run (demo_scx ()) demo_own demo_ops) ''a'' = Some r \<and> ar_state r = ES_Reserved
     \<and> lineage (scopes_of (scope_run (demo_scx ()) demo_own demo_ops)) (Some ''leaf'') ch
     \<and> (\<forall>s\<in>set ch. sr_revoked_at s = None \<and> pc_resource (ar_action r) \<in> set (sg_resources (sr_grant s)))"
proof -
  have c: "claim_dispatch (demo_scx ()) NoFault demo_guard 12 ''a'' zeros (scope_run (demo_scx ()) demo_own demo_ops) = (Inr demo_claimed, demo_db4)"
    unfolding demo_scope_run by (rule demo_claim)
  obtain r' ch where r: "actions_of (scope_run (demo_scx ()) demo_own demo_ops) ''a'' = Some r'" "ar_state r' = ES_Reserved"
    "lineage (scopes_of (scope_run (demo_scx ()) demo_own demo_ops)) (Some (pc_scope_id (ar_action r'))) ch"
    "\<forall>s\<in>set ch. sr_revoked_at s = None \<and> pc_resource (ar_action r') \<in> set (sg_resources (sr_grant s))"
    using claimed_dispatch_is_authorised[OF demo_owner_ok c] by blast
  have "r' = demo_reserved" using r(1) by (simp add: demo_scope_run demo_db3_def actions_of_def)
  then have "pc_scope_id (ar_action r') = ''leaf''" by (simp add: demo_reserved_def)
  then show ?thesis using r by metis
qed

text \<open>C5: Over any sequence of calls, SQLite failures and restarts of a fresh scope ledger no action's dispatch claim
  succeeds twice, and a claim that succeeded stays recorded.\<close>

theorem dispatch_claimed_at_most_once:
  assumes "owner_validate own = Inr ()"
  shows "distinct (granted (scope_exec X own) (claim_granted X) ops (fresh_db own))
    \<and> (\<forall>j \<in> set (granted (scope_exec X own) (claim_granted X) ops (fresh_db own)). claimed (scope_run X own ops) j)"
  using scope_ledger.granted_distinct[OF fresh_db_ok[OF assms]] scope_ledger.granted_charged[OF fresh_db_ok[OF assms]] by blast

theorem dispatch_claimed_at_most_once_witness:
  "distinct (granted (scope_exec (demo_scx ()) demo_own) (claim_granted (demo_scx ()))
      (demo_ops @ [SO_Claim NoFault demo_guard 12 ''a'' zeros, SO_Claim NoFault demo_guard 13 ''a'' zeros]) (fresh_db demo_own))
   \<and> ''a'' \<in> set (granted (scope_exec (demo_scx ()) demo_own) (claim_granted (demo_scx ()))
      (demo_ops @ [SO_Claim NoFault demo_guard 12 ''a'' zeros, SO_Claim NoFault demo_guard 13 ''a'' zeros]) (fresh_db demo_own))"
proof -
  have "claim_granted (demo_scx ()) (SO_Claim NoFault demo_guard 12 ''a'' zeros) demo_db3 = Some ''a''"
    by (simp add: claim_granted_def demo_claim)
  then have "''a'' \<in> set (granted (scope_exec (demo_scx ()) demo_own) (claim_granted (demo_scx ()))
      (demo_ops @ [SO_Claim NoFault demo_guard 12 ''a'' zeros, SO_Claim NoFault demo_guard 13 ''a'' zeros]) (fresh_db demo_own))"
    unfolding granted_append demo_scope_run by simp
  then show ?thesis using dispatch_claimed_at_most_once[OF demo_owner_ok] by blast
qed

text \<open>C21: Whatever calls, failures and restarts a scope ledger has gone through, the full verification of a restart
  accepts it, and as long as event numbers remain the ledger reopens: grants and charges are as before, settled actions
  are unchanged, and every unfinished action has become UNKNOWN with its charge kept.\<close>

theorem scope_ledger_reopens:
  assumes "owner_validate own = Inr ()" "db = scope_run X own ops"
    and "int (length (db_events db)) + int (length (db_actions db)) \<le> i64_max"
  shows "verify_all X db own (db_last_seen db) = Inr ()
    \<and> (\<exists>db'. open_store X NoFault own (Some db) = (Inr (), Some db') \<and> scopes_of db' = scopes_of db
        \<and> (\<forall>j. actions_of db' j = map_option (\<lambda>a. if settled a then a else a\<lparr>ar_state := ES_Unknown\<rparr>) (actions_of db j)))"
proof -
  have ok: "db_ok X own db" using scope_run_ok[OF assms(1)] assms(2) by simp
  obtain db' where r: "recover_op X own db = Inr db'" using recover_succeeds[OF ok assms(3)] by blast
  have "open_store X NoFault own (Some db) = (Inr (), Some db')" using assms(1) r by (simp add: open_store_def)
  then show ?thesis using verify_all_ok[OF ok] recover_op_Inr(3,4)[OF ok r] by blast
qed

theorem scope_ledger_reopens_witness:
  "\<exists>db'. open_store (demo_scx ()) NoFault demo_own (Some (scope_run (demo_scx ()) demo_own demo_ops)) = (Inr (), Some db')
     \<and> actions_of db' ''a'' = Some (demo_reserved\<lparr>ar_state := ES_Unknown\<rparr>)"
proof -
  have "int (length (db_events (scope_run (demo_scx ()) demo_own demo_ops))) + int (length (db_actions (scope_run (demo_scx ()) demo_own demo_ops))) \<le> i64_max"
    by (simp add: demo_scope_run demo_db3_def i64_max_def)
  from scope_ledger_reopens[OF demo_owner_ok refl this] obtain db' where
    d: "open_store (demo_scx ()) NoFault demo_own (Some (scope_run (demo_scx ()) demo_own demo_ops)) = (Inr (), Some db')"
    "\<forall>j. actions_of db' j = map_option (\<lambda>a. if settled a then a else a\<lparr>ar_state := ES_Unknown\<rparr>)
        (actions_of (scope_run (demo_scx ()) demo_own demo_ops) j)" by blast
  have "actions_of (scope_run (demo_scx ()) demo_own demo_ops) ''a'' = Some demo_reserved"
    by (simp add: demo_scope_run demo_db3_def actions_of_def)
  then have "actions_of db' ''a'' = Some (demo_reserved\<lparr>ar_state := ES_Unknown\<rparr>)"
    using d(2) by (simp add: settled_def demo_reserved_def)
  then show ?thesis using d(1) by blast
qed

text \<open>C6: In every reachable scope ledger the charges of a scope are exact: its attempt counter is the number of actions
  reserved under it or under anything delegated from it, its resource set holds exactly the resources of those actions,
  and both stay within the limits of the grant, however deep the delegations go.\<close>

theorem scope_budgets_hold:
  assumes "owner_validate own = Inr ()" "load_scope X (scope_run X own ops) i = Inr r"
  shows "unat (sr_charged_attempts r) = card (charged_to (scopes_of (scope_run X own ops)) (actions_of (scope_run X own ops)) i)
    \<and> fset (sr_charged_resources r) = (\<lambda>j. pc_resource (ar_action (the (actions_of (scope_run X own ops) j))))
        ` charged_to (scopes_of (scope_run X own ops)) (actions_of (scope_run X own ops)) i
    \<and> unat (sr_charged_attempts r) \<le> unat (sg_max_charged_attempts (sr_grant r))
    \<and> fcard (sr_charged_resources r) \<le> unat (sg_max_distinct_resources (sr_grant r))"
proof -
  note ok = scope_run_ok[OF assms(1), of X ops]
  have r: "scopes_of (scope_run X own ops) i = Some r" using assms(2) by (simp add: load_scope_ok[OF db_ok_parts(4)[OF ok]])
  have s: "ledger_sound X own (db_last_seen (scope_run X own ops)) (scopes_of (scope_run X own ops))
      (actions_of (scope_run X own ops)) (events_of (scope_run X own ops))"
    using db_ok_parts(2)[OF ok] by (simp add: sound_db_def)
  have "within_limits r" by (rule sound_scope(7)[OF s r])
  moreover have "charges_ok (scopes_of (scope_run X own ops)) (actions_of (scope_run X own ops))"
    using s by (simp add: ledger_sound_def)
  ultimately show ?thesis using r unfolding charges_ok_def within_limits_def word_le_nat_alt by blast
qed

theorem scope_budgets_hold_witness:
  "\<exists>r. load_scope (demo_scx ()) (scope_run (demo_scx ()) demo_own demo_ops) ''root'' = Inr r \<and> unat (sr_charged_attempts r) = 1
     \<and> unat (sr_charged_attempts r) \<le> unat (sg_max_charged_attempts (sr_grant r))"
proof -
  have l: "load_scope (demo_scx ()) (scope_run (demo_scx ()) demo_own demo_ops) ''root'' = Inr (charge_scope ''r1'' demo_root)"
    by (simp add: demo_scope_run demo_db3_def load_scope_def maybe_scope_def)
  have "unat (sr_charged_attempts (charge_scope ''r1'' demo_root)) = 1" by (simp add: charge_scope_def demo_root_def)
  then show ?thesis using l scope_budgets_hold[OF demo_owner_ok l] by blast
qed

lemma export_read:
  assumes ok: "db_ok X own db" and e: "export_evidence X own db = Inr E"
  shows "evidence_validate X E = Inr ()" "se_owner E = own" "se_last_seen E = db_last_seen db" "se_events E = events_of db"
    "by_key sr_id (se_scopes E) = scopes_of db" "by_key ar_id (se_actions E) = actions_of db"
    "strictly_ascending (map sr_id (se_scopes E))" "strictly_ascending (map ar_id (se_actions E))"
proof -
  have r: "read_evidence X db own (db_last_seen db) = Inr E" and v: "evidence_validate X E = Inr ()"
    using e by (auto simp: export_evidence_def metadata_ok[OF ok] evidence_encode_def)
  obtain E' where E': "read_evidence X db own (db_last_seen db) = Inr E'" "se_owner E' = own" "se_last_seen E' = db_last_seen db"
    "se_events E' = events_of db" "by_key sr_id (se_scopes E') = scopes_of db" "by_key ar_id (se_actions E') = actions_of db"
    "strictly_ascending (map sr_id (se_scopes E'))" "strictly_ascending (map ar_id (se_actions E'))"
    by (rule read_evidence_ok[OF ok])
  have "E' = E" using r E'(1) by simp
  then show "evidence_validate X E = Inr ()" "se_owner E = own" "se_last_seen E = db_last_seen db" "se_events E = events_of db"
    "by_key sr_id (se_scopes E) = scopes_of db" "by_key ar_id (se_actions E) = actions_of db"
    "strictly_ascending (map sr_id (se_scopes E))" "strictly_ascending (map ar_id (se_actions E))"
    using v E' by simp_all
qed

text \<open>C20: An export taken later is always accepted as an extension of an export taken earlier: between the two, no grant
  or event was removed or rewritten, revocations and settled outcomes stand, and every new event is dated no earlier
  than the earlier export.\<close>

theorem later_export_extends_earlier:
  assumes "owner_validate own = Inr ()" "export_evidence X own (scope_run X own ops) = Inr E"
    and "export_evidence X own (scope_run X own (ops @ more_ops)) = Inr F"
  shows "validate_extension X F E = Inr ()"
proof -
  let ?d = "scope_run X own ops" and ?f = "scope_run X own (ops @ more_ops)"
  note e = export_read[OF scope_run_ok[OF assms(1)] assms(2)] and f = export_read[OF scope_run_ok[OF assms(1)] assms(3)]
  have x: "extends ?d ?f" unfolding run_append by (rule run_extends[OF scope_run_ok[OF assms(1)]])
  obtain new where new: "events_of ?f = events_of ?d @ new" "\<forall>ev\<in>set new. \<forall>at. ev_observed_at ev = Some at \<longrightarrow> db_last_seen ?d \<le> at"
    using x unfolding extends_def by blast
  have ds: "distinct (map sr_id (se_scopes E))" "distinct (map ar_id (se_actions E))"
    using strictly_ascending_sorted e(7,8) by blast+
  have "scope_kept (se_scopes F) r = Inr ()" if r: "r \<in> set (se_scopes E)" for r
  proof -
    have "scopes_of ?d (sr_id r) = Some r" using r by_key_Some[OF ds(1)] e(5) by metis
    then obtain r' where "scopes_of ?f (sr_id r) = Some r'" "kept_by r r'" using x unfolding extends_def scopes_kept_def by blast
    then show ?thesis by (auto simp: scope_kept_def find_record_by_key[OF f(7)] f(5) kept_by_def is_some_and_iff)
  qed
  moreover have "action_kept (se_actions F) a = Inr ()" if a: "a \<in> set (se_actions E)" for a
  proof -
    have "actions_of ?d (ar_id a) = Some a" using a by_key_Some[OF ds(2)] e(6) by metis
    then obtain a' where "actions_of ?f (ar_id a) = Some a'" "action_step a a'" using x unfolding extends_def actions_step_def by blast
    then show ?thesis
      by (auto simp: action_kept_def find_action_by_key[OF f(8)] f(6) action_step_def is_some_and_iff settled_def)
  qed
  moreover have "\<not> (se_owner F \<noteq> se_owner E \<or> se_last_seen F < se_last_seen E
         \<or> take (length (se_events E)) (se_events F) \<noteq> se_events E
         \<or> list_ex (\<lambda>ev. is_some_and (ev_observed_at ev) (\<lambda>at. at < se_last_seen E)) (drop (length (se_events E)) (se_events F)))"
    using e(2-4) f(2-4) new x unfolding extends_def by (auto simp: list_ex_iff is_some_and_iff)
  ultimately show ?thesis unfolding validate_extension_def and_then_Inr try_each_Inr reject_if_Inr using e(1) f(1) by blast
qed

lemma export_succeeds:
  assumes ok: "db_ok X own db" and z: "check_export_size X db = Inr ()" and j: "\<And>E. evidence_to_vec X E = Some []"
  shows "\<exists>E. export_evidence X own db = Inr E"
proof -
  obtain E where E: "read_evidence X db own (db_last_seen db) = Inr E" using read_evidence_ok[OF ok] by blast
  then have "evidence_validate X E = Inr ()" using verify_all_ok[OF ok] by (simp add: verify_all_def)
  then show ?thesis using E z j by (simp add: export_evidence_def metadata_ok[OF ok] evidence_encode_def)
qed

lemma demo_export: "\<exists>E. export_evidence (demo_scx m) demo_own (scope_run (demo_scx m) demo_own ops) = Inr E"
proof -
  have none: "sum_list (map f xs) = 0" if "\<And>x. f x = 0" for f :: "'w \<Rightarrow> nat" and xs using that by (induction xs) simp_all
  have z: "check_export_size (demo_scx m) db = Inr ()" for db
    unfolding check_export_size_def by (subst none, simp add: demo_scx_def case_prod_beta)+ (simp add: MAX_EXPORT_BYTES_def)
  have j: "evidence_to_vec (demo_scx m) E = Some []" for E by (simp add: demo_scx_def)
  show ?thesis by (rule export_succeeds[OF scope_run_ok[OF demo_owner_ok] z j])
qed

theorem later_export_extends_earlier_witness:
  "\<exists>E F. export_evidence (demo_scx ()) demo_own (scope_run (demo_scx ()) demo_own demo_ops) = Inr E
     \<and> export_evidence (demo_scx ()) demo_own (scope_run (demo_scx ()) demo_own (demo_ops @ [SO_Revoke NoFault 20 ''leaf''])) = Inr F
     \<and> validate_extension (demo_scx ()) F E = Inr ()"
proof -
  obtain E F where "export_evidence (demo_scx ()) demo_own (scope_run (demo_scx ()) demo_own demo_ops) = Inr E"
    "export_evidence (demo_scx ()) demo_own (scope_run (demo_scx ()) demo_own (demo_ops @ [SO_Revoke NoFault 20 ''leaf''])) = Inr F"
    using demo_export by metis
  then show ?thesis using later_export_extends_earlier[OF demo_owner_ok] by blast
qed

text \<open>C22: The validator of scope evidence accepts an export exactly when its records are in strict order and the export is
  sound: grants canonical and narrowing along every lineage, actions admitted at the times they record, charges equal to
  the actions reserved under each scope and within its limits, and an event history that replays to the records.\<close>

theorem evidence_validate_exact:
  "evidence_validate X E = Inr () \<longleftrightarrow>
     se_schema_version E = 1 \<and> strictly_ascending (map sr_id (se_scopes E)) \<and> strictly_ascending (map ar_id (se_actions E))
     \<and> ledger_sound X (se_owner E) (se_last_seen E) (by_key sr_id (se_scopes E)) (by_key ar_id (se_actions E)) (se_events E)"
  by (rule evidence_validate_iff)

text \<open>No part of the validator but the walk of the event replay has the outcome \<open>Diverges\<close>.\<close>

named_theorems returns_rules \<open>computations that do not end in Diverges\<close>

lemma and_then_returns [returns_rules]:
  "m \<noteq> Inl Diverges \<Longrightarrow> (\<And>x. m = Inr x \<Longrightarrow> f x \<noteq> Inl Diverges) \<Longrightarrow> and_then m f \<noteq> Inl Diverges"
  by (cases m) auto

lemma basic_returns [returns_rules]:
  "reject_if c bad_history \<noteq> Inl Diverges" "reject_if c bad_ledger \<noteq> Inl Diverges" "reject_if c (EvidenceError t) \<noteq> Inl Diverges"
  "ok_or x bad_history \<noteq> Inl Diverges" "ok_or x bad_ledger \<noteq> Inl Diverges" "ok_or x (EvidenceError t) \<noteq> Inl Diverges"
  "map_err (\<lambda>_. EvidenceError t) n \<noteq> Inl Diverges" "map_err (\<lambda>_. EvidenceError t) k \<noteq> Inl Diverges"
  "Inr y \<noteq> Inl Diverges" "Inl (EvidenceError t) \<noteq> Inl Diverges"
  by (auto simp: bad_history_def bad_ledger_def map_err_Inl)

lemma try_each_returns [returns_rules]: "(\<And>x. f x \<noteq> Inl Diverges) \<Longrightarrow> try_each f xs \<noteq> Inl Diverges"
  by (induction xs) (auto intro!: and_then_returns split: sum.splits)

lemma try_map_returns [returns_rules]: "(\<And>x. f x \<noteq> Inl Diverges) \<Longrightarrow> try_map f xs \<noteq> Inl Diverges"
  by (induction xs) (auto intro!: and_then_returns split: sum.splits)

lemma if_returns [returns_rules]: "(c \<Longrightarrow> m \<noteq> Inl Diverges) \<Longrightarrow> (\<not> c \<Longrightarrow> n \<noteq> Inl Diverges) \<Longrightarrow> (if c then m else n) \<noteq> Inl Diverges"
  by simp

lemma option_returns [returns_rules]:
  "m \<noteq> Inl Diverges \<Longrightarrow> (\<And>x. n x \<noteq> Inl Diverges) \<Longrightarrow> (case y of None \<Rightarrow> m | Some x \<Rightarrow> n x) \<noteq> Inl Diverges"
  by (cases y) simp_all

lemma climb_returns:
  "(\<And>i. look i \<noteq> Inl Diverges) \<Longrightarrow> climb look (EvidenceError t) result cur \<noteq> Inl Diverges"
  by (induction look "EvidenceError t" result cur rule: climb.induct) (auto split: sum.splits)

lemma ancestry_returns [returns_rules]: "ancestry X ss i \<noteq> Inl Diverges"
  unfolding ancestry_def by (intro returns_rules climb_returns)

lemma scope_parts_return [returns_rules]:
  "scope_digest_matches X r \<noteq> Inl Diverges" "check_scope X own T ss r \<noteq> Inl Diverges"
  "check_action X own T ss a \<noteq> Inl Diverges"
  unfolding scope_digest_matches_def check_scope_def check_action_def
  by (intro returns_rules)+

lemma charge_matches_returns [returns_rules]: "charge_matches scopes p \<noteq> Inl Diverges"
  unfolding charge_matches_def case_prod_beta by (intro returns_rules)

lemma actions_distinct_returns [returns_rules]: "actions_distinct X requests as \<noteq> Inl Diverges"
  by (induction X requests as rule: actions_distinct.induct) (simp, unfold actions_distinct.simps, intro returns_rules)

lemma count_chain_returns [returns_rules]: "count_chain e res ch \<noteq> Inl Diverges"
  by (induction e res ch rule: count_chain.induct) (simp, unfold count_chain.simps case_prod_beta, intro returns_rules)

lemma count_actions_returns [returns_rules]: "count_actions X own T ss e as \<noteq> Inl Diverges"
  by (induction X own T ss e as rule: count_actions.induct) (simp, unfold count_actions.simps, intro returns_rules)

lemma verify_events_returns: "rooted scopes \<Longrightarrow> verify_events evs scopes actions T \<noteq> Inl Diverges"
  unfolding verify_events_def Let_def by (intro returns_rules event_loop_returns)

text \<open>C23: The validator of scope evidence returns on every input: the upward walk of its event replay, which counts no
  steps, runs only after every lineage was found to be finite, so the walk ends within the number of scopes.\<close>

theorem evidence_validate_terminates: "evidence_validate X E \<noteq> Inl Diverges"
proof (cases "strictly_ascending (map sr_id (se_scopes E)) \<and> grants_ok X (by_key sr_id (se_scopes E))
    \<and> scopes_ok (se_owner E) (se_last_seen E) (by_key sr_id (se_scopes E))")
  case True
  then have d: "distinct (map sr_id (se_scopes E))" using strictly_ascending_sorted by blast
  have "rooted (fold (\<lambda>s. bt_insert (sr_id s) s) (se_scopes E) [])" by (rule scope_table_rooted[OF d]) (use True in blast)+
  moreover have "records = se_scopes E"
    if "try_map (check_scope X (se_owner E) (se_last_seen E) (se_scopes E)) (se_scopes E) = Inr records" for records
    using that True by (simp add: check_scopes_Inr)
  ultimately show ?thesis unfolding evidence_validate_def Let_def by (intro returns_rules verify_events_returns) simp
next
  case False
  have "try_map (check_scope X (se_owner E) (se_last_seen E) (se_scopes E)) (se_scopes E) \<noteq> Inr records"
    if s: "strictly_ascending (map sr_id (se_scopes E))" and g: "try_each (scope_digest_matches X) (se_scopes E) = Inr u" for u records
  proof -
    have "distinct (map sr_id (se_scopes E))" using strictly_ascending_sorted[OF s] by simp
    then have "grants_ok X (by_key sr_id (se_scopes E))" using g by (simp add: digests_grants_ok)
    then show ?thesis using False s by (simp add: check_scopes_Inr)
  qed
  then show ?thesis unfolding evidence_validate_def Let_def by (intro returns_rules) auto
qed

end
