(* ===== verification/Review_Properties.thy ===== *)
theory Review_Properties
  imports Scope_Review Scope_Properties
begin

text \<open>
  The review protocol and the scope ledger together: an export of the ledger that its receipts back shows that every
  dispatched action ran under grants somebody else approved, and that signing and verifying agree.
\<close>

definition issuance_approved :: "'z rvext_scheme \<Rightarrow> string \<Rightarrow> decision_receipt list \<Rightarrow> scope_record \<Rightarrow> bool" where
  "issuance_approved X broker receipts s =
     (\<exists>r\<in>set receipts. decided_by X broker RD_Approve r
        \<and> decision_receipt_digest X r = Inr (sg_issuance_receipt_digest (sr_grant s))
        \<and> rd_subject (sv_document (dr_review r)) = ScopeIssuance ((sr_grant s)\<lparr>sg_issuance_receipt_digest := EMPTY_RECEIPT_DIGEST\<rparr>)
        \<and> ra_reviewer_id (rd_authority (sv_document (dr_review r))) \<noteq> sg_issuer (sr_grant s)
        \<and> dr_accepted_at r \<le> sr_issued_at s)"

definition action_approved :: "'z rvext_scheme \<Rightarrow> string \<Rightarrow> decision_receipt list \<Rightarrow> scope_grant \<Rightarrow> action_record \<Rightarrow> bool" where
  "action_approved X broker receipts g a =
     (\<exists>r\<in>set receipts. \<exists>g' i n e. decided_by X broker RD_Approve r
        \<and> rd_subject (sv_document (dr_review r)) = ExactAction g' (ar_action a) i n e
        \<and> grant_digest X g' = grant_digest X g
        \<and> ra_reviewer_id (rd_authority (sv_document (dr_review r))) \<noteq> pc_subject (ar_action a)
        \<and> dr_accepted_at r \<le> ar_reserved_at a)"

lemma reviewed_issuance:
  assumes v: "verify_reviews X E receipts broker = Inr u" and s: "s \<in> set (se_scopes E)"
  shows "issuance_approved X broker receipts s"
proof -
  obtain r draft where r: "r \<in> set receipts" "receipt_verify X r broker = Inr ()"
      "decision_receipt_digest X r = Inr (sg_issuance_receipt_digest (sr_grant s))"
      "rc_decision (dr_response r) = RD_Approve" "dr_accepted_at r \<le> sr_issued_at s"
      "rd_subject (sv_document (dr_review r)) = ScopeIssuance draft"
      "draft\<lparr>sg_issuance_receipt_digest := sg_issuance_receipt_digest (sr_grant s)\<rparr> = sr_grant s"
    using verify_reviewsD(2)[OF v s] by blast
  note d = receipt_verifyD[OF r(2)]
  note q = subject_validateD(1,2)[OF d(2)]
  have e: "sg_issuance_receipt_digest draft = EMPTY_RECEIPT_DIGEST"
    and i: "sg_issuer draft = ra_requester_id (rd_authority (sv_document (dr_review r)))" using q(2)[OF r(6)] by blast+
  have f: "g = draft\<lparr>sg_issuance_receipt_digest := d\<rparr> \<Longrightarrow>
      draft = g\<lparr>sg_issuance_receipt_digest := EMPTY_RECEIPT_DIGEST\<rparr> \<and> sg_issuer draft = sg_issuer g" for g d
    using e by (cases draft) simp
  have "draft = (sr_grant s)\<lparr>sg_issuance_receipt_digest := EMPTY_RECEIPT_DIGEST\<rparr>" "sg_issuer draft = sg_issuer (sr_grant s)"
    using f[OF r(7)[symmetric]] by blast+
  then show ?thesis
    unfolding issuance_approved_def using r(1,3,5,6) d(1) q(1) i unfolding r(4) by metis
qed

lemma reviewed_action:
  assumes v: "verify_reviews X E receipts broker = Inr u" and a: "a \<in> set (se_actions E)"
    and b: "ae_review (ar_evidence a) = Some b" "grant_digest X g = Inr (rb_scope_digest b)"
  shows "action_approved X broker receipts g a"
proof -
  obtain r g' e where r: "r \<in> set receipts" "receipt_verify X r broker = Inr ()"
      "rc_decision (dr_response r) = RD_Approve" "dr_accepted_at r \<le> ar_reserved_at a"
      "rd_subject (sv_document (dr_review r)) = ExactAction g' (ar_action a) (rb_case_id b) (rb_case_revision b) e"
      "grant_digest X g' = Inr (rb_scope_digest b)"
    using verify_reviewsD(3)[OF v a b(1)] by blast
  note d = receipt_verifyD[OF r(2)]
  have "pc_subject (ar_action a) = ra_requester_id (rd_authority (sv_document (dr_review r)))"
    using subject_validateD(3)[OF d(2) r(5)] by blast
  then have "ra_reviewer_id (rd_authority (sv_document (dr_review r))) \<noteq> pc_subject (ar_action a)"
    using subject_validateD(1)[OF d(2)] by metis
  then show ?thesis unfolding action_approved_def using r(1,4,5,6) b(2) d(1) unfolding r(3) by metis
qed

lemma exact_needs_review:
  assumes g: "grants_ok X sc" and l: "lineage sc p ch" "chain_narrows ch" "ch \<noteq> []"
    and e: "evidence_validate_for X ev (sr_grant (hd ch)) act now = Inr ()"
    and s: "s \<in> set ch" "rq_minimum_approval (sg_requirements (sr_grant s)) = MA_ExactAction"
  obtains b where "ae_review ev = Some b" "grant_digest X (sr_grant (hd ch)) = Inr (rb_scope_digest b)"
proof -
  have "rq_minimum_approval (sg_requirements (sr_grant (hd ch))) = MA_ExactAction"
    using lineage_within[OF g l(1,2) s(1)] s(2) unfolding within_def by blast
  then show thesis using e that unfolding evidence_validate_for_Inr review_matches_Inr by (auto split: option.splits)
qed

text \<open>C4: When the export of a scope ledger verifies against review receipts, everything the ledger ever let out was
  approved: for every action whose dispatch was claimed along the run, each grant of its chain has a receipt in which
  somebody other than its issuer approved exactly that grant before it was issued, and where any grant of the chain
  demands approval of the exact action, somebody other than the acting subject approved exactly that action, under that
  very grant, before it was charged; reviewer and broker signatures hold over the whole content.\<close>

theorem dispatched_work_was_reviewed:
  assumes own: "owner_validate own = Inr ()" and x: "export_evidence X own (scope_run X own ops) = Inr E"
    and v: "verify_reviews X E receipts broker = Inr ()"
    and j: "j \<in> set (granted (scope_exec X own) (claim_granted X) ops (fresh_db own))"
  shows "\<exists>a\<in>set (se_actions E). \<exists>ch. ar_id a = j \<and> lineage (by_key sr_id (se_scopes E)) (Some (pc_scope_id (ar_action a))) ch
    \<and> (\<forall>s\<in>set ch. issuance_approved X broker receipts s)
    \<and> ((\<exists>s\<in>set ch. rq_minimum_approval (sg_requirements (sr_grant s)) = MA_ExactAction)
         \<longrightarrow> action_approved X broker receipts (sr_grant (hd ch)) a)"
proof -
  note e = export_read[OF scope_run_ok[OF own] x]
  have ds: "distinct (map sr_id (se_scopes E))" "distinct (map ar_id (se_actions E))"
    using strictly_ascending_sorted e(7,8) by blast+
  have sound: "ledger_sound X (se_owner E) (se_last_seen E) (by_key sr_id (se_scopes E)) (by_key ar_id (se_actions E)) (se_events E)"
    using e(1) unfolding evidence_validate_iff by blast
  then have g: "grants_ok X (by_key sr_id (se_scopes E))" unfolding ledger_sound_def by blast
  have "claimed (scope_run X own ops) j" by (rule scope_ledger.granted_charged[OF fresh_db_ok[OF own] j])
  then obtain a where a: "by_key ar_id (se_actions E) j = Some a" unfolding e(6) by (auto simp: claimed_def)
  then obtain ch where ch: "ar_id a = j" "lineage (by_key sr_id (se_scopes E)) (Some (scope_of a)) ch" "chain_narrows ch"
      "action_admitted X (se_owner E) (se_last_seen E) ch a"
    using sound unfolding ledger_sound_def actions_ok_def by blast
  have mem: "a \<in> set (se_actions E)" using a by_key_Some[OF ds(2)] by blast
  have "issuance_approved X broker receipts s" if "s \<in> set ch" for s
    using reviewed_issuance[OF v] lineage_mem[OF ch(2) that] by_key_Some[OF ds(1)] by blast
  moreover have "action_approved X broker receipts (sr_grant (hd ch)) a"
    if s: "s \<in> set ch" "rq_minimum_approval (sg_requirements (sr_grant s)) = MA_ExactAction" for s
    by (rule exact_needs_review[OF g ch(2,3) lineage_nonempty[OF ch(2)] _ s, of "ar_evidence a" "ar_action a" "ar_reserved_at a"])
      (use ch(4) reviewed_action[OF v mem] in \<open>auto simp: action_admitted_def\<close>)
  ultimately show ?thesis using mem ch(1,2) by blast
qed

subsection \<open>A concrete export and its receipts\<close>

definition demo_rvx :: rvext where
  "demo_rvx = demo_scx (rvext.fields (\<lambda>_. Some []) (\<lambda>_. Some (JObject [])) (\<lambda>_. Some []) (\<lambda>_. Some []) (\<lambda>_. Some [])
     (\<lambda>_. Some []) (\<lambda>_. Some []) (\<lambda>_. Some [])
     (\<lambda>r. Some [case rd_subject (sv_document (dr_review r)) of
        ScopeIssuance g \<Rightarrow> if sg_parent_id g = None then CHR 0x01 else CHR 0x02 | ExactAction _ _ _ _ _ \<Rightarrow> CHR 0x03])
     (\<lambda>_. replicate 32 (CHR 0x00)))"

definition demo_document :: "string \<Rightarrow> review_subject \<Rightarrow> review_document" where
  "demo_document requester subject =
     \<lparr>rd_schema_version = 1, rd_round_id = ''o'', rd_nonce = zeros, rd_created_at = 1, rd_expires_at = 40,
      rd_authority = \<lparr>ra_owner = demo_own, ra_requester_id = requester, ra_reviewer_id = ''z'', ra_device_id = ''d'',
        ra_reviewer_public_key = zeros, ra_required_role = ''r'', ra_policy_digest = zeros, ra_authority_epoch = 1,
        ra_enrollment_epoch = 1\<rparr>,
      rd_subject = subject, rd_review_text = []\<rparr>"

definition demo_decided :: "string \<Rightarrow> review_subject \<Rightarrow> decision_receipt" where
  "demo_decided requester subject =
     \<lparr>dr_schema_version = 1,
      dr_review = \<lparr>sv_schema_version = 1, sv_document = demo_document requester subject, sv_broker_public_key = zeros,
        sv_signature = zeros @ zeros\<rparr>,
      dr_response = \<lparr>rc_schema_version = 1, rc_round_id = ''o'', rc_reviewer_id = ''z'', rc_device_id = ''d'',
        rc_decision = RD_Approve, rc_signature = zeros @ zeros\<rparr>,
      dr_accepted_at = 5, dr_broker_signature = zeros @ zeros\<rparr>"

definition demo_issue1 :: review_subject where
  "demo_issue1 = ScopeIssuance (demo_grant\<lparr>sg_issuance_receipt_digest := zeros\<rparr>)"

definition demo_issue2 :: review_subject where
  "demo_issue2 = ScopeIssuance (demo_child\<lparr>sg_issuance_receipt_digest := zeros\<rparr>)"

definition demo_exact :: review_subject where "demo_exact = ExactAction demo_child demo_action ''k'' 1 None"

definition demo_receipts :: "decision_receipt list" where
  "demo_receipts = [demo_decided ''i'' demo_issue1, demo_decided ''s'' demo_issue2, demo_decided ''c'' demo_exact]"

lemma demo_rvx_simps [simp]:
  "grant_to_value demo_rvx g = Some (JObject [])" "value_to_vec demo_rvx v = Some []" "display_to_pretty demo_rvx d = Some []"
  "document_to_vec demo_rvx x = Some []" "decided_to_vec demo_rvx y = Some []" "signed_review_to_vec demo_rvx w = Some []"
  "receipt_body_to_vec demo_rvx b = Some []" "uuid_parse_str demo_rvx u = Some 1"
  "verifying_key_ok demo_rvx k" "ed25519_verify_strict demo_rvx k n sig"
  by (simp_all add: demo_rvx_def demo_scx_def rvext.defs)

lemma demo_receipt_bytes [simp]:
  "receipt_to_vec demo_rvx r = Some [case rd_subject (sv_document (dr_review r)) of
        ScopeIssuance g \<Rightarrow> if sg_parent_id g = None then CHR 0x01 else CHR 0x02 | ExactAction _ _ _ _ _ \<Rightarrow> CHR 0x03]"
  by (simp add: demo_rvx_def demo_scx_def rvext.defs)

lemma zeros_hex: "zeros = hex_encode (replicate 32 (CHR 0x00))" "zeros @ zeros = hex_encode (replicate 64 (CHR 0x00))"
proof -
  have z: "(char_of (48 :: nat) :: char) = CHR ''0''" by code_simp
  have "hex_encode (replicate n (CHR 0x00)) = replicate (2 * n) (CHR ''0'')" for n
    by (induction n) (simp_all add: hex_encode_def hex_byte_def hex_digit_def z)
  then show "zeros = hex_encode (replicate 32 (CHR 0x00))" "zeros @ zeros = hex_encode (replicate 64 (CHR 0x00))"
    by (simp_all add: zeros_def flip: replicate_add)
qed

lemma demo_signature [simp]: "signature_holds demo_rvx zeros (zeros @ zeros) n"
proof -
  have "decode_hex 32 zeros = Inr (replicate 32 (CHR 0x00))" "decode_hex 64 (zeros @ zeros) = Inr (replicate 64 (CHR 0x00))"
    unfolding zeros_hex(2) by (simp_all add: zeros_hex(1) decode_hex_encode)
  then show ?thesis by (simp add: signature_holds_def)
qed

lemma demo_digest_ok [simp]: "review_digest_ok zeros = Inr ()"
  by (simp add: review_digest_ok_def zeros_def is_lower_hex_def is_ascii_digit_def list_all_iff)

lemma review_ident_lower: "v \<noteq> [] \<Longrightarrow> length v \<le> 256 \<Longrightarrow> list_all is_ascii_alphanumeric v \<Longrightarrow> review_ident v = Inr ()"
  by (auto simp: review_ident_def list_all_iff)

lemma demo_drafts [simp]:
  "grant_canonicalized demo_rvx (demo_grant\<lparr>sg_issuance_receipt_digest := zeros\<rparr>) = Inr (demo_grant\<lparr>sg_issuance_receipt_digest := zeros\<rparr>)"
  "grant_canonicalized demo_rvx (demo_child\<lparr>sg_issuance_receipt_digest := zeros\<rparr>) = Inr (demo_child\<lparr>sg_issuance_receipt_digest := zeros\<rparr>)"
  unfolding grant_canonicalized_Inr
  by (rule exI[of _ "sg_fields demo_grant"],
    simp add: demo_rvx_def demo_child_def demo_grant_def ident_lower ascii_defs grant_ids_ok_def grant_limits_ok_def canonical_constraint_Inr
      MAX_DEPTH_def MAX_RESOURCES_def MAX_FIELDS_def MAX_VALUES_def MAX_CHECKS_def i64_max_def)+

lemma demo_authority_ok:
  "q \<noteq> ''z'' \<Longrightarrow> review_ident q = Inr () \<Longrightarrow> review_authority_validate demo_rvx (rd_authority (demo_document q s)) = Inr ()"
proof -
  have "decode_hex 32 zeros = Inr (replicate 32 (CHR 0x00))" unfolding zeros_hex(1) by (simp add: decode_hex_encode)
  then show "q \<noteq> ''z'' \<Longrightarrow> review_ident q = Inr () \<Longrightarrow> review_authority_validate demo_rvx (rd_authority (demo_document q s)) = Inr ()"
    by (simp add: review_authority_validate_def demo_document_def review_ident_lower ascii_defs)
qed

lemma demo_subjects:
  "subject_validate_for demo_rvx demo_issue1 (rd_authority (demo_document ''i'' s)) = Inr ()"
  "subject_validate_for demo_rvx demo_issue2 (rd_authority (demo_document ''s'' s)) = Inr ()"
  "subject_validate_for demo_rvx demo_exact (rd_authority (demo_document ''c'' s)) = Inr ()"
proof -
  have a: "review_authority_validate demo_rvx (rd_authority (demo_document q s)) = Inr ()" if "q \<in> {''i'', ''s'', ''c''}" for q
    using that by (intro demo_authority_ok) (auto simp: review_ident_lower ascii_defs)
  have z: "EMPTY_RECEIPT_DIGEST = zeros" by (simp add: EMPTY_RECEIPT_DIGEST_def zeros_def)
  have f: "ra_owner (rd_authority (demo_document q s)) = demo_own" "ra_requester_id (rd_authority (demo_document q s)) = q"
    "ra_policy_digest (rd_authority (demo_document q s)) = zeros" for q by (simp_all add: demo_document_def)
  have r: "rq_policy_digest (sg_requirements demo_grant) = zeros" "rq_policy_digest (sg_requirements demo_child) = zeros"
    "sg_issuer demo_grant = ''i''" "sg_issuer demo_child = ''s''" by (simp_all add: demo_child_def demo_grant_def)
  have v: "action_validate_for demo_rvx demo_action demo_child = Inr ()"
    unfolding demo_rvx_def by (rule demo_in_scope)
  show "subject_validate_for demo_rvx demo_issue1 (rd_authority (demo_document ''i'' s)) = Inr ()"
    "subject_validate_for demo_rvx demo_issue2 (rd_authority (demo_document ''s'' s)) = Inr ()"
    by (simp_all add: subject_validate_for_def demo_issue1_def demo_issue2_def a f z r)
  show "subject_validate_for demo_rvx demo_exact (rd_authority (demo_document ''c'' s)) = Inr ()"
    by (simp add: subject_validate_for_def demo_exact_def a f r v review_ident_lower ascii_defs)
      (simp add: demo_rvx_def)
qed

lemma demo_document_ok:
  assumes "subject_validate_for demo_rvx s (rd_authority (demo_document q s)) = Inr ()" "sg_expires_at (subject_scope s) = 100"
    "1 \<le> t" "t < 40" "\<And>d. s = ScopeIssuance d \<Longrightarrow> grant_canonicalized demo_rvx d = Inr d"
  shows "document_validate_at demo_rvx (demo_document q s) t = Inr ()"
proof -
  have "render demo_rvx (demo_document q s) = Inr []"
    using assms(5) by (cases s) (simp_all add: render_def demo_document_def issuance_commitment_def scope_review_hash_def
        review_bytes_def hostile_review_char_def del: and_then_Inr)
  then show ?thesis using assms
    by (simp add: document_validate_at_def)
      (simp add: demo_document_def REVIEW_VERSION_def checked_sub_i64_def in_i64_def i64_min_def i64_max_def MAX_ROUND_SECONDS_def)
qed

lemma demo_receipt_ok:
  assumes "subject_validate_for demo_rvx s (rd_authority (demo_document q s)) = Inr ()" "sg_expires_at (subject_scope s) = 100"
    "\<And>d. s = ScopeIssuance d \<Longrightarrow> grant_canonicalized demo_rvx d = Inr d"
  shows "receipt_verify demo_rvx (demo_decided q s) zeros = Inr ()"
  using demo_document_ok[OF assms(1,2), of 5] demo_document_ok[OF assms(1,2), of 1] assms(3)
  by (simp add: receipt_verify_def review_verify_def decision_verify_def decision_bytes_def receipt_signing_bytes_def demo_decided_def
      MAX_RECEIPT_BYTES_def MAX_SIGNED_REVIEW_BYTES_def REVIEW_VERSION_def) (simp add: demo_document_def)

lemma mark_inject [simp]: "mark c = mark d \<longleftrightarrow> c = d"
  by (simp add: mark_def)

lemma demo_receipt_digest:
  "decision_receipt_digest demo_rvx (demo_decided q demo_issue1) = Inr (mark (CHR ''1''))"
  "decision_receipt_digest demo_rvx (demo_decided q demo_issue2) = Inr (mark (CHR ''2''))"
  "decision_receipt_digest demo_rvx (demo_decided q demo_exact) = Inr (mark (CHR ''3''))"
proof -
  have z: "(char_of (48 :: nat) :: char) = CHR ''0''" "(char_of (49 :: nat) :: char) = CHR ''1''"
    "(char_of (50 :: nat) :: char) = CHR ''2''" "(char_of (51 :: nat) :: char) = CHR ''3''" by code_simp+
  have r: "hex_encode (replicate n (CHR 0x00)) = replicate (2 * n) (CHR ''0'')" for n
    by (induction n) (simp_all add: hex_encode_def hex_byte_def hex_digit_def z)
  have a: "hex_encode (a @ b) = hex_encode a @ hex_encode b" for a b by (simp add: hex_encode_def)
  have h: "hex_encode [CHR 0x01] = ''01''" "hex_encode [CHR 0x02] = ''02''" "hex_encode [CHR 0x03] = ''03''"
    by (simp_all add: hex_encode_def hex_byte_def hex_digit_def z)
  have m: "mark c = replicate 62 (CHR ''0'') @ [CHR ''0'', c]" for c
    unfolding mark_def using replicate_add[of 62 1 "CHR ''0''"] by simp
  have s: "sha256 demo_rvx (''opaque.scope.decision-receipt.v1'' @ [CHR 0x00, b]) = hex_encode (replicate 31 (CHR 0x00) @ [b])" for b
    by (simp add: sha256_def demo_rvx_def demo_scx_def)
  have k: "decision_receipt_digest demo_rvx (demo_decided q x) = Inr (hex_encode (replicate 31 (CHR 0x00) @ [case x of
        ScopeIssuance g \<Rightarrow> if sg_parent_id g = None then CHR 0x01 else CHR 0x02 | ExactAction _ _ _ _ _ \<Rightarrow> CHR 0x03]))" for x
    by (simp add: decision_receipt_digest_def scope_review_hash_def review_bytes_def demo_decided_def demo_document_def s[simplified]
        del: and_then_Inr)
  show "decision_receipt_digest demo_rvx (demo_decided q demo_issue1) = Inr (mark (CHR ''1''))"
    "decision_receipt_digest demo_rvx (demo_decided q demo_issue2) = Inr (mark (CHR ''2''))"
    "decision_receipt_digest demo_rvx (demo_decided q demo_exact) = Inr (mark (CHR ''3''))"
    unfolding k a m r by (simp_all add: demo_issue1_def demo_issue2_def demo_exact_def h)
qed

lemma demo_index:
  "\<exists>m. index_receipts demo_rvx demo_own zeros [] demo_receipts = Inr m
     \<and> map_of m (mark (CHR ''1'')) = Some (demo_decided ''i'' demo_issue1)
     \<and> map_of m (mark (CHR ''2'')) = Some (demo_decided ''s'' demo_issue2)
     \<and> map_of m (mark (CHR ''3'')) = Some (demo_decided ''c'' demo_exact)"
proof -
  have c: "receipt_verify demo_rvx (demo_decided ''i'' demo_issue1) zeros = Inr ()"
    "receipt_verify demo_rvx (demo_decided ''s'' demo_issue2) zeros = Inr ()"
    "receipt_verify demo_rvx (demo_decided ''c'' demo_exact) zeros = Inr ()"
    by (rule demo_receipt_ok[OF demo_subjects(1)]; simp add: demo_issue1_def subject_scope_def)
      (rule demo_receipt_ok[OF demo_subjects(2)] demo_receipt_ok[OF demo_subjects(3)];
       simp add: demo_issue2_def demo_exact_def subject_scope_def)+
  have o: "ra_owner (rd_authority (sv_document (dr_review (demo_decided q s)))) = demo_own" for q s
    by (simp add: demo_decided_def demo_document_def)
  show ?thesis
    by (simp add: demo_receipts_def c o demo_receipt_digest del: and_then_Inr bt_insert.simps)
qed

lemma demo_run_claimed:
  "scope_run (demo_scx m) demo_own (demo_ops @ [SO_Claim NoFault demo_guard 12 ''a'' zeros]) = demo_db4"
  unfolding run_append demo_scope_run by (simp add: demo_claim)

lemma demo_reviewed:
  assumes x: "export_evidence demo_rvx demo_own (scope_run demo_rvx demo_own (demo_ops @ [SO_Claim NoFault demo_guard 12 ''a'' zeros])) = Inr E"
  shows "verify_reviews demo_rvx E demo_receipts zeros = Inr ()"
proof -
  note e = export_read[OF scope_run_ok[OF demo_owner_ok] x]
  have d: "scope_run demo_rvx demo_own (demo_ops @ [SO_Claim NoFault demo_guard 12 ''a'' zeros]) = demo_db4"
    unfolding demo_rvx_def by (rule demo_run_claimed)
  note e = e[unfolded d]
  have ds: "distinct (map sr_id (se_scopes E))" "distinct (map ar_id (se_actions E))"
    using strictly_ascending_sorted e(7,8) by blast+
  obtain m where m: "index_receipts demo_rvx demo_own zeros [] demo_receipts = Inr m"
      "map_of m (mark (CHR ''1'')) = Some (demo_decided ''i'' demo_issue1)"
      "map_of m (mark (CHR ''2'')) = Some (demo_decided ''s'' demo_issue2)"
      "map_of m (mark (CHR ''3'')) = Some (demo_decided ''c'' demo_exact)" using demo_index by blast
  have k: "sg_issuance_receipt_digest demo_grant = mark (CHR ''1'')" "sg_issuance_receipt_digest demo_child = mark (CHR ''2'')"
    by (simp_all add: demo_child_def demo_grant_def)
  have u: "demo_grant\<lparr>sg_issuance_receipt_digest := mark (CHR ''1'')\<rparr> = demo_grant"
    "demo_child\<lparr>sg_issuance_receipt_digest := mark (CHR ''2'')\<rparr> = demo_child" by (simp_all add: demo_child_def demo_grant_def)
  have i: "sr_issued_at demo_root = 10" "sr_issued_at demo_leaf = 10" by (simp_all add: demo_root_def demo_leaf_def)
  have f: "dr_accepted_at (demo_decided q t) = 5" "rc_decision (dr_response (demo_decided q t)) = RD_Approve"
    "rd_subject (sv_document (dr_review (demo_decided q t))) = t" "rd_round_id (sv_document (dr_review (demo_decided q t))) = ''o''"
    "rd_expires_at (sv_document (dr_review (demo_decided q t))) = 40" for q t
    by (simp_all add: demo_decided_def demo_document_def)
  have "scope_reviewed m s = Inr ()" if "s \<in> set (se_scopes E)" for s
  proof -
    have "scopes_of demo_db4 (sr_id s) = Some s" using that by_key_Some[OF ds(1)] e(5) by metis
    then have "s = charge_scope ''r1'' demo_root \<or> s = charge_scope ''r1'' demo_leaf"
      by (auto simp: scopes_of_def demo_db4_def demo_db3_def split: if_splits)
    then show ?thesis
      by (elim disjE) (simp_all add: scope_reviewed_def k m f u demo_issue1_def demo_issue2_def i)
  qed
  moreover have "action_reviewed demo_rvx m a = Inr ()" if "a \<in> set (se_actions E)" for a
  proof -
    have "actions_of demo_db4 (ar_id a) = Some a" using that by_key_Some[OF ds(2)] e(6) by metis
    then have "a = demo_claimed" by (auto simp: actions_of_def demo_db4_def split: if_splits)
    moreover have "grant_digest demo_rvx demo_child = Inr zeros" unfolding demo_rvx_def by (rule demo_digests(2))
    ultimately show ?thesis
      by (simp add: action_reviewed_def demo_claimed_def demo_reserved_def demo_evidence_def m f demo_exact_def Let_def)
  qed
  moreover have "unhex 32 zeros = Inr (replicate 32 (CHR 0x00))"
    using hex_encode_lower[of "replicate 32 (CHR 0x00)"] by (simp add: unhex_def zeros_hex(1))
  ultimately show ?thesis using e(1,2) m(1) by (simp add: verify_reviews_def)
qed

theorem dispatched_work_was_reviewed_witness:
  "\<exists>E a ch. export_evidence demo_rvx demo_own (scope_run demo_rvx demo_own (demo_ops @ [SO_Claim NoFault demo_guard 12 ''a'' zeros])) = Inr E
     \<and> a \<in> set (se_actions E) \<and> ar_id a = ''a'' \<and> action_approved demo_rvx zeros demo_receipts (sr_grant (hd ch)) a
     \<and> (\<forall>s\<in>set ch. issuance_approved demo_rvx zeros demo_receipts s)"
proof -
  let ?ops = "demo_ops @ [SO_Claim NoFault demo_guard 12 ''a'' zeros]"
  have "\<exists>E. export_evidence demo_rvx demo_own (scope_run demo_rvx demo_own ?ops) = Inr E"
    unfolding demo_rvx_def by (rule demo_export)
  then obtain E where E: "export_evidence demo_rvx demo_own (scope_run demo_rvx demo_own ?ops) = Inr E" ..
  have "''a'' \<in> set (granted (scope_exec demo_rvx demo_own) (claim_granted demo_rvx) ?ops (fresh_db demo_own))"
    unfolding granted_append demo_rvx_def demo_scope_run by (simp add: claim_granted_def demo_claim)
  from dispatched_work_was_reviewed[OF demo_owner_ok E demo_reviewed[OF E] this] obtain a ch
    where a: "a \<in> set (se_actions E)" "ar_id a = ''a''" "lineage (by_key sr_id (se_scopes E)) (Some (scope_of a)) ch"
      "\<forall>s\<in>set ch. issuance_approved demo_rvx zeros demo_receipts s"
      "(\<exists>s\<in>set ch. rq_minimum_approval (sg_requirements (sr_grant s)) = MA_ExactAction)
         \<longrightarrow> action_approved demo_rvx zeros demo_receipts (sr_grant (hd ch)) a" by blast
  note e = export_read[OF scope_run_ok[OF demo_owner_ok] E]
  have "scopes_of demo_db4 (scope_of a) = Some (hd ch)"
    using lineage_hd[OF a(3)] unfolding e(5) demo_rvx_def demo_run_claimed .
  then have "hd ch = charge_scope ''r1'' demo_root \<or> hd ch = charge_scope ''r1'' demo_leaf"
    by (auto simp: scopes_of_def demo_db4_def demo_db3_def split: if_splits)
  then have "rq_minimum_approval (sg_requirements (sr_grant (hd ch))) = MA_ExactAction"
    by (elim disjE) (simp_all add: demo_child_def demo_grant_def)
  then show ?thesis using E a lineage_nonempty[OF a(3)] by (metis hd_in_set)
qed

subsection \<open>Signing and verifying agree\<close>

text \<open>What the protocol relies on: Ed25519 verifies what it signs, keys and signatures have their fixed lengths, and the
  encodings stay within the wire bounds.\<close>

definition signs_soundly :: "'z rvext_scheme \<Rightarrow> bool" where
  "signs_soundly X =
     (\<forall>key n. length (signing_public X key) = 32 \<and> verifying_key_ok X (signing_public X key)
        \<and> length (ed25519_sign X key n) = 64 \<and> ed25519_verify_strict X (signing_public X key) n (ed25519_sign X key n))"

definition encodes_within :: "'z rvext_scheme \<Rightarrow> nat \<Rightarrow> bool" where
  "encodes_within X n =
     ((\<forall>d. \<exists>b. document_to_vec X d = Some b \<and> length b \<le> n) \<and> (\<forall>p. \<exists>b. decided_to_vec X p = Some b \<and> length b \<le> n)
      \<and> (\<forall>r. \<exists>b. signed_review_to_vec X r = Some b \<and> length b \<le> n)
      \<and> (\<forall>q. \<exists>b. receipt_body_to_vec X q = Some b \<and> length b \<le> n) \<and> (\<forall>r. \<exists>b. receipt_to_vec X r = Some b \<and> length b \<le> n))"

lemma encoded_short:
  assumes "encodes_within X MAX_SIGNED_REVIEW_BYTES"
  shows "\<exists>b. document_to_vec X d = Some b \<and> length b \<le> 1024 * 1024" "\<exists>b. decided_to_vec X p = Some b \<and> length b \<le> 1024 * 1024"
    "\<exists>b. receipt_body_to_vec X q = Some b \<and> length b \<le> 1024 * 1024" "\<exists>b. receipt_to_vec X r = Some b \<and> length b \<le> MAX_RECEIPT_BYTES"
proof -
  have le: "length b \<le> 1024 * 1024" "length b \<le> MAX_RECEIPT_BYTES" if "length b \<le> MAX_SIGNED_REVIEW_BYTES" for b :: string
    using that unfolding MAX_SIGNED_REVIEW_BYTES_def MAX_RECEIPT_BYTES_def by simp_all
  note e = assms[unfolded encodes_within_def]
  show "\<exists>b. document_to_vec X d = Some b \<and> length b \<le> 1024 * 1024" using e[THEN conjunct1] le(1) by blast
  show "\<exists>b. decided_to_vec X p = Some b \<and> length b \<le> 1024 * 1024" using e[THEN conjunct2, THEN conjunct1] le(1) by blast
  show "\<exists>b. receipt_body_to_vec X q = Some b \<and> length b \<le> 1024 * 1024"
    using e[THEN conjunct2, THEN conjunct2, THEN conjunct2, THEN conjunct1] le(1) by blast
  show "\<exists>b. receipt_to_vec X r = Some b \<and> length b \<le> MAX_RECEIPT_BYTES"
    using e[THEN conjunct2, THEN conjunct2, THEN conjunct2, THEN conjunct2] le(2) by blast
qed

lemma signed_holds: "signs_soundly X \<Longrightarrow> signature_holds X (hex_encode (signing_public X key)) (hex_encode (ed25519_sign X key n)) n"
  unfolding signs_soundly_def signature_holds_def using decode_hex_encode by blast

lemma review_sign_verify:
  assumes s: "signs_soundly X" and n: "encodes_within X MAX_SIGNED_REVIEW_BYTES" and d: "document_validate_at X d u = Inr ()"
  obtains r where "review_sign X d key = Inr r" "sv_document r = d"
    "\<And>t. rd_created_at d \<le> t \<Longrightarrow> t < rd_expires_at d \<Longrightarrow> review_verify X r (hex_encode (signing_public X key)) t = Inr ()"
proof -
  have t: "document_validate_at X d t = Inr ()" if "rd_created_at d \<le> t" "t < rd_expires_at d" for t
    by (rule document_validate_later[OF d that])
  have c: "document_validate_at X d (rd_created_at d) = Inr ()" using t document_validateD(2,3)[OF d] by simp
  obtain b where b: "document_to_vec X d = Some b" "length b \<le> 1024 * 1024"
    using encoded_short[OF n] by blast
  let ?m = "''opaque.scope.broker-review.v1'' @ CHR 0x00 # b"
  define r where "r = \<lparr>sv_schema_version = REVIEW_VERSION, sv_document = d, sv_broker_public_key = hex_encode (signing_public X key),
      sv_signature = hex_encode (ed25519_sign X key ?m)\<rparr>"
  have w: "bounded_wire (signed_review_to_vec X r) MAX_SIGNED_REVIEW_BYTES = Inr ()" using n unfolding encodes_within_def bounded_wire_Inr by blast
  have bytes: "review_bytes ''opaque.scope.broker-review.v1'' (document_to_vec X d) = Inr ?m" using b unfolding review_bytes_Inr by blast
  show thesis
  proof (rule that[of r])
    show "review_sign X d key = Inr r" unfolding review_sign_def bytes c using w by (simp add: r_def Let_def)
    show "sv_document r = d" by (simp add: r_def)
    show "review_verify X r (hex_encode (signing_public X key)) t = Inr ()" if "rd_created_at d \<le> t" "t < rd_expires_at d" for t
      using signed_holds[OF s, of key ?m] w t[OF that] bytes by (simp add: review_verify_def r_def)
  qed
qed

lemma decision_sign_verify:
  assumes s: "signs_soundly X" and n: "encodes_within X MAX_SIGNED_REVIEW_BYTES"
    and r: "review_verify X r broker t = Inr ()" and k: "ra_reviewer_public_key (rd_authority (sv_document r)) = hex_encode (signing_public X key)"
  obtains c where "decision_sign X r broker key dec t = Inr c" "rc_decision c = dec" "decision_verify X c (sv_document r) = Inr ()"
proof -
  have d: "document_validate_at X (sv_document r) t = Inr ()" using r by (simp add: review_verify_def)
  obtain b where b: "decided_to_vec X (sv_document r, dec) = Some b" "length b \<le> 1024 * 1024"
    using encoded_short[OF n] by blast
  let ?m = "''opaque.scope.reviewer-decision.v1'' @ CHR 0x00 # b"
  have "document_validate_at X (sv_document r) (rd_created_at (sv_document r)) = Inr ()"
    using document_validate_later[OF d] document_validateD(2,3)[OF d] by simp
  then have bytes: "decision_bytes X (sv_document r) dec = Inr ?m" using b by (simp add: decision_bytes_def)
  show thesis
    by (rule that[of "\<lparr>rc_schema_version = REVIEW_VERSION, rc_round_id = rd_round_id (sv_document r),
          rc_reviewer_id = ra_reviewer_id (rd_authority (sv_document r)), rc_device_id = ra_device_id (rd_authority (sv_document r)),
          rc_decision = dec, rc_signature = hex_encode (ed25519_sign X key ?m)\<rparr>"])
      (use r k bytes signed_holds[OF s, of key ?m] in \<open>simp_all add: decision_sign_def decision_verify_def Let_def\<close>)
qed

lemma receipt_sign_verify:
  assumes s: "signs_soundly X" and n: "encodes_within X MAX_SIGNED_REVIEW_BYTES"
    and r: "review_verify X r (hex_encode (signing_public X key)) t = Inr ()" and c: "decision_verify X c (sv_document r) = Inr ()"
  obtains q where "receipt_sign X r c t key = Inr q" "dr_review q = r" "dr_response q = c" "dr_accepted_at q = t"
    "receipt_verify X q (hex_encode (signing_public X key)) = Inr ()"
proof -
  obtain b where b: "receipt_body_to_vec X (REVIEW_VERSION, r, c, t) = Some b" "length b \<le> 1024 * 1024"
    using encoded_short[OF n] by blast
  let ?m = "''opaque.scope.broker-receipt.v1'' @ CHR 0x00 # b"
  define q where "q = \<lparr>dr_schema_version = REVIEW_VERSION, dr_review = r, dr_response = c, dr_accepted_at = t,
      dr_broker_signature = hex_encode (ed25519_sign X key ?m)\<rparr>"
  have w: "bounded_wire (receipt_to_vec X q) MAX_RECEIPT_BYTES = Inr ()"
    unfolding bounded_wire_Inr by (rule encoded_short(4)[OF n])
  have bytes: "receipt_signing_bytes X (q\<lparr>dr_broker_signature := z\<rparr>) = Inr ?m" for z
    using b by (simp add: receipt_signing_bytes_def q_def)
  show thesis
  proof (rule that[of q])
    show "receipt_sign X r c t key = Inr q"
      using r c w bytes[of "[]"] by (simp add: receipt_sign_def q_def Let_def)
    show "receipt_verify X q (hex_encode (signing_public X key)) = Inr ()"
      using r c w bytes[of "dr_broker_signature q"] signed_holds[OF s, of key ?m] by (simp add: receipt_verify_def q_def)
  qed (simp_all add: q_def)
qed



end
