(* ===== verification/Checkpoint_Properties.thy ===== *)
theory Checkpoint_Properties
  imports Evidence_Checkpoint Review_Properties
begin

text \<open>
  What checkpoints establish: a verified checkpoint carries the producer's signature and describes its export exactly,
  what the producer creates verifies, the exports of a stream of scope checkpoints extend each other, and the upgrade of
  a legacy audit log keeps every record.
\<close>

subsection \<open>Ranges\<close>

text \<open>The numbers a checkpoint declares as present.\<close>

definition declared :: "checkpoint \<Rightarrow> u64 \<Rightarrow> bool" where
  "declared p n =
     (is_some_and (cp_first_sequence p) (\<lambda>lo. lo \<le> n) \<and> is_some_and (cp_last_sequence p) (\<lambda>hi. n \<le> hi)
      \<and> \<not> (\<exists>g\<in>set (cp_gaps p). in_gap g n))"

lemma unhex_encode: "length s = n \<Longrightarrow> unhex n (hex_encode s) = Inr s"
  using hex_encode_lower[of s] by (simp add: unhex_def)

lemma inspect_declares:
  assumes "inspect_export X bytes = Inr s"
    and "cp_first_sequence p = es_first_sequence s" "cp_last_sequence p = es_last_sequence s" "cp_gaps p = es_gaps s"
  shows "\<exists>lines rows. bytes = concat (map (\<lambda>l. l @ [CHR 0x0A]) lines)
    \<and> list_all2 (\<lambda>l r. export_record_from_slice X l = Some r) lines rows
    \<and> sorted_wrt (<) (map xr_sequence_number rows) \<and> es_record_count s = of_nat (length rows) \<and> length rows \<le> 100000
    \<and> (\<forall>n. declared p n \<longleftrightarrow> n \<in> xr_sequence_number ` set rows)"
proof -
  obtain rows where r: "list_all2 (\<lambda>l r. export_record_from_slice X (butlast l) = Some r) (split_inclusive (CHR 0x0A) bytes) rows"
    "s = summarise (map xr_sequence_number rows)" "sorted_wrt (<) (map xr_sequence_number rows)" "length rows \<le> 100000"
    by (rule inspect_export_Inr[OF assms(1)])
  have "bytes = [] \<or> last bytes = CHR 0x0A" using assms(1) by (auto simp: inspect_export_def)
  then obtain lines where l: "split_inclusive (CHR 0x0A) bytes = map (\<lambda>l. l @ [CHR 0x0A]) lines"
    "bytes = concat (map (\<lambda>l. l @ [CHR 0x0A]) lines)" using split_inclusive_lines by blast
  have p: "list_all2 (\<lambda>l r. export_record_from_slice X l = Some r) lines rows"
    using r(1) unfolding l(1) list_all2_map1 by simp
  let ?ns = "map xr_sequence_number rows"
  have "declared p n \<longleftrightarrow> n \<in> set ?ns" for n
  proof (cases "rows = []")
    case True
    then show ?thesis using assms(2) r(2) by (simp add: declared_def summarise_def)
  next
    case False
    then have ne: "?ns \<noteq> []" by simp
    have "n \<in> set ?ns \<Longrightarrow> hd ?ns \<le> n \<and> n \<le> last ?ns" by (rule ascending_bounds[OF r(3)])
    moreover have "declared p n \<longleftrightarrow> hd ?ns \<le> n \<and> n \<le> last ?ns \<and> \<not> (\<exists>g\<in>set (gaps_of ?ns). in_gap g n)"
      using assms(2-4) r(2) ne by (simp add: declared_def summarise_def)
    ultimately show ?thesis using gaps_exact[OF r(3) ne, of n] by blast
  qed
  then show ?thesis using l(2) p r(2-4) by (intro exI[of _ lines] exI[of _ rows]) (simp add: summarise_def)
qed

subsection \<open>Verified checkpoints\<close>

definition producer_signed :: "'z cpext_scheme \<Rightarrow> producer_trust \<Rightarrow> signed_checkpoint \<Rightarrow> bool" where
  "producer_signed X t c =
     (\<exists>key json sig. unhex 32 (pt_public_key t) = Inr key \<and> sha256 X key = cp_key_id (sk_payload c)
        \<and> checkpoint_to_vec X (sk_payload c) = Some json \<and> unhex 64 (sk_signature c) = Inr sig
        \<and> ed25519_verify_strict X key (checkpoint_domain (cp_schema_version (sk_payload c)) @ json) sig)"

lemma document_message_Inr [simp]:
  "document_message domain json = Inr m \<longleftrightarrow> (\<exists>b. json = Some b \<and> length b \<le> MAX_DOCUMENT_BYTES \<and> m = domain @ b)"
  by (auto simp: document_message_def canonical_document_def)

lemma trusted_key_Inr [simp]:
  "trusted_key X version i public = Inr key \<longleftrightarrow> unhex 32 public = Inr key \<and> verifying_key_ok X key \<and> version = 1 \<and> sha256 X key = i"
  by (auto simp: trusted_key_def evidence_key_id_def)

lemma verify_checkpoint_Inr:
  "verify_checkpoint X c t export = Inr v \<longleftrightarrow>
     validate_checkpoint (sk_payload c) = Inr () \<and> stream_validate (pt_scope t) = Inr () \<and> pt_schema_version t = 1
     \<and> cp_scope (sk_payload c) = pt_scope t \<and> cp_key_id (sk_payload c) = pt_key_id t
     \<and> length export \<le> MAX_EXPORT_BYTES \<and> sha256 X export = cp_export_sha256 (sk_payload c)
     \<and> (\<exists>key json sig. unhex 32 (pt_public_key t) = Inr key \<and> verifying_key_ok X key \<and> sha256 X key = pt_key_id t
          \<and> checkpoint_to_vec X (sk_payload c) = Some json \<and> length json \<le> MAX_DOCUMENT_BYTES
          \<and> unhex 64 (sk_signature c) = Inr sig
          \<and> ed25519_verify_strict X key (checkpoint_domain (cp_schema_version (sk_payload c)) @ json) sig)
     \<and> (\<exists>s. export_range X (cp_schema_version (sk_payload c)) t export = Inr s
          \<and> es_first_sequence s = cp_first_sequence (sk_payload c) \<and> es_last_sequence s = cp_last_sequence (sk_payload c)
          \<and> es_record_count s = cp_record_count (sk_payload c) \<and> es_gaps s = cp_gaps (sk_payload c))
     \<and> (\<exists>d. checkpoint_digest X c = Inr d
          \<and> v = \<lparr>vc_checkpoint_sha256 = d, vc_export_sha256 = cp_export_sha256 (sk_payload c)\<rparr>)"
  by (auto simp: verify_checkpoint_def producer_verifying_key_def Let_def)

lemma evidence_events_numbered:
  assumes "evidence_validate X E = Inr u" "k < length (se_events E)"
  shows "ev_sequence (se_events E ! k) = of_nat (Suc k)"
proof -
  have "history (by_key sr_id (se_scopes E)) (by_key ar_id (se_actions E)) (se_last_seen E) 0 [] 0 (se_events E)"
    using assms(1) unfolding evidence_validate_iff ledger_sound_def by blast
  from history_sequence[OF this assms(2)] show ?thesis by simp
qed

text \<open>C24: A checkpoint that verifies against an enrolled producer carries that producer's signature over its whole payload,
  names the digest of the export, and describes the export exactly.  For an audit export: the bytes are lines that
  each decode to a record, the sequence numbers rise strictly, the count is theirs, and a number is declared present -
  inside the range and in no gap - exactly when a record carries it.  For a scope export: the bytes decode to valid
  evidence of the enrolled tenant, broker and generation whose events are numbered one by one without a gap.\<close>

theorem verified_checkpoint_describes_export:
  assumes "verify_checkpoint X c t export = Inr v"
  shows "producer_signed X t c \<and> sha256 X export = cp_export_sha256 (sk_payload c)
    \<and> (cp_schema_version (sk_payload c) = 1 \<longrightarrow>
         (\<exists>lines rows. export = concat (map (\<lambda>l. l @ [CHR 0x0A]) lines)
            \<and> list_all2 (\<lambda>l r. export_record_from_slice X l = Some r) lines rows
            \<and> sorted_wrt (<) (map xr_sequence_number rows) \<and> unat (cp_record_count (sk_payload c)) = length rows
            \<and> (\<forall>n. declared (sk_payload c) n \<longleftrightarrow> n \<in> xr_sequence_number ` set rows)))
    \<and> (cp_schema_version (sk_payload c) = SCOPE_CHECKPOINT_VERSION \<longrightarrow>
         (\<exists>E. evidence_from_slice X export = Some E \<and> evidence_validate X E = Inr ()
            \<and> ao_tenant_id (se_owner E) = sc_tenant_id (pt_scope t) \<and> ao_broker_id (se_owner E) = sc_broker_id (pt_scope t)
            \<and> ao_generation (se_owner E) = sc_generation (pt_scope t)
            \<and> cp_gaps (sk_payload c) = [] \<and> cp_record_count (sk_payload c) = of_nat (length (se_events E))
            \<and> (\<forall>k<length (se_events E). ev_sequence (se_events E ! k) = of_nat (Suc k))))"
proof -
  note v = assms[unfolded verify_checkpoint_Inr]
  obtain s where s: "export_range X (cp_schema_version (sk_payload c)) t export = Inr s"
      "es_first_sequence s = cp_first_sequence (sk_payload c)" "es_last_sequence s = cp_last_sequence (sk_payload c)"
      "es_record_count s = cp_record_count (sk_payload c)" "es_gaps s = cp_gaps (sk_payload c)" using v by blast
  have p: "producer_signed X t c" using v unfolding producer_signed_def by metis
  have one: "\<exists>lines rows. export = concat (map (\<lambda>l. l @ [CHR 0x0A]) lines)
      \<and> list_all2 (\<lambda>l r. export_record_from_slice X l = Some r) lines rows
      \<and> sorted_wrt (<) (map xr_sequence_number rows) \<and> unat (cp_record_count (sk_payload c)) = length rows
      \<and> (\<forall>n. declared (sk_payload c) n \<longleftrightarrow> n \<in> xr_sequence_number ` set rows)" if "cp_schema_version (sk_payload c) = 1"
  proof -
    have "inspect_export X export = Inr s" using s(1) that by (simp add: export_range_def SCOPE_CHECKPOINT_VERSION_def)
    from inspect_declares[OF this s(2,3,5)[symmetric]] obtain lines rows where
      r: "export = concat (map (\<lambda>l. l @ [CHR 0x0A]) lines)" "list_all2 (\<lambda>l r. export_record_from_slice X l = Some r) lines rows"
      "sorted_wrt (<) (map xr_sequence_number rows)" "es_record_count s = of_nat (length rows)" "length rows \<le> 100000"
      "\<forall>n. declared (sk_payload c) n \<longleftrightarrow> n \<in> xr_sequence_number ` set rows" by blast
    have "unat (cp_record_count (sk_payload c)) = length rows"
      using r(5) unfolding s(4)[symmetric] r(4) by (simp only: unat_of_nat) simp
    then show ?thesis using r by blast
  qed
  have two: "\<exists>E. evidence_from_slice X export = Some E \<and> evidence_validate X E = Inr ()
            \<and> ao_tenant_id (se_owner E) = sc_tenant_id (pt_scope t) \<and> ao_broker_id (se_owner E) = sc_broker_id (pt_scope t)
            \<and> ao_generation (se_owner E) = sc_generation (pt_scope t)
            \<and> cp_gaps (sk_payload c) = [] \<and> cp_record_count (sk_payload c) = of_nat (length (se_events E))
            \<and> (\<forall>k<length (se_events E). ev_sequence (se_events E ! k) = of_nat (Suc k))"
    if ver: "cp_schema_version (sk_payload c) = SCOPE_CHECKPOINT_VERSION"
  proof -
    obtain E where E: "evidence_decode X export = Inr E" "scope_summary E t = Inr s" using s(1) ver by (auto simp: export_range_def)
    then have "evidence_validate X E = Inr ()" "evidence_from_slice X export = Some E"
      by (auto simp: evidence_decode_def split: if_splits)
    moreover note evidence_events_numbered[OF this(1)]
    ultimately show ?thesis using E(2) s(4,5) by (auto simp: scope_summary_def)
  qed
  show ?thesis using p one two v by blast
qed

subsection \<open>Created checkpoints\<close>

lemma sign_checkpoint_Inr:
  assumes "sign_checkpoint X version t key sequence summary export previous build = Inr c"
  obtains json where "checkpoint_to_vec X (sk_payload c) = Some json" "length json \<le> MAX_DOCUMENT_BYTES"
    "sk_signature c = hex_encode (ed25519_sign X key (checkpoint_domain version @ json))"
    "validate_checkpoint (sk_payload c) = Inr ()" "cp_schema_version (sk_payload c) = version" "cp_scope (sk_payload c) = pt_scope t"
    "cp_key_id (sk_payload c) = pt_key_id t" "cp_export_sha256 (sk_payload c) = sha256 X export" "cp_checkpoint_sequence (sk_payload c) = sequence"
    "cp_first_sequence (sk_payload c) = es_first_sequence summary" "cp_last_sequence (sk_payload c) = es_last_sequence summary"
    "cp_record_count (sk_payload c) = es_record_count summary" "cp_gaps (sk_payload c) = es_gaps summary"
    "case previous of None \<Rightarrow> cp_previous_checkpoint_sha256 (sk_payload c) = None
       | Some q \<Rightarrow> \<exists>d. checkpoint_digest X q = Inr d \<and> cp_previous_checkpoint_sha256 (sk_payload c) = Some d"
proof -
  from assms show thesis using that by (cases previous) (auto simp: sign_checkpoint_def Let_def)
qed

lemma signed_checkpoint_verifies:
  assumes s: "signs_soundly X" and c: "sign_checkpoint X version t key sequence summary export previous build = Inr c"
    and k: "producer_verifying_key X t = Inr (signing_public X key)" and r: "export_range X version t export = Inr summary"
    and len: "length export \<le> MAX_EXPORT_BYTES" and d: "checkpoint_digest X c = Inr d"
  shows "verify_checkpoint X c t export = Inr \<lparr>vc_checkpoint_sha256 = d, vc_export_sha256 = sha256 X export\<rparr>"
proof -
  obtain json where j: "checkpoint_to_vec X (sk_payload c) = Some json" "length json \<le> MAX_DOCUMENT_BYTES"
    "sk_signature c = hex_encode (ed25519_sign X key (checkpoint_domain version @ json))"
    "validate_checkpoint (sk_payload c) = Inr ()" "cp_schema_version (sk_payload c) = version" "cp_scope (sk_payload c) = pt_scope t"
    "cp_key_id (sk_payload c) = pt_key_id t" "cp_export_sha256 (sk_payload c) = sha256 X export"
    "cp_first_sequence (sk_payload c) = es_first_sequence summary" "cp_last_sequence (sk_payload c) = es_last_sequence summary"
    "cp_record_count (sk_payload c) = es_record_count summary" "cp_gaps (sk_payload c) = es_gaps summary"
    by (rule sign_checkpoint_Inr[OF c]) blast
  have u: "unhex 64 (hex_encode (ed25519_sign X key (checkpoint_domain version @ json))) = Inr (ed25519_sign X key (checkpoint_domain version @ json))"
    using s by (intro unhex_encode) (simp add: signs_soundly_def)
  have "ed25519_verify_strict X (signing_public X key) (checkpoint_domain version @ json) (ed25519_sign X key (checkpoint_domain version @ json))"
    using s by (simp add: signs_soundly_def)
  then show ?thesis
    using k j r len d u unfolding verify_checkpoint_Inr producer_verifying_key_def by auto
qed

lemma create_checkpoint_Inr:
  assumes "create_checkpoint X A key_file db t key previous build = Inr (c, export)"
  obtains s sequence where "verified_snapshot X A key_file db = Inr \<lparr>vs_bytes = export, vs_summary = s\<rparr>"
    "producer_verifying_key X t = Inr (signing_public X key)" "inspect_export X export = Inr s"
    "sign_checkpoint X 1 t key sequence s export previous build = Inr c" "length export \<le> MAX_EXPORT_BYTES"
proof -
  obtain vs n where v: "verified_snapshot X A key_file db = Inr vs" "export = vs_bytes vs"
      "producer_verifying_key X t = Inr (signing_public X key)" "sign_checkpoint X 1 t key n (vs_summary vs) export previous build = Inr c"
    using assms by (auto simp: create_checkpoint_def)
  then have "inspect_export X export = Inr (vs_summary vs)" "vs = \<lparr>vs_bytes = export, vs_summary = vs_summary vs\<rparr>"
    by (auto simp: verified_snapshot_def)
  moreover have "length export \<le> MAX_EXPORT_BYTES" using calculation(1) by (auto simp: inspect_export_def)
  ultimately show thesis using that v by metis
qed

lemma create_scope_checkpoint_Inr:
  assumes "create_scope_checkpoint X E t key previous build = Inr (c, export)"
  obtains s sequence where "producer_verifying_key X t = Inr (signing_public X key)" "evidence_encode X E = Inr export"
    "scope_summary E t = Inr s"
    "sign_checkpoint X SCOPE_CHECKPOINT_VERSION t key sequence s export (map_option fst previous) build = Inr c"
    "\<And>q bytes. previous = Some (q, bytes) \<Longrightarrow> \<exists>prior v. verify_checkpoint X q t bytes = Inr v \<and> evidence_decode X bytes = Inr prior
       \<and> validate_extension X E prior = Inr () \<and> cp_schema_version (sk_payload q) = SCOPE_CHECKPOINT_VERSION
       \<and> checked_add_u64 (cp_checkpoint_sequence (sk_payload q)) 1 = Some sequence"
    "previous = None \<Longrightarrow> sequence = 1"
proof -
  from assms obtain s sequence where "producer_verifying_key X t = Inr (signing_public X key)" "evidence_encode X E = Inr export"
    "scope_summary E t = Inr s"
    "sign_checkpoint X SCOPE_CHECKPOINT_VERSION t key sequence s export (map_option fst previous) build = Inr c"
    "(case previous of None \<Rightarrow> Inr 1 | Some (c, prior_bytes) \<Rightarrow>
           and_then (reject_if (cp_schema_version (sk_payload c) \<noteq> SCOPE_CHECKPOINT_VERSION)
             (EvidenceError ''checkpoint format changed; enroll a new stream'')) (\<lambda>_.
           and_then (verify_checkpoint X c t prior_bytes) (\<lambda>_.
           and_then (evidence_decode X prior_bytes) (\<lambda>prior.
           and_then (validate_extension X E prior) (\<lambda>_.
           ok_or (checked_add_u64 (cp_checkpoint_sequence (sk_payload c)) 1) (EvidenceError ''checkpoint sequence exhausted'')))))) = Inr sequence"
    unfolding create_scope_checkpoint_def and_then_Inr reject_if_Inr by auto
  then show thesis using that by (cases previous) auto
qed

text \<open>C26: Whatever the producer signs verifies: a checkpoint of the audit log and one of a scope ledger are both accepted
  by \<open>verify_checkpoint\<close> under the producer's own enrollment and the export they were returned with.\<close>

theorem created_checkpoint_verifies:
  assumes "signs_soundly X" and "checkpoint_digest X c = Inr d"
    and "create_checkpoint X A key_file db t key previous build = Inr (c, export)
       \<or> create_scope_checkpoint X E t key scope_previous build = Inr (c, export) \<and> evidence_from_slice X export = Some E"
  shows "verify_checkpoint X c t export = Inr \<lparr>vc_checkpoint_sha256 = d, vc_export_sha256 = sha256 X export\<rparr>"
  using assms(3)
proof
  assume p: "create_checkpoint X A key_file db t key previous build = Inr (c, export)"
  obtain s n where c: "producer_verifying_key X t = Inr (signing_public X key)" "inspect_export X export = Inr s"
    "sign_checkpoint X 1 t key n s export previous build = Inr c" "length export \<le> MAX_EXPORT_BYTES"
    by (rule create_checkpoint_Inr[OF p]) blast
  have "export_range X 1 t export = Inr s" using c(2) by (simp add: export_range_def SCOPE_CHECKPOINT_VERSION_def)
  then show ?thesis by (rule signed_checkpoint_verifies[OF assms(1) c(3,1) _ c(4) assms(2)])
next
  assume a: "create_scope_checkpoint X E t key scope_previous build = Inr (c, export) \<and> evidence_from_slice X export = Some E"
  then have p: "create_scope_checkpoint X E t key scope_previous build = Inr (c, export)" ..
  obtain s n where c: "producer_verifying_key X t = Inr (signing_public X key)" "evidence_encode X E = Inr export" "scope_summary E t = Inr s"
    "sign_checkpoint X SCOPE_CHECKPOINT_VERSION t key n s export (map_option fst scope_previous) build = Inr c"
    by (rule create_scope_checkpoint_Inr[OF p]) blast
  have "length export \<le> MAX_EXPORT_BYTES" "evidence_decode X export = Inr E"
    using c(2) a by (auto simp: evidence_encode_def evidence_decode_def split: if_splits)
  then show ?thesis
    by (intro signed_checkpoint_verifies[OF assms(1) c(4,1) _ _ assms(2)]) (simp_all add: export_range_def c(3))
qed

subsection \<open>Streams of scope checkpoints\<close>

definition scope_follows :: "scope_record \<Rightarrow> scope_record \<Rightarrow> bool" where
  "scope_follows r r' =
     (sr_grant r' = sr_grant r \<and> sr_issued_at r' = sr_issued_at r \<and> (\<forall>at. sr_revoked_at r = Some at \<longrightarrow> sr_revoked_at r' = Some at))"

definition action_follows :: "action_record \<Rightarrow> action_record \<Rightarrow> bool" where
  "action_follows a a' =
     (ar_action a' = ar_action a \<and> ar_evidence a' = ar_evidence a \<and> ar_reserved_at a' = ar_reserved_at a
      \<and> (\<forall>at. ar_dispatch_claimed_at a = Some at \<longrightarrow> ar_dispatch_claimed_at a' = Some at)
      \<and> (ar_state a \<in> {ES_ApiAccepted, ES_Rejected, ES_Unknown} \<longrightarrow> a' = a))"

lemma scope_kept_Inr:
  "strictly_ascending (map sr_id ss) \<Longrightarrow> scope_kept ss r = Inr u \<longleftrightarrow> (\<exists>r'. by_key sr_id ss (sr_id r) = Some r' \<and> scope_follows r r')"
  by (auto simp: scope_kept_def find_record_by_key scope_follows_def is_some_and_iff)

lemma action_kept_Inr:
  "strictly_ascending (map ar_id as) \<Longrightarrow> action_kept as a = Inr u \<longleftrightarrow> (\<exists>a'. by_key ar_id as (ar_id a) = Some a' \<and> action_follows a a')"
  by (auto simp: action_kept_def find_action_by_key action_follows_def is_some_and_iff)

lemma follows_trans:
  "scope_follows r r' \<Longrightarrow> scope_follows r' r'' \<Longrightarrow> scope_follows r r''"
  "action_follows a a' \<Longrightarrow> action_follows a' a'' \<Longrightarrow> action_follows a a''"
  by (auto simp: scope_follows_def action_follows_def)

lemma validate_extension_Inr:
  "validate_extension X F E = Inr u \<longleftrightarrow> evidence_validate X F = Inr () \<and> evidence_validate X E = Inr ()
     \<and> se_owner F = se_owner E \<and> se_last_seen E \<le> se_last_seen F
     \<and> (\<exists>new. se_events F = se_events E @ new \<and> (\<forall>ev\<in>set new. \<forall>at. ev_observed_at ev = Some at \<longrightarrow> se_last_seen E \<le> at))
     \<and> (\<forall>r\<in>set (se_scopes E). \<exists>r'. by_key sr_id (se_scopes F) (sr_id r) = Some r' \<and> scope_follows r r')
     \<and> (\<forall>a\<in>set (se_actions E). \<exists>a'. by_key ar_id (se_actions F) (ar_id a) = Some a' \<and> action_follows a a')"
proof (cases "evidence_validate X F = Inr ()")
  case True
  then have s: "strictly_ascending (map sr_id (se_scopes F))" "strictly_ascending (map ar_id (se_actions F))"
    unfolding evidence_validate_iff by blast+
  have e: "(take (length (se_events E)) (se_events F) = se_events E
        \<and> \<not> list_ex (\<lambda>ev. is_some_and (ev_observed_at ev) (\<lambda>at. at < se_last_seen E)) (drop (length (se_events E)) (se_events F)))
      \<longleftrightarrow> (\<exists>new. se_events F = se_events E @ new \<and> (\<forall>ev\<in>set new. \<forall>at. ev_observed_at ev = Some at \<longrightarrow> se_last_seen E \<le> at))" (is "?l \<longleftrightarrow> ?r")
  proof
    assume l: ?l
    then have "se_events F = se_events E @ drop (length (se_events E)) (se_events F)" by (metis append_take_drop_id)
    then show ?r using l by (auto simp: list_ex_iff is_some_and_iff not_less)
  next
    assume ?r
    then show ?l by (auto simp: list_ex_iff is_some_and_iff not_less)
  qed
  show ?thesis
    unfolding validate_extension_def and_then_Inr reject_if_Inr try_each_Inr scope_kept_Inr[OF s(1)] action_kept_Inr[OF s(2)]
    using True e by auto
qed (simp add: validate_extension_def)

lemma validate_extension_trans:
  assumes "validate_extension X G F = Inr ()" "validate_extension X F E = Inr ()"
  shows "validate_extension X G E = Inr ()"
proof -
  note g = assms(1)[unfolded validate_extension_Inr] and f = assms(2)[unfolded validate_extension_Inr]
  have d: "distinct (map sr_id (se_scopes F))" "distinct (map ar_id (se_actions F))"
    using g strictly_ascending_sorted unfolding evidence_validate_iff by blast+
  have "\<exists>r''. by_key sr_id (se_scopes G) (sr_id r) = Some r'' \<and> scope_follows r r''" if r: "r \<in> set (se_scopes E)" for r
  proof -
    obtain r' where r': "by_key sr_id (se_scopes F) (sr_id r) = Some r'" "scope_follows r r'" using f r by blast
    then have m: "r' \<in> set (se_scopes F)" "sr_id r' = sr_id r" using by_key_Some[OF d(1)] by blast+
    then obtain r'' where "by_key sr_id (se_scopes G) (sr_id r) = Some r''" "scope_follows r' r''" using g by metis
    then show ?thesis using follows_trans(1)[OF r'(2)] by blast
  qed
  moreover have "\<exists>a''. by_key ar_id (se_actions G) (ar_id a) = Some a'' \<and> action_follows a a''" if a: "a \<in> set (se_actions E)" for a
  proof -
    obtain a' where a': "by_key ar_id (se_actions F) (ar_id a) = Some a'" "action_follows a a'" using f a by blast
    then have m: "a' \<in> set (se_actions F)" "ar_id a' = ar_id a" using by_key_Some[OF d(2)] by blast+
    then obtain a'' where "by_key ar_id (se_actions G) (ar_id a) = Some a''" "action_follows a' a''" using g by metis
    then show ?thesis using follows_trans(2)[OF a'(2)] by blast
  qed
  moreover have "\<exists>new. se_events G = se_events E @ new \<and> (\<forall>ev\<in>set new. \<forall>at. ev_observed_at ev = Some at \<longrightarrow> se_last_seen E \<le> at)"
  proof -
    obtain n1 n2 where "se_events G = se_events F @ n1" "\<forall>ev\<in>set n1. \<forall>at. ev_observed_at ev = Some at \<longrightarrow> se_last_seen F \<le> at"
      "se_events F = se_events E @ n2" "\<forall>ev\<in>set n2. \<forall>at. ev_observed_at ev = Some at \<longrightarrow> se_last_seen E \<le> at" using f g by blast
    moreover have "se_last_seen E \<le> se_last_seen F" using f by blast
    ultimately show ?thesis by (intro exI[of _ "n2 @ n1"]) fastforce
  qed
  moreover have "se_last_seen E \<le> se_last_seen G" using f g by (meson order_trans)
  ultimately show ?thesis unfolding validate_extension_Inr using f g by simp
qed

text \<open>A stream, newest first: each checkpoint is created from the checkpoint and the export before it.\<close>

inductive scope_stream ::
  "'z cpext_scheme \<Rightarrow> producer_trust \<Rightarrow> string \<Rightarrow> (signed_checkpoint \<times> string \<times> scope_evidence) list \<Rightarrow> bool"
  for X t key where
  stream_empty: "scope_stream X t key []"
| stream_next: "scope_stream X t key cs \<Longrightarrow>
     create_scope_checkpoint X E t key (case cs of [] \<Rightarrow> None | (c, export, _) # _ \<Rightarrow> Some (c, export)) build = Inr (c', export') \<Longrightarrow>
     evidence_from_slice X export' = Some E \<Longrightarrow> scope_stream X t key ((c', export', E) # cs)"

inductive_cases stream_consE: "scope_stream X t key (e # cs)"

lemma stream_step:
  assumes "scope_stream X t key ((c', export', E') # (c, export, E) # cs)"
  shows "validate_extension X E' E = Inr ()" "unat (cp_checkpoint_sequence (sk_payload c')) = unat (cp_checkpoint_sequence (sk_payload c)) + 1"
    "\<exists>d. checkpoint_digest X c = Inr d \<and> cp_previous_checkpoint_sha256 (sk_payload c') = Some d"
proof -
  obtain build where b: "create_scope_checkpoint X E' t key (Some (c, export)) build = Inr (c', export')"
    and p: "scope_stream X t key ((c, export, E) # cs)" using assms by (auto elim: stream_consE)
  have s: "evidence_from_slice X export = Some E" using p by (auto elim: stream_consE)
  obtain sm n where c: "sign_checkpoint X SCOPE_CHECKPOINT_VERSION t key n sm export' (Some c) build = Inr c'"
    and q: "\<exists>prior v. verify_checkpoint X c t export = Inr v \<and> evidence_decode X export = Inr prior
       \<and> validate_extension X E' prior = Inr () \<and> cp_schema_version (sk_payload c) = SCOPE_CHECKPOINT_VERSION
       \<and> checked_add_u64 (cp_checkpoint_sequence (sk_payload c)) 1 = Some n"
    by (rule create_scope_checkpoint_Inr[OF b]) auto
  from q obtain prior where d: "evidence_decode X export = Inr prior" "validate_extension X E' prior = Inr ()"
    "checked_add_u64 (cp_checkpoint_sequence (sk_payload c)) 1 = Some n" by blast
  have "prior = E" using d(1) s by (auto simp: evidence_decode_def split: if_splits)
  then show "validate_extension X E' E = Inr ()" using d(2) by simp
  have n: "cp_checkpoint_sequence (sk_payload c') = n" and l: "\<exists>d. checkpoint_digest X c = Inr d \<and> cp_previous_checkpoint_sha256 (sk_payload c') = Some d"
    by (rule sign_checkpoint_Inr[OF c], simp)+
  have "unat (cp_checkpoint_sequence (sk_payload c)) + 1 < 2 ^ 64" "n = cp_checkpoint_sequence (sk_payload c) + 1"
    using d(3) by (auto simp: checked_add_u64_def split: if_splits)
  then show "unat (cp_checkpoint_sequence (sk_payload c')) = unat (cp_checkpoint_sequence (sk_payload c)) + 1"
    unfolding n by (simp add: unat_word_ariths)
  show "\<exists>d. checkpoint_digest X c = Inr d \<and> cp_previous_checkpoint_sha256 (sk_payload c') = Some d" by (rule l)
qed

lemma stream_tl: "scope_stream X t key (e # cs) \<Longrightarrow> scope_stream X t key cs"
  by (auto elim: stream_consE)

lemma stream_numbers: "scope_stream X t key ((c, export, E) # cs) \<Longrightarrow> unat (cp_checkpoint_sequence (sk_payload c)) = Suc (length cs)"
proof (induction cs arbitrary: c export E)
  case Nil
  then obtain build where b: "create_scope_checkpoint X E t key None build = Inr (c, export)" by (auto elim: stream_consE)
  obtain s n where "sign_checkpoint X SCOPE_CHECKPOINT_VERSION t key n s export None build = Inr c" "n = 1"
    by (rule create_scope_checkpoint_Inr[OF b]) auto
  then show ?case by (auto elim: sign_checkpoint_Inr)
next
  case (Cons e cs)
  obtain c1 x1 E1 where e: "e = (c1, x1, E1)" by (cases e)
  then show ?case using Cons.IH[OF stream_tl[OF Cons.prems, unfolded e]] stream_step(2)[OF Cons.prems[unfolded e]] by simp
qed

lemma stream_extends: "scope_stream X t key ((c', x', E') # cs) \<Longrightarrow> (c, x, E) \<in> set cs \<Longrightarrow> validate_extension X E' E = Inr ()"
proof (induction cs arbitrary: c' x' E')
  case (Cons e cs)
  obtain c1 x1 E1 where e: "e = (c1, x1, E1)" by (cases e)
  have one: "validate_extension X E' E1 = Inr ()" using stream_step(1)[OF Cons.prems(1)[unfolded e]] .
  show ?case
  proof (cases "(c, x, E) = e")
    case True
    then show ?thesis using one e by simp
  next
    case False
    then have "validate_extension X E1 E = Inr ()" using Cons.IH[OF stream_tl[OF Cons.prems(1), unfolded e]] Cons.prems(2) by simp
    then show ?thesis by (rule validate_extension_trans[OF one])
  qed
qed simp

text \<open>C25: In a stream of scope checkpoints the numbers count up from one, each checkpoint names the digest of its
  predecessor, and the evidence of every checkpoint extends the evidence of every earlier one, not only of the one it was
  checked against: no grant, charge, outcome or event that was ever certified is missing or altered later.\<close>

theorem checkpoint_stream_sound:
  assumes "scope_stream X t key (newer @ (c', x', E') # between @ (c, x, E) # older)"
  shows "validate_extension X E' E = Inr ()
    \<and> unat (cp_checkpoint_sequence (sk_payload c)) = Suc (length older)
    \<and> unat (cp_checkpoint_sequence (sk_payload c')) = length older + length between + 2
    \<and> (between = [] \<longrightarrow> (\<exists>d. checkpoint_digest X c = Inr d \<and> cp_previous_checkpoint_sha256 (sk_payload c') = Some d))"
proof -
  have drop: "scope_stream X t key ys" if "scope_stream X t key (xs @ ys)" for xs ys
    using that by (induction xs) (auto dest: stream_tl)
  have a: "scope_stream X t key ((c', x', E') # between @ (c, x, E) # older)" by (rule drop[OF assms])
  have b: "scope_stream X t key ((c, x, E) # older)" using drop[of "(c', x', E') # between"] a by simp
  show ?thesis using stream_extends[OF a] stream_numbers[OF a] stream_numbers[OF b] stream_step(3) a by auto
qed

subsection \<open>The count of a range\<close>

fun gaps_follow :: "u64 \<Rightarrow> u64 \<Rightarrow> u64 option \<Rightarrow> coverage_gap list \<Rightarrow> bool" where
  "gaps_follow lo hi previous [] = True"
| "gaps_follow lo hi previous (g # gs) =
     (lo < cg_first_sequence g \<and> cg_first_sequence g \<le> cg_last_sequence g \<and> cg_last_sequence g < hi
      \<and> (\<forall>p. previous = Some p \<longrightarrow> p < cg_first_sequence g) \<and> gaps_follow lo hi (Some (cg_last_sequence g)) gs)"

definition gap_size :: "coverage_gap \<Rightarrow> nat" where
  "gap_size g = unat (cg_last_sequence g) - unat (cg_first_sequence g) + 1"

definition missing_numbers :: "coverage_gap list \<Rightarrow> nat set" where
  "missing_numbers gs = (\<Union>g\<in>set gs. {unat (cg_first_sequence g)..unat (cg_last_sequence g)})"

lemma unat_gap_size:
  assumes "cg_first_sequence g \<le> cg_last_sequence g" "cg_last_sequence g < hi"
  shows "unat (cg_last_sequence g - cg_first_sequence g + 1) = gap_size g"
proof -
  have "unat hi < 2 ^ LENGTH(64)" by (rule unsigned_less)
  moreover have "unat (cg_last_sequence g - cg_first_sequence g) = unat (cg_last_sequence g) - unat (cg_first_sequence g)"
    using assms(1) by (rule unat_sub)
  ultimately show ?thesis using assms by (simp add: gap_size_def unat_word_ariths word_less_nat_alt word_le_nat_alt)
qed

lemma sum_gaps_Inr:
  "sum_gaps lo hi m previous gs = Inr r \<longleftrightarrow>
     gaps_follow lo hi previous gs \<and> unat m + sum_list (map gap_size gs) < 2 ^ 64 \<and> unat r = unat m + sum_list (map gap_size gs)"
proof (induction gs arbitrary: m previous)
  case Nil
  have "unat m < 2 ^ LENGTH(64)" by (rule unsigned_less)
  then show ?case by (auto simp: word_unat_eq_iff)
next
  case (Cons g gs)
  let ?n = "cg_last_sequence g - cg_first_sequence g + 1"
  have s: "checked_add_u64 m ?n = Some k \<longleftrightarrow> unat m + gap_size g < 2 ^ 64 \<and> unat k = unat m + gap_size g"
    if "cg_first_sequence g \<le> cg_last_sequence g" "cg_last_sequence g < hi" for k
    using unat_gap_size[OF that] by (auto simp: checked_add_u64_def word_unat_eq_iff unat_word_ariths)
  have "sum_gaps lo hi m previous (g # gs) = Inr r \<longleftrightarrow>
      lo < cg_first_sequence g \<and> cg_first_sequence g \<le> cg_last_sequence g \<and> cg_last_sequence g < hi
      \<and> (\<forall>p. previous = Some p \<longrightarrow> p < cg_first_sequence g)
      \<and> (\<exists>k. checked_add_u64 m ?n = Some k \<and> sum_gaps lo hi k (Some (cg_last_sequence g)) gs = Inr r)"
    by (auto simp: is_some_and_iff not_le not_less)
  also have "\<dots> \<longleftrightarrow> gaps_follow lo hi previous (g # gs) \<and> unat m + sum_list (map gap_size (g # gs)) < 2 ^ 64
      \<and> unat r = unat m + sum_list (map gap_size (g # gs))" (is "?l \<longleftrightarrow> ?r")
  proof
    assume ?l
    then show ?r using s unfolding Cons.IH by auto
  next
    assume r: ?r
    then have "unat (of_nat (unat m + gap_size g) :: u64) = unat m + gap_size g" by (simp only: unat_of_nat) simp
    then show ?l using r s[of "of_nat (unat m + gap_size g)"] unfolding Cons.IH
      by (intro conjI exI[of _ "of_nat (unat m + gap_size g)"]) auto
  qed
  finally show ?case .
qed

lemma gaps_after: "gaps_follow lo hi (Some p) gs \<Longrightarrow> n \<in> missing_numbers gs \<Longrightarrow> unat p < n"
proof (induction gs arbitrary: p)
  case (Cons g gs)
  have "unat (cg_last_sequence g) < n" if "n \<in> missing_numbers gs" using Cons that by simp
  then show ?case using Cons.prems by (fastforce simp: missing_numbers_def word_less_nat_alt word_le_nat_alt)
qed (simp add: missing_numbers_def)

lemma missing_card: "gaps_follow lo hi previous gs \<Longrightarrow> card (missing_numbers gs) = sum_list (map gap_size gs)"
proof (induction gs arbitrary: previous)
  case (Cons g gs)
  let ?g = "{unat (cg_first_sequence g)..unat (cg_last_sequence g)}"
  have u: "missing_numbers (g # gs) = ?g \<union> missing_numbers gs" by (simp add: missing_numbers_def)
  have "?g \<inter> missing_numbers gs = {}" using gaps_after[of lo hi "cg_last_sequence g" gs] Cons.prems by fastforce
  moreover have "finite (missing_numbers gs)" by (simp add: missing_numbers_def)
  ultimately have "card (missing_numbers (g # gs)) = card ?g + card (missing_numbers gs)" unfolding u by (intro card_Un_disjoint) simp_all
  moreover have "card ?g = gap_size g" using Cons.prems by (simp add: gap_size_def word_le_nat_alt Suc_diff_le)
  ultimately show ?case using Cons.IH[of "Some (cg_last_sequence g)"] Cons.prems by simp
qed (simp add: missing_numbers_def)

lemma missing_inside: "gaps_follow lo hi previous gs \<Longrightarrow> missing_numbers gs \<subseteq> {unat lo<..<unat hi}"
proof (induction gs arbitrary: previous)
  case (Cons g gs)
  have "missing_numbers gs \<subseteq> {unat lo<..<unat hi}" using Cons.IH[of "Some (cg_last_sequence g)"] Cons.prems by simp
  then show ?case using Cons.prems by (auto simp: missing_numbers_def word_less_nat_alt word_le_nat_alt)
qed (simp add: missing_numbers_def)

lemma declared_card:
  assumes f: "cp_first_sequence p = Some lo" "cp_last_sequence p = Some hi" and le: "lo \<le> hi" and g: "gaps_follow lo hi None (cp_gaps p)"
  shows "card {n. declared p n} + sum_list (map gap_size (cp_gaps p)) = unat hi - unat lo + 1" "0 < card {n. declared p n}"
proof -
  have gap: "in_gap g n \<longleftrightarrow> unat n \<in> {unat (cg_first_sequence g)..unat (cg_last_sequence g)}" for g n
    by (simp add: in_gap_def word_le_nat_alt)
  have d: "declared p n \<longleftrightarrow> unat n \<in> {unat lo..unat hi} - missing_numbers (cp_gaps p)" for n
    using f by (auto simp: declared_def missing_numbers_def gap word_le_nat_alt)
  have "k \<in> unat ` {n. declared p n}" if k: "k \<in> {unat lo..unat hi} - missing_numbers (cp_gaps p)" for k
  proof -
    have "unat hi < 2 ^ LENGTH(64)" by (rule unsigned_less)
    then have "unat (of_nat k :: u64) = k" using k by (simp add: unat_of_nat)
    then show ?thesis using d[of "of_nat k"] k by (intro image_eqI[of _ _ "of_nat k"]) auto
  qed
  then have im: "unat ` {n. declared p n} = {unat lo..unat hi} - missing_numbers (cp_gaps p)" using d by auto
  have "card {n. declared p n} = card (unat ` {n. declared p n})"
    by (rule sym, rule card_image, rule inj_onI) (simp add: word_unat_eq_iff)
  also have "\<dots> = card {unat lo..unat hi} - card (missing_numbers (cp_gaps p))" unfolding im
    using missing_inside[OF g] by (intro card_Diff_subset) (auto simp: missing_numbers_def)
  finally have c: "card {n. declared p n} = (Suc (unat hi) - unat lo) - sum_list (map gap_size (cp_gaps p))"
    using missing_card[OF g] by simp
  have "card (missing_numbers (cp_gaps p)) \<le> card {unat lo<..<unat hi}"
    by (rule card_mono[OF _ missing_inside[OF g]]) simp
  then have "sum_list (map gap_size (cp_gaps p)) \<le> unat hi - unat lo" using missing_card[OF g] by simp
  then show "card {n. declared p n} + sum_list (map gap_size (cp_gaps p)) = unat hi - unat lo + 1" "0 < card {n. declared p n}"
    using c le by (simp_all add: word_le_nat_alt Suc_diff_le)
qed

definition range_shape :: "checkpoint \<Rightarrow> bool" where
  "range_shape p =
     (case (cp_first_sequence p, cp_last_sequence p) of
        (None, None) \<Rightarrow> cp_coverage_start p = None \<and> cp_gaps p = []
      | (Some lo, Some hi) \<Rightarrow> lo \<le> hi \<and> unat hi - unat lo < 2 ^ 64 - 1 \<and> cp_coverage_start p = Some lo \<and> gaps_follow lo hi None (cp_gaps p)
      | _ \<Rightarrow> False)"

text \<open>C28: The range of a checkpoint is accepted exactly when its gaps are non-empty, in order, disjoint and strictly inside
  the range and its record count is the number of sequence numbers that lie in the range and in no gap.  Only a range of
  all 64-bit numbers is refused by the checked arithmetic whatever its gaps are.\<close>

theorem checkpoint_range_exact:
  "checkpoint_range_ok p = Inr () \<longleftrightarrow> range_shape p \<and> unat (cp_record_count p) = card {n. declared p n}"
proof (cases "cp_first_sequence p"; cases "cp_last_sequence p")
  assume "cp_first_sequence p = None" "cp_last_sequence p = None"
  then show ?thesis by (auto simp: checkpoint_range_ok_def range_shape_def declared_def word_unat_eq_iff)
next
  fix lo hi assume f: "cp_first_sequence p = Some lo" "cp_last_sequence p = Some hi"
  show ?thesis
  proof (cases "lo \<le> hi \<and> cp_coverage_start p = Some lo \<and> gaps_follow lo hi None (cp_gaps p)")
    case True
    note d = declared_card[OF f] True
    have lt: "unat hi < 2 ^ LENGTH(64)" by (rule unsigned_less)
    let ?m = "sum_list (map gap_size (cp_gaps p))"
    have m: "?m \<le> unat hi - unat lo" using d(1,2) True by linarith
    then have u: "unat (of_nat ?m :: u64) = ?m" using lt by (simp add: unat_of_nat)
    have s: "sum_gaps lo hi 0 None (cp_gaps p) = Inr (of_nat ?m)"
      unfolding sum_gaps_Inr u using True m lt by simp
    have sub: "checked_sub_u64 hi lo = Some (hi - lo)" "unat (hi - lo) = unat hi - unat lo"
      using True by (auto simp: checked_sub_u64_def unat_sub)
    define k where "k = card {n. declared p n}"
    note d = d[folded k_def]
    have ok: "checkpoint_range_ok p = Inr () \<longleftrightarrow> cp_record_count p > 0
        \<and> Option.bind (checked_add_u64 (hi - lo) 1) (\<lambda>v. checked_sub_u64 v (of_nat ?m)) = Some (cp_record_count p)"
      using True f s sub(1) by (auto simp: checkpoint_range_ok_def)
    have shape: "range_shape p \<longleftrightarrow> unat hi - unat lo < 2 ^ 64 - 1" using True f by (simp add: range_shape_def)
    show ?thesis
    proof (cases "unat hi - unat lo < 2 ^ 64 - 1")
      case fit: True
      have add: "checked_add_u64 (hi - lo) 1 = Some (hi - lo + 1)" "unat (hi - lo + 1) = unat hi - unat lo + 1"
        using fit sub(2) by (simp_all add: checked_add_u64_def unat_word_ariths)
      define w where "w = hi - lo + 1 - of_nat ?m"
      have le: "of_nat ?m \<le> hi - lo + 1" using m add(2) u by (simp add: word_le_nat_alt)
      have "checked_sub_u64 (hi - lo + 1) (of_nat ?m) = Some w" using le by (simp add: checked_sub_u64_def w_def)
      moreover have "unat w = k" using d(1) True add(2) u le unfolding w_def by (simp add: unat_sub)
      moreover have "0 < k" using d(2) True by blast
      ultimately show ?thesis unfolding ok shape k_def[symmetric] add(1)
        using fit by (auto simp: word_unat_eq_iff word_less_nat_alt)
    next
      case False
      then have "checked_add_u64 (hi - lo) 1 = None" using sub(2) by (simp add: checked_add_u64_def)
      then show ?thesis unfolding ok shape using False by simp
    qed
  next
    case False
    then show ?thesis using f sum_gaps_Inr[of lo hi 0 None "cp_gaps p"] by (auto simp: checkpoint_range_ok_def range_shape_def)
  qed
qed (simp_all add: checkpoint_range_ok_def range_shape_def)

subsection \<open>Retention receipts\<close>

lemma retention_receipt_verifies:
  assumes s: "signs_soundly X" and r: "sign_retention_receipt X p key = Inr r"
    and t: "custodian_verifying_key X t = Inr (signing_public X key)" and k: "ct_key_id t \<noteq> cp_key_id (sk_payload c)"
    and c: "checkpoint_digest X c = Inr (rt_checkpoint_sha256 p)" "rt_scope p = cp_scope (sk_payload c)"
      "rt_export_sha256 p = cp_export_sha256 (sk_payload c)" "rt_first_sequence p = cp_first_sequence (sk_payload c)"
      "rt_last_sequence p = cp_last_sequence (sk_payload c)" "rt_record_count p = cp_record_count (sk_payload c)"
    and now: "rt_received_at_unix_ms p \<le> now" "now < rt_retain_until_unix_ms p"
  shows "verify_retention_receipt X r t c now = Inr ()"
proof -
  obtain json where j: "validate_retention p = Inr ()" "rt_custodian_key_id p = sha256 X (signing_public X key)"
      "retention_to_vec X p = Some json" "length json \<le> MAX_DOCUMENT_BYTES"
      "r = \<lparr>sn_payload = p, sn_signature = hex_encode (ed25519_sign X key (retention_domain @ json))\<rparr>"
    using r by (auto simp: sign_retention_receipt_def evidence_key_id_def)
  have u: "unhex 64 (hex_encode (ed25519_sign X key m)) = Inr (ed25519_sign X key m)" for m
    using s by (intro unhex_encode) (simp add: signs_soundly_def)
  have "sha256 X (signing_public X key) = ct_key_id t" using t by (simp add: custodian_verifying_key_def)
  then show ?thesis using j t k c now u s
    by (simp add: verify_retention_receipt_def signs_soundly_def Let_def)
qed

subsection \<open>Concrete checkpoints\<close>

definition demo_export0 :: scope_evidence where
  "demo_export0 = \<lparr>se_schema_version = 1, se_owner = demo_own, se_last_seen = 0, se_scopes = [], se_actions = [], se_events = []\<rparr>"

definition demo_export1 :: scope_evidence where "demo_export1 = demo_export0\<lparr>se_last_seen := 5\<rparr>"

text \<open>Two exports are told apart by their encoding; everything else encodes to the empty string.\<close>

definition demo_cpx :: cpext where
  "demo_cpx = \<lparr>uuid_parse_str = (\<lambda>_. Some 1), uuid_to_string = (\<lambda>_. []), sha256_bytes = (\<lambda>_. replicate 32 (CHR 0x00)),
     regex_is_match = (\<lambda>_ _. False), glob_match = (\<lambda>_ _. False), verifying_key_ok = (\<lambda>_. True),
     ed25519_verify = (\<lambda>_ _ _. True), ed25519_verify_strict = (\<lambda>_ _ _. True),
     ed25519_sign = (\<lambda>_ _. replicate 64 (CHR 0x00)), b64url_encode = (\<lambda>_. []), b64url_decode = (\<lambda>_. None),
     grant_to_vec = (\<lambda>_. Some []), action_to_vec = (\<lambda>_. Some []), binding_to_vec = (\<lambda>_. Some []),
     evidence_to_vec = (\<lambda>E. Some (if se_last_seen E = 0 then ''0'' else ''1'')),
     evidence_from_slice = (\<lambda>b. if b = ''0'' then Some demo_export0 else if b = ''1'' then Some demo_export1 else None),
     scope_row_len = (\<lambda>_. 0), action_row_len = (\<lambda>_. 0), event_row_len = (\<lambda>_. 0),
     review_evidence_to_vec = (\<lambda>_. Some []), grant_to_value = (\<lambda>_. None), value_to_vec = (\<lambda>_. None), display_to_pretty = (\<lambda>_. None),
     document_to_vec = (\<lambda>_. Some []), decided_to_vec = (\<lambda>_. Some []), signed_review_to_vec = (\<lambda>_. Some []),
     receipt_body_to_vec = (\<lambda>_. Some []), receipt_to_vec = (\<lambda>_. Some []), signing_public = (\<lambda>_. replicate 32 (CHR 0x00)),
     export_record_to_vec = (\<lambda>_. Some []), export_record_from_slice = (\<lambda>_. None),
     checkpoint_to_vec = (\<lambda>_. Some []), signed_checkpoint_to_vec = (\<lambda>_. Some []), retention_to_vec = (\<lambda>_. Some []),
     signed_retention_to_vec = (\<lambda>_. Some [])\<rparr>"

definition demo_trust :: producer_trust where
  "demo_trust = \<lparr>pt_schema_version = 1,
     pt_scope = \<lparr>sc_tenant_id = ''t'', sc_broker_id = ''b'', sc_stream_id = ''s'', sc_generation = ''1''\<rparr>,
     pt_key_id = zeros, pt_public_key = zeros\<rparr>"

definition demo_checkpoint :: "u64 \<Rightarrow> string option \<Rightarrow> signed_checkpoint" where
  "demo_checkpoint n prev = \<lparr>sk_payload = \<lparr>cp_schema_version = 2, cp_scope = pt_scope demo_trust, cp_key_id = zeros,
       cp_checkpoint_sequence = n, cp_first_sequence = None, cp_last_sequence = None, cp_record_count = 0,
       cp_export_sha256 = zeros, cp_previous_checkpoint_sha256 = prev, cp_build_identity = ''x'',
       cp_coverage_start = None, cp_gaps = []\<rparr>,
     sk_signature = zeros @ zeros\<rparr>"

lemma demo_cpx_sha [simp]: "sha256 demo_cpx v = zeros"
  by (simp add: sha256_def demo_cpx_def flip: zeros_hex(1))

lemma demo_unhex [simp]: "unhex 32 zeros = Inr (replicate 32 (CHR 0x00))" "unhex 64 (zeros @ zeros) = Inr (replicate 64 (CHR 0x00))"
  unfolding zeros_hex(2) by (simp_all add: zeros_hex(1) unhex_encode)

lemma demo_signs: "signs_soundly demo_cpx"
  by (simp add: signs_soundly_def demo_cpx_def)

lemma demo_exports_valid [simp]: "evidence_validate demo_cpx demo_export0 = Inr ()" "evidence_validate demo_cpx demo_export1 = Inr ()"
  by (simp_all add: evidence_validate_def demo_export0_def demo_export1_def verify_events_def)

lemma demo_extension: "validate_extension demo_cpx demo_export1 demo_export0 = Inr ()"
  by (simp add: validate_extension_def) (simp add: demo_export0_def demo_export1_def)

lemma demo_created:
  "create_scope_checkpoint demo_cpx demo_export0 demo_trust [] None ''x'' = Inr (demo_checkpoint 1 None, ''0'')"
  "verify_checkpoint demo_cpx (demo_checkpoint 1 None) demo_trust ''0''
     = Inr \<lparr>vc_checkpoint_sha256 = zeros, vc_export_sha256 = zeros\<rparr>"
  "create_scope_checkpoint demo_cpx demo_export1 demo_trust [] (Some (demo_checkpoint 1 None, ''0'')) ''x''
     = Inr (demo_checkpoint 2 (Some zeros), ''1'')"
proof -
  have k: "producer_verifying_key demo_cpx demo_trust = Inr (signing_public demo_cpx [])"
    by (simp add: producer_verifying_key_def trusted_key_def demo_trust_def stream_validate_def evidence_label_def ascii_defs
        evidence_key_id_def del: trusted_key_Inr) (simp add: demo_cpx_def)
  have t: "evidence_to_vec demo_cpx demo_export0 = Some ''0''" "evidence_to_vec demo_cpx demo_export1 = Some ''1''"
    "evidence_from_slice demo_cpx ''0'' = Some demo_export0" "signed_checkpoint_to_vec demo_cpx w = Some []" for w
    by (simp_all add: demo_cpx_def demo_export0_def demo_export1_def)
  have e: "evidence_encode demo_cpx demo_export0 = Inr ''0''" "evidence_encode demo_cpx demo_export1 = Inr ''1''"
    using t by (simp_all add: evidence_encode_def MAX_EXPORT_BYTES_def del: and_then_Inr)
  have s: "scope_summary demo_export0 demo_trust = Inr empty_summary" "scope_summary demo_export1 demo_trust = Inr empty_summary"
    by (simp_all add: scope_summary_def demo_export0_def demo_export1_def demo_trust_def demo_own_def empty_summary_def)
  have f: "evidence_decode demo_cpx ''0'' = Inr demo_export0"
    using t by (simp add: evidence_decode_def MAX_EXPORT_BYTES_def del: and_then_Inr)
  have d: "checkpoint_digest demo_cpx c = Inr zeros" for c
    using t by (simp add: checkpoint_digest_def canonical_document_def MAX_DOCUMENT_BYTES_def del: and_then_Inr)
  have c: "sign_checkpoint demo_cpx SCOPE_CHECKPOINT_VERSION demo_trust [] n empty_summary export prev ''x'' = Inr (demo_checkpoint n (map_option (\<lambda>_. zeros) prev))"
    if "n \<noteq> 0" "(n = 1) = (prev = None)" for n export prev
  proof -
    have v: "validate_checkpoint (sk_payload (demo_checkpoint n (map_option (\<lambda>_. zeros) prev))) = Inr ()"
      using that by (cases prev) (simp_all add: validate_checkpoint_def demo_checkpoint_def demo_trust_def stream_validate_def evidence_label_def
          ascii_defs checkpoint_range_ok_def SCOPE_CHECKPOINT_VERSION_def)
    have m: "document_message dom (checkpoint_to_vec demo_cpx p) = Inr dom" for dom p
      by (simp add: demo_cpx_def)
    have g: "hex_encode (ed25519_sign demo_cpx [] m) = zeros @ zeros" for m by (simp add: demo_cpx_def flip: zeros_hex(2))
    show ?thesis using v
      by (cases prev) (simp_all add: sign_checkpoint_def d m g demo_checkpoint_def empty_summary_def demo_trust_def SCOPE_CHECKPOINT_VERSION_def
          Let_def del: and_then_Inr document_message_Inr)
  qed
  show one: "create_scope_checkpoint demo_cpx demo_export0 demo_trust [] None ''x'' = Inr (demo_checkpoint 1 None, ''0'')"
    using c[of 1 None] by (simp add: create_scope_checkpoint_def k e s del: and_then_Inr)
  show v: "verify_checkpoint demo_cpx (demo_checkpoint 1 None) demo_trust ''0''
     = Inr \<lparr>vc_checkpoint_sha256 = zeros, vc_export_sha256 = zeros\<rparr>"
    using signed_checkpoint_verifies[OF demo_signs c[of 1 None "''0''"] k _ _ d] f s(1)
    by (simp add: export_range_def MAX_EXPORT_BYTES_def del: and_then_Inr)
  show "create_scope_checkpoint demo_cpx demo_export1 demo_trust [] (Some (demo_checkpoint 1 None, ''0'')) ''x''
     = Inr (demo_checkpoint 2 (Some zeros), ''1'')"
    using c[of 2 "Some (demo_checkpoint 1 None)"]
    by (simp add: create_scope_checkpoint_def k e s v f demo_extension checked_add_u64_def del: and_then_Inr)
      (simp add: demo_checkpoint_def SCOPE_CHECKPOINT_VERSION_def)
qed

theorem verified_checkpoint_describes_export_witness:
  "producer_signed demo_cpx demo_trust (demo_checkpoint 1 None)
     \<and> (\<exists>E. evidence_from_slice demo_cpx ''0'' = Some E \<and> ao_tenant_id (se_owner E) = ''t'')"
  using verified_checkpoint_describes_export[OF demo_created(2)]
  by (auto simp: demo_checkpoint_def SCOPE_CHECKPOINT_VERSION_def demo_trust_def)

theorem created_checkpoint_verifies_witness:
  "verify_checkpoint demo_cpx (demo_checkpoint 2 (Some zeros)) demo_trust ''1''
     = Inr \<lparr>vc_checkpoint_sha256 = zeros, vc_export_sha256 = zeros\<rparr>"
proof -
  have "checkpoint_digest demo_cpx (demo_checkpoint 2 (Some zeros)) = Inr zeros"
    by (simp add: checkpoint_digest_def canonical_document_def MAX_DOCUMENT_BYTES_def del: and_then_Inr) (simp add: demo_cpx_def)
  moreover have "evidence_from_slice demo_cpx ''1'' = Some demo_export1" by (simp add: demo_cpx_def)
  ultimately show ?thesis
    using created_checkpoint_verifies[OF demo_signs _ disjI2, OF _ conjI, OF _ demo_created(3), of zeros] by simp
qed

theorem checkpoint_stream_sound_witness:
  "scope_stream demo_cpx demo_trust [] [(demo_checkpoint 2 (Some zeros), ''1'', demo_export1), (demo_checkpoint 1 None, ''0'', demo_export0)]
     \<and> validate_extension demo_cpx demo_export1 demo_export0 = Inr ()
     \<and> cp_previous_checkpoint_sha256 (sk_payload (demo_checkpoint 2 (Some zeros))) = Some zeros"
proof -
  have "evidence_from_slice demo_cpx ''0'' = Some demo_export0" "evidence_from_slice demo_cpx ''1'' = Some demo_export1"
    by (simp_all add: demo_cpx_def)
  then have s: "scope_stream demo_cpx demo_trust [] [(demo_checkpoint 2 (Some zeros), ''1'', demo_export1), (demo_checkpoint 1 None, ''0'', demo_export0)]"
    using demo_created(1,3) by (auto intro!: scope_stream.intros)
  then show ?thesis using checkpoint_stream_sound[of demo_cpx demo_trust "[]" "[]" _ _ _ "[]" _ _ _ "[]"]
    by (simp add: demo_checkpoint_def)
qed

end
