(* ===== verification/Spec2Isabelle.thy ===== *)
theory Spec2Isabelle
  imports Manifest_Properties Task_Model Custody Approval_Binding Audit_Properties Checkpoint_Properties
begin

text \<open>
  A verification development of the broker \<open>opaque\<close>, which lets agents use secrets without seeing them: every
  operation goes through one enforcement funnel (identity, preparation, policy, approval, audit, dispatch), bounded
  tasks are charged slot by slot to a durable ledger, and every decision is recorded in a tamper-evident log.

  \<^bold>\<open>How the program is modelled.\<close>  Rust \<open>&str\<close> and \<open>String\<close> are byte strings, \<open>Result\<close> is a sum with
  the error on the left, machine integers are words (or \<open>int\<close> where the code stays within the range), \<open>HashMap\<close> is
  an association list with distinct keys, instants and durations are nanoseconds.  Code outside the repository - SHA-256,
  HMAC, Ed25519, base64, \<open>serde_json\<close>, the regular-expression and glob engines, UUIDs - is a parameter: a record
  \<open>ext\<close> with extensions per component, passed to every definition that calls it.  A theorem that needs something of
  such code says so as a hypothesis.  Asynchronous code is cut at its suspension points: each synchronous stretch is one
  definition, and a step relation interleaves them.

  \<^bold>\<open>Shared theories.\<close>  \<open>Prelude\<close> (results, byte strings, UTF-8, decimals, lists and multisets) and \<open>External\<close>
  (the parameters, hexadecimal digests, JSON values).

  \<^bold>\<open>Bounded tasks\<close> (\<open>src/crates/opaque-core/src/task.rs\<close>, \<open>release.rs\<close>, \<open>inference.rs\<close>, \<open>ssh.rs\<close>,
  \<open>tenant.rs\<close>; \<open>src/crates/opaque-bounded-work/src/task_store.rs\<close>).
  \<^item> \<open>Tenant\<close>, \<open>Net_Addr\<close>, \<open>Secret_Refs\<close>, \<open>Release\<close>, \<open>Inference\<close>, \<open>Ssh\<close>, \<open>Manifest\<close>: manifests, actions,
    receipts and outcomes with their validation.  \<open>Manifest_Properties\<close>: the manifest digest is canonical, pinned
    references parse exactly, accepted outcomes carry evidence bound to their action.
  \<^item> \<open>Task_Store\<close>: every operation of the ledger and its transaction; \<open>Task_Order\<close>, \<open>Task_Verified\<close>: the
    orders along which records move and the integrity every operation keeps; \<open>Ledger\<close> is the contract of a charged
    ledger as a locale, \<open>Task_Ledger\<close> interprets it on the store and proves that slots are granted at most once,
    dispatch needs live authority, records only advance, restarts refund nothing and owners are isolated.
  \<^item> \<open>Task_Model\<close>: the abstract authority model of \<open>opaque-bounded-work/tests/task_state_model.rs\<close>, for any number of slots
    and instants, and the ledger as its implementation: calls and restarts commute with the abstraction of a record,
    and what calls return is well-formed.

  \<^bold>\<open>Delegated scopes\<close> (\<open>scope.rs\<close>, \<open>scope_evidence.rs\<close>, \<open>src/crates/opaque-bounded-work/src/scope_store.rs\<close>).
  \<^item> \<open>Scope\<close>: grants, prepared actions, admission evidence and delegation, with what narrowing means for a chain.
  \<^item> \<open>Scope_Evidence\<close>: the export of a ledger and its validator; \<open>Scope_Validity\<close> states what the validator accepts.
  \<^item> \<open>Scope_Store\<close>: every operation of the ledger, its transaction, exports, opening and recovery; \<open>Scope_Steps\<close> and
    \<open>Scope_Changes\<close>: how each change of the tables keeps an export valid; \<open>Scope_Ledger\<close>: the invariant of the
    tables and that every operation keeps it; \<open>Scope_Properties\<close> interprets the contract of \<open>Ledger\<close> on this store:
    dispatch is claimed at most once and only under a live chain of grants, budgets are exact, every reachable ledger
    reopens and exports extend each other.
  \<^item> \<open>Scope_Review\<close> (\<open>scope_review.rs\<close>): the review requests, acknowledgements, decisions and receipts, and the check of
    the reviews of an export (\<open>verify_reviews\<close>).  \<open>Review_Properties\<close>: work claimed for dispatch in an export that
    passes was approved by a reviewer other than the requester, and the protocol completes for honest parties.

  \<^bold>\<open>Evidence checkpoints\<close> (\<open>evidence_checkpoint.rs\<close>, \<open>audit/checkpoint.rs\<close>).  \<open>Audit_Export\<close>: the JSON-lines export
  of the audit log, its summary of ranges and gaps, the verified snapshot and the upgrade of legacy rows.
  \<open>Evidence_Checkpoint\<close>: signed checkpoints of audit and scope exports, retention receipts and the verification of
  both.  \<open>Checkpoint_Properties\<close>: a checkpoint that verifies describes the bytes it is checked against, the checkpoints a
  service creates verify, and a stream of them never forks or rewinds.

  \<^bold>\<open>Identity and remote approval\<close> (\<open>identity.rs\<close>, \<open>workstation.rs\<close>).  \<open>Identity\<close>: principals, roles, delegation
  tokens and issuers; \<open>Workstation\<close>: the signed review protocol.  Tokens and receipts are accepted only when
  authentic, the signed bytes determine what was decided, and notices and tokens round-trip.

  \<^bold>\<open>Custody\<close> (\<open>trust_domain.rs\<close>, \<open>src/crates/opaqued/src/trust_domain.rs\<close>).  \<open>Custody\<close>: the custody set, its
  verification over a file system given by \<open>lstat\<close> and \<open>chmod\<close>, tightening of modes and the startup check.  An enforced
  start means exclusive custody of every state file; drift of the daemon's own files is healed; a link in place of the
  state directory itself goes unnoticed.

  \<^bold>\<open>The enforcement funnel\<close> (\<open>operation.rs\<close>, \<open>workload.rs\<close>, \<open>policy.rs\<close>, \<open>src/crates/opaque-policy-kernel\<close>,
  \<open>validate.rs\<close>, \<open>sanitize.rs\<close>, \<open>rate_limit.rs\<close>, \<open>src/crates/opaqued/src/enclave.rs\<close> and \<open>enclave/action.rs\<close>).
  \<^item> \<open>Request\<close>, \<open>Policy\<close>, \<open>Validate\<close>, \<open>Sanitize\<close>: requests and their content hash, the policy engine (equal to
    first-match over the declarative meaning of a rule), validation and scrubbing of texts.
  \<^item> \<open>Rate_Limit\<close> states the contract of a sliding window once, as a locale, interpreted on both rate limiters.
  \<^item> \<open>Lease\<close>, \<open>Enclave\<close>: the lease cache and the funnel; \<open>Enclave_System\<close> interleaves any number of requests,
    policy swaps and disconnections; \<open>Enclave_Allowance\<close> tracks first-use allowances; \<open>Enclave_Properties\<close>: nothing is
    dispatched without authority, allowances are never stretched, prompts are bounded.  \<open>Approval_Binding\<close>: what
    lease keys and content hashes bind.

  \<^bold>\<open>Audit\<close> (\<open>audit.rs\<close>).  \<open>Audit_Event\<close>, \<open>Audit_Chain\<close>, \<open>Audit_Store\<close>, \<open>Audit_Sink\<close>: events, the HMAC
  chain with its head and retention boundary, and the asynchronous sink under crashes.  \<open>Audit_Properties\<close>: the chain
  is always intact, numbers are never reused, a successful flush means durability, and whatever verifies is a stretch
  of the genuine log.

  \<^bold>\<open>Bounds.\<close>  Every definition is total.  The one loop of the code that counts no steps, the upward walk of the
  evidence replay (\<open>walk_issued\<close>), has as many steps as there are scopes, and running out is the value \<open>Diverges\<close>,
  which the validator is proved never to return.  A restart of the scope ledger needs room for its interruption events
  below $2^{63}$.  Two runs are cut short: the funnel's theorem speaks of runs
  with fewer than $2^{64}$ policy swaps (the generation counter), the audit sink's of fewer than $2^{64}$ events (the
  sequence counter).

  \<^bold>\<open>Not modelled.\<close>  Command-line programs, user interfaces and the showcase; HTTP, sockets, sandboxes and provider
  clients, whose behaviour is that of the operating system or a remote service; SQLite itself;
  serialization formats, which are parameters.  Bundle, attestation-report and resource-token verification
  (\<open>bundle.rs\<close>, \<open>attest.rs\<close>, \<open>resource_auth.rs\<close>) and the config seal are logic that could be modelled and is not
  covered.  The manifest lists every part with its reason.
\<close>

end
